(* ===== verification/Prelude.thy ===== *)
theory Prelude
  imports Main "HOL-Library.Word"
begin

text \<open>
  What every component shares: the machine types of the C sources, the outcome of a C call
  (\<open>res\<close>), commands over a state, the allocation script, and the list, word and
  bit lemmas that more than one component uses.

  A C function that returns an error code becomes a command: a function from a state to an
  outcome and the state it leaves. \<open>Ok v\<close> is \<open>MOSQ_ERR_SUCCESS\<close> with the values the
  function stores through its out parameters, \<open>Err e\<close> is any other code, and \<open>Fault\<close> is
  behaviour the C standard leaves undefined or that aborts the process: an access outside a
  buffer, a NULL dereference, a failed \<open>assert\<close>. A theorem that an operation never
  yields \<open>Fault\<close> is therefore its memory safety.
\<close>

unbundle bit_operations_syntax

section \<open>Machine types\<close>

type_synonym byte = "8 word"
type_synonym uint16 = "16 word"
type_synonym uint32 = "32 word"

text \<open>
  Proof hints: \<open>cmd_simps\<close> runs commands, \<open>frame_simps\<close> says what an operation leaves
  alone, \<open>safe_intros\<close> composes safety of commands.
\<close>

named_theorems cmd_simps
named_theorems frame_simps
named_theorems safe_intros

section \<open>Error codes (mosquitto.h, enum mosq_err_t)\<close>

datatype mosq_err =
    MOSQ_ERR_AUTH_CONTINUE
  | MOSQ_ERR_NO_SUBSCRIBERS
  | MOSQ_ERR_SUB_EXISTS
  | MOSQ_ERR_CONN_PENDING
  | MOSQ_ERR_SUCCESS
  | MOSQ_ERR_NOMEM
  | MOSQ_ERR_PROTOCOL
  | MOSQ_ERR_INVAL
  | MOSQ_ERR_NO_CONN
  | MOSQ_ERR_CONN_REFUSED
  | MOSQ_ERR_NOT_FOUND
  | MOSQ_ERR_CONN_LOST
  | MOSQ_ERR_TLS
  | MOSQ_ERR_PAYLOAD_SIZE
  | MOSQ_ERR_NOT_SUPPORTED
  | MOSQ_ERR_AUTH
  | MOSQ_ERR_ACL_DENIED
  | MOSQ_ERR_UNKNOWN
  | MOSQ_ERR_ERRNO
  | MOSQ_ERR_EAI
  | MOSQ_ERR_PROXY
  | MOSQ_ERR_PLUGIN_DEFER
  | MOSQ_ERR_MALFORMED_UTF8
  | MOSQ_ERR_KEEPALIVE
  | MOSQ_ERR_LOOKUP
  | MOSQ_ERR_MALFORMED_PACKET
  | MOSQ_ERR_DUPLICATE_PROPERTY
  | MOSQ_ERR_TLS_HANDSHAKE
  | MOSQ_ERR_QOS_NOT_SUPPORTED
  | MOSQ_ERR_OVERSIZE_PACKET
  | MOSQ_ERR_OCSP
  | MOSQ_ERR_TIMEOUT
  | MOSQ_ERR_RETAIN_NOT_SUPPORTED
  | MOSQ_ERR_TOPIC_ALIAS_INVALID
  | MOSQ_ERR_ADMINISTRATIVE_ACTION
  | MOSQ_ERR_ALREADY_EXISTS

section \<open>Outcomes and commands\<close>

datatype 'a res = Ok 'a | Err mosq_err | Fault

type_synonym ('s, 'a) cmd = "'s \<Rightarrow> 'a res \<times> 's"

definition ret :: "'a \<Rightarrow> ('s, 'a) cmd" where
  "ret a s = (Ok a, s)"

definition throw :: "mosq_err \<Rightarrow> ('s, 'a) cmd" where
  "throw e s = (Err e, s)"

definition fault :: "('s, 'a) cmd" where
  "fault s = (Fault, s)"

text \<open>\<open>rc = c(); if(rc) return rc; ...\<close>\<close>

definition then_do :: "('s, 'a) cmd \<Rightarrow> ('a \<Rightarrow> ('s, 'b) cmd) \<Rightarrow> ('s, 'b) cmd" where
  "then_do c f s = (case c s of
      (Ok a, s') \<Rightarrow> f a s'
    | (Err e, s') \<Rightarrow> (Err e, s')
    | (Fault, s') \<Rightarrow> (Fault, s'))"

text \<open>\<open>rc = c();\<close> with the code kept as a value.\<close>

definition rc_of :: "('s, unit) cmd \<Rightarrow> ('s, mosq_err) cmd" where
  "rc_of c s = (case c s of
      (Ok _, s') \<Rightarrow> (Ok MOSQ_ERR_SUCCESS, s')
    | (Err e, s') \<Rightarrow> (Ok e, s')
    | (Fault, s') \<Rightarrow> (Fault, s'))"

text \<open>\<open>return rc;\<close>\<close>

definition return_rc :: "mosq_err \<Rightarrow> ('s, unit) cmd" where
  "return_rc e = (if e = MOSQ_ERR_SUCCESS then ret () else throw e)"

text \<open>\<open>c();\<close> with the returned code dropped.\<close>

definition ignore_rc :: "('s, unit) cmd \<Rightarrow> ('s, unit) cmd" where
  "ignore_rc c = then_do (rc_of c) (\<lambda>_. ret ())"

definition get_st :: "('s, 's) cmd" where
  "get_st s = (Ok s, s)"

definition modify :: "('s \<Rightarrow> 's) \<Rightarrow> ('s, unit) cmd" where
  "modify f s = (Ok (), f s)"

definition guard_err :: "bool \<Rightarrow> mosq_err \<Rightarrow> ('s, unit) cmd" where
  "guard_err b e = (if b then throw e else ret ())"

lemma cmd_run [cmd_simps]:
  "ret a s = (Ok a, s)"
  "throw e s = (Err e, s)"
  "fault s = (Fault, s)"
  "get_st s = (Ok s, s)"
  "modify f s = (Ok (), f s)"
  by (simp_all add: ret_def throw_def fault_def get_st_def modify_def)

lemma guard_err_run [cmd_simps]:
  "guard_err b e s = (if b then (Err e, s) else (Ok (), s))"
  by (simp add: guard_err_def cmd_run)

lemma return_rc_run [cmd_simps]:
  "return_rc e s = (if e = MOSQ_ERR_SUCCESS then (Ok (), s) else (Err e, s))"
  by (simp add: return_rc_def cmd_run)

lemma then_do_Ok [cmd_simps]: "c s = (Ok a, s') \<Longrightarrow> then_do c f s = f a s'"
  by (simp add: then_do_def)

lemma then_do_Err [cmd_simps]: "c s = (Err e, s') \<Longrightarrow> then_do c f s = (Err e, s')"
  by (simp add: then_do_def)

lemma then_do_Fault [cmd_simps]: "c s = (Fault, s') \<Longrightarrow> then_do c f s = (Fault, s')"
  by (simp add: then_do_def)

lemma then_do_OkE:
  assumes "then_do c f s = (Ok b, t)"
  obtains a s' where "c s = (Ok a, s')" "f a s' = (Ok b, t)"
  using assms by (auto simp: then_do_def split: prod.splits res.splits)

lemma then_do_cases:
  assumes "then_do c f s = (r, t)"
  obtains (ok) a s' where "c s = (Ok a, s')" "f a s' = (r, t)"
    | (err) e where "c s = (Err e, t)" "r = Err e"
    | (flt) "c s = (Fault, t)" "r = Fault"
  using assms by (auto simp: then_do_def split: prod.splits res.splits)

section \<open>The allocation script\<close>

text \<open>
  Memory comes from the C library. A heap holds the outcomes of the allocations still to come
  (\<open>True\<close>: the call returns memory, \<open>False\<close>: it returns NULL), after which every
  allocation succeeds, and the arbitrary bytes that fresh memory holds. A theorem over an
  arbitrary heap therefore covers every pattern of allocation failures and every content of
  uninitialised memory; \<open>never_fails\<close> is a run in which no allocation fails.
\<close>

record heap =
  h_script :: "bool list"
  h_junk :: "nat \<Rightarrow> byte"

definition alloc :: "heap \<Rightarrow> bool \<times> heap" where
  "alloc h = (case h_script h of
      [] \<Rightarrow> (True, h)
    | b # bs \<Rightarrow> (b, h\<lparr>h_script := bs\<rparr>))"

definition fresh_bytes :: "heap \<Rightarrow> nat \<Rightarrow> byte list" where
  "fresh_bytes h n = map (h_junk h) [0..<n]"

definition never_fails :: "heap \<Rightarrow> bool" where
  "never_fails h = (h_script h = [])"

lemma alloc_never_fails [simp]: "never_fails h \<Longrightarrow> alloc h = (True, h)"
  by (simp add: alloc_def never_fails_def)

lemma length_fresh_bytes [simp]: "length (fresh_bytes h n) = n"
  by (simp add: fresh_bytes_def)

section \<open>Lists\<close>

text \<open>The \<open>n\<close> bytes at offset \<open>i\<close> of a buffer, and storing bytes at an offset.\<close>

definition sub_bytes :: "nat \<Rightarrow> nat \<Rightarrow> 'a list \<Rightarrow> 'a list" where
  "sub_bytes i n xs = take n (drop i xs)"

definition store :: "nat \<Rightarrow> 'a list \<Rightarrow> 'a list \<Rightarrow> 'a list" where
  "store i ys xs = take i xs @ ys @ drop (i + length ys) xs"

lemma length_sub_bytes [simp]: "i + n \<le> length xs \<Longrightarrow> length (sub_bytes i n xs) = n"
  by (simp add: sub_bytes_def)

lemma sub_bytes_0 [simp]: "sub_bytes i 0 xs = []"
  by (simp add: sub_bytes_def)

lemma length_store [simp]: "i + length ys \<le> length xs \<Longrightarrow> length (store i ys xs) = length xs"
  by (simp add: store_def)

lemma take_store: "i \<le> length xs \<Longrightarrow> take (i + length ys) (store i ys xs) = take i xs @ ys"
  by (simp add: store_def min_def)

lemma store_one: "i < length xs \<Longrightarrow> store i [y] xs = xs[i := y]"
  by (simp add: store_def upd_conv_take_nth_drop)

lemma store_store:
  "i + length ys \<le> length xs \<Longrightarrow>
   store (i + length ys) zs (store i ys xs) = store i (ys @ zs) xs"
  by (cases "length xs \<le> i"; cases ys) (simp_all add: store_def min_def algebra_simps)

section \<open>Bytes\<close>

text \<open>A statement about one byte is a statement about the 256 values.\<close>

lemma byte_exhaust:
  fixes b :: byte
  assumes "list_all (\<lambda>n. P (word_of_nat n)) [0..<256]"
  shows "P b"
proof -
  have "unat b < 256"
    using unsigned_less [of b] by simp
  then have "unat b \<in> set [0..<256]"
    by simp
  with assms have "P (word_of_nat (unat b))"
    unfolding list_all_iff by (rule bspec)
  then show ?thesis
    by simp
qed

lemma and_not_mask_nat:
  fixes w :: "'a::len word"
  shows "unat (w AND NOT (mask k)) = unat w div 2 ^ k * 2 ^ k"
proof -
  have "w AND NOT (mask k) = push_bit k (drop_bit k w)"
    by (rule bit_word_eqI) (auto simp: bit_simps)
  moreover have "unat (push_bit k (drop_bit k w)) = push_bit k (drop_bit k (unat w))"
  proof -
    have "push_bit k (drop_bit k (unat w)) \<le> unat w"
      using bits_ident [of k "unat w"] by linarith
    then have "push_bit k (drop_bit k (unat w)) < 2 ^ LENGTH('a)"
      using unsigned_less [of w] by (rule le_less_trans)
    then show ?thesis
      by (simp add: unsigned_push_bit_eq unsigned_drop_bit_eq take_bit_nat_eq_self)
  qed
  ultimately show ?thesis
    by (simp add: push_bit_eq_mult drop_bit_eq_div)
qed

lemma and_mask_nat:
  fixes w :: "'a::len word"
  shows "unat (w AND mask k) = unat w mod 2 ^ k"
proof -
  have "w AND mask k = take_bit k w"
    by (simp add: take_bit_eq_mask)
  also have "unat \<dots> = take_bit k (unat w)"
    by (rule unsigned_take_bit_eq)
  also have "\<dots> = unat w mod 2 ^ k"
    by (rule take_bit_eq_mod)
  finally show ?thesis .
qed

lemma byte_masks:
  "(0xC0 :: byte) = NOT (mask 6)" "(0xE0 :: byte) = NOT (mask 5)"
  "(0xF0 :: byte) = NOT (mask 4)" "(0xF8 :: byte) = NOT (mask 3)"
  "(0x3F :: byte) = mask 6" "(0x1F :: byte) = mask 5"
  "(0x0F :: byte) = mask 4" "(0x07 :: byte) = mask 3"
  by code_simp+

lemma unat_byte_and [simp]:
  fixes b :: byte
  shows "unat (b AND 0xC0) = unat b div 64 * 64" "unat (b AND 0xE0) = unat b div 32 * 32"
    "unat (b AND 0xF0) = unat b div 16 * 16" "unat (b AND 0xF8) = unat b div 8 * 8"
    "unat (b AND 0x3F) = unat b mod 64" "unat (b AND 0x1F) = unat b mod 32"
    "unat (b AND 0x0F) = unat b mod 16" "unat (b AND 0x07) = unat b mod 8"
  by (simp_all only: byte_masks and_not_mask_nat and_mask_nat) simp_all

lemma nat_div_eq_iff: "0 < d \<Longrightarrow> n div d = q \<longleftrightarrow> q * d \<le> n \<and> n < Suc q * d" for n d q :: nat
  by (metis div_nat_eqI div_times_less_eq_dividend dividend_less_div_times mult.commute mult_Suc)

lemma unat_ucast_up:
  fixes w :: "'a::len word"
  assumes "LENGTH('a) \<le> LENGTH('b::len)"
  shows "unat (ucast w :: 'b word) = unat w"
proof -
  have "unat w < 2 ^ LENGTH('a)" by (rule unsigned_less)
  also have "\<dots> \<le> 2 ^ LENGTH('b)" using assms by (rule power_increasing) simp
  finally show ?thesis by (simp add: unsigned_ucast_eq take_bit_nat_eq_self)
qed

lemma unat_ucast_simps [simp]:
  "unat (ucast (w :: uint16) :: uint32) = unat w" "unat (ucast (b :: byte) :: uint32) = unat b"
  "unat (ucast (b :: byte) :: uint16) = unat b"
  by (simp_all add: unat_ucast_up)

lemma unat_of_nat_less:
  "n < 2 ^ LENGTH('a::len) \<Longrightarrow> unat (word_of_nat n :: 'a word) = n"
  by (simp add: unsigned_of_nat take_bit_nat_eq_self)

end
