(* ===== verification/Utf8.thy ===== *)
theory Utf8
  imports Prelude
begin

text \<open>
  UTF-8 validation, utf8_mosq.c. The function takes a pointer and a length; the model takes the
  buffer behind the pointer (\<open>None\<close> for NULL), which is longer than the length where the
  caller's string has its terminating NUL, and a read past the buffer is a \<open>Fault\<close>.
  The specification is an encoder: a string is accepted exactly when it is the encoding of a
  sequence of the code points MQTT allows.
\<close>

unbundle bit_operations_syntax

section \<open>The code\<close>

text \<open>The lead byte gives the length of the sequence and the first bits of the code point.\<close>

definition utf8_lead :: "byte \<Rightarrow> (nat \<times> uint32) res" where
  "utf8_lead b =
     (if b = 0 then Err MOSQ_ERR_MALFORMED_UTF8
      else if b \<le> 0x7F then Ok (1, ucast b)
      else if b AND 0xE0 = 0xC0 then
        (if b = 0xC0 \<or> b = 0xC1 then Err MOSQ_ERR_MALFORMED_UTF8
         else Ok (2, ucast (b AND 0x1F)))
      else if b AND 0xF0 = 0xE0 then Ok (3, ucast (b AND 0x0F))
      else if b AND 0xF8 = 0xF0 then
        (if b > 0xF4 then Err MOSQ_ERR_MALFORMED_UTF8
         else Ok (4, ucast (b AND 0x07)))
      else Err MOSQ_ERR_MALFORMED_UTF8)"

text \<open>\<open>for(j=0; j<codelen-1; j++){ if((ustr[++i] & 0xC0) != 0x80) ... }\<close>\<close>

fun utf8_cont :: "byte list \<Rightarrow> nat \<Rightarrow> nat \<Rightarrow> uint32 \<Rightarrow> (nat \<times> uint32) res" where
  "utf8_cont buf 0 i codepoint = Ok (i, codepoint)"
| "utf8_cont buf (Suc k) i codepoint =
     (if length buf \<le> Suc i then Fault
      else if buf ! Suc i AND 0xC0 \<noteq> 0x80 then Err MOSQ_ERR_MALFORMED_UTF8
      else utf8_cont buf k (Suc i)
             (push_bit 6 codepoint OR ucast (buf ! Suc i AND 0x3F)))"

text \<open>The checks on the finished code point: surrogates, overlong forms, non-characters,
  control characters.\<close>

definition utf8_codepoint_ok :: "nat \<Rightarrow> uint32 \<Rightarrow> bool" where
  "utf8_codepoint_ok codelen codepoint =
     (\<not> (codepoint \<ge> 0xD800 \<and> codepoint \<le> 0xDFFF)
      \<and> \<not> (codelen = 3 \<and> codepoint < 0x0800)
      \<and> \<not> (codelen = 4 \<and> (codepoint < 0x10000 \<or> codepoint > 0x10FFFF))
      \<and> \<not> (codepoint \<ge> 0xFDD0 \<and> codepoint \<le> 0xFDEF)
      \<and> \<not> (codepoint AND 0xFFFF = 0xFFFE \<or> codepoint AND 0xFFFF = 0xFFFF)
      \<and> \<not> (codepoint \<le> 0x001F \<or> (codepoint \<ge> 0x007F \<and> codepoint \<le> 0x009F)))"

lemma utf8_cont_index: "utf8_cont buf k i c = Ok (j, d) \<Longrightarrow> j = i + k"
  by (induction buf k i c rule: utf8_cont.induct) (auto split: if_splits)

text \<open>The \<open>for\<close> loop over the string, from index \<open>i\<close>.\<close>

function utf8_loop :: "byte list \<Rightarrow> nat \<Rightarrow> nat \<Rightarrow> unit res" where
  "utf8_loop buf len i =
     (if i < len then
        (if length buf \<le> i then Fault
         else case utf8_lead (buf ! i) of
             Err e \<Rightarrow> Err e
           | Fault \<Rightarrow> Fault
           | Ok (codelen, codepoint) \<Rightarrow>
               (if int i = int len - int codelen + 1 then Err MOSQ_ERR_MALFORMED_UTF8
                else case utf8_cont buf (codelen - 1) i codepoint of
                    Err e \<Rightarrow> Err e
                  | Fault \<Rightarrow> Fault
                  | Ok (i', codepoint') \<Rightarrow>
                      (if \<not> utf8_codepoint_ok codelen codepoint'
                       then Err MOSQ_ERR_MALFORMED_UTF8
                       else utf8_loop buf len (Suc i'))))
      else Ok ())"
  by pat_completeness auto
termination
  by (relation "measure (\<lambda>(buf, len, i). len - i)") (auto dest: utf8_cont_index)

declare utf8_loop.simps [simp del]

definition mosquitto_validate_utf8 :: "byte list option \<Rightarrow> int \<Rightarrow> unit res" where
  "mosquitto_validate_utf8 str len =
     (case str of
        None \<Rightarrow> Err MOSQ_ERR_INVAL
      | Some ustr \<Rightarrow>
          (if len < 0 \<or> len > 65536 then Err MOSQ_ERR_INVAL
           else utf8_loop ustr (nat len) 0))"

section \<open>The specification\<close>

text \<open>The UTF-8 encoding of a code point (RFC 3629).\<close>

definition utf8_encode :: "nat \<Rightarrow> byte list" where
  "utf8_encode c =
     (if c < 0x80 then [word_of_nat c]
      else if c < 0x800 then [word_of_nat (0xC0 + c div 64), word_of_nat (0x80 + c mod 64)]
      else if c < 0x10000 then
        [word_of_nat (0xE0 + c div 4096), word_of_nat (0x80 + c div 64 mod 64),
         word_of_nat (0x80 + c mod 64)]
      else
        [word_of_nat (0xF0 + c div 262144), word_of_nat (0x80 + c div 4096 mod 64),
         word_of_nat (0x80 + c div 64 mod 64), word_of_nat (0x80 + c mod 64)])"

text \<open>
  The code points an MQTT string may hold here: Unicode scalar values without the control
  characters U+0000..U+001F and U+007F..U+009F and without the non-characters.
\<close>

definition mqtt_codepoint :: "nat \<Rightarrow> bool" where
  "mqtt_codepoint c =
     (0x20 \<le> c \<and> c \<le> 0x10FFFF
      \<and> \<not> (0x7F \<le> c \<and> c \<le> 0x9F)
      \<and> \<not> (0xD800 \<le> c \<and> c \<le> 0xDFFF)
      \<and> \<not> (0xFDD0 \<le> c \<and> c \<le> 0xFDEF)
      \<and> c mod 0x10000 \<noteq> 0xFFFE \<and> c mod 0x10000 \<noteq> 0xFFFF)"

section \<open>Bytes and code points as numbers\<close>

lemma utf8_lead_nat:
  "utf8_lead b =
     (if 0 < unat b \<and> unat b < 128 then Ok (1, word_of_nat (unat b))
      else if 194 \<le> unat b \<and> unat b < 224 then Ok (2, word_of_nat (unat b - 192))
      else if 224 \<le> unat b \<and> unat b < 240 then Ok (3, word_of_nat (unat b - 224))
      else if 240 \<le> unat b \<and> unat b \<le> 244 then Ok (4, word_of_nat (unat b - 240))
      else Err MOSQ_ERR_MALFORMED_UTF8)"
proof -
  define n where "n = unat b"
  have lt: "n < 256" using unsigned_less [of b] by (simp add: n_def)
  have eq: "x = y \<longleftrightarrow> unat x = unat y" for x y :: byte
    by (simp add: word_unat_eq_iff)
  have uc: "ucast x = (word_of_nat (unat x) :: uint32)" for x :: byte
    by simp
  have c2: "n div 32 = 6 \<longleftrightarrow> 192 \<le> n \<and> n < 224"
    and c3: "n div 16 = 14 \<longleftrightarrow> 224 \<le> n \<and> n < 240"
    and c4: "n div 8 = 30 \<longleftrightarrow> 240 \<le> n \<and> n < 248"
    by (simp_all add: nat_div_eq_iff)
  have m: "192 \<le> n \<Longrightarrow> n < 224 \<Longrightarrow> n mod 32 = n - 192"
    "224 \<le> n \<Longrightarrow> n < 240 \<Longrightarrow> n mod 16 = n - 224"
    "240 \<le> n \<Longrightarrow> n < 248 \<Longrightarrow> n mod 8 = n - 240"
    using c2 c3 c4 minus_mult_div_eq_mod [of n 32] minus_mult_div_eq_mod [of n 16]
      minus_mult_div_eq_mod [of n 8]
    by simp_all
  have cast: "ucast b = (word_of_nat n :: uint32)"
    "ucast (b AND 0x1F) = (word_of_nat (n mod 32) :: uint32)"
    "ucast (b AND 0x0F) = (word_of_nat (n mod 16) :: uint32)"
    "ucast (b AND 0x07) = (word_of_nat (n mod 8) :: uint32)"
    by (simp_all only: uc unat_byte_and n_def)
  have cmp: "b = 0 \<longleftrightarrow> n = 0" "b \<le> 0x7F \<longleftrightarrow> n \<le> 127" "b > 0xF4 \<longleftrightarrow> n > 244"
    "b = 0xC0 \<longleftrightarrow> n = 192" "b = 0xC1 \<longleftrightarrow> n = 193"
    "b AND 0xE0 = 0xC0 \<longleftrightarrow> n div 32 = 6" "b AND 0xF0 = 0xE0 \<longleftrightarrow> n div 16 = 14"
    "b AND 0xF8 = 0xF0 \<longleftrightarrow> n div 8 = 30"
    by (simp_all add: eq word_le_nat_alt word_less_nat_alt n_def)
  show ?thesis
    unfolding utf8_lead_def cast cmp n_def [symmetric] using lt m by (auto simp: c2 c3 c4)
qed
lemma cont_byte_iff: "b AND 0xC0 = (0x80 :: byte) \<longleftrightarrow> 128 \<le> unat b \<and> unat b < 192"
  by (simp add: word_unat_eq_iff nat_div_eq_iff)

lemma cont_bits:
  "push_bit 6 (word_of_nat n) OR ucast (b AND 0x3F) = (word_of_nat (64 * n + unat b mod 64) :: uint32)"
  for b :: byte
proof -
  define v :: uint32 where "v = ucast (b AND 0x3F)"
  have v: "v = word_of_nat (unat b mod 64)"
    by (simp add: v_def flip: unat_byte_and)
  have "push_bit 6 (word_of_nat n) AND v = 0"
    by (rule bit_word_eqI) (auto simp: v_def byte_masks bit_simps)
  then have "push_bit 6 (word_of_nat n) OR v = push_bit 6 (word_of_nat n) + v"
    by (simp add: disjunctive_add_eq_or)
  also have "\<dots> = word_of_nat (64 * n + unat b mod 64)"
    by (simp add: v push_bit_eq_mult)
  finally show ?thesis
    by (simp add: v_def)
qed

lemma codepoint_ok_nat:
  assumes "n < 2 ^ 31"
  shows "utf8_codepoint_ok k (word_of_nat n) \<longleftrightarrow>
    \<not> (0xD800 \<le> n \<and> n \<le> 0xDFFF)
      \<and> \<not> (k = 3 \<and> n < 0x0800)
      \<and> \<not> (k = 4 \<and> (n < 0x10000 \<or> n > 0x10FFFF))
      \<and> \<not> (0xFDD0 \<le> n \<and> n \<le> 0xFDEF)
      \<and> \<not> (n mod 0x10000 = 0xFFFE \<or> n mod 0x10000 = 0xFFFF)
      \<and> \<not> (n \<le> 0x1F \<or> (0x7F \<le> n \<and> n \<le> 0x9F))"
proof -
  have u: "unat (word_of_nat n :: uint32) = n"
    using assms by (simp add: unat_of_nat)
  have m: "(0xFFFF :: uint32) = mask 16"
    by code_simp
  have a: "(word_of_nat n :: uint32) AND 0xFFFF = x \<longleftrightarrow> n mod 0x10000 = unat x" for x
    by (simp only: word_unat_eq_iff m and_mask_nat u) simp
  show ?thesis
    unfolding utf8_codepoint_ok_def a word_le_nat_alt word_less_nat_alt u by simp
qed

section \<open>One sequence\<close>

text \<open>A multi-byte code point as the digits its bytes carry.\<close>

lemma cont_digit: "y < 64 \<Longrightarrow> (128 + y) mod 64 = (y :: nat)"
  using mod_mult_self1 [of y 2 64] by (simp add: add.commute)

lemma digits3: "64 * (64 * (c div 4096) + c div 64 mod 64) + c mod 64 = (c :: nat)"
  using div_mult2_eq [of c 64 64] by simp

lemma digits4:
  "64 * (64 * (64 * (c div 262144) + c div 4096 mod 64) + c div 64 mod 64) + c mod 64 = (c :: nat)"
  using div_mult2_eq [of c 4096 64] digits3 [of c] by simp

lemma utf8_cont_step:
  assumes "Suc i < length buf" "unat (buf ! Suc i) = 128 + y" "y < 64"
  shows "utf8_cont buf (Suc k) i (word_of_nat n) = utf8_cont buf k (Suc i) (word_of_nat (64 * n + y))"
  using assms by (simp add: cont_byte_iff cont_bits cont_digit)

lemma utf8_cont_Ok_step:
  assumes "utf8_cont buf (Suc k) i (word_of_nat n) = Ok r"
  shows "Suc i < length buf \<and> 128 \<le> unat (buf ! Suc i) \<and> unat (buf ! Suc i) < 192 \<and>
    utf8_cont buf k (Suc i) (word_of_nat (64 * n + unat (buf ! Suc i) mod 64)) = Ok r"
  using assms by (auto simp: cont_byte_iff cont_bits split: if_splits)

text \<open>What one turn of the loop does when the lead byte and the code point are accepted.\<close>

lemma utf8_loop_step:
  assumes "i < len" "i < length buf" "utf8_lead (buf ! i) = Ok (k, c)"
    and "int i \<noteq> int len - int k + 1" "utf8_cont buf (k - 1) i c = Ok (j, d)"
    and "utf8_codepoint_ok k d"
  shows "utf8_loop buf len i = utf8_loop buf len (Suc j)"
  using assms by (subst utf8_loop.simps) simp

lemma utf8_loop_OkE:
  assumes "utf8_loop buf len i = Ok ()" "i < len"
  obtains k c j d where "i < length buf" "utf8_lead (buf ! i) = Ok (k, c)"
    "utf8_cont buf (k - 1) i c = Ok (j, d)" "utf8_codepoint_ok k d"
    "utf8_loop buf len (Suc j) = Ok ()"
  using assms by (subst (asm) utf8_loop.simps) (auto split: if_splits res.splits prod.splits)

text \<open>An encoded code point in the buffer is consumed.\<close>

lemma utf8_encode_nth:
  assumes "drop i buf = ys @ rest" "n < length ys"
  shows "i + n < length buf \<and> buf ! (i + n) = ys ! n"
proof -
  have "length buf - i = length ys + length rest"
    using assms(1) by (metis length_append length_drop)
  then have "i + n < length buf"
    using assms(2) by simp
  moreover have "buf ! (i + n) = drop i buf ! n"
    using \<open>i + n < length buf\<close> by simp
  ultimately show ?thesis
    using assms by (simp add: nth_append)
qed

lemma unat_word_byte: "n < 256 \<Longrightarrow> unat (word_of_nat n :: byte) = n"
  by (simp add: unat_of_nat)

lemma mqtt_codepoint_ok:
  assumes "mqtt_codepoint c" "k = 3 \<longrightarrow> 0x800 \<le> c" "k = 4 \<longrightarrow> 0x10000 \<le> c"
  shows "utf8_codepoint_ok k (word_of_nat c)"
  using assms by (subst codepoint_ok_nat) (auto simp: mqtt_codepoint_def)

lemma utf8_loop_encode1:
  assumes "mqtt_codepoint c" "drop i buf = utf8_encode c @ rest" "i + 1 \<le> len" "c < 0x80"
  shows "utf8_loop buf len i = utf8_loop buf len (i + 1)"
proof -
  have b: "i < length buf" "unat (buf ! i) = c"
    using utf8_encode_nth [OF assms(2), of 0] assms(4) by (simp_all add: utf8_encode_def unat_word_byte)
  then have "utf8_lead (buf ! i) = Ok (1, word_of_nat c)"
    using assms(1,4) by (simp add: utf8_lead_nat mqtt_codepoint_def)
  then show ?thesis
    using utf8_loop_step [of i len buf 1 "word_of_nat c" i "word_of_nat c"] b
      mqtt_codepoint_ok [OF assms(1), of 1] assms(3)
    by simp
qed

lemma utf8_loop_encode2:
  assumes "mqtt_codepoint c" "drop i buf = utf8_encode c @ rest" "i + 2 \<le> len"
    and c: "0x80 \<le> c" "c < 0x800"
  shows "utf8_loop buf len i = utf8_loop buf len (i + 2)"
proof -
  define x y where "x = c div 64" and "y = c mod 64"
  have xy: "2 \<le> x" "x < 32" "y < 64" "64 * x + y = c"
    using c by (auto simp: x_def y_def)
  have e: "utf8_encode c = [word_of_nat (0xC0 + x), word_of_nat (0x80 + y)]"
    using c by (simp add: utf8_encode_def x_def y_def)
  note nth = utf8_encode_nth [OF assms(2)]
  have b: "i < length buf" "Suc i < length buf" "unat (buf ! i) = 192 + x"
    "unat (buf ! Suc i) = 128 + y"
    using nth [of 0] nth [of 1] xy by (simp_all add: e unat_word_byte del: of_nat_add)
  have l: "utf8_lead (buf ! i) = Ok (2, word_of_nat x)"
    using b xy by (simp add: utf8_lead_nat)
  have "utf8_cont buf 1 i (word_of_nat x) = Ok (Suc i, word_of_nat c)"
    using utf8_cont_step [of i buf y 0 x] b xy by simp
  then show ?thesis
    using utf8_loop_step [OF _ b(1) l] b mqtt_codepoint_ok [OF assms(1), of 2] assms(3) by simp
qed

lemma utf8_loop_encode3:
  assumes "mqtt_codepoint c" "drop i buf = utf8_encode c @ rest" "i + 3 \<le> len"
    and c: "0x800 \<le> c" "c < 0x10000"
  shows "utf8_loop buf len i = utf8_loop buf len (i + 3)"
proof -
  define x y z where "x = c div 4096" and "y = c div 64 mod 64" and "z = c mod 64"
  have xyz: "x < 16" "y < 64" "z < 64" "64 * (64 * x + y) + z = c"
    using c by (auto simp: x_def y_def z_def digits3 [simplified])
  have e: "utf8_encode c = [word_of_nat (0xE0 + x), word_of_nat (0x80 + y), word_of_nat (0x80 + z)]"
    using c by (simp add: utf8_encode_def x_def y_def z_def)
  note nth = utf8_encode_nth [OF assms(2)]
  have b: "i < length buf" "Suc i < length buf" "Suc (Suc i) < length buf"
    "unat (buf ! i) = 224 + x" "unat (buf ! Suc i) = 128 + y" "unat (buf ! Suc (Suc i)) = 128 + z"
    using nth [of 0] nth [of 1] nth [of 2] xyz by (simp_all add: e unat_word_byte del: of_nat_add)
  have l: "utf8_lead (buf ! i) = Ok (3, word_of_nat x)"
    using b xyz by (simp add: utf8_lead_nat)
  have "utf8_cont buf (Suc (Suc 0)) i (word_of_nat x) = Ok (Suc (Suc i), word_of_nat c)"
    using utf8_cont_step [of i buf y "Suc 0" x] utf8_cont_step [of "Suc i" buf z 0 "64 * x + y"] b xyz
    by (simp del: of_nat_add of_nat_mult utf8_cont.simps(2))
  then show ?thesis
    using utf8_loop_step [OF _ b(1) l] b c mqtt_codepoint_ok [OF assms(1), of 3] assms(3)
    by (simp add: numeral_2_eq_2 numeral_3_eq_3)
qed

lemma numeral_4_eq_4: "4 = Suc (Suc (Suc (Suc 0)))"
  by simp

lemma utf8_loop_encode4:
  assumes "mqtt_codepoint c" "drop i buf = utf8_encode c @ rest" "i + 4 \<le> len"
    and c: "0x10000 \<le> c" "c \<le> 0x10FFFF"
  shows "utf8_loop buf len i = utf8_loop buf len (i + 4)"
proof -
  define x y z t where "x = c div 262144" and "y = c div 4096 mod 64"
    and "z = c div 64 mod 64" and "t = c mod 64"
  have xyz: "x \<le> 4" "y < 64" "z < 64" "t < 64" "64 * (64 * (64 * x + y) + z) + t = c"
    using c by (auto simp: x_def y_def z_def t_def digits4 [simplified])
  have e: "utf8_encode c = [word_of_nat (0xF0 + x), word_of_nat (0x80 + y),
      word_of_nat (0x80 + z), word_of_nat (0x80 + t)]"
    using c by (simp add: utf8_encode_def x_def y_def z_def t_def)
  note nth = utf8_encode_nth [OF assms(2)]
  have b: "i < length buf" "Suc i < length buf" "Suc (Suc i) < length buf" "Suc (Suc (Suc i)) < length buf"
    "unat (buf ! i) = 240 + x" "unat (buf ! Suc i) = 128 + y" "unat (buf ! Suc (Suc i)) = 128 + z"
    "unat (buf ! Suc (Suc (Suc i))) = 128 + t"
    using nth [of 0] nth [of 1] nth [of 2] nth [of 3] xyz
    by (simp_all add: e unat_word_byte numeral_2_eq_2 numeral_3_eq_3 del: of_nat_add)
  have l: "utf8_lead (buf ! i) = Ok (4, word_of_nat x)"
    using b xyz by (simp add: utf8_lead_nat)
  have "utf8_cont buf (Suc (Suc (Suc 0))) i (word_of_nat x) = Ok (Suc (Suc (Suc i)), word_of_nat c)"
    using utf8_cont_step [of i buf y "Suc (Suc 0)" x] utf8_cont_step [of "Suc i" buf z "Suc 0" "64 * x + y"]
      utf8_cont_step [of "Suc (Suc i)" buf t 0 "64 * (64 * x + y) + z"] b xyz
    by (simp del: of_nat_add of_nat_mult utf8_cont.simps(2))
  then show ?thesis
    using utf8_loop_step [OF _ b(1) l] b c mqtt_codepoint_ok [OF assms(1), of 4] assms(3)
    by (simp add: numeral_2_eq_2 numeral_3_eq_3 numeral_4_eq_4)
qed

lemma codepoint_range_cases:
  assumes "mqtt_codepoint c"
  obtains "c < 0x80" | "0x80 \<le> c" "c < 0x800" | "0x800 \<le> c" "c < 0x10000"
    | "0x10000 \<le> c" "c \<le> 0x10FFFF"
proof -
  have "c \<le> 0x10FFFF" using assms by (simp add: mqtt_codepoint_def)
  then show ?thesis using that by linarith
qed

lemma length_utf8_encode:
  "c < 0x80 \<Longrightarrow> length (utf8_encode c) = 1"
  "0x80 \<le> c \<Longrightarrow> c < 0x800 \<Longrightarrow> length (utf8_encode c) = 2"
  "0x800 \<le> c \<Longrightarrow> c < 0x10000 \<Longrightarrow> length (utf8_encode c) = 3"
  "0x10000 \<le> c \<Longrightarrow> length (utf8_encode c) = 4"
  by (simp_all add: utf8_encode_def)

lemma utf8_loop_encode:
  assumes "mqtt_codepoint c" "drop i buf = utf8_encode c @ rest" "i + length (utf8_encode c) \<le> len"
  shows "utf8_loop buf len i = utf8_loop buf len (i + length (utf8_encode c))"
  using assms(1)
proof (cases rule: codepoint_range_cases)
  case 1
  then show ?thesis using utf8_loop_encode1 [OF assms(1,2)] assms(3) by (simp add: length_utf8_encode)
next
  case 2
  then show ?thesis using utf8_loop_encode2 [OF assms(1,2)] assms(3) by (simp add: length_utf8_encode)
next
  case 3
  then show ?thesis using utf8_loop_encode3 [OF assms(1,2)] assms(3) by (simp add: length_utf8_encode)
next
  case 4
  then show ?thesis using utf8_loop_encode4 [OF assms(1,2)] assms(3) by (simp add: length_utf8_encode)
qed

section \<open>What an accepted sequence is\<close>

text \<open>Continuation bytes never reach past the terminating NUL.\<close>

lemma utf8_cont_inside:
  assumes "i < length bs"
  shows "utf8_cont (bs @ [0]) k i c \<noteq> Fault \<and>
    (\<forall>j d. utf8_cont (bs @ [0]) k i c = Ok (j, d) \<longrightarrow> j < length bs)"
  using assms
proof (induction k arbitrary: i c)
  case 0
  then show ?case by simp
next
  case (Suc k)
  show ?case
  proof (cases "Suc i < length bs")
    case True
    then show ?thesis using Suc.IH [OF True] by simp
  next
    case False
    then have "Suc i = length bs" using Suc.prems by simp
    then show ?thesis by simp
  qed
qed

lemma utf8_lead_no_fault: "utf8_lead b \<noteq> Fault"
  by (simp add: utf8_lead_def)

lemma utf8_loop_unfold:
  assumes "i < len" "i < length buf" "utf8_lead (buf ! i) = Ok (k, c)"
  shows "utf8_loop buf len i =
    (if int i = int len - int k + 1 then Err MOSQ_ERR_MALFORMED_UTF8
     else case utf8_cont buf (k - 1) i c of
         Err e \<Rightarrow> Err e
       | Fault \<Rightarrow> Fault
       | Ok (j, d) \<Rightarrow> if utf8_codepoint_ok k d then utf8_loop buf len (Suc j)
                      else Err MOSQ_ERR_MALFORMED_UTF8)"
  using assms by (subst utf8_loop.simps) (simp split: res.splits)

lemma utf8_loop_no_fault: "utf8_loop (bs @ [0]) (length bs) i \<noteq> Fault"
proof (induction "length bs - i" arbitrary: i rule: less_induct)
  case less
  show ?case
  proof (cases "i < length bs")
    case False
    then show ?thesis by (subst utf8_loop.simps) simp
  next
    case i: True
    show ?thesis
    proof (cases "utf8_lead ((bs @ [0]) ! i)")
      case (Ok a)
      obtain k c where a: "a = (k, c)" by fastforce
      show ?thesis
      proof (cases "utf8_cont (bs @ [0]) (k - 1) i c")
        case cont: (Ok b)
        obtain j d where b: "b = (j, d)" by fastforce
        have "utf8_loop (bs @ [0]) (length bs) (Suc j) \<noteq> Fault"
          using i utf8_cont_index [OF cont [unfolded b]] by (intro less) simp
        then show ?thesis
          using utf8_loop_unfold [of i "length bs" "bs @ [0]" k c] i Ok a cont b by simp
      qed (use utf8_loop_unfold [of i "length bs" "bs @ [0]" k c] i Ok a
            utf8_cont_inside [OF i, of "k - 1" c] in simp_all)
    next
      case (Err e)
      then show ?thesis using i by (subst utf8_loop.simps) simp
    next
      case Fault
      then show ?thesis by (simp add: utf8_lead_no_fault)
    qed
  qed
qed

text \<open>The encoder on the digits of a sequence.\<close>

lemma digit_split: "y < 64 \<Longrightarrow> (64 * x + y) div 64 = x \<and> (64 * x + y) mod 64 = y" for x y :: nat
  by simp

lemma utf8_encode_digits2:
  assumes "2 \<le> x" "x < 32" "y < 64"
  shows "utf8_encode (64 * x + y) = [word_of_nat (192 + x), word_of_nat (128 + y)]"
  using assms by (simp add: utf8_encode_def)

lemma utf8_encode_digits3:
  assumes "x < 16" "y < 64" "z < 64" "0x800 \<le> 64 * (64 * x + y) + z"
  shows "utf8_encode (64 * (64 * x + y) + z)
           = [word_of_nat (224 + x), word_of_nat (128 + y), word_of_nat (128 + z)]"
proof -
  define c where "c = 64 * (64 * x + y) + z"
  have d: "c div 64 = 64 * x + y" "c mod 64 = z"
    using digit_split [OF assms(3)] by (simp_all only: c_def)
  then have "c div 64 mod 64 = y" "c div 4096 = x"
    using div_mult2_eq [of c 64 64] digit_split [OF assms(2), of x] by simp_all
  moreover have "0x800 \<le> c" "c < 0x10000"
    using assms by (simp_all add: c_def)
  ultimately show ?thesis
    unfolding c_def [symmetric] using d(2) by (simp add: utf8_encode_def)
qed

lemma utf8_encode_digits4:
  assumes "y < 64" "z < 64" "t < 64" "0x10000 \<le> 64 * (64 * (64 * x + y) + z) + t"
  shows "utf8_encode (64 * (64 * (64 * x + y) + z) + t)
           = [word_of_nat (240 + x), word_of_nat (128 + y), word_of_nat (128 + z), word_of_nat (128 + t)]"
proof -
  define c where "c = 64 * (64 * (64 * x + y) + z) + t"
  have d: "c div 64 = 64 * (64 * x + y) + z" "c mod 64 = t"
    using digit_split [OF assms(3)] by (simp_all only: c_def)
  then have e: "c div 64 mod 64 = z" "c div 4096 = 64 * x + y"
    using div_mult2_eq [of c 64 64] digit_split [OF assms(2), of "64 * x + y"] by simp_all
  then have "c div 4096 mod 64 = y" "c div 262144 = x"
    using div_mult2_eq [of c 4096 64] digit_split [OF assms(1), of x] by simp_all
  moreover have "0x10000 \<le> c"
    using assms(4) by (simp only: c_def)
  ultimately show ?thesis
    unfolding c_def [symmetric] using d(2) e(1) by (simp add: utf8_encode_def)
qed

lemma take_drop_nths:
  "i < length buf \<Longrightarrow> take (Suc n) (drop i buf) = buf ! i # take n (drop (Suc i) buf)"
  by (simp add: take_Suc_conv_app_nth Cons_nth_drop_Suc [symmetric])

lemma cont_byte_digit:
  fixes b :: byte
  assumes "128 \<le> unat b" "unat b < 192"
  shows "unat b mod 64 < 64" "word_of_nat (128 + unat b mod 64) = b"
proof -
  have "unat b = 128 + (unat b - 128)" "unat b - 128 < 64"
    using assms by simp_all
  then have "unat b mod 64 = unat b - 128"
    by (metis cont_digit)
  then show "unat b mod 64 < 64" "word_of_nat (128 + unat b mod 64) = b"
    using assms by (simp_all del: of_nat_add)
qed

lemma lead_byte_digit:
  fixes b :: byte
  shows "n \<le> unat b \<Longrightarrow> word_of_nat (n + (unat b - n)) = b"
  by (simp del: of_nat_add)

lemma utf8_lead_OkE:
  assumes "utf8_lead b = Ok (k, c)"
  obtains "k = 1" "0 < unat b" "unat b < 128" "c = word_of_nat (unat b)"
    | "k = 2" "194 \<le> unat b" "unat b < 224" "c = word_of_nat (unat b - 192)"
    | "k = 3" "224 \<le> unat b" "unat b < 240" "c = word_of_nat (unat b - 224)"
    | "k = 4" "240 \<le> unat b" "unat b \<le> 244" "c = word_of_nat (unat b - 240)"
  using assms unfolding utf8_lead_nat by (auto split: if_splits)

lemma mqtt_codepointI:
  assumes "utf8_codepoint_ok k (word_of_nat c)" "c < 2 ^ 31" "k = 4 \<or> c < 0x10000"
  shows "mqtt_codepoint c"
  using assms by (auto simp: codepoint_ok_nat mqtt_codepoint_def)

text \<open>What the continuation bytes of an accepted sequence contribute.\<close>

lemma utf8_cont_Ok1:
  assumes "utf8_cont buf (Suc 0) i (word_of_nat x) = Ok (j, d)"
  shows "Suc i < length buf" "128 \<le> unat (buf ! Suc i)" "unat (buf ! Suc i) < 192"
    "d = word_of_nat (64 * x + unat (buf ! Suc i) mod 64)"
  using utf8_cont_Ok_step [OF assms] by auto

lemma utf8_cont_Ok2:
  assumes "utf8_cont buf (Suc (Suc 0)) i (word_of_nat x) = Ok (j, d)"
  shows "Suc i < length buf" "128 \<le> unat (buf ! Suc i)" "unat (buf ! Suc i) < 192"
    "utf8_cont buf (Suc 0) (Suc i) (word_of_nat (64 * x + unat (buf ! Suc i) mod 64)) = Ok (j, d)"
  using utf8_cont_Ok_step [OF assms] by simp_all

lemma utf8_cont_Ok3:
  assumes "utf8_cont buf (Suc (Suc (Suc 0))) i (word_of_nat x) = Ok (j, d)"
  shows "Suc i < length buf" "128 \<le> unat (buf ! Suc i)" "unat (buf ! Suc i) < 192"
    "utf8_cont buf (Suc (Suc 0)) (Suc i) (word_of_nat (64 * x + unat (buf ! Suc i) mod 64)) = Ok (j, d)"
  using utf8_cont_Ok_step [OF assms] by simp_all

text \<open>An accepted sequence is the encoding of one allowed code point, one lemma per length.\<close>

lemma utf8_decode2:
  assumes "i < length buf" "194 \<le> unat (buf ! i)" "unat (buf ! i) < 224"
    and cont: "utf8_cont buf (Suc 0) i (word_of_nat (unat (buf ! i) - 192)) = Ok (j, d)"
    and ok: "utf8_codepoint_ok 2 d"
  shows "\<exists>c. mqtt_codepoint c \<and> length (utf8_encode c) = 2 \<and> take 2 (drop i buf) = utf8_encode c"
proof -
  define x y where "x = unat (buf ! i) - 192" and "y = unat (buf ! Suc i) mod 64"
  note s = utf8_cont_Ok1 [OF cont, folded x_def y_def]
  have xy: "2 \<le> x" "x < 32" "y < 64" using assms by (simp_all add: x_def y_def)
  have e: "utf8_encode (64 * x + y) = [buf ! i, buf ! Suc i]"
    unfolding utf8_encode_digits2 [OF xy]
    using lead_byte_digit [of 192 "buf ! i"] cont_byte_digit(2) [OF s(2,3)] assms
    by (simp add: x_def y_def del: of_nat_add)
  moreover have "mqtt_codepoint (64 * x + y)"
    using ok xy unfolding s(4) by (intro mqtt_codepointI [of 2]) simp_all
  ultimately show ?thesis
    using s(1) assms(1) by (intro exI [of _ "64 * x + y"]) (simp add: take_drop_nths numeral_2_eq_2)
qed

lemma utf8_decode3:
  assumes "i < length buf" "224 \<le> unat (buf ! i)" "unat (buf ! i) < 240"
    and cont: "utf8_cont buf (Suc (Suc 0)) i (word_of_nat (unat (buf ! i) - 224)) = Ok (j, d)"
    and ok: "utf8_codepoint_ok 3 d"
  shows "\<exists>c. mqtt_codepoint c \<and> length (utf8_encode c) = 3 \<and> take 3 (drop i buf) = utf8_encode c"
proof -
  define x y z where "x = unat (buf ! i) - 224" and "y = unat (buf ! Suc i) mod 64"
    and "z = unat (buf ! Suc (Suc i)) mod 64"
  note s = utf8_cont_Ok2 [OF cont, folded x_def y_def]
  note t = utf8_cont_Ok1 [OF s(4), folded z_def]
  have xyz: "x < 16" "y < 64" "z < 64" using assms by (simp_all add: x_def y_def z_def)
  have lo: "0x800 \<le> 64 * (64 * x + y) + z"
    using ok xyz unfolding t(4) by (subst (asm) codepoint_ok_nat) simp_all
  have e: "utf8_encode (64 * (64 * x + y) + z) = [buf ! i, buf ! Suc i, buf ! Suc (Suc i)]"
    unfolding utf8_encode_digits3 [OF xyz lo]
    using lead_byte_digit [of 224 "buf ! i"] cont_byte_digit(2) [OF s(2,3)]
      cont_byte_digit(2) [OF t(2,3)] assms
    by (simp add: x_def y_def z_def del: of_nat_add)
  moreover have "mqtt_codepoint (64 * (64 * x + y) + z)"
    using ok xyz unfolding t(4) by (intro mqtt_codepointI [of 3]) simp_all
  ultimately show ?thesis
    using s(1) t(1) assms(1)
    by (intro exI [of _ "64 * (64 * x + y) + z"]) (simp add: take_drop_nths numeral_3_eq_3)
qed

lemma utf8_decode4:
  assumes "i < length buf" "240 \<le> unat (buf ! i)" "unat (buf ! i) \<le> 244"
    and cont: "utf8_cont buf (Suc (Suc (Suc 0))) i (word_of_nat (unat (buf ! i) - 240)) = Ok (j, d)"
    and ok: "utf8_codepoint_ok 4 d"
  shows "\<exists>c. mqtt_codepoint c \<and> length (utf8_encode c) = 4 \<and> take 4 (drop i buf) = utf8_encode c"
proof -
  define x y z t where "x = unat (buf ! i) - 240" and "y = unat (buf ! Suc i) mod 64"
    and "z = unat (buf ! Suc (Suc i)) mod 64" and "t = unat (buf ! Suc (Suc (Suc i))) mod 64"
  note s = utf8_cont_Ok3 [OF cont, folded x_def y_def]
  note u = utf8_cont_Ok2 [OF s(4), folded z_def]
  note v = utf8_cont_Ok1 [OF u(4), folded t_def]
  have xyz: "x \<le> 4" "y < 64" "z < 64" "t < 64" using assms by (simp_all add: x_def y_def z_def t_def)
  have lo: "0x10000 \<le> 64 * (64 * (64 * x + y) + z) + t"
    using ok xyz unfolding v(4) by (subst (asm) codepoint_ok_nat) simp_all
  have e: "utf8_encode (64 * (64 * (64 * x + y) + z) + t)
      = [buf ! i, buf ! Suc i, buf ! Suc (Suc i), buf ! Suc (Suc (Suc i))]"
    unfolding utf8_encode_digits4 [OF xyz(2-4) lo]
    using lead_byte_digit [of 240 "buf ! i"] cont_byte_digit(2) [OF s(2,3)]
      cont_byte_digit(2) [OF u(2,3)] cont_byte_digit(2) [OF v(2,3)] assms
    by (simp add: x_def y_def z_def t_def del: of_nat_add)
  moreover have "mqtt_codepoint (64 * (64 * (64 * x + y) + z) + t)"
    using ok xyz unfolding v(4) by (intro mqtt_codepointI [of 4]) simp_all
  ultimately show ?thesis
    using s(1) u(1) v(1) assms(1)
    by (intro exI [of _ "64 * (64 * (64 * x + y) + z) + t"]) (simp add: take_drop_nths numeral_4_eq_4)
qed

lemma utf8_decode:
  assumes "i < length buf" "utf8_lead (buf ! i) = Ok (k, c)"
    and "utf8_cont buf (k - 1) i c = Ok (j, d)" "utf8_codepoint_ok k d"
  shows "\<exists>c. mqtt_codepoint c \<and> length (utf8_encode c) = k \<and> take k (drop i buf) = utf8_encode c"
  using assms(2)
proof (cases rule: utf8_lead_OkE)
  case 1
  have "mqtt_codepoint (unat (buf ! i))"
    using assms(3,4) 1 by (intro mqtt_codepointI [of 1]) auto
  then show ?thesis
    using 1 assms(1) by (intro exI [of _ "unat (buf ! i)"]) (simp add: utf8_encode_def take_drop_nths)
next
  case 2
  then show ?thesis using assms by (intro utf8_decode2 [of i buf j d, folded 2(1)]) simp_all
next
  case 3
  then show ?thesis using assms
    by (intro utf8_decode3 [of i buf j d, folded 3(1)]) (simp_all add: numeral_2_eq_2)
next
  case 4
  then show ?thesis using assms
    by (intro utf8_decode4 [of i buf j d, folded 4(1)]) (simp_all add: numeral_3_eq_3)
qed

section \<open>Acceptance is being an encoding\<close>

definition utf8_string :: "nat list \<Rightarrow> byte list" where
  "utf8_string cps = concat (map utf8_encode cps)"

lemma utf8_string_simps [simp]:
  "utf8_string [] = []" "utf8_string (c # cps) = utf8_encode c @ utf8_string cps"
  by (simp_all add: utf8_string_def)

lemma utf8_loop_accepts:
  assumes "list_all mqtt_codepoint cps" "drop i buf = utf8_string cps @ rest"
    "len = i + length (utf8_string cps)"
  shows "utf8_loop buf len i = Ok ()"
  using assms
proof (induction cps arbitrary: i)
  case Nil
  then show ?case by (subst utf8_loop.simps) simp
next
  case (Cons c cps)
  have d: "drop i buf = utf8_encode c @ (utf8_string cps @ rest)"
    using Cons.prems(2) by simp
  have "utf8_loop buf len i = utf8_loop buf len (i + length (utf8_encode c))"
    using Cons.prems(1,3) by (intro utf8_loop_encode [OF _ d]) simp_all
  also have "drop (i + length (utf8_encode c)) buf = utf8_string cps @ rest"
    using arg_cong [OF d, of "drop (length (utf8_encode c))"] by (simp add: add.commute)
  then have "utf8_loop buf len (i + length (utf8_encode c)) = Ok ()"
    using Cons.prems(1,3) by (intro Cons.IH) simp_all
  finally show ?case .
qed

lemma utf8_loop_decodes:
  assumes "utf8_loop (bs @ [0]) (length bs) i = Ok ()" "i \<le> length bs"
  shows "\<exists>cps. list_all mqtt_codepoint cps \<and> drop i bs = utf8_string cps"
  using assms
proof (induction "length bs - i" arbitrary: i rule: less_induct)
  case less
  show ?case
  proof (cases "i = length bs")
    case True
    then show ?thesis by (intro exI [of _ "[]"]) simp
  next
    case False
    then have i: "i < length bs" using less.prems(2) by simp
    obtain k c j d where s: "i < length (bs @ [0])" "utf8_lead ((bs @ [0]) ! i) = Ok (k, c)"
      "utf8_cont (bs @ [0]) (k - 1) i c = Ok (j, d)" "utf8_codepoint_ok k d"
      "utf8_loop (bs @ [0]) (length bs) (Suc j) = Ok ()"
      using utf8_loop_OkE [OF less.prems(1) i] by metis
    obtain x where x: "mqtt_codepoint x" "length (utf8_encode x) = k"
      "take k (drop i (bs @ [0])) = utf8_encode x"
      using utf8_decode [OF s(1-4)] by metis
    have j: "j = i + (k - 1)" by (rule utf8_cont_index [OF s(3)])
    have jl: "j < length bs" using utf8_cont_inside [OF i] s(3) by blast
    have k: "0 < k" using s(2) by (auto elim: utf8_lead_OkE)
    have "\<exists>cps. list_all mqtt_codepoint cps \<and> drop (Suc j) bs = utf8_string cps"
      using i j jl s(5) by (intro less.hyps) simp_all
    then obtain cps where cps: "list_all mqtt_codepoint cps" "drop (Suc j) bs = utf8_string cps"
      by blast
    have "take k (drop i bs) = utf8_encode x"
      using x(3) jl j k by simp
    moreover have "drop k (drop i bs) = drop (Suc j) bs"
      using j k by (simp add: add.commute)
    ultimately have "drop i bs = utf8_string (x # cps)"
      using cps(2) append_take_drop_id [of k "drop i bs"] by simp
    then show ?thesis using x(1) cps(1) by (intro exI [of _ "x # cps"]) simp
  qed
qed

text \<open>
  A string, as the library holds it with its terminating NUL, is accepted exactly when it is at
  most 65536 bytes long and is the encoding of allowed code points.
\<close>

lemma validate_utf8_iff:
  "mosquitto_validate_utf8 (Some (bs @ [0])) (int (length bs)) = Ok () \<longleftrightarrow>
   length bs \<le> 65536 \<and> (\<exists>cps. list_all mqtt_codepoint cps \<and> bs = utf8_string cps)"
proof -
  have "utf8_loop (bs @ [0]) (length bs) 0 = Ok () \<longleftrightarrow>
      (\<exists>cps. list_all mqtt_codepoint cps \<and> bs = utf8_string cps)"
    using utf8_loop_decodes [of bs 0] utf8_loop_accepts [of _ 0 "bs @ [0]" "[0]" "length bs"]
    by auto
  then show ?thesis by (auto simp: mosquitto_validate_utf8_def)
qed

lemma validate_utf8_no_fault:
  "mosquitto_validate_utf8 (Some (bs @ [0])) (int (length bs)) \<noteq> Fault"
  using utf8_loop_no_fault [of bs 0] by (simp add: mosquitto_validate_utf8_def)

text \<open>An accepted string holds no NUL, so the C string functions see all of it.\<close>

lemma utf8_encode_no_nul: "mqtt_codepoint c \<Longrightarrow> 0 \<notin> set (utf8_encode c)"
  by (auto simp: utf8_encode_def mqtt_codepoint_def word_unat_eq_iff unsigned_of_nat
      take_bit_nat_eq_self simp del: of_nat_add of_nat_mult)

lemma utf8_string_no_nul: "list_all mqtt_codepoint cps \<Longrightarrow> 0 \<notin> set (utf8_string cps)"
  by (induction cps) (simp_all add: utf8_encode_no_nul)

text \<open>The verdict on a C string, for the callers that validate \<open>strlen\<close> bytes.\<close>

definition utf8_valid :: "byte list \<Rightarrow> bool" where
  "utf8_valid bs = (mosquitto_validate_utf8 (Some (bs @ [0])) (int (length bs)) = Ok ())"

lemma utf8_valid_no_nul: "utf8_valid bs \<Longrightarrow> 0 \<notin> set bs"
  by (auto simp: utf8_valid_def validate_utf8_iff dest: utf8_string_no_nul)

lemma utf8_valid_length: "utf8_valid bs \<Longrightarrow> length bs \<le> 65536"
  by (auto simp: utf8_valid_def validate_utf8_iff)

end
