(* ===== verification/Packet_Datatypes.thy ===== *)
theory Packet_Datatypes
  imports Utf8
begin

text \<open>
  The packet structure and its readers and writers, packet_datatypes.c. Readers work on
  received packets (\<open>pos\<close> runs to \<open>remaining_length\<close>), writers on packets under
  construction (\<open>pos\<close> runs to \<open>packet_length\<close>). All arithmetic on positions is the
  code's: 32 bit and wrapping. \<open>rest\<close> and \<open>put\<close> say what readers and writers do as
  lists: a reader takes its bytes off \<open>rest\<close>, a writer \<open>put\<close>s bytes. The locale
  \<open>codec\<close> is the contract of a reader and a writer of the same datatype.
\<close>

unbundle bit_operations_syntax

section \<open>The packet\<close>

text \<open>
  \<open>struct mosquitto__packet\<close>. The payload is the allocated buffer (empty for NULL); packets
  are kept in lists, so there is no \<open>next\<close>.
\<close>

record mosquitto__packet =
  p_payload :: "byte list"
  p_remaining_mult :: uint32
  p_remaining_length :: uint32
  p_packet_length :: uint32
  p_to_process :: uint32
  p_pos :: uint32
  p_mid :: uint16
  p_command :: byte
  p_remaining_count :: int

type_synonym pkt_heap = "mosquitto__packet \<times> heap"

text \<open>A command on the packet that does not allocate.\<close>

definition on_packet :: "(mosquitto__packet, 'a) cmd \<Rightarrow> (pkt_heap, 'a) cmd" where
  "on_packet c s = (case c (fst s) of (r, p) \<Rightarrow> (r, (p, snd s)))"

text \<open>\<open>payload[pos]; pos++;\<close> and \<open>payload[pos] = b; pos++;\<close>, with the access checked.\<close>

definition fetch :: "(mosquitto__packet, byte) cmd" where
  "fetch p =
     (if unat (p_pos p) < length (p_payload p)
      then (Ok (p_payload p ! unat (p_pos p)), p\<lparr>p_pos := p_pos p + 1\<rparr>)
      else (Fault, p))"

definition poke :: "byte list \<Rightarrow> (mosquitto__packet, unit) cmd" where
  "poke bs p =
     (if unat (p_pos p) + length bs \<le> length (p_payload p)
      then (Ok (), p\<lparr>p_payload := store (unat (p_pos p)) bs (p_payload p),
                     p_pos := p_pos p + word_of_nat (length bs)\<rparr>)
      else (Fault, p))"

section \<open>Readers\<close>

definition packet__read_byte :: "(mosquitto__packet, byte) cmd" where
  "packet__read_byte p =
     (if p_pos p + 1 > p_remaining_length p then (Err MOSQ_ERR_MALFORMED_PACKET, p)
      else fetch p)"

definition packet__read_bytes :: "uint32 \<Rightarrow> (mosquitto__packet, byte list) cmd" where
  "packet__read_bytes count p =
     (if p_pos p + count > p_remaining_length p then (Err MOSQ_ERR_MALFORMED_PACKET, p)
      else if unat (p_pos p) + unat count \<le> length (p_payload p)
      then (Ok (sub_bytes (unat (p_pos p)) (unat count) (p_payload p)),
            p\<lparr>p_pos := p_pos p + count\<rparr>)
      else (Fault, p))"

definition packet__read_uint16 :: "(mosquitto__packet, uint16) cmd" where
  "packet__read_uint16 p =
     (if p_pos p + 2 > p_remaining_length p then (Err MOSQ_ERR_MALFORMED_PACKET, p)
      else then_do fetch (\<lambda>msb. then_do fetch (\<lambda>lsb.
             ret (ucast (push_bit 8 (ucast msb :: 32 word) + ucast lsb)))) p)"

text \<open>\<open>for(i=0; i<4; i++){ val = (val << 8) + payload[pos]; pos++; }\<close>\<close>

fun read_uint32_loop :: "nat \<Rightarrow> uint32 \<Rightarrow> (mosquitto__packet, uint32) cmd" where
  "read_uint32_loop 0 val = ret val"
| "read_uint32_loop (Suc i) val =
     then_do fetch (\<lambda>b. read_uint32_loop i (push_bit 8 val + ucast b))"

definition packet__read_uint32 :: "(mosquitto__packet, uint32) cmd" where
  "packet__read_uint32 p =
     (if p_pos p + 4 > p_remaining_length p then (Err MOSQ_ERR_MALFORMED_PACKET, p)
      else read_uint32_loop 4 0 p)"

text \<open>The \<open>for(i=0; i<4; i++)\<close> loop of \<open>packet__read_varint\<close> with \<open>n\<close> rounds left;
  the result is the value and the number of bytes it took.\<close>

fun read_varint_loop ::
  "nat \<Rightarrow> uint32 \<Rightarrow> uint32 \<Rightarrow> byte \<Rightarrow> (mosquitto__packet, uint32 \<times> byte) cmd"
where
  "read_varint_loop 0 remaining_mult lword lbytes = throw MOSQ_ERR_MALFORMED_PACKET"
| "read_varint_loop (Suc n) remaining_mult lword lbytes = (\<lambda>p.
     if p_pos p < p_remaining_length p then
       then_do fetch (\<lambda>b.
         if b AND 128 = 0 then
           (if lbytes + 1 > 1 \<and> b = 0 then throw MOSQ_ERR_MALFORMED_PACKET
            else ret (lword + ucast (b AND 127) * remaining_mult, lbytes + 1))
         else read_varint_loop n (remaining_mult * 128)
                (lword + ucast (b AND 127) * remaining_mult) (lbytes + 1)) p
     else (Err MOSQ_ERR_MALFORMED_PACKET, p))"

definition packet__read_varint :: "(mosquitto__packet, uint32 \<times> byte) cmd" where
  "packet__read_varint = read_varint_loop 4 1 0 0"

text \<open>
  A string or binary field: \<open>None\<close> for the empty one (the code stores NULL), else the bytes,
  for which the code allocates one more byte and appends a NUL.
\<close>

definition packet__read_binary :: "(pkt_heap, byte list option \<times> uint16) cmd" where
  "packet__read_binary =
     then_do (on_packet packet__read_uint16) (\<lambda>slen (p, h).
       if slen = 0 then (Ok (None, 0), (p, h))
       else if p_pos p + ucast slen > p_remaining_length p
       then (Err MOSQ_ERR_MALFORMED_PACKET, (p, h))
       else case alloc h of
           (False, h') \<Rightarrow> (Err MOSQ_ERR_NOMEM, (p, h'))
         | (True, h') \<Rightarrow>
             (if unat (p_pos p) + unat slen \<le> length (p_payload p)
              then (Ok (Some (sub_bytes (unat (p_pos p)) (unat slen) (p_payload p)), slen),
                    (p\<lparr>p_pos := p_pos p + ucast slen\<rparr>, h'))
              else (Fault, (p, h'))))"

definition packet__read_string :: "(pkt_heap, byte list option \<times> uint16) cmd" where
  "packet__read_string =
     then_do packet__read_binary (\<lambda>(str, slen).
       if slen = 0 then ret (str, slen)
       else case mosquitto_validate_utf8 (map_option (\<lambda>v. v @ [0]) str) (uint slen) of
           Ok _ \<Rightarrow> ret (str, slen)
         | Err _ \<Rightarrow> throw MOSQ_ERR_MALFORMED_UTF8
         | Fault \<Rightarrow> fault)"

section \<open>Writers\<close>

definition packet__write_byte :: "byte \<Rightarrow> (mosquitto__packet, unit) cmd" where
  "packet__write_byte b p =
     (if p_pos p + 1 \<le> p_packet_length p then poke [b] p else (Fault, p))"

definition packet__write_bytes :: "byte list \<Rightarrow> uint32 \<Rightarrow> (mosquitto__packet, unit) cmd" where
  "packet__write_bytes bytes count p =
     (if \<not> p_pos p + count \<le> p_packet_length p then (Fault, p)
      else if length bytes < unat count then (Fault, p)
      else poke (take (unat count) bytes) p)"

definition MOSQ_MSB :: "uint16 \<Rightarrow> byte" where
  "MOSQ_MSB A = ucast (drop_bit 8 (A AND 0xFF00))"

definition MOSQ_LSB :: "uint16 \<Rightarrow> byte" where
  "MOSQ_LSB A = ucast (A AND 0x00FF)"

definition packet__write_uint16 :: "uint16 \<Rightarrow> (mosquitto__packet, unit) cmd" where
  "packet__write_uint16 w =
     then_do (packet__write_byte (MOSQ_MSB w)) (\<lambda>_. packet__write_byte (MOSQ_LSB w))"

definition packet__write_uint32 :: "uint32 \<Rightarrow> (mosquitto__packet, unit) cmd" where
  "packet__write_uint32 w =
     then_do (packet__write_byte (ucast (drop_bit 24 (w AND 0xFF000000)))) (\<lambda>_.
     then_do (packet__write_byte (ucast (drop_bit 16 (w AND 0x00FF0000)))) (\<lambda>_.
     then_do (packet__write_byte (ucast (drop_bit 8 (w AND 0x0000FF00)))) (\<lambda>_.
     packet__write_byte (ucast (w AND 0x000000FF)))))"

text \<open>\<open>None\<close> is a NULL pointer, from which only zero bytes can be copied.\<close>

definition packet__write_string ::
  "byte list option \<Rightarrow> uint16 \<Rightarrow> (mosquitto__packet, unit) cmd"
where
  "packet__write_string str slen =
     then_do (packet__write_uint16 slen) (\<lambda>_.
       packet__write_bytes (case str of None \<Rightarrow> [] | Some v \<Rightarrow> v) (ucast slen))"

text \<open>The \<open>do ... while(word > 0 && count < 5)\<close> loop; \<open>n\<close> is \<open>5 - count\<close>, and the
  result is \<open>5 - count\<close> at its end.\<close>

fun write_varint_loop :: "nat \<Rightarrow> uint32 \<Rightarrow> (mosquitto__packet, nat) cmd" where
  "write_varint_loop 0 w = ret 0"
| "write_varint_loop (Suc n) w =
     then_do (packet__write_byte
         (if w div 128 > 0 then ucast (w mod 128) OR 0x80 else ucast (w mod 128))) (\<lambda>_.
       if w div 128 > 0 then write_varint_loop n (w div 128) else ret n)"

definition packet__write_varint :: "uint32 \<Rightarrow> (mosquitto__packet, unit) cmd" where
  "packet__write_varint w =
     then_do (write_varint_loop 5 w) (\<lambda>n.
       if n = 0 then throw MOSQ_ERR_MALFORMED_PACKET else ret ())"

definition packet__varint_bytes :: "uint32 \<Rightarrow> nat" where
  "packet__varint_bytes w =
     (if w < 128 then 1 else if w < 16384 then 2 else if w < 2097152 then 3
      else if w < 268435456 then 4 else 5)"

section \<open>Readers as functions of the unread bytes\<close>

text \<open>
  A packet being read: the position is within the announced length, and the buffer holds that
  length, which the variable byte integer of the fixed header bounds by 2^28.
\<close>

definition readable :: "mosquitto__packet \<Rightarrow> bool" where
  "readable p =
     (unat (p_pos p) \<le> unat (p_remaining_length p)
      \<and> unat (p_remaining_length p) \<le> length (p_payload p)
      \<and> unat (p_remaining_length p) < 2 ^ 28)"

definition rest :: "mosquitto__packet \<Rightarrow> byte list" where
  "rest p = drop (unat (p_pos p)) (take (unat (p_remaining_length p)) (p_payload p))"

definition adv :: "nat \<Rightarrow> mosquitto__packet \<Rightarrow> mosquitto__packet" where
  "adv n p = p\<lparr>p_pos := p_pos p + word_of_nat n\<rparr>"

lemma length_rest:
  "readable p \<Longrightarrow> length (rest p) = unat (p_remaining_length p) - unat (p_pos p)"
  by (simp add: readable_def rest_def)

lemma length_rest_less: "readable p \<Longrightarrow> length (rest p) < 2 ^ 28"
  unfolding length_rest unfolding readable_def by linarith

lemma adv_simps [simp]:
  "p_payload (adv n p) = p_payload p" "p_remaining_length (adv n p) = p_remaining_length p"
  "p_packet_length (adv n p) = p_packet_length p" "p_command (adv n p) = p_command p"
  "p_mid (adv n p) = p_mid p"
  "adv m (adv n p) = adv (n + m) p" "adv 0 p = p"
  by (simp_all add: adv_def algebra_simps)

lemma unat_add_word_of_nat:
  fixes w :: uint32
  assumes "unat w + n < 2 ^ 32"
  shows "unat (w + word_of_nat n) = unat w + n"
proof -
  have "unat (word_of_nat n :: uint32) = n"
    using assms by (simp add: unsigned_of_nat take_bit_nat_eq_self)
  then show ?thesis
    using assms by (subst unat_add_lem [THEN iffD1]) simp_all
qed

lemma readable_bound: "readable p \<Longrightarrow> unat (p_pos p) + length (rest p) < 2 ^ 28"
  unfolding length_rest unfolding readable_def by linarith

lemma adv_pos:
  "readable p \<Longrightarrow> n \<le> length (rest p) \<Longrightarrow> unat (p_pos (adv n p)) = unat (p_pos p) + n"
  using readable_bound [of p] by (simp add: adv_def unat_add_word_of_nat)

lemma readable_adv [simp]: "readable p \<Longrightarrow> n \<le> length (rest p) \<Longrightarrow> readable (adv n p)"
  using adv_pos [of p n] length_rest [of p] unfolding readable_def by auto

lemma rest_adv [simp]: "readable p \<Longrightarrow> n \<le> length (rest p) \<Longrightarrow> rest (adv n p) = drop n (rest p)"
  using adv_pos [of p n] by (simp add: rest_def add.commute)

lemma rest_nth:
  "readable p \<Longrightarrow> n < length (rest p) \<Longrightarrow> p_payload p ! (unat (p_pos p) + n) = rest p ! n"
  unfolding length_rest unfolding readable_def rest_def by (subst nth_drop) auto

lemma rest_sub_bytes:
  assumes "readable p" "n \<le> length (rest p)"
  shows "sub_bytes (unat (p_pos p)) n (p_payload p) = take n (rest p)"
proof -
  have "min n (unat (p_remaining_length p) - unat (p_pos p)) = n"
    using assms length_rest [OF assms(1)] by simp
  then show ?thesis
    by (simp add: sub_bytes_def rest_def drop_take)
qed

text \<open>The code's length checks, which wrap, say what they mean for a readable packet.\<close>

lemma pos_check:
  assumes "readable p" "n < 2 ^ 31"
  shows "p_pos p + word_of_nat n > p_remaining_length p \<longleftrightarrow> length (rest p) < n"
proof -
  have "unat (p_pos p + word_of_nat n) = unat (p_pos p) + n"
    using readable_bound [OF assms(1)] assms(2) by (intro unat_add_word_of_nat) simp
  then show ?thesis
    using assms(1) unfolding length_rest [OF assms(1)]
    by (auto simp: word_less_nat_alt readable_def)
qed

lemma fetch_rest:
  assumes "readable p"
  shows "rest p = b # bs \<Longrightarrow> fetch p = (Ok b, adv (Suc 0) p)"
  using assms rest_nth [of p 0] length_rest [OF assms]
  by (auto simp: fetch_def adv_def readable_def)

lemma packet__read_byte_rest [cmd_simps]:
  assumes "readable p"
  shows "packet__read_byte p = (case rest p of
      [] \<Rightarrow> (Err MOSQ_ERR_MALFORMED_PACKET, p)
    | b # bs \<Rightarrow> (Ok b, adv (Suc 0) p))"
  using pos_check [OF assms, of 1] fetch_rest [OF assms]
  by (cases "rest p") (simp_all add: packet__read_byte_def)

lemma packet__read_bytes_rest:
  assumes "readable p" "unat count < 2 ^ 31"
  shows "packet__read_bytes count p =
    (if unat count \<le> length (rest p) then (Ok (take (unat count) (rest p)), adv (unat count) p)
     else (Err MOSQ_ERR_MALFORMED_PACKET, p))"
  using pos_check [OF assms] rest_sub_bytes [OF assms(1), of "unat count"] assms(1)
  by (auto simp: packet__read_bytes_def adv_def readable_def length_rest)

text \<open>Big-endian integers.\<close>

definition be_nat :: "nat \<Rightarrow> byte list \<Rightarrow> nat" where
  "be_nat v bs = foldl (\<lambda>v b. 256 * v + unat b) v bs"

lemma be_nat_simps [simp]:
  "be_nat v [] = v" "be_nat v (b # bs) = be_nat (256 * v + unat b) bs"
  by (simp_all add: be_nat_def)

lemma byte_step:
  "push_bit 8 (word_of_nat v :: uint32) + ucast (b :: byte) = word_of_nat (256 * v + unat b)"
  by (simp add: push_bit_eq_mult)

lemma unat_byte_less [simp]: "unat (b :: byte) < 256"
  using unsigned_less [of b] by simp

lemma ucast_word_of_nat32_16:
  "n < 65536 \<Longrightarrow> ucast (word_of_nat n :: uint32) = (word_of_nat n :: uint16)"
  by (simp add: word_unat_eq_iff unsigned_ucast_eq unsigned_of_nat take_bit_nat_eq_self)

lemma byte_pair_less: "256 * unat (a :: byte) + unat (b :: byte) < 65536"
  using unat_byte_less [of a] unat_byte_less [of b] by linarith

lemma fetch_Cons:
  "readable p \<Longrightarrow> rest p = b # bs \<Longrightarrow>
   fetch p = (Ok b, adv (Suc 0) p) \<and> readable (adv (Suc 0) p) \<and> rest (adv (Suc 0) p) = bs"
  by (simp add: fetch_rest)

lemma packet__read_uint16_rest [cmd_simps]:
  assumes "readable p"
  shows "packet__read_uint16 p = (case rest p of
      a # b # bs \<Rightarrow> (Ok (word_of_nat (256 * unat a + unat b)), adv 2 p)
    | _ \<Rightarrow> (Err MOSQ_ERR_MALFORMED_PACKET, p))"
proof (cases "length (rest p) < 2")
  case True
  then show ?thesis
    using pos_check [OF assms, of 2]
    by (auto simp: packet__read_uint16_def split: list.splits)
next
  case False
  then obtain a b bs where ab: "rest p = a # b # bs"
    by (cases "rest p"; cases "tl (rest p)") auto
  have f: "fetch p = (Ok a, adv (Suc 0) p)" "readable (adv (Suc 0) p)" "rest (adv (Suc 0) p) = b # bs"
    using fetch_Cons [OF assms ab] by simp_all
  have g: "fetch (adv (Suc 0) p) = (Ok b, adv 2 p)"
    using fetch_Cons [OF f(2,3)] by (simp add: numeral_2_eq_2)
  have "ucast (push_bit 8 (ucast a :: 32 word) + ucast b) = (word_of_nat (256 * unat a + unat b) :: uint16)"
    using byte_step [of "unat a" b] ucast_word_of_nat32_16 [OF byte_pair_less [of a b]]
    by (simp del: of_nat_add of_nat_mult)
  then show ?thesis
    using False ab pos_check [OF assms, of 2]
    by (simp add: packet__read_uint16_def then_do_def f g ret_def del: of_nat_add of_nat_mult)
qed

lemma read_uint32_loop_rest:
  assumes "readable p" "n \<le> length (rest p)"
  shows "read_uint32_loop n (word_of_nat v) p =
    (Ok (word_of_nat (be_nat v (take n (rest p)))), adv n p)"
  using assms
proof (induction n arbitrary: v p)
  case 0
  then show ?case by (simp add: ret_def)
next
  case (Suc n)
  then obtain b bs where b: "rest p = b # bs"
    by (cases "rest p") auto
  have f: "fetch p = (Ok b, adv (Suc 0) p)" "readable (adv (Suc 0) p)" "rest (adv (Suc 0) p) = bs"
    using fetch_Cons [OF Suc.prems(1) b] by simp_all
  have "read_uint32_loop (Suc n) (word_of_nat v) p =
      read_uint32_loop n (word_of_nat (256 * v + unat b)) (adv (Suc 0) p)"
    by (simp add: then_do_def f byte_step del: of_nat_add of_nat_mult)
  also have "\<dots> = (Ok (word_of_nat (be_nat (256 * v + unat b) (take n bs))), adv (Suc n) p)"
    using Suc.IH [OF f(2)] Suc.prems(2) f(3) b by (simp del: of_nat_add of_nat_mult)
  finally show ?case using b by simp
qed

lemma packet__read_uint32_rest [cmd_simps]:
  assumes "readable p"
  shows "packet__read_uint32 p =
    (if 4 \<le> length (rest p) then (Ok (word_of_nat (be_nat 0 (take 4 (rest p)))), adv 4 p)
     else (Err MOSQ_ERR_MALFORMED_PACKET, p))"
  using pos_check [OF assms, of 4] read_uint32_loop_rest [OF assms, of 4 0]
  by (auto simp: packet__read_uint32_def)

section \<open>Variable byte integers\<close>

lemma byte_masks7: "(0x80 :: byte) = NOT (mask 7)" "(0x7F :: byte) = mask 7"
  by code_simp+

lemma unat_byte_and7:
  "unat (b AND 0x7F :: byte) = unat b mod 128" "b AND 0x80 = (0 :: byte) \<longleftrightarrow> unat b < 128"
proof -
  show "unat (b AND 0x7F :: byte) = unat b mod 128"
    by (simp only: byte_masks7 and_mask_nat) simp
  have "unat (b AND 0x80 :: byte) = unat b div 128 * 128"
    by (simp only: byte_masks7 and_not_mask_nat) simp
  then show "b AND 0x80 = (0 :: byte) \<longleftrightarrow> unat b < 128"
    by (simp add: word_unat_eq_iff div_eq_0_iff del: unsigned_and_eq)
qed

text \<open>The encoding of the standard, and a decoder that refuses overlong forms.\<close>

fun varint_enc :: "nat \<Rightarrow> byte list" where
  "varint_enc n =
     (if n < 128 then [word_of_nat n] else word_of_nat (128 + n mod 128) # varint_enc (n div 128))"

declare varint_enc.simps [simp del]

fun varint_dec :: "nat \<Rightarrow> bool \<Rightarrow> byte list \<Rightarrow> (nat \<times> nat) option" where
  "varint_dec 0 first bs = None"
| "varint_dec (Suc n) first [] = None"
| "varint_dec (Suc n) first (b # bs) =
     (if unat b < 128 then (if \<not> first \<and> unat b = 0 then None else Some (unat b, 1))
      else map_option (\<lambda>(v, k). (unat b mod 128 + 128 * v, Suc k)) (varint_dec n False bs))"

lemma varint_dec_enc:
  "v < 128 ^ n \<Longrightarrow> first \<and> 0 < n \<or> 0 < v \<Longrightarrow>
   varint_dec n first (varint_enc v @ xs) = Some (v, length (varint_enc v))"
proof (induction n arbitrary: v first)
  case 0
  then show ?case by simp
next
  case (Suc n)
  show ?case
  proof (cases "v < 128")
    case True
    then have "varint_enc v = [word_of_nat v]" "unat (word_of_nat v :: byte) = v"
      by (simp_all add: varint_enc.simps unsigned_of_nat take_bit_nat_eq_self)
    then show ?thesis using True Suc.prems by (cases first) simp_all
  next
    case False
    have u: "unat (word_of_nat (128 + v mod 128) :: byte) = 128 + v mod 128"
      by (simp add: unsigned_of_nat take_bit_nat_eq_self del: of_nat_add)
    have "v div 128 < 128 ^ n" "0 < v div 128"
      using Suc.prems(1) False by (simp_all add: div_less_iff_less_mult mult.commute div_greater_zero_iff)
    then have "varint_dec n False (varint_enc (v div 128) @ xs)
        = Some (v div 128, length (varint_enc (v div 128)))"
      by (intro Suc.IH) simp_all
    then show ?thesis using False u
      by (subst (1 2) varint_enc.simps) (simp del: of_nat_add)
  qed
qed

lemma varint_dec_SomeD:
  "varint_dec n first bs = Some (v, k) \<Longrightarrow>
   v < 128 ^ n \<and> (first \<or> 0 < v) \<and> k = length (varint_enc v) \<and> bs = varint_enc v @ drop k bs"
proof (induction n first bs arbitrary: v k rule: varint_dec.induct)
  case (3 n first b bs)
  show ?case
  proof (cases "unat b < 128")
    case True
    then have v: "v = unat b" "k = 1" "first \<or> 0 < v"
      using "3.prems" by (auto split: if_splits)
    have "unat b < 128 ^ Suc n" using True by (simp add: less_le_trans [of _ 128])
    moreover have "varint_enc (unat b) = [b]" using True by (simp add: varint_enc.simps)
    ultimately show ?thesis using v by simp
  next
    case False
    then obtain v' k' where r: "varint_dec n False bs = Some (v', k')"
      "v = unat b mod 128 + 128 * v'" "k = Suc k'"
      using "3.prems" by auto
    have IH: "v' < 128 ^ n" "0 < v'" "k' = length (varint_enc v')" "bs = varint_enc v' @ drop k' bs"
      using "3.IH" [OF False r(1)] by blast+
    have "v < 128 ^ Suc n"
    proof -
      have "v < 128 * Suc v'" using r(2) by (simp add: less_le_trans)
      also have "\<dots> \<le> 128 * 128 ^ n" using IH(1) by (intro mult_le_mono2) simp
      finally show ?thesis by simp
    qed
    moreover
    define u where "u = unat b - 128"
    have u: "unat b = 128 + u" "u < 128"
      using False unat_byte_less [of b] unfolding u_def by linarith+
    then have "v = u + 128 * v'" using r(2) by simp
    then have "128 + v mod 128 = unat b" "v div 128 = v'" "\<not> v < 128"
      using u IH(2) by simp_all
    then have e: "varint_enc v = b # varint_enc v'"
      by (subst varint_enc.simps) (simp del: of_nat_add)
    moreover have "b # bs = varint_enc v @ drop k (b # bs)"
      unfolding e r(3) append_Cons drop_Suc_Cons using IH(4) by (rule arg_cong)
    moreover have "0 < v" using r(2) IH(2) by simp
    ultimately show ?thesis using IH(3) r(3) by simp
  qed
qed simp_all

text \<open>The reading loop is that decoder.\<close>

lemma read_varint_loop_Some:
  assumes "readable p" "j + n \<le> 4" "varint_dec n (j = 0) (rest p) = Some (v, k)"
  shows "read_varint_loop n (word_of_nat m) (word_of_nat l) (word_of_nat j) p =
    (Ok (word_of_nat (l + m * v), word_of_nat (j + k)), adv k p)"
  using assms
proof (induction n arbitrary: j p v k m l)
  case 0
  then show ?case by simp
next
  case (Suc n)
  obtain b bs where b: "rest p = b # bs"
    using Suc.prems(3) by (cases "rest p") auto
  have f: "fetch p = (Ok b, adv (Suc 0) p)" "readable (adv (Suc 0) p)" "rest (adv (Suc 0) p) = bs"
    using fetch_Cons [OF Suc.prems(1) b] by simp_all
  have pos: "p_pos p < p_remaining_length p"
    using b length_rest [OF Suc.prems(1)] by (auto simp: word_less_nat_alt)
  have first: "(word_of_nat j + 1 > (1 :: byte)) = (0 < j)"
  proof -
    have "j = 0 \<or> j = 1 \<or> j = 2 \<or> j = 3" using Suc.prems(2) by linarith
    then show ?thesis by (elim disjE) simp_all
  qed
  have l: "word_of_nat l + ucast (b AND 0x7F) * word_of_nat m =
      (word_of_nat (l + m * (unat b mod 128)) :: uint32)"
  proof -
    have "ucast (b AND 0x7F) = (word_of_nat (unat (b AND 0x7F)) :: uint32)"
      by (simp del: unsigned_and_eq)
    then show ?thesis by (simp add: unat_byte_and7 mult.commute del: of_nat_mod)
  qed
  have z: "b = 0 \<longleftrightarrow> unat b = 0" by (simp add: unat_eq_0)
  show ?case
  proof (cases "unat b < 128")
    case True
    then have vk: "v = unat b" "k = 1" "j = 0 \<or> unat b \<noteq> 0"
      using Suc.prems(3) b by (auto split: if_splits)
    show ?thesis
      using True vk pos f l first z
      by (auto simp: then_do_def unat_byte_and7(2) ret_def add.commute simp del: of_nat_mult)
  next
    case False
    obtain v' k' where r: "varint_dec n False bs = Some (v', k')"
      "v = unat b mod 128 + 128 * v'" "k = Suc k'"
      using False Suc.prems(3) b by auto
    have "read_varint_loop n (word_of_nat (m * 128)) (word_of_nat (l + m * (unat b mod 128)))
        (word_of_nat (Suc j)) (adv (Suc 0) p) =
      (Ok (word_of_nat (l + m * (unat b mod 128) + m * 128 * v'), word_of_nat (Suc j + k')),
       adv k' (adv (Suc 0) p))"
      using Suc.prems(2) r(1) f by (intro Suc.IH) simp_all
    then show ?thesis
      using False pos f l r
      by (simp add: then_do_def unat_byte_and7(2) algebra_simps del: of_nat_mod)
  qed
qed

lemma read_varint_loop_None:
  assumes "readable p" "j + n \<le> 4" "varint_dec n (j = 0) (rest p) = None"
  shows "\<exists>k \<le> length (rest p).
    read_varint_loop n m l (word_of_nat j) p = (Err MOSQ_ERR_MALFORMED_PACKET, adv k p)"
  using assms
proof (induction n arbitrary: j p m l)
  case 0
  then show ?case by (auto simp: throw_def intro!: exI [of _ 0])
next
  case (Suc n)
  show ?case
  proof (cases "rest p")
    case Nil
    then have "\<not> p_pos p < p_remaining_length p"
      using length_rest [OF Suc.prems(1)] by (simp add: word_less_nat_alt)
    then show ?thesis by (auto intro!: exI [of _ 0])
  next
    case (Cons b bs)
    have f: "fetch p = (Ok b, adv (Suc 0) p)" "readable (adv (Suc 0) p)" "rest (adv (Suc 0) p) = bs"
      using fetch_Cons [OF Suc.prems(1) Cons] by simp_all
    have pos: "p_pos p < p_remaining_length p"
      using Cons length_rest [OF Suc.prems(1)] by (auto simp: word_less_nat_alt)
    have first: "(word_of_nat j + 1 > (1 :: byte)) = (0 < j)"
    proof -
      have "j = 0 \<or> j = 1 \<or> j = 2 \<or> j = 3" using Suc.prems(2) by linarith
      then show ?thesis by (elim disjE) simp_all
    qed
    show ?thesis
    proof (cases "unat b < 128")
      case True
      then have "0 < j" "b = 0" using Suc.prems(3) Cons by (auto split: if_splits simp: unat_eq_0)
      then show ?thesis using True pos f Cons first
        by (intro exI [of _ "Suc 0"]) (simp add: then_do_def throw_def)
    next
      case False
      then have "varint_dec n False bs = None" using Suc.prems(3) Cons by simp
      then obtain k where "k \<le> length bs" "read_varint_loop n (m * 128)
          (l + ucast (b AND 127) * m) (word_of_nat (Suc j)) (adv (Suc 0) p)
          = (Err MOSQ_ERR_MALFORMED_PACKET, adv k (adv (Suc 0) p))"
        using Suc.IH [of "adv (Suc 0) p" "Suc j"] Suc.prems(2) f by auto
      then show ?thesis using False pos f Cons
        by (intro exI [of _ "Suc k"]) (simp add: then_do_def unat_byte_and7(2) add.commute)
    qed
  qed
qed

lemma packet__read_varint_Some:
  assumes "readable p" "varint_dec 4 True (rest p) = Some (v, k)"
  shows "packet__read_varint p = (Ok (word_of_nat v, word_of_nat k), adv k p)"
  using read_varint_loop_Some [OF assms(1), of 0 4 v k 1 0] assms(2)
  by (simp add: packet__read_varint_def)

lemma packet__read_varint_None:
  assumes "readable p" "varint_dec 4 True (rest p) = None"
  shows "\<exists>k \<le> length (rest p). packet__read_varint p = (Err MOSQ_ERR_MALFORMED_PACKET, adv k p)"
  using read_varint_loop_None [OF assms(1), of 0 4] assms(2)
  by (simp add: packet__read_varint_def)

lemma length_varint_enc_le: "0 < n \<Longrightarrow> length (varint_enc v) \<le> n \<longleftrightarrow> v < 128 ^ n"
proof (induction n arbitrary: v)
  case 0
  then show ?case by simp
next
  case (Suc n)
  show ?case
  proof (cases "v < 128")
    case True
    then have "v < 128 ^ Suc n" by (simp add: less_le_trans [of _ 128])
    then show ?thesis using True by (subst varint_enc.simps) simp
  next
    case v: False
    have e: "length (varint_enc v) = Suc (length (varint_enc (v div 128)))"
      using v by (subst varint_enc.simps) simp
    have ne: "varint_enc (v div 128) \<noteq> []" by (subst varint_enc.simps) simp
    show ?thesis
    proof (cases "n = 0")
      case True
      then show ?thesis using v e ne by simp
    next
      case False
      then show ?thesis using e Suc.IH [of "v div 128"]
        by (simp add: div_less_iff_less_mult mult.commute)
    qed
  qed
qed

lemma varint_bytes_enc: "packet__varint_bytes w = length (varint_enc (unat w))"
proof -
  have "unat w < 2 ^ LENGTH(32)" by (rule unsigned_less)
  then have "length (varint_enc (unat w)) \<le> 5"
    by (subst length_varint_enc_le) simp_all
  moreover have "1 \<le> length (varint_enc (unat w))"
    by (subst varint_enc.simps) simp
  ultimately show ?thesis
    using length_varint_enc_le [of 1 "unat w"] length_varint_enc_le [of 2 "unat w"]
      length_varint_enc_le [of 3 "unat w"] length_varint_enc_le [of 4 "unat w"]
    by (auto simp: packet__varint_bytes_def word_less_nat_alt)
qed

section \<open>Strings and binary data\<close>

lemma on_packet_run [cmd_simps]: "on_packet c (p, h) = (case c p of (r, p') \<Rightarrow> (r, (p', h)))"
  by (simp add: on_packet_def)

text \<open>A length-prefixed field at the front of the unread bytes.\<close>

definition take_field :: "byte list \<Rightarrow> byte list option" where
  "take_field xs = (case xs of
      a # b # bs \<Rightarrow>
        (if 256 * unat a + unat b \<le> length bs then Some (take (256 * unat a + unat b) bs) else None)
    | _ \<Rightarrow> None)"

definition opt_bytes :: "byte list \<Rightarrow> byte list option" where
  "opt_bytes bs = (if bs = [] then None else Some bs)"

lemma unat_word16_of_pair:
  "unat (word_of_nat (256 * unat (a :: byte) + unat (b :: byte)) :: uint16) = 256 * unat a + unat b"
  using byte_pair_less [of a b]
  by (simp add: unsigned_of_nat take_bit_nat_eq_self del: of_nat_add of_nat_mult)

lemma packet__read_binary_Some:
  assumes "readable p" "take_field (rest p) = Some bs"
  shows "packet__read_binary (p, h) =
    (if bs = [] then (Ok (None, 0), (adv 2 p, h))
     else case alloc h of
         (False, h') \<Rightarrow> (Err MOSQ_ERR_NOMEM, (adv 2 p, h'))
       | (True, h') \<Rightarrow> (Ok (Some bs, word_of_nat (length bs)), (adv (2 + length bs) p, h')))"
proof -
  obtain a b xs where r: "rest p = a # b # xs" "256 * unat a + unat b \<le> length xs"
    "bs = take (256 * unat a + unat b) xs"
    using assms(2) by (auto simp: take_field_def split: list.splits if_splits)
  define n where "n = 256 * unat a + unat b"
  have u: "unat (word_of_nat n :: uint16) = n"
    unfolding n_def by (rule unat_word16_of_pair)
  have w: "word_of_nat n = (0 :: uint16) \<longleftrightarrow> n = 0"
    using u by (simp add: word_unat_eq_iff)
  have p2: "readable (adv 2 p)" "rest (adv 2 p) = xs"
    using assms(1) r(1) by simp_all
  have uc: "ucast (word_of_nat n :: uint16) = (word_of_nat n :: uint32)"
    using u by (simp add: word_unat_eq_iff unsigned_ucast_eq unsigned_of_nat take_bit_nat_eq_self)
  have lt: "n < 65536" unfolding n_def by (rule byte_pair_less)
  have chk: "p_pos (adv 2 p) + word_of_nat n > p_remaining_length (adv 2 p) \<longleftrightarrow> length xs < n"
    using pos_check [OF p2(1), of n] p2(2) lt by simp
  have sub: "unat (p_pos (adv 2 p)) + n \<le> length (p_payload p)"
    "sub_bytes (unat (p_pos (adv 2 p))) n (p_payload p) = bs"
    using rest_sub_bytes [OF p2(1), of n] p2 r(2,3) length_rest [OF p2(1)]
    by (auto simp: n_def readable_def)
  have bs: "length bs = n" "bs = [] \<longleftrightarrow> n = 0" using r(2,3) by (auto simp: n_def)
  have rd: "packet__read_uint16 p = (Ok (word_of_nat n), adv 2 p)"
    using r(1) by (simp add: packet__read_uint16_rest [OF assms(1)] n_def)
  show ?thesis
  proof (cases "n = 0")
    case True
    then show ?thesis using rd bs
      by (simp add: packet__read_binary_def then_do_def on_packet_run)
  next
    case False
    obtain ok h' where h: "alloc h = (ok, h')" by fastforce
    show ?thesis
      using False rd bs chk sub h r(2) [folded n_def] u uc w
      by (cases ok) (simp_all add: packet__read_binary_def then_do_def on_packet_run adv_def add.commute)
  qed
qed

lemma packet__read_binary_None:
  assumes "readable p" "take_field (rest p) = None"
  shows "\<exists>k \<le> length (rest p). packet__read_binary (p, h) = (Err MOSQ_ERR_MALFORMED_PACKET, (adv k p, h))"
proof (cases "length (rest p) < 2")
  case True
  then have "packet__read_uint16 p = (Err MOSQ_ERR_MALFORMED_PACKET, p)"
    by (auto simp: packet__read_uint16_rest [OF assms(1)] split: list.splits)
  then show ?thesis
    by (intro exI [of _ 0]) (simp add: packet__read_binary_def then_do_def on_packet_run)
next
  case False
  then obtain a b xs where r: "rest p = a # b # xs"
    by (cases "rest p"; cases "tl (rest p)") auto
  define n where "n = 256 * unat a + unat b"
  have n: "length xs < n" using assms(2) r by (simp add: take_field_def n_def split: if_splits)
  have u: "unat (word_of_nat n :: uint16) = n"
    unfolding n_def by (rule unat_word16_of_pair)
  have p2: "readable (adv 2 p)" "rest (adv 2 p) = xs"
    using assms(1) r by simp_all
  have uc: "ucast (word_of_nat n :: uint16) = (word_of_nat n :: uint32)"
    using u by (simp add: word_unat_eq_iff unsigned_ucast_eq unsigned_of_nat take_bit_nat_eq_self)
  have "n < 65536" unfolding n_def by (rule byte_pair_less)
  then have chk: "p_remaining_length (adv 2 p) < p_pos (adv 2 p) + word_of_nat n"
    using pos_check [OF p2(1), of n] p2(2) n by simp
  have "word_of_nat n \<noteq> (0 :: uint16)"
    using u n by (auto simp: word_unat_eq_iff)
  moreover have "packet__read_uint16 p = (Ok (word_of_nat n), adv 2 p)"
    using r by (simp add: packet__read_uint16_rest [OF assms(1)] n_def)
  ultimately show ?thesis using uc chk r
    by (intro exI [of _ 2]) (simp add: packet__read_binary_def then_do_def on_packet_run adv_def)
qed

section \<open>Readers stay inside the packet\<close>

text \<open>
  The contract of every reader: on a readable packet it does not fault, changes nothing of the
  packet but the position, and leaves the position inside the packet.
\<close>

definition safe_reader :: "(pkt_heap, 'a) cmd \<Rightarrow> bool" where
  "safe_reader c = (\<forall>p h. readable p \<longrightarrow>
     (\<exists>r k h'. c (p, h) = (r, (adv k p, h')) \<and> r \<noteq> Fault \<and> k \<le> length (rest p)))"

lemma safe_readerI:
  assumes "\<And>p h. readable p \<Longrightarrow>
    \<exists>r k h'. c (p, h) = (r, (adv k p, h')) \<and> r \<noteq> Fault \<and> k \<le> length (rest p)"
  shows "safe_reader c"
  using assms by (simp add: safe_reader_def)

lemma safe_readerE:
  assumes "safe_reader c" "readable p"
  obtains r k h' where "c (p, h) = (r, (adv k p, h'))" "r \<noteq> Fault" "k \<le> length (rest p)"
  using assms unfolding safe_reader_def by blast

lemma safe_witness:
  "k \<le> length (rest p) \<Longrightarrow> r \<noteq> Fault \<Longrightarrow> c (p, h) = (r, (adv k p, h')) \<Longrightarrow>
   \<exists>r k h'. c (p, h) = (r, (adv k p, h')) \<and> r \<noteq> Fault \<and> k \<le> length (rest p)"
  by blast

lemma safe_packet_witness:
  "k \<le> length (rest p) \<Longrightarrow> r \<noteq> Fault \<Longrightarrow> c p = (r, adv k p) \<Longrightarrow>
   \<exists>r k. c p = (r, adv k p) \<and> r \<noteq> Fault \<and> k \<le> length (rest p)"
  by blast

lemma safe_ret [safe_intros]: "safe_reader (ret x)"
  and safe_throw [safe_intros]: "safe_reader (throw e)"
  by (rule safe_readerI, rule safe_witness [of 0], simp_all add: ret_def throw_def)+

lemma safe_guard [safe_intros]: "safe_reader (guard_err b e)"
  by (simp add: guard_err_def safe_intros)

lemma safe_step:
  assumes p: "readable p"
    and c: "c (p, h) = (r, (adv k p, h'))" "r \<noteq> Fault" "k \<le> length (rest p)"
    and f: "\<And>a. safe_reader (f a)"
  shows "\<exists>r k h'. then_do c f (p, h) = (r, (adv k p, h')) \<and> r \<noteq> Fault \<and> k \<le> length (rest p)"
proof (cases r)
  case (Ok a)
  have "readable (adv k p)" using p c(3) by simp
  with f [of a] obtain r' k' h'' where
    "f a (adv k p, h') = (r', (adv k' (adv k p), h''))" "r' \<noteq> Fault" "k' \<le> length (rest (adv k p))"
    by (rule safe_readerE)
  then show ?thesis using c p Ok
    by (intro exI [of _ r'] exI [of _ "k + k'"] exI [of _ h'']) (simp add: then_do_def)
next
  case (Err e)
  then show ?thesis using c by (intro exI [of _ "Err e"] exI [of _ k]) (simp add: then_do_def)
qed (use c in simp)

lemma safe_then_do [safe_intros]:
  assumes "safe_reader c" "\<And>a. safe_reader (f a)"
  shows "safe_reader (then_do c f)"
proof (rule safe_readerI)
  fix p :: mosquitto__packet and h :: heap
  assume p: "readable p"
  obtain r k h' where c: "c (p, h) = (r, (adv k p, h'))" "r \<noteq> Fault" "k \<le> length (rest p)"
    using assms(1) p by (rule safe_readerE)
  show "\<exists>r k h'. then_do c f (p, h) = (r, (adv k p, h')) \<and> r \<noteq> Fault \<and> k \<le> length (rest p)"
    by (rule safe_step [where c = c, OF p c assms(2)])
qed

lemma safe_if [safe_intros]:
  "(b \<Longrightarrow> safe_reader c) \<Longrightarrow> (\<not> b \<Longrightarrow> safe_reader d) \<Longrightarrow> safe_reader (if b then c else d)"
  by simp

text \<open>A read followed by a check of the value read.\<close>

lemma safe_on_packetI:
  assumes "\<And>p. readable p \<Longrightarrow> \<exists>r k. c p = (r, adv k p) \<and> r \<noteq> Fault \<and> k \<le> length (rest p)"
  shows "safe_reader (on_packet c)"
proof (rule safe_readerI)
  fix p :: mosquitto__packet and h :: heap
  assume "readable p"
  with assms obtain r k where "c p = (r, adv k p)" "r \<noteq> Fault" "k \<le> length (rest p)"
    by blast
  then show "\<exists>r k h'. on_packet c (p, h) = (r, (adv k p, h')) \<and> r \<noteq> Fault \<and> k \<le> length (rest p)"
    by (auto simp: on_packet_run)
qed

lemma safe_read_byte [safe_intros]: "safe_reader (on_packet packet__read_byte)"
proof (rule safe_on_packetI)
  fix p assume p: "readable p"
  show "\<exists>r k. packet__read_byte p = (r, adv k p) \<and> r \<noteq> Fault \<and> k \<le> length (rest p)"
  proof (cases "rest p")
    case Nil
    then show ?thesis by (intro safe_packet_witness [of 0]) (simp_all add: packet__read_byte_rest [OF p])
  next
    case (Cons b bs)
    then show ?thesis by (intro safe_packet_witness [of "Suc 0"]) (simp_all add: packet__read_byte_rest [OF p])
  qed
qed

lemma safe_read_uint16 [safe_intros]: "safe_reader (on_packet packet__read_uint16)"
proof (rule safe_on_packetI)
  fix p assume p: "readable p"
  show "\<exists>r k. packet__read_uint16 p = (r, adv k p) \<and> r \<noteq> Fault \<and> k \<le> length (rest p)"
  proof (cases "length (rest p) < 2")
    case True
    then have "packet__read_uint16 p = (Err MOSQ_ERR_MALFORMED_PACKET, adv 0 p)"
      by (auto simp: packet__read_uint16_rest [OF p] split: list.splits)
    then show ?thesis by blast
  next
    case False
    then obtain a b xs where "rest p = a # b # xs"
      by (cases "rest p"; cases "tl (rest p)") auto
    then show ?thesis by (intro safe_packet_witness [of 2]) (simp_all add: packet__read_uint16_rest [OF p])
  qed
qed

lemma safe_read_uint32 [safe_intros]: "safe_reader (on_packet packet__read_uint32)"
proof (rule safe_on_packetI)
  fix p assume p: "readable p"
  show "\<exists>r k. packet__read_uint32 p = (r, adv k p) \<and> r \<noteq> Fault \<and> k \<le> length (rest p)"
    using packet__read_uint32_rest [OF p]
    by (cases "4 \<le> length (rest p)") (auto intro: exI [of _ 4] exI [of _ 0])
qed

lemma safe_read_varint [safe_intros]: "safe_reader (on_packet packet__read_varint)"
proof (rule safe_on_packetI)
  fix p assume p: "readable p"
  show "\<exists>r k. packet__read_varint p = (r, adv k p) \<and> r \<noteq> Fault \<and> k \<le> length (rest p)"
  proof (cases "varint_dec 4 True (rest p)")
    case None
    then show ?thesis using packet__read_varint_None [OF p] by blast
  next
    case (Some a)
    then obtain v k where vk: "varint_dec 4 True (rest p) = Some (v, k)" by (cases a) simp
    then have "k \<le> length (rest p)"
      using varint_dec_SomeD [OF vk] by (metis append_eq_conv_conj length_take min.cobounded1 min_def take_all nat_le_linear length_append le_add1)
    then show ?thesis using packet__read_varint_Some [OF p vk] by blast
  qed
qed

lemma take_field_length: "take_field xs = Some bs \<Longrightarrow> 2 + length bs \<le> length xs"
  by (auto simp: take_field_def split: list.splits if_splits)

lemma safe_read_binary [safe_intros]: "safe_reader packet__read_binary"
proof (rule safe_readerI)
  fix p :: mosquitto__packet and h :: heap
  assume p: "readable p"
  show "\<exists>r k h'. packet__read_binary (p, h) = (r, (adv k p, h')) \<and> r \<noteq> Fault \<and> k \<le> length (rest p)"
  proof (cases "take_field (rest p)")
    case None
    then show ?thesis using packet__read_binary_None [OF p] by blast
  next
    case (Some bs)
    note l = take_field_length [OF Some]
    obtain ok h' where h: "alloc h = (ok, h')" by fastforce
    consider "bs = []" | "bs \<noteq> []" "ok" | "bs \<noteq> []" "\<not> ok" by blast
    then show ?thesis
    proof cases
      case 1
      show ?thesis by (rule safe_witness [of 2]) (use 1 l packet__read_binary_Some [OF p Some, of h] in simp_all)
    next
      case 2
      show ?thesis by (rule safe_witness [of "2 + length bs"])
          (use 2 l h packet__read_binary_Some [OF p Some, of h] in simp_all)
    next
      case 3
      show ?thesis by (rule safe_witness [of 2])
          (use 3 l h packet__read_binary_Some [OF p Some, of h] in simp_all)
    qed
  qed
qed

text \<open>A string field: its bytes are checked, and a bad string is refused after it was read.\<close>

lemma validate_opt:
  "0 < length bs \<Longrightarrow> length bs < 65536 \<Longrightarrow>
   mosquitto_validate_utf8 (map_option (\<lambda>v. v @ [0]) (Some bs)) (uint (word_of_nat (length bs) :: uint16))
   = mosquitto_validate_utf8 (Some (bs @ [0])) (int (length bs))"
  by (simp add: uint_nat unsigned_of_nat take_bit_nat_eq_self)

lemma take_field_less: "take_field xs = Some bs \<Longrightarrow> length bs < 65536"
  using byte_pair_less by (auto simp: take_field_def min_def split: list.splits if_splits)

lemma packet__read_string_Some:
  assumes "readable p" "take_field (rest p) = Some bs"
  shows "packet__read_string (p, h) =
    (if bs = [] then (Ok (None, 0), (adv 2 p, h))
     else case alloc h of
         (False, h') \<Rightarrow> (Err MOSQ_ERR_NOMEM, (adv 2 p, h'))
       | (True, h') \<Rightarrow>
           (if utf8_valid bs then Ok (Some bs, word_of_nat (length bs))
            else Err MOSQ_ERR_MALFORMED_UTF8, (adv (2 + length bs) p, h')))"
proof (cases "bs = []")
  case True
  then show ?thesis using packet__read_binary_Some [OF assms, of h]
    by (simp add: packet__read_string_def then_do_def ret_def)
next
  case False
  obtain ok h' where h: "alloc h = (ok, h')" by fastforce
  have l: "0 < length bs" "length bs < 65536"
    using False take_field_less [OF assms(2)] by simp_all
  have nz: "word_of_nat (length bs) \<noteq> (0 :: uint16)"
    using l by (auto simp: word_unat_eq_iff unsigned_of_nat take_bit_nat_eq_self)
  note v = validate_opt [OF l, simplified option.map(2)] validate_utf8_no_fault [of bs]
  show ?thesis
    using packet__read_binary_Some [OF assms, of h] False h nz v
    by (cases ok)
      (auto simp: packet__read_string_def then_do_def ret_def throw_def fault_def utf8_valid_def
        split: res.splits)
qed

lemma packet__read_string_None:
  assumes "readable p" "take_field (rest p) = None"
  shows "\<exists>k \<le> length (rest p). packet__read_string (p, h) = (Err MOSQ_ERR_MALFORMED_PACKET, (adv k p, h))"
  using packet__read_binary_None [OF assms, of h]
  by (auto simp: packet__read_string_def then_do_def)

lemma safe_read_string [safe_intros]: "safe_reader packet__read_string"
proof (rule safe_readerI)
  fix p :: mosquitto__packet and h :: heap
  assume p: "readable p"
  show "\<exists>r k h'. packet__read_string (p, h) = (r, (adv k p, h')) \<and> r \<noteq> Fault \<and> k \<le> length (rest p)"
  proof (cases "take_field (rest p)")
    case None
    then show ?thesis using packet__read_string_None [OF p] by blast
  next
    case (Some bs)
    note l = take_field_length [OF Some]
    obtain ok h' where h: "alloc h = (ok, h')" by fastforce
    consider "bs = []" | "bs \<noteq> []" "ok" | "bs \<noteq> []" "\<not> ok" by blast
    then show ?thesis
    proof cases
      case 1
      show ?thesis by (rule safe_witness [of 2]) (use 1 l packet__read_string_Some [OF p Some, of h] in simp_all)
    next
      case 2
      show ?thesis by (rule safe_witness [of "2 + length bs"])
          (use 2 l h packet__read_string_Some [OF p Some, of h] in simp_all)
    next
      case 3
      show ?thesis by (rule safe_witness [of 2])
          (use 3 l h packet__read_string_Some [OF p Some, of h] in simp_all)
    qed
  qed
qed

section \<open>Writers as functions of the bytes they add\<close>

definition writable :: "mosquitto__packet \<Rightarrow> bool" where
  "writable p = (length (p_payload p) = unat (p_packet_length p)
                 \<and> unat (p_pos p) \<le> unat (p_packet_length p))"

definition room :: "mosquitto__packet \<Rightarrow> nat" where
  "room p = unat (p_packet_length p) - unat (p_pos p)"

definition put :: "byte list \<Rightarrow> mosquitto__packet \<Rightarrow> mosquitto__packet" where
  "put bs p = p\<lparr>p_payload := store (unat (p_pos p)) bs (p_payload p),
               p_pos := p_pos p + word_of_nat (length bs)\<rparr>"

definition written :: "mosquitto__packet \<Rightarrow> byte list" where
  "written p = take (unat (p_pos p)) (p_payload p)"

text \<open>A writer adds the bytes \<open>bs\<close> to every packet with room for them.\<close>

definition writes :: "(mosquitto__packet, unit) cmd \<Rightarrow> byte list \<Rightarrow> bool" where
  "writes c bs = (\<forall>p. writable p \<longrightarrow> length bs \<le> room p \<longrightarrow> c p = (Ok (), put bs p))"

lemma pos_room:
  assumes "writable p"
  shows "unat (p_pos p) + room p = unat (p_packet_length p)"
    "length (p_payload p) = unat (p_pos p) + room p" "unat (p_pos p) + room p < 2 ^ 32"
proof -
  have "unat (p_packet_length p) < 2 ^ LENGTH(32)" by (rule unsigned_less)
  then show "unat (p_pos p) + room p = unat (p_packet_length p)"
    "length (p_payload p) = unat (p_pos p) + room p" "unat (p_pos p) + room p < 2 ^ 32"
    using assms by (auto simp: room_def writable_def)
qed

lemma put_pos:
  "writable p \<Longrightarrow> length bs \<le> room p \<Longrightarrow> unat (p_pos (put bs p)) = unat (p_pos p) + length bs"
proof -
  assume a: "writable p" "length bs \<le> room p"
  have "unat (p_pos p) + length bs < 2 ^ 32"
    using pos_room(3) [OF a(1)] a(2) by linarith
  then show ?thesis by (simp add: put_def unat_add_word_of_nat)
qed

lemma put_simps [simp]:
  "p_packet_length (put bs p) = p_packet_length p"
  "p_remaining_length (put bs p) = p_remaining_length p"
  "p_command (put bs p) = p_command p" "p_mid (put bs p) = p_mid p"
  "p_remaining_count (put bs p) = p_remaining_count p" "p_to_process (put bs p) = p_to_process p"
  by (simp_all add: put_def)

lemma writable_put [simp]:
  assumes "writable p" "length bs \<le> room p"
  shows "writable (put bs p)"
  using assms put_pos [OF assms] by (auto simp: writable_def room_def put_def)

lemma room_put [simp]:
  assumes "writable p" "length bs \<le> room p"
  shows "room (put bs p) = room p - length bs"
  using put_pos [OF assms] by (simp add: room_def)

lemma written_put [simp]:
  assumes "writable p" "length bs \<le> room p"
  shows "written (put bs p) = written p @ bs"
  using assms put_pos [OF assms] unfolding written_def
  by (simp add: put_def take_store writable_def room_def)

lemma put_put [simp]:
  assumes "writable p" "length xs + length ys \<le> room p"
  shows "put ys (put xs p) = put (xs @ ys) p"
proof -
  have "unat (p_pos (put xs p)) = unat (p_pos p) + length xs"
    using assms by (intro put_pos) simp_all
  then show ?thesis
    using assms pos_room(2) [OF assms(1)] store_store [of "unat (p_pos p)" xs "p_payload p" ys]
    by (simp add: put_def add.assoc)
qed

lemma put_Nil [simp]: "put [] p = p"
  by (simp add: put_def store_def)

lemma writesD: "writes c bs \<Longrightarrow> writable p \<Longrightarrow> length bs \<le> room p \<Longrightarrow> c p = (Ok (), put bs p)"
  by (simp add: writes_def)

named_theorems writes_intros

lemma writes_ret [writes_intros]: "writes (ret ()) []"
  by (simp add: writes_def ret_def)

lemma writes_then_do [writes_intros]:
  "writes c xs \<Longrightarrow> writes d ys \<Longrightarrow> writes (then_do c (\<lambda>_. d)) (xs @ ys)"
  by (simp add: writes_def then_do_def)

lemma writes_if [writes_intros]:
  "(b \<Longrightarrow> writes c xs) \<Longrightarrow> (\<not> b \<Longrightarrow> writes d ys) \<Longrightarrow>
   writes (if b then c else d) (if b then xs else ys)"
  by simp

lemma room_word:
  assumes "writable p" "n \<le> room p"
  shows "p_pos p + word_of_nat n \<le> p_packet_length p"
proof -
  have "unat (p_pos p + word_of_nat n) = unat (p_pos p) + n"
    using pos_room(3) [OF assms(1)] assms(2) by (intro unat_add_word_of_nat) linarith
  then show ?thesis
    using pos_room(1) [OF assms(1)] assms(2) by (simp add: word_le_nat_alt)
qed

lemma poke_put: "writable p \<Longrightarrow> length bs \<le> room p \<Longrightarrow> poke bs p = (Ok (), put bs p)"
  using pos_room(2) [of p] by (simp add: poke_def put_def)

lemma writes_byte [writes_intros]: "writes (packet__write_byte b) [b]"
  using room_word [of _ 1] by (auto simp: writes_def packet__write_byte_def poke_put)

lemma writes_bytes:
  "unat count \<le> length bs \<Longrightarrow> writes (packet__write_bytes bs count) (take (unat count) bs)"
  using room_word [of _ "unat count"] by (auto simp: writes_def packet__write_bytes_def poke_put)

definition enc16 :: "uint16 \<Rightarrow> byte list" where
  "enc16 w = [MOSQ_MSB w, MOSQ_LSB w]"

definition enc32 :: "uint32 \<Rightarrow> byte list" where
  "enc32 w = [ucast (drop_bit 24 (w AND 0xFF000000)), ucast (drop_bit 16 (w AND 0x00FF0000)),
              ucast (drop_bit 8 (w AND 0x0000FF00)), ucast (w AND 0x000000FF)]"

lemma writes_uint16 [writes_intros]: "writes (packet__write_uint16 w) (enc16 w)"
  using writes_then_do [OF writes_byte writes_byte]
  by (simp add: packet__write_uint16_def enc16_def)

lemma writes_uint32 [writes_intros]: "writes (packet__write_uint32 w) (enc32 w)"
  using writes_then_do [OF writes_byte writes_then_do [OF writes_byte writes_then_do [OF writes_byte writes_byte]]]
  by (simp add: packet__write_uint32_def enc32_def)

text \<open>A length-prefixed field.\<close>

definition enc_field :: "byte list \<Rightarrow> byte list" where
  "enc_field bs = enc16 (word_of_nat (length bs)) @ bs"

lemma writes_string [writes_intros]:
  assumes "(case str of None \<Rightarrow> [] | Some v \<Rightarrow> v) = bs" "length bs = unat slen"
  shows "writes (packet__write_string str slen) (enc_field bs)"
proof -
  have u: "unat (ucast slen :: uint32) = length bs"
    using assms(2) by simp
  have "writes (packet__write_bytes bs (ucast slen)) bs"
    using writes_bytes [of "ucast slen" bs] u by simp
  moreover have "slen = word_of_nat (length bs)" using assms(2) by simp
  ultimately show ?thesis
    unfolding packet__write_string_def enc_field_def assms(1)
    using writes_then_do [OF writes_uint16] by blast
qed

text \<open>The variable byte integer writer; a value of 2^28 or more is refused after the fact.\<close>

lemma low_digit: "ucast (w mod 128) = (word_of_nat (unat w mod 128) :: byte)" for w :: uint32
  by (simp add: word_unat_eq_iff unsigned_ucast_eq unsigned_of_nat unat_mod take_bit_eq_mod del: of_nat_mod)

lemma low_digit_cont:
  "ucast (w mod 128) OR 0x80 = (word_of_nat (128 + unat w mod 128) :: byte)" for w :: uint32
proof -
  have "unat (word_of_nat (unat w mod 128) :: byte) = unat w mod 128"
    by (intro unat_of_nat_less) (simp add: less_trans [of _ 128])
  then have "word_of_nat (unat w mod 128) AND (0x80 :: byte) = 0"
    by (simp add: unat_byte_and7(2) del: of_nat_mod)
  then have "word_of_nat (unat w mod 128) OR (0x80 :: byte) = word_of_nat (unat w mod 128) + 0x80"
    by (simp add: disjunctive_add_eq_or del: of_nat_mod)
  then show ?thesis unfolding low_digit by (simp add: add.commute)
qed

lemma write_varint_loop_put:
  assumes "writable p" "length (varint_enc (unat w)) \<le> room p" "length (varint_enc (unat w)) \<le> n"
  shows "write_varint_loop n w p =
    (Ok (n - length (varint_enc (unat w))), put (varint_enc (unat w)) p)"
  using assms
proof (induction n arbitrary: w p)
  case 0
  have "varint_enc (unat w) \<noteq> []" by (subst varint_enc.simps) simp
  with 0 show ?case by simp
next
  case (Suc n)
  have d: "unat (w div 128) = unat w div 128" by (simp add: unat_div)
  show ?case
  proof (cases "unat w < 128")
    case True
    then have z: "\<not> w div 128 > 0" using d by (simp add: word_less_nat_alt)
    have e: "varint_enc (unat w) = [word_of_nat (unat w)]" using True by (subst varint_enc.simps) simp
    have b: "ucast (w mod 128) = (word_of_nat (unat w) :: byte)"
      using True unfolding low_digit by simp
    show ?thesis using Suc.prems z e b writesD [OF writes_byte Suc.prems(1)]
      by (simp add: then_do_def ret_def)
  next
    case False
    then have nz: "w div 128 > 0" using d by (simp add: word_less_nat_alt div_greater_zero_iff)
    have e: "varint_enc (unat w) = word_of_nat (128 + unat w mod 128) # varint_enc (unat (w div 128))"
      using False unfolding d by (subst varint_enc.simps) simp
    have "packet__write_byte (word_of_nat (128 + unat w mod 128)) p
        = (Ok (), put [word_of_nat (128 + unat w mod 128)] p)"
      using Suc.prems(1,2) e by (intro writesD [OF writes_byte]) simp_all
    moreover have "write_varint_loop n (w div 128) (put [word_of_nat (128 + unat w mod 128)] p)
        = (Ok (n - length (varint_enc (unat (w div 128)))),
           put (varint_enc (unat (w div 128))) (put [word_of_nat (128 + unat w mod 128)] p))"
      using Suc.prems e by (intro Suc.IH) simp_all
    ultimately show ?thesis
      using nz e Suc.prems(1,2) by (simp add: then_do_def low_digit_cont del: of_nat_add)
  qed
qed

lemma varint_enc_le5: "length (varint_enc (unat (w :: uint32))) \<le> 5"
  unfolding varint_bytes_enc [symmetric] by (simp add: packet__varint_bytes_def)

lemma varint_enc_le4: "length (varint_enc (unat (w :: uint32))) \<le> 4 \<longleftrightarrow> unat w < 2 ^ 28"
  unfolding varint_bytes_enc [symmetric] by (auto simp: packet__varint_bytes_def word_less_nat_alt)

lemma write_varint_put:
  assumes "writable p" "length (varint_enc (unat w)) \<le> room p"
  shows "packet__write_varint w p =
    (if unat w < 2 ^ 28 then Ok () else Err MOSQ_ERR_MALFORMED_PACKET, put (varint_enc (unat w)) p)"
  using write_varint_loop_put [OF assms varint_enc_le5] varint_enc_le4 [of w] varint_enc_le5 [of w]
  by (auto simp: packet__write_varint_def then_do_def throw_def ret_def)

lemma writes_varint [writes_intros]:
  "unat w < 2 ^ 28 \<Longrightarrow> writes (packet__write_varint w) (varint_enc (unat w))"
  by (simp add: writes_def write_varint_put)

section \<open>Codecs\<close>

text \<open>A packet that was received with the given contents, and what a writer added.\<close>

definition reading :: "byte list \<Rightarrow> mosquitto__packet" where
  "reading bs = \<lparr>p_payload = bs, p_remaining_mult = 1, p_remaining_length = word_of_nat (length bs),
     p_packet_length = 0, p_to_process = 0, p_pos = 0, p_mid = 0, p_command = 0,
     p_remaining_count = 0\<rparr>"

lemma readable_reading [simp]: "length bs < 2 ^ 28 \<Longrightarrow> readable (reading bs)"
  by (simp add: readable_def reading_def unat_of_nat_less)

lemma rest_reading [simp]: "length bs < 2 ^ 28 \<Longrightarrow> rest (reading bs) = bs"
  by (simp add: rest_def reading_def unat_of_nat_less)

definition reads :: "(pkt_heap, 'a) cmd \<Rightarrow> byte list \<Rightarrow> 'a \<Rightarrow> bool" where
  "reads c bs a = (\<forall>p h xs. readable p \<longrightarrow> rest p = bs @ xs \<longrightarrow> never_fails h \<longrightarrow>
     c (p, h) = (Ok a, (adv (length bs) p, h)))"

lemma readsI:
  assumes "\<And>p h xs. readable p \<Longrightarrow> rest p = bs @ xs \<Longrightarrow> never_fails h \<Longrightarrow>
    c (p, h) = (Ok a, (adv (length bs) p, h))"
  shows "reads c bs a"
  using assms by (simp add: reads_def)

lemma readsD:
  "reads c bs a \<Longrightarrow> readable p \<Longrightarrow> rest p = bs @ xs \<Longrightarrow> never_fails h \<Longrightarrow>
   c (p, h) = (Ok a, (adv (length bs) p, h))"
  by (simp add: reads_def)

lemma reads_ret: "reads (ret a) [] a"
  by (rule readsI) (simp add: ret_def)

lemma reads_then_do:
  assumes "reads c xs a" "reads (f a) ys b"
  shows "reads (then_do c f) (xs @ ys) b"
proof (rule readsI)
  fix p :: mosquitto__packet and h :: heap and zs :: "byte list"
  assume p: "readable p" "rest p = (xs @ ys) @ zs" "never_fails h"
  have "c (p, h) = (Ok a, (adv (length xs) p, h))"
    using p by (intro readsD [OF assms(1), of _ "ys @ zs"]) simp_all
  moreover have "f a (adv (length xs) p, h) = (Ok b, (adv (length ys) (adv (length xs) p), h))"
    using p by (intro readsD [OF assms(2), of _ zs]) simp_all
  ultimately show "then_do c f (p, h) = (Ok b, (adv (length (xs @ ys)) p, h))"
    by (simp add: then_do_def)
qed

text \<open>
  The contract between a writer and a reader of one datatype: the writer adds \<open>enc v\<close>, and
  the reader, on those bytes, takes them off and returns \<open>out v\<close>.
\<close>

locale codec =
  fixes wr :: "'v \<Rightarrow> (mosquitto__packet, unit) cmd"
    and rd :: "(pkt_heap, 'w) cmd"
    and enc :: "'v \<Rightarrow> byte list"
    and out :: "'v \<Rightarrow> 'w"
    and dom_ok :: "'v \<Rightarrow> bool"
  assumes write_enc: "dom_ok v \<Longrightarrow> writes (wr v) (enc v)"
    and read_enc: "dom_ok v \<Longrightarrow> reads rd (enc v) (out v)"
begin

lemma roundtrip:
  assumes "dom_ok v" "writable p" "length (enc v) \<le> room p" "length (enc v @ xs) < 2 ^ 28" "never_fails h"
  shows "wr v p = (Ok (), put (enc v) p) \<and> written (put (enc v) p) = written p @ enc v
    \<and> rd (reading (enc v @ xs), h) = (Ok (out v), (adv (length (enc v)) (reading (enc v @ xs)), h))
    \<and> rest (adv (length (enc v)) (reading (enc v @ xs))) = xs"
proof (intro conjI)
  show "wr v p = (Ok (), put (enc v) p)"
    using assms by (intro writesD [OF write_enc]) simp_all
  show "written (put (enc v) p) = written p @ enc v"
    using assms by simp
  show "rd (reading (enc v @ xs), h) = (Ok (out v), (adv (length (enc v)) (reading (enc v @ xs)), h))"
    using assms by (intro readsD [OF read_enc, of _ _ xs]) simp_all
  show "rest (adv (length (enc v)) (reading (enc v @ xs))) = xs"
    using assms by simp
qed

text \<open>Two values with the same encoding read back the same, so encodings determine values.\<close>

lemma enc_determines:
  assumes "dom_ok v" "dom_ok w" "enc v = enc w" "length (enc v) < 2 ^ 28"
  shows "out v = out w"
proof -
  define h :: heap where "h = \<lparr>h_script = [], h_junk = \<lambda>_. 0\<rparr>"
  have h: "never_fails h" by (simp add: h_def never_fails_def)
  have "rd (reading (enc v), h) = (Ok (out v), (adv (length (enc v)) (reading (enc v)), h))"
    using assms h by (intro readsD [OF read_enc, of _ _ "[]"]) simp_all
  moreover have "rd (reading (enc v), h) = (Ok (out w), (adv (length (enc w)) (reading (enc v)), h))"
    using assms h by (intro readsD [OF read_enc, of _ _ "[]"]) simp_all
  ultimately show ?thesis by simp
qed

end

section \<open>The codecs of the packet datatypes\<close>

lemma byte_field:
  fixes w :: "'a::len word"
  shows "ucast (drop_bit k (w AND push_bit k (mask 8))) = (ucast (drop_bit k w) :: byte)"
  by (rule bit_word_eqI) (use bit_imp_le_length [of w] in \<open>force simp: bit_simps\<close>)

lemma unat_byte_field:
  fixes w :: "'a::len word"
  shows "unat (ucast (drop_bit k w) :: byte) = unat w div 2 ^ k mod 256"
proof -
  have "unat (drop_bit k w) = unat w div 2 ^ k"
    by (simp only: unsigned_drop_bit_eq)
      (simp add: drop_bit_eq_div take_bit_nat_eq_self unsigned_less)
  then show ?thesis by (simp only: unsigned_ucast_eq) (simp add: take_bit_eq_mod)
qed

lemma field_masks:
  "(0xFF00 :: uint16) = push_bit 8 (mask 8)" "(0x00FF :: uint16) = push_bit 0 (mask 8)"
  "(0xFF000000 :: uint32) = push_bit 24 (mask 8)" "(0x00FF0000 :: uint32) = push_bit 16 (mask 8)"
  "(0x0000FF00 :: uint32) = push_bit 8 (mask 8)" "(0x000000FF :: uint32) = push_bit 0 (mask 8)"
  by code_simp+

lemma unat_msb_lsb: "unat (MOSQ_MSB w) = unat w div 256" "unat (MOSQ_LSB w) = unat w mod 256"
proof -
  have "unat w < 2 ^ LENGTH(16)" by (rule unsigned_less)
  then show "unat (MOSQ_MSB w) = unat w div 256"
    unfolding MOSQ_MSB_def field_masks byte_field unat_byte_field
    by (simp add: div_less_iff_less_mult)
  have "ucast (w AND 0x00FF) = (ucast (drop_bit 0 w) :: byte)"
    using byte_field [of 0 w] unfolding field_masks by simp
  then show "unat (MOSQ_LSB w) = unat w mod 256"
    unfolding MOSQ_LSB_def using unat_byte_field [of 0 w] by simp
qed

lemma enc16_nat: "enc16 w = [word_of_nat (unat w div 256), word_of_nat (unat w mod 256)]"
  unfolding enc16_def by (simp flip: unat_msb_lsb)

lemma length_enc [simp]:
  "length (enc16 w) = 2" "length (enc32 v) = 4" "length (enc_field bs) = 2 + length bs"
  by (simp_all add: enc16_def enc32_def enc_field_def)

lemma reads_byte: "reads (on_packet packet__read_byte) [b] b"
  by (rule readsI) (simp add: on_packet_run packet__read_byte_rest)

lemma reads_uint16: "reads (on_packet packet__read_uint16) (enc16 w) w"
proof (rule readsI)
  fix p :: mosquitto__packet and h :: heap and xs
  assume p: "readable p" "rest p = enc16 w @ xs" "never_fails h"
  have "256 * (unat w div 256) + unat w mod 256 = unat w" by simp
  then have "word_of_nat (256 * unat (MOSQ_MSB w) + unat (MOSQ_LSB w)) = w"
    unfolding unat_msb_lsb by simp
  then show "on_packet packet__read_uint16 (p, h) = (Ok w, (adv (length (enc16 w)) p, h))"
    using p by (simp add: on_packet_run packet__read_uint16_rest enc16_def numeral_2_eq_2 del: of_nat_add of_nat_mult)
qed

lemma be_nat_enc32: "be_nat 0 (enc32 w) = unat w"
proof -
  have "ucast (w AND 0x000000FF) = (ucast (drop_bit 0 w) :: byte)"
    using byte_field [of 0 w] unfolding field_masks by simp
  then have e: "enc32 w = [ucast (drop_bit 24 w), ucast (drop_bit 16 w), ucast (drop_bit 8 w), ucast (drop_bit 0 w)]"
    unfolding enc32_def field_masks byte_field by simp
  have lt: "unat w < 2 ^ LENGTH(32)" by (rule unsigned_less)
  define n where "n = unat w"
  have "n div 16777216 mod 256 = n div 16777216"
    using lt by (simp add: n_def div_less_iff_less_mult)
  note top = this
  have "n div 16777216 = n div 256 div 256 div 256" "n div 65536 = n div 256 div 256"
    by (simp_all add: div_mult2_eq [symmetric])
  with top have "256 * (256 * (256 * (n div 16777216 mod 256) + n div 65536 mod 256) + n div 256 mod 256) + n mod 256 = n"
    by (simp only: mult_div_mod_eq)
  then show ?thesis unfolding e be_nat_simps unat_byte_field n_def [symmetric] using top by simp
qed

lemma reads_uint32: "reads (on_packet packet__read_uint32) (enc32 w) w"
  by (rule readsI) (simp add: on_packet_run packet__read_uint32_rest be_nat_enc32)

lemma reads_varint:
  assumes "unat w < 2 ^ 28"
  shows "reads (on_packet packet__read_varint) (varint_enc (unat w)) (w, word_of_nat (packet__varint_bytes w))"
proof (rule readsI)
  fix p :: mosquitto__packet and h :: heap and xs
  assume p: "readable p" "rest p = varint_enc (unat w) @ xs" "never_fails h"
  have "varint_dec 4 True (rest p) = Some (unat w, length (varint_enc (unat w)))"
    unfolding p(2) using assms by (intro varint_dec_enc) simp_all
  then show "on_packet packet__read_varint (p, h) =
      (Ok (w, word_of_nat (packet__varint_bytes w)), (adv (length (varint_enc (unat w))) p, h))"
    by (simp add: on_packet_run packet__read_varint_Some [OF p(1)] varint_bytes_enc)
qed

lemma take_field_enc:
  assumes "length bs < 65536"
  shows "take_field (enc_field bs @ xs) = Some bs"
proof -
  have "256 * (length bs div 256) + length bs mod 256 = length bs" by simp
  then show ?thesis
    using assms by (simp add: enc_field_def take_field_def enc16_def unat_msb_lsb unat_of_nat_less)
qed

text \<open>What a reader returns for a field: NULL for the empty one.\<close>

definition field_out :: "byte list \<Rightarrow> byte list option \<times> uint16" where
  "field_out bs = (opt_bytes bs, word_of_nat (length bs))"

lemma reads_binary: "length bs < 65536 \<Longrightarrow> reads packet__read_binary (enc_field bs) (field_out bs)"
  by (rule readsI) (simp add: packet__read_binary_Some take_field_enc field_out_def opt_bytes_def numeral_2_eq_2)

lemma reads_string:
  "length bs < 65536 \<Longrightarrow> bs = [] \<or> utf8_valid bs \<Longrightarrow> reads packet__read_string (enc_field bs) (field_out bs)"
  by (rule readsI) (auto simp: packet__read_string_Some take_field_enc field_out_def opt_bytes_def numeral_2_eq_2)

lemma writes_field:
  assumes "length bs < 65536"
  shows "writes (packet__write_string (Some bs) (word_of_nat (length bs))) (enc_field bs)"
  using assms by (intro writes_string) (simp_all add: unat_of_nat_less)

interpretation byte_codec: codec packet__write_byte "on_packet packet__read_byte" "\<lambda>b. [b]" id "\<lambda>_. True"
  by unfold_locales (simp_all add: writes_byte reads_byte)

interpretation uint16_codec: codec packet__write_uint16 "on_packet packet__read_uint16" enc16 id "\<lambda>_. True"
  by unfold_locales (simp_all add: writes_uint16 reads_uint16)

interpretation uint32_codec: codec packet__write_uint32 "on_packet packet__read_uint32" enc32 id "\<lambda>_. True"
  by unfold_locales (simp_all add: writes_uint32 reads_uint32)

interpretation varint_codec: codec packet__write_varint "on_packet packet__read_varint"
  "\<lambda>w. varint_enc (unat w)" "\<lambda>w. (w, word_of_nat (packet__varint_bytes w))" "\<lambda>w. unat w < 2 ^ 28"
  by unfold_locales (simp_all add: writes_varint reads_varint)

interpretation binary_codec: codec "\<lambda>bs. packet__write_string (Some bs) (word_of_nat (length bs))"
  packet__read_binary enc_field field_out "\<lambda>bs. length bs < 65536"
  by unfold_locales (simp_all add: writes_field reads_binary)

interpretation string_codec: codec "\<lambda>bs. packet__write_string (Some bs) (word_of_nat (length bs))"
  packet__read_string enc_field field_out "\<lambda>bs. length bs < 65536 \<and> (bs = [] \<or> utf8_valid bs)"
  by unfold_locales (auto simp: writes_field intro: reads_string)

end
