(* ===== verification/Mqtt_Protocol.thy ===== *)
theory Mqtt_Protocol
  imports Prelude
begin

text \<open>
  The constants of mqtt_protocol.h and mosquitto_internal.h, as abbreviations, so that they are
  numerals to the simplifier: command bytes, property identifiers, reason codes, CONNACK codes.
\<close>

section \<open>Commands\<close>

abbreviation (input) CMD_CONNECT :: "'a::numeral" where "CMD_CONNECT \<equiv> 0x10"
abbreviation (input) CMD_CONNACK :: "'a::numeral" where "CMD_CONNACK \<equiv> 0x20"
abbreviation (input) CMD_PUBLISH :: "'a::numeral" where "CMD_PUBLISH \<equiv> 0x30"
abbreviation (input) CMD_PUBACK :: "'a::numeral" where "CMD_PUBACK \<equiv> 0x40"
abbreviation (input) CMD_PUBREC :: "'a::numeral" where "CMD_PUBREC \<equiv> 0x50"
abbreviation (input) CMD_PUBREL :: "'a::numeral" where "CMD_PUBREL \<equiv> 0x60"
abbreviation (input) CMD_PUBCOMP :: "'a::numeral" where "CMD_PUBCOMP \<equiv> 0x70"
abbreviation (input) CMD_SUBSCRIBE :: "'a::numeral" where "CMD_SUBSCRIBE \<equiv> 0x80"
abbreviation (input) CMD_SUBACK :: "'a::numeral" where "CMD_SUBACK \<equiv> 0x90"
abbreviation (input) CMD_UNSUBSCRIBE :: "'a::numeral" where "CMD_UNSUBSCRIBE \<equiv> 0xA0"
abbreviation (input) CMD_UNSUBACK :: "'a::numeral" where "CMD_UNSUBACK \<equiv> 0xB0"
abbreviation (input) CMD_PINGREQ :: "'a::numeral" where "CMD_PINGREQ \<equiv> 0xC0"
abbreviation (input) CMD_PINGRESP :: "'a::numeral" where "CMD_PINGRESP \<equiv> 0xD0"
abbreviation (input) CMD_DISCONNECT :: "'a::numeral" where "CMD_DISCONNECT \<equiv> 0xE0"
abbreviation (input) CMD_AUTH :: "'a::numeral" where "CMD_AUTH \<equiv> 0xF0"
abbreviation (input) CMD_WILL :: "'a::numeral" where "CMD_WILL \<equiv> 0x100"

section \<open>Property identifiers\<close>

abbreviation (input) MQTT_PROP_PAYLOAD_FORMAT_INDICATOR :: "'a::one" where "MQTT_PROP_PAYLOAD_FORMAT_INDICATOR \<equiv> 1"
abbreviation (input) MQTT_PROP_MESSAGE_EXPIRY_INTERVAL :: "'a::numeral" where "MQTT_PROP_MESSAGE_EXPIRY_INTERVAL \<equiv> 2"
abbreviation (input) MQTT_PROP_CONTENT_TYPE :: "'a::numeral" where "MQTT_PROP_CONTENT_TYPE \<equiv> 3"
abbreviation (input) MQTT_PROP_RESPONSE_TOPIC :: "'a::numeral" where "MQTT_PROP_RESPONSE_TOPIC \<equiv> 8"
abbreviation (input) MQTT_PROP_CORRELATION_DATA :: "'a::numeral" where "MQTT_PROP_CORRELATION_DATA \<equiv> 9"
abbreviation (input) MQTT_PROP_SUBSCRIPTION_IDENTIFIER :: "'a::numeral" where "MQTT_PROP_SUBSCRIPTION_IDENTIFIER \<equiv> 11"
abbreviation (input) MQTT_PROP_SESSION_EXPIRY_INTERVAL :: "'a::numeral" where "MQTT_PROP_SESSION_EXPIRY_INTERVAL \<equiv> 17"
abbreviation (input) MQTT_PROP_ASSIGNED_CLIENT_IDENTIFIER :: "'a::numeral" where "MQTT_PROP_ASSIGNED_CLIENT_IDENTIFIER \<equiv> 18"
abbreviation (input) MQTT_PROP_SERVER_KEEP_ALIVE :: "'a::numeral" where "MQTT_PROP_SERVER_KEEP_ALIVE \<equiv> 19"
abbreviation (input) MQTT_PROP_AUTHENTICATION_METHOD :: "'a::numeral" where "MQTT_PROP_AUTHENTICATION_METHOD \<equiv> 21"
abbreviation (input) MQTT_PROP_AUTHENTICATION_DATA :: "'a::numeral" where "MQTT_PROP_AUTHENTICATION_DATA \<equiv> 22"
abbreviation (input) MQTT_PROP_REQUEST_PROBLEM_INFORMATION :: "'a::numeral" where "MQTT_PROP_REQUEST_PROBLEM_INFORMATION \<equiv> 23"
abbreviation (input) MQTT_PROP_WILL_DELAY_INTERVAL :: "'a::numeral" where "MQTT_PROP_WILL_DELAY_INTERVAL \<equiv> 24"
abbreviation (input) MQTT_PROP_REQUEST_RESPONSE_INFORMATION :: "'a::numeral" where "MQTT_PROP_REQUEST_RESPONSE_INFORMATION \<equiv> 25"
abbreviation (input) MQTT_PROP_RESPONSE_INFORMATION :: "'a::numeral" where "MQTT_PROP_RESPONSE_INFORMATION \<equiv> 26"
abbreviation (input) MQTT_PROP_SERVER_REFERENCE :: "'a::numeral" where "MQTT_PROP_SERVER_REFERENCE \<equiv> 28"
abbreviation (input) MQTT_PROP_REASON_STRING :: "'a::numeral" where "MQTT_PROP_REASON_STRING \<equiv> 31"
abbreviation (input) MQTT_PROP_RECEIVE_MAXIMUM :: "'a::numeral" where "MQTT_PROP_RECEIVE_MAXIMUM \<equiv> 33"
abbreviation (input) MQTT_PROP_TOPIC_ALIAS_MAXIMUM :: "'a::numeral" where "MQTT_PROP_TOPIC_ALIAS_MAXIMUM \<equiv> 34"
abbreviation (input) MQTT_PROP_TOPIC_ALIAS :: "'a::numeral" where "MQTT_PROP_TOPIC_ALIAS \<equiv> 35"
abbreviation (input) MQTT_PROP_MAXIMUM_QOS :: "'a::numeral" where "MQTT_PROP_MAXIMUM_QOS \<equiv> 36"
abbreviation (input) MQTT_PROP_RETAIN_AVAILABLE :: "'a::numeral" where "MQTT_PROP_RETAIN_AVAILABLE \<equiv> 37"
abbreviation (input) MQTT_PROP_USER_PROPERTY :: "'a::numeral" where "MQTT_PROP_USER_PROPERTY \<equiv> 38"
abbreviation (input) MQTT_PROP_MAXIMUM_PACKET_SIZE :: "'a::numeral" where "MQTT_PROP_MAXIMUM_PACKET_SIZE \<equiv> 39"
abbreviation (input) MQTT_PROP_WILDCARD_SUB_AVAILABLE :: "'a::numeral" where "MQTT_PROP_WILDCARD_SUB_AVAILABLE \<equiv> 40"
abbreviation (input) MQTT_PROP_SUBSCRIPTION_ID_AVAILABLE :: "'a::numeral" where "MQTT_PROP_SUBSCRIPTION_ID_AVAILABLE \<equiv> 41"
abbreviation (input) MQTT_PROP_SHARED_SUB_AVAILABLE :: "'a::numeral" where "MQTT_PROP_SHARED_SUB_AVAILABLE \<equiv> 42"

text \<open>\<open>enum mqtt5_property_type\<close>\<close>

datatype mqtt5_property_type =
    MQTT_PROP_TYPE_BYTE
  | MQTT_PROP_TYPE_INT16
  | MQTT_PROP_TYPE_INT32
  | MQTT_PROP_TYPE_VARINT
  | MQTT_PROP_TYPE_BINARY
  | MQTT_PROP_TYPE_STRING
  | MQTT_PROP_TYPE_STRING_PAIR

section \<open>Reason codes and CONNACK codes\<close>

abbreviation (input) MQTT_RC_SUCCESS :: "'a::zero" where "MQTT_RC_SUCCESS \<equiv> 0"
abbreviation (input) MQTT_RC_NORMAL_DISCONNECTION :: "'a::zero" where "MQTT_RC_NORMAL_DISCONNECTION \<equiv> 0"
abbreviation (input) MQTT_RC_GRANTED_QOS0 :: "'a::zero" where "MQTT_RC_GRANTED_QOS0 \<equiv> 0"
abbreviation (input) MQTT_RC_GRANTED_QOS1 :: "'a::one" where "MQTT_RC_GRANTED_QOS1 \<equiv> 1"
abbreviation (input) MQTT_RC_GRANTED_QOS2 :: "'a::numeral" where "MQTT_RC_GRANTED_QOS2 \<equiv> 2"
abbreviation (input) MQTT_RC_DISCONNECT_WITH_WILL_MSG :: "'a::numeral" where "MQTT_RC_DISCONNECT_WITH_WILL_MSG \<equiv> 4"
abbreviation (input) MQTT_RC_NO_MATCHING_SUBSCRIBERS :: "'a::numeral" where "MQTT_RC_NO_MATCHING_SUBSCRIBERS \<equiv> 16"
abbreviation (input) MQTT_RC_NO_SUBSCRIPTION_EXISTED :: "'a::numeral" where "MQTT_RC_NO_SUBSCRIPTION_EXISTED \<equiv> 17"
abbreviation (input) MQTT_RC_CONTINUE_AUTHENTICATION :: "'a::numeral" where "MQTT_RC_CONTINUE_AUTHENTICATION \<equiv> 24"
abbreviation (input) MQTT_RC_REAUTHENTICATE :: "'a::numeral" where "MQTT_RC_REAUTHENTICATE \<equiv> 25"
abbreviation (input) MQTT_RC_UNSPECIFIED :: "'a::numeral" where "MQTT_RC_UNSPECIFIED \<equiv> 128"
abbreviation (input) MQTT_RC_MALFORMED_PACKET :: "'a::numeral" where "MQTT_RC_MALFORMED_PACKET \<equiv> 129"
abbreviation (input) MQTT_RC_PROTOCOL_ERROR :: "'a::numeral" where "MQTT_RC_PROTOCOL_ERROR \<equiv> 130"
abbreviation (input) MQTT_RC_IMPLEMENTATION_SPECIFIC :: "'a::numeral" where "MQTT_RC_IMPLEMENTATION_SPECIFIC \<equiv> 131"
abbreviation (input) MQTT_RC_UNSUPPORTED_PROTOCOL_VERSION :: "'a::numeral" where "MQTT_RC_UNSUPPORTED_PROTOCOL_VERSION \<equiv> 132"
abbreviation (input) MQTT_RC_CLIENTID_NOT_VALID :: "'a::numeral" where "MQTT_RC_CLIENTID_NOT_VALID \<equiv> 133"
abbreviation (input) MQTT_RC_BAD_USERNAME_OR_PASSWORD :: "'a::numeral" where "MQTT_RC_BAD_USERNAME_OR_PASSWORD \<equiv> 134"
abbreviation (input) MQTT_RC_NOT_AUTHORIZED :: "'a::numeral" where "MQTT_RC_NOT_AUTHORIZED \<equiv> 135"
abbreviation (input) MQTT_RC_SERVER_UNAVAILABLE :: "'a::numeral" where "MQTT_RC_SERVER_UNAVAILABLE \<equiv> 136"
abbreviation (input) MQTT_RC_SERVER_BUSY :: "'a::numeral" where "MQTT_RC_SERVER_BUSY \<equiv> 137"
abbreviation (input) MQTT_RC_BANNED :: "'a::numeral" where "MQTT_RC_BANNED \<equiv> 138"
abbreviation (input) MQTT_RC_SERVER_SHUTTING_DOWN :: "'a::numeral" where "MQTT_RC_SERVER_SHUTTING_DOWN \<equiv> 139"
abbreviation (input) MQTT_RC_BAD_AUTHENTICATION_METHOD :: "'a::numeral" where "MQTT_RC_BAD_AUTHENTICATION_METHOD \<equiv> 140"
abbreviation (input) MQTT_RC_KEEP_ALIVE_TIMEOUT :: "'a::numeral" where "MQTT_RC_KEEP_ALIVE_TIMEOUT \<equiv> 141"
abbreviation (input) MQTT_RC_SESSION_TAKEN_OVER :: "'a::numeral" where "MQTT_RC_SESSION_TAKEN_OVER \<equiv> 142"
abbreviation (input) MQTT_RC_TOPIC_FILTER_INVALID :: "'a::numeral" where "MQTT_RC_TOPIC_FILTER_INVALID \<equiv> 143"
abbreviation (input) MQTT_RC_TOPIC_NAME_INVALID :: "'a::numeral" where "MQTT_RC_TOPIC_NAME_INVALID \<equiv> 144"
abbreviation (input) MQTT_RC_PACKET_ID_IN_USE :: "'a::numeral" where "MQTT_RC_PACKET_ID_IN_USE \<equiv> 145"
abbreviation (input) MQTT_RC_PACKET_ID_NOT_FOUND :: "'a::numeral" where "MQTT_RC_PACKET_ID_NOT_FOUND \<equiv> 146"
abbreviation (input) MQTT_RC_RECEIVE_MAXIMUM_EXCEEDED :: "'a::numeral" where "MQTT_RC_RECEIVE_MAXIMUM_EXCEEDED \<equiv> 147"
abbreviation (input) MQTT_RC_TOPIC_ALIAS_INVALID :: "'a::numeral" where "MQTT_RC_TOPIC_ALIAS_INVALID \<equiv> 148"
abbreviation (input) MQTT_RC_PACKET_TOO_LARGE :: "'a::numeral" where "MQTT_RC_PACKET_TOO_LARGE \<equiv> 149"
abbreviation (input) MQTT_RC_MESSAGE_RATE_TOO_HIGH :: "'a::numeral" where "MQTT_RC_MESSAGE_RATE_TOO_HIGH \<equiv> 150"
abbreviation (input) MQTT_RC_QUOTA_EXCEEDED :: "'a::numeral" where "MQTT_RC_QUOTA_EXCEEDED \<equiv> 151"
abbreviation (input) MQTT_RC_ADMINISTRATIVE_ACTION :: "'a::numeral" where "MQTT_RC_ADMINISTRATIVE_ACTION \<equiv> 152"
abbreviation (input) MQTT_RC_PAYLOAD_FORMAT_INVALID :: "'a::numeral" where "MQTT_RC_PAYLOAD_FORMAT_INVALID \<equiv> 153"
abbreviation (input) MQTT_RC_RETAIN_NOT_SUPPORTED :: "'a::numeral" where "MQTT_RC_RETAIN_NOT_SUPPORTED \<equiv> 154"
abbreviation (input) MQTT_RC_QOS_NOT_SUPPORTED :: "'a::numeral" where "MQTT_RC_QOS_NOT_SUPPORTED \<equiv> 155"
abbreviation (input) MQTT_RC_USE_ANOTHER_SERVER :: "'a::numeral" where "MQTT_RC_USE_ANOTHER_SERVER \<equiv> 156"
abbreviation (input) MQTT_RC_SERVER_MOVED :: "'a::numeral" where "MQTT_RC_SERVER_MOVED \<equiv> 157"
abbreviation (input) MQTT_RC_SHARED_SUBS_NOT_SUPPORTED :: "'a::numeral" where "MQTT_RC_SHARED_SUBS_NOT_SUPPORTED \<equiv> 158"
abbreviation (input) MQTT_RC_CONNECTION_RATE_EXCEEDED :: "'a::numeral" where "MQTT_RC_CONNECTION_RATE_EXCEEDED \<equiv> 159"
abbreviation (input) MQTT_RC_MAXIMUM_CONNECT_TIME :: "'a::numeral" where "MQTT_RC_MAXIMUM_CONNECT_TIME \<equiv> 160"
abbreviation (input) MQTT_RC_SUBSCRIPTION_IDS_NOT_SUPPORTED :: "'a::numeral" where "MQTT_RC_SUBSCRIPTION_IDS_NOT_SUPPORTED \<equiv> 161"
abbreviation (input) MQTT_RC_WILDCARD_SUBS_NOT_SUPPORTED :: "'a::numeral" where "MQTT_RC_WILDCARD_SUBS_NOT_SUPPORTED \<equiv> 162"
abbreviation (input) CONNACK_ACCEPTED :: "'a::zero" where "CONNACK_ACCEPTED \<equiv> 0"
abbreviation (input) CONNACK_REFUSED_PROTOCOL_VERSION :: "'a::one" where "CONNACK_REFUSED_PROTOCOL_VERSION \<equiv> 1"
abbreviation (input) CONNACK_REFUSED_IDENTIFIER_REJECTED :: "'a::numeral" where "CONNACK_REFUSED_IDENTIFIER_REJECTED \<equiv> 2"
abbreviation (input) CONNACK_REFUSED_SERVER_UNAVAILABLE :: "'a::numeral" where "CONNACK_REFUSED_SERVER_UNAVAILABLE \<equiv> 3"
abbreviation (input) CONNACK_REFUSED_BAD_USERNAME_PASSWORD :: "'a::numeral" where "CONNACK_REFUSED_BAD_USERNAME_PASSWORD \<equiv> 4"
abbreviation (input) CONNACK_REFUSED_NOT_AUTHORIZED :: "'a::numeral" where "CONNACK_REFUSED_NOT_AUTHORIZED \<equiv> 5"

abbreviation (input) MQTT_MAX_PAYLOAD :: "'a::numeral" where "MQTT_MAX_PAYLOAD \<equiv> 268435455"

section \<open>Protocol versions and client states\<close>

datatype mosquitto__protocol =
    mosq_p_invalid
  | mosq_p_mqtt31
  | mosq_p_mqtt311
  | mosq_p_mqtts
  | mosq_p_mqtt5

abbreviation (input) PROTOCOL_VERSION_v31 :: "'a::numeral" where "PROTOCOL_VERSION_v31 \<equiv> 3"
abbreviation (input) PROTOCOL_VERSION_v311 :: "'a::numeral" where "PROTOCOL_VERSION_v311 \<equiv> 4"
abbreviation (input) PROTOCOL_VERSION_v5 :: "'a::numeral" where "PROTOCOL_VERSION_v5 \<equiv> 5"

end
