(* ===== verification/Property.thy ===== *)
theory Property
  imports Packet_Datatypes Mqtt_Protocol
begin

text \<open>
  MQTT 5 properties, property_mosq.c: the property list, reading it from a packet and writing
  it to one, its encoded length, the check of a list against a command, and the public
  functions that build, search and copy lists. Property lists are HOL lists (NULL is the empty
  list). The union of \<open>struct mqtt5__property\<close> is a product here: every access in the code
  is guarded by the identifier, which fixes the member used.
\<close>

unbundle bit_operations_syntax

section \<open>Data\<close>

text \<open>\<open>struct mqtt__string\<close>: the bytes without the terminator the code appends, \<open>None\<close> for NULL.\<close>

record mqtt__string =
  s_v :: "byte list option"
  s_len :: uint16

record mosquitto_property =
  pr_i8 :: byte
  pr_i16 :: uint16
  pr_i32 :: uint32
  pr_varint :: uint32
  pr_bin :: mqtt__string
  pr_s :: mqtt__string
  pr_name :: mqtt__string
  pr_identifier :: int
  pr_client_generated :: bool

definition null_string :: mqtt__string where
  "null_string = \<lparr>s_v = None, s_len = 0\<rparr>"

text \<open>\<open>memset(property, 0, sizeof(mosquitto_property))\<close> and \<open>calloc\<close>.\<close>

definition zero_property :: mosquitto_property where
  "zero_property = \<lparr>pr_i8 = 0, pr_i16 = 0, pr_i32 = 0, pr_varint = 0, pr_bin = null_string,
     pr_s = null_string, pr_name = null_string, pr_identifier = 0, pr_client_generated = False\<rparr>"

text \<open>The groups of \<open>case\<close> labels that every \<open>switch\<close> of the file distinguishes.\<close>

definition property_type :: "int \<Rightarrow> mqtt5_property_type option" where
  "property_type identifier =
     (if identifier \<in> {MQTT_PROP_PAYLOAD_FORMAT_INDICATOR, MQTT_PROP_REQUEST_PROBLEM_INFORMATION,
          MQTT_PROP_REQUEST_RESPONSE_INFORMATION, MQTT_PROP_MAXIMUM_QOS,
          MQTT_PROP_RETAIN_AVAILABLE, MQTT_PROP_WILDCARD_SUB_AVAILABLE,
          MQTT_PROP_SUBSCRIPTION_ID_AVAILABLE, MQTT_PROP_SHARED_SUB_AVAILABLE}
      then Some MQTT_PROP_TYPE_BYTE
      else if identifier \<in> {MQTT_PROP_SERVER_KEEP_ALIVE, MQTT_PROP_RECEIVE_MAXIMUM,
          MQTT_PROP_TOPIC_ALIAS_MAXIMUM, MQTT_PROP_TOPIC_ALIAS}
      then Some MQTT_PROP_TYPE_INT16
      else if identifier \<in> {MQTT_PROP_MESSAGE_EXPIRY_INTERVAL, MQTT_PROP_SESSION_EXPIRY_INTERVAL,
          MQTT_PROP_WILL_DELAY_INTERVAL, MQTT_PROP_MAXIMUM_PACKET_SIZE}
      then Some MQTT_PROP_TYPE_INT32
      else if identifier = MQTT_PROP_SUBSCRIPTION_IDENTIFIER then Some MQTT_PROP_TYPE_VARINT
      else if identifier \<in> {MQTT_PROP_CONTENT_TYPE, MQTT_PROP_RESPONSE_TOPIC,
          MQTT_PROP_ASSIGNED_CLIENT_IDENTIFIER, MQTT_PROP_AUTHENTICATION_METHOD,
          MQTT_PROP_RESPONSE_INFORMATION, MQTT_PROP_SERVER_REFERENCE, MQTT_PROP_REASON_STRING}
      then Some MQTT_PROP_TYPE_STRING
      else if identifier \<in> {MQTT_PROP_AUTHENTICATION_DATA, MQTT_PROP_CORRELATION_DATA}
      then Some MQTT_PROP_TYPE_BINARY
      else if identifier = MQTT_PROP_USER_PROPERTY then Some MQTT_PROP_TYPE_STRING_PAIR
      else None)"

section \<open>Reading\<close>

text \<open>
  \<open>property__read\<close>, with its \<open>switch\<close> on its own: the property and the new value of \<open>*len\<close>, the bytes that remain of the
  announced property length (32 bit, wrapping).
\<close>

definition property__read_value ::
  "uint32 \<Rightarrow> int \<Rightarrow> (pkt_heap, mosquitto_property \<times> uint32) cmd"
where
  "property__read_value len property_identifier =
     (let property = zero_property\<lparr>pr_identifier := property_identifier\<rparr> in
      case property_type property_identifier of
         Some MQTT_PROP_TYPE_BYTE \<Rightarrow>
           then_do (on_packet packet__read_byte) (\<lambda>b.
             ret (property\<lparr>pr_i8 := b\<rparr>, len - 1))
       | Some MQTT_PROP_TYPE_INT16 \<Rightarrow>
           then_do (on_packet packet__read_uint16) (\<lambda>w.
             ret (property\<lparr>pr_i16 := w\<rparr>, len - 2))
       | Some MQTT_PROP_TYPE_INT32 \<Rightarrow>
           then_do (on_packet packet__read_uint32) (\<lambda>w.
             ret (property\<lparr>pr_i32 := w\<rparr>, len - 4))
       | Some MQTT_PROP_TYPE_VARINT \<Rightarrow>
           then_do (on_packet packet__read_varint) (\<lambda>(w, byte_count).
             ret (property\<lparr>pr_varint := w\<rparr>, len - ucast byte_count))
       | Some MQTT_PROP_TYPE_STRING \<Rightarrow>
           then_do packet__read_string (\<lambda>(str1, slen1).
             ret (property\<lparr>pr_s := \<lparr>s_v = str1, s_len = slen1\<rparr>\<rparr>, len - 2 - ucast slen1))
       | Some MQTT_PROP_TYPE_BINARY \<Rightarrow>
           then_do packet__read_binary (\<lambda>(str1, slen1).
             ret (property\<lparr>pr_bin := \<lparr>s_v = str1, s_len = slen1\<rparr>\<rparr>, len - 2 - ucast slen1))
       | Some MQTT_PROP_TYPE_STRING_PAIR \<Rightarrow>
           then_do packet__read_string (\<lambda>(str1, slen1).
           then_do packet__read_string (\<lambda>(str2, slen2).
             ret (property\<lparr>pr_name := \<lparr>s_v = str1, s_len = slen1\<rparr>,
                           pr_s := \<lparr>s_v = str2, s_len = slen2\<rparr>\<rparr>,
                  len - 2 - ucast slen1 - 2 - ucast slen2)))
       | None \<Rightarrow> throw MOSQ_ERR_MALFORMED_PACKET)"

definition property__read :: "uint32 \<Rightarrow> (pkt_heap, mosquitto_property \<times> uint32) cmd" where
  "property__read len =
     then_do (on_packet packet__read_varint) (\<lambda>(property_identifier, _).
       property__read_value (len - 1) (uint property_identifier))"

section \<open>Checking\<close>

definition mosquitto_property_check_command :: "int \<Rightarrow> int \<Rightarrow> unit res" where
  "mosquitto_property_check_command command identifier =
     (if identifier \<in> {MQTT_PROP_PAYLOAD_FORMAT_INDICATOR, MQTT_PROP_MESSAGE_EXPIRY_INTERVAL,
          MQTT_PROP_CONTENT_TYPE, MQTT_PROP_RESPONSE_TOPIC, MQTT_PROP_CORRELATION_DATA}
      then (if command \<noteq> CMD_PUBLISH \<and> command \<noteq> CMD_WILL then Err MOSQ_ERR_PROTOCOL else Ok ())
      else if identifier = MQTT_PROP_SUBSCRIPTION_IDENTIFIER
      then (if command \<noteq> CMD_PUBLISH \<and> command \<noteq> CMD_SUBSCRIBE then Err MOSQ_ERR_PROTOCOL else Ok ())
      else if identifier = MQTT_PROP_SESSION_EXPIRY_INTERVAL
      then (if command \<noteq> CMD_CONNECT \<and> command \<noteq> CMD_CONNACK \<and> command \<noteq> CMD_DISCONNECT
            then Err MOSQ_ERR_PROTOCOL else Ok ())
      else if identifier \<in> {MQTT_PROP_AUTHENTICATION_METHOD, MQTT_PROP_AUTHENTICATION_DATA}
      then (if command \<noteq> CMD_CONNECT \<and> command \<noteq> CMD_CONNACK \<and> command \<noteq> CMD_AUTH
            then Err MOSQ_ERR_PROTOCOL else Ok ())
      else if identifier \<in> {MQTT_PROP_ASSIGNED_CLIENT_IDENTIFIER, MQTT_PROP_SERVER_KEEP_ALIVE,
          MQTT_PROP_RESPONSE_INFORMATION, MQTT_PROP_MAXIMUM_QOS, MQTT_PROP_RETAIN_AVAILABLE,
          MQTT_PROP_WILDCARD_SUB_AVAILABLE, MQTT_PROP_SUBSCRIPTION_ID_AVAILABLE,
          MQTT_PROP_SHARED_SUB_AVAILABLE}
      then (if command \<noteq> CMD_CONNACK then Err MOSQ_ERR_PROTOCOL else Ok ())
      else if identifier = MQTT_PROP_WILL_DELAY_INTERVAL
      then (if command \<noteq> CMD_WILL then Err MOSQ_ERR_PROTOCOL else Ok ())
      else if identifier \<in> {MQTT_PROP_REQUEST_PROBLEM_INFORMATION,
          MQTT_PROP_REQUEST_RESPONSE_INFORMATION}
      then (if command \<noteq> CMD_CONNECT then Err MOSQ_ERR_PROTOCOL else Ok ())
      else if identifier = MQTT_PROP_SERVER_REFERENCE
      then (if command \<noteq> CMD_CONNACK \<and> command \<noteq> CMD_DISCONNECT then Err MOSQ_ERR_PROTOCOL else Ok ())
      else if identifier = MQTT_PROP_REASON_STRING
      then (if command = CMD_CONNECT \<or> command = CMD_PUBLISH \<or> command = CMD_SUBSCRIBE
               \<or> command = CMD_UNSUBSCRIBE then Err MOSQ_ERR_PROTOCOL else Ok ())
      else if identifier \<in> {MQTT_PROP_RECEIVE_MAXIMUM, MQTT_PROP_TOPIC_ALIAS_MAXIMUM,
          MQTT_PROP_MAXIMUM_PACKET_SIZE}
      then (if command \<noteq> CMD_CONNECT \<and> command \<noteq> CMD_CONNACK then Err MOSQ_ERR_PROTOCOL else Ok ())
      else if identifier = MQTT_PROP_TOPIC_ALIAS
      then (if command \<noteq> CMD_PUBLISH then Err MOSQ_ERR_PROTOCOL else Ok ())
      else if identifier = MQTT_PROP_USER_PROPERTY then Ok ()
      else Err MOSQ_ERR_PROTOCOL)"

text \<open>The validity checks on one property's value.\<close>

definition property_value_bad :: "mosquitto_property \<Rightarrow> bool" where
  "property_value_bad p =
     (if property_type (pr_identifier p) = Some MQTT_PROP_TYPE_BYTE then pr_i8 p > 1
      else if pr_identifier p = MQTT_PROP_MAXIMUM_PACKET_SIZE then pr_i32 p = 0
      else if pr_identifier p = MQTT_PROP_RECEIVE_MAXIMUM
            \<or> pr_identifier p = MQTT_PROP_TOPIC_ALIAS then pr_i16 p = 0
      else False)"

fun mosquitto_property_check_all :: "int \<Rightarrow> mosquitto_property list \<Rightarrow> unit res" where
  "mosquitto_property_check_all command [] = Ok ()"
| "mosquitto_property_check_all command (p # ps) =
     (if property_value_bad p then Err MOSQ_ERR_PROTOCOL
      else case mosquitto_property_check_command command (pr_identifier p) of
          Err e \<Rightarrow> Err e
        | Fault \<Rightarrow> Fault
        | Ok _ \<Rightarrow>
            (if pr_identifier p \<noteq> MQTT_PROP_USER_PROPERTY
                \<and> list_ex (\<lambda>tail. pr_identifier p = pr_identifier tail) ps
             then Err MOSQ_ERR_DUPLICATE_PROPERTY
             else mosquitto_property_check_all command ps))"

text \<open>
  The loop of \<open>property__read_all\<close>. Every round takes at least one byte off the packet, so
  the unread bytes bound the rounds; \<open>fuel\<close> is that bound, and running out of it is a
  \<open>Fault\<close>, which the safety theorem excludes.
\<close>

fun property__read_loop ::
  "nat \<Rightarrow> uint32 \<Rightarrow> mosquitto_property list \<Rightarrow> (pkt_heap, mosquitto_property list) cmd"
where
  "property__read_loop 0 proplen properties = (if proplen > 0 then fault else ret properties)"
| "property__read_loop (Suc fuel) proplen properties =
     (if proplen > 0 then (\<lambda>(packet, h).
        case alloc h of
          (False, h') \<Rightarrow> (Err MOSQ_ERR_NOMEM, (packet, h'))
        | (True, h') \<Rightarrow>
            then_do (property__read proplen) (\<lambda>(p, proplen').
              property__read_loop fuel proplen' (properties @ [p])) (packet, h'))
      else ret properties)"

definition lift_res :: "'a res \<Rightarrow> ('s, 'a) cmd" where
  "lift_res r s = (r, s)"

definition property__read_all :: "int \<Rightarrow> (pkt_heap, mosquitto_property list) cmd" where
  "property__read_all command =
     then_do (on_packet packet__read_varint) (\<lambda>(proplen, _) (packet, h).
       then_do (property__read_loop (length (p_payload packet)) proplen []) (\<lambda>properties.
       then_do (lift_res (mosquitto_property_check_all command properties)) (\<lambda>_.
         ret properties)) (packet, h))"

section \<open>Writing\<close>

definition property__get_length :: "mosquitto_property \<Rightarrow> uint32" where
  "property__get_length property =
     (case property_type (pr_identifier property) of
        Some MQTT_PROP_TYPE_BYTE \<Rightarrow> 2
      | Some MQTT_PROP_TYPE_INT16 \<Rightarrow> 3
      | Some MQTT_PROP_TYPE_INT32 \<Rightarrow> 5
      | Some MQTT_PROP_TYPE_VARINT \<Rightarrow>
          (if pr_varint property < 128 then 2
           else if pr_varint property < 16384 then 3
           else if pr_varint property < 2097152 then 4
           else if pr_varint property < 268435456 then 5
           else 0)
      | Some MQTT_PROP_TYPE_BINARY \<Rightarrow> 3 + ucast (s_len (pr_bin property))
      | Some MQTT_PROP_TYPE_STRING \<Rightarrow> 3 + ucast (s_len (pr_s property))
      | Some MQTT_PROP_TYPE_STRING_PAIR \<Rightarrow>
          5 + ucast (s_len (pr_s property)) + ucast (s_len (pr_name property))
      | None \<Rightarrow> 0)"

fun property__get_length_from :: "uint32 \<Rightarrow> mosquitto_property list \<Rightarrow> uint32" where
  "property__get_length_from len [] = len"
| "property__get_length_from len (p # ps) =
     property__get_length_from (len + property__get_length p) ps"

definition property__get_length_all :: "mosquitto_property list \<Rightarrow> uint32" where
  "property__get_length_all properties = property__get_length_from 0 properties"

definition property__get_remaining_length :: "mosquitto_property list \<Rightarrow> uint32" where
  "property__get_remaining_length props =
     (let proplen = property__get_length_all props;
          varbytes = word_of_nat (packet__varint_bytes proplen)
      in proplen + varbytes)"

definition property__write :: "mosquitto_property \<Rightarrow> (mosquitto__packet, unit) cmd" where
  "property__write property =
     then_do (packet__write_varint (word_of_int (pr_identifier property))) (\<lambda>_.
       case property_type (pr_identifier property) of
         Some MQTT_PROP_TYPE_BYTE \<Rightarrow> packet__write_byte (pr_i8 property)
       | Some MQTT_PROP_TYPE_INT16 \<Rightarrow> packet__write_uint16 (pr_i16 property)
       | Some MQTT_PROP_TYPE_INT32 \<Rightarrow> packet__write_uint32 (pr_i32 property)
       | Some MQTT_PROP_TYPE_VARINT \<Rightarrow> packet__write_varint (pr_varint property)
       | Some MQTT_PROP_TYPE_STRING \<Rightarrow>
           packet__write_string (s_v (pr_s property)) (s_len (pr_s property))
       | Some MQTT_PROP_TYPE_BINARY \<Rightarrow>
           then_do (packet__write_uint16 (s_len (pr_bin property))) (\<lambda>_.
             packet__write_bytes (case s_v (pr_bin property) of None \<Rightarrow> [] | Some v \<Rightarrow> v)
               (ucast (s_len (pr_bin property))))
       | Some MQTT_PROP_TYPE_STRING_PAIR \<Rightarrow>
           then_do (packet__write_string (s_v (pr_name property)) (s_len (pr_name property))) (\<lambda>_.
             packet__write_string (s_v (pr_s property)) (s_len (pr_s property)))
       | None \<Rightarrow> throw MOSQ_ERR_INVAL)"

fun property__write_list :: "mosquitto_property list \<Rightarrow> (mosquitto__packet, unit) cmd" where
  "property__write_list [] = ret ()"
| "property__write_list (p # ps) = then_do (property__write p) (\<lambda>_. property__write_list ps)"

definition property__write_all ::
  "mosquitto_property list \<Rightarrow> bool \<Rightarrow> (mosquitto__packet, unit) cmd"
where
  "property__write_all properties write_len =
     then_do (if write_len then packet__write_varint (property__get_length_all properties) else ret ())
       (\<lambda>_. property__write_list properties)"

section \<open>Names\<close>

definition mosquitto_property_identifier_to_string :: "int \<Rightarrow> string option" where
  "mosquitto_property_identifier_to_string identifier =
   (
    if identifier = MQTT_PROP_PAYLOAD_FORMAT_INDICATOR then Some ''payload-format-indicator''
    else if identifier = MQTT_PROP_MESSAGE_EXPIRY_INTERVAL then Some ''message-expiry-interval''
    else if identifier = MQTT_PROP_CONTENT_TYPE then Some ''content-type''
    else if identifier = MQTT_PROP_RESPONSE_TOPIC then Some ''response-topic''
    else if identifier = MQTT_PROP_CORRELATION_DATA then Some ''correlation-data''
    else if identifier = MQTT_PROP_SUBSCRIPTION_IDENTIFIER then Some ''subscription-identifier''
    else if identifier = MQTT_PROP_SESSION_EXPIRY_INTERVAL then Some ''session-expiry-interval''
    else if identifier = MQTT_PROP_ASSIGNED_CLIENT_IDENTIFIER then Some ''assigned-client-identifier''
    else if identifier = MQTT_PROP_SERVER_KEEP_ALIVE then Some ''server-keep-alive''
    else if identifier = MQTT_PROP_AUTHENTICATION_METHOD then Some ''authentication-method''
    else if identifier = MQTT_PROP_AUTHENTICATION_DATA then Some ''authentication-data''
    else if identifier = MQTT_PROP_REQUEST_PROBLEM_INFORMATION then Some ''request-problem-information''
    else if identifier = MQTT_PROP_WILL_DELAY_INTERVAL then Some ''will-delay-interval''
    else if identifier = MQTT_PROP_REQUEST_RESPONSE_INFORMATION then Some ''request-response-information''
    else if identifier = MQTT_PROP_RESPONSE_INFORMATION then Some ''response-information''
    else if identifier = MQTT_PROP_SERVER_REFERENCE then Some ''server-reference''
    else if identifier = MQTT_PROP_REASON_STRING then Some ''reason-string''
    else if identifier = MQTT_PROP_RECEIVE_MAXIMUM then Some ''receive-maximum''
    else if identifier = MQTT_PROP_TOPIC_ALIAS_MAXIMUM then Some ''topic-alias-maximum''
    else if identifier = MQTT_PROP_TOPIC_ALIAS then Some ''topic-alias''
    else if identifier = MQTT_PROP_MAXIMUM_QOS then Some ''maximum-qos''
    else if identifier = MQTT_PROP_RETAIN_AVAILABLE then Some ''retain-available''
    else if identifier = MQTT_PROP_USER_PROPERTY then Some ''user-property''
    else if identifier = MQTT_PROP_MAXIMUM_PACKET_SIZE then Some ''maximum-packet-size''
    else if identifier = MQTT_PROP_WILDCARD_SUB_AVAILABLE then Some ''wildcard-subscription-available''
    else if identifier = MQTT_PROP_SUBSCRIPTION_ID_AVAILABLE then Some ''subscription-identifier-available''
    else if identifier = MQTT_PROP_SHARED_SUB_AVAILABLE then Some ''shared-subscription-available''
    else None)"

text \<open>\<open>strcasecmp\<close> in the C locale.\<close>

definition tolower :: "char \<Rightarrow> char" where
  "tolower c = (if 65 \<le> (of_char c :: nat) \<and> (of_char c :: nat) \<le> 90
     then char_of ((of_char c :: nat) + 32) else c)"

definition strcasecmp_eq :: "string \<Rightarrow> string \<Rightarrow> bool" where
  "strcasecmp_eq a b = (map tolower a = map tolower b)"

text \<open>The comparisons of \<open>mosquitto_string_to_property_info\<close>, in their order.\<close>

definition property_info_table :: "(string \<times> int \<times> mqtt5_property_type) list" where
  "property_info_table = [
    (''payload-format-indicator'', MQTT_PROP_PAYLOAD_FORMAT_INDICATOR, MQTT_PROP_TYPE_BYTE),
    (''message-expiry-interval'', MQTT_PROP_MESSAGE_EXPIRY_INTERVAL, MQTT_PROP_TYPE_INT32),
    (''content-type'', MQTT_PROP_CONTENT_TYPE, MQTT_PROP_TYPE_STRING),
    (''response-topic'', MQTT_PROP_RESPONSE_TOPIC, MQTT_PROP_TYPE_STRING),
    (''correlation-data'', MQTT_PROP_CORRELATION_DATA, MQTT_PROP_TYPE_BINARY),
    (''subscription-identifier'', MQTT_PROP_SUBSCRIPTION_IDENTIFIER, MQTT_PROP_TYPE_VARINT),
    (''session-expiry-interval'', MQTT_PROP_SESSION_EXPIRY_INTERVAL, MQTT_PROP_TYPE_INT32),
    (''assigned-client-identifier'', MQTT_PROP_ASSIGNED_CLIENT_IDENTIFIER, MQTT_PROP_TYPE_STRING),
    (''server-keep-alive'', MQTT_PROP_SERVER_KEEP_ALIVE, MQTT_PROP_TYPE_INT16),
    (''authentication-method'', MQTT_PROP_AUTHENTICATION_METHOD, MQTT_PROP_TYPE_STRING),
    (''authentication-data'', MQTT_PROP_AUTHENTICATION_DATA, MQTT_PROP_TYPE_BINARY),
    (''request-problem-information'', MQTT_PROP_REQUEST_PROBLEM_INFORMATION, MQTT_PROP_TYPE_BYTE),
    (''will-delay-interval'', MQTT_PROP_WILL_DELAY_INTERVAL, MQTT_PROP_TYPE_INT32),
    (''request-response-information'', MQTT_PROP_REQUEST_RESPONSE_INFORMATION, MQTT_PROP_TYPE_BYTE),
    (''response-information'', MQTT_PROP_RESPONSE_INFORMATION, MQTT_PROP_TYPE_STRING),
    (''server-reference'', MQTT_PROP_SERVER_REFERENCE, MQTT_PROP_TYPE_STRING),
    (''reason-string'', MQTT_PROP_REASON_STRING, MQTT_PROP_TYPE_STRING),
    (''receive-maximum'', MQTT_PROP_RECEIVE_MAXIMUM, MQTT_PROP_TYPE_INT16),
    (''topic-alias-maximum'', MQTT_PROP_TOPIC_ALIAS_MAXIMUM, MQTT_PROP_TYPE_INT16),
    (''topic-alias'', MQTT_PROP_TOPIC_ALIAS, MQTT_PROP_TYPE_INT16),
    (''maximum-qos'', MQTT_PROP_MAXIMUM_QOS, MQTT_PROP_TYPE_BYTE),
    (''retain-available'', MQTT_PROP_RETAIN_AVAILABLE, MQTT_PROP_TYPE_BYTE),
    (''user-property'', MQTT_PROP_USER_PROPERTY, MQTT_PROP_TYPE_STRING_PAIR),
    (''maximum-packet-size'', MQTT_PROP_MAXIMUM_PACKET_SIZE, MQTT_PROP_TYPE_INT32),
    (''wildcard-subscription-available'', MQTT_PROP_WILDCARD_SUB_AVAILABLE, MQTT_PROP_TYPE_BYTE),
    (''subscription-identifier-available'', MQTT_PROP_SUBSCRIPTION_ID_AVAILABLE, MQTT_PROP_TYPE_BYTE),
    (''shared-subscription-available'', MQTT_PROP_SHARED_SUB_AVAILABLE, MQTT_PROP_TYPE_BYTE)]"

definition mosquitto_string_to_property_info ::
  "string option \<Rightarrow> (int \<times> mqtt5_property_type) res"
where
  "mosquitto_string_to_property_info propname =
     (case propname of
        None \<Rightarrow> Err MOSQ_ERR_INVAL
      | Some s \<Rightarrow>
          (case List.find (\<lambda>(n, _). strcasecmp_eq s n) property_info_table of
             None \<Rightarrow> Err MOSQ_ERR_INVAL
           | Some (_, info) \<Rightarrow> Ok info))"

end
