(* ===== verification/Property_Wire.thy ===== *)
theory Property_Wire
  imports Property
begin

text \<open>
  What property__read_all and property__write_all do to the bytes of a packet: reading stays
  inside the packet and ends, what is read is the encoding of the list returned, what is written
  is the encoding of the list given, and the length functions count exactly those bytes.
\<close>

section \<open>The encoding of a property list\<close>

definition s_bytes :: "mqtt__string \<Rightarrow> byte list" where
  "s_bytes s = take (unat (s_len s)) (case s_v s of None \<Rightarrow> [] | Some v \<Rightarrow> v)"

definition value_enc :: "mosquitto_property \<Rightarrow> byte list" where
  "value_enc p = (case property_type (pr_identifier p) of
      Some MQTT_PROP_TYPE_BYTE \<Rightarrow> [pr_i8 p]
    | Some MQTT_PROP_TYPE_INT16 \<Rightarrow> enc16 (pr_i16 p)
    | Some MQTT_PROP_TYPE_INT32 \<Rightarrow> enc32 (pr_i32 p)
    | Some MQTT_PROP_TYPE_VARINT \<Rightarrow> varint_enc (unat (pr_varint p))
    | Some MQTT_PROP_TYPE_STRING \<Rightarrow> enc_field (s_bytes (pr_s p))
    | Some MQTT_PROP_TYPE_BINARY \<Rightarrow> enc_field (s_bytes (pr_bin p))
    | Some MQTT_PROP_TYPE_STRING_PAIR \<Rightarrow> enc_field (s_bytes (pr_name p)) @ enc_field (s_bytes (pr_s p))
    | None \<Rightarrow> [])"

definition prop_enc :: "mosquitto_property \<Rightarrow> byte list" where
  "prop_enc p = varint_enc (nat (pr_identifier p)) @ value_enc p"

definition props_enc :: "mosquitto_property list \<Rightarrow> byte list" where
  "props_enc ps = concat (map prop_enc ps)"

lemma props_enc_simps [simp]:
  "props_enc [] = []" "props_enc (p # ps) = prop_enc p @ props_enc ps"
  "props_enc (ps @ qs) = props_enc ps @ props_enc qs"
  by (simp_all add: props_enc_def)

text \<open>Stored strings hold the bytes their length announces; a property has a known identifier.\<close>

definition string_ok :: "mqtt__string \<Rightarrow> bool" where
  "string_ok s = (length (s_bytes s) = unat (s_len s))"

definition prop_ok :: "mosquitto_property \<Rightarrow> bool" where
  "prop_ok p = (property_type (pr_identifier p) \<noteq> None \<and> unat (pr_varint p) < 2 ^ 28
     \<and> string_ok (pr_s p) \<and> string_ok (pr_bin p) \<and> string_ok (pr_name p))"

lemma string_ok_null [simp]: "string_ok null_string"
  by (simp add: string_ok_def s_bytes_def null_string_def)

lemma property_type_cases:
  assumes "property_type i \<noteq> None"
  shows "0 < i" "i < 128"
  using assms by (auto simp: property_type_def split: if_splits)

lemma prop_identifier_enc: "property_type i \<noteq> None \<Longrightarrow> varint_enc (nat i) = [word_of_nat (nat i)]"
  using property_type_cases [of i] by (subst varint_enc.simps) (simp add: nat_less_iff)

section \<open>Readers that consume\<close>

definition consuming :: "(pkt_heap, 'a) cmd \<Rightarrow> bool" where
  "consuming c = (\<forall>p h. readable p \<longrightarrow>
     (\<exists>r k h'. c (p, h) = (r, (adv k p, h')) \<and> r \<noteq> Fault \<and> k \<le> length (rest p)
        \<and> (\<forall>a. r = Ok a \<longrightarrow> 0 < k)))"

lemma varint_enc_pos [simp]: "varint_enc n \<noteq> []" "0 < length (varint_enc n)"
  by (subst varint_enc.simps, simp)+

lemma consuming_safe: "consuming c \<Longrightarrow> safe_reader c"
  unfolding consuming_def safe_reader_def by blast

lemma consuming_varint: "consuming (on_packet packet__read_varint)"
  unfolding consuming_def
proof (intro allI impI)
  fix p :: mosquitto__packet and h :: heap
  assume p: "readable p"
  show "\<exists>r k h'. on_packet packet__read_varint (p, h) = (r, adv k p, h') \<and> r \<noteq> Fault \<and>
      k \<le> length (rest p) \<and> (\<forall>a. r = Ok a \<longrightarrow> 0 < k)"
  proof (cases "varint_dec 4 True (rest p)")
    case None
    then show ?thesis using packet__read_varint_None [OF p] by (fastforce simp: on_packet_run)
  next
    case (Some a)
    then obtain v k where vk: "varint_dec 4 True (rest p) = Some (v, k)" by (cases a) simp
    note d = varint_dec_SomeD [OF vk]
    then have "length (rest p) = k + length (drop k (rest p))"
      by (metis length_append)
    then have "k \<le> length (rest p)" by linarith
    then show ?thesis using packet__read_varint_Some [OF p vk] d
      by (intro exI [of _ "Ok (word_of_nat v, word_of_nat k)"] exI [of _ k] exI [of _ h])
        (simp add: on_packet_run)
  qed
qed

lemma consuming_then_do:
  assumes "consuming c" "\<And>a. safe_reader (f a)"
  shows "consuming (then_do c f)"
  unfolding consuming_def
proof (intro allI impI)
  fix p :: mosquitto__packet and h :: heap
  assume p: "readable p"
  obtain r k h' where c: "c (p, h) = (r, (adv k p, h'))" "r \<noteq> Fault" "k \<le> length (rest p)"
    "\<And>a. r = Ok a \<Longrightarrow> 0 < k"
    using assms(1) p unfolding consuming_def by blast
  show "\<exists>r k h'. then_do c f (p, h) = (r, (adv k p, h')) \<and> r \<noteq> Fault \<and> k \<le> length (rest p)
      \<and> (\<forall>a. r = Ok a \<longrightarrow> 0 < k)"
  proof (cases r)
    case (Ok a)
    have "readable (adv k p)" using p c(3) by simp
    with assms(2) [of a] obtain r' k' h'' where
      "f a (adv k p, h') = (r', (adv k' (adv k p), h''))" "r' \<noteq> Fault" "k' \<le> length (rest (adv k p))"
      by (rule safe_readerE)
    then show ?thesis using c p Ok
      by (intro exI [of _ r'] exI [of _ "k + k'"] exI [of _ h'']) (simp add: then_do_def)
  next
    case (Err e)
    then show ?thesis using c by (intro exI [of _ "Err e"] exI [of _ k]) (simp add: then_do_def)
  qed (use c in simp)
qed

lemma property__read_consuming: "consuming (property__read len)"
  unfolding property__read_def
  by (rule consuming_then_do [OF consuming_varint])
    (auto simp: property__read_value_def Let_def intro!: safe_intros
      split: prod.splits option.splits mqtt5_property_type.splits)

section \<open>Reading a list is safe and ends\<close>

lemma property__read_loop_safe:
  assumes "readable p" "length (rest p) < fuel"
  shows "\<exists>r k h'. property__read_loop fuel proplen ps (p, h) = (r, (adv k p, h'))
    \<and> r \<noteq> Fault \<and> k \<le> length (rest p)"
  using assms
proof (induction fuel arbitrary: proplen ps p h)
  case 0
  then show ?case by simp
next
  case (Suc fuel)
  show ?case
  proof (cases "proplen > 0")
    case False
    then show ?thesis by (intro safe_witness [of 0]) (simp_all add: ret_def)
  next
    case True
    obtain ok h0 where h: "alloc h = (ok, h0)" by fastforce
    obtain r k h' where c: "property__read proplen (p, h0) = (r, (adv k p, h'))" "r \<noteq> Fault"
      "k \<le> length (rest p)" "\<And>a. r = Ok a \<Longrightarrow> 0 < k"
      using property__read_consuming [of proplen] Suc.prems(1) unfolding consuming_def by blast
    consider "\<not> ok" | e where "ok" "r = Err e" | pr len' where "ok" "r = Ok (pr, len')"
      using c(2) by (cases r) auto
    then show ?thesis
    proof cases
      case 1
      then show ?thesis using True h by (intro safe_witness [of 0]) simp_all
    next
      case 2
      then show ?thesis using True h c by (intro safe_witness [of k]) (simp_all add: then_do_def)
    next
      case 3
      have k: "0 < k" using c(4) 3 by blast
      have "readable (adv k p)" "length (rest (adv k p)) < fuel"
        using Suc.prems c(3) k by simp_all
      then obtain r' k' h'' where
        "property__read_loop fuel len' (ps @ [pr]) (adv k p, h') = (r', (adv k' (adv k p), h''))"
        "r' \<noteq> Fault" "k' \<le> length (rest (adv k p))"
        using Suc.IH by blast
      then show ?thesis using True h c 3 Suc.prems(1)
        by (intro safe_witness [of "k + k'"]) (simp_all add: then_do_def)
    qed
  qed
qed

lemma length_rest_le: "length (rest p) \<le> length (p_payload p)"
  by (simp add: rest_def)

lemma safe_lift_res: "r \<noteq> Fault \<Longrightarrow> safe_reader (lift_res r)"
  by (rule safe_readerI, rule safe_witness [of 0]) (simp_all add: lift_res_def)

lemma check_command_no_fault [simp]: "mosquitto_property_check_command c i \<noteq> Fault"
  by (simp add: mosquitto_property_check_command_def)

lemma check_all_no_fault [simp]: "mosquitto_property_check_all c ps \<noteq> Fault"
  by (induction ps) (auto split: res.splits)

text \<open>Reading a property list never leaves the packet, whatever the bytes and the allocations.\<close>

lemma safe_property__read_all [safe_intros]: "safe_reader (property__read_all command)"
proof (rule safe_readerI)
  fix p :: mosquitto__packet and h :: heap
  assume p: "readable p"
  obtain r k h' where c: "on_packet packet__read_varint (p, h) = (r, (adv k p, h'))" "r \<noteq> Fault"
    "k \<le> length (rest p)" "\<And>a. r = Ok a \<Longrightarrow> 0 < k"
    using consuming_varint p unfolding consuming_def by blast
  show "\<exists>r k h'. property__read_all command (p, h) = (r, (adv k p, h')) \<and> r \<noteq> Fault \<and> k \<le> length (rest p)"
  proof (cases r)
    case (Err e)
    then show ?thesis using c
      by (intro safe_witness [of k]) (simp_all add: property__read_all_def then_do_def)
  next
    case (Ok a)
    obtain proplen n where a: "a = (proplen, n)" by fastforce
    have "length (rest (adv k p)) < length (p_payload p)"
      using length_rest_le [of p] c(3,4) Ok p by auto
    then obtain r' k' h'' where l: "property__read_loop (length (p_payload p)) proplen [] (adv k p, h')
        = (r', (adv k' (adv k p), h''))" "r' \<noteq> Fault" "k' \<le> length (rest (adv k p))"
      using property__read_loop_safe [OF readable_adv [OF p c(3)]] by blast
    have run: "property__read_all command (p, h) =
        then_do (property__read_loop (length (p_payload p)) proplen []) (\<lambda>ps.
          then_do (lift_res (mosquitto_property_check_all command ps)) (\<lambda>_. ret ps)) (adv k p, h')"
      using c(1) unfolding Ok a by (simp add: property__read_all_def then_do_def)
    have "\<exists>r m h2. then_do (property__read_loop (length (p_payload p)) proplen []) (\<lambda>ps.
          then_do (lift_res (mosquitto_property_check_all command ps)) (\<lambda>_. ret ps)) (adv k p, h')
        = (r, (adv m (adv k p), h2)) \<and> r \<noteq> Fault \<and> m \<le> length (rest (adv k p))"
      by (rule safe_step [where c = "property__read_loop (length (p_payload p)) proplen []", OF _ l]) (use p c(3) in \<open>auto intro!: safe_intros safe_lift_res\<close>)
    then obtain r2 m h3 where "property__read_all command (p, h) = (r2, (adv m (adv k p), h3))"
      "r2 \<noteq> Fault" "m \<le> length (rest (adv k p))"
      unfolding run by blast
    then show ?thesis using p c(3) by (intro safe_witness [of "k + m"]) simp_all
  qed (use c in simp)
qed

section \<open>What is read is the encoding of the result\<close>

text \<open>A parser whose result determines the bytes it took: \<open>enc a\<close>, off the front.\<close>

definition parses :: "(pkt_heap, 'a) cmd \<Rightarrow> ('a \<Rightarrow> byte list) \<Rightarrow> bool" where
  "parses c enc = (\<forall>p h a p' h'. readable p \<longrightarrow> c (p, h) = (Ok a, (p', h')) \<longrightarrow>
     rest p = enc a @ rest p' \<and> p' = adv (length (enc a)) p)"

lemma parsesD:
  assumes "parses c enc" "readable p" "c (p, h) = (Ok a, (p', h'))"
  shows "rest p = enc a @ rest p'" "p' = adv (length (enc a)) p"
    "length (enc a) \<le> length (rest p)" "readable p'"
proof -
  show r: "rest p = enc a @ rest p'" and a: "p' = adv (length (enc a)) p"
    using assms unfolding parses_def by blast+
  then show l: "length (enc a) \<le> length (rest p)" by simp
  then show "readable p'" using a assms(2) by simp
qed

lemma parsesI:
  assumes "\<And>p h a p' h'. readable p \<Longrightarrow> c (p, h) = (Ok a, (p', h')) \<Longrightarrow>
    rest p = enc a @ rest p' \<and> p' = adv (length (enc a)) p"
  shows "parses c enc"
  using assms unfolding parses_def by blast

lemma parses_byte: "parses (on_packet packet__read_byte) (\<lambda>b. [b])"
  by (rule parsesI) (auto simp: on_packet_run packet__read_byte_rest split: list.splits)

lemma enc16_of_pair: "enc16 (word_of_nat (256 * unat a + unat b)) = [a, b]"
proof -
  have "(256 * unat a + unat b) div 256 = unat a" "(256 * unat a + unat b) mod 256 = unat b"
    by simp_all
  then show ?thesis
    unfolding enc16_nat unat_word16_of_pair by simp
qed

lemma parses_uint16: "parses (on_packet packet__read_uint16) enc16"
proof (rule parsesI)
  fix p :: mosquitto__packet and h h' :: heap and a p'
  assume p: "readable p" "on_packet packet__read_uint16 (p, h) = (Ok a, (p', h'))"
  then obtain x y xs where r: "rest p = x # y # xs" "a = word_of_nat (256 * unat x + unat y)" "p' = adv 2 p"
    by (auto simp: on_packet_run packet__read_uint16_rest split: list.splits simp del: of_nat_add of_nat_mult)
  have e: "enc16 a = [x, y]" unfolding r(2) by (rule enc16_of_pair)
  show "rest p = enc16 a @ rest p' \<and> p' = adv (length (enc16 a)) p"
    using r(1,3) p(1) unfolding e by (simp add: numeral_2_eq_2)
qed

lemma enc32_be_nat:
  assumes "length bs = 4"
  shows "enc32 (word_of_nat (be_nat 0 bs)) = bs"
proof -
  obtain a b c d where bs: "bs = [a, b, c, d]"
    using assms by (auto simp: numeral_4_eq_4 length_Suc_conv)
  define n where "n = 256 * (256 * (256 * unat a + unat b) + unat c) + unat d"
  have s: "v < m \<Longrightarrow> 256 * v + unat x < 256 * m" for v m and x :: byte
    using unat_byte_less [of x] by linarith
  have "n < 256 * (256 * (256 * 256))"
    unfolding n_def by (intro s unat_byte_less)
  then have u: "unat (word_of_nat n :: uint32) = n" by (intro unat_of_nat_less) simp
  have qr: "(256 * v + unat x) div 256 = v" "(256 * v + unat x) mod 256 = unat x" for v and x :: byte
    by simp_all
  have d1: "n div 256 = 256 * (256 * unat a + unat b) + unat c" "n mod 256 = unat d"
    unfolding n_def by (rule qr)+
  have z: "ucast (w AND push_bit 0 (mask 8)) = (ucast (drop_bit 0 w) :: byte)" for w :: uint32
    using byte_field [of 0 w] by simp
  have f: "(ucast (drop_bit k (word_of_nat n :: uint32)) :: byte) = word_of_nat (n div 2 ^ k mod 256)" for k
    by (simp add: word_unat_eq_iff unat_byte_field u unat_of_nat_less del: of_nat_mod)
  have "enc32 (word_of_nat n) = [word_of_nat (n div 256 div 256 div 256 mod 256),
      word_of_nat (n div 256 div 256 mod 256), word_of_nat (n div 256 mod 256), word_of_nat (n mod 256)]"
    unfolding enc32_def z field_masks byte_field f by (simp add: div_mult2_eq [symmetric] del: of_nat_mod)
  also have "\<dots> = bs" unfolding d1 qr bs by simp
  finally show ?thesis by (simp add: bs n_def)
qed

lemma parses_uint32: "parses (on_packet packet__read_uint32) enc32"
proof (rule parsesI)
  fix p :: mosquitto__packet and h h' :: heap and a p'
  assume p: "readable p" "on_packet packet__read_uint32 (p, h) = (Ok a, (p', h'))"
  then have r: "4 \<le> length (rest p)" "a = word_of_nat (be_nat 0 (take 4 (rest p)))" "p' = adv 4 p"
    by (auto simp: on_packet_run packet__read_uint32_rest split: if_splits)
  have "enc32 a = take 4 (rest p)" unfolding r(2) using r(1) by (intro enc32_be_nat) simp
  then show "rest p = enc32 a @ rest p' \<and> p' = adv (length (enc32 a)) p"
    using r(1,3) p(1) by simp
qed

lemma parses_varint:
  "parses (on_packet packet__read_varint) (\<lambda>(w, n). varint_enc (unat w))"
  "\<lbrakk>readable p; on_packet packet__read_varint (p, h) = (Ok (w, n), s)\<rbrakk> \<Longrightarrow>
   unat w < 2 ^ 28 \<and> n = word_of_nat (length (varint_enc (unat w)))"
proof -
  have g: "unat w < 2 ^ 28 \<and> n = word_of_nat (length (varint_enc (unat w)))
      \<and> rest p = varint_enc (unat w) @ rest p' \<and> p' = adv (length (varint_enc (unat w))) p"
    if a: "readable p" "on_packet packet__read_varint (p, h) = (Ok (w, n), (p', h'))" for p h w n p' h'
  proof (cases "varint_dec 4 True (rest p)")
    case None
    then show ?thesis using packet__read_varint_None [OF a(1) None] a(2) by (auto simp: on_packet_run)
  next
    case (Some vk)
    obtain v k where vk: "varint_dec 4 True (rest p) = Some (v, k)" using Some by (cases vk) simp
    note d = varint_dec_SomeD [OF vk]
    have w: "w = word_of_nat v" "n = word_of_nat k" "p' = adv k p"
      using packet__read_varint_Some [OF a(1) vk] a(2) by (auto simp: on_packet_run)
    have uw: "unat w = v" using d unfolding w by (intro unat_of_nat_less) simp
    have k: "k = length (varint_enc v)" using d by blast
    have "k \<le> length (rest p)"
      using d by (metis le_add1 length_append)
    then have "rest p = varint_enc v @ rest p'"
      using d w(3) a(1) by (metis rest_adv)
    then show ?thesis using d w(2,3) unfolding uw k [symmetric] by simp
  qed
  show "parses (on_packet packet__read_varint) (\<lambda>(w, n). varint_enc (unat w))"
    by (rule parsesI) (use g in force)
  show "\<lbrakk>readable p; on_packet packet__read_varint (p, h) = (Ok (w, n), s)\<rbrakk> \<Longrightarrow>
   unat w < 2 ^ 28 \<and> n = word_of_nat (length (varint_enc (unat w)))"
    using g by (cases s) blast
qed

lemma take_field_SomeD:
  assumes "take_field xs = Some bs"
  shows "xs = enc_field bs @ drop (2 + length bs) xs"
proof -
  obtain a b ys where x: "xs = a # b # ys" "256 * unat a + unat b \<le> length ys"
    "bs = take (256 * unat a + unat b) ys"
    using assms by (auto simp: take_field_def split: list.splits if_splits)
  have l: "length bs = 256 * unat a + unat b" using x(2,3) by simp
  have "enc_field bs = a # b # bs"
    unfolding enc_field_def l enc16_of_pair by simp
  moreover have "ys = bs @ drop (length bs) ys" using x(2,3) l by simp
  ultimately show ?thesis using x(1) by simp
qed

text \<open>A field as the code stores it, and its bytes.\<close>

definition field_enc :: "byte list option \<times> uint16 \<Rightarrow> byte list" where
  "field_enc f = enc_field (s_bytes \<lparr>s_v = fst f, s_len = snd f\<rparr>)"

lemma s_bytes_field:
  "length bs < 65536 \<Longrightarrow> s_bytes \<lparr>s_v = Some bs, s_len = word_of_nat (length bs)\<rparr> = bs"
  "s_bytes \<lparr>s_v = None, s_len = n\<rparr> = []"
  by (simp_all add: s_bytes_def unat_of_nat_less)

lemma binary_Ok:
  assumes p: "readable p" and c: "packet__read_binary (p, h) = (Ok (str, n), (p', h'))"
  shows "rest p = field_enc (str, n) @ rest p' \<and> p' = adv (length (field_enc (str, n))) p
    \<and> string_ok \<lparr>s_v = str, s_len = n\<rparr>"
proof (cases "take_field (rest p)")
  case None
  then show ?thesis using packet__read_binary_None [OF p, of h] c by auto
next
  case (Some bs)
  note l = take_field_less [OF Some] take_field_length [OF Some]
  obtain ok h0 where h: "alloc h = (ok, h0)" by fastforce
  have "ok \<or> bs = []"
    using packet__read_binary_Some [OF p Some, of h] h c by (cases ok) (simp_all split: if_splits)
  then have r: "p' = adv (2 + length bs) p" "str = opt_bytes bs" "n = word_of_nat (length bs)"
    using packet__read_binary_Some [OF p Some, of h] h c
    by (cases "bs = []"; simp add: opt_bytes_def)+
  have sb: "s_bytes \<lparr>s_v = str, s_len = n\<rparr> = bs"
    using l(1) unfolding r(2,3) by (cases "bs = []") (simp_all add: opt_bytes_def s_bytes_field)
  have "rest p' = drop (2 + length bs) (rest p)" using p l(2) unfolding r(1) by (intro rest_adv)
  then show ?thesis
    using take_field_SomeD [OF Some] l(1) r(1)
    unfolding field_enc_def fst_conv snd_conv string_ok_def sb by (simp add: r(3) unat_of_nat_less)
qed

lemma string_Ok_binary:
  "packet__read_string s = (Ok f, t) \<Longrightarrow> packet__read_binary s = (Ok f, t)"
  unfolding packet__read_string_def
  by (elim then_do_OkE) (auto simp: ret_def throw_def fault_def split: prod.splits if_splits res.splits)

lemma parses_binary: "parses packet__read_binary field_enc"
proof (rule parsesI)
  fix p :: mosquitto__packet and h h' :: heap and a p'
  assume p: "readable p" "packet__read_binary (p, h) = (Ok a, (p', h'))"
  obtain str n where a: "a = (str, n)" by fastforce
  show "rest p = field_enc a @ rest p' \<and> p' = adv (length (field_enc a)) p"
    using binary_Ok [OF p(1) p(2) [unfolded a]] unfolding a by blast
qed

lemma parses_string: "parses packet__read_string field_enc"
proof (rule parsesI)
  fix p :: mosquitto__packet and h h' :: heap and a p'
  assume p: "readable p" "packet__read_string (p, h) = (Ok a, (p', h'))"
  show "rest p = field_enc a @ rest p' \<and> p' = adv (length (field_enc a)) p"
    using parsesD [OF parses_binary p(1) string_Ok_binary [OF p(2)]] by blast
qed

lemma field_string_ok:
  "\<lbrakk>readable p; packet__read_binary (p, h) = (Ok (str, n), s)\<rbrakk> \<Longrightarrow> string_ok \<lparr>s_v = str, s_len = n\<rparr>"
  "\<lbrakk>readable p; packet__read_string (p, h) = (Ok (str, n), s)\<rbrakk> \<Longrightarrow> string_ok \<lparr>s_v = str, s_len = n\<rparr>"
  using binary_Ok string_Ok_binary by (cases s, blast)+

lemma length_field_enc:
  "string_ok \<lparr>s_v = str, s_len = n\<rparr> \<Longrightarrow> length (field_enc (str, n)) = 2 + unat n"
  by (simp add: field_enc_def string_ok_def)

text \<open>One property: what was read is its encoding, and the length is counted down by it.\<close>

definition reads_value ::
  "uint32 \<Rightarrow> int \<Rightarrow> mosquitto__packet \<Rightarrow> mosquitto_property \<Rightarrow> uint32 \<Rightarrow> mosquitto__packet \<Rightarrow> bool"
where
  "reads_value len i p pr len' p' =
     (property_type i \<noteq> None \<and> pr_identifier pr = i \<and> prop_ok pr
      \<and> rest p = value_enc pr @ rest p' \<and> p' = adv (length (value_enc pr)) p
      \<and> len' = len - word_of_nat (length (value_enc pr)))"

lemma zero_property_simps [simp]:
  "pr_varint zero_property = 0" "pr_s zero_property = null_string"
  "pr_bin zero_property = null_string" "pr_name zero_property = null_string"
  by (simp_all add: zero_property_def)

lemma property__read_value_Ok:
  assumes p: "readable p" and c: "property__read_value len i (p, h) = (Ok (pr, len'), (p', h'))"
  shows "reads_value len i p pr len' p'"
proof (cases "property_type i")
  case None
  then show ?thesis using c by (simp add: property__read_value_def throw_def)
next
  case ty: (Some ty)
  show ?thesis
  proof (cases ty)
    case MQTT_PROP_TYPE_BYTE
    then obtain b h1 where s: "on_packet packet__read_byte (p, h) = (Ok b, (p', h1))"
      "pr = zero_property\<lparr>pr_identifier := i, pr_i8 := b\<rparr>" "len' = len - 1"
      using c ty by (auto simp: property__read_value_def ret_def elim!: then_do_OkE)
    then show ?thesis
      using parsesD [OF parses_byte p s(1)] ty MQTT_PROP_TYPE_BYTE
      by (simp add: reads_value_def value_enc_def prop_ok_def)
  next
    case MQTT_PROP_TYPE_INT16
    then obtain b h1 where s: "on_packet packet__read_uint16 (p, h) = (Ok b, (p', h1))"
      "pr = zero_property\<lparr>pr_identifier := i, pr_i16 := b\<rparr>" "len' = len - 2"
      using c ty by (auto simp: property__read_value_def ret_def elim!: then_do_OkE)
    then show ?thesis
      using parsesD [OF parses_uint16 p s(1)] ty MQTT_PROP_TYPE_INT16
      by (simp add: reads_value_def value_enc_def prop_ok_def)
  next
    case MQTT_PROP_TYPE_INT32
    then obtain b h1 where s: "on_packet packet__read_uint32 (p, h) = (Ok b, (p', h1))"
      "pr = zero_property\<lparr>pr_identifier := i, pr_i32 := b\<rparr>" "len' = len - 4"
      using c ty by (auto simp: property__read_value_def ret_def elim!: then_do_OkE)
    then show ?thesis
      using parsesD [OF parses_uint32 p s(1)] ty MQTT_PROP_TYPE_INT32
      by (simp add: reads_value_def value_enc_def prop_ok_def)
  next
    case MQTT_PROP_TYPE_VARINT
    then obtain w n h1 where s: "on_packet packet__read_varint (p, h) = (Ok (w, n), (p', h1))"
      "pr = zero_property\<lparr>pr_identifier := i, pr_varint := w\<rparr>" "len' = len - ucast n"
      using c ty by (auto simp: property__read_value_def ret_def elim!: then_do_OkE)
    have w: "unat w < 2 ^ 28" "n = word_of_nat (length (varint_enc (unat w)))"
      using parses_varint(2) [OF p s(1)] by blast+
    have "ucast n = (word_of_nat (length (varint_enc (unat w))) :: uint32)"
      using varint_enc_le5 [of w] unfolding w(2)
      by (simp add: word_unat_eq_iff unat_of_nat_less)
    then show ?thesis
      using parsesD [OF parses_varint(1) p s(1)] ty MQTT_PROP_TYPE_VARINT w s(2,3)
      by (simp add: reads_value_def value_enc_def prop_ok_def)
  next
    case MQTT_PROP_TYPE_STRING
    then obtain str n h1 where s: "packet__read_string (p, h) = (Ok (str, n), (p', h1))"
      "pr = zero_property\<lparr>pr_identifier := i, pr_s := \<lparr>s_v = str, s_len = n\<rparr>\<rparr>" "len' = len - 2 - ucast n"
      using c ty by (auto simp: property__read_value_def ret_def elim!: then_do_OkE)
    note ok = field_string_ok(2) [OF p s(1)]
    then show ?thesis
      using parsesD [OF parses_string p s(1)] ty MQTT_PROP_TYPE_STRING s(2,3) length_field_enc [OF ok]
      by (simp add: reads_value_def value_enc_def prop_ok_def field_enc_def)
  next
    case MQTT_PROP_TYPE_BINARY
    then obtain str n h1 where s: "packet__read_binary (p, h) = (Ok (str, n), (p', h1))"
      "pr = zero_property\<lparr>pr_identifier := i, pr_bin := \<lparr>s_v = str, s_len = n\<rparr>\<rparr>" "len' = len - 2 - ucast n"
      using c ty by (auto simp: property__read_value_def ret_def elim!: then_do_OkE)
    note ok = field_string_ok(1) [OF p s(1)]
    then show ?thesis
      using parsesD [OF parses_binary p s(1)] ty MQTT_PROP_TYPE_BINARY s(2,3) length_field_enc [OF ok]
      by (simp add: reads_value_def value_enc_def prop_ok_def field_enc_def)
  next
    case MQTT_PROP_TYPE_STRING_PAIR
    then obtain str n p1 h1 str2 n2 h2 where s: "packet__read_string (p, h) = (Ok (str, n), (p1, h1))"
      "packet__read_string (p1, h1) = (Ok (str2, n2), (p', h2))"
      "pr = zero_property\<lparr>pr_identifier := i, pr_name := \<lparr>s_v = str, s_len = n\<rparr>, pr_s := \<lparr>s_v = str2, s_len = n2\<rparr>\<rparr>"
      "len' = len - 2 - ucast n - 2 - ucast n2"
      using c ty by (auto simp: property__read_value_def ret_def elim!: then_do_OkE)
    note ok = field_string_ok(2) [OF p s(1)]
    note q = parsesD [OF parses_string p s(1)]
    note ok2 = field_string_ok(2) [OF q(4) s(2)]
    note q2 = parsesD [OF parses_string q(4) s(2)]
    show ?thesis
      using ty MQTT_PROP_TYPE_STRING_PAIR s(3,4) length_field_enc [OF ok] length_field_enc [OF ok2] q(1,2) q2(1,2) ok ok2
      by (simp add: reads_value_def value_enc_def prop_ok_def field_enc_def)
  qed
qed

lemma property__read_Ok:
  assumes p: "readable p" and c: "property__read len (p, h) = (Ok (pr, len'), (p', h'))"
  shows "rest p = prop_enc pr @ rest p'" "p' = adv (length (prop_enc pr)) p" "prop_ok pr"
    "len' = len - word_of_nat (length (prop_enc pr))" "readable p'"
proof -
  obtain i n p1 h1 where v: "on_packet packet__read_varint (p, h) = (Ok (i, n), (p1, h1))"
    "property__read_value (len - 1) (uint i) (p1, h1) = (Ok (pr, len'), (p', h'))"
    using c unfolding property__read_def by (elim then_do_OkE) auto
  note pv = parsesD [OF parses_varint(1) p v(1), unfolded prod.case]
  note r = property__read_value_Ok [OF pv(4) v(2), unfolded reads_value_def]
  have i: "nat (pr_identifier pr) = unat i" using r by simp
  have one: "length (varint_enc (unat i)) = 1"
    using prop_identifier_enc [of "pr_identifier pr"] r unfolding i by simp
  show e: "rest p = prop_enc pr @ rest p'" "p' = adv (length (prop_enc pr)) p"
    using pv(1,2) r one unfolding prop_enc_def i by simp_all
  show "prop_ok pr" using r by blast
  show "len' = len - word_of_nat (length (prop_enc pr))"
    using r one unfolding prop_enc_def i by simp
  have "length (prop_enc pr) \<le> length (rest p)" unfolding e(1) by simp
  then show "readable p'" unfolding e(2) using p by simp
qed

lemma property__read_loop_Ok:
  assumes "readable p" "property__read_loop fuel proplen ps (p, h) = (Ok qs, (p', h'))"
  shows "\<exists>rs. qs = ps @ rs \<and> list_all prop_ok rs \<and> rest p = props_enc rs @ rest p'
    \<and> p' = adv (length (props_enc rs)) p \<and> proplen = word_of_nat (length (props_enc rs))"
  using assms
proof (induction fuel arbitrary: proplen ps p h)
  case 0
  then have "proplen = 0 \<and> qs = ps \<and> p' = p"
    by (auto simp: fault_def ret_def word_gt_0 split: if_splits)
  then show ?case by (intro exI [of _ "[]"]) simp
next
  case (Suc fuel)
  show ?case
  proof (cases "proplen > 0")
    case False
    then have "proplen = 0 \<and> qs = ps \<and> p' = p"
      using Suc.prems(2) by (auto simp: ret_def word_gt_0)
    then show ?thesis by (intro exI [of _ "[]"]) simp
  next
    case True
    obtain ok h0 where h: "alloc h = (ok, h0)" by fastforce
    have ok using True h Suc.prems(2) by (cases ok) simp_all
    then have "then_do (property__read proplen) (\<lambda>(p, proplen').
        property__read_loop fuel proplen' (ps @ [p])) (p, h0) = (Ok qs, (p', h'))"
      using True h Suc.prems(2) by simp
    then obtain pr len' p1 h1 where c: "property__read proplen (p, h0) = (Ok (pr, len'), (p1, h1))"
      "property__read_loop fuel len' (ps @ [pr]) (p1, h1) = (Ok qs, (p', h'))"
      by (elim then_do_OkE) auto
    note r = property__read_Ok [OF Suc.prems(1) c(1)]
    obtain rs where rs: "qs = (ps @ [pr]) @ rs" "list_all prop_ok rs" "rest p1 = props_enc rs @ rest p'"
      "p' = adv (length (props_enc rs)) p1" "len' = word_of_nat (length (props_enc rs))"
      using Suc.IH [OF r(5) c(2)] by blast
    have "proplen = word_of_nat (length (prop_enc pr) + length (props_enc rs))"
      using r(4) rs(5) by (simp add: algebra_simps)
    then show ?thesis
      using rs r by (intro exI [of _ "pr # rs"]) simp
  qed
qed

text \<open>
  A list that is read is well formed and has passed the check for its command, and the bytes it
  took are its encoding: the announced length, then exactly that many bytes.
\<close>

lemma property__read_all_Ok:
  assumes p: "readable p" and c: "property__read_all command (p, h) = (Ok ps, (p', h'))"
  shows "rest p = varint_enc (length (props_enc ps)) @ props_enc ps @ rest p'"
    "p' = adv (length (varint_enc (length (props_enc ps)) @ props_enc ps)) p"
    "list_all prop_ok ps" "mosquitto_property_check_all command ps = Ok ()" "readable p'"
proof -
  obtain w n p1 h1 where v: "on_packet packet__read_varint (p, h) = (Ok (w, n), (p1, h1))"
    "then_do (property__read_loop (length (p_payload p1)) w []) (\<lambda>ps.
       then_do (lift_res (mosquitto_property_check_all command ps)) (\<lambda>_. ret ps)) (p1, h1)
     = (Ok ps, (p', h'))"
    using c unfolding property__read_all_def by (elim then_do_OkE) (auto split: prod.splits)
  note pv = parsesD [OF parses_varint(1) p v(1), unfolded prod.case]
  from v(2) obtain s2 where l: "property__read_loop (length (p_payload p1)) w [] (p1, h1) = (Ok ps, (p', h'))"
    and "mosquitto_property_check_all command ps = Ok ()"
    by (elim then_do_OkE) (auto simp: lift_res_def ret_def)
  then show "mosquitto_property_check_all command ps = Ok ()" by blast
  have r: "list_all prop_ok ps" "rest p1 = props_enc ps @ rest p'"
    "p' = adv (length (props_enc ps)) p1" "w = word_of_nat (length (props_enc ps))"
    using property__read_loop_Ok [OF pv(4) l] by auto
  have "length (props_enc ps) < 2 ^ 28"
    using length_rest_less [OF pv(4)] unfolding r(2) by simp
  then have w: "unat w = length (props_enc ps)" unfolding r(4) by (intro unat_of_nat_less) simp
  show "list_all prop_ok ps" by (rule r)
  show e: "rest p = varint_enc (length (props_enc ps)) @ props_enc ps @ rest p'"
    using pv(1) r(2) unfolding w by simp
  show a: "p' = adv (length (varint_enc (length (props_enc ps)) @ props_enc ps)) p"
    using pv(2) r(3) unfolding w by simp
  have "length (varint_enc (length (props_enc ps)) @ props_enc ps) \<le> length (rest p)"
    unfolding e by simp
  then show "readable p'" unfolding a using p by simp
qed

section \<open>What is written is the encoding\<close>

lemma writes_text:
  assumes "string_ok s"
  shows "writes (packet__write_string (s_v s) (s_len s)) (enc_field (s_bytes s))"
proof -
  have l: "unat (s_len s) \<le> length (case s_v s of None \<Rightarrow> [] | Some v \<Rightarrow> v)" "length (s_bytes s) = unat (s_len s)"
    using assms by (simp_all add: string_ok_def s_bytes_def)
  have e: "enc_field (s_bytes s) = enc16 (s_len s) @
      take (unat (ucast (s_len s) :: uint32)) (case s_v s of None \<Rightarrow> [] | Some v \<Rightarrow> v)"
    unfolding enc_field_def l(2) by (simp add: s_bytes_def)
  show ?thesis
    unfolding packet__write_string_def e
    by (intro writes_then_do writes_uint16 writes_bytes) (use l(1) in simp)
qed

lemma writes_property:
  assumes "prop_ok pr"
  shows "writes (property__write pr) (prop_enc pr)"
proof -
  obtain ty where ty: "property_type (pr_identifier pr) = Some ty"
    using assms by (auto simp: prop_ok_def)
  have i: "unat (word_of_int (pr_identifier pr) :: uint32) = nat (pr_identifier pr)"
    using property_type_cases [of "pr_identifier pr"] ty
    by (simp add: unsigned_of_int take_bit_int_eq_self)
  have id: "writes (packet__write_varint (word_of_int (pr_identifier pr))) (varint_enc (nat (pr_identifier pr)))"
    using writes_varint [of "word_of_int (pr_identifier pr)"] property_type_cases [of "pr_identifier pr"] ty
    unfolding i by simp
  have bin: "writes (then_do (packet__write_uint16 (s_len (pr_bin pr))) (\<lambda>_.
      packet__write_bytes (case s_v (pr_bin pr) of None \<Rightarrow> [] | Some v \<Rightarrow> v) (ucast (s_len (pr_bin pr)))))
      (enc_field (s_bytes (pr_bin pr)))"
    using writes_text [of "pr_bin pr"] assms by (simp add: packet__write_string_def prop_ok_def)
  show ?thesis
    unfolding property__write_def prop_enc_def value_enc_def ty
    using assms bin writes_text
    by (intro writes_then_do id)
      (cases ty; simp add: prop_ok_def writes_byte writes_uint16 writes_uint32 writes_varint writes_then_do)
qed

lemma writes_property_list:
  "list_all prop_ok ps \<Longrightarrow> writes (property__write_list ps) (props_enc ps)"
  by (induction ps) (simp_all add: writes_ret writes_then_do writes_property)

text \<open>The length functions count the bytes of the encoding.\<close>

lemma length_prop_enc:
  assumes "prop_ok pr"
  shows "property__get_length pr = word_of_nat (length (prop_enc pr))"
proof -
  obtain ty where ty: "property_type (pr_identifier pr) = Some ty"
    using assms by (auto simp: prop_ok_def)
  have s: "length (s_bytes (pr_s pr)) = unat (s_len (pr_s pr))"
    "length (s_bytes (pr_bin pr)) = unat (s_len (pr_bin pr))"
    "length (s_bytes (pr_name pr)) = unat (s_len (pr_name pr))"
    using assms by (simp_all add: prop_ok_def string_ok_def)
  have v: "\<not> unat (pr_varint pr) \<ge> 268435456" using assms by (simp add: prop_ok_def)
  have one: "length (varint_enc (nat (pr_identifier pr))) = 1"
    using prop_identifier_enc [of "pr_identifier pr"] ty by simp
  show ?thesis
    unfolding property__get_length_def prop_enc_def value_enc_def ty
    using one s v
    by (cases ty) (simp_all add: varint_bytes_enc [symmetric] packet__varint_bytes_def word_less_nat_alt)
qed

lemma property__get_length_from_enc:
  "list_all prop_ok ps \<Longrightarrow> property__get_length_from n ps = n + word_of_nat (length (props_enc ps))"
  by (induction ps arbitrary: n) (simp_all add: length_prop_enc)

lemma property__get_length_all_enc:
  "list_all prop_ok ps \<Longrightarrow> property__get_length_all ps = word_of_nat (length (props_enc ps))"
  by (simp add: property__get_length_all_def property__get_length_from_enc)

text \<open>The bytes of a property list in a packet: its length and its encoding.\<close>

definition proplist_enc :: "mosquitto_property list \<Rightarrow> byte list" where
  "proplist_enc ps = varint_enc (length (props_enc ps)) @ props_enc ps"

lemma property__write_all_enc:
  assumes "list_all prop_ok ps" "length (props_enc ps) < 2 ^ 28"
  shows "writes (property__write_all ps True) (proplist_enc ps)"
    "writes (property__write_all ps False) (props_enc ps)"
proof -
  have u: "unat (property__get_length_all ps) = length (props_enc ps)"
    unfolding property__get_length_all_enc [OF assms(1)] using assms(2)
    by (intro unat_of_nat_less) simp
  have "writes (packet__write_varint (property__get_length_all ps)) (varint_enc (length (props_enc ps)))"
    using writes_varint [of "property__get_length_all ps"] assms(2) unfolding u by simp
  then show "writes (property__write_all ps True) (proplist_enc ps)"
    unfolding property__write_all_def proplist_enc_def
    using writes_property_list [OF assms(1)] by (simp add: writes_then_do)
  show "writes (property__write_all ps False) (props_enc ps)"
    unfolding property__write_all_def
    using writes_then_do [OF writes_ret writes_property_list [OF assms(1)]] by simp
qed

lemma property__get_remaining_length_enc:
  assumes "list_all prop_ok ps" "length (props_enc ps) < 2 ^ 28"
  shows "property__get_remaining_length ps = word_of_nat (length (proplist_enc ps))"
proof -
  have u: "unat (property__get_length_all ps) = length (props_enc ps)"
    unfolding property__get_length_all_enc [OF assms(1)] using assms(2)
    by (intro unat_of_nat_less) simp
  show ?thesis
    unfolding property__get_remaining_length_def Let_def varint_bytes_enc u proplist_enc_def
    by (simp add: property__get_length_all_enc [OF assms(1)])
qed

section \<open>Reading back what was written\<close>

definition text_ok :: "mqtt__string \<Rightarrow> bool" where
  "text_ok s = (s_bytes s = [] \<or> utf8_valid (s_bytes s))"

definition texts_ok :: "mosquitto_property \<Rightarrow> bool" where
  "texts_ok pr =
     ((property_type (pr_identifier pr) \<in> {Some MQTT_PROP_TYPE_STRING, Some MQTT_PROP_TYPE_STRING_PAIR}
       \<longrightarrow> text_ok (pr_s pr))
      \<and> (property_type (pr_identifier pr) = Some MQTT_PROP_TYPE_STRING_PAIR \<longrightarrow> text_ok (pr_name pr)))"

text \<open>What the reader builds from a written property: only the member its type selects.\<close>

definition received_string :: "mqtt__string \<Rightarrow> mqtt__string" where
  "received_string s = \<lparr>s_v = opt_bytes (s_bytes s), s_len = s_len s\<rparr>"

definition received :: "mosquitto_property \<Rightarrow> mosquitto_property" where
  "received pr = (let z = zero_property\<lparr>pr_identifier := pr_identifier pr\<rparr> in
     case property_type (pr_identifier pr) of
       Some MQTT_PROP_TYPE_BYTE \<Rightarrow> z\<lparr>pr_i8 := pr_i8 pr\<rparr>
     | Some MQTT_PROP_TYPE_INT16 \<Rightarrow> z\<lparr>pr_i16 := pr_i16 pr\<rparr>
     | Some MQTT_PROP_TYPE_INT32 \<Rightarrow> z\<lparr>pr_i32 := pr_i32 pr\<rparr>
     | Some MQTT_PROP_TYPE_VARINT \<Rightarrow> z\<lparr>pr_varint := pr_varint pr\<rparr>
     | Some MQTT_PROP_TYPE_STRING \<Rightarrow> z\<lparr>pr_s := received_string (pr_s pr)\<rparr>
     | Some MQTT_PROP_TYPE_BINARY \<Rightarrow> z\<lparr>pr_bin := received_string (pr_bin pr)\<rparr>
     | Some MQTT_PROP_TYPE_STRING_PAIR \<Rightarrow>
         z\<lparr>pr_name := received_string (pr_name pr), pr_s := received_string (pr_s pr)\<rparr>
     | None \<Rightarrow> z)"

lemma string_field_out:
  assumes "string_ok s"
  shows "field_out (s_bytes s) = (opt_bytes (s_bytes s), s_len s)" "length (s_bytes s) < 65536"
proof -
  have l: "length (s_bytes s) = unat (s_len s)" using assms by (simp add: string_ok_def)
  show "field_out (s_bytes s) = (opt_bytes (s_bytes s), s_len s)" unfolding field_out_def l by simp
  have "unat (s_len s) < 2 ^ LENGTH(16)" by (rule unsigned_less)
  then show "length (s_bytes s) < 65536" unfolding l by simp
qed

lemma reads_field:
  assumes "string_ok s"
  shows "reads packet__read_binary (enc_field (s_bytes s)) (opt_bytes (s_bytes s), s_len s)"
    "text_ok s \<Longrightarrow> reads packet__read_string (enc_field (s_bytes s)) (opt_bytes (s_bytes s), s_len s)"
  using reads_binary [of "s_bytes s"] reads_string [of "s_bytes s"] string_field_out [OF assms]
  by (auto simp: text_ok_def)

lemma reads_then_ret:
  assumes "reads c xs a" "f a = ret b"
  shows "reads (then_do c f) xs b"
  using reads_then_do [of c xs a f "[]" b] assms reads_ret [of b] by simp

lemma reads_property_value:
  assumes "prop_ok pr" "texts_ok pr"
  shows "reads (property__read_value len (pr_identifier pr)) (value_enc pr)
    (received pr, len - word_of_nat (length (value_enc pr)))"
proof -
  obtain ty where ty: "property_type (pr_identifier pr) = Some ty"
    using assms by (auto simp: prop_ok_def)
  have ok: "string_ok (pr_s pr)" "string_ok (pr_bin pr)" "string_ok (pr_name pr)" "unat (pr_varint pr) < 2 ^ 28"
    using assms(1) by (simp_all add: prop_ok_def)
  have l: "length (s_bytes (pr_s pr)) = unat (s_len (pr_s pr))"
    "length (s_bytes (pr_bin pr)) = unat (s_len (pr_bin pr))"
    "length (s_bytes (pr_name pr)) = unat (s_len (pr_name pr))"
    using ok by (simp_all add: string_ok_def)
  have n: "ucast (word_of_nat (packet__varint_bytes w) :: byte) = (word_of_nat (length (varint_enc (unat w))) :: uint32)" for w
    using varint_enc_le5 [of w] unfolding varint_bytes_enc
    by (simp add: word_unat_eq_iff unat_of_nat_less)
  show ?thesis
  proof (cases ty)
    case MQTT_PROP_TYPE_STRING_PAIR
    then have t: "text_ok (pr_s pr)" "text_ok (pr_name pr)"
      using assms(2) ty by (simp_all add: texts_ok_def)
    show ?thesis
      using MQTT_PROP_TYPE_STRING_PAIR ty l
      unfolding property__read_value_def value_enc_def received_def Let_def
      by (simp, intro reads_then_do [OF reads_field(2) [OF ok(3) t(2)]])
        (simp, intro reads_then_ret [OF reads_field(2) [OF ok(1) t(1)]], simp add: received_string_def algebra_simps)
  next
    case MQTT_PROP_TYPE_STRING
    then have t: "text_ok (pr_s pr)" using assms(2) ty by (simp add: texts_ok_def)
    show ?thesis
      using MQTT_PROP_TYPE_STRING ty l
      unfolding property__read_value_def value_enc_def received_def Let_def
      by (simp, intro reads_then_ret [OF reads_field(2) [OF ok(1) t]]) (simp add: received_string_def algebra_simps)
  next
    case MQTT_PROP_TYPE_BINARY
    then show ?thesis
      using ty l unfolding property__read_value_def value_enc_def received_def Let_def
      by (simp, intro reads_then_ret [OF reads_field(1) [OF ok(2)]]) (simp add: received_string_def algebra_simps)
  next
    case MQTT_PROP_TYPE_VARINT
    then show ?thesis
      using ty n unfolding property__read_value_def value_enc_def received_def Let_def
      by (simp, intro reads_then_ret [OF reads_varint [OF ok(4)]]) simp
  next
    case MQTT_PROP_TYPE_BYTE
    then show ?thesis
      using ty unfolding property__read_value_def value_enc_def received_def Let_def
      by (simp, intro reads_then_ret [OF reads_byte]) simp
  next
    case MQTT_PROP_TYPE_INT16
    then show ?thesis
      using ty unfolding property__read_value_def value_enc_def received_def Let_def
      by (simp, intro reads_then_ret [OF reads_uint16]) simp
  next
    case MQTT_PROP_TYPE_INT32
    then show ?thesis
      using ty unfolding property__read_value_def value_enc_def received_def Let_def
      by (simp, intro reads_then_ret [OF reads_uint32]) simp
  qed
qed

lemma reads_property:
  assumes "prop_ok pr" "texts_ok pr"
  shows "reads (property__read len) (prop_enc pr) (received pr, len - word_of_nat (length (prop_enc pr)))"
proof -
  have ty: "property_type (pr_identifier pr) \<noteq> None" using assms by (simp add: prop_ok_def)
  note i = property_type_cases [OF ty]
  define w where "w = (word_of_int (pr_identifier pr) :: uint32)"
  have u: "uint w = pr_identifier pr" using i by (simp add: w_def unsigned_of_int take_bit_int_eq_self)
  have un: "unat w = nat (pr_identifier pr)" unfolding u [symmetric] by simp
  have "reads (on_packet packet__read_varint) (varint_enc (nat (pr_identifier pr))) (w, word_of_nat (packet__varint_bytes w))"
    using reads_varint [of w] i unfolding un by simp
  note v = reads_then_do [OF this]
  have "len - word_of_nat (length (prop_enc pr)) = len - 1 - word_of_nat (length (value_enc pr))"
    by (simp add: prop_enc_def prop_identifier_enc [OF ty])
  then show ?thesis
    unfolding property__read_def prop_enc_def [of pr]
    using reads_property_value [OF assms, of "len - 1"]
    by (intro v) (simp add: u prop_enc_def diff_diff_eq)
qed

lemma reads_property_loop:
  assumes "list_all prop_ok ps" "list_all texts_ok ps" "length ps \<le> fuel" "length (props_enc ps) < 2 ^ 28"
  shows "reads (property__read_loop fuel (word_of_nat (length (props_enc ps))) acc) (props_enc ps) (acc @ map received ps)"
  using assms
proof (induction ps arbitrary: fuel acc)
  case Nil
  then show ?case by (cases fuel) (simp_all add: reads_ret)
next
  case (Cons pr ps)
  then obtain f where f: "fuel = Suc f" by (cases fuel) auto
  define len where "len = (word_of_nat (length (props_enc (pr # ps))) :: uint32)"
  have l: "len - word_of_nat (length (prop_enc pr)) = word_of_nat (length (props_enc ps))"
    by (simp add: len_def)
  have "unat len = length (props_enc (pr # ps))"
    unfolding len_def using Cons.prems(4) by (intro unat_of_nat_less) simp
  moreover have "0 < length (prop_enc pr)" by (simp add: prop_enc_def)
  ultimately have pos: "len > 0" by (simp add: word_less_nat_alt)
  have r: "reads (then_do (property__read len) (\<lambda>(p, proplen').
      property__read_loop f proplen' (acc @ [p]))) (prop_enc pr @ props_enc ps) ((acc @ [received pr]) @ map received ps)"
    using Cons.prems Cons.IH [of f "acc @ [received pr]"] f l reads_property [of pr len]
    by (intro reads_then_do [where a = "(received pr, word_of_nat (length (props_enc ps)))"]) simp_all
  show ?case
    unfolding len_def [symmetric] f
  proof (rule readsI)
    fix p :: mosquitto__packet and h :: heap and xs
    assume p: "readable p" "rest p = props_enc (pr # ps) @ xs" "never_fails h"
    show "property__read_loop (Suc f) len acc (p, h) =
        (Ok (acc @ map received (pr # ps)), (adv (length (props_enc (pr # ps))) p, h))"
      using readsD [OF r p(1) _ p(3), of xs] p(2,3) pos by simp
  qed
qed

lemma received_check [simp]:
  "pr_identifier (received pr) = pr_identifier pr"
  "property_value_bad (received pr) = property_value_bad pr"
proof -
  show i: "pr_identifier (received pr) = pr_identifier pr"
    by (auto simp: received_def Let_def split: option.split mqtt5_property_type.split)
  consider "property_type (pr_identifier pr) = Some MQTT_PROP_TYPE_BYTE"
    | "pr_identifier pr = MQTT_PROP_MAXIMUM_PACKET_SIZE" | "pr_identifier pr = MQTT_PROP_RECEIVE_MAXIMUM"
    | "pr_identifier pr = MQTT_PROP_TOPIC_ALIAS"
    | "property_type (pr_identifier pr) \<noteq> Some MQTT_PROP_TYPE_BYTE"
      "pr_identifier pr \<notin> {MQTT_PROP_MAXIMUM_PACKET_SIZE, MQTT_PROP_RECEIVE_MAXIMUM, MQTT_PROP_TOPIC_ALIAS}"
    by blast
  then show "property_value_bad (received pr) = property_value_bad pr"
    by cases (simp_all add: property_value_bad_def i, simp_all add: received_def property_type_def)
qed

lemma check_all_received [simp]:
  "mosquitto_property_check_all command (map received ps) = mosquitto_property_check_all command ps"
proof (induction ps)
  case (Cons p ps)
  have "list_ex (\<lambda>t. i = pr_identifier t) (map received ps) = list_ex (\<lambda>t. i = pr_identifier t) ps" for i
    by (simp add: list_ex_iff)
  then show ?case using Cons by (simp split: res.split)
qed simp

lemma reads_property_all:
  assumes "list_all prop_ok ps" "list_all texts_ok ps" "length (props_enc ps) < 2 ^ 28"
    and "mosquitto_property_check_all command ps = Ok ()"
  shows "reads (property__read_all command) (proplist_enc ps) (map received ps)"
proof (rule readsI)
  fix p :: mosquitto__packet and h :: heap and xs
  assume p: "readable p" "rest p = proplist_enc ps @ xs" "never_fails h"
  define w where "w = (word_of_nat (length (props_enc ps)) :: uint32)"
  have w: "unat w = length (props_enc ps)" unfolding w_def using assms(3) by (intro unat_of_nat_less) simp
  define k where "k = length (varint_enc (length (props_enc ps)))"
  have v: "on_packet packet__read_varint (p, h) = (Ok (w, word_of_nat (packet__varint_bytes w)), (adv k p, h))"
    unfolding k_def using readsD [OF reads_varint [of w], unfolded w, OF _ p(1) _ p(3)] assms(3) p(2)
    by (simp add: proplist_enc_def)
  have "length ps \<le> length (props_enc ps)"
  proof (induction ps)
    case (Cons pr ps)
    have "0 < length (prop_enc pr)" by (simp add: prop_enc_def)
    then show ?case using Cons unfolding props_enc_simps length_append list.size by linarith
  qed simp
  also have "\<dots> \<le> length (p_payload p)"
    using p(2) length_rest_le [of p] by (simp add: proplist_enc_def)
  finally have "reads (property__read_loop (length (p_payload p)) w []) (props_enc ps) (map received ps)"
    using reads_property_loop [OF assms(1,2) _ assms(3), of "length (p_payload p)" "[]"] unfolding w_def by simp
  then have "property__read_loop (length (p_payload p)) w [] (adv k p, h) =
      (Ok (map received ps), (adv (length (props_enc ps)) (adv k p), h))"
    using p by (intro readsD [of _ _ _ _ xs]) (simp_all add: proplist_enc_def k_def)
  then show "property__read_all command (p, h) =
      (Ok (map received ps), (adv (length (proplist_enc ps)) p, h))"
    using v assms(4)
    by (simp add: property__read_all_def then_do_def lift_res_def ret_def proplist_enc_def k_def)
qed

text \<open>A property list is a datatype with a codec of its own.\<close>

interpretation proplist_codec: codec "\<lambda>ps. property__write_all ps True" "property__read_all command"
  proplist_enc "map received" "\<lambda>ps. list_all prop_ok ps \<and> list_all texts_ok ps
    \<and> length (props_enc ps) < 2 ^ 28 \<and> mosquitto_property_check_all command ps = Ok ()"
  by unfold_locales (auto intro: property__write_all_enc(1) reads_property_all)

end
