(* ===== verification/Property_Api.thy ===== *)
theory Property_Api
  imports Property_Wire
begin

text \<open>
  The public property functions of property_mosq.c: building lists (\<open>mosquitto_property_add_*\<close>),
  searching them (\<open>mosquitto_property_read_*\<close>), copying them, and what a list that passed
  the check for a command looks like. The \<open>proplist\<close> argument is \<open>None\<close> for a NULL pointer; a
  function that stores through it returns the new list.
\<close>

section \<open>Building\<close>

definition property__add :: "mosquitto_property list \<Rightarrow> mosquitto_property \<Rightarrow> mosquitto_property list" where
  "property__add proplist prop = proplist @ [prop]"

text \<open>\<open>prop = mosquitto__calloc(1, sizeof(mosquitto_property)); if(!prop) return MOSQ_ERR_NOMEM;\<close>\<close>

definition with_alloc :: "(heap, 'a) cmd \<Rightarrow> (heap, 'a) cmd" where
  "with_alloc c h = (case alloc h of
      (False, h') \<Rightarrow> (Err MOSQ_ERR_NOMEM, h')
    | (True, h') \<Rightarrow> c h')"

definition new_property :: "int \<Rightarrow> mosquitto_property" where
  "new_property identifier =
     zero_property\<lparr>pr_client_generated := True, pr_identifier := identifier\<rparr>"

definition mosquitto_property_add_byte ::
  "mosquitto_property list option \<Rightarrow> int \<Rightarrow> byte \<Rightarrow> (heap, mosquitto_property list) cmd"
where
  "mosquitto_property_add_byte proplist identifier value =
     (case proplist of
        None \<Rightarrow> throw MOSQ_ERR_INVAL
      | Some ps \<Rightarrow>
          (if property_type identifier \<noteq> Some MQTT_PROP_TYPE_BYTE then throw MOSQ_ERR_INVAL
           else with_alloc (ret (property__add ps ((new_property identifier)\<lparr>pr_i8 := value\<rparr>)))))"

definition mosquitto_property_add_int16 ::
  "mosquitto_property list option \<Rightarrow> int \<Rightarrow> uint16 \<Rightarrow> (heap, mosquitto_property list) cmd"
where
  "mosquitto_property_add_int16 proplist identifier value =
     (case proplist of
        None \<Rightarrow> throw MOSQ_ERR_INVAL
      | Some ps \<Rightarrow>
          (if property_type identifier \<noteq> Some MQTT_PROP_TYPE_INT16 then throw MOSQ_ERR_INVAL
           else with_alloc (ret (property__add ps ((new_property identifier)\<lparr>pr_i16 := value\<rparr>)))))"

definition mosquitto_property_add_int32 ::
  "mosquitto_property list option \<Rightarrow> int \<Rightarrow> uint32 \<Rightarrow> (heap, mosquitto_property list) cmd"
where
  "mosquitto_property_add_int32 proplist identifier value =
     (case proplist of
        None \<Rightarrow> throw MOSQ_ERR_INVAL
      | Some ps \<Rightarrow>
          (if property_type identifier \<noteq> Some MQTT_PROP_TYPE_INT32 then throw MOSQ_ERR_INVAL
           else with_alloc (ret (property__add ps ((new_property identifier)\<lparr>pr_i32 := value\<rparr>)))))"

definition mosquitto_property_add_varint ::
  "mosquitto_property list option \<Rightarrow> int \<Rightarrow> uint32 \<Rightarrow> (heap, mosquitto_property list) cmd"
where
  "mosquitto_property_add_varint proplist identifier value =
     (case proplist of
        None \<Rightarrow> throw MOSQ_ERR_INVAL
      | Some ps \<Rightarrow>
          (if value > 268435455 then throw MOSQ_ERR_INVAL
           else if property_type identifier \<noteq> Some MQTT_PROP_TYPE_VARINT then throw MOSQ_ERR_INVAL
           else with_alloc (ret (property__add ps ((new_property identifier)\<lparr>pr_varint := value\<rparr>)))))"

text \<open>\<open>value\<close> is the buffer behind the pointer; reading \<open>len\<close> bytes of a shorter one faults.\<close>

definition mosquitto_property_add_binary ::
  "mosquitto_property list option \<Rightarrow> int \<Rightarrow> byte list \<Rightarrow> uint16 \<Rightarrow> (heap, mosquitto_property list) cmd"
where
  "mosquitto_property_add_binary proplist identifier value len =
     (case proplist of
        None \<Rightarrow> throw MOSQ_ERR_INVAL
      | Some ps \<Rightarrow>
          (if property_type identifier \<noteq> Some MQTT_PROP_TYPE_BINARY then throw MOSQ_ERR_INVAL
           else with_alloc
             (if len \<noteq> 0 then
                with_alloc
                  (if length value < unat len then fault
                   else ret (property__add ps ((new_property identifier)
                          \<lparr>pr_bin := \<lparr>s_v = Some (take (unat len) value), s_len = len\<rparr>\<rparr>)))
              else ret (property__add ps (new_property identifier)))))"

text \<open>\<open>(int)slen\<close>\<close>

definition cast_int :: "nat \<Rightarrow> int" where
  "cast_int n = sint (word_of_nat n :: uint32)"

definition check_utf8 :: "byte list \<Rightarrow> nat \<Rightarrow> ('s, unit) cmd" where
  "check_utf8 value slen s =
     (case mosquitto_validate_utf8 (Some (value @ [0])) (cast_int slen) of
        Ok _ \<Rightarrow> (Ok (), s)
      | Err _ \<Rightarrow> (Err MOSQ_ERR_MALFORMED_UTF8, s)
      | Fault \<Rightarrow> (Fault, s))"

definition mosquitto_property_add_string ::
  "mosquitto_property list option \<Rightarrow> int \<Rightarrow> byte list option \<Rightarrow> (heap, mosquitto_property list) cmd"
where
  "mosquitto_property_add_string proplist identifier value =
     (case proplist of
        None \<Rightarrow> throw MOSQ_ERR_INVAL
      | Some ps \<Rightarrow>
          then_do (case value of None \<Rightarrow> ret () | Some v \<Rightarrow> check_utf8 v (length v)) (\<lambda>_.
            if property_type identifier \<noteq> Some MQTT_PROP_TYPE_STRING then throw MOSQ_ERR_INVAL
            else with_alloc
              (case value of
                 Some v \<Rightarrow>
                   (if length v > 0 then
                      with_alloc (ret (property__add ps ((new_property identifier)
                        \<lparr>pr_s := \<lparr>s_v = Some v, s_len = word_of_nat (length v)\<rparr>\<rparr>)))
                    else ret (property__add ps (new_property identifier)))
               | None \<Rightarrow> ret (property__add ps (new_property identifier)))))"

text \<open>\<open>slen_value\<close> is never set: the value is validated over its first 0 bytes.\<close>

definition mosquitto_property_add_string_pair ::
  "mosquitto_property list option \<Rightarrow> int \<Rightarrow> byte list option \<Rightarrow> byte list option
   \<Rightarrow> (heap, mosquitto_property list) cmd"
where
  "mosquitto_property_add_string_pair proplist identifier name value =
     (case proplist of
        None \<Rightarrow> throw MOSQ_ERR_INVAL
      | Some ps \<Rightarrow>
          (if identifier \<noteq> MQTT_PROP_USER_PROPERTY then throw MOSQ_ERR_INVAL
           else
             then_do (case name of None \<Rightarrow> ret () | Some n \<Rightarrow> check_utf8 n (length n)) (\<lambda>_.
             then_do (case value of None \<Rightarrow> ret () | Some v \<Rightarrow> check_utf8 v 0) (\<lambda>_.
             with_alloc
               (let prop = new_property identifier in
                then_do
                  (case name of
                     None \<Rightarrow> ret prop
                   | Some n \<Rightarrow> with_alloc (ret
                       (prop\<lparr>pr_name := \<lparr>s_v = Some n, s_len = word_of_nat (length n)\<rparr>\<rparr>))) (\<lambda>prop.
                then_do
                  (case value of
                     None \<Rightarrow> ret prop
                   | Some v \<Rightarrow> with_alloc (ret
                       (prop\<lparr>pr_s := \<lparr>s_v = Some v, s_len = word_of_nat (length v)\<rparr>\<rparr>))) (\<lambda>prop.
                  ret (property__add ps prop))))))))"

section \<open>Searching\<close>

text \<open>The result is the sublist the returned pointer points to, empty for NULL.\<close>

fun property__get_property_from ::
  "mosquitto_property list \<Rightarrow> int \<Rightarrow> bool \<Rightarrow> bool \<Rightarrow> mosquitto_property list"
where
  "property__get_property_from [] identifier skip_first is_first = []"
| "property__get_property_from (p # ps) identifier skip_first is_first =
     (if pr_identifier p = identifier then
        (if \<not> is_first \<or> \<not> skip_first then p # ps
         else property__get_property_from ps identifier skip_first False)
      else property__get_property_from ps identifier skip_first is_first)"

definition property__get_property ::
  "mosquitto_property list \<Rightarrow> int \<Rightarrow> bool \<Rightarrow> mosquitto_property list"
where
  "property__get_property proplist identifier skip_first =
     property__get_property_from proplist identifier skip_first True"

definition mosquitto_property_identifier :: "mosquitto_property list \<Rightarrow> int" where
  "mosquitto_property_identifier property =
     (case property of [] \<Rightarrow> 0 | p # _ \<Rightarrow> pr_identifier p)"

definition mosquitto_property_next :: "mosquitto_property list \<Rightarrow> mosquitto_property list" where
  "mosquitto_property_next proplist = (case proplist of [] \<Rightarrow> [] | _ # ps \<Rightarrow> ps)"

text \<open>
  The typed lookups, for a non-NULL \<open>value\<close>: \<open>None\<close> for a NULL result, else the sublist found
  and the value stored.
\<close>

definition property__lookup ::
  "mqtt5_property_type \<Rightarrow> (mosquitto_property \<Rightarrow> 'a) \<Rightarrow> mosquitto_property list \<Rightarrow> int \<Rightarrow> bool
   \<Rightarrow> (mosquitto_property list \<times> 'a) option"
where
  "property__lookup ty get proplist identifier skip_first =
     (case property__get_property proplist identifier skip_first of
        [] \<Rightarrow> None
      | p # ps \<Rightarrow>
          (if property_type (pr_identifier p) \<noteq> Some ty then None else Some (p # ps, get p)))"

definition mosquitto_property_read_byte ::
  "mosquitto_property list \<Rightarrow> int \<Rightarrow> bool \<Rightarrow> (mosquitto_property list \<times> byte) option"
where
  "mosquitto_property_read_byte = property__lookup MQTT_PROP_TYPE_BYTE pr_i8"

definition mosquitto_property_read_int16 ::
  "mosquitto_property list \<Rightarrow> int \<Rightarrow> bool \<Rightarrow> (mosquitto_property list \<times> uint16) option"
where
  "mosquitto_property_read_int16 = property__lookup MQTT_PROP_TYPE_INT16 pr_i16"

definition mosquitto_property_read_int32 ::
  "mosquitto_property list \<Rightarrow> int \<Rightarrow> bool \<Rightarrow> (mosquitto_property list \<times> uint32) option"
where
  "mosquitto_property_read_int32 = property__lookup MQTT_PROP_TYPE_INT32 pr_i32"

definition mosquitto_property_read_varint ::
  "mosquitto_property list \<Rightarrow> int \<Rightarrow> bool \<Rightarrow> (mosquitto_property list \<times> uint32) option"
where
  "mosquitto_property_read_varint = property__lookup MQTT_PROP_TYPE_VARINT pr_varint"

text \<open>Lookups that return a fresh copy: \<open>calloc(1, len + 1)\<close> and \<open>memcpy\<close>.\<close>

definition copy_out :: "mqtt__string \<Rightarrow> (heap, byte list option) cmd" where
  "copy_out s h = (case alloc h of
      (False, h') \<Rightarrow> (Ok None, h')
    | (True, h') \<Rightarrow>
        (let v = (case s_v s of None \<Rightarrow> [] | Some v \<Rightarrow> v) in
         if length v < unat (s_len s) then (Fault, h')
         else (Ok (Some (take (unat (s_len s)) v)), h')))"

definition property__lookup_copy ::
  "mqtt5_property_type \<Rightarrow> (mosquitto_property \<Rightarrow> mqtt__string) \<Rightarrow> mosquitto_property list \<Rightarrow> int \<Rightarrow> bool
   \<Rightarrow> (heap, (mosquitto_property list \<times> byte list \<times> uint16) option) cmd"
where
  "property__lookup_copy ty get proplist identifier skip_first =
     (case property__get_property proplist identifier skip_first of
        [] \<Rightarrow> ret None
      | p # ps \<Rightarrow>
          (if property_type (pr_identifier p) \<noteq> Some ty then ret None
           else then_do (copy_out (get p)) (\<lambda>v.
             ret (map_option (\<lambda>v. (p # ps, v, s_len (get p))) v))))"

definition mosquitto_property_read_binary ::
  "mosquitto_property list \<Rightarrow> int \<Rightarrow> bool
   \<Rightarrow> (heap, (mosquitto_property list \<times> byte list \<times> uint16) option) cmd"
where
  "mosquitto_property_read_binary = property__lookup_copy MQTT_PROP_TYPE_BINARY pr_bin"

definition mosquitto_property_read_string ::
  "mosquitto_property list \<Rightarrow> int \<Rightarrow> bool
   \<Rightarrow> (heap, (mosquitto_property list \<times> byte list \<times> uint16) option) cmd"
where
  "mosquitto_property_read_string = property__lookup_copy MQTT_PROP_TYPE_STRING pr_s"

definition mosquitto_property_read_string_pair ::
  "mosquitto_property list \<Rightarrow> int \<Rightarrow> bool
   \<Rightarrow> (heap, (mosquitto_property list \<times> byte list \<times> byte list) option) cmd"
where
  "mosquitto_property_read_string_pair proplist identifier skip_first =
     (case property__get_property proplist identifier skip_first of
        [] \<Rightarrow> ret None
      | p # ps \<Rightarrow>
          (if pr_identifier p \<noteq> MQTT_PROP_USER_PROPERTY then ret None
           else then_do (copy_out (pr_name p)) (\<lambda>name.
             case name of
               None \<Rightarrow> ret None
             | Some n \<Rightarrow> then_do (copy_out (pr_s p)) (\<lambda>value.
                 case value of
                   None \<Rightarrow> ret None
                 | Some v \<Rightarrow> ret (Some (p # ps, n, v))))))"

section \<open>Copying\<close>

text \<open>\<open>strdup\<close> copies up to the first NUL and faults on NULL.\<close>

definition strdup :: "byte list option \<Rightarrow> (heap, byte list) cmd" where
  "strdup str = (case str of
      None \<Rightarrow> fault
    | Some v \<Rightarrow> with_alloc (ret (takeWhile (\<lambda>b. b \<noteq> 0) v)))"

definition copy_property :: "mosquitto_property \<Rightarrow> (heap, mosquitto_property) cmd" where
  "copy_property src = with_alloc
     (let pnew = zero_property\<lparr>pr_client_generated := pr_client_generated src,
                               pr_identifier := pr_identifier src\<rparr> in
      case property_type (pr_identifier src) of
        Some MQTT_PROP_TYPE_BYTE \<Rightarrow> ret (pnew\<lparr>pr_i8 := pr_i8 src\<rparr>)
      | Some MQTT_PROP_TYPE_INT16 \<Rightarrow> ret (pnew\<lparr>pr_i16 := pr_i16 src\<rparr>)
      | Some MQTT_PROP_TYPE_INT32 \<Rightarrow> ret (pnew\<lparr>pr_i32 := pr_i32 src\<rparr>)
      | Some MQTT_PROP_TYPE_VARINT \<Rightarrow> ret (pnew\<lparr>pr_varint := pr_varint src\<rparr>)
      | Some MQTT_PROP_TYPE_STRING \<Rightarrow>
          then_do (strdup (s_v (pr_s src))) (\<lambda>v.
            ret (pnew\<lparr>pr_s := \<lparr>s_v = Some v, s_len = s_len (pr_s src)\<rparr>\<rparr>))
      | Some MQTT_PROP_TYPE_BINARY \<Rightarrow>
          with_alloc
            (let v = (case s_v (pr_bin src) of None \<Rightarrow> [] | Some v \<Rightarrow> v) in
             if length v < unat (s_len (pr_bin src)) then fault
             else ret (pnew\<lparr>pr_bin := \<lparr>s_v = Some (take (unat (s_len (pr_bin src))) v),
                                       s_len = s_len (pr_bin src)\<rparr>\<rparr>))
      | Some MQTT_PROP_TYPE_STRING_PAIR \<Rightarrow>
          then_do (strdup (s_v (pr_s src))) (\<lambda>v.
          then_do (strdup (s_v (pr_name src))) (\<lambda>n.
            ret (pnew\<lparr>pr_s := \<lparr>s_v = Some v, s_len = s_len (pr_s src)\<rparr>,
                      pr_name := \<lparr>s_v = Some n, s_len = s_len (pr_name src)\<rparr>\<rparr>)))
      | None \<Rightarrow> throw MOSQ_ERR_INVAL)"

fun mosquitto_property_copy_all ::
  "mosquitto_property list \<Rightarrow> (heap, mosquitto_property list) cmd"
where
  "mosquitto_property_copy_all [] = ret []"
| "mosquitto_property_copy_all (src # srcs) =
     then_do (copy_property src) (\<lambda>pnew.
     then_do (mosquitto_property_copy_all srcs) (\<lambda>ps. ret (pnew # ps)))"

section \<open>Names and identifiers\<close>

lemma property_type_None:
  "property_type i = None \<longleftrightarrow> i \<notin> {1, 2, 3, 8, 9, 11, 17, 18, 19, 21, 22, 23, 24, 25, 26, 28, 31,
     33, 34, 35, 36, 37, 38, 39, 40, 41, 42}"
  by (auto simp: property_type_def)

text \<open>Every name is in lower case, so the first entry that matches a name of the table is its own.\<close>

lemma names_lower: "list_all (\<lambda>(n, _). map tolower n = n) property_info_table"
  by code_simp

lemma string_to_info_exact:
  assumes "s \<in> fst ` set property_info_table"
  shows "mosquitto_string_to_property_info (Some s) =
    (case map_of property_info_table s of None \<Rightarrow> Err MOSQ_ERR_INVAL | Some info \<Rightarrow> Ok info)"
proof -
  have s: "map tolower s = s" using assms names_lower by (auto simp: list_all_iff)
  have "list_all (\<lambda>(n, _). map tolower n = n) t \<Longrightarrow>
      List.find (\<lambda>(n, _). strcasecmp_eq s n) t = map_option (\<lambda>i. (s, i)) (map_of t s)" for t :: "(string \<times> int \<times> mqtt5_property_type) list"
    by (induction t) (auto simp: strcasecmp_eq_def s)
  from this [OF names_lower] show ?thesis
    by (simp add: mosquitto_string_to_property_info_def split: option.split)
qed

definition name_agrees :: "int \<Rightarrow> bool" where
  "name_agrees i = (case mosquitto_property_identifier_to_string i of
      None \<Rightarrow> property_type i = None
    | Some s \<Rightarrow> (case property_type i of
        None \<Rightarrow> False
      | Some ty \<Rightarrow> s \<in> fst ` set property_info_table \<and> map_of property_info_table s = Some (i, ty)))"

lemma names_agree: "name_agrees i"
proof (cases "property_type i")
  case None
  then have "mosquitto_property_identifier_to_string i = None"
    unfolding property_type_None by (simp add: mosquitto_property_identifier_to_string_def)
  with None show ?thesis by (simp add: name_agrees_def)
next
  case (Some ty)
  then have "i \<in> {1, 2, 3, 8, 9, 11, 17, 18, 19, 21, 22, 23, 24, 25, 26, 28, 31,
     33, 34, 35, 36, 37, 38, 39, 40, 41, 42}"
    using property_type_None [of i] by auto
  then show ?thesis
    by (elim insertE emptyE)
      (simp_all add: name_agrees_def mosquitto_property_identifier_to_string_def property_type_def
        property_info_table_def)
qed

section \<open>Lists that pass the check\<close>

lemma mosquitto_property_check_all_iff:
  "mosquitto_property_check_all command ps = Ok () \<longleftrightarrow>
     (\<forall>p \<in> set ps. \<not> property_value_bad p \<and> mosquitto_property_check_command command (pr_identifier p) = Ok ())
     \<and> distinct (filter (\<lambda>i. i \<noteq> MQTT_PROP_USER_PROPERTY) (map pr_identifier ps))"
  by (induction ps) (auto simp: list_ex_iff split: res.splits)

section \<open>Built lists can be encoded\<close>

text \<open>The lists an application can build, one call at a time.\<close>

inductive built :: "mosquitto_property list \<Rightarrow> bool" where
  built_Nil: "built []"
| built_byte: "built ps \<Longrightarrow> mosquitto_property_add_byte (Some ps) i b h = (Ok ps', h') \<Longrightarrow> built ps'"
| built_int16: "built ps \<Longrightarrow> mosquitto_property_add_int16 (Some ps) i w h = (Ok ps', h') \<Longrightarrow> built ps'"
| built_int32: "built ps \<Longrightarrow> mosquitto_property_add_int32 (Some ps) i d h = (Ok ps', h') \<Longrightarrow> built ps'"
| built_varint: "built ps \<Longrightarrow> mosquitto_property_add_varint (Some ps) i d h = (Ok ps', h') \<Longrightarrow> built ps'"
| built_binary: "built ps \<Longrightarrow> mosquitto_property_add_binary (Some ps) i v l h = (Ok ps', h') \<Longrightarrow> built ps'"
| built_string: "built ps \<Longrightarrow> mosquitto_property_add_string (Some ps) i s h = (Ok ps', h') \<Longrightarrow> built ps'"
| built_pair: "built ps \<Longrightarrow> mosquitto_property_add_string_pair (Some ps) i n s h = (Ok ps', h') \<Longrightarrow> built ps'"

lemma with_alloc_OkE:
  assumes "with_alloc c h = (Ok a, h')"
  obtains h0 where "c h0 = (Ok a, h')"
  using assms by (auto simp: with_alloc_def split: prod.splits bool.splits)

lemma new_property_simps [simp]:
  "pr_identifier (new_property i) = i" "pr_varint (new_property i) = 0"
  "pr_s (new_property i) = null_string" "pr_bin (new_property i) = null_string"
  "pr_name (new_property i) = null_string"
  by (simp_all add: new_property_def)

lemma string_ok_trunc: "string_ok \<lparr>s_v = Some v, s_len = word_of_nat (length v)\<rparr>"
proof -
  have "unat (word_of_nat (length v) :: uint16) \<le> length v"
    by (simp add: unsigned_of_nat take_bit_nat_less_eq_self)
  then show ?thesis by (simp add: string_ok_def s_bytes_def)
qed

lemma string_ok_take: "unat l \<le> length v \<Longrightarrow> string_ok \<lparr>s_v = Some (take (unat l) v), s_len = l\<rparr>"
  by (simp add: string_ok_def s_bytes_def)

lemma add_prop_ok: "list_all prop_ok ps \<Longrightarrow> prop_ok p \<Longrightarrow> list_all prop_ok (property__add ps p)"
  by (simp add: property__add_def)

lemma add_string_pair_OkE:
  assumes "mosquitto_property_add_string_pair (Some ps) i n s h = (Ok ps', h')"
  obtains p where "ps' = property__add ps p" "pr_identifier p = MQTT_PROP_USER_PROPERTY"
    "pr_name p = (case n of None \<Rightarrow> null_string | Some v \<Rightarrow> \<lparr>s_v = Some v, s_len = word_of_nat (length v)\<rparr>)"
    "pr_s p = (case s of None \<Rightarrow> null_string | Some v \<Rightarrow> \<lparr>s_v = Some v, s_len = word_of_nat (length v)\<rparr>)"
    "pr_varint p = 0" "pr_bin p = null_string"
  using assms
  by (auto simp: mosquitto_property_add_string_pair_def Let_def ret_def throw_def
      elim!: then_do_OkE with_alloc_OkE split: if_splits option.splits)

lemma built_prop_ok: "built ps \<Longrightarrow> list_all prop_ok ps"
proof (induction rule: built.induct)
  case (built_byte ps i b h ps' h')
  then show ?case
    by (auto simp: mosquitto_property_add_byte_def ret_def throw_def elim!: with_alloc_OkE
        split: if_splits intro!: add_prop_ok) (simp add: prop_ok_def)
next
  case (built_int16 ps i w h ps' h')
  then show ?case
    by (auto simp: mosquitto_property_add_int16_def ret_def throw_def elim!: with_alloc_OkE
        split: if_splits intro!: add_prop_ok) (simp add: prop_ok_def)
next
  case (built_int32 ps i d h ps' h')
  then show ?case
    by (auto simp: mosquitto_property_add_int32_def ret_def throw_def elim!: with_alloc_OkE
        split: if_splits intro!: add_prop_ok) (simp add: prop_ok_def)
next
  case (built_varint ps i d h ps' h')
  then show ?case
    by (auto simp: mosquitto_property_add_varint_def ret_def throw_def elim!: with_alloc_OkE
        split: if_splits intro!: add_prop_ok) (simp add: prop_ok_def word_less_nat_alt)
next
  case (built_binary ps i v l h ps' h')
  then show ?case
    by (auto simp: mosquitto_property_add_binary_def ret_def throw_def fault_def elim!: with_alloc_OkE
        split: if_splits intro!: add_prop_ok) (simp_all add: prop_ok_def string_ok_take)
next
  case (built_string ps i s h ps' h')
  then show ?case
    by (auto simp: mosquitto_property_add_string_def ret_def throw_def elim!: with_alloc_OkE then_do_OkE
        split: if_splits option.splits intro!: add_prop_ok) (simp_all add: prop_ok_def string_ok_trunc)
next
  case (built_pair ps i n s h ps' h')
  then obtain p where "ps' = property__add ps p" "pr_identifier p = MQTT_PROP_USER_PROPERTY"
    "pr_name p = (case n of None \<Rightarrow> null_string | Some v \<Rightarrow> \<lparr>s_v = Some v, s_len = word_of_nat (length v)\<rparr>)"
    "pr_s p = (case s of None \<Rightarrow> null_string | Some v \<Rightarrow> \<lparr>s_v = Some v, s_len = word_of_nat (length v)\<rparr>)"
    "pr_varint p = 0" "pr_bin p = null_string"
    using add_string_pair_OkE by blast
  then have "prop_ok p"
    by (simp add: prop_ok_def string_ok_trunc property_type_def split: option.split)
  then show ?case using built_pair.IH \<open>ps' = property__add ps p\<close> by (simp add: add_prop_ok)
qed simp

section \<open>Lookups\<close>

lemma get_property_first:
  "property__get_property ps i False = dropWhile (\<lambda>p. pr_identifier p \<noteq> i) ps"
proof -
  have "property__get_property_from ps i False b = dropWhile (\<lambda>p. pr_identifier p \<noteq> i) ps" for b
    by (induction ps) simp_all
  then show ?thesis by (simp add: property__get_property_def)
qed

lemma get_property_next:
  "property__get_property ps i True =
   (case property__get_property ps i False of
      [] \<Rightarrow> [] | p # qs \<Rightarrow> property__get_property qs i False)"
proof -
  have "property__get_property_from ps i True False = dropWhile (\<lambda>p. pr_identifier p \<noteq> i) ps" for ps
    by (induction ps) simp_all
  then have "property__get_property_from ps i True True = (case dropWhile (\<lambda>p. pr_identifier p \<noteq> i) ps of
      [] \<Rightarrow> [] | p # qs \<Rightarrow> dropWhile (\<lambda>p. pr_identifier p \<noteq> i) qs)"
    by (induction ps) simp_all
  then show ?thesis unfolding get_property_first by (simp add: property__get_property_def)
qed

section \<open>Copies\<close>

text \<open>A string that \<open>strdup\<close> copies whole.\<close>

definition c_string :: "mqtt__string \<Rightarrow> bool" where
  "c_string s = (case s_v s of None \<Rightarrow> False | Some v \<Rightarrow> 0 \<notin> set v)"

definition copyable :: "mosquitto_property \<Rightarrow> bool" where
  "copyable p =
     (property_type (pr_identifier p) \<noteq> None
      \<and> (property_type (pr_identifier p) \<in> {Some MQTT_PROP_TYPE_STRING, Some MQTT_PROP_TYPE_STRING_PAIR}
          \<longrightarrow> c_string (pr_s p))
      \<and> (property_type (pr_identifier p) = Some MQTT_PROP_TYPE_STRING_PAIR \<longrightarrow> c_string (pr_name p)))"

lemma strdup_c_string:
  "never_fails h \<Longrightarrow> c_string s \<Longrightarrow> strdup (s_v s) h = (Ok (the (s_v s)), h)"
  by (auto simp: strdup_def c_string_def with_alloc_def ret_def takeWhile_eq_all_conv
      split: option.splits)

lemma with_alloc_never_fails [simp]: "never_fails h \<Longrightarrow> with_alloc c h = c h"
  by (simp add: with_alloc_def)

lemma s_bytes_copy [simp]:
  "c_string s \<Longrightarrow> s_bytes \<lparr>s_v = Some (the (s_v s)), s_len = s_len s\<rparr> = s_bytes s"
  by (auto simp: s_bytes_def c_string_def split: option.splits)

lemma copy_property_copyable:
  assumes "never_fails h" "prop_ok p" "copyable p"
  shows "\<exists>q. copy_property p h = (Ok q, h) \<and> prop_ok q \<and> prop_enc q = prop_enc p
    \<and> pr_identifier q = pr_identifier p \<and> pr_client_generated q = pr_client_generated p"
proof -
  obtain ty where ty: "property_type (pr_identifier p) = Some ty"
    using assms(3) by (auto simp: copyable_def)
  have ok: "string_ok (pr_s p)" "string_ok (pr_bin p)" "string_ok (pr_name p)" "unat (pr_varint p) < 2 ^ 28"
    using assms(2) by (simp_all add: prop_ok_def)
  have sok: "string_ok \<lparr>s_v = Some (the (s_v s)), s_len = s_len s\<rparr>" if "c_string s" "string_ok s" for s
    using that by (simp add: string_ok_def)
  show ?thesis
  proof (cases ty)
    case MQTT_PROP_TYPE_STRING
    then have "c_string (pr_s p)" using assms(3) ty by (simp add: copyable_def)
    then show ?thesis using MQTT_PROP_TYPE_STRING ty ok assms(1) sok
      by (simp add: copy_property_def then_do_def ret_def strdup_c_string prop_ok_def prop_enc_def value_enc_def)
  next
    case MQTT_PROP_TYPE_STRING_PAIR
    then have "c_string (pr_s p)" "c_string (pr_name p)" using assms(3) ty by (simp_all add: copyable_def)
    then show ?thesis using MQTT_PROP_TYPE_STRING_PAIR ty ok assms(1) sok
      by (simp add: copy_property_def then_do_def ret_def strdup_c_string prop_ok_def prop_enc_def value_enc_def)
  next
    case MQTT_PROP_TYPE_BINARY
    define v where "v = (case s_v (pr_bin p) of None \<Rightarrow> [] | Some v \<Rightarrow> v)"
    have l: "unat (s_len (pr_bin p)) \<le> length v" using ok(2) by (simp add: string_ok_def s_bytes_def v_def)
    have b: "s_bytes (pr_bin p) = take (unat (s_len (pr_bin p))) v" by (simp add: s_bytes_def v_def)
    have s: "string_ok \<lparr>s_v = Some (take (unat (s_len (pr_bin p))) v), s_len = s_len (pr_bin p)\<rparr>"
      "s_bytes \<lparr>s_v = Some (take (unat (s_len (pr_bin p))) v), s_len = s_len (pr_bin p)\<rparr> = s_bytes (pr_bin p)"
      using l by (simp_all add: string_ok_def s_bytes_def v_def)
    show ?thesis using MQTT_PROP_TYPE_BINARY ty ok assms(1) l s
      by (simp add: copy_property_def ret_def prop_ok_def prop_enc_def value_enc_def v_def [symmetric])
  qed (use ty ok assms(1) in \<open>simp_all add: copy_property_def ret_def prop_ok_def prop_enc_def value_enc_def\<close>)
qed

lemma copy_all_copyable:
  assumes "never_fails h" "list_all prop_ok ps" "list_all copyable ps"
  shows "\<exists>qs. mosquitto_property_copy_all ps h = (Ok qs, h) \<and> list_all prop_ok qs
    \<and> props_enc qs = props_enc ps \<and> map pr_identifier qs = map pr_identifier ps"
  using assms
proof (induction ps)
  case Nil
  then show ?case by (simp add: ret_def)
next
  case (Cons p ps)
  obtain q where q: "copy_property p h = (Ok q, h)" "prop_ok q" "prop_enc q = prop_enc p"
    "pr_identifier q = pr_identifier p"
    using copy_property_copyable [of h p] Cons.prems by auto
  obtain qs where "mosquitto_property_copy_all ps h = (Ok qs, h)" "list_all prop_ok qs"
    "props_enc qs = props_enc ps" "map pr_identifier qs = map pr_identifier ps"
    using Cons by auto
  with q show ?case by (simp add: then_do_def ret_def)
qed

text \<open>A string property without text is kept with a NULL pointer, which \<open>strdup\<close> is given.\<close>

lemma copy_property_null:
  assumes "never_fails h" "property_type (pr_identifier p) = Some MQTT_PROP_TYPE_STRING" "s_v (pr_s p) = None"
  shows "mosquitto_property_copy_all (p # ps) h = (Fault, h)"
  using assms by (simp add: copy_property_def then_do_def strdup_def fault_def)

end
