(* ===== verification/Topic.thy ===== *)
theory Topic
  imports Prelude
begin

text \<open>
  Topics and topic filters, util_topic.c: the checks of publish topics and subscription filters,
  and matching, each in the version for NUL-terminated strings (here the bytes before the NUL;
  a pointer into the string is the suffix it points to) and in the version for buffers with a
  length (here indices into the buffer, \<open>Fault\<close> outside it). The specification is MQTT's: both
  strings are split into levels, \<open>+\<close> matches one level, \<open>#\<close> the remaining ones.
\<close>

section \<open>The code\<close>

abbreviation (input) PLUS :: byte where "PLUS \<equiv> 43"
abbreviation (input) HASH :: byte where "HASH \<equiv> 35"
abbreviation (input) SLASH :: byte where "SLASH \<equiv> 47"
abbreviation (input) DOLLAR :: byte where "DOLLAR \<equiv> 36"

text \<open>\<open>str[0]\<close>, with the terminating NUL.\<close>

definition hd0 :: "byte list \<Rightarrow> byte" where
  "hd0 str = (case str of [] \<Rightarrow> 0 | c # _ \<Rightarrow> c)"

definition wild :: "byte \<Rightarrow> bool" where
  "wild c = (c = PLUS \<or> c = HASH)"

fun pub_topic_check_loop :: "byte list \<Rightarrow> nat \<Rightarrow> nat res" where
  "pub_topic_check_loop [] len = Ok len"
| "pub_topic_check_loop (c # str) len =
     (if wild c then Err MOSQ_ERR_INVAL else pub_topic_check_loop str (len + 1))"

definition mosquitto_pub_topic_check :: "byte list option \<Rightarrow> unit res" where
  "mosquitto_pub_topic_check str =
     (case str of
        None \<Rightarrow> Err MOSQ_ERR_INVAL
      | Some s \<Rightarrow>
          (case pub_topic_check_loop s 0 of
             Ok len \<Rightarrow> (if len > 65535 then Err MOSQ_ERR_INVAL else Ok ())
           | Err e \<Rightarrow> Err e
           | Fault \<Rightarrow> Fault))"

text \<open>\<open>for(i=0; i<len; i++)\<close>, with \<open>n\<close> rounds left.\<close>

fun pub_topic_check2_loop :: "byte list \<Rightarrow> nat \<Rightarrow> nat \<Rightarrow> unit res" where
  "pub_topic_check2_loop str i 0 = Ok ()"
| "pub_topic_check2_loop str i (Suc n) =
     (if length str \<le> i then Fault
      else if wild (str ! i) then Err MOSQ_ERR_INVAL
      else pub_topic_check2_loop str (Suc i) n)"

definition mosquitto_pub_topic_check2 :: "byte list option \<Rightarrow> nat \<Rightarrow> unit res" where
  "mosquitto_pub_topic_check2 str len =
     (case str of
        None \<Rightarrow> Err MOSQ_ERR_INVAL
      | Some s \<Rightarrow> (if len > 65535 then Err MOSQ_ERR_INVAL else pub_topic_check2_loop s 0 len))"

fun sub_topic_check_loop :: "byte list \<Rightarrow> byte \<Rightarrow> nat \<Rightarrow> nat res" where
  "sub_topic_check_loop [] c len = Ok len"
| "sub_topic_check_loop (s # str) c len =
     (if s = PLUS \<and> ((c \<noteq> 0 \<and> c \<noteq> SLASH) \<or> (hd0 str \<noteq> 0 \<and> hd0 str \<noteq> SLASH)) then Err MOSQ_ERR_INVAL
      else if s = HASH \<and> ((c \<noteq> 0 \<and> c \<noteq> SLASH) \<or> hd0 str \<noteq> 0) then Err MOSQ_ERR_INVAL
      else sub_topic_check_loop str s (len + 1))"

definition mosquitto_sub_topic_check :: "byte list option \<Rightarrow> unit res" where
  "mosquitto_sub_topic_check str =
     (case str of
        None \<Rightarrow> Err MOSQ_ERR_INVAL
      | Some s \<Rightarrow>
          (case sub_topic_check_loop s 0 0 of
             Ok len \<Rightarrow> (if len > 65535 then Err MOSQ_ERR_INVAL else Ok ())
           | Err e \<Rightarrow> Err e
           | Fault \<Rightarrow> Fault))"

fun sub_topic_check2_loop :: "byte list \<Rightarrow> nat \<Rightarrow> byte \<Rightarrow> nat \<Rightarrow> nat \<Rightarrow> unit res" where
  "sub_topic_check2_loop str len c i 0 = Ok ()"
| "sub_topic_check2_loop str len c i (Suc n) =
     (if length str \<le> i \<or> (i + 1 < len \<and> length str \<le> i + 1) then Fault
      else if str ! i = PLUS \<and> ((c \<noteq> 0 \<and> c \<noteq> SLASH) \<or> (i < len - 1 \<and> str ! (i + 1) \<noteq> SLASH))
      then Err MOSQ_ERR_INVAL
      else if str ! i = HASH \<and> ((c \<noteq> 0 \<and> c \<noteq> SLASH) \<or> i < len - 1) then Err MOSQ_ERR_INVAL
      else sub_topic_check2_loop str len (str ! i) (Suc i) n)"

definition mosquitto_sub_topic_check2 :: "byte list option \<Rightarrow> nat \<Rightarrow> unit res" where
  "mosquitto_sub_topic_check2 str len =
     (case str of
        None \<Rightarrow> Err MOSQ_ERR_INVAL
      | Some s \<Rightarrow>
          (if len > 65535 then Err MOSQ_ERR_INVAL else sub_topic_check2_loop s len 0 0 len))"

text \<open>\<open>while(topic[0] != 0 && topic[0] != '/')\<close>: the rest of the topic, or a wildcard in it.\<close>

fun skip_level :: "byte list \<Rightarrow> byte list res" where
  "skip_level [] = Ok []"
| "skip_level (t # topic) =
     (if t = SLASH then Ok (t # topic)
      else if wild t then Err MOSQ_ERR_INVAL
      else skip_level topic)"

text \<open>\<open>while(sub[0] != 0){ if(sub[0] == '#' && sub[1] != 0) return MOSQ_ERR_INVAL; ... }\<close>\<close>

fun inner_hash :: "byte list \<Rightarrow> bool" where
  "inner_hash [] = False"
| "inner_hash (s # sub) = (if s = HASH \<and> hd0 sub \<noteq> 0 then True else inner_hash sub)"

text \<open>
  The \<open>while(sub[0] != 0)\<close> loop and what follows it. \<open>prev\<close> is \<open>sub[-1]\<close>, \<open>None\<close> where
  \<open>spos\<close> is 0.
\<close>

fun matches_sub_loop :: "byte option \<Rightarrow> byte list \<Rightarrow> byte list \<Rightarrow> bool res" where
  "matches_sub_loop prev [] topic =
     (if list_ex wild topic then Err MOSQ_ERR_INVAL else Ok False)"
| "matches_sub_loop prev (s # sub) topic =
     (if wild (hd0 topic) then Err MOSQ_ERR_INVAL
      else if s \<noteq> hd0 topic \<or> hd0 topic = 0 then
        (if s = PLUS then
           (if prev \<noteq> None \<and> prev \<noteq> Some SLASH then Err MOSQ_ERR_INVAL
            else if hd0 sub \<noteq> 0 \<and> hd0 sub \<noteq> SLASH then Err MOSQ_ERR_INVAL
            else case skip_level topic of
                Err e \<Rightarrow> Err e
              | Fault \<Rightarrow> Fault
              | Ok topic' \<Rightarrow>
                  (if hd0 topic' = 0 \<and> hd0 sub = 0 then Ok True
                   else matches_sub_loop (Some s) sub topic'))
         else if s = HASH then
           (if prev \<noteq> None \<and> prev \<noteq> Some SLASH then Err MOSQ_ERR_INVAL
            else if hd0 sub \<noteq> 0 then Err MOSQ_ERR_INVAL
            else if list_ex wild topic then Err MOSQ_ERR_INVAL
            else Ok True)
         else if hd0 topic = 0 \<and> prev = Some PLUS \<and> s = SLASH \<and> hd0 sub = HASH then Ok True
         else if inner_hash (s # sub) then Err MOSQ_ERR_INVAL
         else Ok False)
      else if hd0 (tl topic) = 0 \<and> hd0 sub = SLASH \<and> hd0 (tl sub) = HASH \<and> hd0 (tl (tl sub)) = 0
      then Ok True
      else if hd0 sub = 0 \<and> hd0 (tl topic) = 0 then Ok True
      else if hd0 (tl topic) = 0 \<and> hd0 sub = PLUS \<and> hd0 (tl sub) = 0 then
        (if s \<noteq> SLASH then Err MOSQ_ERR_INVAL else Ok True)
      else matches_sub_loop (Some s) sub (tl topic))"

definition mosquitto_topic_matches_sub :: "byte list option \<Rightarrow> byte list option \<Rightarrow> bool res" where
  "mosquitto_topic_matches_sub sub topic =
     (case (sub, topic) of
        (Some s, Some t) \<Rightarrow>
          (if hd0 s = 0 \<or> hd0 t = 0 then Err MOSQ_ERR_INVAL
           else if (hd0 s = DOLLAR \<and> hd0 t \<noteq> DOLLAR) \<or> (hd0 t = DOLLAR \<and> hd0 s \<noteq> DOLLAR) then Ok False
           else matches_sub_loop None s t)
      | _ \<Rightarrow> Err MOSQ_ERR_INVAL)"

text \<open>
  The version with lengths. \<open>n\<close> bounds the rounds of a loop that counts an index up to a
  length; an access is checked against the buffer by \<open>at\<close>.
\<close>

definition at :: "byte list \<Rightarrow> nat \<Rightarrow> byte res" where
  "at buf i = (if i < length buf then Ok (buf ! i) else Fault)"

text \<open>\<open>while(tpos < topiclen && (stop or topic[tpos] != '/'))\<close>: the index it ends at.\<close>

fun scan_topic :: "bool \<Rightarrow> byte list \<Rightarrow> nat \<Rightarrow> nat \<Rightarrow> nat res" where
  "scan_topic to_slash topic tpos 0 = Ok tpos"
| "scan_topic to_slash topic tpos (Suc n) =
     (case at topic tpos of
        Ok t \<Rightarrow>
          (if to_slash \<and> t = SLASH then Ok tpos
           else if wild t then Err MOSQ_ERR_INVAL
           else scan_topic to_slash topic (Suc tpos) n)
      | Err e \<Rightarrow> Err e
      | Fault \<Rightarrow> Fault)"

fun scan_sub :: "byte list \<Rightarrow> nat \<Rightarrow> nat \<Rightarrow> nat \<Rightarrow> bool res" where
  "scan_sub sub sublen spos 0 = Ok False"
| "scan_sub sub sublen spos (Suc n) =
     (case at sub spos of
        Ok s \<Rightarrow>
          (if s = HASH \<and> spos + 1 < sublen then Err MOSQ_ERR_INVAL
           else scan_sub sub sublen (Suc spos) n)
      | Err e \<Rightarrow> Err e
      | Fault \<Rightarrow> Fault)"

text \<open>Every round of the outer loop moves \<open>spos\<close> on, so \<open>sublen\<close> rounds are enough; \<open>n\<close> is the
  rounds left and equals \<open>sublen - spos\<close>.\<close>

fun matches_sub2_loop ::
  "byte list \<Rightarrow> nat \<Rightarrow> byte list \<Rightarrow> nat \<Rightarrow> nat \<Rightarrow> nat \<Rightarrow> nat \<Rightarrow> bool res"
where
  "matches_sub2_loop sub sublen topic topiclen 0 spos tpos =
     (case scan_topic False topic tpos (topiclen - tpos) of
        Ok _ \<Rightarrow> Ok False | Err e \<Rightarrow> Err e | Fault \<Rightarrow> Fault)"
| "matches_sub2_loop sub sublen topic topiclen (Suc n) spos tpos =
     (if length sub < sublen \<or> length topic < topiclen then Fault
      else if tpos < topiclen \<and> wild (topic ! tpos) then Err MOSQ_ERR_INVAL
      else if tpos = topiclen \<or> sub ! spos \<noteq> topic ! tpos then
        (if sub ! spos = PLUS then
           (if spos > 0 \<and> sub ! (spos - 1) \<noteq> SLASH then Err MOSQ_ERR_INVAL
            else if spos + 1 < sublen \<and> sub ! (spos + 1) \<noteq> SLASH then Err MOSQ_ERR_INVAL
            else case scan_topic True topic tpos (topiclen - tpos) of
                Err e \<Rightarrow> Err e
              | Fault \<Rightarrow> Fault
              | Ok tpos' \<Rightarrow>
                  (if tpos' = topiclen \<and> spos + 1 = sublen then Ok True
                   else matches_sub2_loop sub sublen topic topiclen n (spos + 1) tpos'))
         else if sub ! spos = HASH then
           (if spos > 0 \<and> sub ! (spos - 1) \<noteq> SLASH then Err MOSQ_ERR_INVAL
            else if spos + 1 < sublen then Err MOSQ_ERR_INVAL
            else case scan_topic False topic tpos (topiclen - tpos) of
                Err e \<Rightarrow> Err e
              | Fault \<Rightarrow> Fault
              | Ok _ \<Rightarrow> Ok True)
         else if tpos = topiclen \<and> spos > 0 \<and> sub ! (spos - 1) = PLUS \<and> sub ! spos = SLASH
              \<and> spos + 1 < sublen \<and> sub ! (spos + 1) = HASH then Ok True
         else scan_sub sub sublen spos (sublen - spos))
      else if tpos + 1 = topiclen \<and> spos + 3 = sublen \<and> sub ! (spos + 1) = SLASH
           \<and> sub ! (spos + 2) = HASH then Ok True
      else if spos + 1 = sublen \<and> tpos + 1 = topiclen then Ok True
      else if tpos + 1 = topiclen \<and> sub ! (spos + 1) = PLUS \<and> spos + 2 = sublen then
        (if sub ! spos \<noteq> SLASH then Err MOSQ_ERR_INVAL else Ok True)
      else matches_sub2_loop sub sublen topic topiclen n (spos + 1) (tpos + 1))"

definition mosquitto_topic_matches_sub2 ::
  "byte list option \<Rightarrow> nat \<Rightarrow> byte list option \<Rightarrow> nat \<Rightarrow> bool res"
where
  "mosquitto_topic_matches_sub2 sub sublen topic topiclen =
     (case (sub, topic) of
        (Some s, Some t) \<Rightarrow>
          (if sublen = 0 \<or> topiclen = 0 then Err MOSQ_ERR_INVAL
           else if s = [] \<or> t = [] then Fault
           else if (s ! 0 = DOLLAR \<and> t ! 0 \<noteq> DOLLAR) \<or> (t ! 0 = DOLLAR \<and> s ! 0 \<noteq> DOLLAR) then Ok False
           else matches_sub2_loop s sublen t topiclen sublen 0 0)
      | _ \<Rightarrow> Err MOSQ_ERR_INVAL)"

section \<open>The specification\<close>

fun levels :: "byte list \<Rightarrow> byte list list" where
  "levels [] = [[]]"
| "levels (c # cs) = (if c = SLASH then [] # levels cs else (c # hd (levels cs)) # tl (levels cs))"

fun levels_match :: "byte list list \<Rightarrow> byte list list \<Rightarrow> bool" where
  "levels_match [] ts = (ts = [])"
| "levels_match (f # fs) ts =
     (if f = [HASH] then True
      else case ts of [] \<Rightarrow> False | t # ts' \<Rightarrow> (f = [PLUS] \<or> f = t) \<and> levels_match fs ts')"

definition filter_matches :: "byte list \<Rightarrow> byte list \<Rightarrow> bool" where
  "filter_matches sub topic =
     ((hd0 sub = DOLLAR) = (hd0 topic = DOLLAR) \<and> levels_match (levels sub) (levels topic))"

text \<open>A filter is valid when a level with a wildcard is just that wildcard, and \<open>#\<close> is last.\<close>

definition filter_valid :: "byte list \<Rightarrow> bool" where
  "filter_valid sub =
     ((\<forall>l \<in> set (levels sub). list_ex wild l \<longrightarrow> l = [PLUS] \<or> l = [HASH])
      \<and> [HASH] \<notin> set (butlast (levels sub)))"

section \<open>The checks\<close>

lemma pub_topic_check_loop_eq:
  "pub_topic_check_loop s len = (if list_ex wild s then Err MOSQ_ERR_INVAL else Ok (len + length s))"
  by (induction s arbitrary: len) simp_all

lemma mosquitto_pub_topic_check_eq:
  "mosquitto_pub_topic_check (Some s) =
   (if list_ex wild s \<or> length s > 65535 then Err MOSQ_ERR_INVAL else Ok ())"
  by (simp add: mosquitto_pub_topic_check_def pub_topic_check_loop_eq)

lemma pub_topic_check2_loop_eq:
  "i + n \<le> length s \<Longrightarrow> pub_topic_check2_loop s i n =
   (if list_ex wild (take n (drop i s)) then Err MOSQ_ERR_INVAL else Ok ())"
proof (induction n arbitrary: i)
  case (Suc n)
  have "drop i s = s ! i # drop (Suc i) s" using Suc.prems by (simp add: Cons_nth_drop_Suc)
  then show ?case using Suc by simp
qed simp

lemma mosquitto_pub_topic_check2_eq:
  "mosquitto_pub_topic_check2 (Some s) (length s) = mosquitto_pub_topic_check (Some s)"
  by (simp add: mosquitto_pub_topic_check2_def mosquitto_pub_topic_check_eq pub_topic_check2_loop_eq)

text \<open>Validity of the rest of a filter, at the start of a level or inside one.\<close>

fun rest_valid :: "bool \<Rightarrow> byte list \<Rightarrow> bool" where
  "rest_valid start [] = True"
| "rest_valid start (s # sub) =
     ((s = PLUS \<longrightarrow> start \<and> (sub = [] \<or> hd sub = SLASH))
      \<and> (s = HASH \<longrightarrow> start \<and> sub = []) \<and> rest_valid (s = SLASH) sub)"

lemma wild_consts [simp]: "wild PLUS" "wild HASH" "\<not> wild SLASH" "\<not> wild 0"
  by (simp_all add: wild_def)

lemma levels_ne [simp]: "levels s \<noteq> []"
  by (induction s) simp_all

lemma levels_hd_tl: "hd (levels s) # tl (levels s) = levels s"
  by simp

lemma hd_levels_Nil: "hd (levels s) = [] \<longleftrightarrow> s = [] \<or> hd s = SLASH"
  by (cases s) simp_all

lemma levels_eq_Nil: "levels s = [[]] \<longleftrightarrow> s = []"
  by (cases s) simp_all

definition levels_valid :: "byte list list \<Rightarrow> bool" where
  "levels_valid ls =
     ((\<forall>l \<in> set ls. list_ex wild l \<longrightarrow> l = [PLUS] \<or> l = [HASH]) \<and> [HASH] \<notin> set (butlast ls))"

lemma levels_valid_Nil [simp]: "levels_valid []"
  by (simp add: levels_valid_def)

lemma levels_valid_Cons:
  "levels_valid (l # ls) \<longleftrightarrow>
   (list_ex wild l \<longrightarrow> l = [PLUS] \<or> l = [HASH]) \<and> (l = [HASH] \<longrightarrow> ls = []) \<and> levels_valid ls"
  by (auto simp: levels_valid_def)

lemma rest_valid_levels:
  "rest_valid True s = levels_valid (levels s)"
  "rest_valid False s = (\<not> list_ex wild (hd (levels s)) \<and> levels_valid (tl (levels s)))"
proof (induction s)
  case Nil
  case 1 show ?case by (simp add: levels_valid_Cons)
  case 2 show ?case by simp
next
  case (Cons c cs)
  obtain l ls where l: "levels cs = l # ls" using levels_ne [of cs] by (cases "levels cs") auto
  have n: "l = [] \<longleftrightarrow> cs = [] \<or> hd cs = SLASH" using hd_levels_Nil [of cs] l by simp
  have n2: "l = [] \<and> ls = [] \<longleftrightarrow> cs = []" using levels_eq_Nil [of cs] l by auto
  have IH: "rest_valid True cs = levels_valid (l # ls)"
    "rest_valid False cs = (\<not> list_ex wild l \<and> levels_valid ls)"
    using Cons.IH l by simp_all
  consider "c = SLASH" | "c = PLUS" | "c = HASH" | "c \<noteq> SLASH" "c \<noteq> PLUS" "c \<noteq> HASH" "\<not> wild c"
    by (auto simp: wild_def)
  note cases = this
  case 1
  show ?case
    by (rule cases) (use l IH n n2 in \<open>auto simp: levels_valid_Cons\<close>)
  case 2
  show ?case
    by (rule cases) (use l IH n n2 in \<open>auto simp: levels_valid_Cons\<close>)
qed

lemma filter_valid_rest: "filter_valid s = rest_valid True s"
  by (simp add: filter_valid_def rest_valid_levels levels_valid_def)

lemma hd0_simps [simp]: "hd0 [] = 0" "hd0 (c # cs) = c"
  by (simp_all add: hd0_def)

lemma hd0_eq_0: "0 \<notin> set s \<Longrightarrow> hd0 s = 0 \<longleftrightarrow> s = []"
  by (cases s) auto

lemma not_in_tl: "x \<notin> set s \<Longrightarrow> x \<notin> set (tl s)"
  by (cases s) simp_all

lemma sub_topic_check_loop_eq:
  "0 \<notin> set s \<Longrightarrow> sub_topic_check_loop s c len =
   (if rest_valid (c = 0 \<or> c = SLASH) s then Ok (len + length s) else Err MOSQ_ERR_INVAL)"
proof (induction s arbitrary: c len)
  case (Cons x s)
  then have "hd0 s \<noteq> 0 \<longleftrightarrow> s \<noteq> []" "s \<noteq> [] \<Longrightarrow> hd0 s = hd s" "x \<noteq> 0"
    by (auto simp: hd0_eq_0) (cases s; simp)
  with Cons show ?case by auto
qed simp

lemma mosquitto_sub_topic_check_eq:
  "0 \<notin> set s \<Longrightarrow> mosquitto_sub_topic_check (Some s) =
   (if filter_valid s \<and> length s \<le> 65535 then Ok () else Err MOSQ_ERR_INVAL)"
  by (auto simp: mosquitto_sub_topic_check_def sub_topic_check_loop_eq filter_valid_rest)

lemma sub_topic_check2_loop_eq:
  assumes "i + n = length s" "0 \<notin> set s"
  shows "sub_topic_check2_loop s (length s) c i n =
   (if rest_valid (c = 0 \<or> c = SLASH) (drop i s) then Ok () else Err MOSQ_ERR_INVAL)"
  using assms(1)
proof (induction n arbitrary: c i)
  case (Suc n)
  have d: "drop i s = s ! i # drop (Suc i) s" using Suc.prems by (simp add: Cons_nth_drop_Suc)
  have e: "drop (Suc i) s \<noteq> [] \<longleftrightarrow> i < length s - 1" using Suc.prems by auto
  have h: "i < length s - 1 \<Longrightarrow> hd (drop (Suc i) s) = s ! (i + 1)" by (simp add: hd_drop_conv_nth)
  have z: "s ! i \<noteq> 0" using assms(2) Suc.prems by (metis nth_mem add_Suc_right le_add1 less_Suc_eq_le)
  have "sub_topic_check2_loop s (length s) (s ! i) (Suc i) n =
   (if rest_valid (s ! i = 0 \<or> s ! i = SLASH) (drop (Suc i) s) then Ok () else Err MOSQ_ERR_INVAL)"
    using Suc.prems by (intro Suc.IH) simp
  then show ?case using Suc.prems e h z unfolding d by auto
qed simp

lemma mosquitto_sub_topic_check2_eq:
  "0 \<notin> set s \<Longrightarrow> mosquitto_sub_topic_check2 (Some s) (length s) = mosquitto_sub_topic_check (Some s)"
  by (auto simp: mosquitto_sub_topic_check2_def mosquitto_sub_topic_check_eq sub_topic_check2_loop_eq
      filter_valid_rest)

section \<open>Matching\<close>

lemma rest_valid_inner_hash: "rest_valid b s \<Longrightarrow> \<not> inner_hash s"
  by (induction s arbitrary: b) auto

lemma skip_level_ok:
  "\<not> list_ex wild t \<Longrightarrow> \<exists>t'. skip_level t = Ok t' \<and> levels t' = [] # tl (levels t)
     \<and> \<not> list_ex wild t' \<and> set t' \<subseteq> set t"
proof (induction t)
  case (Cons c t)
  then show ?case by (cases "c = SLASH") auto
qed simp

text \<open>Matching the rest of a filter with the rest of a topic.\<close>

definition rest_match :: "bool \<Rightarrow> byte list list \<Rightarrow> byte list list \<Rightarrow> bool" where
  "rest_match start ls ts =
     (if start then levels_match ls ts else hd ls = hd ts \<and> levels_match (tl ls) (tl ts))"

lemma rest_match_step:
  assumes "\<not> wild c"
  shows "rest_match st (levels (c # s)) (levels (c # t)) = rest_match (c = SLASH) (levels s) (levels t)"
  using assms by (auto simp: rest_match_def wild_def)

lemma rest_match_mismatch:
  assumes "\<not> wild s" "s \<noteq> hd0 topic" "s \<noteq> 0"
    and "topic = [] \<longrightarrow> \<not> (s = SLASH \<and> hd (levels sub) = [HASH])"
  shows "\<not> rest_match st (levels (s # sub)) (levels topic)"
proof -
  obtain l ls where l: "levels sub = l # ls" using levels_ne [of sub] by (cases "levels sub") auto
  show ?thesis
    using assms l by (cases topic) (auto simp: rest_match_def wild_def)
qed

definition loop_inv :: "byte option \<Rightarrow> byte list \<Rightarrow> byte list \<Rightarrow> bool" where
  "loop_inv prev sub topic =
     ((sub \<noteq> [] \<or> topic \<noteq> []) \<and> (topic = [] \<and> sub = [SLASH, HASH] \<longrightarrow> prev = Some PLUS))"

lemma hd_levels_hash:
  assumes "rest_valid True s" "hd (levels s) = [HASH]"
  shows "s = [HASH]"
proof (cases s)
  case Nil
  then show ?thesis using assms by simp
next
  case (Cons c cs)
  then have "c = HASH" using assms(2) by (simp split: if_splits)
  then show ?thesis using assms(1) Cons by simp
qed

lemma matches_sub_loop_eq:
  assumes "rest_valid (prev = None \<or> prev = Some SLASH) sub" "0 \<notin> set sub" "0 \<notin> set topic"
    "\<not> list_ex wild topic" "loop_inv prev sub topic"
  shows "matches_sub_loop prev sub topic =
    Ok (rest_match (prev = None \<or> prev = Some SLASH) (levels sub) (levels topic))"
  using assms
proof (induction sub arbitrary: prev topic)
  case Nil
  then obtain t ts where "topic = t # ts" by (cases topic) (auto simp: loop_inv_def)
  then show ?case using Nil.prems by (auto simp: rest_match_def)
next
  case (Cons s sub)
  define st where "st = (prev = None \<or> prev = Some SLASH)"
  have nw: "\<not> wild (hd0 topic)" using Cons.prems(4) by (cases topic) (auto simp: wild_def)
  have h0: "hd0 topic = 0 \<longleftrightarrow> topic = []" "hd0 sub = 0 \<longleftrightarrow> sub = []" "s \<noteq> 0"
    using Cons.prems(2,3) by (auto simp: hd0_eq_0)
  have hs: "sub \<noteq> [] \<Longrightarrow> hd0 sub = hd sub" by (cases sub) simp_all
  have v: "rest_valid (s = SLASH) sub" using Cons.prems(1) by simp
  consider (plus) "s = PLUS" | (hash) "s = HASH" | (diff) "\<not> wild s" "s \<noteq> hd0 topic"
    | (eq) t where "\<not> wild s" "topic = s # t"
    using h0(3) by (cases topic) (auto simp: wild_def)
  then show ?case
  proof cases
    case plus
    have ne: "s \<noteq> hd0 topic" using plus nw by (auto simp: wild_def)
    obtain t' where t': "skip_level topic = Ok t'" "levels t' = [] # tl (levels topic)"
      "\<not> list_ex wild t'" "set t' \<subseteq> set topic"
      using skip_level_ok [OF Cons.prems(4)] by blast
    have t0: "0 \<notin> set t'" using t'(4) Cons.prems(3) by blast
    have sub: "sub = [] \<or> hd sub = SLASH" and st: "st" using Cons.prems(1) plus by (auto simp: st_def)
    then have hl: "hd (levels sub) = []" by (simp add: hd_levels_Nil)
    have m: "rest_match True (levels (s # sub)) (levels topic) = rest_match False (levels sub) (levels t')"
      using plus hl t'(2) by (cases "levels topic") (auto simp: rest_match_def)
    show ?thesis
    proof (cases "t' = [] \<and> sub = []")
      case True
      then show ?thesis using ne plus nw t'(1) sub st m hs unfolding st_def [symmetric]
        by (auto simp: rest_match_def st_def)
    next
      case False
      have "matches_sub_loop (Some s) sub t' = Ok (rest_match False (levels sub) (levels t'))"
        using Cons.IH [of "Some s" t'] v plus Cons.prems(2) t0 t'(3) False by (auto simp: loop_inv_def)
      then show ?thesis using False ne plus nw t'(1) sub st m hs h0 hd0_eq_0 [OF t0]
        unfolding st_def [symmetric] by (auto simp: st_def)
    qed
  next
    case hash
    then have "sub = []" "st" "s \<noteq> hd0 topic" using Cons.prems(1) nw by (auto simp: st_def wild_def)
    then show ?thesis using hash nw Cons.prems(4) by (auto simp: rest_match_def st_def)
  next
    case diff
    have nh: "\<not> inner_hash (s # sub)" by (rule rest_valid_inner_hash [OF Cons.prems(1)])
    have np: "s \<noteq> PLUS" "s \<noteq> HASH" using diff(1) by (auto simp: wild_def)
    show ?thesis
    proof (cases "topic = [] \<and> prev = Some PLUS \<and> s = SLASH \<and> hd0 sub = HASH")
      case True
      then have "sub = [HASH]" using v by (cases sub) auto
      then show ?thesis using True nw by (simp add: rest_match_def wild_def)
    next
      case False
      have "topic = [] \<longrightarrow> \<not> (s = SLASH \<and> hd (levels sub) = [HASH])"
        using hd_levels_hash [of sub] v Cons.prems(5) False by (auto simp: loop_inv_def)
      then have "\<not> rest_match st (levels (s # sub)) (levels topic)"
        using diff h0(3) by (intro rest_match_mismatch)
      then show ?thesis using False diff nw nh np h0 by (auto simp: st_def)
    qed
  next
    case eq
    have np: "s \<noteq> PLUS" "s \<noteq> HASH" using eq(1) by (auto simp: wild_def)
    have m: "rest_match st (levels (s # sub)) (levels topic) = rest_match (s = SLASH) (levels sub) (levels t)"
      unfolding eq(2) by (rule rest_match_step [OF eq(1)])
    have t0: "0 \<notin> set t" "hd0 t = 0 \<longleftrightarrow> t = []" "\<not> list_ex wild t"
      using Cons.prems(3,4) eq(2) by (auto simp: hd0_eq_0)
    have tails: "0 \<notin> set (tl sub)" "0 \<notin> set (tl (tl sub))"
      using Cons.prems(2) by (simp_all add: not_in_tl)
    consider (parent) "t = []" "sub = [SLASH, HASH]" | (both) "t = []" "sub = []"
      | (last) "t = []" "sub = [PLUS]"
      | (more) "\<not> (t = [] \<and> sub \<in> {[], [SLASH, HASH], [PLUS]})" by blast
    then show ?thesis
    proof cases
      case parent
      then show ?thesis using eq nw m h0 unfolding st_def by (simp add: rest_match_def)
    next
      case both
      then show ?thesis using eq nw m h0 unfolding st_def by (simp add: rest_match_def)
    next
      case last
      then show ?thesis using eq nw m h0 v unfolding st_def by (simp add: rest_match_def)
    next
      case more
      have a: "\<not> (hd0 t = 0 \<and> hd0 sub = SLASH \<and> hd0 (tl sub) = HASH \<and> hd0 (tl (tl sub)) = 0)"
        using more t0(2) tails hd0_eq_0 [OF tails(2)]
        by (cases sub; cases "tl sub") auto
      have b: "\<not> (hd0 sub = 0 \<and> hd0 t = 0)" "\<not> (hd0 t = 0 \<and> hd0 sub = PLUS \<and> hd0 (tl sub) = 0)"
        using more t0(2) h0 hd0_eq_0 [OF tails(1)] by (cases sub; auto)+
      have "matches_sub_loop (Some s) sub t = Ok (rest_match (s = SLASH) (levels sub) (levels t))"
        using Cons.IH [of "Some s" t] v Cons.prems(2) t0 more by (auto simp: loop_inv_def)
      moreover have "\<not> wild (hd0 (s # t))" "hd0 (s # t) = s" "tl (s # t) = t"
        using eq by simp_all
      then have "matches_sub_loop prev (s # sub) topic = matches_sub_loop (Some s) sub t"
        unfolding matches_sub_loop.simps eq(2) by (simp only: a b h0(3) if_False simp_thms)
      ultimately show ?thesis using m unfolding st_def by simp
    qed
  qed
qed

lemma mosquitto_topic_matches_sub_eq:
  assumes "filter_valid sub" "\<not> list_ex wild topic" "sub \<noteq> []" "topic \<noteq> []" "0 \<notin> set sub" "0 \<notin> set topic"
  shows "mosquitto_topic_matches_sub (Some sub) (Some topic) = Ok (filter_matches sub topic)"
  using assms matches_sub_loop_eq [of None sub topic]
  by (auto simp: mosquitto_topic_matches_sub_def filter_matches_def filter_valid_rest hd0_eq_0
      loop_inv_def rest_match_def)

section \<open>The two versions of the matcher agree\<close>

lemma scan_topic_stop:
  "i + n = length t \<Longrightarrow> scan_topic False t i n =
   (if list_ex wild (drop i t) then Err MOSQ_ERR_INVAL else Ok (length t))"
proof (induction n arbitrary: i)
  case (Suc n)
  have "drop i t = t ! i # drop (Suc i) t" using Suc.prems by (simp add: Cons_nth_drop_Suc)
  then show ?case using Suc by (simp add: at_def)
qed simp

lemma scan_topic_level:
  "i + n = length t \<Longrightarrow> (case scan_topic True t i n of
      Ok j \<Rightarrow> skip_level (drop i t) = Ok (drop j t) \<and> i \<le> j \<and> j \<le> length t
    | Err e \<Rightarrow> skip_level (drop i t) = Err e
    | Fault \<Rightarrow> False)"
proof (induction n arbitrary: i)
  case (Suc n)
  have "drop i t = t ! i # drop (Suc i) t" using Suc.prems by (simp add: Cons_nth_drop_Suc)
  moreover have "case scan_topic True t (Suc i) n of
      Ok j \<Rightarrow> skip_level (drop (Suc i) t) = Ok (drop j t) \<and> Suc i \<le> j \<and> j \<le> length t
    | Err e \<Rightarrow> skip_level (drop (Suc i) t) = Err e
    | Fault \<Rightarrow> False"
    using Suc.prems by (intro Suc.IH) simp
  ultimately show ?case using Suc.prems by (auto simp: at_def split: res.splits)
qed simp

lemma scan_sub_eq:
  "i + n = length s \<Longrightarrow> 0 \<notin> set s \<Longrightarrow> scan_sub s (length s) i n =
   (if inner_hash (drop i s) then Err MOSQ_ERR_INVAL else Ok False)"
proof (induction n arbitrary: i)
  case (Suc n)
  have d: "drop i s = s ! i # drop (Suc i) s" using Suc.prems by (simp add: Cons_nth_drop_Suc)
  have "0 \<notin> set (drop (Suc i) s)" using Suc.prems(2) by (meson in_set_dropD)
  then have "hd0 (drop (Suc i) s) = 0 \<longleftrightarrow> \<not> i + 1 < length s" by (simp add: hd0_eq_0) linarith
  then show ?case using Suc d by (simp add: at_def)
qed simp

lemma hd0_drop: "hd0 (drop i s) = (if i < length s then s ! i else 0)"
  by (simp add: hd0_def Cons_nth_drop_Suc [symmetric] split: list.split)

lemma nth_zero: "0 \<notin> set s \<Longrightarrow> i < length s \<Longrightarrow> s ! i \<noteq> 0"
  by (metis nth_mem)

lemma matches_sub2_loop_eq:
  assumes "0 \<notin> set sub" "0 \<notin> set topic" "n = length sub - spos" "spos \<le> length sub" "tpos \<le> length topic"
  shows "matches_sub2_loop sub (length sub) topic (length topic) n spos tpos =
    matches_sub_loop (if spos = 0 then None else Some (sub ! (spos - 1))) (drop spos sub) (drop tpos topic)"
  using assms
proof (induction n arbitrary: spos tpos)
  case 0
  then show ?case by (simp add: scan_topic_stop)
next
  case (Suc n)
  define prev where "prev = (if spos = 0 then None else Some (sub ! (spos - 1)))"
  have sp: "spos < length sub" using Suc.prems by simp
  have d: "drop spos sub = sub ! spos # drop (spos + 1) sub" using sp by (simp add: Cons_nth_drop_Suc)
  have tlt: "tl (drop tpos topic) = drop (tpos + 1) topic" by (simp add: tl_drop drop_Suc)
  have tls: "tl (drop i sub) = drop (Suc i) sub" for i
    by (simp add: tl_drop drop_Suc)
  have z: "i < length sub \<Longrightarrow> sub ! i \<noteq> 0" "j < length topic \<Longrightarrow> topic ! j \<noteq> 0" for i j
    using Suc.prems(1,2) by (simp_all add: nth_zero)
  have pv: "prev \<noteq> None \<and> prev \<noteq> Some SLASH \<longleftrightarrow> spos > 0 \<and> sub ! (spos - 1) \<noteq> SLASH"
    "prev = Some PLUS \<longleftrightarrow> spos > 0 \<and> sub ! (spos - 1) = PLUS"
    by (auto simp: prev_def)
  have IH: "matches_sub2_loop sub (length sub) topic (length topic) n (spos + 1) tp =
      matches_sub_loop (Some (sub ! spos)) (drop (spos + 1) sub) (drop tp topic)" if "tp \<le> length topic" for tp
  proof -
    have "n = length sub - (spos + 1)" using Suc.prems(3) by simp
    then show ?thesis using Suc.IH [of "spos + 1" tp] Suc.prems(1,2) sp that by simp
  qed
  have stop: "scan_topic False topic tpos (length topic - tpos) =
      (if list_ex wild (drop tpos topic) then Err MOSQ_ERR_INVAL else Ok (length topic))"
    using Suc.prems(5) by (intro scan_topic_stop) simp
  have sub: "scan_sub sub (length sub) spos (length sub - spos) =
      (if inner_hash (drop spos sub) then Err MOSQ_ERR_INVAL else Ok False)"
    using sp Suc.prems(1) by (intro scan_sub_eq) simp_all
  have level: "case scan_topic True topic tpos (length topic - tpos) of
      Ok j \<Rightarrow> skip_level (drop tpos topic) = Ok (drop j topic) \<and> tpos \<le> j \<and> j \<le> length topic
    | Err e \<Rightarrow> skip_level (drop tpos topic) = Err e
    | Fault \<Rightarrow> False"
    using Suc.prems(5) by (intro scan_topic_level) simp
  define ss tt where "ss = drop (spos + 1) sub" and "tt = drop tpos topic"
  have h: "hd0 tt = (if tpos < length topic then topic ! tpos else 0)"
    "hd0 (tl tt) = (if tpos + 1 < length topic then topic ! (tpos + 1) else 0)"
    "hd0 ss = (if spos + 1 < length sub then sub ! (spos + 1) else 0)"
    "hd0 (tl ss) = (if spos + 2 < length sub then sub ! (spos + 2) else 0)"
    "hd0 (tl (tl ss)) = (if spos + 3 < length sub then sub ! (spos + 3) else 0)"
    unfolding tt_def ss_def tlt tls hd0_drop by (simp_all add: eval_nat_numeral)
  have c1: "tpos < length topic \<and> wild (topic ! tpos) \<longleftrightarrow> wild (hd0 tt)"
    unfolding h by simp
  have c2: "tpos = length topic \<or> sub ! spos \<noteq> topic ! tpos \<longleftrightarrow> sub ! spos \<noteq> hd0 tt \<or> hd0 tt = 0"
    unfolding h using Suc.prems(5) sp z by auto
  have c3: "spos + 1 < length sub \<and> sub ! (spos + 1) \<noteq> SLASH \<longleftrightarrow> hd0 ss \<noteq> 0 \<and> hd0 ss \<noteq> SLASH"
    unfolding h using z by auto
  have c4: "j \<le> length topic \<Longrightarrow> j = length topic \<and> spos + 1 = length sub \<longleftrightarrow> hd0 (drop j topic) = 0 \<and> hd0 ss = 0" for j
    unfolding h hd0_drop using z sp by auto
  have c5: "spos + 1 < length sub \<longleftrightarrow> hd0 ss \<noteq> 0"
    unfolding h using z by auto
  have c6: "tpos = length topic \<and> spos > 0 \<and> sub ! (spos - 1) = PLUS \<and> sub ! spos = SLASH
      \<and> spos + 1 < length sub \<and> sub ! (spos + 1) = HASH \<longleftrightarrow>
      hd0 tt = 0 \<and> prev = Some PLUS \<and> sub ! spos = SLASH \<and> hd0 ss = HASH"
    unfolding h pv using z Suc.prems(5) by auto
  have c7: "tpos < length topic \<Longrightarrow> (tpos + 1 = length topic \<and> spos + 3 = length sub \<and> sub ! (spos + 1) = SLASH
      \<and> sub ! (spos + 2) = HASH) \<longleftrightarrow>
      hd0 (tl tt) = 0 \<and> hd0 ss = SLASH \<and> hd0 (tl ss) = HASH \<and> hd0 (tl (tl ss)) = 0"
    unfolding h using z sp by auto
  have c8: "tpos < length topic \<Longrightarrow> (spos + 1 = length sub \<and> tpos + 1 = length topic) \<longleftrightarrow>
      hd0 ss = 0 \<and> hd0 (tl tt) = 0"
    unfolding h using z sp by auto
  have c9: "tpos < length topic \<Longrightarrow> \<not> (hd0 ss = 0 \<and> hd0 (tl tt) = 0) \<Longrightarrow>
      (tpos + 1 = length topic \<and> sub ! (spos + 1) = PLUS \<and> spos + 2 = length sub) \<longleftrightarrow>
      hd0 (tl tt) = 0 \<and> hd0 ss = PLUS \<and> hd0 (tl ss) = 0"
    unfolding h using z sp by (auto split: if_splits)
  have rhs: "drop spos sub = sub ! spos # ss" using d by (simp add: ss_def)
  note L = matches_sub2_loop.simps(2) less_irrefl if_False simp_thms c1 c2 c3
  note R = matches_sub_loop.simps(2)
  show ?case
  proof (cases "wild (hd0 tt)")
    case True
    then show ?thesis unfolding rhs tt_def [symmetric] prev_def [symmetric] L R by simp
  next
    case nw: False
    show ?thesis
    proof (cases "sub ! spos \<noteq> hd0 tt \<or> hd0 tt = 0")
      case True
      consider (plus) "sub ! spos = PLUS" | (hash) "sub ! spos = HASH"
        | (lit) "sub ! spos \<noteq> PLUS" "sub ! spos \<noteq> HASH" by blast
      then show ?thesis
      proof cases
        case plus
        show ?thesis
        proof (cases "scan_topic True topic tpos (length topic - tpos)")
          case (Ok j)
          then have j: "skip_level tt = Ok (drop j topic)" "j \<le> length topic"
            using level by (simp_all add: tt_def)
          show ?thesis
            unfolding rhs tt_def [symmetric] prev_def [symmetric] L R pv(1) [symmetric] Ok j(1) res.case
              c4 [OF j(2)] IH [OF j(2)] ss_def [symmetric]
            using True nw plus by simp
        next
          case (Err e)
          then have j: "skip_level tt = Err e" using level by (simp add: tt_def)
          show ?thesis
            unfolding rhs tt_def [symmetric] prev_def [symmetric] L R pv(1) [symmetric] Err j res.case
            using True nw plus by simp
        next
          case Fault
          then show ?thesis using level by simp
        qed
      next
        case hash
        show ?thesis
          unfolding rhs tt_def [symmetric] prev_def [symmetric] L R pv(1) [symmetric] stop c5
          using True nw hash by (simp add: tt_def [symmetric])
      next
        case lit
        show ?thesis
          unfolding rhs tt_def [symmetric] prev_def [symmetric] L R c6 sub
          using True nw lit by simp
      qed
    next
      case False
      then have lt: "tpos < length topic" unfolding h by (auto split: if_splits)
      have n: "tpos + 1 \<le> length topic" using lt by simp
      have e: "\<not> (tpos = length topic \<or> sub ! spos \<noteq> topic ! tpos)" using c2 False by blast
      have r: "drop (tpos + 1) topic = tl tt" by (simp add: tt_def tlt)
      show ?thesis
      proof (cases "hd0 ss = 0 \<and> hd0 (tl tt) = 0")
        case True
        show ?thesis
          unfolding rhs tt_def [symmetric] prev_def [symmetric] L R c7 [OF lt] c8 [OF lt]
          using True False nw by simp
      next
        case more: False
        show ?thesis
          unfolding rhs tt_def [symmetric] prev_def [symmetric] L R c7 [OF lt] c8 [OF lt] c9 [OF lt more]
            IH [OF n] r ss_def [symmetric]
          using False nw more by simp
      qed
    qed
  qed
qed

lemma matches_sub2_eq:
  assumes "0 \<notin> set sub" "0 \<notin> set topic"
  shows "mosquitto_topic_matches_sub2 (Some sub) (length sub) (Some topic) (length topic)
    = mosquitto_topic_matches_sub (Some sub) (Some topic)"
proof (cases "sub = [] \<or> topic = []")
  case True
  then show ?thesis by (auto simp: mosquitto_topic_matches_sub_def mosquitto_topic_matches_sub2_def)
next
  case False
  then have "hd0 sub = sub ! 0" "hd0 topic = topic ! 0" "hd0 sub \<noteq> 0" "hd0 topic \<noteq> 0"
    using assms by (auto simp: hd0_eq_0 hd0_def split: list.split)
  then show ?thesis
    using False assms matches_sub2_loop_eq [of sub topic "length sub" 0 0]
    by (simp add: mosquitto_topic_matches_sub_def mosquitto_topic_matches_sub2_def)
qed

end
