(* ===== verification/Wire_Properties.thy ===== *)
theory Wire_Properties
  imports Property_Api Topic
begin

text \<open>
  What the wire formats, the property lists and the topics are correct for, stated over the
  functions of utf8_mosq.c, packet_datatypes.c, property_mosq.c and util_topic.c. The proofs are
  applications of the lemmas of the component theories and of the codec interpretations.
\<close>

unbundle bit_operations_syntax

section \<open>Concrete packets and heaps for the instances\<close>

definition calm :: heap where
  "calm = \<lparr>h_script = [], h_junk = \<lambda>_. 0\<rparr>"

text \<open>An empty packet of \<open>n\<close> bytes.\<close>

definition blank :: "nat \<Rightarrow> mosquitto__packet" where
  "blank n = (reading (replicate n 0))\<lparr>p_packet_length := word_of_nat n\<rparr>"

lemma calm [simp]: "never_fails calm"
  by (simp add: calm_def never_fails_def)

lemma blank [simp]:
  assumes "n < 2 ^ 32"
  shows "writable (blank n)" "room (blank n) = n" "written (blank n) = []"
proof -
  have "unat (word_of_nat n :: uint32) = n" using assms by (intro unat_of_nat_less) simp
  then show "writable (blank n)" "room (blank n) = n" "written (blank n) = []"
    by (simp_all add: writable_def room_def written_def blank_def reading_def)
qed

section \<open>Strings\<close>

text \<open>C15: \<open>mosquitto_validate_utf8\<close>, on a string followed by its NUL, never reads outside the
  buffer and accepts exactly the strings of at most 65536 bytes that are the RFC 3629 encoding of
  allowed code points: overlong forms, surrogates, control characters, non-characters and
  truncated sequences are all refused.\<close>
theorem utf8_accepts_encodings:
  "mosquitto_validate_utf8 (Some (bs @ [0])) (int (length bs)) \<noteq> Fault \<and>
   (mosquitto_validate_utf8 (Some (bs @ [0])) (int (length bs)) = Ok () \<longleftrightarrow>
    length bs \<le> 65536 \<and> (\<exists>cps. list_all mqtt_codepoint cps \<and> bs = utf8_string cps))"
  by (intro conjI validate_utf8_no_fault validate_utf8_iff)

section \<open>Packet datatypes\<close>

text \<open>C32: \<open>packet__read_varint\<close> succeeds exactly on the shortest encoding of a value below
  2^28, returns that value and the number of bytes it took, and leaves the position behind it.\<close>
theorem read_varint_canonical:
  assumes "readable p"
  shows "packet__read_varint p = (Ok (w, n), p') \<longleftrightarrow>
    unat w < 2 ^ 28 \<and> n = word_of_nat (packet__varint_bytes w)
    \<and> (\<exists>xs. rest p = varint_enc (unat w) @ xs) \<and> p' = adv (packet__varint_bytes w) p"
proof
  assume r: "packet__read_varint p = (Ok (w, n), p')"
  then have o: "on_packet packet__read_varint (p, calm) = (Ok (w, n), (p', calm))"
    by (simp add: on_packet_run)
  show "unat w < 2 ^ 28 \<and> n = word_of_nat (packet__varint_bytes w)
    \<and> (\<exists>xs. rest p = varint_enc (unat w) @ xs) \<and> p' = adv (packet__varint_bytes w) p"
    using parsesD(1,2) [OF parses_varint(1) assms o] parses_varint(2) [OF assms o]
    by (auto simp: varint_bytes_enc)
next
  assume a: "unat w < 2 ^ 28 \<and> n = word_of_nat (packet__varint_bytes w)
    \<and> (\<exists>xs. rest p = varint_enc (unat w) @ xs) \<and> p' = adv (packet__varint_bytes w) p"
  then obtain xs where "rest p = varint_enc (unat w) @ xs" by blast
  then have "on_packet packet__read_varint (p, calm) =
      (Ok (w, word_of_nat (packet__varint_bytes w)), (adv (length (varint_enc (unat w))) p, calm))"
    using a assms by (intro readsD [OF reads_varint, of _ _ xs]) simp_all
  then show "packet__read_varint p = (Ok (w, n), p')"
    using a by (simp add: on_packet_run varint_bytes_enc split: prod.splits)
qed

theorem read_varint_canonical_witness:
  "packet__read_varint (reading [0x80, 0x01, 7]) = (Ok (128, 2), adv 2 (reading [0x80, 0x01, 7]))"
proof -
  have u: "unat (128 :: uint32) = 128" and e: "varint_enc 128 = [0x80, 0x01]" and b: "packet__varint_bytes 128 = 2"
    by (simp_all add: varint_enc.simps packet__varint_bytes_def)
  show ?thesis
    using read_varint_canonical [of "reading [0x80, 0x01, 7]" 128 2] by (simp add: u e b)
qed

text \<open>A variable byte integer below 2^28 that \<open>packet__write_varint\<close> writes is read back by
  \<open>packet__read_varint\<close>, whatever follows it in the packet.\<close>
lemma varint_write_read:
  assumes "unat w < 2 ^ 28" "writable p" "length (varint_enc (unat w)) \<le> room p"
    "length (varint_enc (unat w) @ xs) < 2 ^ 28"
  shows "\<exists>p'. packet__write_varint w p = (Ok (), p') \<and> written p' = written p @ varint_enc (unat w)
    \<and> fst (packet__read_varint (reading (varint_enc (unat w) @ xs))) = Ok (w, word_of_nat (packet__varint_bytes w))
    \<and> rest (snd (packet__read_varint (reading (varint_enc (unat w) @ xs)))) = xs"
  using varint_codec.roundtrip [OF assms calm]
  by (auto simp: on_packet_run split: prod.splits)

lemma varint_write_read_witness:
  "\<exists>p'. packet__write_varint 300 (blank 2) = (Ok (), p')
    \<and> fst (packet__read_varint (reading [0xAC, 0x02, 9])) = Ok (300, 2)"
proof -
  have u: "unat (300 :: uint32) = 300" and e: "varint_enc 300 = [0xAC, 0x02]" and b: "packet__varint_bytes 300 = 2"
    by (simp_all add: varint_enc.simps packet__varint_bytes_def)
  show ?thesis
    using varint_write_read [of 300 "blank 2" "[9]"] by (simp add: u e b) blast
qed

text \<open>C21: The readers of packet_datatypes.c and \<open>property__read_all\<close> stay inside the packet
  for every content of it and every pattern of allocation failures: no read outside the buffer,
  and the position never passes the unread bytes.\<close>
theorem packet_readers_safe:
  assumes "readable p"
  shows "(\<exists>r k h'. property__read_all command (p, h) = (r, (adv k p, h')) \<and> r \<noteq> Fault
      \<and> k \<le> length (rest p))
    \<and> (\<exists>r k h'. packet__read_string (p, h) = (r, (adv k p, h')) \<and> r \<noteq> Fault \<and> k \<le> length (rest p))
    \<and> (\<exists>r k h'. packet__read_binary (p, h) = (r, (adv k p, h')) \<and> r \<noteq> Fault \<and> k \<le> length (rest p))
    \<and> (\<exists>r k. packet__read_uint32 p = (r, adv k p) \<and> r \<noteq> Fault \<and> k \<le> length (rest p))"
proof (intro conjI)
  show "\<exists>r k h'. property__read_all command (p, h) = (r, (adv k p, h')) \<and> r \<noteq> Fault
      \<and> k \<le> length (rest p)"
    by (rule safe_readerE [OF safe_property__read_all assms]) blast
  show "\<exists>r k h'. packet__read_string (p, h) = (r, (adv k p, h')) \<and> r \<noteq> Fault \<and> k \<le> length (rest p)"
    by (rule safe_readerE [OF safe_read_string assms]) blast
  show "\<exists>r k h'. packet__read_binary (p, h) = (r, (adv k p, h')) \<and> r \<noteq> Fault \<and> k \<le> length (rest p)"
    by (rule safe_readerE [OF safe_read_binary assms]) blast
  show "\<exists>r k. packet__read_uint32 p = (r, adv k p) \<and> r \<noteq> Fault \<and> k \<le> length (rest p)"
    by (rule safe_readerE [OF safe_read_uint32 assms, of calm]) (auto simp: on_packet_run split: prod.splits)
qed

theorem packet_readers_safe_witness:
  "\<exists>r k h'. property__read_all 1 (reading [5, 31, 0, 9], calm) = (r, (adv k (reading [5, 31, 0, 9]), h'))
    \<and> r \<noteq> Fault \<and> k \<le> length (rest (reading [5, 31, 0, 9]))"
  by (rule packet_readers_safe [THEN conjunct1]) simp

text \<open>A string written with \<open>packet__write_string\<close> is read back by \<open>packet__read_string\<close> with
  its length when it is empty or valid UTF-8 and shorter than 65536 bytes.\<close>
lemma string_write_read:
  assumes "length bs < 65536" "bs = [] \<or> utf8_valid bs" "writable p" "length (enc_field bs) \<le> room p"
    "length (enc_field bs @ xs) < 2 ^ 28" "never_fails h"
  shows "\<exists>p'. packet__write_string (Some bs) (word_of_nat (length bs)) p = (Ok (), p')
    \<and> written p' = written p @ enc_field bs
    \<and> packet__read_string (reading (enc_field bs @ xs), h) =
        (Ok (opt_bytes bs, word_of_nat (length bs)), (adv (length (enc_field bs)) (reading (enc_field bs @ xs)), h))
    \<and> rest (adv (length (enc_field bs)) (reading (enc_field bs @ xs))) = xs"
  using string_codec.roundtrip [of bs p xs h] assms by (simp add: field_out_def)

lemma string_write_read_witness:
  "fst (packet__read_string (reading ([0, 2, 0x68, 0x69] @ [5]), calm)) = Ok (Some [0x68, 0x69], 2)"
proof -
  have v: "utf8_valid [0x68, 0x69]"
    by (simp add: utf8_valid_def mosquitto_validate_utf8_def utf8_loop.simps utf8_lead_nat utf8_codepoint_ok_def)
  have e: "enc_field [0x68, 0x69] = [0, 2, 0x68, 0x69]" by (simp add: enc_field_def enc16_nat)
  show ?thesis
    using string_write_read [of "[0x68, 0x69]" "blank 4" "[5]" calm] v by (simp add: e opt_bytes_def) auto
qed

section \<open>Property lists\<close>

text \<open>A list of one property, the payload format indicator.\<close>

definition sample :: "mosquitto_property list" where
  "sample = [zero_property\<lparr>pr_identifier := MQTT_PROP_PAYLOAD_FORMAT_INDICATOR, pr_i8 := 1\<rparr>]"

lemma sample_ok:
  "list_all prop_ok sample" "list_all texts_ok sample" "props_enc sample = [1, 1]"
  "proplist_enc sample = [2, 1, 1]" "map received sample = sample"
  "mosquitto_property_check_all CMD_PUBLISH sample = Ok ()"
  by (simp_all add: sample_def prop_ok_def texts_ok_def property_type_def prop_enc_def value_enc_def
      varint_enc.simps proplist_enc_def received_def Let_def property_value_bad_def
      mosquitto_property_check_command_def)

text \<open>C20: What \<open>property__read_all\<close> accepts is exactly the length and the encoding of the list
  it returns: the position moves over them, every property is well-formed, and the list passed
  \<open>mosquitto_property_check_all\<close>. The properties of a packet are never read past their
  announced length and never short of it.\<close>
theorem property_read_all_exact:
  assumes "readable p" "property__read_all command (p, h) = (Ok ps, (p', h'))"
  shows "rest p = proplist_enc ps @ rest p' \<and> p' = adv (length (proplist_enc ps)) p
    \<and> list_all prop_ok ps \<and> mosquitto_property_check_all command ps = Ok ()"
  using property__read_all_Ok [OF assms] by (simp add: proplist_enc_def)

theorem property_read_all_exact_witness:
  "\<exists>p'. rest (reading [2, 1, 1, 9]) = proplist_enc sample @ rest p'"
proof -
  have "reads (property__read_all CMD_PUBLISH) (proplist_enc sample) (map received sample)"
    by (rule reads_property_all) (simp_all add: sample_ok)
  then have "property__read_all CMD_PUBLISH (reading [2, 1, 1, 9], calm)
      = (Ok (map received sample), (adv (length (proplist_enc sample)) (reading [2, 1, 1, 9]), calm))"
    by (rule readsD [of _ _ _ _ "[9]"]) (simp_all add: sample_ok)
  from property_read_all_exact [OF _ this] have "rest (reading [2, 1, 1, 9]) =
      proplist_enc sample @ rest (adv (length (proplist_enc sample)) (reading [2, 1, 1, 9]))"
    by (simp add: sample_ok)
  then show ?thesis by blast
qed

text \<open>C9: A property list that can be encoded and passes the check of a command is read back by
  \<open>property__read_all\<close> from what \<open>property__write_all\<close> wrote: the same properties in the same order,
  each with the member its type selects, and what follows the list is left unread.\<close>
theorem property_list_roundtrip:
  assumes "list_all prop_ok ps" "list_all texts_ok ps" "length (props_enc ps) < 2 ^ 28"
    "mosquitto_property_check_all command ps = Ok ()"
    "writable p" "length (proplist_enc ps) \<le> room p" "length (proplist_enc ps @ xs) < 2 ^ 28" "never_fails h"
  shows "\<exists>p'. property__write_all ps True p = (Ok (), p') \<and> written p' = written p @ proplist_enc ps
    \<and> property__read_all command (reading (proplist_enc ps @ xs), h) =
        (Ok (map received ps), (adv (length (proplist_enc ps)) (reading (proplist_enc ps @ xs)), h))
    \<and> rest (adv (length (proplist_enc ps)) (reading (proplist_enc ps @ xs))) = xs"
  using proplist_codec.roundtrip [of ps command p xs h] assms by simp

theorem property_list_roundtrip_witness:
  "fst (property__read_all CMD_PUBLISH (reading ([2, 1, 1] @ [9]), calm)) = Ok sample
    \<and> fst (property__write_all sample True (blank 3)) = Ok ()"
  using property_list_roundtrip [of sample CMD_PUBLISH "blank 3" "[9]" calm]
  by (auto simp: sample_ok)

text \<open>C33: The length functions and the writers agree: for a list built with the
  \<open>mosquitto_property_add_*\<close> functions, \<open>property__get_remaining_length\<close> is the number of bytes
  \<open>property__write_all\<close> writes, in every packet with room for them.\<close>
theorem remaining_length_counts_written:
  assumes "built ps" "length (props_enc ps) < 2 ^ 28" "writable p" "length (proplist_enc ps) \<le> room p"
  shows "\<exists>p'. property__write_all ps True p = (Ok (), p') \<and> written p' = written p @ proplist_enc ps
    \<and> property__get_remaining_length ps = word_of_nat (length (proplist_enc ps))
    \<and> room p' = room p - length (proplist_enc ps)"
proof -
  have ok: "list_all prop_ok ps" using assms(1) by (rule built_prop_ok)
  show ?thesis
    using writesD [OF property__write_all_enc(1) [OF ok assms(2)] assms(3,4)]
      property__get_remaining_length_enc [OF ok assms(2)] assms(3,4) by simp
qed

theorem remaining_length_counts_written_witness:
  "property__get_remaining_length [(new_property 1)\<lparr>pr_i8 := 1\<rparr>] = 3"
proof -
  define ps where "ps = [(new_property 1)\<lparr>pr_i8 := 1\<rparr>]"
  have "mosquitto_property_add_byte (Some []) 1 1 calm = (Ok ps, calm)"
    by (simp add: mosquitto_property_add_byte_def ps_def property__add_def ret_def property_type_def)
  then have "built ps" using built_Nil built_byte by blast
  moreover have "props_enc ps = [1, 1]" "proplist_enc ps = [2, 1, 1]"
    by (simp_all add: ps_def prop_enc_def value_enc_def varint_enc.simps proplist_enc_def property_type_def)
  ultimately show ?thesis
    using remaining_length_counts_written [of ps "blank 3"] by (auto simp flip: ps_def)
qed


text \<open>The two name tables agree: \<open>mosquitto_string_to_property_info\<close> returns the identifier
  and the type of every name that \<open>mosquitto_property_identifier_to_string\<close> gives, and an
  identifier has a name exactly when the readers and writers know its type.\<close>
lemma property_names_agree:
  "(mosquitto_property_identifier_to_string i = None \<longleftrightarrow> property_type i = None)
    \<and> (case mosquitto_property_identifier_to_string i of None \<Rightarrow> True
       | Some s \<Rightarrow> mosquitto_string_to_property_info (Some s) = Ok (i, the (property_type i)))"
  using names_agree [of i] string_to_info_exact
  by (auto simp: name_agrees_def split: option.splits)

text \<open>\<open>mosquitto_property_copy_all\<close> copies a list whose strings hold text: the copy has the
  same identifiers and the same encoding.\<close>
lemma copy_all_same_encoding:
  assumes "never_fails h" "list_all prop_ok ps" "list_all copyable ps"
  shows "\<exists>qs. mosquitto_property_copy_all ps h = (Ok qs, h) \<and> list_all prop_ok qs
    \<and> proplist_enc qs = proplist_enc ps \<and> map pr_identifier qs = map pr_identifier ps"
  using copy_all_copyable [OF assms] by (auto simp: proplist_enc_def)

lemma copy_all_same_encoding_witness:
  "\<exists>qs. mosquitto_property_copy_all sample calm = (Ok qs, calm) \<and> proplist_enc qs = [2, 1, 1]"
proof -
  have "list_all copyable sample" by (simp add: copyable_def sample_def property_type_def)
  then show ?thesis using copy_all_same_encoding [of calm sample] by (auto simp: sample_ok)
qed

text \<open>A string property whose text is empty is kept with a NULL pointer, by the reader and by
  \<open>mosquitto_property_add_string\<close>; \<open>mosquitto_property_copy_all\<close> hands that pointer to
  \<open>strdup\<close> and is undefined on every list that starts with it.\<close>
lemma copy_all_empty_string_faults:
  assumes "never_fails h" "property_type i = Some MQTT_PROP_TYPE_STRING"
    "mosquitto_property_add_string (Some []) i (Some []) h = (Ok ps, h')"
  shows "mosquitto_property_copy_all (ps @ qs) h = (Fault, h)"
proof -
  have "ps = [new_property i]"
    using assms by (auto simp: mosquitto_property_add_string_def property__add_def ret_def throw_def
        elim!: then_do_OkE with_alloc_OkE split: if_splits)
  then show ?thesis
    using copy_property_null [of h "new_property i" qs] assms(1,2) by (simp add: null_string_def)
qed

lemma copy_all_empty_string_faults_witness:
  "\<exists>ps. fst (mosquitto_property_add_string (Some []) MQTT_PROP_CONTENT_TYPE (Some []) calm) = Ok ps
    \<and> mosquitto_property_copy_all ps calm = (Fault, calm)"
proof -
  have t: "property_type MQTT_PROP_CONTENT_TYPE = Some MQTT_PROP_TYPE_STRING" by (simp add: property_type_def)
  have "mosquitto_property_add_string (Some []) MQTT_PROP_CONTENT_TYPE (Some []) calm
      = (Ok [new_property MQTT_PROP_CONTENT_TYPE], calm)"
    by (simp add: mosquitto_property_add_string_def t then_do_def check_utf8_def cast_int_def
        mosquitto_validate_utf8_def utf8_loop.simps ret_def property__add_def)
  from copy_all_empty_string_faults [OF calm t this, of "[]"] this show ?thesis by auto
qed

section \<open>Topics\<close>



text \<open>C12: On a valid filter and a topic without wildcards \<open>mosquitto_topic_matches_sub\<close> decides the
  MQTT matching relation level by level: \<open>+\<close> matches one level, \<open>#\<close> the rest including the
  parent level, any other level itself, and a filter without \<open>$\<close> no topic that starts with it.\<close>
theorem topic_matching:
  assumes "filter_valid sub" "\<not> list_ex wild topic" "sub \<noteq> []" "topic \<noteq> []" "0 \<notin> set sub" "0 \<notin> set topic"
  shows "mosquitto_topic_matches_sub (Some sub) (Some topic) = Ok (filter_matches sub topic)"
  using assms by (rule mosquitto_topic_matches_sub_eq)

theorem topic_matching_witness:
  "mosquitto_topic_matches_sub (Some [0x61, SLASH, HASH]) (Some [0x61]) = Ok True
   \<and> mosquitto_topic_matches_sub (Some [PLUS, SLASH, 0x62]) (Some [0x61, SLASH, 0x63]) = Ok False"
  using topic_matching [of "[0x61, SLASH, HASH]" "[0x61]"] topic_matching [of "[PLUS, SLASH, 0x62]" "[0x61, SLASH, 0x63]"]
  by (simp add: filter_valid_def wild_def filter_matches_def hd0_def)

text \<open>C36: \<open>mosquitto_topic_matches_sub2\<close>, which works on indices into buffers with lengths, returns
  what \<open>mosquitto_topic_matches_sub\<close> returns, error codes included, on every filter and topic.\<close>
theorem topic_matchers_agree:
  assumes "0 \<notin> set sub" "0 \<notin> set topic"
  shows "mosquitto_topic_matches_sub2 (Some sub) (length sub) (Some topic) (length topic)
    = mosquitto_topic_matches_sub (Some sub) (Some topic)"
  using assms by (rule matches_sub2_eq)

theorem topic_matchers_agree_witness:
  "mosquitto_topic_matches_sub2 (Some [PLUS]) 1 (Some [0x61]) 1
   = mosquitto_topic_matches_sub (Some [PLUS]) (Some [0x61])"
  using topic_matchers_agree [of "[PLUS]" "[0x61]"] by simp

end
