(* ===== verification/Safety.thy ===== *)
theory Safety
  imports Prelude
begin

text \<open>
  Safety of commands: started in a state with the invariant \<open>I\<close>, a command does not fault, leaves a
  state with \<open>I\<close> whatever it returns, and the value it returns satisfies \<open>Q\<close>. The rules follow the
  commands, so that the safety of a handler is an \<open>intro\<close> over its parts.
\<close>

definition good :: "('s \<Rightarrow> bool) \<Rightarrow> ('a \<Rightarrow> bool) \<Rightarrow> 'a res \<times> 's \<Rightarrow> bool" where
  "good I Q x = (I (snd x) \<and> (case fst x of Ok a \<Rightarrow> Q a | Err _ \<Rightarrow> True | Fault \<Rightarrow> False))"

definition triple :: "('s \<Rightarrow> bool) \<Rightarrow> ('s, 'a) cmd \<Rightarrow> ('a \<Rightarrow> bool) \<Rightarrow> bool" where
  "triple I c Q = (\<forall>s. I s \<longrightarrow> good I Q (c s))"

abbreviation anything :: "'a \<Rightarrow> bool" where
  "anything \<equiv> \<lambda>_. True"

named_theorems triples

lemma good_simps [simp]:
  "good I Q (Ok a, s) = (I s \<and> Q a)" "good I Q (Err e, s) = I s" "good I Q (Fault, s) = False"
  by (simp_all add: good_def)

lemma goodE:
  assumes "good I Q x"
  obtains (ok) a s' where "x = (Ok a, s')" "I s'" "Q a" | (err) e s' where "x = (Err e, s')" "I s'"
  using assms by (cases x; cases "fst x") auto

lemma good_iff: "good I anything (r, s) = (I s \<and> r \<noteq> Fault)"
  by (cases r) simp_all

lemma good_mono: "good I Q x \<Longrightarrow> (\<And>a. Q a \<Longrightarrow> R a) \<Longrightarrow> good I R x"
  by (auto elim: goodE)

lemma good_weaken: "good I Q x \<Longrightarrow> good I anything x"
  by (erule good_mono) simp

lemma tripleI: "(\<And>s. I s \<Longrightarrow> good I Q (c s)) \<Longrightarrow> triple I c Q"
  by (simp add: triple_def)

lemma tripleD: "triple I c Q \<Longrightarrow> I s \<Longrightarrow> good I Q (c s)"
  by (simp add: triple_def)

lemma triple_mono: "triple I c Q \<Longrightarrow> (\<And>a. Q a \<Longrightarrow> R a) \<Longrightarrow> triple I c R"
  by (auto simp: triple_def intro: good_mono)

lemma triple_weaken: "triple I c Q \<Longrightarrow> triple I c anything"
  by (erule triple_mono) simp

lemma good_then_do:
  assumes "good I Q (c s)" "\<And>a s'. Q a \<Longrightarrow> I s' \<Longrightarrow> c s = (Ok a, s') \<Longrightarrow> good I R (f a s')"
  shows "good I R (then_do c f s)"
  using assms(1) by (rule goodE) (simp_all add: then_do_def assms(2))

lemma triple_then_do:
  assumes "triple I c Q" "\<And>a. Q a \<Longrightarrow> triple I (f a) R"
  shows "triple I (then_do c f) R"
  by (intro tripleI good_then_do [where Q = Q]) (use assms in \<open>auto simp: triple_def\<close>)

lemma triple_bind [triples]:
  "triple I c anything \<Longrightarrow> (\<And>a. triple I (f a) R) \<Longrightarrow> triple I (then_do c f) R"
  by (rule triple_then_do)

text \<open>A stronger invariant on a stretch of the way.\<close>

lemma triple_enter:
  assumes "\<And>s. I s \<Longrightarrow> I' (f s)" "triple I' c Q" "\<And>s. I' s \<Longrightarrow> I s"
  shows "triple I (then_do (modify f) (\<lambda>_. c)) Q"
proof (rule tripleI)
  fix s
  assume "I s"
  then have "good I' Q (c (f s))" by (intro tripleD [OF assms(2)] assms(1))
  then show "good I Q (then_do (modify f) (\<lambda>_. c) s)"
    by (auto simp: then_do_def modify_def assms(3) elim: goodE)
qed

lemma triple_ret: "Q a \<Longrightarrow> triple I (ret a) Q"
  by (simp add: triple_def ret_def)

lemma triple_ret_any [triples]: "triple I (ret a) anything"
  by (simp add: triple_ret)

lemma triple_throw [triples]: "triple I (throw e) Q"
  by (simp add: triple_def throw_def)

lemma triple_get_st: "triple I get_st I"
  by (simp add: triple_def get_st_def)

lemma triple_get_any [triples]: "triple I get_st anything"
  by (simp add: triple_def get_st_def)

lemma triple_modify [triples]: "(\<And>s. I s \<Longrightarrow> I (f s)) \<Longrightarrow> triple I (modify f) anything"
  by (simp add: triple_def modify_def)

lemma triple_guard [triples]: "triple I (guard_err b e) anything"
  by (simp add: guard_err_def triple_ret triple_throw)

lemma triple_return_rc [triples]: "triple I (return_rc e) anything"
  by (simp add: return_rc_def triple_ret triple_throw)

lemma triple_rc_of: "triple I c Q \<Longrightarrow> triple I (rc_of c) anything"
  by (rule tripleI) (auto simp: rc_of_def dest!: tripleD elim: goodE)

lemma triple_ignore_rc: "triple I c Q \<Longrightarrow> triple I (ignore_rc c) anything"
  unfolding ignore_rc_def by (intro triple_then_do [OF triple_rc_of] triple_ret) simp_all

lemmas triple_codes [triples] =
  triple_rc_of [where Q = anything] triple_ignore_rc [where Q = anything]

lemma triple_if [triples]:
  "(b \<Longrightarrow> triple I c Q) \<Longrightarrow> (\<not> b \<Longrightarrow> triple I d Q) \<Longrightarrow> triple I (if b then c else d) Q"
  by simp

lemma triple_option [triples]:
  "(v = None \<Longrightarrow> triple I c Q) \<Longrightarrow> (\<And>a. v = Some a \<Longrightarrow> triple I (f a) Q) \<Longrightarrow>
   triple I (case v of None \<Rightarrow> c | Some a \<Rightarrow> f a) Q"
  by (cases v) simp_all

lemma triple_list [triples]:
  "(v = [] \<Longrightarrow> triple I c Q) \<Longrightarrow> (\<And>a b. v = a # b \<Longrightarrow> triple I (f a b) Q) \<Longrightarrow>
   triple I (case v of [] \<Rightarrow> c | a # b \<Rightarrow> f a b) Q"
  by (cases v) simp_all

lemma triple_prod [triples]:
  "(\<And>a b. v = (a, b) \<Longrightarrow> triple I (f a b) Q) \<Longrightarrow> triple I (case v of (a, b) \<Rightarrow> f a b) Q"
  by (cases v) simp

text \<open>A command that neither faults nor changes the state, except as \<open>I\<close> allows.\<close>

lemma triple_no_fault: "triple I c Q \<Longrightarrow> I s \<Longrightarrow> fst (c s) \<noteq> Fault"
  by (auto dest!: tripleD elim: goodE)

lemma triple_state: "triple I c Q \<Longrightarrow> I s \<Longrightarrow> I (snd (c s))"
  by (auto dest!: tripleD elim: goodE)

end
