(* ===== verification/Client.thy ===== *)
theory Client
  imports Property_Api
begin

text \<open>
  The state of a client, \<open>struct mosquitto\<close> of mosquitto_internal.h, and the small operations on
  it from util_mosq.c and net_mosq.c. Beside the fields of the structure the state holds the
  client's environment: the heap, the time, what the socket will do next, \<open>errno\<close>, and two
  histories, the bytes handed to the socket and the callbacks made. The build is the one of the
  repository: a client library without threads, so that locks are no operations, and the
  connection is plain TCP (\<open>ssl\<close> is NULL).
\<close>

unbundle bit_operations_syntax

section \<open>Messages\<close>

datatype mosquitto_msg_direction = mosq_md_in | mosq_md_out

datatype mosquitto_msg_state =
    mosq_ms_invalid
  | mosq_ms_publish_qos0
  | mosq_ms_publish_qos1
  | mosq_ms_wait_for_puback
  | mosq_ms_publish_qos2
  | mosq_ms_wait_for_pubrec
  | mosq_ms_resend_pubrel
  | mosq_ms_wait_for_pubrel
  | mosq_ms_resend_pubcomp
  | mosq_ms_wait_for_pubcomp
  | mosq_ms_send_pubrec
  | mosq_ms_queued

text \<open>\<open>struct mosquitto_message\<close>: the topic without its NUL, the payload empty for NULL.\<close>

record mosquitto_message =
  m_mid :: int
  m_topic :: "byte list option"
  m_payload :: "byte list"
  m_payloadlen :: int
  m_qos :: int
  m_retain :: bool

record mosquitto_message_all =
  ma_properties :: "mosquitto_property list"
  ma_timestamp :: int
  ma_state :: mosquitto_msg_state
  ma_dup :: bool
  ma_msg :: mosquitto_message

record mosquitto_msg_data =
  inflight :: "mosquitto_message_all list"
  queue_len :: int
  inflight_quota :: int
  inflight_maximum :: uint16

section \<open>The environment\<close>

datatype errno = E_OK | EAGAIN | EWOULDBLOCK | ECONNRESET | EINTR | EPROTO | E_OTHER

text \<open>
  One call of \<open>send\<close>: there is room for \<open>n\<close> bytes, or it fails. One call of \<open>read\<close>: bytes have
  arrived (those beyond the requested count stay), the peer has closed, or it fails. A socket
  with nothing scripted would block.
\<close>

datatype send_outcome = Send_Room nat | Send_Err errno
datatype recv_outcome = Recv_Data "byte list" | Recv_Eof | Recv_Err errno

text \<open>The callbacks of the application, with their arguments.\<close>

datatype event =
    Ev_connect int
  | Ev_connect_with_flags int int
  | Ev_connect_v5 int int "mosquitto_property list"
  | Ev_disconnect int
  | Ev_disconnect_v5 int "mosquitto_property list"
  | Ev_publish int
  | Ev_publish_v5 int int "mosquitto_property list"
  | Ev_message mosquitto_message
  | Ev_message_v5 mosquitto_message "mosquitto_property list"
  | Ev_subscribe int "int list"
  | Ev_subscribe_v5 int "int list" "mosquitto_property list"
  | Ev_unsubscribe int
  | Ev_unsubscribe_v5 int "mosquitto_property list"

section \<open>The client\<close>

datatype mosquitto_client_state =
    mosq_cs_new
  | mosq_cs_connected
  | mosq_cs_disconnecting
  | mosq_cs_active
  | mosq_cs_connect_pending
  | mosq_cs_connect_srv
  | mosq_cs_disconnect_ws
  | mosq_cs_disconnected
  | mosq_cs_socks5_new
  | mosq_cs_socks5_start
  | mosq_cs_socks5_request
  | mosq_cs_socks5_reply
  | mosq_cs_socks5_auth_ok
  | mosq_cs_socks5_userpass_reply
  | mosq_cs_socks5_send_userpass
  | mosq_cs_expiring
  | mosq_cs_duplicate
  | mosq_cs_disconnect_with_will
  | mosq_cs_disused
  | mosq_cs_authenticating
  | mosq_cs_reauthenticating

datatype mosquitto__threaded_state = mosq_ts_none | mosq_ts_self | mosq_ts_external

record mosquitto__alias =
  al_topic :: "byte list option"
  al_alias :: uint16

text \<open>Which callbacks the application has set.\<close>

record callbacks =
  on_connect :: bool
  on_connect_with_flags :: bool
  on_connect_v5 :: bool
  on_disconnect :: bool
  on_disconnect_v5 :: bool
  on_publish :: bool
  on_publish_v5 :: bool
  on_message :: bool
  on_message_v5 :: bool
  on_subscribe :: bool
  on_subscribe_v5 :: bool
  on_unsubscribe :: bool
  on_unsubscribe_v5 :: bool

record mosquitto =
  sock :: int
  sockpairR :: int
  sockpairW :: int
  maximum_packet_size :: uint32
  protocol :: mosquitto__protocol
  client_id :: "byte list option"
  username :: "byte list option"
  password :: "byte list option"
  keepalive :: uint16
  last_mid :: uint16
  cstate :: mosquitto_client_state
  last_msg_in :: int
  next_msg_out :: int
  ping_t :: int
  in_packet :: mosquitto__packet
  current_out_packet :: "mosquitto__packet option"
  out_packet :: "mosquitto__packet list"
  out_packet_count :: int
  will :: "mosquitto_message_all option"
  aliases :: "mosquitto__alias list"
  clean_start :: bool
  in_callback :: bool
  msgs_in :: mosquitto_msg_data
  msgs_out :: mosquitto_msg_data
  cbs :: callbacks
  host :: "byte list option"
  port :: uint16
  bind_address :: "byte list option"
  reconnects :: uint32
  reconnect_delay :: uint32
  reconnect_delay_max :: uint32
  reconnect_exponential_backoff :: bool
  request_disconnect :: bool
  threaded :: mosquitto__threaded_state
  connect_properties :: "mosquitto_property list"
  max_qos :: byte
  retain_available :: byte
  tcp_nodelay :: bool
  e_heap :: heap
  e_now :: int
  e_sends :: "send_outcome list"
  e_recvs :: "recv_outcome list"
  e_errno :: errno
  e_wire :: "byte list"
  e_trace :: "event list"

abbreviation (input) INVALID_SOCKET :: int where "INVALID_SOCKET \<equiv> -1"

section \<open>Running the packet and property operations on the client\<close>

text \<open>\<open>f(&mosq->in_packet, ...)\<close>\<close>

definition on_in_packet :: "(pkt_heap, 'a) cmd \<Rightarrow> (mosquitto, 'a) cmd" where
  "on_in_packet c s = (case c (in_packet s, e_heap s) of
     (r, (p, h)) \<Rightarrow> (r, s\<lparr>in_packet := p, e_heap := h\<rparr>))"

definition on_heap :: "(heap, 'a) cmd \<Rightarrow> (mosquitto, 'a) cmd" where
  "on_heap c s = (case c (e_heap s) of (r, h) \<Rightarrow> (r, s\<lparr>e_heap := h\<rparr>))"

text \<open>A packet under construction, \<open>f(packet, ...)\<close>: the result is the packet it leaves.\<close>

definition on_new_packet ::
  "mosquitto__packet \<Rightarrow> (pkt_heap, unit) cmd \<Rightarrow> (mosquitto, mosquitto__packet) cmd"
where
  "on_new_packet packet c s = (case c (packet, e_heap s) of
     (Ok _, (p, h)) \<Rightarrow> (Ok p, s\<lparr>e_heap := h\<rparr>)
   | (Err e, (p, h)) \<Rightarrow> (Err e, s\<lparr>e_heap := h\<rparr>)
   | (Fault, (p, h)) \<Rightarrow> (Fault, s\<lparr>e_heap := h\<rparr>))"

text \<open>\<open>p = mosquitto__calloc(...); if(!p) return MOSQ_ERR_NOMEM;\<close>\<close>

definition need_memory :: "(mosquitto, unit) cmd" where
  "need_memory = on_heap (with_alloc (ret ()))"

text \<open>\<open>calloc(1, sizeof(struct mosquitto__packet))\<close>\<close>

definition zero_packet :: mosquitto__packet where
  "zero_packet = \<lparr>p_payload = [], p_remaining_mult = 0, p_remaining_length = 0,
     p_packet_length = 0, p_to_process = 0, p_pos = 0, p_mid = 0, p_command = 0,
     p_remaining_count = 0\<rparr>"

text \<open>\<open>if(cb){ in_callback = true; cb(...); in_callback = false; }\<close>, for a callback that does not
  call back into the library.\<close>

definition call_back :: "(callbacks \<Rightarrow> bool) \<Rightarrow> event \<Rightarrow> mosquitto \<Rightarrow> mosquitto" where
  "call_back cb ev s =
     (if cb (cbs s) then s\<lparr>in_callback := False, e_trace := e_trace s @ [ev]\<rparr> else s)"

section \<open>util_mosq.c\<close>

definition mosquitto__mid_generate :: "(mosquitto, uint16) cmd" where
  "mosquitto__mid_generate s =
     (let mid = last_mid s + 1;
          mid = (if mid = 0 then mid + 1 else mid)
      in (Ok mid, s\<lparr>last_mid := mid\<rparr>))"

definition increment_quota :: "mosquitto_msg_data \<Rightarrow> mosquitto_msg_data" where
  "increment_quota d =
     (if inflight_quota d < uint (inflight_maximum d)
      then d\<lparr>inflight_quota := inflight_quota d + 1\<rparr> else d)"

definition decrement_quota :: "mosquitto_msg_data \<Rightarrow> mosquitto_msg_data" where
  "decrement_quota d =
     (if inflight_quota d > 0 then d\<lparr>inflight_quota := inflight_quota d - 1\<rparr> else d)"

definition util__increment_receive_quota :: "mosquitto \<Rightarrow> mosquitto" where
  "util__increment_receive_quota s = s\<lparr>msgs_in := increment_quota (msgs_in s)\<rparr>"

definition util__increment_send_quota :: "mosquitto \<Rightarrow> mosquitto" where
  "util__increment_send_quota s = s\<lparr>msgs_out := increment_quota (msgs_out s)\<rparr>"

definition util__decrement_receive_quota :: "mosquitto \<Rightarrow> mosquitto" where
  "util__decrement_receive_quota s = s\<lparr>msgs_in := decrement_quota (msgs_in s)\<rparr>"

definition util__decrement_send_quota :: "mosquitto \<Rightarrow> mosquitto" where
  "util__decrement_send_quota s = s\<lparr>msgs_out := decrement_quota (msgs_out s)\<rparr>"

definition mosquitto__set_state :: "mosquitto_client_state \<Rightarrow> mosquitto \<Rightarrow> mosquitto" where
  "mosquitto__set_state st s = s\<lparr>cstate := st\<rparr>"

definition mosquitto__get_state :: "mosquitto \<Rightarrow> mosquitto_client_state" where
  "mosquitto__get_state s = cstate s"

definition mosquitto__set_request_disconnect :: "bool \<Rightarrow> mosquitto \<Rightarrow> mosquitto" where
  "mosquitto__set_request_disconnect b s = s\<lparr>request_disconnect := b\<rparr>"

section \<open>net_mosq.c\<close>

definition net__socket_close :: "mosquitto \<Rightarrow> mosquitto" where
  "net__socket_close s = (if sock s \<noteq> INVALID_SOCKET then s\<lparr>sock := INVALID_SOCKET\<rparr> else s)"

text \<open>\<open>read(mosq->sock, buf, count)\<close>: the bytes read, \<open>None\<close> for -1.\<close>

definition net__read :: "nat \<Rightarrow> mosquitto \<Rightarrow> byte list option \<times> mosquitto" where
  "net__read count s =
     (let s = s\<lparr>e_errno := E_OK\<rparr> in
      case e_recvs s of
        [] \<Rightarrow> (None, s\<lparr>e_errno := EAGAIN\<rparr>)
      | Recv_Err e # rs \<Rightarrow> (None, s\<lparr>e_errno := e, e_recvs := rs\<rparr>)
      | Recv_Eof # rs \<Rightarrow> (Some [], s\<lparr>e_recvs := rs\<rparr>)
      | Recv_Data bs # rs \<Rightarrow>
          (Some (take count bs),
           s\<lparr>e_recvs := (if drop count bs = [] then rs else Recv_Data (drop count bs) # rs)\<rparr>))"

text \<open>\<open>send(mosq->sock, buf, count, MSG_NOSIGNAL)\<close>: the bytes sent, \<open>None\<close> for -1.\<close>

definition net__write :: "byte list \<Rightarrow> mosquitto \<Rightarrow> nat option \<times> mosquitto" where
  "net__write buf s =
     (let s = s\<lparr>e_errno := E_OK\<rparr> in
      case e_sends s of
        [] \<Rightarrow> (None, s\<lparr>e_errno := EAGAIN\<rparr>)
      | Send_Err e # rs \<Rightarrow> (None, s\<lparr>e_errno := e, e_sends := rs\<rparr>)
      | Send_Room n # rs \<Rightarrow>
          (Some (min n (length buf)),
           s\<lparr>e_sends := rs, e_wire := e_wire s @ take n buf\<rparr>))"

end
