(* ===== verification/Packet_Out.thy ===== *)
theory Packet_Out
  imports Client
begin

text \<open>
  Outgoing packets, packet_mosq.c: allocating a packet, the size limit, the queue of packets and
  writing it to the socket, and what the client does when its DISCONNECT has been written
  (\<open>do_client_disconnect\<close> of connect.c).
\<close>

unbundle bit_operations_syntax

section \<open>Allocating a packet\<close>

text \<open>The \<open>do ... while(remaining_length > 0 && remaining_count < 5)\<close> loop.\<close>

fun remaining_bytes :: "nat \<Rightarrow> uint32 \<Rightarrow> byte list" where
  "remaining_bytes 0 n = []"
| "remaining_bytes (Suc k) n =
     (if n div 128 > 0 then (ucast (n mod 128) OR 0x80) # remaining_bytes k (n div 128)
      else [ucast (n mod 128)])"

definition packet__alloc :: "(pkt_heap, unit) cmd" where
  "packet__alloc = (\<lambda>(packet, h).
     let bs = remaining_bytes 5 (p_remaining_length packet);
         packet = packet\<lparr>p_payload := [], p_remaining_count := int (length bs)\<rparr> in
     if length bs = 5 then (Err MOSQ_ERR_PAYLOAD_SIZE, (packet, h))
     else
       let packet = packet\<lparr>p_packet_length :=
             p_remaining_length packet + 1 + word_of_nat (length bs)\<rparr> in
       case alloc h of
         (False, h') \<Rightarrow> (Err MOSQ_ERR_NOMEM, (packet, h'))
       | (True, h') \<Rightarrow>
           (Ok (), (packet
              \<lparr>p_payload := store 0 (p_command packet # bs)
                  (fresh_bytes h' (unat (p_packet_length packet))),
               p_pos := 1 + word_of_nat (length bs)\<rparr>, h')))"

definition packet__cleanup :: "mosquitto__packet \<Rightarrow> mosquitto__packet" where
  "packet__cleanup packet = packet
     \<lparr>p_command := 0, p_remaining_count := 0, p_remaining_mult := 1, p_remaining_length := 0,
      p_payload := [], p_to_process := 0, p_pos := 0\<rparr>"

definition packet__check_oversize :: "mosquitto \<Rightarrow> uint32 \<Rightarrow> unit res" where
  "packet__check_oversize s remaining_length =
     (if maximum_packet_size s = 0 then Ok ()
      else if remaining_length + word_of_nat (packet__varint_bytes remaining_length) > maximum_packet_size s
      then Err MOSQ_ERR_OVERSIZE_PACKET else Ok ())"

section \<open>Writing the queue to the socket\<close>

text \<open>\<open>current_out_packet = out_packet; if(out_packet){ out_packet = next; out_packet_count--; }\<close>\<close>

definition next_packet :: "mosquitto \<Rightarrow> mosquitto" where
  "next_packet s = (case out_packet s of
      [] \<Rightarrow> s\<lparr>current_out_packet := None\<rparr>
    | p # ps \<Rightarrow> s\<lparr>current_out_packet := Some p, out_packet := ps,
                out_packet_count := out_packet_count s - 1\<rparr>)"

definition touch_out :: "mosquitto \<Rightarrow> mosquitto" where
  "touch_out s = s\<lparr>next_msg_out := e_now s + uint (keepalive s)\<rparr>"

definition do_client_disconnect :: "int \<Rightarrow> mosquitto_property list \<Rightarrow> mosquitto \<Rightarrow> mosquitto" where
  "do_client_disconnect reason_code properties s =
     (let s = mosquitto__set_state mosq_cs_disconnected s;
          s = net__socket_close s;
          s = next_packet s;
          s = touch_out s;
          s = call_back on_disconnect (Ev_disconnect reason_code) s
      in call_back on_disconnect_v5 (Ev_disconnect_v5 reason_code properties) s)"

text \<open>What the error exits of the read and write loops return for \<open>errno\<close>.\<close>

definition errno_rc :: "errno \<Rightarrow> unit res" where
  "errno_rc e = (case e of
      EAGAIN \<Rightarrow> Ok () | EWOULDBLOCK \<Rightarrow> Ok ()
    | ECONNRESET \<Rightarrow> Err MOSQ_ERR_CONN_LOST
    | EINTR \<Rightarrow> Ok ()
    | _ \<Rightarrow> Err MOSQ_ERR_ERRNO)"

text \<open>
  \<open>while(packet->to_process > 0)\<close>: \<open>None\<close> when the packet is written, otherwise what
  \<open>packet__write\<close> returns; the packet and the client it leaves.
\<close>

function send_loop ::
  "mosquitto__packet \<Rightarrow> mosquitto \<Rightarrow> unit res option \<times> mosquitto__packet \<times> mosquitto"
where
  "send_loop packet s =
     (if p_to_process packet > 0 then
        (if length (p_payload packet) < unat (p_pos packet) + unat (p_to_process packet)
         then (Some Fault, packet, s)
         else case net__write (sub_bytes (unat (p_pos packet)) (unat (p_to_process packet))
                  (p_payload packet)) s of
             (Some (Suc n), s') \<Rightarrow>
               send_loop (packet\<lparr>p_to_process := p_to_process packet - word_of_nat (Suc n),
                                 p_pos := p_pos packet + word_of_nat (Suc n)\<rparr>) s'
           | (_, s') \<Rightarrow> (Some (errno_rc (e_errno s')), packet, s'))
      else (None, packet, s))"
  by pat_completeness auto
termination
  by (relation "measure (\<lambda>(p, s). length (e_sends s))")
    (auto simp: net__write_def Let_def split: list.splits send_outcome.splits)

declare send_loop.simps [simp del]

text \<open>Sending changes the environment of the socket only.\<close>

definition io_frame :: "mosquitto \<Rightarrow> mosquitto \<Rightarrow> bool" where
  "io_frame s s' = (\<exists>e ss w. s' = s\<lparr>e_errno := e, e_sends := ss, e_wire := w\<rparr>)"

lemma io_frame_refl: "io_frame s s"
  unfolding io_frame_def
  by (rule exI [of _ "e_errno s"], rule exI [of _ "e_sends s"], rule exI [of _ "e_wire s"]) simp

lemma io_frame_intros:
  "io_frame s (s\<lparr>e_errno := e\<rparr>)" "io_frame s (s\<lparr>e_errno := e, e_sends := ss\<rparr>)"
  "io_frame s (s\<lparr>e_errno := e, e_sends := ss, e_wire := w\<rparr>)"
  unfolding io_frame_def
  by (rule exI [of _ e], rule exI [of _ "e_sends s"], rule exI [of _ "e_wire s"], simp)
    (rule exI [of _ e], rule exI [of _ ss], rule exI [of _ "e_wire s"], simp, blast)

lemma io_frame_trans: "io_frame s t \<Longrightarrow> io_frame t u \<Longrightarrow> io_frame s u"
  unfolding io_frame_def by fastforce

lemma net__write_cases:
  assumes "net__write buf s = (r, s')"
  obtains (sent) n where "r = Some (min n (length buf))" "io_frame s s'"
      "e_wire s' = e_wire s @ take n buf" "length (e_sends s') < length (e_sends s)"
    | (failed) "r = None" "io_frame s s'" "e_wire s' = e_wire s"
proof (cases "e_sends s")
  case Nil
  then show thesis using assms
    by (intro failed) (auto simp: net__write_def Let_def io_frame_intros)
next
  case (Cons o' os)
  show thesis
  proof (cases o')
    case (Send_Room n)
    then show thesis using assms Cons
      by (intro sent [of n]) (auto simp: net__write_def Let_def io_frame_intros)
  next
    case (Send_Err e)
    then show thesis using assms Cons
      by (intro failed) (auto simp: net__write_def Let_def io_frame_intros)
  qed
qed

text \<open>The rounds of \<open>send_loop\<close>, by what \<open>send\<close> does.\<close>

lemma send_loop_done: "p_to_process p = 0 \<Longrightarrow> send_loop p s = (None, p, s)"
  by (subst send_loop.simps) simp

lemma send_loop_fault:
  "0 < p_to_process p \<Longrightarrow> length (p_payload p) < unat (p_pos p) + unat (p_to_process p) \<Longrightarrow>
   send_loop p s = (Some Fault, p, s)"
  by (subst send_loop.simps) simp

lemma send_loop_step:
  assumes "0 < p_to_process p" "unat (p_pos p) + unat (p_to_process p) \<le> length (p_payload p)"
    and "net__write (sub_bytes (unat (p_pos p)) (unat (p_to_process p)) (p_payload p)) s = (r, s')"
  shows "send_loop p s = (case r of
      Some (Suc n) \<Rightarrow> send_loop (p\<lparr>p_to_process := p_to_process p - word_of_nat (Suc n),
                                p_pos := p_pos p + word_of_nat (Suc n)\<rparr>) s'
    | _ \<Rightarrow> (Some (errno_rc (e_errno s')), p, s'))"
  using assms by (subst send_loop.simps) (simp split: option.split nat.split)

lemma send_loop_frame: "send_loop p s = (r, p', s') \<Longrightarrow> io_frame s s'"
proof (induction "length (e_sends s)" arbitrary: p s r p' s' rule: less_induct)
  case less
  consider "p_to_process p = 0" | "0 < p_to_process p" "length (p_payload p) < unat (p_pos p) + unat (p_to_process p)"
    | "0 < p_to_process p" "unat (p_pos p) + unat (p_to_process p) \<le> length (p_payload p)"
    by (meson leI word_neq_0_conv)
  then show ?case
  proof cases
    case 1
    then show ?thesis using less.prems by (simp add: send_loop_done io_frame_refl)
  next
    case 2
    then show ?thesis using less.prems by (simp add: send_loop_fault io_frame_refl)
  next
    case 3
    obtain n s1 where w: "net__write (sub_bytes (unat (p_pos p)) (unat (p_to_process p)) (p_payload p)) s = (n, s1)"
      by fastforce
    note st = send_loop_step [OF 3 w]
    show ?thesis
    proof (cases "\<exists>k. n = Some (Suc k)")
      case False
      then have "s' = s1" using less.prems st by (auto split: option.splits nat.splits)
      then show ?thesis using w by (auto elim: net__write_cases)
    next
      case True
      then obtain k where k: "n = Some (Suc k)" by blast
      have l: "length (e_sends s1) < length (e_sends s)" "io_frame s s1"
        using w k by (auto elim: net__write_cases)
      show ?thesis
        using less.hyps [OF l(1)] less.prems st k io_frame_trans [OF l(2)] by simp
    qed
  qed
qed

lemma call_back_frame [simp]:
  "out_packet (call_back cb ev s) = out_packet s" "current_out_packet (call_back cb ev s) = current_out_packet s"
  "out_packet_count (call_back cb ev s) = out_packet_count s" "e_wire (call_back cb ev s) = e_wire s"
  by (simp_all add: call_back_def)

text \<open>\<open>while(mosq->current_out_packet)\<close>\<close>

definition packet_sent :: "mosquitto__packet \<Rightarrow> mosquitto \<Rightarrow> mosquitto" where
  "packet_sent packet s =
     (let s = (if p_command packet AND 0xF6 = CMD_PUBLISH then
                 call_back on_publish_v5 (Ev_publish_v5 (uint (p_mid packet)) 0 [])
                   (call_back on_publish (Ev_publish (uint (p_mid packet))) s)
               else s)
      in touch_out (next_packet s))"

lemma write_loop_measure:
  assumes "send_loop p s = (None, p', s')" "current_out_packet s = Some p"
  shows "length (out_packet (packet_sent p' s')) < Suc (length (out_packet s))"
    and "current_out_packet (packet_sent p' s') = Some q \<Longrightarrow>
         length (out_packet (packet_sent p' s')) < length (out_packet s)"
proof -
  have "out_packet s' = out_packet s"
    using send_loop_frame [OF assms(1)] by (auto simp: io_frame_def)
  then show "length (out_packet (packet_sent p' s')) < Suc (length (out_packet s))"
    "current_out_packet (packet_sent p' s') = Some q \<Longrightarrow>
     length (out_packet (packet_sent p' s')) < length (out_packet s)"
    by (auto simp: packet_sent_def touch_out_def next_packet_def Let_def split: list.splits if_splits)
qed

function write_loop :: "(mosquitto, unit) cmd" where
  "write_loop s = (case current_out_packet s of
      None \<Rightarrow> (Ok (), s)
    | Some packet \<Rightarrow>
        (case send_loop packet s of
           (Some r, packet', s') \<Rightarrow> (r, s'\<lparr>current_out_packet := Some packet'\<rparr>)
         | (None, packet', s') \<Rightarrow>
             (if p_command packet AND 0xF6 \<noteq> CMD_PUBLISH \<and> p_command packet AND 0xF0 = CMD_DISCONNECT
              then (Ok (), do_client_disconnect 0 [] s')
              else write_loop (packet_sent packet' s'))))"
  by pat_completeness auto
termination
  by (relation "measure (\<lambda>s. length (out_packet s) + (if current_out_packet s = None then 0 else 1))")
    (auto dest!: sym [of "(None, _)"] simp: write_loop_measure split: if_splits)

declare write_loop.simps [simp del]

definition packet__write :: "(mosquitto, unit) cmd" where
  "packet__write s =
     (if sock s = INVALID_SOCKET then (Err MOSQ_ERR_NO_CONN, s)
      else
        let s = (if out_packet s \<noteq> [] \<and> current_out_packet s = None then next_packet s else s) in
        if mosquitto__get_state s = mosq_cs_connect_pending then (Ok (), s)
        else write_loop s)"

text \<open>The byte written to \<open>sockpairW\<close> wakes a \<open>select\<close> of another thread and is not recorded.\<close>

definition packet__queue :: "mosquitto__packet \<Rightarrow> (mosquitto, unit) cmd" where
  "packet__queue packet s =
     (let packet = packet\<lparr>p_pos := 0, p_to_process := p_packet_length packet\<rparr>;
          s = s\<lparr>out_packet := out_packet s @ [packet], out_packet_count := out_packet_count s + 1\<rparr> in
      if \<not> in_callback s \<and> threaded s = mosq_ts_none then packet__write s
      else (Ok (), s))"

definition packet__cleanup_all :: "mosquitto \<Rightarrow> mosquitto" where
  "packet__cleanup_all s = s\<lparr>current_out_packet := None, out_packet := [], out_packet_count := 0,
     in_packet := packet__cleanup (in_packet s)\<rparr>"

section \<open>The fixed header\<close>

lemma word_div128: "0 < n div (128 :: uint32) \<longleftrightarrow> \<not> unat n < 128"
  by (simp add: word_less_nat_alt unat_div div_greater_zero_iff not_less)

lemma remaining_bytes_enc:
  "length (varint_enc (unat n)) \<le> k \<Longrightarrow> remaining_bytes k n = varint_enc (unat n)"
proof (induction k arbitrary: n)
  case 0
  have "varint_enc (unat n) \<noteq> []" by (subst varint_enc.simps) simp
  with 0 show ?case by simp
next
  case (Suc k)
  show ?case
  proof (cases "unat n < 128")
    case True
    then show ?thesis using word_div128 [of n] low_digit [of n]
      by (subst varint_enc.simps) simp
  next
    case False
    have e: "varint_enc (unat n) = word_of_nat (128 + unat n mod 128) # varint_enc (unat (n div 128))"
      using False by (subst varint_enc.simps) (simp add: unat_div)
    with Suc.prems have "length (varint_enc (unat (n div 128))) \<le> k" by simp
    from Suc.IH [OF this] show ?thesis
      using False word_div128 [of n] low_digit_cont [of n] e
      by (simp del: of_nat_add of_nat_mod)
  qed
qed

lemma length_remaining_bytes:
  "length (remaining_bytes k n) \<le> k" "k \<le> length (varint_enc (unat n)) \<Longrightarrow> length (remaining_bytes k n) = k"
proof (induction k arbitrary: n)
  case (Suc k)
  {
    case 1
    show ?case using Suc by simp
  next
    case 2
    show ?case
    proof (cases "unat n < 128")
      case True
      then show ?thesis using 2 word_div128 [of n] by (subst (asm) varint_enc.simps) simp
    next
      case False
      then have "varint_enc (unat n) = word_of_nat (128 + unat n mod 128) # varint_enc (unat (n div 128))"
        by (subst varint_enc.simps) (simp add: unat_div)
      then show ?thesis using False 2 Suc word_div128 [of n] by simp
    qed
  }
qed simp_all

text \<open>What every packet on the wire looks like.\<close>

definition packet_bytes :: "byte \<Rightarrow> byte list \<Rightarrow> byte list" where
  "packet_bytes command body = command # varint_enc (length body) @ body"

lemma packet__alloc_cases:
  fixes p h
  defines "n \<equiv> unat (p_remaining_length p)"
  shows "if 2 ^ 28 \<le> n then fst (packet__alloc (p, h)) = Err MOSQ_ERR_PAYLOAD_SIZE \<and> snd (snd (packet__alloc (p, h))) = h
    else if \<not> fst (alloc h) then fst (packet__alloc (p, h)) = Err MOSQ_ERR_NOMEM \<and> snd (snd (packet__alloc (p, h))) = snd (alloc h)
    else \<exists>p'. packet__alloc (p, h) = (Ok (), (p', snd (alloc h))) \<and> writable p' \<and> room p' = n
      \<and> written p' = p_command p # varint_enc n \<and> p_command p' = p_command p \<and> p_mid p' = p_mid p
      \<and> p_remaining_length p' = p_remaining_length p"
proof -
  have n32: "n < 2 ^ LENGTH(32)" unfolding n_def by (rule unsigned_less)
  note l5 = varint_enc_le5 [of "p_remaining_length p", folded n_def]
  note l4 = varint_enc_le4 [of "p_remaining_length p", folded n_def]
  have rb: "remaining_bytes 5 (p_remaining_length p) = varint_enc n"
    using remaining_bytes_enc [of "p_remaining_length p" 5] l5 n_def by simp
  show ?thesis
  proof (cases "2 ^ 28 \<le> n")
    case True
    then have "length (varint_enc n) = 5" using l4 l5 by linarith
    with True show ?thesis by (simp add: packet__alloc_def Let_def rb)
  next
    case False
    then have l: "length (varint_enc n) \<le> 4" using l4 by simp
    then have nl: "length (varint_enc n) \<noteq> 5" by linarith
    obtain ok h' where h: "alloc h = (ok, h')" by fastforce
    define L where "L = p_remaining_length p + 1 + word_of_nat (length (varint_enc n))"
    have uL: "unat L = n + 1 + length (varint_enc n)"
    proof -
      have "L = word_of_nat (n + 1 + length (varint_enc n))" by (simp add: L_def n_def)
      moreover have "n + 1 + length (varint_enc n) < 2 ^ LENGTH(32)" using False l by simp
      ultimately show ?thesis by (simp only: unat_of_nat_less)
    qed
    have uP: "unat (1 + word_of_nat (length (varint_enc n)) :: uint32) = 1 + length (varint_enc n)"
    proof -
      have "(1 + word_of_nat (length (varint_enc n)) :: uint32) = word_of_nat (1 + length (varint_enc n))" by simp
      moreover have "1 + length (varint_enc n) < 2 ^ LENGTH(32)" using l by simp
      ultimately show ?thesis by (simp only: unat_of_nat_less)
    qed
    show ?thesis
    proof (cases ok)
      case ok: False
      with False nl h show ?thesis by (simp add: packet__alloc_def Let_def rb)
    next
      case ok: True
      define p' where "p' = snd (packet__alloc (p, h))"
      have st: "packet__alloc (p, h) = (Ok (), (fst p', h'))"
        using ok nl h by (simp add: packet__alloc_def Let_def rb p'_def)
      have fields: "p_packet_length (fst p') = L" "unat (p_pos (fst p')) = 1 + length (varint_enc n)"
        "p_payload (fst p') = store 0 (p_command p # varint_enc n) (fresh_bytes h' (unat L))"
        "p_command (fst p') = p_command p" "p_mid (fst p') = p_mid p"
        "p_remaining_length (fst p') = p_remaining_length p"
        using ok nl h uP by (simp_all add: packet__alloc_def Let_def rb p'_def L_def)
      have w: "writable (fst p')" using fields uL by (simp add: writable_def)
      have r: "room (fst p') = n" using fields uL by (simp add: room_def)
      have "written (fst p') = p_command p # varint_enc n"
        using fields(2,3) take_store [of 0 "fresh_bytes h' (unat L)" "p_command p # varint_enc n"]
        by (simp add: written_def)
      with st w r False ok h fields show ?thesis by auto
    qed
  qed
qed

section \<open>The packets not yet written, and the byte stream\<close>

definition unsent :: "mosquitto__packet \<Rightarrow> byte list" where
  "unsent p = drop (unat (p_pos p)) (p_payload p)"

text \<open>A queued packet: what remains to be written is what follows the position.\<close>

definition queued_ok :: "mosquitto__packet \<Rightarrow> bool" where
  "queued_ok p = (unat (p_pos p) + unat (p_to_process p) = length (p_payload p)
                  \<and> length (p_payload p) < 2 ^ 32)"

definition packets_out :: "mosquitto \<Rightarrow> mosquitto__packet list" where
  "packets_out s = (case current_out_packet s of None \<Rightarrow> [] | Some p \<Rightarrow> [p]) @ out_packet s"

definition out_ok :: "mosquitto \<Rightarrow> bool" where
  "out_ok s = (list_all queued_ok (packets_out s) \<and> out_packet_count s = int (length (out_packet s)))"

text \<open>Everything handed to the socket, followed by everything still queued.\<close>

definition stream :: "mosquitto \<Rightarrow> byte list" where
  "stream s = e_wire s @ concat (map unsent (packets_out s))"

lemma unsent_sub: "queued_ok p \<Longrightarrow> sub_bytes (unat (p_pos p)) (unat (p_to_process p)) (p_payload p) = unsent p"
  by (auto simp: queued_ok_def sub_bytes_def unsent_def)

lemma queued_ok_step:
  assumes "queued_ok p" "k \<le> unat (p_to_process p)"
  defines "q \<equiv> p\<lparr>p_to_process := p_to_process p - word_of_nat k, p_pos := p_pos p + word_of_nat k\<rparr>"
  shows "queued_ok q" "unsent q = drop k (unsent p)"
proof -
  have "unat (p_to_process p) < 2 ^ LENGTH(32)" by (rule unsigned_less)
  with assms(2) have k: "unat (word_of_nat k :: uint32) = k" by (intro unat_of_nat_less) simp
  have t: "unat (p_to_process p - word_of_nat k) = unat (p_to_process p) - k"
    using assms(2) k by (subst unat_sub) (simp_all add: word_le_nat_alt)
  have q: "unat (p_pos p + word_of_nat k) = unat (p_pos p) + k"
    using assms(1,2) by (intro unat_add_word_of_nat) (auto simp: queued_ok_def)
  show "queued_ok q" using assms(1,2) t q by (simp add: queued_ok_def q_def)
  show "unsent q = drop k (unsent p)" using q by (simp add: unsent_def q_def add.commute)
qed

lemma net__write_nothing:
  assumes "net__write buf s = (r, s')" "\<nexists>k. r = Some (Suc k)"
  shows "e_wire s' = e_wire s"
  using assms(1)
proof (rule net__write_cases)
  fix n
  assume "r = Some (min n (length buf))" "e_wire s' = e_wire s @ take n buf"
  moreover from this(1) assms(2) have "min n (length buf) = 0" by (metis not0_implies_Suc)
  ultimately show ?thesis by (auto simp: min_def split: if_splits)
qed

lemma send_loop_stream:
  assumes "send_loop p s = (r, p', s')" "queued_ok p"
  shows "queued_ok p' \<and> p_payload p' = p_payload p \<and> p_command p' = p_command p \<and> p_mid p' = p_mid p
    \<and> e_wire s' @ unsent p' = e_wire s @ unsent p \<and> r \<noteq> Some Fault \<and> (r = None \<longrightarrow> unsent p' = [])"
  using assms
proof (induction "length (e_sends s)" arbitrary: p s r p' s' rule: less_induct)
  case less
  show ?case
  proof (cases "p_to_process p = 0")
    case True
    then show ?thesis using less.prems by (auto simp: send_loop_done unsent_def queued_ok_def)
  next
    case False
    then have p: "0 < p_to_process p" "unat (p_pos p) + unat (p_to_process p) \<le> length (p_payload p)"
      using less.prems(2) by (simp_all add: word_neq_0_conv queued_ok_def)
    obtain n s1 where w: "net__write (unsent p) s = (n, s1)" by fastforce
    note st = send_loop_step [OF p, unfolded unsent_sub [OF less.prems(2)], OF w]
    show ?thesis
    proof (cases "\<exists>k. n = Some (Suc k)")
      case False
      then have "s' = s1" "p' = p" "r = Some (errno_rc (e_errno s1))"
        using less.prems(1) st by (auto split: option.splits nat.splits)
      moreover have "e_wire s1 = e_wire s"
        using net__write_nothing [OF w] False by simp
      ultimately show ?thesis using less.prems(2)
        by (auto simp: errno_rc_def split: errno.splits)
    next
      case True
      then obtain k where k: "n = Some (Suc k)" by blast
      obtain m where m: "Suc k = min m (length (unsent p))" "e_wire s1 = e_wire s @ take (Suc k) (unsent p)"
        "length (e_sends s1) < length (e_sends s)"
        using w k by (auto elim!: net__write_cases simp: min_def split: if_splits)
      have le: "Suc k \<le> unat (p_to_process p)"
        using m(1) less.prems(2) by (auto simp: unsent_def queued_ok_def)
      note q = queued_ok_step [OF less.prems(2) le]
      have "send_loop (p\<lparr>p_to_process := p_to_process p - word_of_nat (Suc k),
          p_pos := p_pos p + word_of_nat (Suc k)\<rparr>) s1 = (r, p', s')"
        using st k less.prems(1) by simp
      from less.hyps [OF m(3) this q(1)] q(2) m(2)
      show ?thesis by (simp del: of_nat_Suc)
    qed
  qed
qed

text \<open>The rest of the client: what writing packets leaves alone. The socket can be closed.\<close>

definition still :: "mosquitto \<Rightarrow> mosquitto" where
  "still s = s\<lparr>sock := 0, cstate := mosq_cs_new, next_msg_out := 0, current_out_packet := None,
     out_packet := [], out_packet_count := 0, in_callback := False, e_sends := [], e_errno := E_OK,
     e_wire := [], e_trace := []\<rparr>"

definition out_frame :: "mosquitto \<Rightarrow> mosquitto \<Rightarrow> bool" where
  "out_frame s s' = (still s' = still s \<and> (sock s' = sock s \<or> sock s' = INVALID_SOCKET))"

lemma out_frameI: "still s' = still s \<Longrightarrow> sock s' = sock s \<or> sock s' = INVALID_SOCKET \<Longrightarrow> out_frame s s'"
  by (simp add: out_frame_def)

lemma out_frame_refl [simp]: "out_frame s s"
  by (simp add: out_frame_def)

lemma out_frame_trans: "out_frame s t \<Longrightarrow> out_frame t u \<Longrightarrow> out_frame s u"
  by (auto simp: out_frame_def)

lemma still_fields:
  "msgs_in (still s) = msgs_in s" "msgs_out (still s) = msgs_out s" "in_packet (still s) = in_packet s"
  "e_heap (still s) = e_heap s" "protocol (still s) = protocol s" "last_mid (still s) = last_mid s"
  "cbs (still s) = cbs s" "aliases (still s) = aliases s" "threaded (still s) = threaded s"
  "maximum_packet_size (still s) = maximum_packet_size s" "e_recvs (still s) = e_recvs s"
  "e_now (still s) = e_now s" "keepalive (still s) = keepalive s" "last_msg_in (still s) = last_msg_in s"
  "max_qos (still s) = max_qos s" "retain_available (still s) = retain_available s"
  "ping_t (still s) = ping_t s" "will (still s) = will s" "client_id (still s) = client_id s"
  by (simp_all add: still_def)

lemma out_frameD:
  assumes "out_frame s s'"
  shows "msgs_in s' = msgs_in s" "msgs_out s' = msgs_out s" "in_packet s' = in_packet s"
    "e_heap s' = e_heap s" "protocol s' = protocol s" "last_mid s' = last_mid s"
    "cbs s' = cbs s" "aliases s' = aliases s" "threaded s' = threaded s"
    "maximum_packet_size s' = maximum_packet_size s" "e_recvs s' = e_recvs s"
    "e_now s' = e_now s" "keepalive s' = keepalive s" "last_msg_in s' = last_msg_in s"
    "max_qos s' = max_qos s" "retain_available s' = retain_available s"
    "ping_t s' = ping_t s" "will s' = will s" "client_id s' = client_id s"
  by (metis assms out_frame_def still_fields)+

lemma out_frame_steps:
  "out_frame s (call_back cb ev s)" "out_frame s (next_packet s)" "out_frame s (touch_out s)"
  "out_frame s (mosquitto__set_state st s)" "out_frame s (net__socket_close s)"
  by (auto intro!: out_frameI simp: still_def call_back_def next_packet_def touch_out_def
      mosquitto__set_state_def net__socket_close_def split: list.split)

lemma io_frame_out: "io_frame s s' \<Longrightarrow> out_frame s s'"
  by (auto simp: io_frame_def still_def intro!: out_frameI)

lemma out_frame_packet_sent: "out_frame s (packet_sent p s)"
  unfolding packet_sent_def Let_def
  by (cases "p_command p AND 246 = 48") (simp_all, (meson out_frame_trans out_frame_steps)+)

lemma out_frame_disconnect: "out_frame s (do_client_disconnect rc props s)"
  unfolding do_client_disconnect_def Let_def
  by (meson out_frame_trans out_frame_steps)

text \<open>Taking the next packet: nothing is lost when the current one is written.\<close>

lemma out_ok_next:
  assumes "out_ok s" "\<And>p. current_out_packet s = Some p \<Longrightarrow> unsent p = []"
  shows "out_ok (next_packet s)" "stream (next_packet s) = stream s"
  using assms
  by (auto simp: out_ok_def stream_def packets_out_def next_packet_def split: list.split option.splits)

lemma packets_out_call_back [simp]:
  "packets_out (call_back cb ev s) = packets_out s" "packets_out (touch_out s) = packets_out s"
  "packets_out (mosquitto__set_state st s) = packets_out s"
  "packets_out (net__socket_close s) = packets_out s"
  by (simp_all add: packets_out_def touch_out_def mosquitto__set_state_def net__socket_close_def)

lemma out_ok_steps [simp]:
  "out_ok (call_back cb ev s) = out_ok s" "out_ok (touch_out s) = out_ok s"
  "out_ok (mosquitto__set_state st s) = out_ok s" "out_ok (net__socket_close s) = out_ok s"
  by (simp_all add: out_ok_def) (simp_all add: touch_out_def mosquitto__set_state_def net__socket_close_def)

lemma stream_steps [simp]:
  "stream (call_back cb ev s) = stream s" "stream (touch_out s) = stream s"
  "stream (mosquitto__set_state st s) = stream s" "stream (net__socket_close s) = stream s"
  by (simp_all add: stream_def) (simp_all add: touch_out_def mosquitto__set_state_def net__socket_close_def)

lemma current_steps [simp]:
  "current_out_packet (touch_out s) = current_out_packet s"
  "current_out_packet (mosquitto__set_state st s) = current_out_packet s"
  "current_out_packet (net__socket_close s) = current_out_packet s"
  by (simp_all add: touch_out_def mosquitto__set_state_def net__socket_close_def)

lemma packet_sent_ok:
  assumes "out_ok s" "\<And>p. current_out_packet s = Some p \<Longrightarrow> unsent p = []"
  shows "out_ok (packet_sent q s)" "stream (packet_sent q s) = stream s"
proof -
  define t where "t = (if p_command q AND 246 = 48 then call_back on_publish_v5
      (Ev_publish_v5 (uint (p_mid q)) 0 []) (call_back on_publish (Ev_publish (uint (p_mid q))) s) else s)"
  have "out_ok t" "stream t = stream s" "current_out_packet t = current_out_packet s"
    using assms(1) by (simp_all add: t_def)
  then show "out_ok (packet_sent q s)" "stream (packet_sent q s) = stream s"
    using out_ok_next [of t] assms(2) by (simp_all add: packet_sent_def Let_def flip: t_def)
qed

lemma do_client_disconnect_ok:
  assumes "out_ok s" "\<And>p. current_out_packet s = Some p \<Longrightarrow> unsent p = []"
  shows "out_ok (do_client_disconnect rc props s)" "stream (do_client_disconnect rc props s) = stream s"
  using assms out_ok_next [of "net__socket_close (mosquitto__set_state mosq_cs_disconnected s)"]
  by (simp_all add: do_client_disconnect_def Let_def)

text \<open>One packet of \<open>packet__write\<close>.\<close>

lemma send_current:
  assumes "current_out_packet s = Some p" "out_ok s" "send_loop p s = (r, p', s')"
  defines "t \<equiv> s'\<lparr>current_out_packet := Some p'\<rparr>"
  shows "out_ok t" "stream t = stream s" "r \<noteq> Some Fault" "out_frame s t" "out_packet s' = out_packet s"
    "r = None \<Longrightarrow> unsent p' = []"
proof -
  have p: "queued_ok p" using assms(1,2) by (simp add: out_ok_def packets_out_def)
  note st = send_loop_stream [OF assms(3) p]
  have f: "io_frame s s'" by (rule send_loop_frame [OF assms(3)])
  then show o: "out_packet s' = out_packet s" by (auto simp: io_frame_def)
  from f have c: "out_packet_count s' = out_packet_count s" by (auto simp: io_frame_def)
  show "out_ok t" using assms(1,2) st o c by (simp add: out_ok_def packets_out_def t_def)
  show "stream t = stream s" using assms(1) st o
    by (simp add: stream_def packets_out_def t_def flip: append_assoc)
  show "r \<noteq> Some Fault" "r = None \<Longrightarrow> unsent p' = []" using st by simp_all
  have "still t = still s'" by (simp add: t_def still_def)
  then show "out_frame s t" using io_frame_out [OF f] by (simp add: out_frame_def t_def)
qed

lemma current_commutes:
  "call_back cb ev (s\<lparr>current_out_packet := c\<rparr>) = (call_back cb ev s)\<lparr>current_out_packet := c\<rparr>"
  "mosquitto__set_state st (s\<lparr>current_out_packet := c\<rparr>) = (mosquitto__set_state st s)\<lparr>current_out_packet := c\<rparr>"
  "net__socket_close (s\<lparr>current_out_packet := c\<rparr>) = (net__socket_close s)\<lparr>current_out_packet := c\<rparr>"
  "next_packet (s\<lparr>current_out_packet := c\<rparr>) = next_packet s"
  by (simp_all add: call_back_def mosquitto__set_state_def net__socket_close_def next_packet_def
      split: list.split)

lemma packet_sent_current: "packet_sent p (s\<lparr>current_out_packet := c\<rparr>) = packet_sent p s"
  by (simp add: packet_sent_def Let_def current_commutes)

lemma do_client_disconnect_current:
  "do_client_disconnect rc props (s\<lparr>current_out_packet := c\<rparr>) = do_client_disconnect rc props s"
  by (simp add: do_client_disconnect_def Let_def current_commutes)

lemma write_loop_none: "current_out_packet s = None \<Longrightarrow> write_loop s = (Ok (), s)"
  by (subst write_loop.simps) simp

lemma write_loop_blocked:
  "current_out_packet s = Some p \<Longrightarrow> send_loop p s = (Some r, p', s') \<Longrightarrow>
   write_loop s = (r, s'\<lparr>current_out_packet := Some p'\<rparr>)"
  by (subst write_loop.simps) simp

lemma write_loop_sent:
  assumes "current_out_packet s = Some p" "send_loop p s = (None, p', s')"
  defines "t \<equiv> s'\<lparr>current_out_packet := Some p'\<rparr>"
  shows "write_loop s =
    (if p_command p AND 0xF6 \<noteq> CMD_PUBLISH \<and> p_command p AND 0xF0 = CMD_DISCONNECT
     then (Ok (), do_client_disconnect 0 [] t) else write_loop (packet_sent p' t))"
  using assms(1,2) unfolding t_def packet_sent_current do_client_disconnect_current
  by (subst write_loop.simps) simp

lemma write_loop_ok:
  "out_ok s \<Longrightarrow> write_loop s = (r, s') \<Longrightarrow>
   out_ok s' \<and> stream s' = stream s \<and> out_frame s s' \<and> r \<noteq> Fault"
proof (induction "length (out_packet s)" arbitrary: s r s' rule: less_induct)
  case less
  show ?case
  proof (cases "current_out_packet s")
    case None
    then show ?thesis using less.prems by (auto simp: write_loop_none)
  next
    case (Some p)
    obtain rr p' s1 where sl: "send_loop p s = (rr, p', s1)" using prod_cases3 by blast
    define t where "t = s1\<lparr>current_out_packet := Some p'\<rparr>"
    note sc = send_current [OF Some less.prems(1) sl, folded t_def]
    show ?thesis
    proof (cases rr)
      case (Some x)
      with sl sc(1-4) less.prems(2) show ?thesis
        by (auto simp: write_loop_blocked [OF \<open>current_out_packet s = Some p\<close>] t_def)
    next
      case None
      note st = write_loop_sent [OF Some sl [unfolded None], folded t_def]
      have d: "current_out_packet t = Some q \<Longrightarrow> unsent q = []" for q
        using sc(6) [OF None] by (simp add: t_def)
      show ?thesis
      proof (cases "p_command p AND 0xF6 \<noteq> CMD_PUBLISH \<and> p_command p AND 0xF0 = CMD_DISCONNECT")
        case True
        then show ?thesis using st less.prems(2) do_client_disconnect_ok [OF sc(1) d] sc
          out_frame_trans [OF sc(4) out_frame_disconnect] by auto
      next
        case False
        then have w: "write_loop (packet_sent p' t) = (r, s')" using st less.prems(2) by auto
        note ps = packet_sent_ok [OF sc(1) d, of p']
        have f: "out_frame s (packet_sent p' t)"
          using out_frame_trans [OF sc(4) out_frame_packet_sent] .
        show ?thesis
        proof (cases "out_packet s")
          case Nil
          then have "current_out_packet (packet_sent p' t) = None"
            using sc(5) by (simp add: t_def packet_sent_def next_packet_def Let_def)
          then have "s' = packet_sent p' t \<and> r = Ok ()" using w by (auto simp: write_loop_none)
          then show ?thesis using ps sc(2) f by simp
        next
          case (Cons q qs)
          then have l: "length (out_packet (packet_sent p' t)) < length (out_packet s)"
            using sc(5) by (simp add: t_def packet_sent_def next_packet_def touch_out_def Let_def)
          show ?thesis using less.hyps [OF l ps(1) w] ps(2) sc(2) out_frame_trans [OF f] by auto
        qed
      qed
    qed
  qed
qed

lemma packet__write_ok:
  assumes "out_ok s" "packet__write s = (r, s')"
  shows "out_ok s' \<and> stream s' = stream s \<and> out_frame s s' \<and> r \<noteq> Fault"
proof -
  define t where "t = (if out_packet s \<noteq> [] \<and> current_out_packet s = None then next_packet s else s)"
  have t: "out_ok t" "stream t = stream s" "out_frame s t"
    using assms(1) out_ok_next [of s] out_frame_steps(2) [of s] by (auto simp: t_def)
  show ?thesis
    using assms t write_loop_ok [OF t(1)] out_frame_trans [OF t(3)]
    by (fastforce simp: packet__write_def Let_def simp flip: t_def split: if_splits)
qed

text \<open>A packet that a sender hands to \<open>packet__queue\<close>: its buffer is full.\<close>

definition complete :: "mosquitto__packet \<Rightarrow> bool" where
  "complete p = (writable p \<and> room p = 0)"

lemma complete_written:
  assumes "complete p"
  shows "written p = p_payload p" "unat (p_packet_length p) = length (p_payload p)"
  using assms pos_room [of p] by (auto simp: complete_def written_def)

lemma packet__queue_ok:
  assumes "out_ok s" "complete p" "packet__queue p s = (r, s')"
  shows "out_ok s' \<and> stream s' = stream s @ p_payload p \<and> out_frame s s' \<and> r \<noteq> Fault"
proof -
  define q where "q = p\<lparr>p_pos := 0, p_to_process := p_packet_length p\<rparr>"
  define t where "t = s\<lparr>out_packet := out_packet s @ [q], out_packet_count := out_packet_count s + 1\<rparr>"
  have "unat (p_packet_length p) < 2 ^ LENGTH(32)" by (rule unsigned_less)
  then have q: "queued_ok q" "unsent q = p_payload p"
    using complete_written(2) [OF assms(2)] by (auto simp: q_def queued_ok_def unsent_def)
  have t: "out_ok t" "stream t = stream s @ p_payload p"
    using assms(1) q by (auto simp: out_ok_def stream_def packets_out_def t_def)
  have f: "out_frame s t" by (simp add: out_frame_def still_def t_def)
  have "packet__queue p s = (if \<not> in_callback s \<and> threaded s = mosq_ts_none then packet__write t else (Ok (), t))"
    by (simp add: packet__queue_def Let_def q_def t_def)
  then show ?thesis
    using assms(3) t f packet__write_ok [OF t(1), of r s'] out_frame_trans [OF f, of s']
    by (cases "\<not> in_callback s \<and> threaded s = mosq_ts_none") auto
qed

end
