(* ===== verification/Send.thy ===== *)
theory Send
  imports Packet_Out
begin

text \<open>
  The functions that build one control packet and queue it: send_mosq.c, send_publish.c,
  send_connect.c, send_subscribe.c, send_unsubscribe.c and send_disconnect.c. A C string is the
  list of its bytes without the NUL, so \<open>strlen\<close> is \<open>length\<close>; a NULL string is \<open>None\<close> and a
  NULL property list is the empty list. The codes returned by \<open>packet__write_varint\<close> and
  \<open>property__write_all\<close> are dropped, as the code drops them.
\<close>

unbundle bit_operations_syntax

definition c_strlen :: "byte list \<Rightarrow> uint32" where
  "c_strlen str = word_of_nat (length str)"

text \<open>\<open>packet__write_string(packet, str, (uint16_t)strlen(str))\<close>\<close>

definition put_string :: "byte list \<Rightarrow> (pkt_heap, unit) cmd" where
  "put_string str = on_packet (packet__write_string (Some str) (word_of_nat (length str)))"

section \<open>send_mosq.c\<close>

definition send__command_with_mid ::
  "byte \<Rightarrow> uint16 \<Rightarrow> bool \<Rightarrow> byte \<Rightarrow> mosquitto_property list \<Rightarrow> (mosquitto, unit) cmd"
where
  "send__command_with_mid command mid dup reason_code properties =
     then_do need_memory (\<lambda>_.
     then_do get_st (\<lambda>mosq.
     let v5 = (protocol mosq = mosq_p_mqtt5);
         with_reason = (reason_code \<noteq> 0 \<or> properties \<noteq> []);
         remaining_length = 2 +
           (if v5 then (if with_reason then 1 else 0)
              + (if properties \<noteq> [] then property__get_remaining_length properties else 0)
            else 0);
         packet = zero_packet
           \<lparr>p_command := (if dup then command OR 8 else command), p_remaining_length := remaining_length\<rparr>
     in then_do (on_new_packet packet packet__alloc) (\<lambda>packet.
        then_do (on_new_packet packet (
          then_do (on_packet (packet__write_uint16 mid)) (\<lambda>_.
          if v5 then
            then_do (if with_reason then on_packet (packet__write_byte reason_code) else ret ()) (\<lambda>_.
            if properties \<noteq> [] then on_packet (ignore_rc (property__write_all properties True)) else ret ())
          else ret ())))
        packet__queue)))"

definition send__simple_command :: "byte \<Rightarrow> (mosquitto, unit) cmd" where
  "send__simple_command command =
     then_do need_memory (\<lambda>_.
     then_do (on_new_packet (zero_packet\<lparr>p_command := command, p_remaining_length := 0\<rparr>) packet__alloc)
       packet__queue)"

definition send__pingreq :: "(mosquitto, unit) cmd" where
  "send__pingreq =
     then_do (send__simple_command CMD_PINGREQ) (\<lambda>_. modify (\<lambda>s. s\<lparr>ping_t := e_now s\<rparr>))"

definition send__pingresp :: "(mosquitto, unit) cmd" where
  "send__pingresp = send__simple_command CMD_PINGRESP"

definition send__puback :: "uint16 \<Rightarrow> byte \<Rightarrow> mosquitto_property list \<Rightarrow> (mosquitto, unit) cmd" where
  "send__puback mid reason_code properties =
     then_do (modify util__increment_receive_quota) (\<lambda>_.
     send__command_with_mid CMD_PUBACK mid False reason_code properties)"

definition send__pubcomp :: "uint16 \<Rightarrow> mosquitto_property list \<Rightarrow> (mosquitto, unit) cmd" where
  "send__pubcomp mid properties =
     then_do (modify util__increment_receive_quota) (\<lambda>_.
     send__command_with_mid CMD_PUBCOMP mid False 0 properties)"

definition send__pubrec :: "uint16 \<Rightarrow> byte \<Rightarrow> mosquitto_property list \<Rightarrow> (mosquitto, unit) cmd" where
  "send__pubrec mid reason_code properties =
     then_do (modify (\<lambda>s. if reason_code \<ge> 0x80 \<and> protocol s = mosq_p_mqtt5
                          then util__increment_receive_quota s else s)) (\<lambda>_.
     send__command_with_mid CMD_PUBREC mid False reason_code properties)"

definition send__pubrel :: "uint16 \<Rightarrow> mosquitto_property list \<Rightarrow> (mosquitto, unit) cmd" where
  "send__pubrel mid properties = send__command_with_mid (CMD_PUBREL OR 2) mid False 0 properties"

section \<open>send_publish.c\<close>

text \<open>
  \<open>payload\<close> is the memory at the payload pointer. The library's own calls pass no
  \<open>store_props\<close> and no \<open>expiry_interval\<close>, but the function takes them.
\<close>

definition expiry_property :: "uint32 \<Rightarrow> mosquitto_property" where
  "expiry_property expiry_interval = zero_property
     \<lparr>pr_i32 := expiry_interval, pr_identifier := MQTT_PROP_MESSAGE_EXPIRY_INTERVAL\<rparr>"

definition send__real_publish ::
  "uint16 \<Rightarrow> byte list option \<Rightarrow> uint32 \<Rightarrow> byte list \<Rightarrow> byte \<Rightarrow> bool \<Rightarrow> bool
   \<Rightarrow> mosquitto_property list \<Rightarrow> mosquitto_property list \<Rightarrow> uint32 \<Rightarrow> (mosquitto, unit) cmd"
where
  "send__real_publish mid topic payloadlen payload qos retain dup cmsg_props store_props expiry_interval =
     then_do get_st (\<lambda>mosq.
     let v5 = (protocol mosq = mosq_p_mqtt5);
         packetlen = 2 + (case topic of Some t \<Rightarrow> c_strlen t | None \<Rightarrow> 0) + payloadlen;
         packetlen = (if qos > 0 then packetlen + 2 else packetlen);
         proplen = property__get_length_all cmsg_props + property__get_length_all store_props
           + (if expiry_interval > 0 then property__get_length_all [expiry_property expiry_interval] else 0);
         varbytes = packet__varint_bytes proplen;
         drop_props = (v5 \<and> varbytes > 4);
         cmsg_props = (if drop_props then [] else cmsg_props);
         store_props = (if drop_props then [] else store_props);
         expiry_interval = (if drop_props then 0 else expiry_interval);
         packetlen = (if v5 \<and> \<not> varbytes > 4 then packetlen + (proplen + word_of_nat varbytes) else packetlen)
     in (case packet__check_oversize mosq packetlen of
           Err _ \<Rightarrow> throw MOSQ_ERR_OVERSIZE_PACKET
         | Fault \<Rightarrow> fault
         | Ok _ \<Rightarrow>
             then_do need_memory (\<lambda>_.
             then_do (on_new_packet (zero_packet
                 \<lparr>p_mid := mid,
                  p_command := CMD_PUBLISH OR (if dup then 8 else 0) OR push_bit 1 qos OR (if retain then 1 else 0),
                  p_remaining_length := packetlen\<rparr>) packet__alloc) (\<lambda>packet.
             then_do (on_new_packet packet (
               then_do (case topic of Some t \<Rightarrow> put_string t | None \<Rightarrow> on_packet (packet__write_uint16 0)) (\<lambda>_.
               then_do (if qos > 0 then on_packet (packet__write_uint16 mid) else ret ()) (\<lambda>_.
               then_do (if v5 then
                   then_do (on_packet (ignore_rc (packet__write_varint proplen))) (\<lambda>_.
                   then_do (on_packet (ignore_rc (property__write_all cmsg_props False))) (\<lambda>_.
                   then_do (on_packet (ignore_rc (property__write_all store_props False))) (\<lambda>_.
                   if expiry_interval > 0
                   then on_packet (ignore_rc (property__write_all [expiry_property expiry_interval] False))
                   else ret ())))
                 else ret ()) (\<lambda>_.
               if payloadlen \<noteq> 0 then on_packet (packet__write_bytes payload payloadlen) else ret ())))))
             packet__queue))))"

definition send__publish ::
  "uint16 \<Rightarrow> byte list option \<Rightarrow> uint32 \<Rightarrow> byte list \<Rightarrow> byte \<Rightarrow> bool \<Rightarrow> bool
   \<Rightarrow> mosquitto_property list \<Rightarrow> mosquitto_property list \<Rightarrow> uint32 \<Rightarrow> (mosquitto, unit) cmd"
where
  "send__publish mid topic payloadlen payload qos retain dup cmsg_props store_props expiry_interval =
     then_do get_st (\<lambda>mosq.
     if sock mosq = INVALID_SOCKET then throw MOSQ_ERR_NO_CONN
     else send__real_publish mid topic payloadlen payload qos (retain \<and> retain_available mosq \<noteq> 0) dup
            cmsg_props store_props expiry_interval)"

section \<open>send_subscribe.c, send_unsubscribe.c\<close>

text \<open>The length loop: \<open>None\<close> when a topic is longer than \<open>UINT16_MAX\<close>.\<close>

fun topics_length :: "uint32 \<Rightarrow> uint32 \<Rightarrow> byte list list \<Rightarrow> uint32 option" where
  "topics_length extra packetlen [] = Some packetlen"
| "topics_length extra packetlen (t # ts) =
     (if length t > 65535 then None
      else topics_length extra (packetlen + (2 + ucast (word_of_nat (length t) :: uint16) + extra)) ts)"

fun write_topics :: "byte option \<Rightarrow> byte list list \<Rightarrow> (pkt_heap, unit) cmd" where
  "write_topics opt [] = ret ()"
| "write_topics opt (t # ts) =
     then_do (put_string t) (\<lambda>_.
     then_do (case opt of Some b \<Rightarrow> on_packet (packet__write_byte b) | None \<Rightarrow> ret ()) (\<lambda>_.
     write_topics opt ts))"

text \<open>The result is the packet identifier stored through \<open>mid\<close>, with the code of the queueing.\<close>

definition send__subscribe ::
  "byte list list \<Rightarrow> int \<Rightarrow> mosquitto_property list \<Rightarrow> (mosquitto, uint16 \<times> mosq_err) cmd"
where
  "send__subscribe topic topic_qos properties =
     then_do get_st (\<lambda>mosq.
     let v5 = (protocol mosq = mosq_p_mqtt5) in
     case topics_length 1 (2 + (if v5 then property__get_remaining_length properties else 0)) topic of
       None \<Rightarrow> throw MOSQ_ERR_INVAL
     | Some packetlen \<Rightarrow>
         then_do need_memory (\<lambda>_.
         then_do (on_new_packet (zero_packet
             \<lparr>p_command := CMD_SUBSCRIBE OR 2, p_remaining_length := packetlen\<rparr>) packet__alloc) (\<lambda>packet.
         then_do mosquitto__mid_generate (\<lambda>local_mid.
         then_do (on_new_packet packet (
           then_do (on_packet (packet__write_uint16 local_mid)) (\<lambda>_.
           then_do (if v5 then on_packet (ignore_rc (property__write_all properties True)) else ret ()) (\<lambda>_.
           write_topics (Some (word_of_int topic_qos)) topic)))) (\<lambda>packet.
         then_do (rc_of (packet__queue packet)) (\<lambda>rc. ret (local_mid, rc)))))))"

definition send__unsubscribe ::
  "byte list list \<Rightarrow> mosquitto_property list \<Rightarrow> (mosquitto, uint16 \<times> mosq_err) cmd"
where
  "send__unsubscribe topic properties =
     then_do get_st (\<lambda>mosq.
     let v5 = (protocol mosq = mosq_p_mqtt5) in
     case topics_length 0 2 topic of
       None \<Rightarrow> throw MOSQ_ERR_INVAL
     | Some packetlen \<Rightarrow>
         then_do need_memory (\<lambda>_.
         let packetlen = packetlen + (if v5 then property__get_remaining_length properties else 0) in
         then_do (on_new_packet (zero_packet
             \<lparr>p_command := CMD_UNSUBSCRIBE OR 2, p_remaining_length := packetlen\<rparr>) packet__alloc) (\<lambda>packet.
         then_do mosquitto__mid_generate (\<lambda>local_mid.
         then_do (on_new_packet packet (
           then_do (on_packet (packet__write_uint16 local_mid)) (\<lambda>_.
           then_do (if v5 then on_packet (ignore_rc (property__write_all properties True)) else ret ()) (\<lambda>_.
           write_topics None topic)))) (\<lambda>packet.
         then_do (rc_of (packet__queue packet)) (\<lambda>rc. ret (local_mid, rc)))))))"

section \<open>send_disconnect.c\<close>

definition send__disconnect :: "byte \<Rightarrow> mosquitto_property list \<Rightarrow> (mosquitto, unit) cmd" where
  "send__disconnect reason_code properties =
     then_do need_memory (\<lambda>_.
     then_do get_st (\<lambda>mosq.
     let with_reason = (protocol mosq = mosq_p_mqtt5 \<and> (reason_code \<noteq> 0 \<or> properties \<noteq> []));
         remaining_length = (if with_reason
           then 1 + (if properties \<noteq> [] then property__get_remaining_length properties else 0) else 0) in
     then_do (on_new_packet (zero_packet
         \<lparr>p_command := CMD_DISCONNECT, p_remaining_length := remaining_length\<rparr>) packet__alloc) (\<lambda>packet.
     then_do (on_new_packet packet (
       if with_reason then
         then_do (on_packet (packet__write_byte reason_code)) (\<lambda>_.
         if properties \<noteq> [] then on_packet (ignore_rc (property__write_all properties True)) else ret ())
       else ret ()))
     packet__queue)))"

section \<open>send_connect.c\<close>

definition PROTOCOL_NAME_v31 :: "byte list" where
  "PROTOCOL_NAME_v31 = [0x4D, 0x51, 0x49, 0x73, 0x64, 0x70]"

definition PROTOCOL_NAME :: "byte list" where
  "PROTOCOL_NAME = [0x4D, 0x51, 0x54, 0x54]"

text \<open>\<open>payloadlen += (uint32_t)(2+strlen(s))\<close>, for a string that is not NULL.\<close>

definition opt_length :: "byte list option \<Rightarrow> uint32" where
  "opt_length str = (case str of None \<Rightarrow> 0 | Some v \<Rightarrow> 2 + c_strlen v)"

definition put_opt_string :: "byte list option \<Rightarrow> (pkt_heap, unit) cmd" where
  "put_opt_string str = (case str of None \<Rightarrow> ret () | Some v \<Rightarrow> put_string v)"

text \<open>The connect flags.\<close>

definition connect_flags_byte :: "mosquitto \<Rightarrow> bool \<Rightarrow> byte" where
  "connect_flags_byte mosq clean_session =
     (if clean_session then 2 else 0)
     OR (case will mosq of None \<Rightarrow> 0 | Some w \<Rightarrow>
          push_bit 3 (word_of_int (m_qos (ma_msg w)) AND 3) OR 4
          OR (if retain_available mosq \<noteq> 0 \<and> m_retain (ma_msg w) then 32 else 0))
     OR (if username mosq \<noteq> None then 128 else 0)
     OR (if password mosq \<noteq> None then 64 else 0)"

text \<open>The properties generated from options: the list, for MQTT 5 only.\<close>

definition connect_local_props :: "mosquitto_property list \<Rightarrow> (mosquitto, mosquitto_property list) cmd" where
  "connect_local_props properties =
     then_do get_st (\<lambda>mosq.
     if protocol mosq \<noteq> mosq_p_mqtt5 then ret []
     else case mosquitto_property_read_int16 properties MQTT_PROP_RECEIVE_MAXIMUM False of
         None \<Rightarrow> on_heap (mosquitto_property_add_int16 (Some []) MQTT_PROP_RECEIVE_MAXIMUM
                   (inflight_maximum (msgs_in mosq)))
       | Some (_, receive_maximum) \<Rightarrow>
           then_do (modify (\<lambda>s. s\<lparr>msgs_in := (msgs_in s)
             \<lparr>inflight_maximum := receive_maximum, inflight_quota := uint receive_maximum\<rparr>\<rparr>)) (\<lambda>_.
           ret []))"

text \<open>The bytes of the payload that \<open>remaining_length\<close> announces; a will without topic is a failed
  \<open>assert\<close>.\<close>

definition connect_payload_length :: "mosquitto \<Rightarrow> uint32" where
  "connect_payload_length mosq =
     (case client_id mosq of Some v \<Rightarrow> 2 + c_strlen v | None \<Rightarrow> 2)
     + (case will mosq of None \<Rightarrow> 0 | Some w \<Rightarrow>
          opt_length (m_topic (ma_msg w)) + 2 + word_of_int (m_payloadlen (ma_msg w))
          + (if protocol mosq = mosq_p_mqtt5 then property__get_remaining_length (ma_properties w) else 0))
     + opt_length (username mosq) + opt_length (password mosq)"

definition write_connect_will :: "mosquitto \<Rightarrow> (pkt_heap, unit) cmd" where
  "write_connect_will mosq = (case will mosq of None \<Rightarrow> ret () | Some w \<Rightarrow>
     then_do (if protocol mosq = mosq_p_mqtt5
       then on_packet (ignore_rc (property__write_all (ma_properties w) True)) else ret ()) (\<lambda>_.
     then_do (put_opt_string (m_topic (ma_msg w))) (\<lambda>_.
     on_packet (packet__write_string (Some (m_payload (ma_msg w)))
       (word_of_int (m_payloadlen (ma_msg w)))))))"

definition send__connect ::
  "uint16 \<Rightarrow> bool \<Rightarrow> mosquitto_property list \<Rightarrow> (mosquitto, unit) cmd"
where
  "send__connect new_keepalive clean_session properties =
     then_do get_st (\<lambda>mosq.
     if protocol mosq = mosq_p_mqtt31 \<and> client_id mosq = None then throw MOSQ_ERR_PROTOCOL
     else
     then_do (connect_local_props properties) (\<lambda>local_props.
     let v5 = (protocol mosq = mosq_p_mqtt5);
         version = (if v5 then PROTOCOL_VERSION_v5
           else if protocol mosq = mosq_p_mqtt311 then PROTOCOL_VERSION_v311 else PROTOCOL_VERSION_v31);
         proplen = property__get_length_all properties + property__get_length_all local_props;
         headerlen = (if v5 then 10 + (proplen + word_of_nat (packet__varint_bytes proplen))
           else if protocol mosq = mosq_p_mqtt311 then 10 else 12)
     in
     if protocol mosq \<notin> {mosq_p_mqtt31, mosq_p_mqtt311, mosq_p_mqtt5} then throw MOSQ_ERR_INVAL
     else
     then_do need_memory (\<lambda>_.
     if (case will mosq of None \<Rightarrow> False | Some w \<Rightarrow> m_topic (ma_msg w) = None) then fault
     else if \<not> v5 \<and> password mosq \<noteq> None \<and> username mosq = None then throw MOSQ_ERR_INVAL
     else
     then_do (on_new_packet (zero_packet
         \<lparr>p_command := CMD_CONNECT, p_remaining_length := headerlen + connect_payload_length mosq\<rparr>)
         packet__alloc) (\<lambda>packet.
     then_do (on_new_packet packet (
       then_do (put_string (if version = PROTOCOL_VERSION_v31 then PROTOCOL_NAME_v31 else PROTOCOL_NAME)) (\<lambda>_.
       then_do (on_packet (packet__write_byte version)) (\<lambda>_.
       then_do (on_packet (packet__write_byte (connect_flags_byte mosq clean_session))) (\<lambda>_.
       then_do (on_packet (packet__write_uint16 new_keepalive)) (\<lambda>_.
       then_do (if v5 then
           then_do (on_packet (ignore_rc (packet__write_varint proplen))) (\<lambda>_.
           then_do (on_packet (ignore_rc (property__write_all properties False))) (\<lambda>_.
           on_packet (ignore_rc (property__write_all local_props False))))
         else ret ()) (\<lambda>_.
       then_do (case client_id mosq of Some v \<Rightarrow> put_string v | None \<Rightarrow> on_packet (packet__write_uint16 0)) (\<lambda>_.
       then_do (write_connect_will mosq) (\<lambda>_.
       then_do (put_opt_string (username mosq)) (\<lambda>_.
       put_opt_string (password mosq))))))))))) (\<lambda>packet.
     then_do (modify (\<lambda>s. s\<lparr>keepalive := new_keepalive\<rparr>)) (\<lambda>_.
     packet__queue packet))))))"

section \<open>Bodies of packets as functions of the bytes they add\<close>

definition fills :: "(pkt_heap, unit) cmd \<Rightarrow> byte list \<Rightarrow> bool" where
  "fills c bs = (\<forall>p h. writable p \<longrightarrow> length bs \<le> room p \<longrightarrow> c (p, h) = (Ok (), (put bs p, h)))"

named_theorems fills_intros

lemma fills_ret [fills_intros]: "fills (ret ()) []"
  by (simp add: fills_def ret_def)

lemma fills_on_packet [fills_intros]: "writes c bs \<Longrightarrow> fills (on_packet c) bs"
  by (simp add: fills_def writes_def on_packet_run)

lemma fills_then_do [fills_intros]:
  "fills c xs \<Longrightarrow> fills d ys \<Longrightarrow> fills (then_do c (\<lambda>_. d)) (xs @ ys)"
  by (simp add: fills_def then_do_def)

lemma fills_if [fills_intros]:
  "(b \<Longrightarrow> fills c xs) \<Longrightarrow> (\<not> b \<Longrightarrow> fills d ys) \<Longrightarrow> fills (if b then c else d) (if b then xs else ys)"
  by simp

lemma writes_ignore_rc [writes_intros]: "writes c bs \<Longrightarrow> writes (ignore_rc c) bs"
  by (simp add: writes_def ignore_rc_def then_do_def rc_of_def ret_def)

lemma fills_string [fills_intros]: "length str < 65536 \<Longrightarrow> fills (put_string str) (enc_field str)"
  unfolding put_string_def by (intro fills_intros writes_field) simp

section \<open>What a send does to the client\<close>

text \<open>
  A send of the bytes \<open>bs\<close>: they are appended to the byte stream, in one piece and behind
  everything queued before, and the client changes by \<open>f\<close>; or an allocation failed, nothing is
  queued and \<open>MOSQ_ERR_NOMEM\<close> is returned. Besides, only the output side and the heap change.
\<close>

definition sends ::
  "(mosquitto \<Rightarrow> mosquitto) \<Rightarrow> mosquitto \<Rightarrow> byte list \<Rightarrow> 'a res \<times> mosquitto \<Rightarrow> bool"
where
  "sends f s bs x =
     (fst x \<noteq> Fault \<and> out_ok (snd x) \<and> (\<exists>h. (never_fails (e_heap s) \<longrightarrow> h = e_heap s)
      \<and> (stream (snd x) = stream s @ bs \<and> out_frame ((f s)\<lparr>e_heap := h\<rparr>) (snd x)
         \<or> stream (snd x) = stream s \<and> out_frame (s\<lparr>e_heap := h\<rparr>) (snd x)
           \<and> fst x = Err MOSQ_ERR_NOMEM \<and> \<not> never_fails (e_heap s))))"

lemma sendsE:
  assumes "sends f s bs (r, s')"
  obtains (sent) h where "r \<noteq> Fault" "out_ok s'" "stream s' = stream s @ bs"
      "out_frame ((f s)\<lparr>e_heap := h\<rparr>) s'" "never_fails (e_heap s) \<longrightarrow> h = e_heap s"
    | (nomem) h where "r = Err MOSQ_ERR_NOMEM" "out_ok s'" "stream s' = stream s"
      "out_frame (s\<lparr>e_heap := h\<rparr>) s'" "\<not> never_fails (e_heap s)"
  using assms unfolding sends_def by (metis fst_conv snd_conv)

lemma sends_sentI:
  assumes "fst x \<noteq> Fault" "out_ok (snd x)" "stream (snd x) = stream s @ bs"
    "out_frame ((f s)\<lparr>e_heap := h\<rparr>) (snd x)" "never_fails (e_heap s) \<Longrightarrow> h = e_heap s"
  shows "sends f s bs x"
  using assms unfolding sends_def by blast

lemma heap_out [simp]:
  "out_ok (s\<lparr>e_heap := h\<rparr>) = out_ok s" "stream (s\<lparr>e_heap := h\<rparr>) = stream s"
  by (simp_all add: out_ok_def stream_def packets_out_def)

lemma heap_fields:
  "protocol (s\<lparr>e_heap := h\<rparr>) = protocol s" "sock (s\<lparr>e_heap := h\<rparr>) = sock s"
  "retain_available (s\<lparr>e_heap := h\<rparr>) = retain_available s"
  "maximum_packet_size (s\<lparr>e_heap := h\<rparr>) = maximum_packet_size s" "last_mid (s\<lparr>e_heap := h\<rparr>) = last_mid s"
  by simp_all

lemma sends_nomemI:
  assumes "x = (Err MOSQ_ERR_NOMEM, s\<lparr>e_heap := h\<rparr>)" "out_ok s" "\<not> never_fails (e_heap s)"
  shows "sends f s bs x"
  using assms unfolding sends_def by (auto intro: exI [of _ h])

lemma need_memory_then:
  "then_do need_memory c s = (case alloc (e_heap s) of (ok, h) \<Rightarrow>
     if ok then c () (s\<lparr>e_heap := h\<rparr>) else (Err MOSQ_ERR_NOMEM, s\<lparr>e_heap := h\<rparr>))"
  by (simp add: then_do_def need_memory_def on_heap_def with_alloc_def ret_def split: prod.split bool.split)

lemma sends_need_memory:
  assumes "out_ok s" and f: "\<And>h h'. (f (s\<lparr>e_heap := h\<rparr>))\<lparr>e_heap := h'\<rparr> = (f s)\<lparr>e_heap := h'\<rparr>"
    and c: "\<And>h. sends f (s\<lparr>e_heap := h\<rparr>) bs (c (s\<lparr>e_heap := h\<rparr>))"
  shows "sends f s bs (then_do need_memory (\<lambda>_. c) s)"
proof -
  obtain b h where h: "alloc (e_heap s) = (b, h)" by fastforce
  have calm: "never_fails (e_heap s) \<Longrightarrow> b \<and> h = e_heap s" using h by simp
  show ?thesis
  proof (cases b)
    case False
    then have "then_do need_memory (\<lambda>_. c) s = (Err MOSQ_ERR_NOMEM, s\<lparr>e_heap := h\<rparr>)"
      using h by (simp add: then_do_def need_memory_def on_heap_def with_alloc_def)
    then show ?thesis by (rule sends_nomemI) (use assms(1) False calm in auto)
  next
    case True
    then have r: "then_do need_memory (\<lambda>_. c) s = c (s\<lparr>e_heap := h\<rparr>)"
      using h by (simp add: then_do_def need_memory_def on_heap_def with_alloc_def ret_def)
    obtain x s' where x: "c (s\<lparr>e_heap := h\<rparr>) = (x, s')" by fastforce
    have "sends f (s\<lparr>e_heap := h\<rparr>) bs (x, s')" using c [of h] x by simp
    then show ?thesis unfolding r x
    proof (cases rule: sendsE)
      case (sent h')
      then show "sends f s bs (x, s')" using f calm by (intro sends_sentI [where h = h']) auto
    next
      case (nomem h')
      then have "out_frame (s\<lparr>e_heap := h'\<rparr>) s'" "\<not> never_fails (e_heap s)" using calm by auto
      then show "sends f s bs (x, s')" using nomem unfolding sends_def by auto
    qed
  qed
qed

lemma sends_alloc:
  fixes packet s
  assumes s: "\<And>h. out_ok ((f s)\<lparr>e_heap := h\<rparr>)" "stream (f s) = stream s" "out_ok s"
    and len: "p_remaining_length packet = word_of_nat (length bs)" "length bs < 2 ^ 28"
    and c: "\<And>p h. writable p \<Longrightarrow> room p = length bs \<Longrightarrow>
      c p (s\<lparr>e_heap := h\<rparr>) = apfst g (packet__queue (put bs p) ((f s)\<lparr>e_heap := h\<rparr>))"
    and g: "\<And>r. r \<noteq> Fault \<Longrightarrow> g r \<noteq> Fault"
  shows "sends f s (packet_bytes (p_command packet) bs) (then_do (on_new_packet packet packet__alloc) c s)"
proof -
  have u: "unat (p_remaining_length packet) = length bs"
    unfolding len(1) using len(2) by (intro unat_of_nat_less) simp
  obtain b h where h: "alloc (e_heap s) = (b, h)" by fastforce
  have calm: "never_fails (e_heap s) \<Longrightarrow> b \<and> h = e_heap s" using h by simp
  note ac = packet__alloc_cases [of packet "e_heap s", unfolded u]
  show ?thesis
  proof (cases b)
    case False
    then obtain p' where "packet__alloc (packet, e_heap s) = (Err MOSQ_ERR_NOMEM, (p', h))"
      using ac len(2) h by (metis fst_conv snd_conv prod.collapse linorder_not_less)
    then have "then_do (on_new_packet packet packet__alloc) c s = (Err MOSQ_ERR_NOMEM, s\<lparr>e_heap := h\<rparr>)"
      by (simp add: then_do_def on_new_packet_def)
    then show ?thesis by (rule sends_nomemI) (use s(3) False calm in auto)
  next
    case True
    then obtain p' where p': "packet__alloc (packet, e_heap s) = (Ok (), (p', h))" "writable p'"
      "room p' = length bs" "written p' = p_command packet # varint_enc (length bs)"
      using ac len(2) h by auto
    define q where "q = put bs p'"
    have q: "complete q" "p_payload q = packet_bytes (p_command packet) bs"
      using p'(2-4) complete_written(1) [of q] by (simp_all add: complete_def q_def packet_bytes_def)
    obtain r s' where qs: "packet__queue q ((f s)\<lparr>e_heap := h\<rparr>) = (r, s')" by fastforce
    have r: "then_do (on_new_packet packet packet__alloc) c s = (g r, s')"
      using p'(1) c [OF p'(2,3), of h] qs by (simp add: then_do_def on_new_packet_def q_def)
    show ?thesis
      unfolding r using packet__queue_ok [OF s(1) q(1) qs] s(2) q(2) g calm
      by (intro sends_sentI [where h = h]) auto
  qed
qed

text \<open>The common shape: allocate the packet, fill it, queue it.\<close>

lemma sends_build:
  assumes s: "out_ok s" and pk: "\<And>h. pk (s\<lparr>e_heap := h\<rparr>) = packet"
    and body: "\<And>h. fills (body (s\<lparr>e_heap := h\<rparr>)) bs"
    and len: "p_remaining_length packet = word_of_nat (length bs)" "length bs < 2 ^ 28"
  shows "sends id s (packet_bytes (p_command packet) bs) (then_do need_memory (\<lambda>_. then_do get_st (\<lambda>m.
    then_do (on_new_packet (pk m) packet__alloc) (\<lambda>p. then_do (on_new_packet p (body m)) packet__queue))) s)"
proof (rule sends_need_memory [OF s])
  fix h
  have c: "then_do (on_new_packet p (body (s\<lparr>e_heap := h\<rparr>))) packet__queue (s\<lparr>e_heap := h'\<rparr>)
      = apfst id (packet__queue (put bs p) ((id (s\<lparr>e_heap := h\<rparr>))\<lparr>e_heap := h'\<rparr>))"
    if "writable p" "room p = length bs" for p h'
    using body [of h] that by (simp add: fills_def then_do_def on_new_packet_def)
  show "sends id (s\<lparr>e_heap := h\<rparr>) (packet_bytes (p_command packet) bs) (then_do get_st (\<lambda>m.
    then_do (on_new_packet (pk m) packet__alloc) (\<lambda>p. then_do (on_new_packet p (body m)) packet__queue))
      (s\<lparr>e_heap := h\<rparr>))"
    using sends_alloc [of id "s\<lparr>e_heap := h\<rparr>" packet bs _ id] s len c
    by (simp add: then_do_def [of get_st] get_st_def pk)
qed simp

lemma then_do_get_st: "then_do get_st c s = c s s"
  by (simp add: then_do_def get_st_def)

lemma sends_packet:
  assumes "out_ok s" "fills body bs" "p_remaining_length packet = word_of_nat (length bs)" "length bs < 2 ^ 28"
  shows "sends id s (packet_bytes (p_command packet) bs) (then_do need_memory (\<lambda>_.
    then_do (on_new_packet packet packet__alloc) (\<lambda>p. then_do (on_new_packet p body) packet__queue)) s)"
proof -
  have "then_do get_st (\<lambda>_. c) = c" for c :: "(mosquitto, unit) cmd"
    by (intro ext) (simp add: then_do_get_st)
  then show ?thesis using sends_build [of s "\<lambda>_. packet" packet "\<lambda>_. body" bs] assms by simp
qed

lemma sends_simple:
  assumes "out_ok s"
  shows "sends id s (packet_bytes command []) (send__simple_command command s)"
proof -
  define packet where "packet = zero_packet\<lparr>p_command := command, p_remaining_length := 0\<rparr>"
  have "send__simple_command command = then_do need_memory (\<lambda>_. then_do get_st (\<lambda>m.
      then_do (on_new_packet packet packet__alloc) (\<lambda>p. then_do (on_new_packet p (ret ())) packet__queue)))"
    by (intro ext) (simp add: send__simple_command_def packet_def then_do_def get_st_def on_new_packet_def
        ret_def split: prod.split res.split)
  moreover have "sends id s (packet_bytes (p_command packet) []) (then_do need_memory (\<lambda>_. then_do get_st (\<lambda>m.
      then_do (on_new_packet packet packet__alloc) (\<lambda>p. then_do (on_new_packet p (ret ())) packet__queue))) s)"
    by (rule sends_build [OF assms]) (simp_all add: fills_ret packet_def)
  ultimately show ?thesis by (simp add: packet_def)
qed

section \<open>The packets that are sent\<close>

text \<open>Property lists that can be sent: they can be encoded, within the size of a packet.\<close>

definition sendable :: "mosquitto_property list \<Rightarrow> bool" where
  "sendable ps = (list_all prop_ok ps \<and> length (props_enc ps) < 2 ^ 27)"

lemma sendable_Nil [simp]: "sendable []"
  by (simp add: sendable_def)

lemma varint_le4: "n < 2 ^ 28 \<Longrightarrow> length (varint_enc n) \<le> 4"
  by (subst length_varint_enc_le) simp_all

lemma sendable_enc:
  assumes "sendable ps"
  shows "writes (property__write_all ps True) (proplist_enc ps)"
    "writes (property__write_all ps False) (props_enc ps)"
    "property__get_remaining_length ps = word_of_nat (length (proplist_enc ps))"
    "property__get_length_all ps = word_of_nat (length (props_enc ps))"
    "length (proplist_enc ps) < 2 ^ 27 + 4" "unat (property__get_length_all ps) = length (props_enc ps)"
proof -
  have l: "list_all prop_ok ps" "length (props_enc ps) < 2 ^ 28" using assms by (simp_all add: sendable_def)
  show "writes (property__write_all ps True) (proplist_enc ps)"
    "writes (property__write_all ps False) (props_enc ps)"
    "property__get_remaining_length ps = word_of_nat (length (proplist_enc ps))"
    using property__write_all_enc [OF l] property__get_remaining_length_enc [OF l] by simp_all
  show g: "property__get_length_all ps = word_of_nat (length (props_enc ps))"
    by (rule property__get_length_all_enc [OF l(1)])
  show "unat (property__get_length_all ps) = length (props_enc ps)"
    unfolding g using l(2) by (intro unat_of_nat_less) simp
  show "length (proplist_enc ps) < 2 ^ 27 + 4"
    using assms varint_le4 [of "length (props_enc ps)"] by (simp add: proplist_enc_def sendable_def)
qed

text \<open>PUBACK, PUBREC, PUBREL and PUBCOMP after the fixed header.\<close>

definition ack_body :: "mosquitto__protocol \<Rightarrow> uint16 \<Rightarrow> byte \<Rightarrow> mosquitto_property list \<Rightarrow> byte list" where
  "ack_body proto mid reason_code properties = enc16 mid @
     (if proto = mosq_p_mqtt5 \<and> (reason_code \<noteq> 0 \<or> properties \<noteq> []) then
        reason_code # (if properties \<noteq> [] then proplist_enc properties else [])
      else [])"

lemma length_enc16 [simp]: "length (enc16 w) = 2"
  by (simp add: enc16_def)

lemma sends_command_with_mid:
  assumes s: "out_ok s" and p: "sendable properties"
  shows "sends id s (packet_bytes (if dup then command OR 8 else command)
      (ack_body (protocol s) mid reason_code properties))
    (send__command_with_mid command mid dup reason_code properties s)"
proof -
  let ?v5 = "protocol s = mosq_p_mqtt5"
  let ?r = "reason_code \<noteq> 0 \<or> properties \<noteq> []"
  define bs where "bs = ack_body (protocol s) mid reason_code properties"
  define packet where "packet = zero_packet
    \<lparr>p_command := (if dup then command OR 8 else command), p_remaining_length := word_of_nat (length bs)\<rparr>"
  note e = sendable_enc [OF p]
  have b: "bs = enc16 mid @ (if ?v5 then (if ?r then [reason_code] else [])
      @ (if properties \<noteq> [] then proplist_enc properties else []) else [])"
    by (auto simp: bs_def ack_body_def)
  have body: "fills (then_do (on_packet (packet__write_uint16 mid)) (\<lambda>_.
      if ?v5 then then_do (if ?r then on_packet (packet__write_byte reason_code) else ret ()) (\<lambda>_.
        if properties \<noteq> [] then on_packet (ignore_rc (property__write_all properties True)) else ret ())
      else ret ())) bs"
    unfolding b
    by (intro fills_then_do fills_if fills_on_packet fills_ret writes_uint16 writes_byte writes_ignore_rc e(1))
  have len: "2 + (if ?v5 then (if ?r then 1 else 0) + (if properties \<noteq> [] then property__get_remaining_length properties else 0)
      else 0) = (word_of_nat (length bs) :: uint32)" "length bs < 2 ^ 28"
    using e(3,5) by (auto simp: bs_def ack_body_def)
  have "sends id s (packet_bytes (p_command packet) bs)
    (send__command_with_mid command mid dup reason_code properties s)"
    unfolding send__command_with_mid_def Let_def
  proof (rule sends_build [OF s])
    fix h
    show "zero_packet\<lparr>p_command := (if dup then command OR 8 else command), p_remaining_length := 2 +
        (if protocol (s\<lparr>e_heap := h\<rparr>) = mosq_p_mqtt5 then (if ?r then 1 else 0) +
           (if properties \<noteq> [] then property__get_remaining_length properties else 0) else 0)\<rparr> = packet"
      unfolding packet_def heap_fields len(1) ..
  qed (simp only: heap_fields body, use len(2) in \<open>simp_all add: packet_def\<close>)
  then show ?thesis by (simp add: packet_def bs_def)
qed

lemma quota_out [simp]:
  "out_ok (util__increment_receive_quota s) = out_ok s" "stream (util__increment_receive_quota s) = stream s"
  "protocol (util__increment_receive_quota s) = protocol s" "e_heap (util__increment_receive_quota s) = e_heap s"
  "out_ok (util__decrement_receive_quota s) = out_ok s" "stream (util__decrement_receive_quota s) = stream s"
  "protocol (util__decrement_receive_quota s) = protocol s" "e_heap (util__decrement_receive_quota s) = e_heap s"
  "out_ok (util__increment_send_quota s) = out_ok s" "stream (util__increment_send_quota s) = stream s"
  "protocol (util__increment_send_quota s) = protocol s" "e_heap (util__increment_send_quota s) = e_heap s"
  "out_ok (util__decrement_send_quota s) = out_ok s" "stream (util__decrement_send_quota s) = stream s"
  "protocol (util__decrement_send_quota s) = protocol s" "e_heap (util__decrement_send_quota s) = e_heap s"
  by (simp_all add: util__increment_receive_quota_def util__decrement_receive_quota_def
      util__increment_send_quota_def util__decrement_send_quota_def out_ok_def stream_def packets_out_def)

lemma modify_then: "then_do (modify f) (\<lambda>_. c) s = c (f s)"
  by (simp add: then_do_def modify_def)

lemma sends_puback:
  "out_ok s \<Longrightarrow> sendable ps \<Longrightarrow>
   sends id (util__increment_receive_quota s) (packet_bytes CMD_PUBACK (ack_body (protocol s) mid rc ps))
     (send__puback mid rc ps s)"
  using sends_command_with_mid [of "util__increment_receive_quota s" ps False CMD_PUBACK mid rc]
  by (simp add: send__puback_def modify_then)

lemma sends_pubcomp:
  "out_ok s \<Longrightarrow> sendable ps \<Longrightarrow>
   sends id (util__increment_receive_quota s) (packet_bytes CMD_PUBCOMP (ack_body (protocol s) mid 0 ps))
     (send__pubcomp mid ps s)"
  using sends_command_with_mid [of "util__increment_receive_quota s" ps False CMD_PUBCOMP mid 0]
  by (simp add: send__pubcomp_def modify_then)

lemma sends_pubrec:
  "out_ok s \<Longrightarrow> sendable ps \<Longrightarrow>
   sends id (if 0x80 \<le> rc \<and> protocol s = mosq_p_mqtt5 then util__increment_receive_quota s else s)
     (packet_bytes CMD_PUBREC (ack_body (protocol s) mid rc ps)) (send__pubrec mid rc ps s)"
  using sends_command_with_mid [of "if 0x80 \<le> rc \<and> protocol s = mosq_p_mqtt5 then util__increment_receive_quota s else s"
      ps False CMD_PUBREC mid rc]
  by (cases "0x80 \<le> rc \<and> protocol s = mosq_p_mqtt5") (auto simp: send__pubrec_def modify_then)

lemma sends_pubrel:
  "out_ok s \<Longrightarrow> sendable ps \<Longrightarrow>
   sends id s (packet_bytes (CMD_PUBREL OR 2) (ack_body (protocol s) mid 0 ps)) (send__pubrel mid ps s)"
  using sends_command_with_mid [of s ps False "CMD_PUBREL OR 2" mid 0] by (simp add: send__pubrel_def)

text \<open>PUBLISH after the fixed header, as the library sends it.\<close>

definition publish_command :: "byte \<Rightarrow> bool \<Rightarrow> bool \<Rightarrow> byte" where
  "publish_command qos retain dup =
     CMD_PUBLISH OR (if dup then 8 else 0) OR push_bit 1 qos OR (if retain then 1 else 0)"

definition publish_body ::
  "mosquitto__protocol \<Rightarrow> uint16 \<Rightarrow> byte list \<Rightarrow> byte \<Rightarrow> mosquitto_property list \<Rightarrow> byte list \<Rightarrow> byte list"
where
  "publish_body proto mid topic qos properties payload =
     enc_field topic @ (if qos > 0 then enc16 mid else [])
     @ (if proto = mosq_p_mqtt5 then proplist_enc properties else []) @ payload"

lemma length_enc_field: "length (enc_field bs) = 2 + length bs"
  by (simp add: enc_field_def)

lemma writes_null_string: "writes (packet__write_uint16 0) (enc_field [])"
  using writes_uint16 [of 0] by (simp add: enc_field_def)

lemma length_proplist_bytes:
  "sendable ps \<Longrightarrow> (word_of_nat (length (proplist_enc ps)) :: uint32)
   = property__get_length_all ps + word_of_nat (packet__varint_bytes (property__get_length_all ps))"
  using sendable_enc [of ps] by (simp add: proplist_enc_def varint_bytes_enc)

text \<open>The packet that is allocated and the writer that fills it.\<close>

lemma real_publish_shape:
  fixes topic qos mid properties payload s retain dup
  defines "bs \<equiv> publish_body (protocol s) mid (case topic of None \<Rightarrow> [] | Some t \<Rightarrow> t) qos properties payload"
  defines "packet \<equiv> zero_packet\<lparr>p_mid := mid, p_command := publish_command qos retain dup,
      p_remaining_length := word_of_nat (length bs)\<rparr>"
  assumes p: "sendable properties" and t: "\<And>t. topic = Some t \<Longrightarrow> length t < 65536"
    and pll: "length payload < 2 ^ 32"
  shows "\<exists>body. fills body bs \<and>
    send__real_publish mid topic (word_of_nat (length payload)) payload qos retain dup properties [] 0 s =
      (case packet__check_oversize s (word_of_nat (length bs)) of
         Err _ \<Rightarrow> throw MOSQ_ERR_OVERSIZE_PACKET
       | Fault \<Rightarrow> fault
       | Ok _ \<Rightarrow> then_do need_memory (\<lambda>_. then_do (on_new_packet packet packet__alloc)
           (\<lambda>p. then_do (on_new_packet p body) packet__queue))) s"
proof -
  note e = sendable_enc [OF p]
  let ?v5 = "protocol s = mosq_p_mqtt5"
  define plen where "plen = property__get_length_all properties"
  define pl where "pl = (word_of_nat (length payload) :: uint32)"
  have nil: "property__get_length_all [] = 0" by (simp add: property__get_length_all_def)
  have vb: "\<not> packet__varint_bytes plen > 4"
    using e(6) p varint_le4 [of "unat plen"] by (simp add: plen_def varint_bytes_enc sendable_def)
  have upl: "unat pl = length payload" unfolding pl_def using pll by (intro unat_of_nat_less) simp
  have b: "bs = enc_field (case topic of None \<Rightarrow> [] | Some t \<Rightarrow> t) @ (if qos > 0 then enc16 mid else [])
      @ (if ?v5 then varint_enc (unat plen) @ props_enc properties @ [] @ [] else [])
      @ (if pl \<noteq> 0 then payload else [])"
    using upl e(6) by (auto simp: bs_def publish_body_def proplist_enc_def plen_def)
  have wv: "writes (ignore_rc (packet__write_varint plen)) (varint_enc (unat plen))"
    using writes_varint [of plen] e(6) p by (intro writes_ignore_rc) (simp add: plen_def sendable_def)
  have wp: "writes (packet__write_bytes payload pl) payload"
    using writes_bytes [of pl payload] upl by simp
  have w0: "writes (property__write_all [] False) []"
    using property__write_all_enc(2) [of "[]"] by simp
  have body: "fills (then_do (case topic of Some t \<Rightarrow> put_string t | None \<Rightarrow> on_packet (packet__write_uint16 0)) (\<lambda>_.
      then_do (if qos > 0 then on_packet (packet__write_uint16 mid) else ret ()) (\<lambda>_.
      then_do (if ?v5 then
          then_do (on_packet (ignore_rc (packet__write_varint plen))) (\<lambda>_.
          then_do (on_packet (ignore_rc (property__write_all properties False))) (\<lambda>_.
          then_do (on_packet (ignore_rc (property__write_all [] False))) (\<lambda>_. ret ())))
        else ret ()) (\<lambda>_.
      if pl \<noteq> 0 then on_packet (packet__write_bytes payload pl) else ret ())))) bs"
    unfolding b
    by (intro fills_then_do fills_if fills_on_packet fills_ret writes_uint16 writes_ignore_rc e(2) wv wp w0)
      (use t in \<open>auto intro!: fills_string fills_on_packet writes_null_string split: option.split\<close>)
  have plen: "2 + (case topic of Some t \<Rightarrow> c_strlen t | None \<Rightarrow> 0) + pl + (if qos > 0 then 2 else 0)
      + (if ?v5 then plen + word_of_nat (packet__varint_bytes plen) else 0) = word_of_nat (length bs)"
    using length_proplist_bytes [OF p]
    by (auto simp: bs_def publish_body_def length_enc_field pl_def plen_def c_strlen_def split: option.split)
  define body where "body = then_do (case topic of Some t \<Rightarrow> put_string t | None \<Rightarrow> on_packet (packet__write_uint16 0)) (\<lambda>_.
      then_do (if qos > 0 then on_packet (packet__write_uint16 mid) else ret ()) (\<lambda>_.
      then_do (if ?v5 then
          then_do (on_packet (ignore_rc (packet__write_varint plen))) (\<lambda>_.
          then_do (on_packet (ignore_rc (property__write_all properties False))) (\<lambda>_.
          then_do (on_packet (ignore_rc (property__write_all [] False))) (\<lambda>_. ret ())))
        else ret ()) (\<lambda>_.
      if pl \<noteq> 0 then on_packet (packet__write_bytes payload pl) else ret ())))"
  have pl1: "(if ?v5
      then (if qos > 0 then 2 + (case topic of Some t \<Rightarrow> c_strlen t | None \<Rightarrow> 0) + pl + 2
            else 2 + (case topic of Some t \<Rightarrow> c_strlen t | None \<Rightarrow> 0) + pl) + (plen + word_of_nat (packet__varint_bytes plen))
      else (if qos > 0 then 2 + (case topic of Some t \<Rightarrow> c_strlen t | None \<Rightarrow> 0) + pl + 2
            else 2 + (case topic of Some t \<Rightarrow> c_strlen t | None \<Rightarrow> 0) + pl)) = word_of_nat (length bs)"
    unfolding plen [symmetric] by simp
  have un: "send__real_publish mid topic pl payload qos retain dup properties [] 0 s =
      (case packet__check_oversize s (word_of_nat (length bs)) of
         Err _ \<Rightarrow> throw MOSQ_ERR_OVERSIZE_PACKET
       | Fault \<Rightarrow> fault
       | Ok _ \<Rightarrow> then_do need_memory (\<lambda>_. then_do (on_new_packet packet packet__alloc)
           (\<lambda>p. then_do (on_new_packet p body) packet__queue))) s"
    unfolding send__real_publish_def then_do_get_st Let_def nil
    by (simp only: add_0_right less_irrefl if_False if_cancel simp_thms vb pl1 packet_def body_def
        publish_command_def flip: plen_def)
  then show ?thesis using body unfolding pl_def [symmetric] body_def by blast
qed

lemma sends_real_publish:
  fixes topic qos mid properties payload s
  defines "bs \<equiv> publish_body (protocol s) mid (case topic of None \<Rightarrow> [] | Some t \<Rightarrow> t) qos properties payload"
  assumes s: "out_ok s" and p: "sendable properties" and t: "\<And>t. topic = Some t \<Longrightarrow> length t < 65536"
    and len: "length bs < 2 ^ 28"
  shows "if packet__check_oversize s (word_of_nat (length bs)) = Ok () then
      sends id s (packet_bytes (publish_command qos retain dup) bs)
        (send__real_publish mid topic (word_of_nat (length payload)) payload qos retain dup properties [] 0 s)
    else send__real_publish mid topic (word_of_nat (length payload)) payload qos retain dup properties [] 0 s
      = (Err MOSQ_ERR_OVERSIZE_PACKET, s)"
proof -
  define packet where "packet = zero_packet\<lparr>p_mid := mid, p_command := publish_command qos retain dup,
      p_remaining_length := word_of_nat (length bs)\<rparr>"
  have pll: "length payload < 2 ^ 32" using len by (simp add: bs_def publish_body_def)
  from real_publish_shape [OF p t pll, folded bs_def packet_def]
  obtain body where body: "fills body bs" and un:
    "send__real_publish mid topic (word_of_nat (length payload)) payload qos retain dup properties [] 0 s =
      (case packet__check_oversize s (word_of_nat (length bs)) of
         Err _ \<Rightarrow> throw MOSQ_ERR_OVERSIZE_PACKET
       | Fault \<Rightarrow> fault
       | Ok _ \<Rightarrow> then_do need_memory (\<lambda>_. then_do (on_new_packet packet packet__alloc)
           (\<lambda>p. then_do (on_new_packet p body) packet__queue))) s"
    unfolding bs_def packet_def by blast
  have "sends id s (packet_bytes (p_command packet) bs) (then_do need_memory (\<lambda>_. then_do (on_new_packet packet packet__alloc)
      (\<lambda>p. then_do (on_new_packet p body) packet__queue)) s)"
    using len by (intro sends_packet [OF s body]) (simp_all add: packet_def)
  then show ?thesis
    unfolding un by (auto simp: packet_def throw_def packet__check_oversize_def)
qed

text \<open>A packet that does not fit is refused after at most two allocations.\<close>

lemma real_publish_too_long:
  fixes topic qos mid properties payload s
  defines "bs \<equiv> publish_body (protocol s) mid (case topic of None \<Rightarrow> [] | Some t \<Rightarrow> t) qos properties payload"
  assumes p: "sendable properties" and t: "\<And>t. topic = Some t \<Longrightarrow> length t < 65536"
    and len: "2 ^ 28 \<le> length bs" "length bs < 2 ^ 32"
  shows "\<exists>e h. send__real_publish mid topic (word_of_nat (length payload)) payload qos retain dup properties [] 0 s
    = (Err e, s\<lparr>e_heap := h\<rparr>)"
proof -
  define packet where "packet = zero_packet\<lparr>p_mid := mid, p_command := publish_command qos retain dup,
      p_remaining_length := word_of_nat (length bs)\<rparr>"
  have pll: "length payload < 2 ^ 32" using len by (simp add: bs_def publish_body_def)
  have u: "unat (p_remaining_length packet) = length bs"
    using len(2) unat_of_nat_less [of "length bs", where 'a = 32] by (simp add: packet_def)
  from real_publish_shape [OF p t pll, folded bs_def packet_def]
  obtain body where un:
    "send__real_publish mid topic (word_of_nat (length payload)) payload qos retain dup properties [] 0 s =
      (case packet__check_oversize s (word_of_nat (length bs)) of
         Err _ \<Rightarrow> throw MOSQ_ERR_OVERSIZE_PACKET
       | Fault \<Rightarrow> fault
       | Ok _ \<Rightarrow> then_do need_memory (\<lambda>_. then_do (on_new_packet packet packet__alloc)
           (\<lambda>p. then_do (on_new_packet p body) packet__queue))) s"
    unfolding bs_def packet_def by blast
  have al: "fst (packet__alloc (packet, h)) = Err MOSQ_ERR_PAYLOAD_SIZE" for h
    using packet__alloc_cases [of packet h] len(1) u by simp
  have "\<exists>h'. then_do (on_new_packet packet packet__alloc) f (s\<lparr>e_heap := h\<rparr>) = (Err MOSQ_ERR_PAYLOAD_SIZE, s\<lparr>e_heap := h'\<rparr>)"
    for f :: "_ \<Rightarrow> (mosquitto, unit) cmd" and h
    using al [of h] by (cases "packet__alloc (packet, h)") (auto simp: then_do_def on_new_packet_def)
  then have "\<exists>e h. then_do need_memory (\<lambda>_. then_do (on_new_packet packet packet__alloc)
           (\<lambda>p. then_do (on_new_packet p body) packet__queue)) s = (Err e, s\<lparr>e_heap := h\<rparr>)"
    unfolding need_memory_then by (cases "alloc (e_heap s)"; simp) blast
  moreover have "\<exists>h. s = s\<lparr>e_heap := h\<rparr>" by (rule exI [of _ "e_heap s"]) simp
  ultimately show ?thesis unfolding un by (auto simp: throw_def packet__check_oversize_def)
qed

lemma sends_publish:
  fixes topic qos mid properties payload s
  defines "bs \<equiv> publish_body (protocol s) mid (case topic of None \<Rightarrow> [] | Some t \<Rightarrow> t) qos properties payload"
  assumes s: "out_ok s" and p: "sendable properties" and t: "\<And>t. topic = Some t \<Longrightarrow> length t < 65536"
    and len: "length bs < 2 ^ 28"
  shows "send__publish mid topic (word_of_nat (length payload)) payload qos retain dup properties [] 0 s =
      (if sock s = INVALID_SOCKET then (Err MOSQ_ERR_NO_CONN, s)
       else if packet__check_oversize s (word_of_nat (length bs)) \<noteq> Ok () then (Err MOSQ_ERR_OVERSIZE_PACKET, s)
       else send__publish mid topic (word_of_nat (length payload)) payload qos retain dup properties [] 0 s)"
    "sock s \<noteq> INVALID_SOCKET \<Longrightarrow> packet__check_oversize s (word_of_nat (length bs)) = Ok () \<Longrightarrow>
     sends id s (packet_bytes (publish_command qos (retain \<and> retain_available s \<noteq> 0) dup) bs)
       (send__publish mid topic (word_of_nat (length payload)) payload qos retain dup properties [] 0 s)"
  using sends_real_publish [OF s p t len [unfolded bs_def], of "retain \<and> retain_available s \<noteq> 0" dup]
  unfolding bs_def send__publish_def by (auto simp: then_do_get_st throw_def split: if_splits)

text \<open>DISCONNECT after the fixed header.\<close>

definition disconnect_body :: "mosquitto__protocol \<Rightarrow> byte \<Rightarrow> mosquitto_property list \<Rightarrow> byte list" where
  "disconnect_body proto reason_code properties =
     (if proto = mosq_p_mqtt5 \<and> (reason_code \<noteq> 0 \<or> properties \<noteq> []) then
        reason_code # (if properties \<noteq> [] then proplist_enc properties else [])
      else [])"

lemma sends_disconnect:
  assumes s: "out_ok s" and p: "sendable properties"
  shows "sends id s (packet_bytes CMD_DISCONNECT (disconnect_body (protocol s) reason_code properties))
    (send__disconnect reason_code properties s)"
proof -
  let ?w = "protocol s = mosq_p_mqtt5 \<and> (reason_code \<noteq> 0 \<or> properties \<noteq> [])"
  define bs where "bs = disconnect_body (protocol s) reason_code properties"
  define packet where "packet = zero_packet
    \<lparr>p_command := CMD_DISCONNECT, p_remaining_length := word_of_nat (length bs)\<rparr>"
  note e = sendable_enc [OF p]
  have b: "bs = (if ?w then [reason_code] @ (if properties \<noteq> [] then proplist_enc properties else []) else [])"
    by (simp add: bs_def disconnect_body_def)
  have body: "fills (if ?w then then_do (on_packet (packet__write_byte reason_code)) (\<lambda>_.
        if properties \<noteq> [] then on_packet (ignore_rc (property__write_all properties True)) else ret ())
      else ret ()) bs"
    unfolding b by (intro fills_then_do fills_if fills_on_packet fills_ret writes_byte writes_ignore_rc e(1))
  have len: "(if ?w then 1 + (if properties \<noteq> [] then property__get_remaining_length properties else 0) else 0)
      = (word_of_nat (length bs) :: uint32)" "length bs < 2 ^ 28"
    using e(3,5) unfolding b by auto
  have "sends id s (packet_bytes (p_command packet) bs) (send__disconnect reason_code properties s)"
    unfolding send__disconnect_def Let_def
  proof (rule sends_build [OF s])
    fix h
    show "zero_packet\<lparr>p_command := CMD_DISCONNECT, p_remaining_length :=
        (if protocol (s\<lparr>e_heap := h\<rparr>) = mosq_p_mqtt5 \<and> (reason_code \<noteq> 0 \<or> properties \<noteq> [])
         then 1 + (if properties \<noteq> [] then property__get_remaining_length properties else 0) else 0)\<rparr> = packet"
      unfolding packet_def heap_fields len(1) ..
  qed (simp only: heap_fields body, use len(2) in \<open>simp_all add: packet_def\<close>)
  then show ?thesis by (simp add: packet_def bs_def)
qed

text \<open>SUBSCRIBE and UNSUBSCRIBE after the fixed header.\<close>

definition topics_enc :: "byte list \<Rightarrow> byte list list \<Rightarrow> byte list" where
  "topics_enc opt ts = concat (map (\<lambda>t. enc_field t @ opt) ts)"

lemma topics_enc_simps [simp]:
  "topics_enc opt [] = []" "topics_enc opt (t # ts) = enc_field t @ opt @ topics_enc opt ts"
  by (simp_all add: topics_enc_def)

definition topics_body ::
  "mosquitto__protocol \<Rightarrow> uint16 \<Rightarrow> mosquitto_property list \<Rightarrow> byte list \<Rightarrow> byte list list \<Rightarrow> byte list"
where
  "topics_body proto mid properties opt topic =
     enc16 mid @ (if proto = mosq_p_mqtt5 then proplist_enc properties else []) @ topics_enc opt topic"

definition short :: "byte list \<Rightarrow> bool" where
  "short t = (length t < 65536)"

lemma fills_topics:
  "list_all short ts \<Longrightarrow>
   fills (write_topics opt ts) (topics_enc (case opt of Some b \<Rightarrow> [b] | None \<Rightarrow> []) ts)"
proof (induction ts)
  case (Cons t ts)
  have "fills (case opt of Some b \<Rightarrow> on_packet (packet__write_byte b) | None \<Rightarrow> ret ())
      (case opt of Some b \<Rightarrow> [b] | None \<Rightarrow> [])"
    by (cases opt) (simp_all add: fills_ret fills_on_packet writes_byte)
  then show ?case using Cons by (simp add: fills_then_do fills_string short_def)
qed (simp add: fills_ret)

lemma topics_length_enc:
  "list_all short ts \<Longrightarrow> extra = word_of_nat (length opt) \<Longrightarrow>
   topics_length extra n ts = Some (n + word_of_nat (length (topics_enc opt ts)))"
proof (induction ts arbitrary: n)
  case (Cons t ts)
  then have "(ucast (word_of_nat (length t) :: uint16) :: uint32) = word_of_nat (length t)"
    by (simp add: short_def word_unat_eq_iff unsigned_of_nat take_bit_nat_eq_self)
  then show ?case using Cons by (simp add: short_def length_enc_field)
qed simp

lemma topics_length_long:
  "\<not> list_all short ts \<Longrightarrow> topics_length extra n ts = None"
  by (induction ts arbitrary: n) (auto simp: short_def)

lemma rc_of_queue:
  "then_do (rc_of (packet__queue p)) (\<lambda>rc. ret (a, rc)) s =
   apfst (\<lambda>r. case r of Ok _ \<Rightarrow> Ok (a, MOSQ_ERR_SUCCESS) | Err e \<Rightarrow> Ok (a, e) | Fault \<Rightarrow> Fault) (packet__queue p s)"
  by (simp add: then_do_def rc_of_def ret_def split: prod.split res.split)

text \<open>The packet identifier a client takes next.\<close>

definition take_mid :: "mosquitto \<Rightarrow> mosquitto" where
  "take_mid s = snd (mosquitto__mid_generate s)"

lemma mid_generate_take: "mosquitto__mid_generate s = (Ok (last_mid (take_mid s)), take_mid s)"
  by (simp add: take_mid_def mosquitto__mid_generate_def Let_def)

lemma take_mid_simps [simp]:
  "(take_mid (s\<lparr>e_heap := h\<rparr>))\<lparr>e_heap := h'\<rparr> = (take_mid s)\<lparr>e_heap := h'\<rparr>"
  "take_mid (s\<lparr>e_heap := h\<rparr>) = (take_mid s)\<lparr>e_heap := h\<rparr>"
  "out_ok (take_mid s) = out_ok s" "stream (take_mid s) = stream s" "protocol (take_mid s) = protocol s"
  by (simp_all add: take_mid_def mosquitto__mid_generate_def Let_def out_ok_def stream_def packets_out_def)

text \<open>The shape of both: allocate, take an identifier, fill, queue.\<close>

lemma sends_with_mid:
  assumes s: "out_ok s" and body: "fills (body (last_mid (take_mid s))) bs"
    and len: "p_remaining_length packet = word_of_nat (length bs)" "length bs < 2 ^ 28"
  shows "sends take_mid s (packet_bytes (p_command packet) bs) (then_do need_memory (\<lambda>_.
    then_do (on_new_packet packet packet__alloc) (\<lambda>p.
    then_do mosquitto__mid_generate (\<lambda>mid.
    then_do (on_new_packet p (body mid)) (\<lambda>p.
    then_do (rc_of (packet__queue p)) (\<lambda>rc. ret (mid, rc)))))) s)"
proof (rule sends_need_memory [OF s], simp)
  fix h
  define g :: "unit res \<Rightarrow> (uint16 \<times> mosq_err) res" where
    "g = (\<lambda>r. case r of Ok _ \<Rightarrow> Ok (last_mid (take_mid s), MOSQ_ERR_SUCCESS)
       | Err e \<Rightarrow> Ok (last_mid (take_mid s), e) | Fault \<Rightarrow> Fault)"
  show "sends take_mid (s\<lparr>e_heap := h\<rparr>) (packet_bytes (p_command packet) bs) (then_do (on_new_packet packet packet__alloc) (\<lambda>p.
    then_do mosquitto__mid_generate (\<lambda>mid.
    then_do (on_new_packet p (body mid)) (\<lambda>p.
    then_do (rc_of (packet__queue p)) (\<lambda>rc. ret (mid, rc))))) (s\<lparr>e_heap := h\<rparr>))"
  proof (rule sends_alloc [where g = g])
    fix p h'
    assume p: "writable p" "room p = length bs"
    have "then_do (on_new_packet p (body (last_mid (take_mid s)))) (\<lambda>p.
        then_do (rc_of (packet__queue p)) (\<lambda>rc. ret (last_mid (take_mid s), rc))) ((take_mid s)\<lparr>e_heap := h'\<rparr>)
      = apfst g (packet__queue (put bs p) ((take_mid s)\<lparr>e_heap := h'\<rparr>))"
      using body p by (simp add: fills_def then_do_def [of "on_new_packet p (body _)"] on_new_packet_def rc_of_queue g_def)
    then show "then_do mosquitto__mid_generate (\<lambda>mid. then_do (on_new_packet p (body mid)) (\<lambda>p.
        then_do (rc_of (packet__queue p)) (\<lambda>rc. ret (mid, rc)))) ((s\<lparr>e_heap := h\<rparr>)\<lparr>e_heap := h'\<rparr>)
      = apfst g (packet__queue (put bs p) ((take_mid (s\<lparr>e_heap := h\<rparr>))\<lparr>e_heap := h'\<rparr>))"
      by (simp add: then_do_def [of mosquitto__mid_generate] mid_generate_take)
  qed (use s len in \<open>simp_all add: g_def split: res.split\<close>)
qed

lemma sends_subscribe:
  fixes s properties topic topic_qos
  defines "bs \<equiv> topics_body (protocol s) (last_mid (take_mid s)) properties [word_of_int topic_qos] topic"
  assumes s: "out_ok s" and p: "sendable properties" and t: "list_all short topic" and len: "length bs < 2 ^ 28"
  shows "sends take_mid s (packet_bytes (CMD_SUBSCRIBE OR 2) bs) (send__subscribe topic topic_qos properties s)"
proof -
  let ?v5 = "protocol s = mosq_p_mqtt5"
  note e = sendable_enc [OF p]
  have l: "topics_length 1 (2 + (if ?v5 then property__get_remaining_length properties else 0)) topic
      = Some (word_of_nat (length bs))"
    using topics_length_enc [OF t, of 1 "[word_of_int topic_qos]"] e(3)
    by (simp add: bs_def topics_body_def)
  have body: "fills (then_do (on_packet (packet__write_uint16 (last_mid (take_mid s)))) (\<lambda>_.
      then_do (if ?v5 then on_packet (ignore_rc (property__write_all properties True)) else ret ()) (\<lambda>_.
      write_topics (Some (word_of_int topic_qos)) topic))) bs"
    using fills_topics [OF t, of "Some (word_of_int topic_qos)"] unfolding bs_def topics_body_def
    by (intro fills_then_do fills_if fills_on_packet fills_ret writes_uint16 writes_ignore_rc e(1)) simp
  define packet where "packet = zero_packet\<lparr>p_command := CMD_SUBSCRIBE OR 2,
    p_remaining_length := word_of_nat (length bs)\<rparr>"
  have "sends take_mid s (packet_bytes (p_command packet) bs) (send__subscribe topic topic_qos properties s)"
    unfolding send__subscribe_def then_do_get_st Let_def l option.case packet_def [symmetric]
    by (rule sends_with_mid [OF s]) (rule body, use len in \<open>simp_all add: packet_def\<close>)
  then show ?thesis by (simp add: packet_def)
qed

lemma sends_unsubscribe:
  fixes s properties topic
  defines "bs \<equiv> topics_body (protocol s) (last_mid (take_mid s)) properties [] topic"
  assumes s: "out_ok s" and p: "sendable properties" and t: "list_all short topic" and len: "length bs < 2 ^ 28"
  shows "sends take_mid s (packet_bytes (CMD_UNSUBSCRIBE OR 2) bs) (send__unsubscribe topic properties s)"
proof -
  let ?v5 = "protocol s = mosq_p_mqtt5"
  note e = sendable_enc [OF p]
  have l: "topics_length 0 2 topic = Some (2 + word_of_nat (length (topics_enc [] topic)))"
    using topics_length_enc [OF t, of 0 "[]"] by simp
  have l2: "2 + word_of_nat (length (topics_enc [] topic)) + (if ?v5 then property__get_remaining_length properties else 0)
      = word_of_nat (length bs)"
    using e(3) by (simp add: bs_def topics_body_def)
  have body: "fills (then_do (on_packet (packet__write_uint16 (last_mid (take_mid s)))) (\<lambda>_.
      then_do (if ?v5 then on_packet (ignore_rc (property__write_all properties True)) else ret ()) (\<lambda>_.
      write_topics None topic))) bs"
    using fills_topics [OF t, of None] unfolding bs_def topics_body_def
    by (intro fills_then_do fills_if fills_on_packet fills_ret writes_uint16 writes_ignore_rc e(1)) simp
  define packet where "packet = zero_packet\<lparr>p_command := CMD_UNSUBSCRIBE OR 2,
    p_remaining_length := word_of_nat (length bs)\<rparr>"
  have "sends take_mid s (packet_bytes (p_command packet) bs) (send__unsubscribe topic properties s)"
    unfolding send__unsubscribe_def then_do_get_st Let_def l option.case l2 packet_def [symmetric]
    by (rule sends_with_mid [OF s]) (rule body, use len in \<open>simp_all add: packet_def\<close>)
  then show ?thesis by (simp add: packet_def)
qed

end
