(* ===== verification/Messages.thy ===== *)
theory Messages
  imports Send
begin

text \<open>
  The messages in flight, messages_mosq.c: the two queues of the client, \<open>msgs_in\<close> and
  \<open>msgs_out\<close>, with their flow control, and the operations the handlers apply to them.
\<close>

unbundle bit_operations_syntax

section \<open>The two queues\<close>

definition msgs :: "mosquitto_msg_direction \<Rightarrow> mosquitto \<Rightarrow> mosquitto_msg_data" where
  "msgs dir s = (case dir of mosq_md_in \<Rightarrow> msgs_in s | mosq_md_out \<Rightarrow> msgs_out s)"

definition update_msgs ::
  "mosquitto_msg_direction \<Rightarrow> (mosquitto_msg_data \<Rightarrow> mosquitto_msg_data) \<Rightarrow> mosquitto \<Rightarrow> mosquitto"
where
  "update_msgs dir f s = (case dir of
      mosq_md_in \<Rightarrow> s\<lparr>msgs_in := f (msgs_in s)\<rparr>
    | mosq_md_out \<Rightarrow> s\<lparr>msgs_out := f (msgs_out s)\<rparr>)"

definition set_inflight :: "mosquitto_msg_direction \<Rightarrow> mosquitto_message_all list \<Rightarrow> mosquitto \<Rightarrow> mosquitto" where
  "set_inflight dir ms = update_msgs dir (\<lambda>d. d\<lparr>inflight := ms\<rparr>)"

definition message__cleanup_all :: "mosquitto \<Rightarrow> mosquitto" where
  "message__cleanup_all s = set_inflight mosq_md_out [] (set_inflight mosq_md_in [] s)"

text \<open>A copy of a message for the application. A NULL topic would be copied by \<open>strdup\<close>.\<close>

definition mosquitto_message_copy :: "mosquitto_message \<Rightarrow> (heap, mosquitto_message) cmd" where
  "mosquitto_message_copy src = (case m_topic src of
      None \<Rightarrow> fault
    | Some t \<Rightarrow>
        with_alloc
          (if m_payloadlen src \<noteq> 0 then
             with_alloc (\<lambda>h. if length (m_payload src) < nat (uint (word_of_int (m_payloadlen src) :: uint32))
               then (Fault, h)
               else (Ok (src\<lparr>m_payload := take (nat (uint (word_of_int (m_payloadlen src) :: uint32))) (m_payload src)\<rparr>), h))
           else ret (src\<lparr>m_payloadlen := 0, m_payload := []\<rparr>)))"

section \<open>Sending what the quota allows\<close>

text \<open>\<open>send__publish(mosq, cur->msg.mid, ...)\<close>, for a message of the queue.\<close>

definition publish_message :: "mosquitto_message_all \<Rightarrow> (mosquitto, unit) cmd" where
  "publish_message m = (let p = ma_msg m in
     send__publish (word_of_int (m_mid p)) (m_topic p) (word_of_int (m_payloadlen p)) (m_payload p)
       (word_of_int (m_qos p)) (m_retain p) (ma_dup m) (ma_properties m) [] 0)"

definition release_state :: "mosquitto_message_all \<Rightarrow> mosquitto_msg_state" where
  "release_state m = (if m_qos (ma_msg m) = 1 then mosq_ms_wait_for_puback
     else if m_qos (ma_msg m) = 2 then mosq_ms_wait_for_pubrec else ma_state m)"

text \<open>The loop over \<open>msgs_out.inflight\<close>: the messages already visited, and those to come.\<close>

fun release_loop ::
  "mosquitto_message_all list \<Rightarrow> mosquitto_message_all list \<Rightarrow> (mosquitto, unit) cmd"
where
  "release_loop visited [] = ret ()"
| "release_loop visited (cur # others) = (\<lambda>s.
     if inflight_quota (msgs_out s) > 0 then
       (if m_qos (ma_msg cur) > 0 \<and> ma_state cur = mosq_ms_invalid then
          let cur = cur\<lparr>ma_state := release_state cur\<rparr> in
          then_do (publish_message cur) (\<lambda>_.
          then_do (modify util__decrement_send_quota) (\<lambda>_.
          release_loop (visited @ [cur]) others)) (set_inflight mosq_md_out (visited @ cur # others) s)
        else release_loop (visited @ [cur]) others s)
     else (Ok (), s))"

definition message__release_to_inflight :: "mosquitto_msg_direction \<Rightarrow> (mosquitto, unit) cmd" where
  "message__release_to_inflight dir = (case dir of
      mosq_md_out \<Rightarrow> then_do get_st (\<lambda>s. release_loop [] (inflight (msgs_out s)))
    | mosq_md_in \<Rightarrow> ret ())"

definition store_message ::
  "mosquitto_msg_direction \<Rightarrow> mosquitto_message_all \<Rightarrow> mosquitto \<Rightarrow> mosquitto"
where
  "store_message dir message =
     update_msgs dir (\<lambda>d. d\<lparr>inflight := inflight d @ [message], queue_len := queue_len d + 1\<rparr>)"

definition message__queue ::
  "mosquitto_message_all \<Rightarrow> mosquitto_msg_direction \<Rightarrow> (mosquitto, unit) cmd"
where
  "message__queue message dir s =
     (if m_qos (ma_msg message) = 0 then (Fault, s)
      else message__release_to_inflight dir (store_message dir message s))"

section \<open>Finding a message by its packet identifier\<close>

text \<open>The message found and the list without it.\<close>

fun remove_mid ::
  "uint16 \<Rightarrow> int \<Rightarrow> mosquitto_message_all list \<Rightarrow> (mosquitto_message_all \<times> mosquitto_message_all list) res"
where
  "remove_mid mid qos [] = Err MOSQ_ERR_NOT_FOUND"
| "remove_mid mid qos (cur # others) =
     (if m_mid (ma_msg cur) = uint mid then
        (if m_qos (ma_msg cur) \<noteq> qos then Err MOSQ_ERR_PROTOCOL else Ok (cur, others))
      else case remove_mid mid qos others of
          Ok (m, others') \<Rightarrow> Ok (m, cur # others')
        | Err e \<Rightarrow> Err e
        | Fault \<Rightarrow> Fault)"

definition message__remove ::
  "uint16 \<Rightarrow> mosquitto_msg_direction \<Rightarrow> int \<Rightarrow> (mosquitto, mosquitto_message_all) cmd"
where
  "message__remove mid dir qos s = (case remove_mid mid qos (inflight (msgs dir s)) of
      Ok (m, others) \<Rightarrow>
        (Ok m, update_msgs dir (\<lambda>d. d\<lparr>inflight := others, queue_len := queue_len d - 1\<rparr>) s)
    | Err e \<Rightarrow> (Err e, s)
    | Fault \<Rightarrow> (Fault, s))"

definition message__delete ::
  "uint16 \<Rightarrow> mosquitto_msg_direction \<Rightarrow> int \<Rightarrow> (mosquitto, unit) cmd"
where
  "message__delete mid dir qos = then_do (message__remove mid dir qos) (\<lambda>_. ret ())"

fun out_update_loop ::
  "int \<Rightarrow> uint16 \<Rightarrow> mosquitto_msg_state \<Rightarrow> int \<Rightarrow> mosquitto_message_all list \<Rightarrow> mosquitto_message_all list res"
where
  "out_update_loop now mid st qos [] = Err MOSQ_ERR_NOT_FOUND"
| "out_update_loop now mid st qos (m # ms) =
     (if m_mid (ma_msg m) = uint mid then
        (if m_qos (ma_msg m) \<noteq> qos then Err MOSQ_ERR_PROTOCOL
         else Ok (m\<lparr>ma_state := st, ma_timestamp := now\<rparr> # ms))
      else case out_update_loop now mid st qos ms of
          Ok ms' \<Rightarrow> Ok (m # ms')
        | Err e \<Rightarrow> Err e
        | Fault \<Rightarrow> Fault)"

definition message__out_update :: "uint16 \<Rightarrow> mosquitto_msg_state \<Rightarrow> int \<Rightarrow> (mosquitto, unit) cmd" where
  "message__out_update mid st qos s =
     (case out_update_loop (e_now s) mid st qos (inflight (msgs_out s)) of
        Ok ms \<Rightarrow> (Ok (), set_inflight mosq_md_out ms s)
      | Err e \<Rightarrow> (Err e, s)
      | Fault \<Rightarrow> (Fault, s))"

section \<open>After a reconnection\<close>

text \<open>The incoming queue: every message is counted, the one with QoS 2 stay and take quota.\<close>

fun reset_in_loop :: "mosquitto_message_all list \<Rightarrow> mosquitto_msg_data \<Rightarrow> mosquitto_msg_data" where
  "reset_in_loop [] d = d"
| "reset_in_loop (m # ms) d =
     (let d = d\<lparr>queue_len := queue_len d + 1\<rparr> in
      if m_qos (ma_msg m) \<noteq> 2 then reset_in_loop ms d
      else reset_in_loop ms (decrement_quota (d\<lparr>inflight := inflight d @ [m\<lparr>ma_timestamp := 0\<rparr>]\<rparr>)))"

definition reset_state :: "mosquitto_message_all \<Rightarrow> mosquitto_msg_state" where
  "reset_state m =
     (if m_qos (ma_msg m) = 1 then mosq_ms_publish_qos1
      else if m_qos (ma_msg m) = 2 then
        (if ma_state m = mosq_ms_wait_for_pubrec then mosq_ms_publish_qos2
         else if ma_state m = mosq_ms_wait_for_pubcomp then mosq_ms_resend_pubrel
         else ma_state m)
      else ma_state m)"

fun reset_out_loop :: "bool \<Rightarrow> mosquitto_message_all list \<Rightarrow> mosquitto_msg_data \<Rightarrow> mosquitto_msg_data" where
  "reset_out_loop update_quota_only [] d = d"
| "reset_out_loop update_quota_only (m # ms) d =
     (let d = d\<lparr>queue_len := queue_len d + 1\<rparr>;
          m = m\<lparr>ma_timestamp := 0\<rparr> in
      if inflight_quota d \<noteq> 0 then
        (let m = (if update_quota_only then m else m\<lparr>ma_state := reset_state m\<rparr>) in
         reset_out_loop update_quota_only ms ((decrement_quota d)\<lparr>inflight := inflight d @ [m]\<rparr>))
      else reset_out_loop update_quota_only ms
             (d\<lparr>inflight := inflight d @ [m\<lparr>ma_state := mosq_ms_invalid\<rparr>]\<rparr>))"

definition restart_quota :: "mosquitto_msg_data \<Rightarrow> mosquitto_msg_data" where
  "restart_quota d = d\<lparr>inflight_quota := uint (inflight_maximum d), queue_len := 0, inflight := []\<rparr>"

definition message__reconnect_reset :: "bool \<Rightarrow> mosquitto \<Rightarrow> mosquitto" where
  "message__reconnect_reset update_quota_only s = s
     \<lparr>msgs_in := reset_in_loop (inflight (msgs_in s)) (restart_quota (msgs_in s)),
      msgs_out := reset_out_loop update_quota_only (inflight (msgs_out s)) (restart_quota (msgs_out s))\<rparr>"

text \<open>The loop of \<open>message__retry_check\<close>; the codes of the sends are dropped.\<close>

fun retry_loop ::
  "mosquitto_message_all list \<Rightarrow> mosquitto_message_all list \<Rightarrow> (mosquitto, unit) cmd"
where
  "retry_loop visited [] = ret ()"
| "retry_loop visited (m # ms) = (\<lambda>s.
     let retried = m\<lparr>ma_timestamp := e_now s, ma_dup := True\<rparr>;
         mid = word_of_int (m_mid (ma_msg m));
         again = (\<lambda>c. then_do (ignore_rc c) (\<lambda>_. retry_loop (visited @ [retried]) ms)
                    (set_inflight mosq_md_out (visited @ retried # ms) s))
     in
     if ma_state m \<in> {mosq_ms_publish_qos1, mosq_ms_publish_qos2} then again (publish_message retried)
     else if ma_state m = mosq_ms_wait_for_pubrel then again (send__pubrec mid 0 [])
     else if ma_state m \<in> {mosq_ms_resend_pubrel, mosq_ms_wait_for_pubcomp} then again (send__pubrel mid [])
     else retry_loop (visited @ [m]) ms s)"

definition message__retry_check :: "(mosquitto, unit) cmd" where
  "message__retry_check = then_do get_st (\<lambda>s. retry_loop [] (inflight (msgs_out s)))"

end
