(* ===== verification/Handle.thy ===== *)
theory Handle
  imports Messages
begin

text \<open>
  What the client does with a packet it has received: the handlers handle_*.c, each run on the
  complete packet in \<open>in_packet\<close> with the position at its first byte, and \<open>handle__packet\<close> of
  read_handle.c, which chooses among them. An application's callbacks are recorded in \<open>e_trace\<close>.
\<close>

unbundle bit_operations_syntax

section \<open>handle_publish.c\<close>

definition read_publish_mid :: "(mosquitto, uint16) cmd" where
  "read_publish_mid =
     then_do get_st (\<lambda>mosq.
     if protocol mosq = mosq_p_mqtt5 \<and> inflight_quota (msgs_in mosq) = 0 then throw MOSQ_ERR_PROTOCOL
     else then_do (on_in_packet (on_packet packet__read_uint16)) (\<lambda>mid.
       if mid = 0 then throw MOSQ_ERR_PROTOCOL else ret mid))"

text \<open>The payload: the rest of the packet, and its length as an \<open>int\<close>.\<close>

definition read_payload :: "(mosquitto, byte list \<times> int) cmd" where
  "read_payload =
     then_do get_st (\<lambda>mosq.
     let count = p_remaining_length (in_packet mosq) - p_pos (in_packet mosq) in
     if sint count \<noteq> 0 then
       then_do need_memory (\<lambda>_.
       then_do (on_in_packet (on_packet (packet__read_bytes count))) (\<lambda>payload.
       ret (payload, sint count)))
     else ret ([], 0))"

definition message_callbacks :: "mosquitto_message \<Rightarrow> mosquitto_property list \<Rightarrow> mosquitto \<Rightarrow> mosquitto" where
  "message_callbacks msg properties s =
     call_back on_message_v5 (Ev_message_v5 msg properties) (call_back on_message (Ev_message msg) s)"

definition handle__publish :: "(mosquitto, unit) cmd" where
  "handle__publish =
     then_do get_st (\<lambda>mosq.
     if mosquitto__get_state mosq \<noteq> mosq_cs_active then throw MOSQ_ERR_PROTOCOL
     else
     then_do need_memory (\<lambda>_.
     let header = p_command (in_packet mosq);
         qos = uint (drop_bit 1 (header AND 6)) in
     then_do (on_in_packet packet__read_string) (\<lambda>(topic, slen).
     if slen = 0 then throw MOSQ_ERR_PROTOCOL
     else
     then_do (if qos > 0 then read_publish_mid else ret 0) (\<lambda>mid.
     then_do (if protocol mosq = mosq_p_mqtt5 then on_in_packet (property__read_all CMD_PUBLISH) else ret [])
       (\<lambda>properties.
     then_do read_payload (\<lambda>(payload, payloadlen).
     let msg = \<lparr>m_mid = uint mid, m_topic = topic, m_payload = payload, m_payloadlen = payloadlen,
                m_qos = qos, m_retain = (header AND 1 \<noteq> 0)\<rparr>;
         message = \<lparr>ma_properties = [], ma_timestamp = e_now mosq, ma_state = mosq_ms_invalid,
                    ma_dup = (header AND 8 \<noteq> 0), ma_msg = msg\<rparr> in
     if qos = 0 then modify (message_callbacks msg properties)
     else if qos = 1 then
       then_do (modify util__decrement_receive_quota) (\<lambda>_.
       then_do (rc_of (send__puback mid 0 [])) (\<lambda>rc.
       then_do (modify (message_callbacks msg properties)) (\<lambda>_.
       return_rc rc)))
     else if qos = 2 then
       then_do (modify util__decrement_receive_quota) (\<lambda>_.
       then_do (rc_of (send__pubrec mid 0 [])) (\<lambda>rc.
       then_do (ignore_rc (message__queue
         (message\<lparr>ma_properties := properties, ma_state := mosq_ms_wait_for_pubrel\<rparr>) mosq_md_in)) (\<lambda>_.
       return_rc rc)))
     else throw MOSQ_ERR_PROTOCOL))))))"

section \<open>handle_pubackcomp.c\<close>

definition publish_callbacks :: "uint16 \<Rightarrow> byte \<Rightarrow> mosquitto_property list \<Rightarrow> mosquitto \<Rightarrow> mosquitto" where
  "publish_callbacks mid reason_code properties s =
     call_back on_publish_v5 (Ev_publish_v5 (uint mid) (uint reason_code) properties)
       (call_back on_publish (Ev_publish (uint mid)) s)"

definition puback_reasons :: "byte list" where
  "puback_reasons = [MQTT_RC_SUCCESS, MQTT_RC_NO_MATCHING_SUBSCRIBERS, MQTT_RC_UNSPECIFIED,
     MQTT_RC_IMPLEMENTATION_SPECIFIC, MQTT_RC_NOT_AUTHORIZED, MQTT_RC_TOPIC_NAME_INVALID,
     MQTT_RC_PACKET_ID_IN_USE, MQTT_RC_QUOTA_EXCEEDED, MQTT_RC_PAYLOAD_FORMAT_INVALID]"

definition pubcomp_reasons :: "byte list" where
  "pubcomp_reasons = [MQTT_RC_SUCCESS, MQTT_RC_PACKET_ID_NOT_FOUND]"

text \<open>The reason code and the properties of an MQTT 5 acknowledgement, when it has them.\<close>

definition read_ack_tail ::
  "(byte \<Rightarrow> bool) \<Rightarrow> bool \<Rightarrow> int \<Rightarrow> (mosquitto, byte \<times> mosquitto_property list) cmd"
where
  "read_ack_tail allowed reason_first command =
     then_do get_st (\<lambda>mosq.
     if protocol mosq = mosq_p_mqtt5 \<and> p_remaining_length (in_packet mosq) > 2 then
       then_do (on_in_packet (on_packet packet__read_byte)) (\<lambda>reason_code.
       if reason_first \<and> \<not> allowed reason_code then throw MOSQ_ERR_PROTOCOL
       else
       then_do (if p_remaining_length (in_packet mosq) > 3
                then on_in_packet (property__read_all command) else ret []) (\<lambda>properties.
       if \<not> allowed reason_code then throw MOSQ_ERR_PROTOCOL else ret (reason_code, properties)))
     else ret (0, []))"

definition packet_read_whole :: "(mosquitto, unit) cmd" where
  "packet_read_whole =
     then_do get_st (\<lambda>mosq.
     guard_err (p_pos (in_packet mosq) < p_remaining_length (in_packet mosq)) MOSQ_ERR_MALFORMED_PACKET)"

definition handle__pubackcomp :: "string \<Rightarrow> (mosquitto, unit) cmd" where
  "handle__pubackcomp type =
     then_do get_st (\<lambda>mosq.
     let puback = (type ! 3 = CHR ''A''); qos = (if puback then 1 else 2) in
     if mosquitto__get_state mosq \<noteq> mosq_cs_active then throw MOSQ_ERR_PROTOCOL
     else if protocol mosq \<noteq> mosq_p_mqtt31 \<and> p_command (in_packet mosq) AND 0x0F \<noteq> 0
     then throw MOSQ_ERR_MALFORMED_PACKET
     else
     then_do (modify util__increment_send_quota) (\<lambda>_.
     then_do (on_in_packet (on_packet packet__read_uint16)) (\<lambda>mid.
     if p_command (in_packet mosq) \<noteq> (if puback then CMD_PUBACK else CMD_PUBCOMP)
     then throw MOSQ_ERR_MALFORMED_PACKET
     else if mid = 0 then throw MOSQ_ERR_PROTOCOL
     else
     then_do (read_ack_tail (\<lambda>rc. rc \<in> set (if puback then puback_reasons else pubcomp_reasons))
       False CMD_PUBACK) (\<lambda>(reason_code, properties).
     then_do packet_read_whole (\<lambda>_.
     then_do (rc_of (message__delete mid mosq_md_out qos)) (\<lambda>rc.
     if rc = MOSQ_ERR_SUCCESS \<or> rc = MOSQ_ERR_NOT_FOUND then
       then_do (modify (if rc = MOSQ_ERR_SUCCESS then publish_callbacks mid reason_code properties else id)) (\<lambda>_.
       ignore_rc (message__release_to_inflight mosq_md_out))
     else throw rc))))))"

section \<open>handle_pubrec.c\<close>

definition pubrec_reasons :: "byte list" where
  "pubrec_reasons = [MQTT_RC_SUCCESS, MQTT_RC_NO_MATCHING_SUBSCRIBERS, MQTT_RC_UNSPECIFIED,
     MQTT_RC_IMPLEMENTATION_SPECIFIC, MQTT_RC_NOT_AUTHORIZED, MQTT_RC_TOPIC_NAME_INVALID,
     MQTT_RC_PACKET_ID_IN_USE, MQTT_RC_QUOTA_EXCEEDED]"

text \<open>The properties were freed before the callback, which is given NULL.\<close>

definition handle__pubrec :: "(mosquitto, unit) cmd" where
  "handle__pubrec =
     then_do get_st (\<lambda>mosq.
     if mosquitto__get_state mosq \<noteq> mosq_cs_active then throw MOSQ_ERR_PROTOCOL
     else if p_command (in_packet mosq) \<noteq> CMD_PUBREC then throw MOSQ_ERR_MALFORMED_PACKET
     else
     then_do (on_in_packet (on_packet packet__read_uint16)) (\<lambda>mid.
     if mid = 0 then throw MOSQ_ERR_PROTOCOL
     else
     then_do (read_ack_tail (\<lambda>rc. rc \<in> set pubrec_reasons) True CMD_PUBREC) (\<lambda>(reason_code, _).
     then_do packet_read_whole (\<lambda>_.
     if reason_code < 0x80 \<or> protocol mosq \<noteq> mosq_p_mqtt5 then
       then_do (rc_of (message__out_update mid mosq_ms_wait_for_pubcomp 2)) (\<lambda>rc.
       if rc = MOSQ_ERR_NOT_FOUND \<or> rc = MOSQ_ERR_SUCCESS then send__pubrel mid [] else throw rc)
     else
       then_do (rc_of (message__delete mid mosq_md_out 2)) (\<lambda>rc.
       then_do (modify (if rc = MOSQ_ERR_SUCCESS
         then call_back on_publish_v5 (Ev_publish_v5 (uint mid) (uint reason_code) []) else id)) (\<lambda>_.
       then_do (modify util__increment_send_quota) (\<lambda>_.
       ignore_rc (message__release_to_inflight mosq_md_out))))))))"

section \<open>handle_pubrel.c\<close>

text \<open>Only a message that is still queued is passed on, and it is removed before the callbacks.\<close>

definition deliver_released :: "uint16 \<Rightarrow> (mosquitto, unit) cmd" where
  "deliver_released mid s = (case message__remove mid mosq_md_in 2 s of
      (Ok message, s') \<Rightarrow> (Ok (), message_callbacks (ma_msg message) (ma_properties message) s')
    | (Err e, s') \<Rightarrow> (if e = MOSQ_ERR_NOT_FOUND then Ok () else Err e, s')
    | (Fault, s') \<Rightarrow> (Fault, s'))"

definition handle__pubrel :: "(mosquitto, unit) cmd" where
  "handle__pubrel =
     then_do get_st (\<lambda>mosq.
     if mosquitto__get_state mosq \<noteq> mosq_cs_active then throw MOSQ_ERR_PROTOCOL
     else if protocol mosq \<noteq> mosq_p_mqtt31 \<and> p_command (in_packet mosq) \<noteq> (CMD_PUBREL OR 2)
     then throw MOSQ_ERR_MALFORMED_PACKET
     else if protocol mosq \<noteq> mosq_p_mqtt31 \<and> p_command (in_packet mosq) AND 0x0F \<noteq> 0x02
     then throw MOSQ_ERR_PROTOCOL
     else
     then_do (on_in_packet (on_packet packet__read_uint16)) (\<lambda>mid.
     if mid = 0 then throw MOSQ_ERR_PROTOCOL
     else
     then_do (read_ack_tail (\<lambda>rc. rc \<in> set pubcomp_reasons) True CMD_PUBREL) (\<lambda>_.
     then_do packet_read_whole (\<lambda>_.
     then_do (rc_of (send__pubcomp mid [])) (\<lambda>rc.
     if rc \<noteq> MOSQ_ERR_SUCCESS then
       then_do (rc_of (message__delete mid mosq_md_in 2)) (\<lambda>_. throw rc)
     else
       deliver_released mid)))))"

section \<open>handle_connack.c\<close>

definition connack_callback :: "byte \<Rightarrow> byte \<Rightarrow> mosquitto_property list \<Rightarrow> mosquitto \<Rightarrow> mosquitto" where
  "connack_callback reason_code connect_flags properties s =
     (let rc = uint reason_code; flags = uint connect_flags;
          s = (if reason_code = MQTT_RC_SUCCESS then s\<lparr>reconnects := 0\<rparr> else s);
          s = call_back on_connect (Ev_connect rc) s;
          s = call_back on_connect_with_flags (Ev_connect_with_flags rc flags) s
      in call_back on_connect_v5 (Ev_connect_v5 rc flags properties) s)"

text \<open>\<open>mosquitto_property_read_*(properties, ..., &mosq->...)\<close>: the options the server sets.\<close>

definition server_options :: "mosquitto_property list \<Rightarrow> mosquitto \<Rightarrow> mosquitto" where
  "server_options properties s =
     (let s = (case mosquitto_property_read_byte properties MQTT_PROP_RETAIN_AVAILABLE False of
            None \<Rightarrow> s | Some (_, v) \<Rightarrow> s\<lparr>retain_available := v\<rparr>);
          s = (case mosquitto_property_read_byte properties MQTT_PROP_MAXIMUM_QOS False of
            None \<Rightarrow> s | Some (_, v) \<Rightarrow> s\<lparr>max_qos := v\<rparr>);
          s = (case mosquitto_property_read_int16 properties MQTT_PROP_RECEIVE_MAXIMUM False of
            None \<Rightarrow> s | Some (_, v) \<Rightarrow> s\<lparr>msgs_out := (msgs_out s)\<lparr>inflight_maximum := v\<rparr>\<rparr>);
          s = (case mosquitto_property_read_int16 properties MQTT_PROP_SERVER_KEEP_ALIVE False of
            None \<Rightarrow> s | Some (_, v) \<Rightarrow> s\<lparr>keepalive := v\<rparr>);
          s = (case mosquitto_property_read_int32 properties MQTT_PROP_MAXIMUM_PACKET_SIZE False of
            None \<Rightarrow> s | Some (_, v) \<Rightarrow> s\<lparr>maximum_packet_size := v\<rparr>)
      in s\<lparr>msgs_out := (msgs_out s)\<lparr>inflight_quota := uint (inflight_maximum (msgs_out s))\<rparr>\<rparr>)"

text \<open>A client identifier assigned by the server, refused when the client has one.\<close>

definition assigned_client_id :: "mosquitto_property list \<Rightarrow> (mosquitto, unit) cmd" where
  "assigned_client_id properties =
     then_do (on_heap (mosquitto_property_read_string properties MQTT_PROP_ASSIGNED_CLIENT_IDENTIFIER False)) (\<lambda>r.
     case r of
       None \<Rightarrow> ret ()
     | Some (_, clientid, _) \<Rightarrow>
         then_do get_st (\<lambda>mosq.
         if client_id mosq \<noteq> None then throw MOSQ_ERR_PROTOCOL
         else modify (\<lambda>s. s\<lparr>client_id := Some (takeWhile (\<lambda>c. c \<noteq> 0) clientid)\<rparr>)))"

definition connack_accepted :: "byte \<Rightarrow> byte \<Rightarrow> mosquitto_property list \<Rightarrow> (mosquitto, unit) cmd" where
  "connack_accepted reason_code connect_flags properties =
     then_do (assigned_client_id properties) (\<lambda>_.
     then_do (modify (server_options properties)) (\<lambda>_.
     then_do (modify (message__reconnect_reset True)) (\<lambda>_.
     then_do (modify (connack_callback reason_code connect_flags properties)) (\<lambda>_.
     if reason_code = 0 then
       then_do (modify (\<lambda>s. if cstate s \<noteq> mosq_cs_disconnecting then s\<lparr>cstate := mosq_cs_active\<rparr> else s)) (\<lambda>_.
       message__retry_check)
     else if reason_code \<in> {1, 2, 3, 4, 5} then throw MOSQ_ERR_CONN_REFUSED
     else throw MOSQ_ERR_PROTOCOL))))"

definition handle__connack :: "(mosquitto, unit) cmd" where
  "handle__connack =
     then_do get_st (\<lambda>mosq.
     if p_command (in_packet mosq) \<noteq> CMD_CONNACK then throw MOSQ_ERR_MALFORMED_PACKET
     else
     then_do (on_in_packet (on_packet packet__read_byte)) (\<lambda>connect_flags.
     then_do (on_in_packet (on_packet packet__read_byte)) (\<lambda>reason_code.
     if protocol mosq = mosq_p_mqtt5 then (\<lambda>s.
       case on_in_packet (property__read_all CMD_CONNACK) s of
         (Ok properties, s') \<Rightarrow> connack_accepted reason_code connect_flags properties s'
       | (Err e, s') \<Rightarrow>
           (Err e, if e = MOSQ_ERR_PROTOCOL \<and> reason_code = CONNACK_REFUSED_PROTOCOL_VERSION
                   then connack_callback MQTT_RC_UNSUPPORTED_PROTOCOL_VERSION connect_flags [] s' else s')
       | (Fault, s') \<Rightarrow> (Fault, s'))
     else connack_accepted reason_code connect_flags [])))"

section \<open>handle_disconnect.c, handle_auth.c, handle_ping.c\<close>

text \<open>The properties were freed before \<open>do_client_disconnect\<close>, which is given NULL.\<close>

definition handle__disconnect :: "(mosquitto, unit) cmd" where
  "handle__disconnect =
     then_do get_st (\<lambda>mosq.
     if protocol mosq \<noteq> mosq_p_mqtt5 then throw MOSQ_ERR_PROTOCOL
     else if p_command (in_packet mosq) \<noteq> CMD_DISCONNECT then throw MOSQ_ERR_MALFORMED_PACKET
     else
     then_do (on_in_packet (on_packet packet__read_byte)) (\<lambda>reason_code.
     then_do (if p_remaining_length (in_packet mosq) > 2
              then on_in_packet (property__read_all CMD_DISCONNECT) else ret []) (\<lambda>_.
     modify (do_client_disconnect (uint reason_code) []))))"

text \<open>A missing reason code returns 1, which is \<open>MOSQ_ERR_NOMEM\<close>.\<close>

definition handle__auth :: "(mosquitto, unit) cmd" where
  "handle__auth =
     then_do get_st (\<lambda>mosq.
     if protocol mosq \<noteq> mosq_p_mqtt5 then throw MOSQ_ERR_PROTOCOL
     else if p_command (in_packet mosq) \<noteq> CMD_AUTH then throw MOSQ_ERR_MALFORMED_PACKET
     else (\<lambda>s. case on_in_packet (on_packet packet__read_byte) s of
         (Ok _, s') \<Rightarrow> then_do (on_in_packet (property__read_all CMD_AUTH)) (\<lambda>_. ret ()) s'
       | (Err _, s') \<Rightarrow> (Err MOSQ_ERR_NOMEM, s')
       | (Fault, s') \<Rightarrow> (Fault, s')))"

definition handle__pingreq :: "(mosquitto, unit) cmd" where
  "handle__pingreq =
     then_do get_st (\<lambda>mosq.
     if mosquitto__get_state mosq \<noteq> mosq_cs_active then throw MOSQ_ERR_PROTOCOL
     else if p_command (in_packet mosq) \<noteq> CMD_PINGREQ then throw MOSQ_ERR_MALFORMED_PACKET
     else throw MOSQ_ERR_PROTOCOL)"

definition handle__pingresp :: "(mosquitto, unit) cmd" where
  "handle__pingresp =
     then_do get_st (\<lambda>mosq.
     if mosquitto__get_state mosq \<noteq> mosq_cs_active then throw MOSQ_ERR_PROTOCOL
     else modify (\<lambda>s. s\<lparr>ping_t := 0\<rparr>))"

section \<open>handle_suback.c, handle_unsuback.c\<close>

text \<open>\<open>while(mosq->in_packet.pos < mosq->in_packet.remaining_length)\<close>: the granted QoS values.\<close>

lemma read_byte_advances:
  assumes "packet__read_byte p = (Ok b, p')" "p_pos p < p_remaining_length p"
  shows "unat (p_remaining_length p') - unat (p_pos p') < unat (p_remaining_length p) - unat (p_pos p)"
proof -
  have "unat (p_pos p) < unat (p_remaining_length p)" using assms(2) by (simp add: word_less_nat_alt)
  moreover have "unat (p_remaining_length p) < 2 ^ LENGTH(32)" by (rule unsigned_less)
  ultimately have "unat (p_pos p + 1) = unat (p_pos p) + 1"
    using unat_add_word_of_nat [of "p_pos p" 1] by simp
  then show ?thesis
    using assms \<open>unat (p_pos p) < _\<close> by (auto simp: packet__read_byte_def fetch_def split: if_splits)
qed

function suback_loop :: "int list \<Rightarrow> (mosquitto__packet, int list) cmd" where
  "suback_loop granted_qos p =
     (if p_pos p < p_remaining_length p then
        case packet__read_byte p of
          (Ok qos, p') \<Rightarrow> suback_loop (granted_qos @ [uint qos]) p'
        | (Err e, p') \<Rightarrow> (Err e, p')
        | (Fault, p') \<Rightarrow> (Fault, p')
      else (Ok granted_qos, p))"
  by pat_completeness auto
termination
  by (relation "measure (\<lambda>(_, p). unat (p_remaining_length p) - unat (p_pos p))")
    (auto dest!: sym [of "(Ok _, _)"] read_byte_advances)

declare suback_loop.simps [simp del]

definition handle__suback :: "(mosquitto, unit) cmd" where
  "handle__suback =
     then_do get_st (\<lambda>mosq.
     if mosquitto__get_state mosq \<noteq> mosq_cs_active then throw MOSQ_ERR_PROTOCOL
     else if p_command (in_packet mosq) \<noteq> CMD_SUBACK then throw MOSQ_ERR_MALFORMED_PACKET
     else
     then_do (on_in_packet (on_packet packet__read_uint16)) (\<lambda>mid.
     if mid = 0 then throw MOSQ_ERR_PROTOCOL
     else
     then_do (if protocol mosq = mosq_p_mqtt5 then on_in_packet (property__read_all CMD_SUBACK) else ret [])
       (\<lambda>properties.
     then_do need_memory (\<lambda>_.
     then_do (on_in_packet (on_packet (suback_loop []))) (\<lambda>granted_qos.
     modify (\<lambda>s. call_back on_subscribe_v5 (Ev_subscribe_v5 (uint mid) granted_qos properties)
       (call_back on_subscribe (Ev_subscribe (uint mid) granted_qos) s)))))))"

definition handle__unsuback :: "(mosquitto, unit) cmd" where
  "handle__unsuback =
     then_do get_st (\<lambda>mosq.
     if mosquitto__get_state mosq \<noteq> mosq_cs_active then throw MOSQ_ERR_PROTOCOL
     else if p_command (in_packet mosq) \<noteq> CMD_UNSUBACK then throw MOSQ_ERR_MALFORMED_PACKET
     else
     then_do (on_in_packet (on_packet packet__read_uint16)) (\<lambda>mid.
     if mid = 0 then throw MOSQ_ERR_PROTOCOL
     else
     then_do (if protocol mosq = mosq_p_mqtt5 then on_in_packet (property__read_all CMD_UNSUBACK) else ret [])
       (\<lambda>properties.
     modify (\<lambda>s. call_back on_unsubscribe_v5 (Ev_unsubscribe_v5 (uint mid) properties)
       (call_back on_unsubscribe (Ev_unsubscribe (uint mid)) s)))))"

section \<open>read_handle.c\<close>

definition handle__packet :: "(mosquitto, unit) cmd" where
  "handle__packet =
     then_do get_st (\<lambda>mosq.
     let command = p_command (in_packet mosq) AND 0xF0 in
     if command = CMD_PINGREQ then handle__pingreq
     else if command = CMD_PINGRESP then handle__pingresp
     else if command = CMD_PUBACK then handle__pubackcomp ''PUBACK''
     else if command = CMD_PUBCOMP then handle__pubackcomp ''PUBCOMP''
     else if command = CMD_PUBLISH then handle__publish
     else if command = CMD_PUBREC then handle__pubrec
     else if command = CMD_PUBREL then handle__pubrel
     else if command = CMD_CONNACK then handle__connack
     else if command = CMD_SUBACK then handle__suback
     else if command = CMD_UNSUBACK then handle__unsuback
     else if command = CMD_DISCONNECT then handle__disconnect
     else if command = CMD_AUTH then handle__auth
     else throw MOSQ_ERR_PROTOCOL)"

end
