(* ===== verification/Packet_In.thy ===== *)
theory Packet_In
  imports Handle
begin

text \<open>
  Receiving packets: \<open>packet__read\<close> of packet_mosq.c, which collects a packet over as many calls
  as the socket needs and hands it to \<open>handle__packet\<close> when it is complete. \<open>remaining_count\<close> is
  0 before the remaining length, negative while it is read and positive after it.
\<close>

unbundle bit_operations_syntax

definition update_in :: "(mosquitto__packet \<Rightarrow> mosquitto__packet) \<Rightarrow> mosquitto \<Rightarrow> mosquitto" where
  "update_in f s = s\<lparr>in_packet := f (in_packet s)\<rparr>"

text \<open>What a call returns when \<open>read\<close> gave \<open>r\<close> instead of data: 0 is the end of the stream.\<close>

definition read_stopped :: "byte list option \<Rightarrow> mosquitto \<Rightarrow> unit res" where
  "read_stopped r s = (if r = Some [] then Err MOSQ_ERR_CONN_LOST else errno_rc (e_errno s))"

section \<open>The command byte\<close>

definition read_command :: "mosquitto \<Rightarrow> unit res option \<times> mosquitto" where
  "read_command s =
     (if p_command (in_packet s) \<noteq> 0 then (None, s)
      else case net__read 1 s of
          (Some [b], s') \<Rightarrow> (None, update_in (\<lambda>p. p\<lparr>p_command := b\<rparr>) s')
        | (r, s') \<Rightarrow> (Some (read_stopped r s'), s'))"

section \<open>The remaining length\<close>

text \<open>One byte of the remaining length.\<close>

definition take_length_byte :: "byte \<Rightarrow> mosquitto__packet \<Rightarrow> mosquitto__packet" where
  "take_length_byte b p = p
     \<lparr>p_remaining_length := p_remaining_length p + ucast (b AND 127) * p_remaining_mult p,
      p_remaining_mult := p_remaining_mult p * 128\<rparr>"

definition count_length_byte :: "mosquitto__packet \<Rightarrow> mosquitto__packet" where
  "count_length_byte p = p\<lparr>p_remaining_count := p_remaining_count p - 1\<rparr>"

lemma net__read_frame:
  "net__read n s = (r, s') \<Longrightarrow> s' = s\<lparr>e_errno := e_errno s', e_recvs := e_recvs s'\<rparr>"
  by (cases s) (auto simp: net__read_def Let_def split: list.splits recv_outcome.splits)

lemma net__read_in_packet: "net__read n s = (r, s') \<Longrightarrow> in_packet s' = in_packet s"
  by (auto simp: net__read_def Let_def split: list.splits recv_outcome.splits)

text \<open>
  The \<open>do ... while((byte & 128) != 0)\<close> loop: \<open>None\<close> when the length is complete, otherwise what
  the call returns. A fifth byte is refused.
\<close>

function read_length_loop :: "mosquitto \<Rightarrow> unit res option \<times> mosquitto" where
  "read_length_loop s = (case net__read 1 s of
      (Some [b], s') \<Rightarrow>
        (let s' = update_in count_length_byte s' in
         if p_remaining_count (in_packet s') < -4 then (Some (Err MOSQ_ERR_MALFORMED_PACKET), s')
         else
           let s' = update_in (take_length_byte b) s' in
           if b AND 128 \<noteq> 0 then read_length_loop s' else (None, s'))
    | (r, s') \<Rightarrow> (Some (read_stopped r s'), s'))"
  by pat_completeness auto

termination
  by (relation "measure (\<lambda>s. nat (p_remaining_count (in_packet s) + 5))")
    (auto dest!: sym [of "(Some _, _)"] net__read_in_packet
      simp: update_in_def count_length_byte_def take_length_byte_def)

declare read_length_loop.simps [simp del]

text \<open>The length is complete: the count is made positive and the buffer allocated.\<close>

definition length_complete :: "(mosquitto, unit) cmd" where
  "length_complete =
     then_do (modify (update_in (\<lambda>p. p\<lparr>p_remaining_count := - p_remaining_count p\<rparr>))) (\<lambda>_.
     then_do get_st (\<lambda>s. let n = p_remaining_length (in_packet s) in
     if n > 0 then
       then_do need_memory (\<lambda>_.
       modify (\<lambda>s. update_in (\<lambda>p. p
         \<lparr>p_payload := fresh_bytes (e_heap s) (unat n), p_to_process := n\<rparr>) s))
     else ret ()))"

definition read_length :: "mosquitto \<Rightarrow> unit res option \<times> mosquitto" where
  "read_length s =
     (if p_remaining_count (in_packet s) \<le> 0 then
        case read_length_loop s of
          (Some r, s') \<Rightarrow> (Some r, s')
        | (None, s') \<Rightarrow> (case length_complete s' of
              (Ok _, s'') \<Rightarrow> (None, s'')
            | (Err e, s'') \<Rightarrow> (Some (Err e), s'')
            | (Fault, s'') \<Rightarrow> (Some Fault, s''))
      else (None, s))"

section \<open>The payload\<close>

definition store_chunk :: "byte list \<Rightarrow> mosquitto__packet \<Rightarrow> mosquitto__packet" where
  "store_chunk bs p = p
     \<lparr>p_payload := store (unat (p_pos p)) bs (p_payload p),
      p_to_process := p_to_process p - word_of_nat (length bs),
      p_pos := p_pos p + word_of_nat (length bs)\<rparr>"

text \<open>What a stopped read of the payload leaves: a long message keeps the connection alive.\<close>

definition payload_stopped :: "mosquitto \<Rightarrow> mosquitto" where
  "payload_stopped s =
     (if e_errno s \<in> {EAGAIN, EWOULDBLOCK} \<and> p_to_process (in_packet s) > 1000
      then s\<lparr>last_msg_in := e_now s\<rparr> else s)"

lemma net__read_length: "net__read n s = (Some bs, s') \<Longrightarrow> length bs \<le> n"
  by (auto simp: net__read_def Let_def split: list.splits recv_outcome.splits)

lemma store_chunk_measure:
  assumes "net__read (unat (p_to_process (in_packet s))) s = (Some (b # bs), s')"
  shows "unat (p_to_process (in_packet (update_in (store_chunk (b # bs)) s'))) < unat (p_to_process (in_packet s))"
proof -
  have l: "length (b # bs) \<le> unat (p_to_process (in_packet s))" by (rule net__read_length [OF assms])
  have "unat (p_to_process (in_packet s)) < 2 ^ LENGTH(32)" by (rule unsigned_less)
  with l have u: "unat (word_of_nat (length (b # bs)) :: uint32) = length (b # bs)"
    by (intro unat_of_nat_less) linarith
  have "unat (p_to_process (in_packet s) - word_of_nat (length (b # bs))) = unat (p_to_process (in_packet s)) - length (b # bs)"
    using l u unat_sub [of "word_of_nat (length (b # bs))" "p_to_process (in_packet s)"]
    by (simp add: word_le_nat_alt del: of_nat_Suc)
  then show ?thesis using net__read_in_packet [OF assms] l
    by (simp add: update_in_def store_chunk_def del: of_nat_Suc)
qed

function read_payload_loop :: "mosquitto \<Rightarrow> unit res option \<times> mosquitto" where
  "read_payload_loop s =
     (if p_to_process (in_packet s) > 0 then
        (if length (p_payload (in_packet s)) < unat (p_pos (in_packet s)) + unat (p_to_process (in_packet s))
         then (Some Fault, s)
         else case net__read (unat (p_to_process (in_packet s))) s of
             (Some (b # bs), s') \<Rightarrow> read_payload_loop (update_in (store_chunk (b # bs)) s')
           | (_, s') \<Rightarrow> (Some (errno_rc (e_errno s')), payload_stopped s'))
      else (None, s))"
  by pat_completeness auto

termination
  by (relation "measure (\<lambda>s. unat (p_to_process (in_packet s)))")
    (auto dest!: sym [of "(Some _, _)"] dest: store_chunk_measure)

declare read_payload_loop.simps [simp del]

section \<open>A call\<close>

text \<open>All data for this packet is read.\<close>

definition packet_complete :: "(mosquitto, unit) cmd" where
  "packet_complete =
     then_do (modify (update_in (\<lambda>p. p\<lparr>p_pos := 0\<rparr>))) (\<lambda>_.
     then_do (rc_of handle__packet) (\<lambda>rc.
     then_do (modify (\<lambda>s. (update_in packet__cleanup s)\<lparr>last_msg_in := e_now s\<rparr>)) (\<lambda>_.
     return_rc rc)))"

definition packet__read :: "(mosquitto, unit) cmd" where
  "packet__read s =
     (if sock s = INVALID_SOCKET then (Err MOSQ_ERR_NO_CONN, s)
      else if mosquitto__get_state s = mosq_cs_connect_pending then (Ok (), s)
      else case read_command s of
          (Some r, s1) \<Rightarrow> (r, s1)
        | (None, s1) \<Rightarrow> (case read_length s1 of
            (Some r, s2) \<Rightarrow> (r, s2)
          | (None, s2) \<Rightarrow> (case read_payload_loop s2 of
              (Some r, s3) \<Rightarrow> (r, s3)
            | (None, s3) \<Rightarrow> packet_complete s3)))"

end
