(* ===== verification/Actions.thy ===== *)
theory Actions
  imports Packet_In Topic
begin

text \<open>
  What the application asks for: publishing, subscribing and unsubscribing (actions.c), the will
  (will_mosq.c), the topic aliases (alias_mosq.c), the options (options.c), connecting and
  disconnecting (connect.c) and the keepalive timer (util_mosq.c).
\<close>

unbundle bit_operations_syntax

section \<open>actions.c\<close>

text \<open>
  The properties that go out: a list the library built, or else a copy of the first property of
  the application's list, on the stack and without successor.
\<close>

definition outgoing :: "mosquitto_property list \<Rightarrow> mosquitto_property list" where
  "outgoing properties = (case properties of
      [] \<Rightarrow> []
    | p # ps \<Rightarrow> (if pr_client_generated p then p # ps else [p\<lparr>pr_client_generated := True\<rparr>]))"

text \<open>\<open>if(properties){ ... rc = mosquitto_property_check_all(command, outgoing_properties); if(rc) return rc; }\<close>\<close>

definition check_outgoing :: "int \<Rightarrow> mosquitto_property list \<Rightarrow> (mosquitto, mosquitto_property list) cmd" where
  "check_outgoing command properties =
     (if properties = [] then ret []
      else then_do (lift_res (mosquitto_property_check_all command (outgoing properties))) (\<lambda>_.
        ret (outgoing properties)))"

definition check_oversize :: "uint32 \<Rightarrow> (mosquitto, unit) cmd" where
  "check_oversize remaining_length =
     then_do get_st (\<lambda>mosq.
     guard_err (maximum_packet_size mosq > 0 \<and> packet__check_oversize mosq remaining_length \<noteq> Ok ())
       MOSQ_ERR_OVERSIZE_PACKET)"

text \<open>\<open>mosquitto_validate_utf8(str, (int)strlen(str)) == MOSQ_ERR_SUCCESS\<close>\<close>

definition valid_text :: "byte list \<Rightarrow> bool" where
  "valid_text str = (mosquitto_validate_utf8 (Some (str @ [0])) (cast_int (length str)) = Ok ())"

abbreviation (input) MQTT_MAX_PAYLOAD :: int where "MQTT_MAX_PAYLOAD \<equiv> 268435455"

text \<open>The topic as it is sent: an empty one becomes NULL, which needs a topic alias.\<close>

definition check_publish_topic ::
  "byte list option \<Rightarrow> int \<Rightarrow> mosquitto_property list \<Rightarrow> (mosquitto, byte list option) cmd"
where
  "check_publish_topic topic payloadlen outgoing_properties =
     then_do get_st (\<lambda>mosq.
     case topic of
       Some (c # cs) \<Rightarrow>
         (if \<not> valid_text (c # cs) then throw MOSQ_ERR_MALFORMED_UTF8
          else if payloadlen < 0 \<or> payloadlen > MQTT_MAX_PAYLOAD then throw MOSQ_ERR_PAYLOAD_SIZE
          else if mosquitto_pub_topic_check topic \<noteq> Ok () then throw MOSQ_ERR_INVAL
          else ret topic)
     | _ \<Rightarrow>
         (if protocol mosq = mosq_p_mqtt5
             \<and> list_ex (\<lambda>p. pr_identifier p = MQTT_PROP_TOPIC_ALIAS) outgoing_properties
          then ret None else throw MOSQ_ERR_INVAL))"

text \<open>The copy of the payload: \<open>payload\<close> is the memory at the application's pointer.\<close>

definition copy_payload :: "int \<Rightarrow> byte list \<Rightarrow> (mosquitto, byte list) cmd" where
  "copy_payload payloadlen payload =
     (if payloadlen \<noteq> 0 then
        then_do need_memory (\<lambda>_.
        let n = unat (word_of_int payloadlen :: uint32) in
        if length payload < n then fault else ret (take n payload))
      else ret [])"

definition queue_publish ::
  "uint16 \<Rightarrow> byte list option \<Rightarrow> int \<Rightarrow> byte list \<Rightarrow> int \<Rightarrow> bool \<Rightarrow> mosquitto_property list \<Rightarrow> (mosquitto, unit) cmd"
where
  "queue_publish local_mid topic payloadlen payload qos retain outgoing_properties =
     then_do (on_heap (mosquitto_property_copy_all outgoing_properties)) (\<lambda>properties_copy.
     then_do need_memory (\<lambda>_.
     then_do (if topic \<noteq> None then need_memory else ret ()) (\<lambda>_.
     then_do (copy_payload payloadlen payload) (\<lambda>payload.
     then_do get_st (\<lambda>mosq.
     message__queue
       \<lparr>ma_properties = properties_copy, ma_timestamp = e_now mosq, ma_state = mosq_ms_invalid, ma_dup = False,
        ma_msg = \<lparr>m_mid = uint local_mid, m_topic = topic, m_payload = payload, m_payloadlen = payloadlen,
                  m_qos = qos, m_retain = retain\<rparr>\<rparr> mosq_md_out)))))"

text \<open>The result is the identifier stored through \<open>mid\<close> with the code; an error before the
  identifier is taken has no identifier.\<close>

definition mosquitto_publish_v5 ::
  "byte list option \<Rightarrow> int \<Rightarrow> byte list \<Rightarrow> int \<Rightarrow> bool \<Rightarrow> mosquitto_property list
   \<Rightarrow> (mosquitto, uint16 \<times> mosq_err) cmd"
where
  "mosquitto_publish_v5 topic payloadlen payload qos retain properties =
     then_do get_st (\<lambda>mosq.
     if qos < 0 \<or> qos > 2 then throw MOSQ_ERR_INVAL
     else if protocol mosq \<noteq> mosq_p_mqtt5 \<and> properties \<noteq> [] then throw MOSQ_ERR_NOT_SUPPORTED
     else if qos > uint (max_qos mosq) then throw MOSQ_ERR_QOS_NOT_SUPPORTED
     else
     let retain = (retain \<and> retain_available mosq \<noteq> 0) in
     then_do (check_outgoing CMD_PUBLISH properties) (\<lambda>outgoing_properties.
     then_do (check_publish_topic topic payloadlen outgoing_properties) (\<lambda>topic.
     then_do (check_oversize (1 + 2 + (case topic of None \<Rightarrow> 0 | Some t \<Rightarrow> c_strlen t)
         + word_of_int payloadlen + property__get_length_all outgoing_properties
         + (if qos > 0 then 1 else 0))) (\<lambda>_.
     then_do mosquitto__mid_generate (\<lambda>local_mid.
     then_do (rc_of (
         if qos = 0 then send__publish local_mid topic (word_of_int payloadlen) payload (word_of_int qos)
           retain False outgoing_properties [] 0
         else queue_publish local_mid topic payloadlen payload qos retain outgoing_properties)) (\<lambda>rc.
     ret (local_mid, rc)))))))"

definition mosquitto_publish ::
  "byte list option \<Rightarrow> int \<Rightarrow> byte list \<Rightarrow> int \<Rightarrow> bool \<Rightarrow> (mosquitto, uint16 \<times> mosq_err) cmd"
where
  "mosquitto_publish topic payloadlen payload qos retain =
     mosquitto_publish_v5 topic payloadlen payload qos retain []"

text \<open>The loop over the filters: their length in the packet.\<close>

fun check_filters :: "uint32 \<Rightarrow> uint32 \<Rightarrow> byte list list \<Rightarrow> (mosquitto, uint32) cmd" where
  "check_filters extra remaining_length [] = ret remaining_length"
| "check_filters extra remaining_length (t # ts) =
     (if mosquitto_sub_topic_check (Some t) \<noteq> Ok () then throw MOSQ_ERR_INVAL
      else if \<not> valid_text t then throw MOSQ_ERR_MALFORMED_UTF8
      else check_filters extra (remaining_length + (2 + c_strlen t + extra)) ts)"

definition mosquitto_subscribe_multiple ::
  "byte list list \<Rightarrow> int \<Rightarrow> int \<Rightarrow> mosquitto_property list \<Rightarrow> (mosquitto, uint16 \<times> mosq_err) cmd"
where
  "mosquitto_subscribe_multiple sub qos options properties =
     then_do get_st (\<lambda>mosq.
     if sub = [] then throw MOSQ_ERR_INVAL
     else if protocol mosq \<noteq> mosq_p_mqtt5 \<and> properties \<noteq> [] then throw MOSQ_ERR_NOT_SUPPORTED
     else if qos < 0 \<or> qos > 2 then throw MOSQ_ERR_INVAL
     else if options AND 0x30 = 0x30 \<or> options AND 0xC0 \<noteq> 0 then throw MOSQ_ERR_INVAL
     else if sock mosq = INVALID_SOCKET then throw MOSQ_ERR_NO_CONN
     else
     then_do (check_outgoing CMD_SUBSCRIBE properties) (\<lambda>outgoing_properties.
     then_do (check_filters 1 0 sub) (\<lambda>remaining_length.
     then_do (check_oversize (remaining_length + (2 + property__get_length_all outgoing_properties))) (\<lambda>_.
     let options = (if protocol mosq = mosq_p_mqtt311 \<or> protocol mosq = mosq_p_mqtt31 then 0 else options) in
     send__subscribe sub (qos OR options) outgoing_properties))))"

definition mosquitto_subscribe :: "byte list \<Rightarrow> int \<Rightarrow> (mosquitto, uint16 \<times> mosq_err) cmd" where
  "mosquitto_subscribe sub qos = mosquitto_subscribe_multiple [sub] qos 0 []"

definition mosquitto_subscribe_v5 ::
  "byte list \<Rightarrow> int \<Rightarrow> int \<Rightarrow> mosquitto_property list \<Rightarrow> (mosquitto, uint16 \<times> mosq_err) cmd"
where
  "mosquitto_subscribe_v5 sub qos options properties = mosquitto_subscribe_multiple [sub] qos options properties"

definition mosquitto_unsubscribe_multiple ::
  "byte list list \<Rightarrow> mosquitto_property list \<Rightarrow> (mosquitto, uint16 \<times> mosq_err) cmd"
where
  "mosquitto_unsubscribe_multiple sub properties =
     then_do get_st (\<lambda>mosq.
     if protocol mosq \<noteq> mosq_p_mqtt5 \<and> properties \<noteq> [] then throw MOSQ_ERR_NOT_SUPPORTED
     else if sock mosq = INVALID_SOCKET then throw MOSQ_ERR_NO_CONN
     else
     then_do (check_outgoing CMD_UNSUBSCRIBE properties) (\<lambda>outgoing_properties.
     then_do (check_filters 0 0 sub) (\<lambda>remaining_length.
     then_do (check_oversize (remaining_length + (2 + property__get_length_all outgoing_properties))) (\<lambda>_.
     send__unsubscribe sub outgoing_properties))))"

definition mosquitto_unsubscribe :: "byte list \<Rightarrow> (mosquitto, uint16 \<times> mosq_err) cmd" where
  "mosquitto_unsubscribe sub = mosquitto_unsubscribe_multiple [sub] []"

definition mosquitto_unsubscribe_v5 ::
  "byte list \<Rightarrow> mosquitto_property list \<Rightarrow> (mosquitto, uint16 \<times> mosq_err) cmd"
where
  "mosquitto_unsubscribe_v5 sub properties = mosquitto_unsubscribe_multiple [sub] properties"

section \<open>will_mosq.c\<close>

fun check_will_properties :: "mosquitto_property list \<Rightarrow> (mosquitto, unit) cmd" where
  "check_will_properties [] = ret ()"
| "check_will_properties (p # ps) =
     then_do (lift_res (mosquitto_property_check_command CMD_WILL (pr_identifier p))) (\<lambda>_.
     check_will_properties ps)"

definition will__set ::
  "byte list option \<Rightarrow> int \<Rightarrow> byte list option \<Rightarrow> int \<Rightarrow> bool \<Rightarrow> mosquitto_property list \<Rightarrow> (mosquitto, unit) cmd"
where
  "will__set topic payloadlen payload qos retain properties =
     (case topic of
        None \<Rightarrow> throw MOSQ_ERR_INVAL
      | Some t \<Rightarrow>
     if payloadlen < 0 \<or> payloadlen > MQTT_MAX_PAYLOAD then throw MOSQ_ERR_PAYLOAD_SIZE
     else if payloadlen > 0 \<and> payload = None then throw MOSQ_ERR_INVAL
     else if mosquitto_pub_topic_check topic \<noteq> Ok () then throw MOSQ_ERR_INVAL
     else if mosquitto_validate_utf8 (Some (t @ [0])) (uint (word_of_nat (length t) :: uint16)) \<noteq> Ok ()
     then throw MOSQ_ERR_MALFORMED_UTF8
     else
     then_do get_st (\<lambda>mosq.
     if properties \<noteq> [] \<and> protocol mosq \<noteq> mosq_p_mqtt5 then throw MOSQ_ERR_NOT_SUPPORTED
     else
     then_do (check_will_properties properties) (\<lambda>_.
     then_do (modify (\<lambda>s. s\<lparr>will := None\<rparr>)) (\<lambda>_.
     then_do need_memory (\<lambda>_.
     then_do need_memory (\<lambda>_.
     then_do (copy_payload payloadlen (case payload of None \<Rightarrow> [] | Some v \<Rightarrow> v)) (\<lambda>bytes.
     modify (\<lambda>s. s\<lparr>will := Some
       \<lparr>ma_properties = properties, ma_timestamp = 0, ma_state = mosq_ms_invalid, ma_dup = False,
        ma_msg = \<lparr>m_mid = 0, m_topic = topic, m_payload = bytes, m_payloadlen = payloadlen,
                  m_qos = qos, m_retain = retain\<rparr>\<rparr>\<rparr>))))))))"

definition will__clear :: "(mosquitto, unit) cmd" where
  "will__clear = modify (\<lambda>s. s\<lparr>will := None\<rparr>)"

section \<open>alias_mosq.c\<close>

text \<open>An existing alias loses its topic when the copy of the new one fails.\<close>

fun alias_replace :: "byte list option \<Rightarrow> uint16 \<Rightarrow> mosquitto__alias list \<Rightarrow> mosquitto__alias list option" where
  "alias_replace topic a [] = None"
| "alias_replace topic a (x # xs) =
     (if al_alias x = a then Some (x\<lparr>al_topic := topic\<rparr> # xs)
      else map_option (Cons x) (alias_replace topic a xs))"

definition alias__add :: "byte list \<Rightarrow> uint16 \<Rightarrow> (mosquitto, unit) cmd" where
  "alias__add topic a s =
     (case alias_replace None a (aliases s) of
        Some _ \<Rightarrow>
          (case alloc (e_heap s) of (ok, h) \<Rightarrow>
             (if ok then Ok () else Err MOSQ_ERR_NOMEM,
              s\<lparr>e_heap := h, aliases := the (alias_replace (if ok then Some topic else None) a (aliases s))\<rparr>))
      | None \<Rightarrow>
          then_do need_memory (\<lambda>_.
          then_do need_memory (\<lambda>_.
          modify (\<lambda>s. s\<lparr>aliases := aliases s @ [\<lparr>al_topic = Some topic, al_alias = a\<rparr>]\<rparr>))) s)"

fun alias_lookup :: "uint16 \<Rightarrow> mosquitto__alias list \<Rightarrow> byte list option option" where
  "alias_lookup a [] = None"
| "alias_lookup a (x # xs) = (if al_alias x = a then Some (al_topic x) else alias_lookup a xs)"

definition alias__find :: "uint16 \<Rightarrow> (mosquitto, byte list) cmd" where
  "alias__find a =
     then_do get_st (\<lambda>s. case alias_lookup a (aliases s) of
       None \<Rightarrow> throw MOSQ_ERR_INVAL
     | Some None \<Rightarrow> fault
     | Some (Some t) \<Rightarrow> then_do need_memory (\<lambda>_. ret t))"

definition alias__free_all :: "mosquitto \<Rightarrow> mosquitto" where
  "alias__free_all s = s\<lparr>aliases := []\<rparr>"

section \<open>options.c\<close>

text \<open>The options of the client state; the TLS options set fields that are not modelled.\<close>

datatype mosq_opt =
    MOSQ_OPT_PROTOCOL_VERSION
  | MOSQ_OPT_SSL_CTX
  | MOSQ_OPT_SSL_CTX_WITH_DEFAULTS
  | MOSQ_OPT_RECEIVE_MAXIMUM
  | MOSQ_OPT_SEND_MAXIMUM
  | MOSQ_OPT_TLS_KEYFORM
  | MOSQ_OPT_TLS_ENGINE
  | MOSQ_OPT_TLS_ENGINE_KPASS_SHA1
  | MOSQ_OPT_TLS_OCSP_REQUIRED
  | MOSQ_OPT_TLS_ALPN
  | MOSQ_OPT_TCP_NODELAY
  | MOSQ_OPT_BIND_ADDRESS
  | MOSQ_OPT_TLS_USE_OS_CERTS

definition inflight_limit :: "int \<Rightarrow> uint16" where
  "inflight_limit v = (if v = 0 then 65535 else word_of_int v)"

definition mosquitto_int_option :: "mosq_opt \<Rightarrow> int \<Rightarrow> (mosquitto, unit) cmd" where
  "mosquitto_int_option option v = (case option of
      MOSQ_OPT_PROTOCOL_VERSION \<Rightarrow>
        (if v = PROTOCOL_VERSION_v31 then modify (\<lambda>s. s\<lparr>protocol := mosq_p_mqtt31\<rparr>)
         else if v = PROTOCOL_VERSION_v311 then modify (\<lambda>s. s\<lparr>protocol := mosq_p_mqtt311\<rparr>)
         else if v = PROTOCOL_VERSION_v5 then modify (\<lambda>s. s\<lparr>protocol := mosq_p_mqtt5\<rparr>)
         else throw MOSQ_ERR_INVAL)
    | MOSQ_OPT_RECEIVE_MAXIMUM \<Rightarrow>
        (if v < 0 \<or> v > 65535 then throw MOSQ_ERR_INVAL
         else modify (update_msgs mosq_md_in (\<lambda>d. d\<lparr>inflight_maximum := inflight_limit v\<rparr>)))
    | MOSQ_OPT_SEND_MAXIMUM \<Rightarrow>
        (if v < 0 \<or> v > 65535 then throw MOSQ_ERR_INVAL
         else modify (update_msgs mosq_md_out (\<lambda>d. d\<lparr>inflight_maximum := inflight_limit v\<rparr>)))
    | MOSQ_OPT_SSL_CTX_WITH_DEFAULTS \<Rightarrow> ret ()
    | MOSQ_OPT_TLS_USE_OS_CERTS \<Rightarrow> ret ()
    | MOSQ_OPT_TLS_OCSP_REQUIRED \<Rightarrow> ret ()
    | MOSQ_OPT_TCP_NODELAY \<Rightarrow> modify (\<lambda>s. s\<lparr>tcp_nodelay := (v \<noteq> 0)\<rparr>)
    | _ \<Rightarrow> throw MOSQ_ERR_INVAL)"

definition mosquitto_max_inflight_messages_set :: "uint32 \<Rightarrow> (mosquitto, unit) cmd" where
  "mosquitto_max_inflight_messages_set n = mosquitto_int_option MOSQ_OPT_SEND_MAXIMUM (sint n)"

section \<open>connect.c\<close>

definition alphanum :: "byte list" where
  "alphanum = map word_of_nat ([97..<123] @ [65..<91] @ [48..<58])"

text \<open>\<open>random\<close> stands for what \<open>util__random_bytes\<close> gets from the system, \<open>None\<close> when it fails.\<close>

definition client_id_prefix :: "byte list" where
  "client_id_prefix = [0x6D, 0x6F, 0x73, 0x71, 0x2D]"

definition random_client_id :: "byte list \<Rightarrow> byte list" where
  "random_client_id random = client_id_prefix
     @ map (\<lambda>r. alphanum ! (unat (r AND 0x7F) mod length alphanum)) random"

definition mosquitto__connect_init ::
  "byte list option \<Rightarrow> byte list option \<Rightarrow> int \<Rightarrow> int \<Rightarrow> (mosquitto, unit) cmd"
where
  "mosquitto__connect_init random new_host new_port new_keepalive =
     then_do get_st (\<lambda>mosq.
     if new_host = None \<or> new_port < 0 \<or> new_port > 65535 then throw MOSQ_ERR_INVAL
     else if new_keepalive \<noteq> 0 \<and> (new_keepalive < 5 \<or> new_keepalive > 65535) then throw MOSQ_ERR_INVAL
     else
     then_do (if client_id mosq = None \<and> protocol mosq = mosq_p_mqtt31 then
         then_do need_memory (\<lambda>_.
         then_do (modify (\<lambda>s. s\<lparr>client_id := Some (case random of
           None \<Rightarrow> client_id_prefix | Some bytes \<Rightarrow> random_client_id bytes)\<rparr>)) (\<lambda>_.
         guard_err (random = None) MOSQ_ERR_UNKNOWN))
       else ret ()) (\<lambda>_.
     then_do (modify (\<lambda>s. s\<lparr>host := None\<rparr>)) (\<lambda>_.
     then_do need_memory (\<lambda>_.
     modify (\<lambda>s. s
       \<lparr>host := new_host, port := word_of_int new_port, keepalive := word_of_int new_keepalive,
        msgs_in := (msgs_in s)\<lparr>inflight_quota := uint (inflight_maximum (msgs_in s))\<rparr>,
        msgs_out := (msgs_out s)\<lparr>inflight_quota := uint (inflight_maximum (msgs_out s))\<rparr>,
        retain_available := 1, request_disconnect := False\<rparr>)))))"

text \<open>
  \<open>connect\<close> stands for \<open>net__socket_connect\<close>, which resolves the name and opens the socket; it
  returns the code, negative (\<open>MOSQ_ERR_CONN_PENDING\<close>) while the connection is being made.
\<close>

definition open_connection :: "(mosquitto, mosq_err) cmd \<Rightarrow> mosquitto_property list \<Rightarrow> (mosquitto, unit) cmd" where
  "open_connection connect outgoing_properties =
     then_do connect (\<lambda>rc.
     if rc \<notin> {MOSQ_ERR_SUCCESS, MOSQ_ERR_CONN_PENDING, MOSQ_ERR_SUB_EXISTS, MOSQ_ERR_NO_SUBSCRIBERS, MOSQ_ERR_AUTH_CONTINUE}
     then then_do (modify (mosquitto__set_state mosq_cs_connect_pending)) (\<lambda>_. throw rc)
     else
     then_do (modify (mosquitto__set_state mosq_cs_connected)) (\<lambda>_.
     then_do get_st (\<lambda>s.
     then_do (rc_of (send__connect (keepalive s) (clean_start s) outgoing_properties)) (\<lambda>rc.
     then_do (modify (if rc = MOSQ_ERR_SUCCESS then id
       else (\<lambda>s. mosquitto__set_state mosq_cs_new (net__socket_close (packet__cleanup_all s))))) (\<lambda>_.
     return_rc rc)))))"

text \<open>The old connection is dropped: its packets are forgotten, its messages prepared to be sent again.\<close>

definition drop_connection :: "mosquitto \<Rightarrow> mosquitto" where
  "drop_connection s = net__socket_close (message__reconnect_reset False (packet__cleanup_all
     (update_in packet__cleanup
       (s\<lparr>last_msg_in := e_now s, next_msg_out := e_now s + uint (keepalive s), ping_t := 0\<rparr>))))"

definition mosquitto__reconnect :: "(mosquitto, mosq_err) cmd \<Rightarrow> (mosquitto, unit) cmd" where
  "mosquitto__reconnect connect =
     then_do get_st (\<lambda>mosq.
     if host mosq = None then throw MOSQ_ERR_INVAL
     else if connect_properties mosq \<noteq> [] \<and> protocol mosq \<noteq> mosq_p_mqtt5 then throw MOSQ_ERR_NOT_SUPPORTED
     else
     then_do (check_outgoing CMD_CONNECT (connect_properties mosq)) (\<lambda>outgoing_properties.
     then_do (modify drop_connection) (\<lambda>_.
     open_connection connect outgoing_properties)))"

definition bind_to :: "byte list option \<Rightarrow> (mosquitto, unit) cmd" where
  "bind_to v =
     then_do (modify (\<lambda>s. s\<lparr>bind_address := None\<rparr>)) (\<lambda>_.
     if v = None then ret ()
     else then_do need_memory (\<lambda>_. modify (\<lambda>s. s\<lparr>bind_address := v\<rparr>)))"

text \<open>The first property of the copy is marked as built by the library.\<close>

definition set_connect_properties :: "mosquitto_property list \<Rightarrow> (mosquitto, unit) cmd" where
  "set_connect_properties properties =
     then_do (modify (\<lambda>s. s\<lparr>connect_properties := []\<rparr>)) (\<lambda>_.
     case properties of
       [] \<Rightarrow> ret ()
     | _ \<Rightarrow>
         then_do (lift_res (mosquitto_property_check_all CMD_CONNECT properties)) (\<lambda>_.
         then_do (on_heap (mosquitto_property_copy_all properties)) (\<lambda>copy.
         modify (\<lambda>s. s\<lparr>connect_properties := (case copy of
             [] \<Rightarrow> [] | p # ps \<Rightarrow> p\<lparr>pr_client_generated := True\<rparr> # ps)\<rparr>))))"

definition mosquitto_connect_bind_v5 ::
  "(mosquitto, mosq_err) cmd \<Rightarrow> byte list option \<Rightarrow> byte list option \<Rightarrow> int \<Rightarrow> int
   \<Rightarrow> byte list option \<Rightarrow> mosquitto_property list \<Rightarrow> (mosquitto, unit) cmd"
where
  "mosquitto_connect_bind_v5 connect random new_host new_port new_keepalive new_bind_address properties =
     then_do (if new_bind_address \<noteq> None then bind_to new_bind_address else ret ()) (\<lambda>_.
     then_do (set_connect_properties properties) (\<lambda>_.
     then_do (mosquitto__connect_init random new_host new_port new_keepalive) (\<lambda>_.
     then_do (modify (mosquitto__set_state mosq_cs_new)) (\<lambda>_.
     mosquitto__reconnect connect))))"

definition mosquitto_connect_bind_async ::
  "(mosquitto, mosq_err) cmd \<Rightarrow> byte list option \<Rightarrow> byte list option \<Rightarrow> int \<Rightarrow> int
   \<Rightarrow> byte list option \<Rightarrow> (mosquitto, unit) cmd"
where
  "mosquitto_connect_bind_async connect random new_host new_port new_keepalive new_bind_address =
     then_do (if new_bind_address \<noteq> None then bind_to new_bind_address else ret ()) (\<lambda>_.
     then_do (mosquitto__connect_init random new_host new_port new_keepalive) (\<lambda>_.
     mosquitto__reconnect connect))"

definition mosquitto_disconnect_v5 :: "int \<Rightarrow> mosquitto_property list \<Rightarrow> (mosquitto, unit) cmd" where
  "mosquitto_disconnect_v5 reason_code properties =
     then_do get_st (\<lambda>mosq.
     if protocol mosq \<noteq> mosq_p_mqtt5 \<and> properties \<noteq> [] then throw MOSQ_ERR_NOT_SUPPORTED
     else if reason_code < 0 \<or> reason_code > 255 then throw MOSQ_ERR_INVAL
     else
     then_do (check_outgoing CMD_DISCONNECT properties) (\<lambda>outgoing_properties.
     then_do (modify (\<lambda>s. mosquitto__set_request_disconnect True (mosquitto__set_state mosq_cs_disconnected s))) (\<lambda>_.
     if sock mosq = INVALID_SOCKET then throw MOSQ_ERR_NO_CONN
     else send__disconnect (word_of_int reason_code) outgoing_properties)))"

definition mosquitto_disconnect :: "(mosquitto, unit) cmd" where
  "mosquitto_disconnect = mosquitto_disconnect_v5 0 []"

section \<open>The keepalive timer (util_mosq.c)\<close>

definition keepalive_expired :: "mosquitto \<Rightarrow> bool" where
  "keepalive_expired s = (keepalive s \<noteq> 0 \<and> sock s \<noteq> INVALID_SOCKET
     \<and> (e_now s \<ge> next_msg_out s \<or> e_now s - last_msg_in s \<ge> uint (keepalive s)))"

definition mosquitto__check_keepalive :: "(mosquitto, unit) cmd" where
  "mosquitto__check_keepalive =
     then_do get_st (\<lambda>mosq.
     if \<not> keepalive_expired mosq then ret ()
     else if mosquitto__get_state mosq = mosq_cs_active \<and> ping_t mosq = 0 then
       then_do (ignore_rc send__pingreq) (\<lambda>_.
       modify (\<lambda>s. s\<lparr>last_msg_in := e_now mosq, next_msg_out := e_now mosq + uint (keepalive s)\<rparr>))
     else
       let rc = (if mosquitto__get_state mosq = mosq_cs_disconnecting then MOSQ_ERR_SUCCESS else MOSQ_ERR_KEEPALIVE);
           code = (if mosquitto__get_state mosq = mosq_cs_disconnecting then 0 else 19) in
       then_do (modify (\<lambda>s. call_back on_disconnect_v5 (Ev_disconnect_v5 code [])
         (call_back on_disconnect (Ev_disconnect code) (net__socket_close s)))) (\<lambda>_.
       return_rc rc))"

end
