(* ===== verification/Loop.thy ===== *)
theory Loop
  imports Actions
begin

text \<open>
  A client's life: its creation (mosquitto.c), the credentials (options.c) and the loop that reads,
  writes and keeps the connection alive (loop.c). Waiting for the socket, \<open>pselect\<close> and the
  sleep between reconnections, is not modelled: the loop functions are run when the socket is
  ready, as an application with its own event loop runs them.
\<close>

unbundle bit_operations_syntax

section \<open>mosquitto.c\<close>

definition no_callbacks :: callbacks where
  "no_callbacks = \<lparr>on_connect = False, on_connect_with_flags = False, on_connect_v5 = False,
     on_disconnect = False, on_disconnect_v5 = False, on_publish = False, on_publish_v5 = False,
     on_message = False, on_message_v5 = False, on_subscribe = False, on_subscribe_v5 = False,
     on_unsubscribe = False, on_unsubscribe_v5 = False\<rparr>"

definition no_messages :: mosquitto_msg_data where
  "no_messages = \<lparr>inflight = [], queue_len = 0, inflight_quota = 20, inflight_maximum = 20\<rparr>"

text \<open>
  \<open>memset\<close> and the first assignments, in the environment of \<open>s\<close>: the client that a refused
  identifier leaves behind.
\<close>

definition cleared :: "bool \<Rightarrow> mosquitto \<Rightarrow> mosquitto" where
  "cleared new_clean_start s = s
     \<lparr>sock := INVALID_SOCKET, sockpairR := INVALID_SOCKET, sockpairW := INVALID_SOCKET,
      maximum_packet_size := 0, protocol := mosq_p_mqtt311, client_id := None, username := None, password := None,
      keepalive := 60, last_mid := 0, cstate := mosq_cs_new, last_msg_in := 0,
      next_msg_out := 0, ping_t := 0, in_packet := zero_packet,
      current_out_packet := None, out_packet := [], out_packet_count := 0, will := None, aliases := [],
      clean_start := new_clean_start, in_callback := False,
      msgs_in := \<lparr>inflight = [], queue_len = 0, inflight_quota = 0, inflight_maximum = 0\<rparr>,
      msgs_out := \<lparr>inflight = [], queue_len = 0, inflight_quota = 0, inflight_maximum = 0\<rparr>,
      cbs := no_callbacks, host := None, port := 0, bind_address := None, reconnects := 0, reconnect_delay := 0,
      reconnect_delay_max := 0, reconnect_exponential_backoff := False, request_disconnect := False,
      threaded := mosq_ts_none, connect_properties := [], max_qos := 0, retain_available := 0,
      tcp_nodelay := False\<rparr>"

text \<open>The fields that are set once the identifier is accepted; \<open>retain_available\<close> stays 0.\<close>

definition initialised :: "mosquitto \<Rightarrow> mosquitto" where
  "initialised s = s
     \<lparr>in_packet := packet__cleanup (in_packet s), out_packet := [], out_packet_count := 0,
      current_out_packet := None, last_msg_in := e_now s, next_msg_out := e_now s + uint (keepalive s),
      ping_t := 0, last_mid := 0, cstate := mosq_cs_new, max_qos := 2, msgs_in := no_messages,
      msgs_out := no_messages, will := None, host := None, port := 1883, in_callback := False,
      reconnect_delay := 1, reconnect_delay_max := 1, reconnect_exponential_backoff := False,
      threaded := mosq_ts_none\<rparr>"

text \<open>The socket pair that wakes another thread is not modelled.\<close>

definition mosquitto_reinitialise :: "byte list option \<Rightarrow> bool \<Rightarrow> (mosquitto, unit) cmd" where
  "mosquitto_reinitialise new_id new_clean_start =
     (if \<not> new_clean_start \<and> new_id = None then throw MOSQ_ERR_INVAL
      else
      then_do (modify (cleared new_clean_start)) (\<lambda>_.
      then_do (case new_id of
        None \<Rightarrow> ret ()
      | Some v \<Rightarrow>
          (if v = [] then throw MOSQ_ERR_INVAL
           else if \<not> valid_text v then throw MOSQ_ERR_MALFORMED_UTF8
           else then_do need_memory (\<lambda>_. modify (\<lambda>s. s\<lparr>client_id := new_id\<rparr>)))) (\<lambda>_.
      modify initialised)))"

definition mosquitto_want_write :: "mosquitto \<Rightarrow> bool" where
  "mosquitto_want_write s = (out_packet s \<noteq> [] \<or> current_out_packet s \<noteq> None)"

text \<open>The levels of a topic: an empty level is left NULL. \<open>cur\<close> holds the level being collected.\<close>

fun tokenise_loop :: "byte list \<Rightarrow> byte list \<Rightarrow> (heap, byte list option list) cmd" where
  "tokenise_loop cur [] =
     (if cur = [] then ret [None] else with_alloc (ret [Some cur]))"
| "tokenise_loop cur (c # cs) =
     (if c = SLASH then
        then_do (if cur = [] then ret None else with_alloc (ret (Some cur))) (\<lambda>level.
        then_do (tokenise_loop [] cs) (\<lambda>levels. ret (level # levels)))
      else tokenise_loop (cur @ [c]) cs)"

definition mosquitto_sub_topic_tokenise :: "byte list option \<Rightarrow> (heap, byte list option list) cmd" where
  "mosquitto_sub_topic_tokenise subtopic = (case subtopic of
      None \<Rightarrow> throw MOSQ_ERR_INVAL
    | Some t \<Rightarrow> with_alloc (tokenise_loop [] t))"

section \<open>Credentials and will (options.c)\<close>

definition mosquitto_username_pw_set ::
  "byte list option \<Rightarrow> byte list option \<Rightarrow> (mosquitto, unit) cmd"
where
  "mosquitto_username_pw_set new_username new_password =
     then_do get_st (\<lambda>mosq.
     if (protocol mosq = mosq_p_mqtt311 \<or> protocol mosq = mosq_p_mqtt31)
        \<and> new_password \<noteq> None \<and> new_username = None then throw MOSQ_ERR_INVAL
     else
     then_do (modify (\<lambda>s. s\<lparr>username := None, password := None\<rparr>)) (\<lambda>_.
     then_do (case new_username of None \<Rightarrow> ret () | Some u \<Rightarrow>
         (if length u > 65535 then throw MOSQ_ERR_INVAL
          else if \<not> valid_text u then throw MOSQ_ERR_MALFORMED_UTF8
          else then_do need_memory (\<lambda>_. modify (\<lambda>s. s\<lparr>username := new_username\<rparr>)))) (\<lambda>_.
     case new_password of None \<Rightarrow> ret () | Some p \<Rightarrow> (\<lambda>s. case need_memory s of
         (Ok _, s') \<Rightarrow> (Ok (), s'\<lparr>password := new_password\<rparr>)
       | (Err e, s') \<Rightarrow> (Err e, s'\<lparr>username := None\<rparr>)
       | (Fault, s') \<Rightarrow> (Fault, s')))))"

definition mosquitto_will_set_v5 ::
  "byte list option \<Rightarrow> int \<Rightarrow> byte list option \<Rightarrow> int \<Rightarrow> bool \<Rightarrow> mosquitto_property list \<Rightarrow> (mosquitto, unit) cmd"
where
  "mosquitto_will_set_v5 topic payloadlen payload qos retain properties =
     then_do (if properties \<noteq> [] then lift_res (mosquitto_property_check_all CMD_WILL properties) else ret ()) (\<lambda>_.
     will__set topic payloadlen payload qos retain properties)"

definition mosquitto_will_set ::
  "byte list option \<Rightarrow> int \<Rightarrow> byte list option \<Rightarrow> int \<Rightarrow> bool \<Rightarrow> (mosquitto, unit) cmd"
where
  "mosquitto_will_set topic payloadlen payload qos retain =
     mosquitto_will_set_v5 topic payloadlen payload qos retain []"

definition mosquitto_will_clear :: "(mosquitto, unit) cmd" where
  "mosquitto_will_clear = will__clear"

definition mosquitto_reconnect_delay_set :: "uint32 \<Rightarrow> uint32 \<Rightarrow> bool \<Rightarrow> (mosquitto, unit) cmd" where
  "mosquitto_reconnect_delay_set delay delay_max exponential_backoff =
     modify (\<lambda>s. s\<lparr>reconnect_delay := (if delay = 0 then 1 else delay), reconnect_delay_max := delay_max,
       reconnect_exponential_backoff := exponential_backoff\<rparr>)"

section \<open>loop.c\<close>

text \<open>The numbers of the codes that reach the application through \<open>on_disconnect\<close>.\<close>

definition rc_number :: "mosq_err \<Rightarrow> int" where
  "rc_number e = (case e of
      MOSQ_ERR_AUTH_CONTINUE \<Rightarrow> -4 | MOSQ_ERR_NO_SUBSCRIBERS \<Rightarrow> -3 | MOSQ_ERR_SUB_EXISTS \<Rightarrow> -2
    | MOSQ_ERR_CONN_PENDING \<Rightarrow> -1 | MOSQ_ERR_SUCCESS \<Rightarrow> 0 | MOSQ_ERR_NOMEM \<Rightarrow> 1 | MOSQ_ERR_PROTOCOL \<Rightarrow> 2
    | MOSQ_ERR_INVAL \<Rightarrow> 3 | MOSQ_ERR_NO_CONN \<Rightarrow> 4 | MOSQ_ERR_CONN_REFUSED \<Rightarrow> 5 | MOSQ_ERR_NOT_FOUND \<Rightarrow> 6
    | MOSQ_ERR_CONN_LOST \<Rightarrow> 7 | MOSQ_ERR_TLS \<Rightarrow> 8 | MOSQ_ERR_PAYLOAD_SIZE \<Rightarrow> 9 | MOSQ_ERR_NOT_SUPPORTED \<Rightarrow> 10
    | MOSQ_ERR_AUTH \<Rightarrow> 11 | MOSQ_ERR_ACL_DENIED \<Rightarrow> 12 | MOSQ_ERR_UNKNOWN \<Rightarrow> 13 | MOSQ_ERR_ERRNO \<Rightarrow> 14
    | MOSQ_ERR_EAI \<Rightarrow> 15 | MOSQ_ERR_PROXY \<Rightarrow> 16 | MOSQ_ERR_PLUGIN_DEFER \<Rightarrow> 17 | MOSQ_ERR_MALFORMED_UTF8 \<Rightarrow> 18
    | MOSQ_ERR_KEEPALIVE \<Rightarrow> 19 | MOSQ_ERR_LOOKUP \<Rightarrow> 20 | MOSQ_ERR_MALFORMED_PACKET \<Rightarrow> 21
    | MOSQ_ERR_DUPLICATE_PROPERTY \<Rightarrow> 22 | MOSQ_ERR_TLS_HANDSHAKE \<Rightarrow> 23 | MOSQ_ERR_QOS_NOT_SUPPORTED \<Rightarrow> 24
    | MOSQ_ERR_OVERSIZE_PACKET \<Rightarrow> 25 | MOSQ_ERR_OCSP \<Rightarrow> 26 | MOSQ_ERR_TIMEOUT \<Rightarrow> 27
    | MOSQ_ERR_RETAIN_NOT_SUPPORTED \<Rightarrow> 28 | MOSQ_ERR_TOPIC_ALIAS_INVALID \<Rightarrow> 29
    | MOSQ_ERR_ADMINISTRATIVE_ACTION \<Rightarrow> 30 | MOSQ_ERR_ALREADY_EXISTS \<Rightarrow> 31)"

definition mosquitto__loop_rc_handle :: "mosq_err \<Rightarrow> (mosquitto, unit) cmd" where
  "mosquitto__loop_rc_handle rc =
     (if rc = MOSQ_ERR_SUCCESS then ret ()
      else
      then_do (modify net__socket_close) (\<lambda>_.
      then_do get_st (\<lambda>mosq.
      let rc = (if mosquitto__get_state mosq \<in> {mosq_cs_disconnecting, mosq_cs_disconnected}
                then MOSQ_ERR_SUCCESS else rc) in
      then_do (modify (\<lambda>s. call_back on_disconnect_v5 (Ev_disconnect_v5 (rc_number rc) [])
        (call_back on_disconnect (Ev_disconnect (rc_number rc)) s))) (\<lambda>_.
      return_rc rc))))"

text \<open>\<open>for(i=0; i<max_packets; i++)\<close> around a read or a write.\<close>

fun loop_packets :: "(mosquitto, unit) cmd \<Rightarrow> nat \<Rightarrow> (mosquitto, unit) cmd" where
  "loop_packets step 0 = ret ()"
| "loop_packets step (Suc n) =
     then_do (rc_of step) (\<lambda>rc.
     then_do get_st (\<lambda>s.
     if rc \<noteq> MOSQ_ERR_SUCCESS \<or> e_errno s \<in> {EAGAIN, EWOULDBLOCK} then mosquitto__loop_rc_handle rc
     else loop_packets step n))"

definition mosquitto_loop_read :: "int \<Rightarrow> (mosquitto, unit) cmd" where
  "mosquitto_loop_read max_packets =
     (if max_packets < 1 then throw MOSQ_ERR_INVAL
      else then_do get_st (\<lambda>mosq.
        loop_packets packet__read (nat (max 1 (queue_len (msgs_out mosq) + queue_len (msgs_in mosq))))))"

definition mosquitto_loop_write :: "int \<Rightarrow> (mosquitto, unit) cmd" where
  "mosquitto_loop_write max_packets =
     (if max_packets < 1 then throw MOSQ_ERR_INVAL else loop_packets packet__write (nat max_packets))"

definition mosquitto_loop_misc :: "(mosquitto, unit) cmd" where
  "mosquitto_loop_misc =
     then_do get_st (\<lambda>mosq.
     if sock mosq = INVALID_SOCKET then throw MOSQ_ERR_NO_CONN else mosquitto__check_keepalive)"

text \<open>
  The delay before the next attempt of \<open>mosquitto_loop_forever\<close>, and the attempts counted; the
  products are of type \<open>unsigned int\<close> and wrap.
\<close>

definition next_reconnect_delay :: "mosquitto \<Rightarrow> uint32 \<times> mosquitto" where
  "next_reconnect_delay s =
     (let delay =
        (if reconnect_delay_max s > reconnect_delay s then
           (if reconnect_exponential_backoff s
            then reconnect_delay s * (reconnects s + 1) * (reconnects s + 1)
            else reconnect_delay s * (reconnects s + 1))
         else reconnect_delay s) in
      if delay > reconnect_delay_max s then (reconnect_delay_max s, s)
      else (delay, s\<lparr>reconnects := reconnects s + 1\<rparr>))"

text \<open>
  \<open>mosquitto_loop\<close>: \<open>select\<close> stands for the system call, given the timeout in milliseconds; it fails,
  or says whether the socket can be read, whether the socket pair can be read and whether the socket
  can be written, the last only when the client asked for it.
\<close>

datatype select_outcome = Select_Err errno | Select_Ready bool bool bool

definition select_timeout :: "int \<Rightarrow> mosquitto \<Rightarrow> int" where
  "select_timeout timeout s =
     (let timeout_ms = (if timeout < 0 then 1000 else timeout);
          timeout_ms = (if next_msg_out s \<noteq> 0 \<and> e_now s + timeout_ms div 1000 > next_msg_out s
                        then (next_msg_out s - e_now s) * 1000 else timeout_ms)
      in if timeout_ms < 0 then 0 else timeout_ms)"

definition loop_ready :: "bool \<Rightarrow> (mosquitto, unit) cmd \<Rightarrow> (mosquitto, unit) cmd \<Rightarrow> (mosquitto, unit) cmd" where
  "loop_ready ready io next =
     (if ready then then_do io (\<lambda>_. then_do get_st (\<lambda>s. if sock s = INVALID_SOCKET then ret () else next))
      else next)"

definition mosquitto_loop ::
  "(int \<Rightarrow> mosquitto \<Rightarrow> select_outcome) \<Rightarrow> int \<Rightarrow> int \<Rightarrow> (mosquitto, unit) cmd"
where
  "mosquitto_loop select timeout max_packets =
     then_do get_st (\<lambda>mosq.
     if max_packets < 1 \<or> sock mosq \<ge> 1024 \<or> sockpairR mosq \<ge> 1024 then throw MOSQ_ERR_INVAL
     else if sock mosq = INVALID_SOCKET then throw MOSQ_ERR_NO_CONN
     else case select (select_timeout timeout mosq) mosq of
         Select_Err e \<Rightarrow>
           then_do (modify (\<lambda>s. s\<lparr>e_errno := e\<rparr>)) (\<lambda>_.
           guard_err (e \<noteq> EINTR) MOSQ_ERR_ERRNO)
       | Select_Ready can_read woken can_write \<Rightarrow>
           let woken = (woken \<and> sockpairR mosq \<noteq> INVALID_SOCKET);
               can_write = (can_write \<and> mosquitto_want_write mosq) in
           loop_ready can_read (mosquitto_loop_read max_packets)
             (loop_ready (woken \<or> can_write) (mosquitto_loop_write max_packets) mosquitto_loop_misc))"

end
