(* ===== verification/Flow.thy ===== *)
theory Flow
  imports Loop
begin

text \<open>
  Two interfaces of the client's message handling and their instances: a bounded quota, which
  util_mosq.c provides for each direction, and a store of messages found by packet identifier, which
  messages_mosq.c provides for each direction. What the handlers rely on is proved once from the
  laws of the interfaces.
\<close>

unbundle bit_operations_syntax

section \<open>Quotas\<close>

locale quota =
  fixes avail limit :: "'s \<Rightarrow> int"
    and acquire release :: "'s \<Rightarrow> 's"
  assumes acquire_avail: "avail (acquire s) = (if 0 < avail s then avail s - 1 else avail s)"
    and release_avail: "avail (release s) = (if avail s < limit s then avail s + 1 else avail s)"
    and acquire_limit: "limit (acquire s) = limit s"
    and release_limit: "limit (release s) = limit s"
begin

lemma acquire_range: "avail s \<in> {0..limit s} \<Longrightarrow> avail (acquire s) \<in> {0..limit (acquire s)}"
  by (simp add: acquire_avail acquire_limit)

lemma release_range: "avail s \<in> {0..limit s} \<Longrightarrow> avail (release s) \<in> {0..limit (release s)}"
  by (simp add: release_avail release_limit)

lemma release_acquire: "0 < avail s \<Longrightarrow> avail s \<le> limit s \<Longrightarrow> avail (release (acquire s)) = avail s"
  by (simp add: release_avail acquire_avail acquire_limit)

text \<open>Used and available add up to the limit: \<open>n\<close> acquisitions take \<open>n\<close>, as far as there are.\<close>

lemma acquire_many: "0 \<le> avail s \<Longrightarrow> avail ((acquire ^^ n) s) = max 0 (avail s - int n)"
proof (induction n)
  case (Suc n)
  then show ?case by (auto simp: acquire_avail)
qed simp

lemma release_many: "avail s \<le> limit s \<Longrightarrow> avail ((release ^^ n) s) = min (limit s) (avail s + int n)"
proof (induction n)
  case (Suc n)
  have "limit ((release ^^ n) s) = limit s" by (induction n) (simp_all add: release_limit)
  then show ?case using Suc by (auto simp: release_avail)
qed simp

end

interpretation receive: quota "\<lambda>s. inflight_quota (msgs_in s)" "\<lambda>s. uint (inflight_maximum (msgs_in s))"
  util__decrement_receive_quota util__increment_receive_quota
  by unfold_locales (simp_all add: util__decrement_receive_quota_def util__increment_receive_quota_def
      decrement_quota_def increment_quota_def)

interpretation sending: quota "\<lambda>s. inflight_quota (msgs_out s)" "\<lambda>s. uint (inflight_maximum (msgs_out s))"
  util__decrement_send_quota util__increment_send_quota
  by unfold_locales (simp_all add: util__decrement_send_quota_def util__increment_send_quota_def
      decrement_quota_def increment_quota_def)

section \<open>Stores of messages\<close>

definition has_mid :: "uint16 \<Rightarrow> mosquitto_message_all \<Rightarrow> bool" where
  "has_mid mid m = (m_mid (ma_msg m) = uint mid)"

text \<open>What is stored under an identifier: the first message with it.\<close>

definition lookup_mid :: "mosquitto_message_all list \<Rightarrow> uint16 \<Rightarrow> mosquitto_message_all option" where
  "lookup_mid ms mid = find (has_mid mid) ms"

definition distinct_mids :: "mosquitto_message_all list \<Rightarrow> bool" where
  "distinct_mids ms = distinct (map (\<lambda>m. m_mid (ma_msg m)) ms)"

lemma lookup_append:
  "lookup_mid (ms @ [m]) mid =
     (case lookup_mid ms mid of Some m' \<Rightarrow> Some m' | None \<Rightarrow> if has_mid mid m then Some m else None)"
  by (induction ms) (simp_all add: lookup_mid_def)

lemma lookup_has: "lookup_mid ms mid = Some m \<Longrightarrow> has_mid mid m"
  by (auto simp: lookup_mid_def find_Some_iff)

lemma lookup_iff:
  "distinct_mids ms \<Longrightarrow> lookup_mid ms mid = Some m \<longleftrightarrow> m \<in> set ms \<and> has_mid mid m"
  by (induction ms) (auto simp: lookup_mid_def distinct_mids_def has_mid_def image_iff)

lemma distinct_mids_remove1: "distinct_mids ms \<Longrightarrow> distinct_mids (remove1 m ms)"
  by (auto simp: distinct_mids_def distinct_map intro: inj_on_subset dest: notin_set_remove1)

lemma lookup_remove1:
  assumes "distinct_mids ms" "lookup_mid ms mid = Some m"
  shows "lookup_mid (remove1 m ms) mid' = (if mid' = mid then None else lookup_mid ms mid')"
proof -
  have d: "distinct ms" using assms(1) by (simp add: distinct_mids_def distinct_map)
  have m: "has_mid mid m" "has_mid mid' m \<Longrightarrow> mid' = mid"
    using assms by (auto simp: lookup_iff has_mid_def word_uint_eq_iff)
  have "lookup_mid (remove1 m ms) mid' = Some a \<longleftrightarrow> (if mid' = mid then None else lookup_mid ms mid') = Some a" for a
  proof -
    have "lookup_mid (remove1 m ms) mid' = Some a \<longleftrightarrow> a \<in> set ms \<and> a \<noteq> m \<and> has_mid mid' a"
      unfolding lookup_iff [OF distinct_mids_remove1 [OF assms(1)]] using d by auto
    moreover have "mid' = mid \<Longrightarrow> a \<in> set ms \<Longrightarrow> has_mid mid' a \<Longrightarrow> a = m"
      using assms(2) lookup_iff [OF assms(1), of mid a] by simp
    moreover have "lookup_mid ms mid' = Some a \<longleftrightarrow> a \<in> set ms \<and> has_mid mid' a"
      by (rule lookup_iff [OF assms(1)])
    ultimately show ?thesis using m(2) by (metis option.distinct(1))
  qed
  then show ?thesis by (metis not_None_eq)
qed

locale message_store =
  fixes items :: "'s \<Rightarrow> mosquitto_message_all list"
    and count :: "'s \<Rightarrow> int"
    and add :: "mosquitto_message_all \<Rightarrow> 's \<Rightarrow> 's"
    and withdraw :: "uint16 \<Rightarrow> int \<Rightarrow> ('s, mosquitto_message_all) cmd"
  assumes items_add: "items (add m s) = items s @ [m]"
    and count_add: "count (add m s) = count s + 1"
    and withdraw_missing: "lookup_mid (items s) mid = None \<Longrightarrow> withdraw mid qos s = (Err MOSQ_ERR_NOT_FOUND, s)"
    and withdraw_other: "lookup_mid (items s) mid = Some m \<Longrightarrow> m_qos (ma_msg m) \<noteq> qos \<Longrightarrow>
      withdraw mid qos s = (Err MOSQ_ERR_PROTOCOL, s)"
    and withdraw_found: "lookup_mid (items s) mid = Some m \<Longrightarrow> m_qos (ma_msg m) = qos \<Longrightarrow>
      \<exists>s'. withdraw mid qos s = (Ok m, s') \<and> items s' = remove1 m (items s) \<and> count s' = count s - 1"
begin

lemma lookup_add:
  "lookup_mid (items (add m s)) mid =
     (case lookup_mid (items s) mid of Some m' \<Rightarrow> Some m' | None \<Rightarrow> if has_mid mid m then Some m else None)"
  unfolding items_add by (rule lookup_append)

lemma withdraw_no_fault: "fst (withdraw mid qos s) \<noteq> Fault"
proof (cases "lookup_mid (items s) mid")
  case (Some m)
  then show ?thesis using withdraw_other [OF Some] withdraw_found [OF Some]
    by (cases "m_qos (ma_msg m) = qos") fastforce+
qed (simp add: withdraw_missing)

text \<open>A message is taken out once: with distinct identifiers nothing is found afterwards.\<close>

lemma withdraw_once:
  assumes "distinct_mids (items s)" "withdraw mid qos s = (Ok m, s')"
  shows "lookup_mid (items s) mid = Some m" "lookup_mid (items s') mid = None" "distinct_mids (items s')"
    "withdraw mid qos' s' = (Err MOSQ_ERR_NOT_FOUND, s')"
    "\<And>mid'. mid' \<noteq> mid \<Longrightarrow> lookup_mid (items s') mid' = lookup_mid (items s) mid'"
proof -
  show l: "lookup_mid (items s) mid = Some m"
    using assms(2) withdraw_missing [of s mid qos] withdraw_other [of s mid _ qos] withdraw_found [of s mid _ qos]
    by (cases "lookup_mid (items s) mid") (fastforce split: if_splits)+
  have q: "m_qos (ma_msg m) = qos" using assms(2) withdraw_other [OF l, of qos] by fastforce
  have it: "items s' = remove1 m (items s)" using withdraw_found [OF l q] assms(2) by simp
  show n: "lookup_mid (items s') mid = None" and "distinct_mids (items s')"
    and "\<And>mid'. mid' \<noteq> mid \<Longrightarrow> lookup_mid (items s') mid' = lookup_mid (items s) mid'"
    using assms(1) l by (simp_all add: it lookup_remove1 distinct_mids_remove1)
  show "withdraw mid qos' s' = (Err MOSQ_ERR_NOT_FOUND, s')" by (rule withdraw_missing [OF n])
qed

lemma withdraw_added:
  assumes "lookup_mid (items s) mid = None" "has_mid mid m"
  shows "\<exists>s'. withdraw mid (m_qos (ma_msg m)) (add m s) = (Ok m, s') \<and> items s' = items s \<and> count s' = count s"
proof -
  have "m \<notin> set (items s)" using assms by (auto simp: lookup_mid_def find_None_iff)
  then have "remove1 m (items s @ [m]) = items s" by (simp add: remove1_append)
  moreover have "lookup_mid (items (add m s)) mid = Some m" using assms by (simp add: lookup_add)
  ultimately show ?thesis
    using withdraw_found [of "add m s" mid m "m_qos (ma_msg m)"] by (simp add: items_add count_add)
qed

end

section \<open>The queues of the client\<close>

lemma remove_mid_lookup:
  "remove_mid mid qos ms = (case lookup_mid ms mid of
      None \<Rightarrow> Err MOSQ_ERR_NOT_FOUND
    | Some m \<Rightarrow> if m_qos (ma_msg m) \<noteq> qos then Err MOSQ_ERR_PROTOCOL else Ok (m, remove1 m ms))"
proof (induction ms)
  case (Cons a ms)
  show ?case
  proof (cases "has_mid mid a")
    case True
    then show ?thesis by (simp add: lookup_mid_def has_mid_def)
  next
    case False
    then have "lookup_mid (a # ms) mid = lookup_mid ms mid" "m_mid (ma_msg a) \<noteq> uint mid"
      by (simp_all add: lookup_mid_def has_mid_def)
    moreover have "lookup_mid ms mid = Some m \<Longrightarrow> m \<noteq> a" for m
      using False lookup_has by blast
    ultimately show ?thesis using Cons.IH by (auto split: option.split)
  qed
qed (simp add: lookup_mid_def)

lemma msgs_update [simp]: "msgs dir (update_msgs dir f s) = f (msgs dir s)"
  by (cases dir) (simp_all add: msgs_def update_msgs_def)

lemma message__remove_store:
  "message_store (\<lambda>s. inflight (msgs dir s)) (\<lambda>s. queue_len (msgs dir s)) (store_message dir)
     (\<lambda>mid. message__remove mid dir)"
  by unfold_locales (simp_all add: store_message_def message__remove_def remove_mid_lookup)

interpretation incoming: message_store "\<lambda>s. inflight (msgs mosq_md_in s)" "\<lambda>s. queue_len (msgs mosq_md_in s)"
  "store_message mosq_md_in" "\<lambda>mid. message__remove mid mosq_md_in"
  by (rule message__remove_store)

interpretation pending: message_store "\<lambda>s. inflight (msgs mosq_md_out s)" "\<lambda>s. queue_len (msgs mosq_md_out s)"
  "store_message mosq_md_out" "\<lambda>mid. message__remove mid mosq_md_out"
  by (rule message__remove_store)

end
