(* ===== verification/Send_Connect.thy ===== *)
theory Send_Connect
  imports Send
begin

text \<open>
  CONNECT on the wire: what \<open>send__connect\<close> appends to the byte stream, as a function of the
  client's identifier, will, credentials, options and properties.
\<close>

unbundle bit_operations_syntax

section \<open>The parts of the packet\<close>

definition opt_enc :: "byte list option \<Rightarrow> byte list" where
  "opt_enc str = (case str of None \<Rightarrow> [] | Some v \<Rightarrow> enc_field v)"

definition will_enc :: "mosquitto \<Rightarrow> byte list" where
  "will_enc s = (case will s of None \<Rightarrow> [] | Some w \<Rightarrow>
     (if protocol s = mosq_p_mqtt5 then proplist_enc (ma_properties w) else [])
     @ opt_enc (m_topic (ma_msg w)) @ enc_field (m_payload (ma_msg w)))"

definition connect_payload :: "mosquitto \<Rightarrow> byte list" where
  "connect_payload s = enc_field (case client_id s of None \<Rightarrow> [] | Some v \<Rightarrow> v)
     @ will_enc s @ opt_enc (username s) @ opt_enc (password s)"

definition connect_version :: "mosquitto__protocol \<Rightarrow> byte" where
  "connect_version proto = (if proto = mosq_p_mqtt5 then 5 else if proto = mosq_p_mqtt311 then 4 else 3)"

definition connect_body ::
  "mosquitto \<Rightarrow> uint16 \<Rightarrow> bool \<Rightarrow> mosquitto_property list \<Rightarrow> byte list"
where
  "connect_body s new_keepalive clean_session properties =
     enc_field (if protocol s = mosq_p_mqtt31 then PROTOCOL_NAME_v31 else PROTOCOL_NAME)
     @ [connect_version (protocol s), connect_flags_byte s clean_session] @ enc16 new_keepalive
     @ (if protocol s = mosq_p_mqtt5 then proplist_enc properties else [])
     @ connect_payload s"

text \<open>A client whose identifier, will and credentials fit their two-byte lengths.\<close>

definition will_ok :: "mosquitto_message_all \<Rightarrow> bool" where
  "will_ok w = (sendable (ma_properties w) \<and> (\<exists>t. m_topic (ma_msg w) = Some t \<and> short t)
     \<and> short (m_payload (ma_msg w)) \<and> m_payloadlen (ma_msg w) = int (length (m_payload (ma_msg w))))"

definition identity_ok :: "mosquitto \<Rightarrow> bool" where
  "identity_ok s = (pred_option short (client_id s) \<and> pred_option short (username s)
     \<and> pred_option short (password s) \<and> pred_option will_ok (will s))"

lemma opt_length_enc: "pred_option short v \<Longrightarrow> opt_length v = word_of_nat (length (opt_enc v))"
  by (cases v) (simp_all add: opt_length_def opt_enc_def c_strlen_def length_enc_field)

lemma fills_opt_string [fills_intros]: "pred_option short v \<Longrightarrow> fills (put_opt_string v) (opt_enc v)"
  by (cases v) (simp_all add: put_opt_string_def opt_enc_def fills_ret fills_string short_def)

lemma length_opt_enc: "pred_option short v \<Longrightarrow> length (opt_enc v) < 65538"
  by (cases v) (simp_all add: opt_enc_def length_enc_field short_def)

lemma fills_will:
  assumes "pred_option will_ok (will s)"
  shows "fills (write_connect_will s) (will_enc s)"
proof (cases "will s")
  case None
  then show ?thesis by (simp add: write_connect_will_def will_enc_def fills_ret)
next
  case (Some w)
  then have w: "sendable (ma_properties w)" "pred_option short (m_topic (ma_msg w))"
    "length (m_payload (ma_msg w)) < 65536" "m_payloadlen (ma_msg w) = int (length (m_payload (ma_msg w)))"
    using assms by (auto simp: will_ok_def short_def)
  have "writes (packet__write_string (Some (m_payload (ma_msg w))) (word_of_int (m_payloadlen (ma_msg w))))
      (enc_field (m_payload (ma_msg w)))"
    using w(3,4) writes_field [of "m_payload (ma_msg w)"] by simp
  then show ?thesis
    unfolding write_connect_will_def will_enc_def Some option.case
    by (intro fills_then_do fills_if fills_on_packet fills_ret writes_ignore_rc sendable_enc(1) w(1)
        fills_opt_string w(2))
qed

lemma connect_payload_length_enc:
  assumes "identity_ok s"
  shows "connect_payload_length s = word_of_nat (length (connect_payload s))"
proof -
  have w: "(case will s of None \<Rightarrow> 0 | Some w \<Rightarrow>
      opt_length (m_topic (ma_msg w)) + 2 + word_of_int (m_payloadlen (ma_msg w))
      + (if protocol s = mosq_p_mqtt5 then property__get_remaining_length (ma_properties w) else 0))
    = (word_of_nat (length (will_enc s)) :: uint32)"
    using assms
    by (auto simp: identity_ok_def will_enc_def will_ok_def opt_length_enc length_enc_field sendable_enc(3)
        split: option.split)
  have i: "(case client_id s of Some v \<Rightarrow> 2 + c_strlen v | None \<Rightarrow> 2)
    = (word_of_nat (length (enc_field (case client_id s of None \<Rightarrow> [] | Some v \<Rightarrow> v))) :: uint32)"
    by (simp add: length_enc_field c_strlen_def split: option.split)
  show ?thesis
    unfolding connect_payload_length_def connect_payload_def w i
    using assms by (simp add: identity_ok_def opt_length_enc)
qed

text \<open>The properties the library adds.\<close>

lemma connect_local_props_Ok:
  assumes "connect_local_props properties s = (Ok lp, s1)"
  shows "s1 = s\<lparr>msgs_in := msgs_in s1, e_heap := e_heap s1\<rparr>"
    "never_fails (e_heap s) \<Longrightarrow> e_heap s1 = e_heap s"
proof -
  let ?r = "mosquitto_property_read_int16 properties MQTT_PROP_RECEIVE_MAXIMUM False"
  have "s1 = s\<lparr>msgs_in := msgs_in s1, e_heap := e_heap s1\<rparr> \<and> (never_fails (e_heap s) \<longrightarrow> e_heap s1 = e_heap s)"
  proof (cases "protocol s = mosq_p_mqtt5")
    case False
    then have "s1 = s" using assms by (simp add: connect_local_props_def then_do_get_st ret_def)
    then show ?thesis by simp
  next
    case v5: True
    show ?thesis
    proof (cases ?r)
      case None
      then have "on_heap (mosquitto_property_add_int16 (Some []) MQTT_PROP_RECEIVE_MAXIMUM (inflight_maximum (msgs_in s))) s
          = (Ok lp, s1)"
        using assms v5 by (simp add: connect_local_props_def then_do_get_st)
      then show ?thesis
        by (cases s) (auto simp: on_heap_def mosquitto_property_add_int16_def with_alloc_def ret_def throw_def
            split: prod.splits if_splits bool.splits)
    next
      case (Some q)
      then have "\<exists>m. s1 = s\<lparr>msgs_in := m\<rparr>"
        using assms v5 by (cases q) (auto simp: connect_local_props_def then_do_get_st modify_then ret_def)
      then show ?thesis by auto
    qed
  qed
  then show "s1 = s\<lparr>msgs_in := msgs_in s1, e_heap := e_heap s1\<rparr>"
    "never_fails (e_heap s) \<Longrightarrow> e_heap s1 = e_heap s" by blast+
qed

lemma props_enc_append: "props_enc (ps @ qs) = props_enc ps @ props_enc qs"
  by (induction ps) simp_all

lemma sendable_append:
  assumes "sendable (ps @ qs)"
  shows "sendable ps" "sendable qs"
    "property__get_length_all ps + property__get_length_all qs = word_of_nat (length (props_enc (ps @ qs)))"
proof -
  show "sendable ps" "sendable qs" using assms by (simp_all add: sendable_def props_enc_append)
  then show "property__get_length_all ps + property__get_length_all qs = word_of_nat (length (props_enc (ps @ qs)))"
    by (simp add: sendable_enc(4) props_enc_append)
qed

lemma connect_body_less:
  assumes "sendable ps" "length (connect_payload s) + 32 < 2 ^ 27"
  shows "length (connect_body s ka clean ps) < 2 ^ 28"
  using assms sendable_enc(5) [OF assms(1)]
  by (auto simp: connect_body_def length_enc_field PROTOCOL_NAME_def PROTOCOL_NAME_v31_def)

text \<open>
  CONNECT is appended when memory is available. \<open>s1\<close> is the client after the options were read:
  a receive maximum among the properties replaces the limit of the incoming queue.
\<close>

lemma sends_connect:
  assumes s: "out_ok s" and i: "identity_ok s"
    and proto: "protocol s \<in> {mosq_p_mqtt31, mosq_p_mqtt311, mosq_p_mqtt5}"
    and id31: "protocol s = mosq_p_mqtt31 \<Longrightarrow> client_id s \<noteq> None"
    and cred: "protocol s \<noteq> mosq_p_mqtt5 \<Longrightarrow> password s \<noteq> None \<Longrightarrow> username s \<noteq> None"
    and lp: "connect_local_props properties s = (Ok lp, s1)"
    and p: "sendable (properties @ lp)" and len: "length (connect_payload s) + 32 < 2 ^ 27"
  shows "sends (\<lambda>t. t\<lparr>keepalive := ka\<rparr>) s1
    (packet_bytes CMD_CONNECT (connect_body s ka clean (properties @ lp))) (send__connect ka clean properties s)"
proof -
  let ?v5 = "protocol s = mosq_p_mqtt5"
  define bs where "bs = connect_body s ka clean (properties @ lp)"
  define packet where "packet = zero_packet\<lparr>p_command := CMD_CONNECT, p_remaining_length := word_of_nat (length bs)\<rparr>"
  define proplen where "proplen = property__get_length_all properties + property__get_length_all lp"
  note sa = sendable_append [OF p]
  have pl: "unat proplen = length (props_enc (properties @ lp))"
    using p unfolding proplen_def sa(3) by (intro unat_of_nat_less) (simp add: sendable_def)
  have bsl: "length bs < 2 ^ 28" unfolding bs_def by (rule connect_body_less [OF p len])
  note s1 = connect_local_props_Ok [OF lp]
  define version where "version = (if ?v5 then (5 :: byte) else if protocol s = mosq_p_mqtt311 then 4 else 3)"
  define body where "body =
     then_do (put_string (if version = PROTOCOL_VERSION_v31 then PROTOCOL_NAME_v31 else PROTOCOL_NAME)) (\<lambda>_.
     then_do (on_packet (packet__write_byte version)) (\<lambda>_.
     then_do (on_packet (packet__write_byte (connect_flags_byte s clean))) (\<lambda>_.
     then_do (on_packet (packet__write_uint16 ka)) (\<lambda>_.
     then_do (if ?v5 then
         then_do (on_packet (ignore_rc (packet__write_varint proplen))) (\<lambda>_.
         then_do (on_packet (ignore_rc (property__write_all properties False))) (\<lambda>_.
         on_packet (ignore_rc (property__write_all lp False))))
       else ret ()) (\<lambda>_.
     then_do (case client_id s of Some v \<Rightarrow> put_string v | None \<Rightarrow> on_packet (packet__write_uint16 0)) (\<lambda>_.
     then_do (write_connect_will s) (\<lambda>_.
     then_do (put_opt_string (username s)) (\<lambda>_.
     put_opt_string (password s)))))))))"
  have b: "bs = enc_field (if version = PROTOCOL_VERSION_v31 then PROTOCOL_NAME_v31 else PROTOCOL_NAME)
      @ [version] @ [connect_flags_byte s clean] @ enc16 ka
      @ (if ?v5 then varint_enc (unat proplen) @ props_enc properties @ props_enc lp else [])
      @ enc_field (case client_id s of None \<Rightarrow> [] | Some v \<Rightarrow> v)
      @ will_enc s @ opt_enc (username s) @ opt_enc (password s)"
    using proto by (auto simp: bs_def connect_body_def connect_payload_def connect_version_def version_def
        proplist_enc_def props_enc_append pl)
  have names: "length PROTOCOL_NAME < 65536" "length PROTOCOL_NAME_v31 < 65536"
    by (simp_all add: PROTOCOL_NAME_def PROTOCOL_NAME_v31_def)
  have ids: "fills (case client_id s of Some v \<Rightarrow> put_string v | None \<Rightarrow> on_packet (packet__write_uint16 0))
      (enc_field (case client_id s of None \<Rightarrow> [] | Some v \<Rightarrow> v))"
    using i by (cases "client_id s")
      (auto simp: identity_ok_def short_def intro: fills_string fills_on_packet writes_null_string)
  have wv: "writes (ignore_rc (packet__write_varint proplen)) (varint_enc (unat proplen))"
    using writes_varint [of proplen] pl p by (intro writes_ignore_rc) (simp add: sendable_def)
  have fb: "fills body bs"
    unfolding body_def b
    by (intro fills_then_do fills_if fills_on_packet fills_ret writes_byte writes_uint16 writes_ignore_rc [of "property__write_all _ _"]
        sendable_enc(2) sa(1,2) wv ids fills_will fills_opt_string)
      (use i names in \<open>simp_all add: identity_ok_def fills_string\<close>)
  have hl: "(if ?v5 then 10 + (proplen + word_of_nat (packet__varint_bytes proplen))
      else if protocol s = mosq_p_mqtt311 then 10 else 12) + connect_payload_length s = word_of_nat (length bs)"
    using proto sa(3) pl p
    by (auto simp: bs_def connect_body_def length_enc_field PROTOCOL_NAME_def PROTOCOL_NAME_v31_def
        connect_payload_length_enc [OF i] proplist_enc_def varint_bytes_enc sendable_def simp flip: proplen_def)
  have c: "(protocol s = mosq_p_mqtt31 \<and> client_id s = None) = False"
    "(protocol s \<notin> {mosq_p_mqtt31, mosq_p_mqtt311, mosq_p_mqtt5}) = False"
    "(case will s of None \<Rightarrow> False | Some w \<Rightarrow> m_topic (ma_msg w) = None) = False"
    using proto id31 i by (auto simp: identity_ok_def will_ok_def split: option.split)
  have c4: "(\<not> ?v5 \<and> password s \<noteq> None \<and> username s = None) = False" using cred by blast
  have lp': "then_do (connect_local_props properties) F s = F lp s1" for F :: "_ \<Rightarrow> (mosquitto, unit) cmd"
    using lp by (simp add: then_do_def)
  have r: "send__connect ka clean properties s = then_do need_memory (\<lambda>_.
      then_do (on_new_packet packet packet__alloc) (\<lambda>packet.
      then_do (on_new_packet packet body) (\<lambda>packet.
      then_do (modify (\<lambda>s. s\<lparr>keepalive := ka\<rparr>)) (\<lambda>_. packet__queue packet)))) s1"
    unfolding send__connect_def then_do_get_st c c4 if_False lp' Let_def
      proplen_def [symmetric] hl version_def [symmetric] packet_def [symmetric] body_def [symmetric] ..
  let ?f = "\<lambda>t :: mosquitto. t\<lparr>keepalive := ka\<rparr>"
  have f: "out_ok ((?f t)\<lparr>e_heap := h\<rparr>) = out_ok t" "stream (?f t) = stream t" for t h
    by (simp_all add: out_ok_def stream_def packets_out_def)
  have comm: "t\<lparr>e_heap := h, keepalive := ka\<rparr> = t\<lparr>keepalive := ka, e_heap := h\<rparr>" for t :: mosquitto and h
    by simp
  have "out_ok (s\<lparr>msgs_in := msgs_in s1, e_heap := e_heap s1\<rparr>)"
    using s by (simp add: out_ok_def packets_out_def)
  with s1(1) have s1': "out_ok s1" by metis
  have "sends ?f s1 (packet_bytes (p_command packet) bs) (send__connect ka clean properties s)"
    unfolding r
  proof (rule sends_need_memory [OF s1'])
    fix h
    show "sends ?f (s1\<lparr>e_heap := h\<rparr>) (packet_bytes (p_command packet) bs)
      (then_do (on_new_packet packet packet__alloc) (\<lambda>packet. then_do (on_new_packet packet body) (\<lambda>packet.
        then_do (modify ?f) (\<lambda>_. packet__queue packet))) (s1\<lparr>e_heap := h\<rparr>))"
    proof (rule sends_alloc [where g = id])
      fix q h'
      assume "writable q" "room q = length bs"
      then show "then_do (on_new_packet q body) (\<lambda>packet. then_do (modify ?f) (\<lambda>_. packet__queue packet))
          ((s1\<lparr>e_heap := h\<rparr>)\<lparr>e_heap := h'\<rparr>)
        = apfst id (packet__queue (put bs q) ((?f (s1\<lparr>e_heap := h\<rparr>))\<lparr>e_heap := h'\<rparr>))"
        using fb by (simp add: fills_def then_do_def [of "on_new_packet q body"] on_new_packet_def modify_then comm)
    qed (use s1' f bsl in \<open>simp_all add: packet_def\<close>)
  qed simp
  then show ?thesis by (simp add: packet_def bs_def)
qed

end
