(* ===== verification/Session.thy ===== *)
theory Session
  imports Safety Flow Send_Connect
begin

text \<open>
  The invariant of a client and its preservation by the senders and the message queues. \<open>held_ok\<close>
  is about what the client holds: its identity, will and properties fit their length fields, the
  flow control counters are in range, and every message waiting to be sent again can be sent.
  \<open>safe_in J K\<close> adds that the output queue is in order, and of the incoming packet, which the
  operations here do not touch, \<open>J\<close> and, while the socket is open, \<open>K\<close>.
\<close>

unbundle bit_operations_syntax

section \<open>The invariant\<close>

definition light :: "mosquitto_property list \<Rightarrow> bool" where
  "light ps = (list_all prop_ok ps \<and> length (props_enc ps) < 2 ^ 26)"

definition will_held :: "mosquitto_message_all \<Rightarrow> bool" where
  "will_held w = (will_ok w \<and> light (ma_properties w))"

definition resendable :: "mosquitto_message_all \<Rightarrow> bool" where
  "resendable m = (m_qos (ma_msg m) \<in> {1, 2} \<and> pred_option short (m_topic (ma_msg m))
     \<and> m_payloadlen (ma_msg m) = int (length (m_payload (ma_msg m)))
     \<and> length (m_payload (ma_msg m)) < 2 ^ 31 \<and> sendable (ma_properties m))"

definition counters_ok :: "mosquitto_msg_data \<Rightarrow> bool" where
  "counters_ok d = (0 \<le> inflight_quota d \<and> inflight_quota d \<le> 65535
     \<and> int (length (inflight d)) \<le> queue_len d)"

definition held_ok :: "mosquitto \<Rightarrow> bool" where
  "held_ok s = (protocol s \<in> {mosq_p_mqtt31, mosq_p_mqtt311, mosq_p_mqtt5}
     \<and> pred_option short (client_id s) \<and> pred_option short (username s) \<and> pred_option short (password s)
     \<and> pred_option will_held (will s) \<and> light (connect_properties s)
     \<and> counters_ok (msgs_in s) \<and> counters_ok (msgs_out s)
     \<and> queue_len (msgs_out s) = int (length (inflight (msgs_out s)))
     \<and> list_all resendable (inflight (msgs_out s)))"

definition safe_in :: "(mosquitto__packet \<Rightarrow> bool) \<Rightarrow> (mosquitto__packet \<Rightarrow> bool) \<Rightarrow> mosquitto \<Rightarrow> bool" where
  "safe_in J K s = (out_ok s \<and> held_ok s \<and> J (in_packet s) \<and> (sock s \<noteq> INVALID_SOCKET \<longrightarrow> K (in_packet s)))"

lemma safe_inD:
  assumes "safe_in J K s"
  shows "out_ok s" "held_ok s" "J (in_packet s)"
  using assms by (simp_all add: safe_in_def)

lemma held_okD:
  assumes "held_ok s"
  shows "protocol s \<in> {mosq_p_mqtt31, mosq_p_mqtt311, mosq_p_mqtt5}" "pred_option short (client_id s)"
    "pred_option short (username s)" "pred_option short (password s)" "pred_option will_held (will s)"
    "light (connect_properties s)" "counters_ok (msgs_in s)" "counters_ok (msgs_out s)"
    "queue_len (msgs_out s) = int (length (inflight (msgs_out s)))"
    "list_all resendable (inflight (msgs_out s))"
  using assms by (simp_all add: held_ok_def)

lemma light_sendable: "light ps \<Longrightarrow> sendable ps"
  by (simp add: light_def sendable_def)

lemma held_ok_identity: "held_ok s \<Longrightarrow> identity_ok s"
  by (auto simp: held_ok_def identity_ok_def will_held_def option.pred_set)

text \<open>What writing leaves alone keeps the invariant.\<close>

lemma held_ok_still: "held_ok (still s) = held_ok s"
  by (simp add: held_ok_def still_def)

lemma held_ok_frame: "out_frame s s' \<Longrightarrow> held_ok s' = held_ok s"
  by (metis out_frame_def held_ok_still)

lemma held_ok_heap [simp]: "held_ok (s\<lparr>e_heap := h\<rparr>) = held_ok s"
  by (simp add: held_ok_def)

lemma safe_in_frame:
  "out_frame s s' \<Longrightarrow> held_ok s \<Longrightarrow> J (in_packet s) \<Longrightarrow> (sock s \<noteq> INVALID_SOCKET \<longrightarrow> K (in_packet s))
    \<Longrightarrow> out_ok s' \<Longrightarrow> safe_in J K s'"
  using held_ok_frame [of s s'] out_frameD(3) [of s s'] by (auto simp: safe_in_def out_frame_def)

lemma safe_in_heap [simp]: "safe_in J K (s\<lparr>e_heap := h\<rparr>) = safe_in J K s"
  by (simp add: safe_in_def)

text \<open>A command that works on the heap alone.\<close>

lemma triple_on_heap:
  assumes "triple anything c Q"
  shows "triple (safe_in J K) (on_heap c) Q"
proof (rule tripleI)
  fix s
  assume "safe_in J K s"
  moreover have "good anything Q (c (e_heap s))" using assms by (simp add: triple_def)
  ultimately show "good (safe_in J K) Q (on_heap c s)"
    by (auto simp: on_heap_def elim!: goodE)
qed

lemma triple_with_alloc: "triple anything c Q \<Longrightarrow> triple anything (with_alloc c) Q"
  by (auto simp: triple_def with_alloc_def split: prod.split bool.split)

lemma triple_need_memory [triples]: "triple (safe_in J K) need_memory anything"
  unfolding need_memory_def by (intro triple_on_heap triple_with_alloc triple_ret) simp

section \<open>The senders\<close>

text \<open>Sending leaves the message queues as they were: \<open>safe_since J K s0\<close> adds that they are those of
  \<open>s0\<close>.\<close>

definition safe_since ::
  "(mosquitto__packet \<Rightarrow> bool) \<Rightarrow> (mosquitto__packet \<Rightarrow> bool) \<Rightarrow> mosquitto \<Rightarrow> mosquitto \<Rightarrow> bool"
where
  "safe_since J K s0 s = (safe_in J K s \<and> msgs_in s = msgs_in s0 \<and> msgs_out s = msgs_out s0)"

lemma sends_since:
  assumes "sends f s bs x" "safe_in J K s" "held_ok (f s)" "in_packet (f s) = in_packet s" "sock (f s) = sock s"
    and "msgs_in (f s) = msgs_in s" "msgs_out (f s) = msgs_out s"
  shows "good (safe_since J K s) anything x"
proof -
  obtain r s' where x: "x = (r, s')" by fastforce
  have "safe_since J K s s' \<and> r \<noteq> Fault"
    using assms(1) unfolding x
  proof (cases rule: sendsE)
    case (sent h)
    then show ?thesis using assms(2-7) safe_in_frame [OF sent(4), of J K] out_frameD(1,2) [OF sent(4)]
      by (simp add: safe_in_def safe_since_def)
  next
    case (nomem h)
    then show ?thesis using assms(2) safe_in_frame [OF nomem(4), of J K] out_frameD(1,2) [OF nomem(4)]
      by (simp add: safe_in_def safe_since_def)
  qed
  then show ?thesis by (simp add: x good_iff)
qed

lemma since_good: "good (safe_since J K s0) Q x \<Longrightarrow> good (safe_in J K) Q x"
  by (auto elim!: goodE simp: safe_since_def)

lemma since_triple:
  assumes "\<And>s0. triple (safe_since J K s0) c Q"
  shows "triple (safe_in J K) c Q"
  using assms by (auto simp: triple_def safe_since_def intro: since_good)

lemma since_chain: "good (safe_since J K s1) Q x \<Longrightarrow> safe_since J K s0 s1 \<Longrightarrow> good (safe_since J K s0) Q x"
  by (auto elim!: goodE simp: safe_since_def)

lemma triple_sends:
  assumes "\<And>s. out_ok s \<Longrightarrow> sends id s (bs s) (c s)"
  shows "triple (safe_since J K s0) c anything" "triple (safe_in J K) c anything"
proof -
  have "triple (safe_since J K s0) c anything" for s0
  proof (rule tripleI)
    fix s
    assume s: "safe_since J K s0 s"
    then have "good (safe_since J K s) anything (c s)"
      using sends_since [OF assms] by (simp add: safe_in_def safe_since_def)
    then show "good (safe_since J K s0) anything (c s)" using s by (rule since_chain)
  qed
  then show "triple (safe_since J K s0) c anything" "triple (safe_in J K) c anything"
    by (simp_all add: since_triple)
qed

lemma triple_command_with_mid [triples]:
  assumes "sendable ps"
  shows "triple (safe_since J K s0) (send__command_with_mid command mid dup rc ps) anything"
    "triple (safe_in J K) (send__command_with_mid command mid dup rc ps) anything"
  by (rule triple_sends [OF sends_command_with_mid], assumption, rule assms)+

lemma triple_simple_command [triples]: "triple (safe_in J K) (send__simple_command command) anything"
  by (rule triple_sends(2) [OF sends_simple])

lemma triple_send_disconnect [triples]:
  assumes "sendable ps"
  shows "triple (safe_in J K) (send__disconnect rc ps) anything"
  by (rule triple_sends(2) [OF sends_disconnect], assumption, rule assms)

text \<open>The flow control counters.\<close>

lemma counters_quota [simp]:
  "counters_ok d \<Longrightarrow> counters_ok (increment_quota d)" "counters_ok d \<Longrightarrow> counters_ok (decrement_quota d)"
  "inflight (increment_quota d) = inflight d" "inflight (decrement_quota d) = inflight d"
  "queue_len (increment_quota d) = queue_len d" "queue_len (decrement_quota d) = queue_len d"
proof -
  have "uint (inflight_maximum d) < 2 ^ 16" using uint_lt2p [of "inflight_maximum d"] by simp
  then show "counters_ok d \<Longrightarrow> counters_ok (increment_quota d)" "counters_ok d \<Longrightarrow> counters_ok (decrement_quota d)"
    by (auto simp: counters_ok_def increment_quota_def decrement_quota_def)
qed (simp_all add: increment_quota_def decrement_quota_def)

lemma safe_in_quota [triples]:
  "safe_in J K s \<Longrightarrow> safe_in J K (util__increment_receive_quota s)"
  "safe_in J K s \<Longrightarrow> safe_in J K (util__decrement_receive_quota s)"
  "safe_in J K s \<Longrightarrow> safe_in J K (util__increment_send_quota s)"
  "safe_in J K s \<Longrightarrow> safe_in J K (util__decrement_send_quota s)"
  by (simp_all add: safe_in_def held_ok_def)
    (simp_all add: util__increment_receive_quota_def util__decrement_receive_quota_def
      util__increment_send_quota_def util__decrement_send_quota_def)

lemma triple_acks [triples]:
  assumes "sendable ps"
  shows "triple (safe_in J K) (send__puback mid rc ps) anything" "triple (safe_in J K) (send__pubcomp mid ps) anything"
    "triple (safe_in J K) (send__pubrec mid rc ps) anything" "triple (safe_in J K) (send__pubrel mid ps) anything"
  unfolding send__puback_def send__pubcomp_def send__pubrec_def send__pubrel_def
  by (intro triple_then_do [OF triple_modify] triples assms; simp add: triples)+

text \<open>Publishing: too long a packet is refused, any other is queued.\<close>

lemma publish_body_less:
  assumes "sendable ps" "pred_option short topic" "length payload < 2 ^ 31"
  shows "length (publish_body proto mid (case topic of None \<Rightarrow> [] | Some t \<Rightarrow> t) qos ps payload) < 2 ^ 32"
  using assms(2,3) sendable_enc(5) [OF assms(1)]
  by (cases topic) (auto simp: publish_body_def short_def)

lemma good_publish:
  assumes s: "safe_in J K s" and p: "sendable ps" and t: "pred_option short topic" and pl: "length payload < 2 ^ 31"
  shows "good (safe_since J K s) anything
    (send__publish mid topic (word_of_nat (length payload)) payload qos retain dup ps [] 0 s)"
proof -
  define bs where "bs = publish_body (protocol s) mid (case topic of None \<Rightarrow> [] | Some t \<Rightarrow> t) qos ps payload"
  let ?x = "send__publish mid topic (word_of_nat (length payload)) payload qos retain dup ps [] 0 s"
  have t': "\<And>v. topic = Some v \<Longrightarrow> length v < 65536" using t by (simp add: short_def)
  have o: "out_ok s" using s by (rule safe_inD)
  have same: "safe_since J K s (s\<lparr>e_heap := h\<rparr>)" "safe_since J K s s" for h using s by (simp_all add: safe_since_def)
  show ?thesis
  proof (cases "length bs < 2 ^ 28")
    case True
    show ?thesis
    proof (cases "sock s \<noteq> INVALID_SOCKET \<and> packet__check_oversize s (word_of_nat (length bs)) = Ok ()")
      case ok: True
      show ?thesis
        by (rule sends_since [OF sends_publish(2) [OF o p t' True [unfolded bs_def]]])
          (use ok s in \<open>simp_all add: bs_def safe_in_def\<close>)
    next
      case no: False
      have "?x = (Err MOSQ_ERR_NO_CONN, s) \<or> ?x = (Err MOSQ_ERR_OVERSIZE_PACKET, s)"
        using sends_publish(1) [OF o p t' True [unfolded bs_def], of retain dup] no
        by (auto simp: bs_def split: if_splits)
      then show ?thesis using same by auto
    qed
  next
    case False
    have "\<exists>e h. send__real_publish mid topic (word_of_nat (length payload)) payload qos r dup ps [] 0 s
        = (Err e, s\<lparr>e_heap := h\<rparr>)" for r
      using False publish_body_less [OF p t pl] by (intro real_publish_too_long [OF p t']) (simp_all add: bs_def)
    then have "sock s \<noteq> INVALID_SOCKET \<Longrightarrow> \<exists>e h. ?x = (Err e, s\<lparr>e_heap := h\<rparr>)"
      by (simp add: send__publish_def then_do_get_st)
    moreover have "sock s = INVALID_SOCKET \<Longrightarrow> ?x = (Err MOSQ_ERR_NO_CONN, s)"
      by (simp add: send__publish_def then_do_get_st throw_def)
    ultimately show ?thesis using same by (cases "sock s = INVALID_SOCKET") auto
  qed
qed

lemma triple_publish_message [triples]:
  assumes "resendable m"
  shows "triple (safe_since J K s0) (publish_message m) anything"
proof (rule tripleI)
  fix s
  assume s: "safe_since J K s0 s"
  have w: "word_of_int (m_payloadlen (ma_msg m)) = (word_of_nat (length (m_payload (ma_msg m))) :: uint32)"
    using assms by (simp add: resendable_def)
  have "good (safe_since J K s) anything (publish_message m s)"
    unfolding publish_message_def Let_def w using assms s
    by (intro good_publish) (simp_all add: resendable_def safe_since_def)
  then show "good (safe_since J K s0) anything (publish_message m s)" using s by (rule since_chain)
qed

section \<open>The message queues\<close>

lemma resendable_update [simp]:
  "resendable (m\<lparr>ma_state := st\<rparr>) = resendable m" "resendable (m\<lparr>ma_timestamp := t\<rparr>) = resendable m"
  "resendable (m\<lparr>ma_dup := d\<rparr>) = resendable m"
  by (simp_all add: resendable_def)

text \<open>Replacing the pending messages by as many that can be resent.\<close>

lemma safe_in_set_inflight:
  assumes "safe_in J K s" "list_all resendable ms" "length ms = length (inflight (msgs_out s))"
  shows "safe_in J K (set_inflight mosq_md_out ms s)"
  using assms
  by (simp add: safe_in_def held_ok_def counters_ok_def set_inflight_def update_msgs_def out_ok_def packets_out_def)

lemma inflight_frame [simp]:
  "inflight (msgs_out (util__decrement_send_quota s)) = inflight (msgs_out s)"
  "inflight (msgs_out (util__increment_send_quota s)) = inflight (msgs_out s)"
  "inflight (msgs_out (set_inflight mosq_md_out ms s)) = ms"
  by (simp_all add: util__decrement_send_quota_def util__increment_send_quota_def set_inflight_def update_msgs_def)

lemma good_release_loop:
  assumes "safe_in J K s" "list_all resendable (visited @ others)" "inflight (msgs_out s) = visited @ others"
  shows "good (safe_in J K) anything (release_loop visited others s)"
  using assms
proof (induction others arbitrary: visited s)
  case Nil
  then show ?case by (simp add: ret_def)
next
  case (Cons cur others)
  define cur' where "cur' = cur\<lparr>ma_state := release_state cur\<rparr>"
  define s1 where "s1 = set_inflight mosq_md_out (visited @ cur' # others) s"
  have r: "resendable cur'" "list_all resendable (visited @ cur' # others)"
    using Cons.prems(2) by (simp_all add: cur'_def)
  have s1: "safe_in J K s1" "inflight (msgs_out s1) = visited @ cur' # others"
    using safe_in_set_inflight [OF Cons.prems(1) r(2)] Cons.prems(3) by (simp_all add: s1_def)
  have "good (safe_since J K s1) anything (publish_message cur' s1)"
    using triple_publish_message [OF r(1)] s1(1) by (simp add: triple_def safe_since_def)
  then have sent: "good (safe_in J K) anything (then_do (publish_message cur') (\<lambda>_.
      then_do (modify util__decrement_send_quota) (\<lambda>_. release_loop (visited @ [cur']) others)) s1)"
  proof (rule goodE)
    fix a s2
    assume p: "publish_message cur' s1 = (Ok a, s2)" "safe_since J K s1 s2"
    have "good (safe_in J K) anything (release_loop (visited @ [cur']) others (util__decrement_send_quota s2))"
      using p(2) r s1(2) by (intro Cons.IH) (simp_all add: safe_since_def safe_in_quota)
    then show ?thesis using p(1) by (simp add: then_do_def [of "publish_message cur'"] modify_then)
  next
    fix e s2
    assume "publish_message cur' s1 = (Err e, s2)" "safe_since J K s1 s2"
    then show ?thesis by (simp add: then_do_def safe_since_def)
  qed
  have skip: "good (safe_in J K) anything (release_loop (visited @ [cur]) others s)"
    using Cons.prems by (intro Cons.IH) simp_all
  from sent skip Cons.prems(1) show ?case by (simp add: Let_def flip: cur'_def s1_def)
qed

lemma triple_release [triples]: "triple (safe_in J K) (message__release_to_inflight dir) anything"
proof (rule tripleI)
  fix s
  assume s: "safe_in J K s"
  show "good (safe_in J K) anything (message__release_to_inflight dir s)"
  proof (cases dir)
    case mosq_md_in
    then show ?thesis using s by (simp add: message__release_to_inflight_def ret_def)
  next
    case mosq_md_out
    have "list_all resendable (inflight (msgs_out s))" using s by (simp add: safe_in_def held_ok_def)
    then show ?thesis using mosq_md_out s
      by (simp add: message__release_to_inflight_def then_do_get_st good_release_loop)
  qed
qed

lemma out_ok_msgs [simp]:
  "out_ok (update_msgs dir f s) = out_ok s" "in_packet (update_msgs dir f s) = in_packet s"
  by (cases dir; simp add: update_msgs_def out_ok_def packets_out_def)+

lemma triple_message_queue [triples]:
  assumes "m_qos (ma_msg m) \<noteq> 0" "dir = mosq_md_out \<Longrightarrow> resendable m"
  shows "triple (safe_in J K) (message__queue m dir) anything"
proof (rule tripleI)
  fix s
  assume s: "safe_in J K s"
  then have "safe_in J K (store_message dir m s)"
    using assms(2) by (cases dir) (auto simp: safe_in_def held_ok_def counters_ok_def store_message_def update_msgs_def
        out_ok_def packets_out_def)
  then show "good (safe_in J K) anything (message__queue m dir s)"
    using assms(1) tripleD [OF triple_release] by (simp add: message__queue_def)
qed

lemma remove_mid_Ok:
  assumes "remove_mid mid qos ms = Ok (m, ms')"
  shows "m \<in> set ms" "length ms = Suc (length ms')" "set ms' \<subseteq> set ms"
proof -
  obtain "lookup_mid ms mid = Some m" "ms' = remove1 m ms"
    using assms by (auto simp: remove_mid_lookup split: option.splits if_splits)
  moreover from this(1) have "m \<in> set ms" by (auto simp: lookup_mid_def find_Some_iff)
  ultimately show "m \<in> set ms" "length ms = Suc (length ms')" "set ms' \<subseteq> set ms"
    using set_remove1_subset [of m ms] length_pos_if_in_set [of m ms] by (auto simp: length_remove1)
qed

lemma remove_mid_no_fault: "remove_mid mid qos ms \<noteq> Fault"
  by (simp add: remove_mid_lookup split: option.split)

lemma triple_message_remove [triples]: "triple (safe_in J K) (message__remove mid dir qos) anything"
proof (rule tripleI)
  fix s
  assume s: "safe_in J K s"
  show "good (safe_in J K) anything (message__remove mid dir qos s)"
  proof (cases "remove_mid mid qos (inflight (msgs dir s))")
    case (Ok a)
    then obtain m ms where r: "remove_mid mid qos (inflight (msgs dir s)) = Ok (m, ms)" by (cases a) simp
    have "safe_in J K (update_msgs dir (\<lambda>d. d\<lparr>inflight := ms, queue_len := queue_len d - 1\<rparr>) s)"
      using remove_mid_Ok [OF r] s
      by (cases dir) (auto simp: safe_in_def held_ok_def counters_ok_def update_msgs_def msgs_def
          out_ok_def packets_out_def list_all_iff)
    then show ?thesis using r by (simp add: message__remove_def)
  qed (use s remove_mid_no_fault in \<open>simp_all add: message__remove_def\<close>)
qed

lemma triple_message_delete [triples]: "triple (safe_in J K) (message__delete mid dir qos) anything"
  unfolding message__delete_def by (intro triples)

lemma out_update_loop_Ok:
  "out_update_loop now mid st qos ms = Ok ms' \<Longrightarrow> length ms' = length ms \<and> (list_all resendable ms \<longrightarrow> list_all resendable ms')"
  by (induction ms arbitrary: ms') (auto split: if_splits res.splits)

lemma out_update_loop_no_fault: "out_update_loop now mid st qos ms \<noteq> Fault"
  by (induction ms) (auto split: res.splits)

lemma triple_message_out_update [triples]: "triple (safe_in J K) (message__out_update mid st qos) anything"
proof (rule tripleI)
  fix s
  assume s: "safe_in J K s"
  show "good (safe_in J K) anything (message__out_update mid st qos s)"
  proof (cases "out_update_loop (e_now s) mid st qos (inflight (msgs_out s))")
    case (Ok ms)
    then have "safe_in J K (set_inflight mosq_md_out ms s)"
      using out_update_loop_Ok [OF Ok] s by (intro safe_in_set_inflight) (auto simp: safe_in_def held_ok_def)
    then show ?thesis using Ok by (simp add: message__out_update_def)
  qed (use s out_update_loop_no_fault in \<open>simp_all add: message__out_update_def\<close>)
qed

text \<open>After a reconnection.\<close>

lemma counters_restart: "counters_ok (restart_quota d)"
proof -
  have "uint (inflight_maximum d) < 2 ^ 16" using uint_lt2p [of "inflight_maximum d"] by simp
  then show ?thesis by (simp add: counters_ok_def restart_quota_def)
qed

lemma reset_in_counters: "counters_ok d \<Longrightarrow> counters_ok (reset_in_loop ms d)"
proof (induction ms arbitrary: d)
  case (Cons m ms)
  have "counters_ok (d\<lparr>queue_len := queue_len d + 1\<rparr>)"
    "counters_ok (d\<lparr>queue_len := queue_len d + 1, inflight := inflight d @ [m\<lparr>ma_timestamp := 0\<rparr>]\<rparr>)"
    using Cons.prems by (simp_all add: counters_ok_def)
  then show ?case using Cons.IH by (simp add: Let_def)
qed simp

definition out_counters :: "mosquitto_msg_data \<Rightarrow> bool" where
  "out_counters d = (counters_ok d \<and> queue_len d = int (length (inflight d)) \<and> list_all resendable (inflight d))"

lemma reset_out_counters:
  "out_counters d \<Longrightarrow> list_all resendable ms \<Longrightarrow> out_counters (reset_out_loop b ms d)"
proof (induction ms arbitrary: d)
  case (Cons m ms)
  have d: "counters_ok (d\<lparr>queue_len := queue_len d + 1\<rparr>)" using Cons.prems(1) by (simp add: out_counters_def counters_ok_def)
  have q: "0 \<le> inflight_quota (decrement_quota d') \<and> inflight_quota (decrement_quota d') \<le> 65535"
    if "counters_ok d'" for d' using counters_quota(2) [OF that] by (simp add: counters_ok_def)
  have step: "out_counters ((decrement_quota (d\<lparr>queue_len := queue_len d + 1\<rparr>))\<lparr>inflight := inflight d @ [m']\<rparr>)"
    "out_counters (d\<lparr>queue_len := queue_len d + 1, inflight := inflight d @ [m']\<rparr>)" if "resendable m'" for m'
    using Cons.prems(1) that q [OF d] by (simp_all add: out_counters_def counters_ok_def)
  show ?case
    using Cons.IH [OF step(1)] Cons.IH [OF step(2)] Cons.prems(2) by (simp add: Let_def)
qed simp

lemma safe_in_reset [triples]:
  assumes "safe_in J K s"
  shows "safe_in J K (message__reconnect_reset b s)"
proof -
  have "out_counters (restart_quota (msgs_out s))"
    using counters_restart by (simp add: out_counters_def restart_quota_def)
  moreover have "list_all resendable (inflight (msgs_out s))" using assms by (simp add: safe_in_def held_ok_def)
  ultimately have "out_counters (reset_out_loop b (inflight (msgs_out s)) (restart_quota (msgs_out s)))"
    by (rule reset_out_counters)
  then show ?thesis
    using assms reset_in_counters [OF counters_restart]
    by (simp add: safe_in_def held_ok_def message__reconnect_reset_def out_counters_def out_ok_def packets_out_def)
qed

lemma good_retry_loop:
  assumes "safe_in J K s" "list_all resendable (visited @ others)" "inflight (msgs_out s) = visited @ others"
  shows "good (safe_in J K) anything (retry_loop visited others s)"
  using assms
proof (induction others arbitrary: visited s)
  case Nil
  then show ?case by (simp add: ret_def)
next
  case (Cons m others)
  define m' where "m' = m\<lparr>ma_timestamp := e_now s, ma_dup := True\<rparr>"
  define s1 where "s1 = set_inflight mosq_md_out (visited @ m' # others) s"
  have r: "resendable m'" "list_all resendable (visited @ m' # others)"
    using Cons.prems(2) by (simp_all add: m'_def)
  have s1: "safe_in J K s1" "inflight (msgs_out s1) = visited @ m' # others"
    using safe_in_set_inflight [OF Cons.prems(1) r(2)] Cons.prems(3) by (simp_all add: s1_def)
  have again: "good (safe_in J K) anything (then_do (ignore_rc c) (\<lambda>_. retry_loop (visited @ [m']) others) s1)"
    if "\<And>s0. triple (safe_since J K s0) c anything" for c
  proof -
    have "good (safe_since J K s1) anything (ignore_rc c s1)"
      using triple_ignore_rc [OF that [of s1]] s1(1) by (simp add: triple_def safe_since_def)
    then show ?thesis
    proof (rule goodE)
      fix a s2
      assume "ignore_rc c s1 = (Ok a, s2)" "safe_since J K s1 s2"
      then show ?thesis using r s1(2) by (simp add: then_do_def Cons.IH safe_since_def)
    next
      fix e s2
      assume "ignore_rc c s1 = (Err e, s2)" "safe_since J K s1 s2"
      then show ?thesis by (simp add: then_do_def safe_since_def)
    qed
  qed
  have skip: "good (safe_in J K) anything (retry_loop (visited @ [m]) others s)"
    using Cons.prems by (intro Cons.IH) simp_all
  have acks: "triple (safe_since J K s0) (send__pubrec mid 0 []) anything"
    "triple (safe_since J K s0) (send__pubrel mid []) anything" for s0 mid
  proof -
    have "send__pubrec mid 0 [] = send__command_with_mid CMD_PUBREC mid False 0 []"
      by (rule ext) (simp add: send__pubrec_def modify_then)
    then show "triple (safe_since J K s0) (send__pubrec mid 0 []) anything"
      using triple_command_with_mid(1) [OF sendable_Nil] by metis
    show "triple (safe_since J K s0) (send__pubrel mid []) anything"
      unfolding send__pubrel_def by (rule triple_command_with_mid(1) [OF sendable_Nil])
  qed
  show ?case
    using again [OF triple_publish_message [OF r(1)]] again [OF acks(1)] again [OF acks(2)] skip
    by (simp add: Let_def flip: m'_def s1_def)
qed

lemma triple_retry_check [triples]: "triple (safe_in J K) message__retry_check anything"
proof (rule tripleI)
  fix s
  assume s: "safe_in J K s"
  then have "list_all resendable (inflight (msgs_out s))" by (simp add: safe_in_def held_ok_def)
  then show "good (safe_in J K) anything (message__retry_check s)"
    using s by (simp add: message__retry_check_def then_do_get_st good_retry_loop)
qed

end
