(* ===== verification/Session_In.thy ===== *)
theory Session_In
  imports Session
begin

text \<open>
  The handlers keep the invariant: run on a packet whose announced length its buffer holds, each of
  handle_*.c ends without a fault, whatever the bytes, the allocation failures and the socket do,
  and leaves the client as \<open>held_ok\<close> asks.
\<close>

unbundle bit_operations_syntax

section \<open>Reading from the incoming packet\<close>

lemma safe_in_reading:
  assumes "safe_in readable anything s" "k \<le> length (rest (in_packet s))"
  shows "safe_in readable anything (s\<lparr>in_packet := adv k (in_packet s), e_heap := h\<rparr>)"
  using assms by (simp add: safe_in_def held_ok_def out_ok_def packets_out_def)

lemma triple_reader_value:
  assumes "safe_reader c"
    and "\<And>p h a p' h'. readable p \<Longrightarrow> c (p, h) = (Ok a, (p', h')) \<Longrightarrow> Q a"
  shows "triple (safe_in readable anything) (on_in_packet c) Q"
proof (rule tripleI)
  fix s
  assume s: "safe_in readable anything s"
  then have p: "readable (in_packet s)" by (rule safe_inD)
  obtain r k h where c: "c (in_packet s, e_heap s) = (r, (adv k (in_packet s), h))" "r \<noteq> Fault"
    "k \<le> length (rest (in_packet s))"
    using assms(1) p by (rule safe_readerE)
  then show "good (safe_in readable anything) Q (on_in_packet c s)"
    using safe_in_reading [OF s c(3)] assms(2) [OF p] by (cases r) (simp_all add: on_in_packet_def)
qed

lemma triple_reader: "safe_reader c \<Longrightarrow> triple (safe_in readable anything) (on_in_packet c) anything"
  by (rule triple_reader_value) simp_all

lemma safe_read_bytes:
  "unat count < 2 ^ 31 \<Longrightarrow> safe_reader (on_packet (packet__read_bytes count))"
proof (rule safe_on_packetI)
  fix p
  assume c: "unat count < 2 ^ 31" and p: "readable p"
  show "\<exists>r k. packet__read_bytes count p = (r, adv k p) \<and> r \<noteq> Fault \<and> k \<le> length (rest p)"
    using packet__read_bytes_rest [OF p c] p
    by (cases "unat count \<le> length (rest p)") (auto intro: exI [of _ "0"])
qed

lemma suback_loop_safe:
  "readable p \<Longrightarrow> \<exists>r k. suback_loop granted p = (r, adv k p) \<and> r \<noteq> Fault \<and> k \<le> length (rest p)"
proof (induction "length (rest p)" arbitrary: granted p)
  case 0
  then have "\<not> p_pos p < p_remaining_length p"
    using length_rest [of p] by (simp add: word_less_nat_alt)
  then show ?case by (subst suback_loop.simps) (auto intro: exI [of _ "0"])
next
  case (Suc n)
  then obtain b bs where r: "rest p = b # bs" by (cases "rest p") simp_all
  then have b: "packet__read_byte p = (Ok b, adv (Suc 0) p)" using Suc.prems by (simp add: packet__read_byte_rest)
  have a: "readable (adv (Suc 0) p)" "rest (adv (Suc 0) p) = bs" using Suc.prems r by simp_all
  have "n = length (rest (adv (Suc 0) p))" using Suc.hyps(2) r a by simp
  from Suc.hyps(1) [OF this a(1), of "granted @ [uint b]"] obtain x k where
    k: "suback_loop (granted @ [uint b]) (adv (Suc 0) p) = (x, adv k (adv (Suc 0) p))" "x \<noteq> Fault" "k \<le> length bs"
    unfolding a(2) by blast
  have "p_pos p < p_remaining_length p"
    using length_rest [OF Suc.prems] r by (simp add: word_less_nat_alt)
  then have "suback_loop granted p = (x, adv (Suc k) p)"
    using b k by (subst suback_loop.simps) simp
  then show ?case using k r by auto
qed

lemma triple_reads [triples]:
  "triple (safe_in readable anything) (on_in_packet (on_packet packet__read_byte)) anything"
  "triple (safe_in readable anything) (on_in_packet (on_packet packet__read_uint16)) anything"
  "triple (safe_in readable anything) (on_in_packet packet__read_string) anything"
  "triple (safe_in readable anything) (on_in_packet (on_packet (suback_loop []))) anything"
  by (intro triple_reader safe_intros safe_on_packetI suback_loop_safe, assumption?)+

lemma triple_read_all: "triple (safe_in readable anything) (on_in_packet (property__read_all command)) (list_all prop_ok)"
  using property__read_all_Ok(3) by (intro triple_reader_value safe_intros) blast

lemmas triple_read_props [triples] = triple_read_all [THEN triple_weaken]

section \<open>What the handlers do to the client\<close>

lemma safe_in_update [simp]:
  "safe_in J K (s\<lparr>in_callback := b\<rparr>) = safe_in J K s" "safe_in J K (s\<lparr>e_trace := tr\<rparr>) = safe_in J K s"
  "safe_in J K (s\<lparr>cstate := c\<rparr>) = safe_in J K s" "safe_in J K (s\<lparr>ping_t := t\<rparr>) = safe_in J K s"
  "safe_in J K (s\<lparr>reconnects := n\<rparr>) = safe_in J K s"
  "safe_in J K (s\<lparr>last_msg_in := t\<rparr>) = safe_in J K s" "safe_in J K (s\<lparr>next_msg_out := t\<rparr>) = safe_in J K s"
  "safe_in J K (s\<lparr>retain_available := w\<rparr>) = safe_in J K s" "safe_in J K (s\<lparr>max_qos := w\<rparr>) = safe_in J K s"
  "safe_in J K (s\<lparr>keepalive := v\<rparr>) = safe_in J K s" "safe_in J K (s\<lparr>maximum_packet_size := z\<rparr>) = safe_in J K s"
  "safe_in J K (s\<lparr>last_mid := v\<rparr>) = safe_in J K s"
  by (simp_all add: safe_in_def held_ok_def out_ok_def packets_out_def)

lemma safe_in_close [simp]: "safe_in J K s \<Longrightarrow> safe_in J K (net__socket_close s)"
  by (simp add: safe_in_def held_ok_def out_ok_def packets_out_def net__socket_close_def)

lemma safe_in_callback [simp, triples]: "safe_in J K s \<Longrightarrow> safe_in J K (call_back cb ev s)"
  by (simp add: call_back_def)

lemma safe_in_callbacks [triples]:
  "safe_in J K s \<Longrightarrow> safe_in J K (message_callbacks msg ps s)"
  "safe_in J K s \<Longrightarrow> safe_in J K (publish_callbacks mid rc ps s)"
  "safe_in J K s \<Longrightarrow> safe_in J K (connack_callback reason flags ps s)"
  by (simp_all add: message_callbacks_def publish_callbacks_def connack_callback_def Let_def)

lemma safe_in_next [simp]: "safe_in J K s \<Longrightarrow> safe_in J K (next_packet s)"
  by (cases "out_packet s") (auto simp: next_packet_def safe_in_def held_ok_def out_ok_def packets_out_def)

lemma safe_in_disconnected [simp, triples]: "safe_in J K s \<Longrightarrow> safe_in J K (do_client_disconnect reason ps s)"
  by (simp add: do_client_disconnect_def mosquitto__set_state_def touch_out_def Let_def)

section \<open>The handlers\<close>

lemma triple_read_publish_mid [triples]: "triple (safe_in readable anything) read_publish_mid anything"
  unfolding read_publish_mid_def by (intro triples)

lemma triple_read_payload [triples]: "triple (safe_in readable anything) read_payload anything"
  unfolding read_payload_def
proof (intro triple_then_do [OF triple_get_st])
  fix s
  assume "safe_in readable anything s"
  then have p: "readable (in_packet s)" by (rule safe_inD)
  have "unat (p_remaining_length (in_packet s) - p_pos (in_packet s)) < 2 ^ 31"
    using p unat_sub [of "p_pos (in_packet s)" "p_remaining_length (in_packet s)"]
    unfolding readable_def word_le_nat_alt by (auto simp: less_imp_diff_less)
  then show "triple (safe_in readable anything) (let count = p_remaining_length (in_packet s) - p_pos (in_packet s)
     in if sint count \<noteq> 0 then then_do need_memory (\<lambda>_.
       then_do (on_in_packet (on_packet (packet__read_bytes count))) (\<lambda>payload.
       ret (payload, sint count))) else ret ([], 0)) anything"
    unfolding Let_def
    by (intro triples triple_then_do [OF triple_need_memory] triple_then_do [OF triple_reader [OF safe_read_bytes]])
qed


lemma triple_read_ack_tail [triples]: "triple (safe_in readable anything) (read_ack_tail allowed first command) anything"
  unfolding read_ack_tail_def by (intro triples)

lemma triple_read_whole [triples]: "triple (safe_in readable anything) packet_read_whole anything"
  unfolding packet_read_whole_def by (intro triples)

lemma triple_handle_publish [triples]: "triple (safe_in readable anything) handle__publish anything"
  unfolding handle__publish_def Let_def by (intro triples) simp_all

lemma triple_handle_pubackcomp [triples]: "triple (safe_in readable anything) (handle__pubackcomp type) anything"
  unfolding handle__pubackcomp_def Let_def by (intro triples) (auto simp: safe_in_callbacks)

lemma triple_handle_pubrec [triples]: "triple (safe_in readable anything) handle__pubrec anything"
  unfolding handle__pubrec_def by (intro triples) auto

lemma triple_deliver_released [triples]: "triple (safe_in readable anything) (deliver_released mid) anything"
proof (rule tripleI)
  fix s
  assume "safe_in readable anything s"
  then have "good (safe_in readable anything) anything (message__remove mid mosq_md_in 2 s)"
    by (rule tripleD [OF triple_message_remove])
  then show "good (safe_in readable anything) anything (deliver_released mid s)"
    by (rule goodE) (simp_all add: deliver_released_def safe_in_callbacks)
qed

lemma triple_handle_pubrel [triples]: "triple (safe_in readable anything) handle__pubrel anything"
  unfolding handle__pubrel_def by (intro triples) simp_all

section \<open>CONNACK\<close>

lemma counters_set_maximum [simp]: "counters_ok (d\<lparr>inflight_maximum := v\<rparr>) = counters_ok d"
  by (simp add: counters_ok_def)

lemma safe_in_server_options [triples]: "safe_in J K s \<Longrightarrow> safe_in J K (server_options ps s)"
proof -
  have max: "safe_in J K (s\<lparr>msgs_out := (msgs_out s)\<lparr>inflight_maximum := v\<rparr>\<rparr>)" if "safe_in J K s" for s v
    using that by (simp add: safe_in_def held_ok_def out_ok_def packets_out_def)
  have refill: "safe_in J K (s\<lparr>msgs_out := (msgs_out s)\<lparr>inflight_quota := uint (inflight_maximum (msgs_out s))\<rparr>\<rparr>)"
    if "safe_in J K s" for s
    using that uint_lt2p [of "inflight_maximum (msgs_out s)"]
    by (simp add: safe_in_def held_ok_def out_ok_def packets_out_def counters_ok_def)
  assume "safe_in J K s"
  then show ?thesis
    unfolding server_options_def Let_def
    by (intro refill) (simp split: option.split prod.split add: max)
qed

lemma short_take: "short (take (unat (n :: uint16)) v)"
proof -
  have "unat n < 2 ^ LENGTH(16)" by (rule unsigned_less)
  then show ?thesis by (simp add: short_def min_less_iff_disj)
qed

lemma short_takeWhile: "short v \<Longrightarrow> short (takeWhile P v)"
  using length_takeWhile_le [of P v] by (simp add: short_def)

lemma triple_read_string:
  assumes "list_all prop_ok ps"
  shows "triple anything (mosquitto_property_read_string ps i skip) (pred_option (\<lambda>(_, v, _). short v))"
proof (rule tripleI)
  fix h
  show "good anything (pred_option (\<lambda>(_, v, _). short v)) (mosquitto_property_read_string ps i skip h)"
  proof (cases "property__get_property ps i skip")
    case Nil
    then show ?thesis by (simp add: mosquitto_property_read_string_def property__lookup_copy_def ret_def)
  next
    case (Cons p qs)
    have "set (property__get_property_from ps i skip b) \<subseteq> set ps" for b
    proof (induction ps arbitrary: b)
      case (Cons p ps)
      show ?case using Cons.IH [of b] Cons.IH [of False] by auto
    qed simp
    from this [of True] have "p \<in> set ps" using Cons by (simp add: property__get_property_def)
    then have "string_ok (pr_s p)" using assms by (auto simp: list_all_iff prop_ok_def)
    then have "\<not> length (case s_v (pr_s p) of None \<Rightarrow> [] | Some v \<Rightarrow> v) < unat (s_len (pr_s p))"
      by (simp add: string_ok_def s_bytes_def split: option.splits)
    then have "good anything (pred_option short) (copy_out (pr_s p) h)"
      by (auto simp: copy_out_def Let_def short_take split: prod.split bool.split)
    then show ?thesis using Cons
      by (auto simp: mosquitto_property_read_string_def property__lookup_copy_def ret_def then_do_def
          option.pred_map comp_def elim!: goodE split: option.splits)
  qed
qed

lemma triple_assigned_client_id:
  assumes "list_all prop_ok ps"
  shows "triple (safe_in J K) (assigned_client_id ps) anything"
  unfolding assigned_client_id_def
  by (rule triple_then_do [OF triple_on_heap [OF triple_read_string [OF assms]]])
    (auto intro!: triples simp: safe_in_def held_ok_def out_ok_def packets_out_def short_takeWhile)

lemma triple_connack_accepted:
  "list_all prop_ok ps \<Longrightarrow> triple (safe_in J K) (connack_accepted reason flags ps) anything"
  unfolding connack_accepted_def by (intro triples triple_assigned_client_id) simp_all

lemma triple_handle_connack [triples]: "triple (safe_in readable anything) handle__connack anything"
proof -
  have tail: "triple (safe_in readable anything) (\<lambda>s.
       case on_in_packet (property__read_all CMD_CONNACK) s of
         (Ok properties, s') \<Rightarrow> connack_accepted reason flags properties s'
       | (Err e, s') \<Rightarrow> (Err e, if e = MOSQ_ERR_PROTOCOL \<and> reason = CONNACK_REFUSED_PROTOCOL_VERSION
                   then connack_callback MQTT_RC_UNSUPPORTED_PROTOCOL_VERSION flags [] s' else s')
       | (Fault, s') \<Rightarrow> (Fault, s')) anything" for reason flags
  proof (rule tripleI)
    fix s
    assume "safe_in readable anything s"
    then have "good (safe_in readable anything) (list_all prop_ok) (on_in_packet (property__read_all CMD_CONNACK) s)"
      by (rule tripleD [OF triple_read_all])
    then show "good (safe_in readable anything) anything (case on_in_packet (property__read_all CMD_CONNACK) s of
         (Ok properties, s') \<Rightarrow> connack_accepted reason flags properties s'
       | (Err e, s') \<Rightarrow> (Err e, if e = MOSQ_ERR_PROTOCOL \<and> reason = CONNACK_REFUSED_PROTOCOL_VERSION
                   then connack_callback MQTT_RC_UNSUPPORTED_PROTOCOL_VERSION flags [] s' else s')
       | (Fault, s') \<Rightarrow> (Fault, s'))"
      by (rule goodE) (simp_all add: tripleD [OF triple_connack_accepted] safe_in_callbacks)
  qed
  show ?thesis unfolding handle__connack_def
    by (intro triples tail triple_connack_accepted) simp_all
qed

section \<open>The other packets\<close>

lemma triple_handle_others [triples]:
  "triple (safe_in readable anything) handle__disconnect anything" "triple (safe_in readable anything) handle__pingreq anything"
  "triple (safe_in readable anything) handle__pingresp anything" "triple (safe_in readable anything) handle__suback anything"
  "triple (safe_in readable anything) handle__unsuback anything"
  unfolding handle__disconnect_def handle__pingreq_def handle__pingresp_def handle__suback_def handle__unsuback_def
  by (intro triples; simp)+

lemma triple_handle_auth [triples]: "triple (safe_in readable anything) handle__auth anything"
proof -
  have tail: "triple (safe_in readable anything) (\<lambda>s. case on_in_packet (on_packet packet__read_byte) s of
         (Ok _, s') \<Rightarrow> then_do (on_in_packet (property__read_all CMD_AUTH)) (\<lambda>_. ret ()) s'
       | (Err _, s') \<Rightarrow> (Err MOSQ_ERR_NOMEM, s')
       | (Fault, s') \<Rightarrow> (Fault, s')) anything"
  proof (rule tripleI)
    fix s
    assume "safe_in readable anything s"
    then have "good (safe_in readable anything) anything (on_in_packet (on_packet packet__read_byte) s)"
      by (rule tripleD [OF triple_reads(1)])
    moreover have "triple (safe_in readable anything) (then_do (on_in_packet (property__read_all CMD_AUTH)) (\<lambda>_. ret ())) anything"
      by (intro triples)
    ultimately show "good (safe_in readable anything) anything (case on_in_packet (on_packet packet__read_byte) s of
         (Ok _, s') \<Rightarrow> then_do (on_in_packet (property__read_all CMD_AUTH)) (\<lambda>_. ret ()) s'
       | (Err _, s') \<Rightarrow> (Err MOSQ_ERR_NOMEM, s')
       | (Fault, s') \<Rightarrow> (Fault, s'))"
      by (auto elim!: goodE dest: tripleD)
  qed
  show ?thesis unfolding handle__auth_def by (intro triples tail)
qed

lemma triple_handle_packet [triples]: "triple (safe_in readable anything) handle__packet anything"
  unfolding handle__packet_def Let_def by (intro triples)

end
