(* ===== verification/Session_Loop.thy ===== *)
theory Session_Loop
  imports Session_In
begin

text \<open>
  Reading packets and the loop: between two calls the incoming packet is either still without its
  length, or its buffer holds exactly the bytes that were announced. Only a failed allocation leaves
  neither, and then the loop closes the socket, so that \<open>between\<close> holds whenever the socket is open.
\<close>

unbundle bit_operations_syntax

section \<open>The incoming packet between two calls\<close>

text \<open>\<open>k\<close> bytes of the remaining length have been read.\<close>

definition length_part :: "nat \<Rightarrow> mosquitto__packet \<Rightarrow> bool" where
  "length_part k p = (p_remaining_count p = - int k \<and> (k \<le> 4 \<longrightarrow>
     unat (p_remaining_length p) < 128 ^ k \<and> p_remaining_mult p = 128 ^ k))"

definition collecting :: "mosquitto__packet \<Rightarrow> bool" where
  "collecting p = (0 < p_remaining_count p \<and> unat (p_remaining_length p) < 2 ^ 28
     \<and> unat (p_pos p) + unat (p_to_process p) = unat (p_remaining_length p)
     \<and> unat (p_remaining_length p) \<le> length (p_payload p))"

definition between :: "mosquitto__packet \<Rightarrow> bool" where
  "between p = (p_pos p = 0 \<and> p_to_process p = 0 \<and> (\<exists>k. length_part k p) \<or> collecting p)"

lemma between_cleanup [simp]: "between (packet__cleanup p)"
  unfolding between_def length_part_def by (rule disjI1) (auto simp: packet__cleanup_def intro: exI [of _ 0])

abbreviation client_ok :: "mosquitto \<Rightarrow> bool" where
  "client_ok \<equiv> safe_in anything between"

abbreviation broken_ok :: "mosquitto \<Rightarrow> bool" where
  "broken_ok \<equiv> safe_in anything anything"

lemma client_ok_broken: "safe_in J K s \<Longrightarrow> broken_ok s"
  by (simp add: safe_in_def)

lemma safe_in_update_in:
  "safe_in J K s \<Longrightarrow> J' (f (in_packet s)) \<Longrightarrow> K' (f (in_packet s)) \<Longrightarrow> safe_in J' K' (update_in f s)"
  by (simp add: safe_in_def held_ok_def out_ok_def packets_out_def update_in_def)

lemma safe_in_strengthen:
  "safe_in J K s \<Longrightarrow> J' (in_packet s) \<Longrightarrow> K' (in_packet s) \<Longrightarrow> safe_in J' K' s"
  by (simp add: safe_in_def)

lemma safe_in_environment [simp]:
  "safe_in J K (s\<lparr>e_errno := e\<rparr>) = safe_in J K s" "safe_in J K (s\<lparr>e_recvs := rs\<rparr>) = safe_in J K s"
  by (simp_all add: safe_in_def held_ok_def out_ok_def packets_out_def)

lemma net__read_safe: "net__read n s = (r, s') \<Longrightarrow> safe_in J K s' = safe_in J K s"
  by (drule net__read_frame) (metis safe_in_environment)

section \<open>The stages of \<open>packet__read\<close>\<close>

text \<open>A stage either goes on, with \<open>P\<close> of the packet, or returns.\<close>

definition stage_ok :: "(mosquitto__packet \<Rightarrow> bool) \<Rightarrow> unit res option \<times> mosquitto \<Rightarrow> bool" where
  "stage_ok P x = (case fst x of
      None \<Rightarrow> safe_in P P (snd x)
    | Some (Ok _) \<Rightarrow> client_ok (snd x)
    | Some (Err e) \<Rightarrow> broken_ok (snd x) \<and> e \<noteq> MOSQ_ERR_SUCCESS
    | Some Fault \<Rightarrow> False)"

lemma stage_simps [simp]:
  "stage_ok P (None, s) = safe_in P P s" "stage_ok P (Some (Ok u), s) = client_ok s"
  "stage_ok P (Some (Err e), s) = (broken_ok s \<and> e \<noteq> MOSQ_ERR_SUCCESS)" "stage_ok P (Some Fault, s) = False"
  by (simp_all add: stage_ok_def)

lemma stage_stopped: "client_ok s \<Longrightarrow> stage_ok P (Some (read_stopped r s), s)"
  by (auto simp: read_stopped_def errno_rc_def client_ok_broken split: errno.split)

lemma stage_errno: "client_ok s \<Longrightarrow> stage_ok P (Some (errno_rc e), s)"
  by (auto simp: errno_rc_def client_ok_broken split: errno.split)

text \<open>The command byte.\<close>

lemma between_command [simp]: "between (p\<lparr>p_command := b\<rparr>) = between p"
  by (simp add: between_def collecting_def length_part_def)

lemma read_command_ok:
  assumes "safe_in between between s"
  shows "stage_ok between (read_command s)"
proof (cases "p_command (in_packet s) = 0")
  case True
  obtain r s' where r: "net__read 1 s = (r, s')" by fastforce
  have s': "safe_in between between s'" using net__read_safe [OF r] assms by simp
  then have c: "client_ok s'" by (simp add: safe_in_def)
  have "in_packet s' = in_packet s" by (rule net__read_in_packet [OF r])
  then have "safe_in between between (update_in (\<lambda>p. p\<lparr>p_command := b\<rparr>) s')" for b
    using s' by (intro safe_in_update_in [OF s']) (simp_all add: safe_in_def)
  then show ?thesis using True r stage_stopped [OF c]
    by (auto simp: read_command_def split: option.split list.split)
qed (use assms in \<open>simp add: read_command_def\<close>)


text \<open>The remaining length.\<close>

definition unmeasured :: "mosquitto__packet \<Rightarrow> bool" where
  "unmeasured p = (p_pos p = 0 \<and> p_to_process p = 0 \<and> (\<exists>k. length_part k p))"

definition measured :: "mosquitto__packet \<Rightarrow> bool" where
  "measured p = (p_pos p = 0 \<and> p_to_process p = 0 \<and> (\<exists>k \<in> {1..4}. length_part k p))"

lemma between_cases: "between p = (unmeasured p \<or> collecting p)"
  by (simp add: between_def unmeasured_def)

lemma between_not_counting: "between p \<Longrightarrow> p_remaining_count p \<le> 0 \<Longrightarrow> unmeasured p"
  by (auto simp: between_def unmeasured_def collecting_def)

lemma unat_and_127: "unat (b AND 127 :: byte) = unat b mod 128"
  by (simp only: byte_masks7 and_mask_nat) simp

lemma unat_power_128: "k \<le> 4 \<Longrightarrow> unat ((128 :: uint32) ^ k) = 128 ^ k"
proof -
  assume "k \<le> 4"
  then have "k \<in> {0, 1, 2, 3, 4}" by auto
  then show ?thesis by (elim insertE) simp_all
qed

lemma take_length_byte_part:
  assumes "length_part k p" "k < 4"
  shows "length_part (Suc k) (take_length_byte b (count_length_byte p))"
proof -
  have l: "unat (p_remaining_length p) < 128 ^ k" "p_remaining_mult p = 128 ^ k" "p_remaining_count p = - int k"
    using assms by (simp_all add: length_part_def)
  have k: "unat ((128 :: uint32) ^ k) = 128 ^ k" using assms(2) by (intro unat_power_128) simp
  have "(128 :: nat) ^ k \<le> 128 ^ 3" using assms(2) by (intro power_increasing) simp_all
  have v: "unat (ucast (b AND 127) :: uint32) = unat b mod 128" by (simp add: unat_and_127)
  have "unat b mod 128 * 128 ^ k \<le> 127 * 128 ^ k" by (intro mult_le_mono1) simp
  then have le: "unat (p_remaining_length p) + unat b mod 128 * 128 ^ k < 128 ^ Suc k"
    unfolding power_Suc using l(1) by linarith
  also have "(128 :: nat) ^ Suc k \<le> 128 ^ 4" using assms(2) by (intro power_increasing) simp_all
  finally have "unat (p_remaining_length p + ucast (b AND 127) * p_remaining_mult p)
      = unat (p_remaining_length p) + unat b mod 128 * 128 ^ k"
    unfolding l(2) using k v by (simp add: unat_word_ariths)
  then show ?thesis using le l by (simp add: length_part_def take_length_byte_def count_length_byte_def)
qed


lemma length_byte_ok:
  assumes "unmeasured p" "\<not> p_remaining_count (count_length_byte p) < -4"
  shows "measured (take_length_byte b (count_length_byte p))"
proof -
  obtain k where k: "p_pos p = 0" "p_to_process p = 0" "length_part k p"
    using assms(1) by (auto simp: unmeasured_def)
  then have "k < 4" using assms(2) by (simp add: length_part_def count_length_byte_def)
  with k show ?thesis using take_length_byte_part [OF k(3), of b]
    by (auto simp: measured_def take_length_byte_def count_length_byte_def intro!: bexI [of _ "Suc k"])
qed

lemma measured_unmeasured: "measured p \<Longrightarrow> unmeasured p"
  by (auto simp: measured_def unmeasured_def)

lemma read_length_loop_ok: "safe_in unmeasured unmeasured s \<Longrightarrow> stage_ok measured (read_length_loop s)"
proof (induction s rule: read_length_loop.induct)
  case (1 s)
  obtain r s' where r: "net__read 1 s = (r, s')" by fastforce
  have s': "safe_in unmeasured unmeasured s'" using net__read_safe [OF r] 1(2) by simp
  then have u: "unmeasured (in_packet s')" by (simp add: safe_in_def)
  have c: "client_ok s'" using s' by (simp add: safe_in_def between_cases)
  show ?case
  proof (cases "\<exists>b. r = Some [b]")
    case False
    then have "read_length_loop s = (Some (read_stopped r s'), s')"
      using r by (subst read_length_loop.simps) (auto split: option.split list.split)
    then show ?thesis using stage_stopped [OF c] by simp
  next
    case True
    then obtain b where b: "net__read 1 s = (Some [b], s')" using r by auto
    let ?t = "update_in count_length_byte s'" and ?u = "update_in (take_length_byte b) (update_in count_length_byte s')"
    have t: "broken_ok ?t" by (rule safe_in_update_in [OF s']) simp_all
    show ?thesis
    proof (cases "p_remaining_count (in_packet ?t) < -4")
      case over: True
      then have "read_length_loop s = (Some (Err MOSQ_ERR_MALFORMED_PACKET), ?t)"
        using b by (subst read_length_loop.simps) simp
      then show ?thesis using t by simp
    next
      case fits: False
      then have "measured (take_length_byte b (count_length_byte (in_packet s')))"
        using u by (intro length_byte_ok) (simp_all add: update_in_def)
      then have m: "measured (in_packet ?u)" by (simp add: update_in_def)
      have w: "safe_in measured measured ?u" "safe_in unmeasured unmeasured ?u"
        by (rule safe_in_update_in [OF t]; use m measured_unmeasured [OF m] in \<open>simp add: update_in_def\<close>)+
      show ?thesis
      proof (cases "b AND 128 \<noteq> 0")
        case more: True
        have "read_length_loop s = read_length_loop ?u"
          using b fits more by (subst read_length_loop.simps) simp
        moreover have "stage_ok measured (read_length_loop ?u)"
          using 1(1) [OF b [symmetric] refl refl refl refl fits refl more w(2)] .
        ultimately show ?thesis by simp
      next
        case last: False
        then have "read_length_loop s = (None, ?u)"
          using b fits by (subst read_length_loop.simps) simp
        then show ?thesis using w(1) by simp
      qed
    qed
  qed
qed


lemma measured_collecting:
  assumes "measured p"
  shows "p_remaining_length p = 0 \<Longrightarrow> collecting (p\<lparr>p_remaining_count := - p_remaining_count p\<rparr>)"
    "collecting (p\<lparr>p_remaining_count := - p_remaining_count p, p_payload := fresh_bytes h (unat (p_remaining_length p)),
       p_to_process := p_remaining_length p\<rparr>)"
proof -
  obtain k where k: "p_pos p = 0" "p_to_process p = 0" "1 \<le> k" "k \<le> 4" "length_part k p"
    using assms by (auto simp: measured_def)
  then have "unat (p_remaining_length p) < 128 ^ k" by (simp add: length_part_def)
  also have "(128 :: nat) ^ k \<le> 128 ^ 4" using k(4) by (intro power_increasing) simp_all
  finally show "p_remaining_length p = 0 \<Longrightarrow> collecting (p\<lparr>p_remaining_count := - p_remaining_count p\<rparr>)"
    "collecting (p\<lparr>p_remaining_count := - p_remaining_count p, p_payload := fresh_bytes h (unat (p_remaining_length p)),
       p_to_process := p_remaining_length p\<rparr>)"
    using k by (simp_all add: collecting_def length_part_def)
qed

lemma length_complete_ok:
  assumes "safe_in measured measured s"
  shows "case length_complete s of (r, s') \<Rightarrow> (case r of Ok _ \<Rightarrow> safe_in collecting collecting s'
    | Err e \<Rightarrow> broken_ok s' \<and> e \<noteq> MOSQ_ERR_SUCCESS | Fault \<Rightarrow> False)"
proof -
  let ?t = "update_in (\<lambda>p. p\<lparr>p_remaining_count := - p_remaining_count p\<rparr>) s"
  have m: "measured (in_packet s)" using assms by (simp add: safe_in_def)
  have t: "broken_ok ?t" by (rule safe_in_update_in [OF assms]) simp_all
  have p: "in_packet ?t = (in_packet s)\<lparr>p_remaining_count := - p_remaining_count (in_packet s)\<rparr>"
    by (simp add: update_in_def)
  show ?thesis
  proof (cases "p_remaining_length (in_packet s) > 0")
    case False
    then have "p_remaining_length (in_packet s) = 0" by (simp add: word_gt_0)
    then have "collecting (in_packet ?t)" using measured_collecting(1) [OF m] p by simp
    then have "safe_in collecting collecting ?t" by (intro safe_in_strengthen [OF t])
    then show ?thesis using False p by (simp add: length_complete_def modify_then then_do_get_st ret_def)
  next
    case True
    obtain ok h where h: "alloc (e_heap ?t) = (ok, h)" by fastforce
    let ?u = "update_in (\<lambda>p. p\<lparr>p_payload := fresh_bytes h (unat (p_remaining_length (in_packet s))),
      p_to_process := p_remaining_length (in_packet s)\<rparr>) (?t\<lparr>e_heap := h\<rparr>)"
    have th: "broken_ok (?t\<lparr>e_heap := h\<rparr>)" using t by simp
    have "collecting (in_packet ?u)" using measured_collecting(2) [OF m, of h] by (simp add: update_in_def)
    then have "safe_in collecting collecting ?u"
      by (intro safe_in_strengthen [OF safe_in_update_in [OF th, of anything _ anything]]) simp_all
    moreover have "length_complete s = (if ok then (Ok (), ?u) else (Err MOSQ_ERR_NOMEM, ?t\<lparr>e_heap := h\<rparr>))"
      using True h by (simp add: length_complete_def modify_then then_do_get_st need_memory_then Let_def
        update_in_def modify_def)
    ultimately show ?thesis using th by simp
  qed
qed


lemma read_length_ok:
  assumes "safe_in between between s"
  shows "stage_ok collecting (read_length s)"
proof (cases "p_remaining_count (in_packet s) \<le> 0")
  case False
  then have "collecting (in_packet s)" using assms
    by (auto simp: safe_in_def between_def length_part_def)
  then show ?thesis using False safe_in_strengthen [OF assms] by (simp add: read_length_def)
next
  case True
  have "between (in_packet s)" using assms by (simp add: safe_in_def)
  then have "unmeasured (in_packet s)" using True by (rule between_not_counting)
  then have l: "stage_ok measured (read_length_loop s)"
    by (intro read_length_loop_ok safe_in_strengthen [OF assms])
  obtain r s' where r: "read_length_loop s = (r, s')" by fastforce
  show ?thesis
  proof (cases r)
    case None
    obtain x s'' where x: "length_complete s' = (x, s'')" by fastforce
    have "safe_in measured measured s'" using l r None by simp
    from length_complete_ok [OF this] show ?thesis
      using True r None x by (cases x) (simp_all add: read_length_def)
  next
    case (Some x)
    then show ?thesis using True r l by (cases x) (simp_all add: read_length_def)
  qed
qed

text \<open>The payload.\<close>

definition collected :: "mosquitto__packet \<Rightarrow> bool" where
  "collected p = (unat (p_remaining_length p) < 2 ^ 28 \<and> unat (p_remaining_length p) \<le> length (p_payload p))"

lemma collecting_collected: "collecting p \<Longrightarrow> collected p"
  by (simp add: collecting_def collected_def)

lemma collecting_store:
  assumes "collecting p" "length bs \<le> unat (p_to_process p)"
  shows "collecting (store_chunk bs p)"
proof -
  have p: "unat (p_remaining_length p) < 2 ^ 28"
    "unat (p_pos p) + unat (p_to_process p) = unat (p_remaining_length p)"
    "unat (p_remaining_length p) \<le> length (p_payload p)" "0 < p_remaining_count p"
    using assms(1) by (simp_all add: collecting_def)
  have "unat (word_of_nat (length bs) :: uint32) = length bs"
    using assms(2) p by (intro unat_of_nat_less) simp
  then have "unat (p_to_process p - word_of_nat (length bs)) = unat (p_to_process p) - length bs"
    using assms(2) unat_sub [of "word_of_nat (length bs)" "p_to_process p"] by (simp add: word_le_nat_alt)
  moreover have "unat (p_pos p + word_of_nat (length bs)) = unat (p_pos p) + length bs"
    using assms(2) p by (intro unat_add_word_of_nat) simp
  ultimately show ?thesis using p assms(2) by (simp add: collecting_def store_chunk_def)
qed

lemma payload_stopped_ok: "client_ok s \<Longrightarrow> client_ok (payload_stopped s)"
  by (simp add: payload_stopped_def)

lemma read_payload_loop_ok: "safe_in collecting collecting s \<Longrightarrow> stage_ok collected (read_payload_loop s)"
proof (induction s rule: read_payload_loop.induct)
  case (1 s)
  have col: "collecting (in_packet s)" using 1(2) by (simp add: safe_in_def)
  show ?case
  proof (cases "p_to_process (in_packet s) > 0")
    case False
    have "safe_in collected collected s"
      using collecting_collected [OF col] by (intro safe_in_strengthen [OF 1(2)])
    then show ?thesis using False by (subst read_payload_loop.simps) simp
  next
    case True
    have room: "\<not> length (p_payload (in_packet s)) < unat (p_pos (in_packet s)) + unat (p_to_process (in_packet s))"
      using col by (simp add: collecting_def)
    obtain r s' where r: "net__read (unat (p_to_process (in_packet s))) s = (r, s')" by fastforce
    have s': "safe_in collecting collecting s'" using net__read_safe [OF r] 1(2) by simp
    have c: "client_ok s'" using s' by (simp add: safe_in_def between_cases)
    show ?thesis
    proof (cases "\<exists>b bs. r = Some (b # bs)")
      case False
      then have "read_payload_loop s = (Some (errno_rc (e_errno s')), payload_stopped s')"
        using r True room by (subst read_payload_loop.simps) (auto split: option.split list.split)
      then show ?thesis using stage_errno [OF payload_stopped_ok [OF c]] by simp
    next
      case data: True
      then obtain b bs where b: "net__read (unat (p_to_process (in_packet s))) s = (Some (b # bs), s')"
        using r by auto
      have "collecting (store_chunk (b # bs) (in_packet s'))"
        using net__read_length [OF b] net__read_in_packet [OF b] col by (intro collecting_store) simp_all
      then have "safe_in collecting collecting (update_in (store_chunk (b # bs)) s')"
        by (intro safe_in_update_in [OF s'])
      from 1(1) [OF True room b [symmetric] refl refl this] show ?thesis
        using b True room by (subst read_payload_loop.simps) simp
    qed
  qed
qed

section \<open>A call of \<open>packet__read\<close>\<close>

text \<open>Success leaves the client between two calls; after an error the caller closes the socket.\<close>

definition read_ok :: "unit res \<times> mosquitto \<Rightarrow> bool" where
  "read_ok x = (case fst x of Ok _ \<Rightarrow> client_ok (snd x)
    | Err e \<Rightarrow> broken_ok (snd x) \<and> (e = MOSQ_ERR_SUCCESS \<longrightarrow> client_ok (snd x)) | Fault \<Rightarrow> False)"

lemma read_ok_simps [simp]:
  "read_ok (Ok u, s) = client_ok s" 
  "read_ok (Err e, s) = (broken_ok s \<and> (e = MOSQ_ERR_SUCCESS \<longrightarrow> client_ok s))"
  "read_ok (Fault, s) = False"
  by (simp_all add: read_ok_def)

lemma packet_complete_ok:
  assumes "safe_in collected collected s"
  shows "read_ok (packet_complete s)"
proof -
  let ?t = "update_in (\<lambda>p. p\<lparr>p_pos := 0\<rparr>) s"
  have "collected (in_packet s)" using assms by (simp add: safe_in_def)
  then have "safe_in readable anything ?t"
    by (intro safe_in_update_in [OF assms]) (simp_all add: collected_def readable_def)
  then have "good (safe_in readable anything) anything (rc_of handle__packet ?t)"
    by (rule tripleD [OF triple_rc_of [OF triple_handle_packet]])
  then show ?thesis
  proof (rule goodE)
    fix rc s'
    assume rc: "rc_of handle__packet ?t = (Ok rc, s')" "safe_in readable anything s'"
    have "client_ok (update_in packet__cleanup s')" by (rule safe_in_update_in [OF rc(2)]) simp_all
    then have "client_ok ((update_in packet__cleanup s')\<lparr>last_msg_in := e_now s'\<rparr>)" by simp
    moreover from this have "broken_ok ((update_in packet__cleanup s')\<lparr>last_msg_in := e_now s'\<rparr>)"
      by (rule client_ok_broken)
    ultimately show ?thesis using rc(1)
      by (simp add: packet_complete_def modify_then then_do_def return_rc_run modify_def)
  next
    fix e s'
    assume "rc_of handle__packet ?t = (Err e, s')"
    then show ?thesis by (auto simp: rc_of_def split: prod.splits res.splits)
  qed
qed

lemma packet__read_ok:
  assumes "client_ok s"
  shows "read_ok (packet__read s)"
proof -
  consider "sock s = INVALID_SOCKET \<or> mosquitto__get_state s = mosq_cs_connect_pending"
    | (run) "sock s \<noteq> INVALID_SOCKET" "mosquitto__get_state s \<noteq> mosq_cs_connect_pending" by blast
  then show ?thesis
  proof cases
    case 1
    then show ?thesis using assms client_ok_broken [OF assms] by (auto simp: packet__read_def)
  next
    case run
    then have "safe_in between between s" using assms by (simp add: safe_in_def)
    then have c: "stage_ok between (read_command s)" by (rule read_command_ok)
    obtain r1 s1 where r1: "read_command s = (r1, s1)" by fastforce
    obtain r2 s2 where r2: "read_length s1 = (r2, s2)" by fastforce
    obtain r3 s3 where r3: "read_payload_loop s2 = (r3, s3)" by fastforce
    have stop: "read_ok (r, t)" if "stage_ok P (Some r, t)" for P r t using that by (cases r) simp_all
    show ?thesis
    proof (cases r1)
      case n1: None
      then have l: "stage_ok collecting (r2, s2)" using c r1 r2 read_length_ok [of s1] by simp
      show ?thesis
      proof (cases r2)
        case n2: None
        then have p: "stage_ok collected (r3, s3)" using l r3 read_payload_loop_ok [of s2] by simp
        show ?thesis
        proof (cases r3)
          case None
          then show ?thesis using run r1 r2 r3 n1 n2 p packet_complete_ok [of s3] by (simp add: packet__read_def)
        qed (use run r1 r2 r3 n1 n2 p stop in \<open>auto simp: packet__read_def\<close>)
      qed (use run r1 r2 n1 l stop in \<open>auto simp: packet__read_def\<close>)
    qed (use run r1 c stop in \<open>auto simp: packet__read_def\<close>)
  qed
qed


section \<open>The loop\<close>

lemma triple_packet_write [triples]: "triple (safe_in J K) packet__write anything"
proof (rule tripleI)
  fix s
  assume s: "safe_in J K s"
  obtain r s' where r: "packet__write s = (r, s')" by fastforce
  have "out_ok s'" "out_frame s s'" "r \<noteq> Fault"
    using packet__write_ok [OF safe_inD(1) [OF s] r] by simp_all
  then show "good (safe_in J K) anything (packet__write s)"
    using safe_in_frame [of s s' J K] s r by (simp add: good_iff safe_in_def)
qed

lemma closed_client_ok: "broken_ok s \<Longrightarrow> client_ok (net__socket_close s)"
  by (simp add: safe_in_def held_ok_def out_ok_def packets_out_def net__socket_close_def)

lemma triple_loop_rc_handle:
  assumes "rc = MOSQ_ERR_SUCCESS \<Longrightarrow> client_ok s" "broken_ok s"
  shows "good client_ok anything (mosquitto__loop_rc_handle rc s)"
proof (cases "rc = MOSQ_ERR_SUCCESS")
  case True
  then show ?thesis using assms(1) by (simp add: mosquitto__loop_rc_handle_def ret_def)
next
  case False
  have "client_ok (net__socket_close s)" by (rule closed_client_ok [OF assms(2)])
  moreover have "triple client_ok (then_do get_st (\<lambda>mosq.
      let rc = (if mosquitto__get_state mosq \<in> {mosq_cs_disconnecting, mosq_cs_disconnected}
                then MOSQ_ERR_SUCCESS else rc) in
      then_do (modify (\<lambda>s. call_back on_disconnect_v5 (Ev_disconnect_v5 (rc_number rc) [])
        (call_back on_disconnect (Ev_disconnect (rc_number rc)) s))) (\<lambda>_.
      return_rc rc))) anything"
    unfolding Let_def by (intro triples) simp_all
  ultimately show ?thesis using False
    by (simp add: mosquitto__loop_rc_handle_def modify_then tripleD)
qed

lemma triple_loop_packets:
  assumes step: "\<And>s. client_ok s \<Longrightarrow> read_ok (step s)"
  shows "triple client_ok (loop_packets step n) anything"
proof (induction n)
  case (Suc n)
  show ?case
  proof (rule tripleI)
    fix s
    assume s: "client_ok s"
    obtain r t where st: "step s = (r, t)" by fastforce
    have ok: "read_ok (r, t)" using step [OF s] st by simp
    show "good client_ok anything (loop_packets step (Suc n) s)"
    proof (cases r)
      case (Ok u)
      then have t: "client_ok t" using ok by simp
      have "good client_ok anything (mosquitto__loop_rc_handle MOSQ_ERR_SUCCESS t)"
        using t client_ok_broken [OF t] by (intro triple_loop_rc_handle)
      then show ?thesis using Ok st t tripleD [OF Suc]
        by (simp add: then_do_def [of "rc_of step"] rc_of_def then_do_get_st)
    next
      case (Err e)
      then have t: "broken_ok t" using ok by simp
      have "good client_ok anything (mosquitto__loop_rc_handle e t)"
        using ok Err by (intro triple_loop_rc_handle) simp_all
      moreover have "good client_ok anything (loop_packets step n t)" if "e = MOSQ_ERR_SUCCESS"
        using that ok Err tripleD [OF Suc] by simp
      ultimately show ?thesis using Err st
        by (simp add: then_do_def [of "rc_of step"] rc_of_def then_do_get_st)
    qed (use ok in simp)
  qed
qed (simp add: triples)


lemma client_ok_read_ok: "good client_ok anything x \<Longrightarrow> read_ok x"
  by (erule goodE) (auto intro: client_ok_broken)

lemma triple_loop_read [triples]: "triple client_ok (mosquitto_loop_read n) anything"
  unfolding mosquitto_loop_read_def by (intro triples triple_loop_packets packet__read_ok)

lemma triple_loop_write [triples]: "triple client_ok (mosquitto_loop_write n) anything"
  unfolding mosquitto_loop_write_def
  by (intro triples triple_loop_packets client_ok_read_ok tripleD [OF triple_packet_write])

lemma triple_pingreq [triples]: "triple (safe_in J K) send__pingreq anything"
  unfolding send__pingreq_def by (intro triples) simp

lemma triple_check_keepalive [triples]: "triple (safe_in J K) mosquitto__check_keepalive anything"
  unfolding mosquitto__check_keepalive_def Let_def by (intro triples) simp_all

lemma triple_loop_misc [triples]: "triple (safe_in J K) mosquitto_loop_misc anything"
  unfolding mosquitto_loop_misc_def by (intro triples)

lemma triple_loop_ready [triples]:
  "triple I io anything \<Longrightarrow> triple I next anything \<Longrightarrow> triple I (loop_ready ready io next) anything"
  unfolding loop_ready_def by (intro triples)

lemma triple_loop [triples]: "triple client_ok (mosquitto_loop select timeout n) anything"
proof -
  have outcome: "triple client_ok (case o' of
         Select_Err e \<Rightarrow>
           then_do (modify (\<lambda>s. s\<lparr>e_errno := e\<rparr>)) (\<lambda>_.
           guard_err (e \<noteq> EINTR) MOSQ_ERR_ERRNO)
       | Select_Ready can_read woken can_write \<Rightarrow>
           loop_ready can_read (mosquitto_loop_read n)
             (loop_ready (woken \<and> sockpairR mosq \<noteq> INVALID_SOCKET \<or> can_write \<and> mosquitto_want_write mosq)
               (mosquitto_loop_write n) mosquitto_loop_misc)) anything" for o' mosq
    by (cases o') (simp_all, (intro triples; simp)+)
  show ?thesis unfolding mosquitto_loop_def Let_def by (intro triples outcome)
qed

end
