(* ===== verification/Session_Api.thy ===== *)
theory Session_Api
  imports Session_Loop
begin

text \<open>
  The calls of the application keep the invariant: publishing, subscribing, options, will and
  credentials, connecting and disconnecting. What the calls ask of their arguments is what C asks:
  buffers as long as they are said to be, strings that end in a NUL, properties that the library
  built, and strings that fit the two-byte lengths the protocol gives them.
\<close>

unbundle bit_operations_syntax

section \<open>Properties\<close>

definition lent :: "mosquitto_property list \<Rightarrow> bool" where
  "lent ps = (light ps \<and> list_all copyable ps)"

lemma light_Nil [simp]: "light []"
  by (simp add: light_def)

lemma value_generated [simp]: "value_enc (p\<lparr>pr_client_generated := b\<rparr>) = value_enc p"
  by (simp add: value_enc_def split: option.split mqtt5_property_type.split)

lemma prop_generated [simp]:
  "prop_ok (p\<lparr>pr_client_generated := b\<rparr>) = prop_ok p" "prop_enc (p\<lparr>pr_client_generated := b\<rparr>) = prop_enc p"
  "copyable (p\<lparr>pr_client_generated := b\<rparr>) = copyable p"
  by (simp_all add: prop_ok_def prop_enc_def copyable_def)

lemma light_outgoing: "light ps \<Longrightarrow> light (outgoing ps)"
  by (cases ps) (auto simp: outgoing_def light_def)

lemma lent_outgoing: "lent ps \<Longrightarrow> lent (outgoing ps)"
  by (cases ps) (auto simp: lent_def outgoing_def light_def)

lemma triple_lift_res: "r \<noteq> Fault \<Longrightarrow> triple I (lift_res r) anything"
  by (cases r) (simp_all add: lift_res_def triple_def)

lemma triple_check_outgoing:
  "triple I (check_outgoing command ps) (\<lambda>qs. qs = outgoing ps)"
  unfolding check_outgoing_def
  by (intro triples triple_then_do [OF triple_lift_res [OF check_all_no_fault]] triple_ret)
    (simp_all add: outgoing_def)

text \<open>Copying never faults on a list whose strings hold text, whatever allocations fail.\<close>

lemma triple_strdup:
  "c_string s \<Longrightarrow> triple anything (strdup (s_v s)) (\<lambda>v. s_v s = Some v)"
proof -
  assume "c_string s"
  then obtain v where v: "s_v s = Some v" "0 \<notin> set v" by (auto simp: c_string_def split: option.splits)
  then have "takeWhile (\<lambda>b. b \<noteq> 0) v = v" by (auto simp: takeWhile_eq_all_conv)
  then show ?thesis unfolding strdup_def v(1) option.case \<open>takeWhile _ v = v\<close>
    by (intro triple_with_alloc triple_ret) simp
qed

definition copy_of :: "mosquitto_property \<Rightarrow> mosquitto_property \<Rightarrow> bool" where
  "copy_of p q = (prop_ok q \<and> prop_enc q = prop_enc p)"

lemma triple_copy_property:
  assumes "prop_ok p" "copyable p"
  shows "triple anything (copy_property p) (copy_of p)"
proof -
  have ok: "string_ok (pr_s p)" "string_ok (pr_bin p)" "string_ok (pr_name p)" "unat (pr_varint p) < 2 ^ 28"
    using assms(1) by (simp_all add: prop_ok_def)
  obtain ty where ty: "property_type (pr_identifier p) = Some ty"
    using assms(2) by (auto simp: copyable_def)
  have s: "string_ok \<lparr>s_v = Some v, s_len = s_len s\<rparr> \<and> s_bytes \<lparr>s_v = Some v, s_len = s_len s\<rparr> = s_bytes s"
    if "string_ok s" "s_v s = Some v" for s v using that by (simp add: string_ok_def s_bytes_def)
  show ?thesis
  proof (cases ty)
    case MQTT_PROP_TYPE_STRING
    then have "c_string (pr_s p)" using assms(2) ty by (simp add: copyable_def)
    then show ?thesis using MQTT_PROP_TYPE_STRING ty ok s [OF ok(1)]
      by (auto simp: copy_property_def Let_def copy_of_def prop_ok_def prop_enc_def value_enc_def
          intro!: triple_with_alloc triple_then_do [OF triple_strdup] triple_ret)
  next
    case MQTT_PROP_TYPE_STRING_PAIR
    then have "c_string (pr_s p)" "c_string (pr_name p)" using assms(2) ty by (simp_all add: copyable_def)
    then show ?thesis using MQTT_PROP_TYPE_STRING_PAIR ty ok s [OF ok(1)] s [OF ok(3)]
      by (auto simp: copy_property_def Let_def copy_of_def prop_ok_def prop_enc_def value_enc_def
          intro!: triple_with_alloc triple_then_do [OF triple_strdup] triple_ret)
  next
    case MQTT_PROP_TYPE_BINARY
    define v where "v = (case s_v (pr_bin p) of None \<Rightarrow> [] | Some v \<Rightarrow> v)"
    have l: "unat (s_len (pr_bin p)) \<le> length v" using ok(2) by (simp add: string_ok_def s_bytes_def v_def)
    have b: "string_ok \<lparr>s_v = Some (take (unat (s_len (pr_bin p))) v), s_len = s_len (pr_bin p)\<rparr>"
      "s_bytes \<lparr>s_v = Some (take (unat (s_len (pr_bin p))) v), s_len = s_len (pr_bin p)\<rparr> = s_bytes (pr_bin p)"
      using l by (simp_all add: string_ok_def s_bytes_def v_def)
    show ?thesis using MQTT_PROP_TYPE_BINARY ty ok l b
      by (auto simp: copy_property_def Let_def copy_of_def prop_ok_def prop_enc_def value_enc_def v_def [symmetric]
          intro!: triple_with_alloc triple_ret)
  qed (use ty ok in \<open>auto simp: copy_property_def Let_def copy_of_def prop_ok_def prop_enc_def value_enc_def
          intro!: triple_with_alloc triple_ret\<close>)
qed

lemma triple_copy_all:
  "list_all prop_ok ps \<Longrightarrow> list_all copyable ps \<Longrightarrow>
   triple anything (mosquitto_property_copy_all ps) (\<lambda>qs. list_all prop_ok qs \<and> props_enc qs = props_enc ps)"
proof (induction ps)
  case (Cons p ps)
  then show ?case
    by (auto simp: copy_of_def intro!: triple_then_do [OF triple_copy_property] triple_then_do [OF Cons.IH] triple_ret)
qed (simp add: triple_ret)

lemma triple_copy_light:
  "lent ps \<Longrightarrow> triple (safe_in J K) (on_heap (mosquitto_property_copy_all ps)) light"
  by (rule triple_on_heap, rule triple_mono [OF triple_copy_all]) (auto simp: lent_def light_def)


section \<open>Publishing and subscribing\<close>

text \<open>A buffer as long as the call says.\<close>

definition sized :: "int \<Rightarrow> byte list \<Rightarrow> bool" where
  "sized n buffer = (n = int (length buffer) \<and> length buffer < 2 ^ 31)"

lemma sized_word: "sized n buffer \<Longrightarrow> unat (word_of_int n :: uint32) = length buffer"
  by (simp add: sized_def unsigned_of_nat take_bit_nat_eq_self)

lemma triple_copy_payload:
  assumes "sized n payload"
  shows "triple (safe_in J K) (copy_payload n payload) (\<lambda>v. v = payload)"
  unfolding copy_payload_def
  using assms sized_word [OF assms]
  by (auto simp: sized_def Let_def intro!: triples triple_then_do [OF triple_need_memory] triple_ret)

lemma pub_topic_short: "mosquitto_pub_topic_check (Some t) = Ok () \<Longrightarrow> short t"
  by (simp add: mosquitto_pub_topic_check_eq short_def split: if_splits)

lemma triple_check_publish_topic:
  "triple I (check_publish_topic topic n ps) (pred_option short)"
  unfolding check_publish_topic_def
  by (intro triple_then_do [OF triple_get_any])
    (auto intro!: triples triple_ret dest: pub_topic_short split: option.split list.split)

lemma triple_check_oversize [triples]: "triple I (check_oversize n) anything"
  unfolding check_oversize_def by (intro triples)

lemma triple_mid_generate [triples]: "triple (safe_in J K) mosquitto__mid_generate anything"
  by (rule tripleI) (simp add: mosquitto__mid_generate_def Let_def)


lemma triple_send_publish:
  assumes "sized n payload" "pred_option short topic" "sendable ps"
  shows "triple (safe_in J K) (send__publish mid topic (word_of_int n) payload qos retain dup ps [] 0) anything"
proof (rule tripleI)
  fix s
  assume s: "safe_in J K s"
  have "(word_of_int n :: uint32) = word_of_nat (length payload)" using assms(1) by (simp add: sized_def)
  then show "good (safe_in J K) anything
      (send__publish mid topic (word_of_int n) payload qos retain dup ps [] 0 s)"
    using since_good [OF good_publish [OF s assms(3,2)]] assms(1) by (simp add: sized_def)
qed

lemma triple_queue_publish:
  assumes "sized n payload" "pred_option short topic" "lent ps" "qos \<in> {1, 2}"
  shows "triple (safe_in J K) (queue_publish mid topic n payload qos retain ps) anything"
  unfolding queue_publish_def
proof (intro triple_then_do [OF triple_copy_light [OF assms(3)]] triple_bind [OF triple_need_memory]
    triple_bind [OF triple_if [OF triple_need_memory triple_ret_any]]
    triple_then_do [OF triple_copy_payload [OF assms(1)]] triple_bind [OF triple_get_any])
  fix qs v and mosq :: mosquitto
  assume "light qs" "v = payload"
  then have r: "resendable \<lparr>ma_properties = qs, ma_timestamp = e_now mosq, ma_state = mosq_ms_invalid, ma_dup = False,
        ma_msg = \<lparr>m_mid = uint mid, m_topic = topic, m_payload = v, m_payloadlen = n,
                  m_qos = qos, m_retain = retain\<rparr>\<rparr>"
    using assms(1,2,4) by (auto simp: resendable_def sized_def light_sendable)
  show "triple (safe_in J K) (message__queue \<lparr>ma_properties = qs, ma_timestamp = e_now mosq, ma_state = mosq_ms_invalid, ma_dup = False,
        ma_msg = \<lparr>m_mid = uint mid, m_topic = topic, m_payload = v, m_payloadlen = n,
                  m_qos = qos, m_retain = retain\<rparr>\<rparr> mosq_md_out) anything"
    using r assms(4) by (intro triple_message_queue) auto
qed

lemma triple_publish_v5 [triples]:
  assumes "sized n payload" "lent ps"
  shows "triple (safe_in J K) (mosquitto_publish_v5 topic n payload qos retain ps) anything"
proof -
  have p: "lent (outgoing ps)" by (rule lent_outgoing [OF assms(2)])
  have now: "triple (safe_in J K) (rc_of (send__publish mid t (word_of_int n) payload q r False (outgoing ps) [] 0)) anything"
    if "pred_option short t" for mid t q r
    using that p assms(1) by (intro triples triple_send_publish) (simp_all add: lent_def light_sendable)
  have later: "triple (safe_in J K) (rc_of (queue_publish mid t n payload qos r (outgoing ps))) anything"
    if "\<not> (qos < 0 \<or> 2 < qos)" "qos \<noteq> 0" "pred_option short t" for mid t r
    using that p assms(1) by (intro triples triple_queue_publish) auto
  show ?thesis
    unfolding mosquitto_publish_v5_def Let_def
    by (intro triple_bind [OF triple_get_any] triple_if triple_throw triple_then_do [OF triple_check_outgoing]
        triple_then_do [OF triple_check_publish_topic] triple_bind [OF triple_check_oversize]
        triple_bind [OF triple_mid_generate] triple_bind [OF _ triple_ret_any])
      (use now later in \<open>simp_all split: if_split\<close>)
qed

text \<open>Subscriptions: every filter passed the check, and together they fit a packet.\<close>

definition filters_ok :: "byte list list \<Rightarrow> bool" where
  "filters_ok ts = (list_all (\<lambda>t. 0 \<notin> set t) ts \<and> length (topics_enc [0] ts) < 2 ^ 26)"

lemma topics_enc_length: "length (topics_enc [b] ts) = length (topics_enc [c] ts)"
  "length (topics_enc [] ts) \<le> length (topics_enc [c] ts)"
  by (induction ts) simp_all

lemma sub_topic_short: "mosquitto_sub_topic_check (Some t) = Ok () \<Longrightarrow> 0 \<notin> set t \<Longrightarrow> short t"
  by (simp add: mosquitto_sub_topic_check_eq short_def split: if_splits)

lemma triple_check_filters:
  "list_all (\<lambda>t. 0 \<notin> set t) ts \<Longrightarrow> triple I (check_filters extra n ts) (\<lambda>_. list_all short ts)"
proof (induction ts arbitrary: n)
  case (Cons t ts)
  then have "triple I (check_filters extra m ts) (\<lambda>_. list_all short ts)" for m by simp
  then show ?case using Cons.prems sub_topic_short [of t]
    by (auto intro!: triples elim!: triple_mono)
qed (simp add: triple_ret)

lemma topics_body_less:
  assumes "sendable ps" "length (topics_enc opt ts) < 2 ^ 26"
  shows "length (topics_body proto mid ps opt ts) < 2 ^ 28"
  using assms sendable_enc(5) [OF assms(1)] by (auto simp: topics_body_def)

lemma triple_sends_mid:
  assumes "\<And>s. out_ok s \<Longrightarrow> sends take_mid s (bs s) (c s)"
  shows "triple (safe_in J K) c anything"
proof (rule tripleI)
  fix s
  assume s: "safe_in J K s"
  have "held_ok (take_mid s)" "in_packet (take_mid s) = in_packet s" "sock (take_mid s) = sock s"
    "msgs_in (take_mid s) = msgs_in s" "msgs_out (take_mid s) = msgs_out s"
    using s by (simp_all add: safe_in_def held_ok_def take_mid_def mosquitto__mid_generate_def Let_def)
  then show "good (safe_in J K) anything (c s)"
    using since_good [OF sends_since [OF assms s]] s by (simp add: safe_in_def)
qed

lemma triple_send_subscribe:
  assumes "sendable ps" "list_all short ts" "filters_ok ts"
  shows "triple (safe_in J K) (send__subscribe ts qos ps) anything"
    "triple (safe_in J K) (send__unsubscribe ts ps) anything"
proof -
  have "length (topics_enc [b] ts) < 2 ^ 26" "length (topics_enc [] ts) < 2 ^ 26" for b
    using assms(3) topics_enc_length(1) [of b ts 0] topics_enc_length(2) [of ts 0] by (simp_all add: filters_ok_def)
  note less = topics_body_less [OF assms(1) this(1)] topics_body_less [OF assms(1) this(2)]
  show "triple (safe_in J K) (send__subscribe ts qos ps) anything"
    by (rule triple_sends_mid, rule sends_subscribe, assumption) (use assms less in simp_all)
  show "triple (safe_in J K) (send__unsubscribe ts ps) anything"
    by (rule triple_sends_mid, rule sends_unsubscribe, assumption) (use assms less in simp_all)
qed

lemma triple_subscribe [triples]:
  assumes "lent ps" "filters_ok ts"
  shows "triple (safe_in J K) (mosquitto_subscribe_multiple ts qos options ps) anything"
    "triple (safe_in J K) (mosquitto_unsubscribe_multiple ts ps) anything"
proof -
  have p: "sendable (outgoing ps)" using lent_outgoing [OF assms(1)] by (simp add: lent_def light_sendable)
  have z: "list_all (\<lambda>t. 0 \<notin> set t) ts" using assms(2) by (simp add: filters_ok_def)
  show "triple (safe_in J K) (mosquitto_subscribe_multiple ts qos options ps) anything"
    "triple (safe_in J K) (mosquitto_unsubscribe_multiple ts ps) anything"
    unfolding mosquitto_subscribe_multiple_def mosquitto_unsubscribe_multiple_def Let_def
    by (intro triple_bind [OF triple_get_any] triple_if triple_throw triple_then_do [OF triple_check_outgoing]
        triple_then_do [OF triple_check_filters [OF z]] triple_bind [OF triple_check_oversize];
        simp add: triple_send_subscribe p assms)+
qed


section \<open>Will, credentials and options\<close>

lemma safe_in_identity [simp]:
  "safe_in J K s \<Longrightarrow> pred_option short v \<Longrightarrow> safe_in J K (s\<lparr>client_id := v\<rparr>)"
  "safe_in J K s \<Longrightarrow> pred_option short v \<Longrightarrow> safe_in J K (s\<lparr>username := v\<rparr>)"
  "safe_in J K s \<Longrightarrow> pred_option short v \<Longrightarrow> safe_in J K (s\<lparr>password := v\<rparr>)"
  "safe_in J K s \<Longrightarrow> pred_option will_held w \<Longrightarrow> safe_in J K (s\<lparr>will := w\<rparr>)"
  "safe_in J K s \<Longrightarrow> light ps \<Longrightarrow> safe_in J K (s\<lparr>connect_properties := ps\<rparr>)"
  by (simp_all add: safe_in_def held_ok_def out_ok_def packets_out_def)

lemma safe_in_option [simp]:
  "safe_in J K (s\<lparr>host := h\<rparr>) = safe_in J K s" "safe_in J K (s\<lparr>port := n\<rparr>) = safe_in J K s"
  "safe_in J K (s\<lparr>bind_address := h\<rparr>) = safe_in J K s" "safe_in J K (s\<lparr>tcp_nodelay := b\<rparr>) = safe_in J K s"
  "safe_in J K (s\<lparr>request_disconnect := b\<rparr>) = safe_in J K s"
  "safe_in J K (s\<lparr>reconnect_delay := d\<rparr>) = safe_in J K s" "safe_in J K (s\<lparr>reconnect_delay_max := d\<rparr>) = safe_in J K s"
  "safe_in J K (s\<lparr>reconnect_exponential_backoff := b\<rparr>) = safe_in J K s"
  "safe_in J K (s\<lparr>cbs := c\<rparr>) = safe_in J K s" "safe_in J K (s\<lparr>e_now := t\<rparr>) = safe_in J K s"
  "safe_in J K (s\<lparr>e_sends := ss\<rparr>) = safe_in J K s"
  by (simp_all add: safe_in_def held_ok_def out_ok_def packets_out_def)

lemma safe_in_state [simp]:
  "safe_in J K (mosquitto__set_state st s) = safe_in J K s"
  "safe_in J K (mosquitto__set_request_disconnect b s) = safe_in J K s"
  by (simp_all add: mosquitto__set_state_def mosquitto__set_request_disconnect_def)

lemma safe_in_protocol [simp]:
  "safe_in J K s \<Longrightarrow> v \<in> {mosq_p_mqtt31, mosq_p_mqtt311, mosq_p_mqtt5} \<Longrightarrow> safe_in J K (s\<lparr>protocol := v\<rparr>)"
  by (simp add: safe_in_def held_ok_def out_ok_def packets_out_def)

lemma safe_in_maximum [simp]:
  "safe_in J K (update_msgs dir (\<lambda>d. d\<lparr>inflight_maximum := v\<rparr>) s) = safe_in J K s"
  by (cases dir) (simp_all add: safe_in_def held_ok_def update_msgs_def out_ok_def packets_out_def)

lemma triple_check_will_properties: "triple I (check_will_properties ps) anything"
proof (induction ps)
  case (Cons p ps)
  have "mosquitto_property_check_command CMD_WILL (pr_identifier p) \<noteq> Fault"
    by (simp add: mosquitto_property_check_command_def)
  then show ?case using Cons by (auto intro!: triples triple_lift_res)
qed (simp add: triple_ret)

lemma triple_will_set [triples]:
  assumes "light ps" "sized n (case payload of None \<Rightarrow> [] | Some v \<Rightarrow> v)" "pred_option short payload"
  shows "triple (safe_in J K) (mosquitto_will_set_v5 topic n payload qos retain ps) anything"
proof -
  let ?v = "case payload of None \<Rightarrow> [] | Some v \<Rightarrow> v"
  have new: "safe_in J K (s\<lparr>will := Some \<lparr>ma_properties = ps, ma_timestamp = 0, ma_state = mosq_ms_invalid, ma_dup = False,
        ma_msg = \<lparr>m_mid = 0, m_topic = Some t, m_payload = ?v, m_payloadlen = n, m_qos = qos, m_retain = retain\<rparr>\<rparr>\<rparr>)"
    if "safe_in J K s" "short t" for s t
    using that assms by (intro safe_in_identity)
      (auto simp: will_held_def will_ok_def sized_def light_sendable short_def split: option.splits)
  have set: "triple (safe_in J K) (will__set topic n payload qos retain ps) anything"
    unfolding will__set_def
    by (intro triples triple_check_will_properties triple_bind [OF triple_check_will_properties]
        triple_then_do [OF triple_copy_payload [OF assms(2)]])
      (auto intro!: new dest: pub_topic_short)
  show ?thesis unfolding mosquitto_will_set_v5_def
    by (intro triple_bind triple_if triple_lift_res check_all_no_fault triple_ret_any set)
qed

lemma triple_will_clear [triples]: "triple (safe_in J K) mosquitto_will_clear anything"
  unfolding mosquitto_will_clear_def will__clear_def by (intro triples) simp

lemma triple_username_pw_set [triples]:
  assumes "pred_option short pw"
  shows "triple (safe_in J K) (mosquitto_username_pw_set u pw) anything"
proof -
  have pw: "triple (safe_in J K) (\<lambda>s. case need_memory s of
         (Ok _, s') \<Rightarrow> (Ok (), s'\<lparr>password := pw\<rparr>)
       | (Err e, s') \<Rightarrow> (Err e, s'\<lparr>username := None\<rparr>)
       | (Fault, s') \<Rightarrow> (Fault, s')) anything"
  proof (rule tripleI)
    fix s
    assume "safe_in J K s"
    then have "good (safe_in J K) anything (need_memory s)" by (rule tripleD [OF triple_need_memory])
    then show "good (safe_in J K) anything (case need_memory s of
         (Ok _, s') \<Rightarrow> (Ok (), s'\<lparr>password := pw\<rparr>)
       | (Err e, s') \<Rightarrow> (Err e, s'\<lparr>username := None\<rparr>)
       | (Fault, s') \<Rightarrow> (Fault, s'))"
      by (rule goodE) (use assms in simp_all)
  qed
  show ?thesis unfolding mosquitto_username_pw_set_def
    by (intro triple_bind triple_get_any triple_if triple_option triple_throw triple_ret_any triple_need_memory
        triple_modify pw) (auto simp: short_def)
qed

lemma triple_int_option [triples]: "triple (safe_in J K) (mosquitto_int_option option v) anything"
  unfolding mosquitto_int_option_def by (cases option; simp only: mosq_opt.case; intro triples; simp)

lemma triple_delay_set [triples]: "triple (safe_in J K) (mosquitto_reconnect_delay_set d m b) anything"
  unfolding mosquitto_reconnect_delay_set_def by (intro triples) simp

section \<open>Disconnecting\<close>

lemma triple_disconnect_v5 [triples]:
  assumes "light ps"
  shows "triple (safe_in J K) (mosquitto_disconnect_v5 reason ps) anything"
  unfolding mosquitto_disconnect_v5_def
  by (intro triple_bind [OF triple_get_any] triple_if triple_throw triple_then_do [OF triple_check_outgoing]
      triple_bind [OF triple_modify] triple_send_disconnect)
    (use light_outgoing [OF assms] in \<open>simp_all add: light_sendable\<close>)


section \<open>Connecting\<close>

lemma triple_connect_local_props:
  "triple (safe_in J K) (connect_local_props ps) (\<lambda>lp. list_all prop_ok lp \<and> length (props_enc lp) \<le> 3)"
proof -
  have varint_33: "varint_enc 33 = [33]" by (subst varint_enc.simps) simp
  have add: "triple anything (mosquitto_property_add_int16 (Some []) MQTT_PROP_RECEIVE_MAXIMUM v)
      (\<lambda>lp. list_all prop_ok lp \<and> length (props_enc lp) \<le> 3)" for v
    by (auto simp: mosquitto_property_add_int16_def property_type_def property__add_def prop_ok_def prop_enc_def
        value_enc_def varint_33 intro!: triple_with_alloc triple_ret triple_throw)
  have limit: "safe_in J K (s\<lparr>msgs_in := (msgs_in s)\<lparr>inflight_maximum := v, inflight_quota := uint v\<rparr>\<rparr>)"
    if "safe_in J K s" for s and v :: uint16
    using that uint_lt2p [of v] by (simp add: safe_in_def held_ok_def out_ok_def packets_out_def counters_ok_def)
  show ?thesis unfolding connect_local_props_def
    by (intro triple_bind [OF triple_get_any] triple_if triple_option triple_prod triple_bind [OF triple_modify]
        triple_on_heap add limit triple_ret) simp_all
qed

lemma connect_payload_less:
  assumes "held_ok s"
  shows "length (connect_payload s) + 32 < 2 ^ 27"
proof -
  note h = held_okD [OF assms]
  have c: "length (enc_field (case client_id s of None \<Rightarrow> [] | Some v \<Rightarrow> v)) < 65538"
    using h(2) by (cases "client_id s") (simp_all add: length_enc_field short_def)
  have w: "length (will_enc s) < 2 ^ 26 + 2 * 65538 + 4"
  proof (cases "will s")
    case (Some w)
    then have w: "light (ma_properties w)" "will_ok w" using h(5) by (simp_all add: will_held_def)
    then have "length (opt_enc (m_topic (ma_msg w))) < 65538" "length (enc_field (m_payload (ma_msg w))) < 65538"
      by (auto simp: will_ok_def short_def length_enc_field opt_enc_def)
    moreover have "length (proplist_enc (ma_properties w)) < 2 ^ 26 + 4"
      using w(1) varint_le4 [of "length (props_enc (ma_properties w))"] by (simp add: light_def proplist_enc_def)
    ultimately show ?thesis using Some by (simp add: will_enc_def)
  qed (simp add: will_enc_def)
  show ?thesis using c w length_opt_enc [OF h(3)] length_opt_enc [OF h(4)] by (simp add: connect_payload_def)
qed

lemma triple_send_connect:
  assumes "light ps"
  shows "triple (safe_in J K) (send__connect ka clean ps) anything"
proof (rule tripleI)
  fix s
  assume s: "safe_in J K s"
  note h = held_okD [OF safe_inD(2) [OF s]]
  show "good (safe_in J K) anything (send__connect ka clean ps s)"
  proof (cases "protocol s = mosq_p_mqtt31 \<and> client_id s = None")
    case True
    then show ?thesis using s by (simp add: send__connect_def then_do_get_st throw_def)
  next
    case id31: False
    have lp: "good (safe_in J K) (\<lambda>lp. list_all prop_ok lp \<and> length (props_enc lp) \<le> 3) (connect_local_props ps s)"
      using s by (rule tripleD [OF triple_connect_local_props])
    then show ?thesis
    proof (rule goodE)
      fix lp s1
      assume l: "connect_local_props ps s = (Ok lp, s1)" "safe_in J K s1" "list_all prop_ok lp \<and> length (props_enc lp) \<le> 3"
      have p: "sendable (ps @ lp)" using assms l(3) by (simp add: light_def sendable_def)
      show ?thesis
      proof (cases "protocol s \<noteq> mosq_p_mqtt5 \<and> password s \<noteq> None \<and> username s = None")
        case True
        have "\<not> (case will s of None \<Rightarrow> False | Some w \<Rightarrow> m_topic (ma_msg w) = None)"
          using h(5) by (cases "will s") (auto simp: will_held_def will_ok_def)
        then have "send__connect ka clean ps s = then_do need_memory (\<lambda>_. throw MOSQ_ERR_INVAL) s1"
          using True id31 l(1) h(1)
          by (auto simp add: send__connect_def then_do_get_st then_do_def [of "connect_local_props ps"] Let_def)
        moreover have "triple (safe_in J K) (then_do need_memory (\<lambda>_. throw MOSQ_ERR_INVAL :: (mosquitto, unit) cmd)) anything"
          by (intro triples)
        ultimately show ?thesis using l(2) by (simp add: tripleD)
      next
        case False
        have "sends (\<lambda>t. t\<lparr>keepalive := ka\<rparr>) s1
            (packet_bytes CMD_CONNECT (connect_body s ka clean (ps @ lp))) (send__connect ka clean ps s)"
          by (rule sends_connect [OF safe_inD(1) [OF s] held_ok_identity [OF safe_inD(2) [OF s]] h(1) _ _ l(1) p
                connect_payload_less [OF safe_inD(2) [OF s]]]) (use id31 False in auto)
        then have "good (safe_since J K s1) anything (send__connect ka clean ps s)"
          using l(2) by (rule sends_since) (use l(2) in \<open>simp_all add: safe_in_def held_ok_def\<close>)
        then show ?thesis by (rule since_good)
      qed
    next
      fix e s1
      assume "connect_local_props ps s = (Err e, s1)" "safe_in J K s1"
      then show ?thesis using id31 by (auto simp: send__connect_def then_do_get_st then_do_def [of "connect_local_props ps"])
    qed
  qed
qed

text \<open>
  Opening the socket, \<open>net__socket_connect\<close>, is outside the model: it does not fault and changes
  the descriptor and \<open>errno\<close> only.
\<close>

definition opens_socket :: "(mosquitto, mosq_err) cmd \<Rightarrow> bool" where
  "opens_socket connect = (\<forall>s. fst (connect s) \<noteq> Fault \<and> (\<exists>k e. snd (connect s) = s\<lparr>sock := k, e_errno := e\<rparr>))"

lemma safe_in_sock: "safe_in between between s \<Longrightarrow> safe_in between between (s\<lparr>sock := k, e_errno := e\<rparr>)"
  by (simp add: safe_in_def held_ok_def out_ok_def packets_out_def)

lemma triple_opens_socket:
  assumes "opens_socket connect"
  shows "triple (safe_in between between) connect anything"
proof (rule tripleI)
  fix s
  assume s: "safe_in between between s"
  obtain k e where "snd (connect s) = s\<lparr>sock := k, e_errno := e\<rparr>" "fst (connect s) \<noteq> Fault"
    using assms unfolding opens_socket_def by blast
  then show "good (safe_in between between) anything (connect s)"
    using safe_in_sock [OF s, of e k] by (cases "connect s") (simp add: good_iff)
qed

lemma safe_in_cleanup_all [simp]:
  "safe_in J K s \<Longrightarrow> safe_in between between (packet__cleanup_all s)"
  by (simp add: safe_in_def held_ok_def out_ok_def packets_out_def packet__cleanup_all_def)


lemma triple_open_connection:
  assumes "opens_socket connect" "light ps"
  shows "triple (safe_in between between) (open_connection connect ps) anything"
proof -
  have fail: "safe_in between between ((if rc = MOSQ_ERR_SUCCESS then id
       else (\<lambda>s. mosquitto__set_state mosq_cs_new (net__socket_close (packet__cleanup_all s)))) s)"
    if "safe_in between between s" for s and rc :: mosq_err using that by simp
  show ?thesis unfolding open_connection_def
    by (intro triples triple_opens_socket [OF assms(1)] triple_send_connect [OF assms(2)] fail) simp_all
qed

lemma safe_in_drop: "client_ok s \<Longrightarrow> safe_in between between (drop_connection s)"
  unfolding drop_connection_def
  by (intro safe_in_close safe_in_reset safe_in_cleanup_all [of anything anything] safe_in_update_in [of anything between])
    simp_all

lemma triple_reconnect [triples]:
  assumes "opens_socket connect"
  shows "triple client_ok (mosquitto__reconnect connect) anything"
proof (rule tripleI)
  fix s
  assume s: "client_ok s"
  then have props: "light (outgoing (connect_properties s))"
    by (intro light_outgoing) (simp add: safe_in_def held_ok_def)
  have "triple client_ok (then_do (modify drop_connection) (\<lambda>_. open_connection connect (outgoing (connect_properties s)))) anything"
    by (rule triple_enter [OF safe_in_drop triple_open_connection [OF assms props]]) (simp_all add: safe_in_def)
  then have "triple client_ok (then_do (check_outgoing CMD_CONNECT (connect_properties s)) (\<lambda>ps.
      then_do (modify drop_connection) (\<lambda>_. open_connection connect ps))) anything"
    by (intro triple_then_do [OF triple_check_outgoing]) simp
  then show "good client_ok anything (mosquitto__reconnect connect s)"
    using s by (simp add: mosquitto__reconnect_def then_do_get_st throw_def tripleD)
qed

lemma triple_bind_to [triples]: "triple (safe_in J K) (bind_to v) anything"
  unfolding bind_to_def by (intro triples) simp_all

lemma triple_set_connect_properties [triples]:
  assumes "lent ps"
  shows "triple (safe_in J K) (set_connect_properties ps) anything"
proof -
  have first: "light (case qs of [] \<Rightarrow> [] | p # ps \<Rightarrow> p\<lparr>pr_client_generated := True\<rparr> # ps)" if "light qs" for qs
    using that by (cases qs) (simp_all add: light_def)
  show ?thesis unfolding set_connect_properties_def
    by (intro triple_bind [OF triple_modify] triple_list triple_ret_any triple_bind [OF triple_lift_res]
        check_all_no_fault triple_then_do [OF triple_copy_light [OF assms]] triple_modify)
      (simp_all add: first)
qed

lemma safe_in_connect_init:
  assumes "safe_in J K s"
  shows "safe_in J K (s\<lparr>host := h, port := n, keepalive := ka,
        msgs_in := (msgs_in s)\<lparr>inflight_quota := uint (inflight_maximum (msgs_in s))\<rparr>,
        msgs_out := (msgs_out s)\<lparr>inflight_quota := uint (inflight_maximum (msgs_out s))\<rparr>,
        retain_available := 1, request_disconnect := False\<rparr>)"
  using assms uint_lt2p [of "inflight_maximum (msgs_in s)"] uint_lt2p [of "inflight_maximum (msgs_out s)"]
  by (simp add: safe_in_def held_ok_def out_ok_def packets_out_def counters_ok_def)

text \<open>\<open>util__random_bytes\<close> is asked for 18 bytes.\<close>

lemma triple_connect_init [triples]:
  assumes "pred_option (\<lambda>r. length r = 18) random"
  shows "triple (safe_in J K) (mosquitto__connect_init random h n ka) anything"
proof -
  have "short (case random of None \<Rightarrow> client_id_prefix | Some bytes \<Rightarrow> random_client_id bytes)"
    using assms by (cases random) (simp_all add: short_def client_id_prefix_def random_client_id_def)
  then show ?thesis unfolding mosquitto__connect_init_def
    by (intro triples safe_in_connect_init) simp_all
qed

lemma triple_connect [triples]:
  assumes "opens_socket connect" "pred_option (\<lambda>r. length r = 18) random" "lent ps"
  shows "triple client_ok (mosquitto_connect_bind_v5 connect random h n ka bind ps) anything"
    "triple client_ok (mosquitto_connect_bind_async connect random h n ka bind) anything"
  unfolding mosquitto_connect_bind_v5_def mosquitto_connect_bind_async_def
  by (intro triples assms; simp)+

section \<open>A new client\<close>

lemma safe_in_cleared: "client_ok (cleared clean s)"
  by (simp add: safe_in_def held_ok_def out_ok_def packets_out_def cleared_def counters_ok_def)

lemma safe_in_initialised: "client_ok s \<Longrightarrow> client_ok (initialised s)"
  by (simp add: safe_in_def held_ok_def out_ok_def packets_out_def initialised_def counters_ok_def no_messages_def)

lemma good_reinitialise:
  assumes "pred_option short new_id" "clean \<or> new_id \<noteq> None"
  shows "good client_ok anything (mosquitto_reinitialise new_id clean s)"
proof -
  have "triple client_ok (then_do (case new_id of
        None \<Rightarrow> ret ()
      | Some v \<Rightarrow>
          (if v = [] then throw MOSQ_ERR_INVAL
           else if \<not> valid_text v then throw MOSQ_ERR_MALFORMED_UTF8
           else then_do need_memory (\<lambda>_. modify (\<lambda>s. s\<lparr>client_id := new_id\<rparr>)))) (\<lambda>_. modify initialised)) anything"
    by (intro triples safe_in_initialised) (use assms in simp_all)
  then show ?thesis using assms(2) safe_in_cleared [of clean s]
    by (auto simp: mosquitto_reinitialise_def modify_then tripleD)
qed

lemma triple_reinitialise [triples]:
  assumes "pred_option short new_id"
  shows "triple client_ok (mosquitto_reinitialise new_id clean) anything"
proof (rule tripleI)
  fix s
  assume "client_ok s"
  then show "good client_ok anything (mosquitto_reinitialise new_id clean s)"
    using good_reinitialise [OF assms, of clean s]
    by (cases "clean \<or> new_id \<noteq> None") (simp_all add: mosquitto_reinitialise_def throw_def)
qed

section \<open>Whatever the application does\<close>

text \<open>
  A client in use: made by \<open>mosquitto_new\<close> in any environment, then any sequence of calls and of
  changes of the environment. The environment decides the outcome of every allocation, send, read
  and connection, and what the application does in its callbacks is not part of it.
\<close>

end
