(* ===== verification/Out_Properties.thy ===== *)
theory Out_Properties
  imports Loop Send_Connect
begin

text \<open>
  The output side: packets are framed, queued and written in order, and each send appends exactly
  the encoding of its packet. The theorems are stated over packet_mosq.c and the senders.
\<close>

unbundle bit_operations_syntax

section \<open>A client for the instances\<close>

definition memory :: heap where
  "memory = \<lparr>h_script = [], h_junk = \<lambda>_. 0\<rparr>"

definition raw_client :: mosquitto where
  "raw_client = \<lparr>sock = -1, sockpairR = -1, sockpairW = -1, maximum_packet_size = 0, protocol = mosq_p_mqtt311,
     client_id = None, username = None, password = None, keepalive = 60, last_mid = 0, cstate = mosq_cs_new,
     last_msg_in = 0, next_msg_out = 0, ping_t = 0, in_packet = zero_packet, current_out_packet = None,
     out_packet = [], out_packet_count = 0, will = None, aliases = [], clean_start = True, in_callback = False,
     msgs_in = no_messages, msgs_out = no_messages, cbs = no_callbacks, host = None, port = 1883,
     bind_address = None, reconnects = 0, reconnect_delay = 1, reconnect_delay_max = 1,
     reconnect_exponential_backoff = False, request_disconnect = False, threaded = mosq_ts_none,
     connect_properties = [], max_qos = 2, retain_available = 1, tcp_nodelay = False, e_heap = memory,
     e_now = 100, e_sends = [], e_recvs = [], e_errno = E_OK, e_wire = [], e_trace = []\<rparr>"

text \<open>A connected client whose socket takes \<open>n\<close> bytes in each of four calls.\<close>

definition online :: "nat \<Rightarrow> mosquitto" where
  "online n = raw_client\<lparr>sock := 5, cstate := mosq_cs_active, e_sends := replicate 4 (Send_Room n)\<rparr>"

lemma memory [simp]: "never_fails memory"
  by (simp add: memory_def never_fails_def)

lemma online_fields [simp]:
  "out_ok (online n)" "stream (online n) = []" "sock (online n) = 5" "e_heap (online n) = memory"
  "protocol (online n) = mosq_p_mqtt311" "maximum_packet_size (online n) = 0"
  by (simp_all add: online_def raw_client_def out_ok_def stream_def packets_out_def)

section \<open>Framing\<close>

text \<open>\<open>packet__alloc\<close> refuses exactly the remaining lengths that do not fit in four bytes of
  variable byte integer, reports a failed allocation, and otherwise leaves a buffer of the announced
  size that starts with the command byte and the shortest encoding of the remaining length, with
  room for exactly the remaining length.\<close>
lemma alloc_frames_packet:
  assumes "packet__alloc (p, h) = (r, (p', h'))"
  shows "(r = Err MOSQ_ERR_PAYLOAD_SIZE \<longleftrightarrow> 2 ^ 28 \<le> unat (p_remaining_length p)) \<and>
    (r = Err MOSQ_ERR_NOMEM \<longleftrightarrow> unat (p_remaining_length p) < 2 ^ 28 \<and> \<not> fst (alloc h)) \<and>
    (r = Ok () \<longrightarrow> writable p' \<and> room p' = unat (p_remaining_length p)
      \<and> written p' = p_command p # varint_enc (unat (p_remaining_length p))) \<and> r \<noteq> Fault"
  using packet__alloc_cases [of p h] assms by (auto split: if_splits)

lemma alloc_frames_packet_witness:
  "\<exists>p'. packet__alloc (zero_packet\<lparr>p_command := CMD_PINGREQ\<rparr>, memory) = (Ok (), (p', memory))
        \<and> written p' = CMD_PINGREQ # varint_enc 0"
proof -
  obtain r p' h' where e: "packet__alloc (zero_packet\<lparr>p_command := CMD_PINGREQ\<rparr>, memory) = (r, (p', h'))"
    by (metis prod.exhaust)
  moreover have "r = Ok () \<and> h' = memory"
    using e by (auto simp: packet__alloc_def zero_packet_def Let_def eval_nat_numeral)
  ultimately show ?thesis using alloc_frames_packet [OF e] by (auto simp: zero_packet_def)
qed

section \<open>The byte stream\<close>

text \<open>A packet that holds the bytes \<open>bs\<close>, as a sender hands it over.\<close>

definition full_packet :: "byte list \<Rightarrow> mosquitto__packet" where
  "full_packet bs = zero_packet
     \<lparr>p_payload := bs, p_packet_length := word_of_nat (length bs), p_pos := word_of_nat (length bs)\<rparr>"

lemma full_packet [simp]: "length bs < 2 ^ 32 \<Longrightarrow> complete (full_packet bs)" "p_payload (full_packet bs) = bs"
  by (simp_all add: full_packet_def complete_def writable_def room_def unsigned_of_nat take_bit_nat_eq_self)

text \<open>\<open>packet__queue\<close> puts a packet behind everything that is waiting: the bytes written and
  still to be written are extended by exactly the packet's, whatever the socket takes, whatever
  error it reports, and no message, quota or incoming packet is touched.\<close>
lemma queue_appends_packet:
  assumes "out_ok s" "complete p" "packet__queue p s = (r, s')"
  shows "out_ok s' \<and> stream s' = stream s @ p_payload p \<and> r \<noteq> Fault
    \<and> msgs_in s' = msgs_in s \<and> msgs_out s' = msgs_out s \<and> in_packet s' = in_packet s"
  using packet__queue_ok [OF assms] by (auto dest: out_frameD)

lemma queue_appends_packet_witness:
  "stream (snd (packet__queue (full_packet [0xC0, 0]) (online 1))) = [0xC0, 0]"
  using queue_appends_packet [OF _ _ surjective_pairing, of "online 1" "full_packet [0xC0, 0]"] by simp

text \<open>C7: \<open>packet__write\<close> moves bytes from the queue to the socket and nothing else: the stream of
  bytes written and waiting is unchanged for every sequence of partial and failed sends, the count
  of packets stays right, and no access leaves a buffer.\<close>
theorem write_keeps_stream:
  assumes "out_ok s" "packet__write s = (r, s')"
  shows "out_ok s' \<and> stream s' = stream s \<and> (\<exists>bs. e_wire s' @ bs = stream s) \<and> r \<noteq> Fault"
  using packet__write_ok [OF assms] by (auto simp: stream_def)

section \<open>A willing socket\<close>

text \<open>Every send takes at least one byte, and there are at least \<open>n\<close> of them.\<close>

definition willing :: "nat \<Rightarrow> mosquitto \<Rightarrow> bool" where
  "willing n s = (\<exists>ks. e_sends s = map Send_Room ks \<and> list_all (\<lambda>k. 0 < k) ks \<and> n \<le> length ks)"

lemma willing_online: "n \<le> 4 \<Longrightarrow> 0 < k \<Longrightarrow> willing n (online k)"
  unfolding willing_def by
    (rule exI [of _ "replicate 4 k"]) (simp add: online_def list_all_iff)

lemma willing_write:
  assumes "willing n s" "0 < n" "buf \<noteq> []"
  obtains k s' where "net__write buf s = (Some (Suc k), s')" "Suc k \<le> length buf"
    "e_wire s' = e_wire s @ take (Suc k) buf" "willing (n - 1) s'" "io_frame s s'"
proof -
  obtain m ks where e: "e_sends s = Send_Room (Suc m) # map Send_Room ks" "list_all (\<lambda>k. 0 < k) ks" "n \<le> Suc (length ks)"
    using assms(1,2) unfolding willing_def by (metis (no_types, lifting) gr0_conv_Suc le_zero_eq length_0_conv
      length_Cons list.exhaust list.map(2) list.pred_inject(2) not_gr_zero)
  define k where "k = min m (length buf - 1)"
  have k: "min (Suc m) (length buf) = Suc k" using assms(3) by (cases buf) (auto simp: k_def)
  let ?s' = "s\<lparr>e_errno := E_OK, e_sends := map Send_Room ks, e_wire := e_wire s @ take (Suc m) buf\<rparr>"
  have "net__write buf s = (Some (Suc k), ?s')"
    using e k by (simp add: net__write_def Let_def)
  moreover have "take (Suc m) buf = take (Suc k) buf" using k by (metis take_all_iff min_def order_refl nat_le_linear)
  moreover have "willing (n - 1) ?s'" using e by (auto simp: willing_def)
  ultimately show thesis using that [of k ?s'] k io_frame_intros(3) [of s] by simp
qed

lemma send_loop_willing:
  assumes "queued_ok p" "length (unsent p) \<le> n" "willing n s"
  shows "\<exists>p' s'. send_loop p s = (None, p', s') \<and> e_wire s' = e_wire s @ unsent p
    \<and> willing (n - length (unsent p)) s' \<and> io_frame s s'"
  using assms
proof (induction "length (unsent p)" arbitrary: p n s rule: less_induct)
  case less
  show ?case
  proof (cases "p_to_process p = 0")
    case True
    then have "unsent p = []" using less.prems(1) by (simp add: queued_ok_def unsent_def)
    then show ?thesis using less.prems True by (simp add: send_loop_done io_frame_refl)
  next
    case False
    then have p: "0 < p_to_process p" "unat (p_pos p) + unat (p_to_process p) \<le> length (p_payload p)"
      using less.prems(1) by (simp_all add: word_neq_0_conv queued_ok_def)
    have ne: "unsent p \<noteq> []" "0 < n"
      using p less.prems(1,2) by (auto simp: queued_ok_def unsent_def word_less_nat_alt)
    obtain k s1 where w: "net__write (unsent p) s = (Some (Suc k), s1)" "Suc k \<le> length (unsent p)"
      "e_wire s1 = e_wire s @ take (Suc k) (unsent p)" "willing (n - 1) s1" "io_frame s s1"
      using willing_write [OF less.prems(3) ne(2,1)] by blast
    define q where "q = p\<lparr>p_to_process := p_to_process p - word_of_nat (Suc k), p_pos := p_pos p + word_of_nat (Suc k)\<rparr>"
    have le: "Suc k \<le> unat (p_to_process p)" using w(2) less.prems(1) by (auto simp: unsent_def queued_ok_def)
    note q = queued_ok_step [OF less.prems(1) le, folded q_def]
    have st: "send_loop p s = send_loop q s1"
      using send_loop_step [OF p, unfolded unsent_sub [OF less.prems(1)], OF w(1)] by (simp add: q_def)
    have l: "length (unsent q) < length (unsent p)" "length (unsent q) \<le> n - 1"
      using q(2) ne less.prems(2) w(2) by simp_all
    obtain p' s' where r: "send_loop q s1 = (None, p', s')" "e_wire s' = e_wire s1 @ unsent q"
      "willing (n - 1 - length (unsent q)) s'" "io_frame s1 s'"
      using less.hyps [OF l(1) q(1) l(2) w(4)] by blast
    have "willing (n - length (unsent p)) s'"
      using r(3) q(2) w(2) less.prems(2) unfolding willing_def by fastforce
    then show ?thesis using st r w(3,5) q(2) io_frame_trans by (auto simp: append_take_drop_id)
  qed
qed

text \<open>DISCONNECT closes the socket once written; no other packet stops the loop.\<close>

definition ends_connection :: "mosquitto__packet \<Rightarrow> bool" where
  "ends_connection p = (p_command p AND 0xF6 \<noteq> CMD_PUBLISH \<and> p_command p AND 0xF0 = CMD_DISCONNECT)"

lemma willing_steps [simp]:
  "willing n (call_back cb ev s) = willing n s" "willing n (touch_out s) = willing n s"
  "willing n (next_packet s) = willing n s" "willing n (s\<lparr>current_out_packet := c\<rparr>) = willing n s"
  "e_wire (next_packet s) = e_wire s" "e_wire (touch_out s) = e_wire s"
  by (simp_all add: willing_def call_back_def touch_out_def next_packet_def split: list.split)

lemma packets_out_next [simp]: "packets_out (next_packet s) = out_packet s"
  by (simp add: packets_out_def next_packet_def split: list.split)

lemma packet_sent_willing [simp]:
  "willing n (packet_sent p s) = willing n s" "e_wire (packet_sent p s) = e_wire s"
  "packets_out (packet_sent p s) = out_packet s"
  by (simp_all add: packet_sent_def Let_def)

lemma write_loop_willing:
  assumes "out_ok s" "current_out_packet s = None \<longrightarrow> out_packet s = []"
    "willing (length (concat (map unsent (packets_out s)))) s"
    "list_all (\<lambda>p. \<not> ends_connection p) (packets_out s)"
  shows "\<exists>s'. write_loop s = (Ok (), s') \<and> packets_out s' = [] \<and> e_wire s' = stream s"
  using assms
proof (induction "length (packets_out s)" arbitrary: s rule: less_induct)
  case less
  show ?case
  proof (cases "current_out_packet s")
    case None
    then show ?thesis using less.prems(2) by (simp add: write_loop_none packets_out_def stream_def)
  next
    case (Some p)
    have po: "packets_out s = p # out_packet s" using Some by (simp add: packets_out_def)
    then have q: "queued_ok p" using less.prems(1) by (simp add: out_ok_def)
    have le: "length (unsent p) \<le> length (concat (map unsent (packets_out s)))" using po by simp
    obtain p' s1 where sl: "send_loop p s = (None, p', s1)" "e_wire s1 = e_wire s @ unsent p"
      "willing (length (concat (map unsent (packets_out s))) - length (unsent p)) s1" "io_frame s s1"
      using send_loop_willing [OF q le less.prems(3)] by blast
    define t where "t = packet_sent p' (s1\<lparr>current_out_packet := Some p'\<rparr>)"
    note sc = send_current [OF Some less.prems(1) sl(1)]
    have o: "out_packet s1 = out_packet s" using sl(4) by (auto simp: io_frame_def)
    have st: "write_loop s = write_loop t"
      using write_loop_sent [OF Some sl(1)] less.prems(4) po unfolding t_def ends_connection_def by (auto split: if_splits)
    have tp: "packets_out t = out_packet s" using o by (simp add: t_def)
    have ok: "out_ok t" unfolding t_def
      using packet_sent_ok(1) [OF sc(1)] sc(6) by simp
    have cur: "current_out_packet t = None \<longrightarrow> out_packet t = []"
      using tp by (auto simp: t_def packet_sent_def Let_def next_packet_def packets_out_def touch_out_def split: list.splits)
    have w: "willing (length (concat (map unsent (packets_out t)))) t"
      using sl(3) po tp by (simp add: t_def)
    have ne: "list_all (\<lambda>p. \<not> ends_connection p) (packets_out t)" "length (packets_out t) < length (packets_out s)"
      using less.prems(4) po tp by simp_all
    obtain s' where "write_loop t = (Ok (), s')" "packets_out s' = []" "e_wire s' = stream t"
      using less.hyps [OF ne(2) ok cur w ne(1)] by blast
    moreover have "stream t = stream s" using tp po sl(2) by (simp add: stream_def t_def)
    ultimately show ?thesis using st by simp
  qed
qed

text \<open>C23: with a socket that takes at least one byte per call and enough calls for the bytes that
  wait, one \<open>packet__write\<close> succeeds and writes everything, in order: the queue is empty afterwards
  and the wire holds the whole stream. (A DISCONNECT among the packets ends the connection.)\<close>
theorem write_drains_queue:
  assumes "out_ok s" "sock s \<noteq> INVALID_SOCKET" "cstate s \<noteq> mosq_cs_connect_pending"
    and "willing (length (concat (map unsent (packets_out s)))) s"
    and "list_all (\<lambda>p. \<not> ends_connection p) (packets_out s)"
  shows "\<exists>s'. packet__write s = (Ok (), s') \<and> packets_out s' = [] \<and> e_wire s' = stream s"
proof -
  define t where "t = (if out_packet s \<noteq> [] \<and> current_out_packet s = None then next_packet s else s)"
  have po: "packets_out t = packets_out s"
    by (auto simp: t_def packets_out_def next_packet_def split: list.splits option.splits)
  have t: "out_ok t" "stream t = stream s" "willing n t = willing n s" "cstate t = cstate s" for n
    using assms(1) out_ok_next [of s] by (auto simp: t_def next_packet_def willing_def split: list.split)
  have "current_out_packet t = None \<longrightarrow> out_packet t = []"
    by (auto simp: t_def next_packet_def split: list.splits)
  then obtain s' where "write_loop t = (Ok (), s')" "packets_out s' = []" "e_wire s' = stream t"
    using write_loop_willing [of t] assms po t by auto
  then show ?thesis
    using assms(2,3) t by (simp add: packet__write_def Let_def mosquitto__get_state_def flip: t_def)
qed

text \<open>Three bytes wait, and the socket takes one byte per call.\<close>

definition backlog :: mosquitto where
  "backlog = (online 1)\<lparr>out_packet := [(full_packet [0x40, 2, 7])\<lparr>p_pos := 0, p_to_process := 3\<rparr>], out_packet_count := 1\<rparr>"

lemma backlog [simp]:
  "packets_out backlog = [(full_packet [0x40, 2, 7])\<lparr>p_pos := 0, p_to_process := 3\<rparr>]"
  "out_ok backlog" "sock backlog \<noteq> INVALID_SOCKET" "cstate backlog \<noteq> mosq_cs_connect_pending"
  "stream backlog = [0x40, 2, 7]"
  by (simp_all add: backlog_def online_def raw_client_def packets_out_def out_ok_def queued_ok_def stream_def
      unsent_def full_packet_def zero_packet_def)

theorem write_drains_queue_witness:
  "\<exists>s'. packet__write backlog = (Ok (), s') \<and> packets_out s' = [] \<and> e_wire s' = [0x40, 2, 7]"
proof -
  have "willing (Suc (Suc (Suc 0))) backlog" using willing_online [of 3 1] by (simp add: backlog_def willing_def numeral_3_eq_3)
  then show ?thesis
    using write_drains_queue [of backlog] by (simp add: unsent_def full_packet_def zero_packet_def ends_connection_def)
qed

theorem write_keeps_stream_witness:
  "out_ok backlog \<and> stream (snd (packet__write backlog)) = stream backlog"
  using write_keeps_stream [OF _ surjective_pairing, of backlog] by simp

section \<open>What the senders put on the wire\<close>





text \<open>\<open>send__subscribe\<close> takes the next packet identifier and appends exactly one SUBSCRIBE packet
  with it, the properties for MQTT 5 and every topic filter with its options, in the order given.\<close>
lemma subscribe_sends_encoding:
  assumes "out_ok s" "sendable properties" "list_all short topic"
    and "length (topics_body (protocol s) (last_mid (take_mid s)) properties [word_of_int topic_qos] topic) < 2 ^ 28"
  shows "sends take_mid s (packet_bytes (CMD_SUBSCRIBE OR 2)
      (topics_body (protocol s) (last_mid (take_mid s)) properties [word_of_int topic_qos] topic))
    (send__subscribe topic topic_qos properties s)"
  using assms by (rule sends_subscribe)

lemma subscribe_sends_encoding_witness:
  "sends take_mid (online 9) (packet_bytes 0x82 [0, 1, 0, 1, 0x61, 1]) (send__subscribe [[0x61]] 1 [] (online 9))"
proof -
  have m: "last_mid (take_mid (online 9)) = 1"
    by (simp add: take_mid_def mosquitto__mid_generate_def online_def raw_client_def Let_def)
  have b: "topics_body mosq_p_mqtt311 1 [] [1] [[0x61]] = [0, 1, 0, 1, 0x61, 1]"
    by (simp add: topics_body_def enc_field_def enc16_def MOSQ_MSB_def MOSQ_LSB_def)
  show ?thesis
    using subscribe_sends_encoding [of "online 9" "[]" "[[0x61]]" 1] by (simp add: m b short_def)
qed

end
