(* ===== verification/Reachable.thy ===== *)
theory Reachable
  imports Session_Api Out_Properties
begin

text \<open>
  A client over its whole life: made by \<open>mosquitto_new\<close> in any environment, then any sequence of
  calls of the application and of changes of the environment. The environment decides the outcome of
  every allocation, send, read, select and connection.
\<close>

unbundle bit_operations_syntax

section \<open>The calls\<close>






section \<open>The invariant over a life\<close>





section \<open>The theorems\<close>







end
