(* ===== verification/Outcome.thy ===== *)
theory Outcome
  imports Prelude
begin

text \<open>
  The rule by which the C++ components are proved: \<open>succeeds c s Q\<close> says that the command
  \<open>c\<close> returns normally from \<open>s\<close> (no fault and no error) and that \<open>Q\<close> holds of the value and
  the state it leaves. It distributes over the command's steps, so that \<open>simp\<close> turns a
  statement about an operation into one about its effect.
\<close>

definition succeeds :: "('s, 'a) cmd \<Rightarrow> 's \<Rightarrow> ('a \<Rightarrow> 's \<Rightarrow> bool) \<Rightarrow> bool" where
  "succeeds c s Q = (case c s of (Ok a, s') \<Rightarrow> Q a s' | _ \<Rightarrow> False)"

named_theorems outcome_simps

lemma succeeds_then_do [outcome_simps]:
  "succeeds (then_do c f) s Q = succeeds c s (\<lambda>a s'. succeeds (f a) s' Q)"
  by (auto simp: succeeds_def then_do_def split: prod.splits res.splits)

lemma succeeds_ret [outcome_simps]: "succeeds (ret a) s Q = Q a s"
  by (simp add: succeeds_def cmd_run)

lemma succeeds_throw [outcome_simps]: "succeeds (throw e) s Q = False"
  by (simp add: succeeds_def cmd_run)

lemma succeeds_fault [outcome_simps]: "succeeds fault s Q = False"
  by (simp add: succeeds_def cmd_run)

lemma succeeds_get_st [outcome_simps]: "succeeds get_st s Q = Q s s"
  by (simp add: succeeds_def cmd_run)

lemma succeeds_modify [outcome_simps]: "succeeds (modify f) s Q = Q () (f s)"
  by (simp add: succeeds_def cmd_run)

lemma succeeds_if [outcome_simps]:
  "succeeds (if b then c else d) s Q = (if b then succeeds c s Q else succeeds d s Q)"
  by simp

lemma succeedsI: "c s = (Ok a, s') \<Longrightarrow> Q a s' \<Longrightarrow> succeeds c s Q"
  by (simp add: succeeds_def)

lemma succeedsE:
  assumes "succeeds c s Q"
  obtains a s' where "c s = (Ok a, s')" "Q a s'"
  using assms by (auto simp: succeeds_def split: prod.splits res.splits)

lemma succeeds_mono: "succeeds c s Q \<Longrightarrow> (\<And>a s'. Q a s' \<Longrightarrow> R a s') \<Longrightarrow> succeeds c s R"
  by (auto simp: succeeds_def split: prod.splits res.splits)

lemma succeeds_conj: "succeeds c s (\<lambda>a s'. Q a s' \<and> R a s') = (succeeds c s Q \<and> succeeds c s R)"
  by (auto simp: succeeds_def split: prod.splits res.splits)

text \<open>A list of operations, in order.\<close>

fun run_all :: "('o \<Rightarrow> ('s, unit) cmd) \<Rightarrow> 'o list \<Rightarrow> ('s, unit) cmd" where
  "run_all step [] = ret ()"
| "run_all step (x # xs) = then_do (step x) (\<lambda>_. run_all step xs)"

lemma run_all_invariant:
  assumes step: "\<And>x n s. x \<in> set xs \<Longrightarrow> n < N \<Longrightarrow> I n s \<Longrightarrow> succeeds (step x) s (\<lambda>_. I (Suc n))"
    and init: "I n s" and len: "n + length xs \<le> N"
  shows "succeeds (run_all step xs) s (\<lambda>_. I (n + length xs))"
  using assms
proof (induction xs arbitrary: n s)
  case Nil
  then show ?case by (simp add: outcome_simps)
next
  case (Cons x xs)
  have "succeeds (step x) s (\<lambda>_. I (Suc n))"
    using Cons.prems by simp
  then show ?case
    unfolding run_all.simps succeeds_then_do
  proof (rule succeeds_mono)
    fix s' assume "I (Suc n) s'"
    then show "succeeds (run_all step xs) s' (\<lambda>_. I (n + length (x # xs)))"
      using Cons.IH[of "Suc n" s'] Cons.prems by simp
  qed
qed

section \<open>What a command leaves alone\<close>

text \<open>\<open>keeps f c\<close>: whatever \<open>c\<close> returns, \<open>f\<close> of the state is as before.\<close>

definition keeps :: "('s \<Rightarrow> 'b) \<Rightarrow> ('s, 'a) cmd \<Rightarrow> bool" where
  "keeps f c = (\<forall>s. f (snd (c s)) = f s)"

named_theorems keeps_intros

lemma keepsD: "keeps f c \<Longrightarrow> c s = (r, s') \<Longrightarrow> f s' = f s"
  unfolding keeps_def by (metis snd_conv)

lemma keeps_then_do [keeps_intros]: "keeps f c \<Longrightarrow> (\<And>a. keeps f (d a)) \<Longrightarrow> keeps f (then_do c d)"
  unfolding keeps_def then_do_def by (auto split: prod.splits res.splits) (metis snd_conv)+

lemma keeps_ret [keeps_intros]: "keeps f (ret a)"
  by (simp add: keeps_def cmd_run)

lemma keeps_throw [keeps_intros]: "keeps f (throw e)"
  by (simp add: keeps_def throw_def)

lemma keeps_fault [keeps_intros]: "keeps f fault"
  by (simp add: keeps_def fault_def)

lemma keeps_get_st [keeps_intros]: "keeps f get_st"
  by (simp add: keeps_def cmd_run)

lemma keeps_modify [keeps_intros]: "(\<And>s. f (g s) = f s) \<Longrightarrow> keeps f (modify g)"
  by (simp add: keeps_def cmd_run)

lemma keeps_if [keeps_intros]: "keeps f c \<Longrightarrow> keeps f d \<Longrightarrow> keeps f (if b then c else d)"
  by simp

lemma keeps_case_option [keeps_intros]:
  "keeps f c \<Longrightarrow> (\<And>a. keeps f (d a)) \<Longrightarrow> keeps f (case x of None \<Rightarrow> c | Some a \<Rightarrow> d a)"
  by (cases x) simp_all

lemma keeps_case_prod [keeps_intros]: "(\<And>a b. keeps f (d a b)) \<Longrightarrow> keeps f (case x of (a, b) \<Rightarrow> d a b)"
  by (cases x) simp

lemma keeps_case_res [keeps_intros]:
  "(\<And>a. keeps f (c a)) \<Longrightarrow> (\<And>e. keeps f (d e)) \<Longrightarrow> keeps f g \<Longrightarrow>
    keeps f (case x of Ok a \<Rightarrow> c a | Err e \<Rightarrow> d e | Fault \<Rightarrow> g)"
  by (cases x) simp_all

end
