(* ===== verification/Backoff.thy ===== *)
theory Backoff
  imports Outcome
begin

text \<open>
  Waiting between attempts to reach the cloud: the pseudo random number of
  \<open>libCore/src/crypto/CRNG.cpp\<close>, the exponential back off of
  \<open>libClientBL/src/net/CExponentialBackoff.cpp\<close>, and the activation state and activation
  back off of \<open>libClientBL/src/auth/CActivationState.cpp\<close> and \<open>CActivationBackoff.cpp\<close>.

  An \<open>int\<close> of the C++ code is an \<open>int\<close> whose overflow is a \<open>Fault\<close>, as the language leaves
  it undefined; a \<open>long\<close>, which the values here never fill, is an \<open>int\<close>; an \<open>unsigned long long\<close> is a 64-bit word. What the code
  reads from outside (\<open>CIgniteConfig\<close>, \<open>std::rand\<close>, the serial number of the product) is the
  record \<open>env\<close>; the two clocks are components of the state that only the environment moves.
\<close>

section \<open>C integers\<close>

definition in_int :: "int \<Rightarrow> bool" where
  "in_int i = (- (2 ^ 31) \<le> i \<and> i < 2 ^ 31)"

text \<open>The remainder of C has the sign of its left operand.\<close>

definition c_rem :: "int \<Rightarrow> int \<Rightarrow> int" where
  "c_rem a b = sgn a * (\<bar>a\<bar> mod \<bar>b\<bar>)"

text \<open>A value that is narrowed to \<open>int\<close> keeps its low 32 bits.\<close>

definition to_int :: "int \<Rightarrow> int" where
  "to_int i = (i + 2 ^ 31) mod 2 ^ 32 - 2 ^ 31"

lemma c_rem_range: "0 \<le> a \<Longrightarrow> 0 < b \<Longrightarrow> 0 \<le> c_rem a b \<and> c_rem a b < b"
  by (cases "a = 0") (auto simp: c_rem_def)

lemma to_int_id: "in_int i \<Longrightarrow> to_int i = i"
  unfolding in_int_def to_int_def by simp

lemma in_int_nonneg: "0 \<le> i \<Longrightarrow> in_int i \<longleftrightarrow> i < 2 ^ 31"
  by (simp add: in_int_def)

section \<open>The environment\<close>

record env =
  cfg_int :: "string \<Rightarrow> int option"
  cfg_bool :: "string \<Rightarrow> bool option"
  std_rand :: "32 word \<Rightarrow> int"
  serial_number :: "8 word list"

definition GetInt :: "env \<Rightarrow> string \<Rightarrow> int \<Rightarrow> int" where
  "GetInt env key d = (case cfg_int env key of None \<Rightarrow> d | Some v \<Rightarrow> v)"

definition GetBool :: "env \<Rightarrow> string \<Rightarrow> bool \<Rightarrow> bool" where
  "GetBool env key d = (case cfg_bool env key of None \<Rightarrow> d | Some v \<Rightarrow> v)"

text \<open>What the C standard says of \<open>std::rand\<close> on the target: a value from 0 to \<open>RAND_MAX\<close>.\<close>

definition rand_ok :: "env \<Rightarrow> bool" where
  "rand_ok env = (\<forall>seed. 0 \<le> std_rand env seed \<and> std_rand env seed < 2 ^ 31)"

section \<open>CRNG.cpp\<close>

text \<open>The key's bytes are \<open>char\<close>s, so they are sign extended, and are shifted by 0 to 3 bytes.\<close>

fun crng_seed :: "nat \<Rightarrow> 32 word \<Rightarrow> 8 word list \<Rightarrow> 32 word" where
  "crng_seed nShift unSeed [] = unSeed"
| "crng_seed nShift unSeed (ch # chs) =
     crng_seed (if 4 \<le> Suc nShift then 0 else Suc nShift)
       (unSeed XOR push_bit (nShift * 8) (scast ch)) chs"

definition CRNG_Get :: "env \<Rightarrow> 32 word \<Rightarrow> int \<Rightarrow> int \<Rightarrow> int res" where
  "CRNG_Get env time nMin nMax =
     (let d = nMax - nMin in
      if \<not> in_int d \<or> \<not> in_int (d + 1) \<or> d + 1 = 0 then Fault
      else let v = nMin + c_rem (std_rand env (crng_seed 0 time (serial_number env))) (d + 1) in
        if in_int v then Ok v else Fault)"

lemma CRNG_Get_range:
  assumes "rand_ok env" "in_int nMin" "0 \<le> nMax - nMin" "in_int (nMax - nMin + 1)" "in_int nMax"
  obtains r where "CRNG_Get env time nMin nMax = Ok r" "nMin \<le> r" "r \<le> nMax"
proof -
  define v where "v = nMin + c_rem (std_rand env (crng_seed 0 time (serial_number env))) (nMax - nMin + 1)"
  have r: "0 \<le> std_rand env s" for s
    using assms(1) by (simp add: rand_ok_def)
  have "nMin \<le> v \<and> v \<le> nMax"
    using c_rem_range[OF r, of "nMax - nMin + 1" "crng_seed 0 time (serial_number env)"] assms(3)
    unfolding v_def by linarith
  moreover from this have "in_int v"
    using assms(2,5) by (simp add: in_int_def)
  ultimately show thesis
    using assms(3,4) that[of v] by (simp add: CRNG_Get_def v_def Let_def in_int_def)
qed

section \<open>HttpErrorCodes.h\<close>

datatype HttpErrorCode =
    eERR_OK | eERR_ACCESS | eERR_TOKEN | eERR_NETWORK | eERR_RESPONSE_FORMAT
  | eERR_RESPONSE_DATA | eERR_TIMEOUT | eERR_SERVER | eERR_BACKOFF | eERR_INV_INPUT
  | eERR_OTHER | eERR_UNKNOWN

section \<open>CExponentialBackoff.cpp\<close>

text \<open>\<open>m_nNextRetryTime\<close> is declared in the header and never used.\<close>

record CExponentialBackoff =
  m_nSuccessTime :: int
  m_nFailureRetryTime :: int
  m_nMaxRetryTime :: int
  m_nRetryCount :: nat

definition new_CExponentialBackoff :: "int \<Rightarrow> int \<Rightarrow> int \<Rightarrow> CExponentialBackoff" where
  "new_CExponentialBackoff nSuccessTime nFailureTime nMaxRetryTime =
     \<lparr>m_nSuccessTime = nSuccessTime, m_nFailureRetryTime = nFailureTime,
      m_nMaxRetryTime = nMaxRetryTime, m_nRetryCount = 0\<rparr>"

text \<open>
  The product of an \<open>int\<close> and a power of two is exact in a \<open>double\<close>; converting it to an
  \<open>int\<close> is undefined when it does not fit.
\<close>

definition CalculateBackOffRetryTime :: "env \<Rightarrow> 32 word \<Rightarrow> (CExponentialBackoff, int) cmd" where
  "CalculateBackOffRetryTime env time b =
     (let t = m_nFailureRetryTime b * 2 ^ m_nRetryCount b in
      if \<not> in_int t then (Fault, b)
      else let t' = (if t > m_nMaxRetryTime b then m_nMaxRetryTime b else t) in
        if \<not> in_int (int (m_nRetryCount b) + 1) then (Fault, b)
        else (CRNG_Get env time 0 t', b\<lparr>m_nRetryCount := m_nRetryCount b + 1\<rparr>))"

definition GetNextRetryTime :: "env \<Rightarrow> 32 word \<Rightarrow> HttpErrorCode \<Rightarrow> (CExponentialBackoff, int) cmd" where
  "GetNextRetryTime env time eErrorCode b =
     (if eErrorCode = eERR_OK then (Ok (m_nSuccessTime b), b\<lparr>m_nRetryCount := 0\<rparr>)
      else if eErrorCode = eERR_SERVER \<or> eErrorCode = eERR_TIMEOUT
      then CalculateBackOffRetryTime env time b
      else (Ok (m_nFailureRetryTime b), b))"

text \<open>A sequence of results, each with the time at which it is reported.\<close>

fun retry_times :: "env \<Rightarrow> (32 word \<times> HttpErrorCode) list \<Rightarrow> (CExponentialBackoff, int list) cmd" where
  "retry_times env [] = ret []"
| "retry_times env ((time, e) # es) =
     then_do (GetNextRetryTime env time e) (\<lambda>t.
     then_do (retry_times env es) (\<lambda>ts. ret (t # ts)))"

text \<open>
  The specification: the wait after a failure of the server is at most the failure time
  doubled for every such failure since the last success, and at most the maximum. The code
  can compute it as long as the doubled time is an \<open>int\<close>.
\<close>

definition server_failure :: "HttpErrorCode \<Rightarrow> bool" where
  "server_failure e = (e = eERR_SERVER \<or> e = eERR_TIMEOUT)"

definition failures_after :: "HttpErrorCode \<Rightarrow> nat \<Rightarrow> nat" where
  "failures_after e n = (if e = eERR_OK then 0 else if server_failure e then Suc n else n)"

definition wait_allowed :: "CExponentialBackoff \<Rightarrow> nat \<Rightarrow> HttpErrorCode \<Rightarrow> int \<Rightarrow> bool" where
  "wait_allowed b n e t =
     (if e = eERR_OK then t = m_nSuccessTime b
      else if server_failure e
      then 0 \<le> t \<and> t \<le> m_nMaxRetryTime b \<and> t \<le> m_nFailureRetryTime b * 2 ^ n
      else t = m_nFailureRetryTime b)"

fun waits_allowed :: "CExponentialBackoff \<Rightarrow> nat \<Rightarrow> HttpErrorCode list \<Rightarrow> int list \<Rightarrow> bool" where
  "waits_allowed b n [] [] = True"
| "waits_allowed b n (e # es) (t # ts) = (wait_allowed b n e t \<and> waits_allowed b (failures_after e n) es ts)"
| "waits_allowed b n _ _ = False"

fun doubling_fits :: "int \<Rightarrow> nat \<Rightarrow> HttpErrorCode list \<Rightarrow> bool" where
  "doubling_fits f n [] = True"
| "doubling_fits f n (e # es) =
     ((server_failure e \<longrightarrow> f * 2 ^ n < 2 ^ 31) \<and> doubling_fits f (failures_after e n) es)"

definition backoff_params_ok :: "CExponentialBackoff \<Rightarrow> bool" where
  "backoff_params_ok b = (0 < m_nFailureRetryTime b \<and> 0 \<le> m_nMaxRetryTime b \<and> m_nMaxRetryTime b < 2 ^ 31 - 1)"

lemma GetNextRetryTime_fits:
  assumes "rand_ok env" "backoff_params_ok b"
    and "server_failure e \<Longrightarrow> m_nFailureRetryTime b * 2 ^ m_nRetryCount b < 2 ^ 31"
  obtains t where "GetNextRetryTime env time e b =
      (Ok t, b\<lparr>m_nRetryCount := failures_after e (m_nRetryCount b)\<rparr>)"
    "wait_allowed b (m_nRetryCount b) e t"
proof (cases "server_failure e")
  case True
  define p where "p = m_nFailureRetryTime b * 2 ^ m_nRetryCount b"
  define m where "m = (if p > m_nMaxRetryTime b then m_nMaxRetryTime b else p)"
  have p: "0 < p" "p < 2 ^ 31"
    using assms(2,3) True by (simp_all add: p_def backoff_params_ok_def)
  have "2 ^ m_nRetryCount b \<le> p"
    using assms(2) by (simp add: p_def backoff_params_ok_def)
  moreover have "int (m_nRetryCount b) < 2 ^ m_nRetryCount b"
    by (metis of_nat_less_numeral_power_cancel_iff less_exp)
  ultimately have n: "int (m_nRetryCount b) + 1 < 2 ^ 31"
    using p(2) by linarith
  have m: "0 \<le> m" "m < 2 ^ 31 - 1" "m \<le> m_nMaxRetryTime b" "m \<le> p"
    using p assms(2) by (auto simp: m_def backoff_params_ok_def)
  obtain t where "CRNG_Get env time 0 m = Ok t" "0 \<le> t" "t \<le> m"
    using CRNG_Get_range[OF assms(1), of 0 m time] m(1,2) by (auto simp: in_int_def)
  moreover have "e \<noteq> eERR_OK" "e = eERR_SERVER \<or> e = eERR_TIMEOUT"
    using True by (auto simp: server_failure_def)
  moreover have "in_int p" "in_int (int (m_nRetryCount b) + 1)"
    using p n by (simp_all add: in_int_def)
  ultimately show thesis
    using that[of t] m(3,4) True
    by (auto simp: GetNextRetryTime_def CalculateBackOffRetryTime_def Let_def wait_allowed_def
      failures_after_def p_def[symmetric] m_def[symmetric])
next
  case False
  then show thesis
    using that by (cases "e = eERR_OK")
      (auto simp: GetNextRetryTime_def wait_allowed_def failures_after_def server_failure_def)
qed

lemma GetNextRetryTime_overflow:
  assumes "backoff_params_ok b" "server_failure e"
    and "\<not> m_nFailureRetryTime b * 2 ^ m_nRetryCount b < 2 ^ 31"
  shows "GetNextRetryTime env time e b = (Fault, b)"
  using assms by (auto simp: GetNextRetryTime_def CalculateBackOffRetryTime_def Let_def in_int_def
    server_failure_def)

lemma backoff_params_ok_count [simp]: "backoff_params_ok (b\<lparr>m_nRetryCount := n\<rparr>) = backoff_params_ok b"
  by (simp add: backoff_params_ok_def)

lemma waits_allowed_count [simp]: "waits_allowed (b\<lparr>m_nRetryCount := k\<rparr>) n es ts = waits_allowed b n es ts"
  by (induction b n es ts rule: waits_allowed.induct) (auto simp: wait_allowed_def)

lemma retry_times_cases:
  assumes "rand_ok env" "backoff_params_ok b"
  shows "if doubling_fits (m_nFailureRetryTime b) (m_nRetryCount b) (map snd es)
         then \<exists>ts b'. retry_times env es b = (Ok ts, b') \<and> waits_allowed b (m_nRetryCount b) (map snd es) ts
         else \<exists>b'. retry_times env es b = (Fault, b')"
  using assms(2)
proof (induction es arbitrary: b)
  case Nil
  then show ?case by (simp add: cmd_simps)
next
  case (Cons te es)
  obtain time e where te: "te = (time, e)" by (cases te)
  show ?case
  proof (cases "server_failure e \<longrightarrow> m_nFailureRetryTime b * 2 ^ m_nRetryCount b < 2 ^ 31")
    case True
    then obtain t where t: "GetNextRetryTime env time e b =
        (Ok t, b\<lparr>m_nRetryCount := failures_after e (m_nRetryCount b)\<rparr>)"
      "wait_allowed b (m_nRetryCount b) e t"
      using GetNextRetryTime_fits[OF assms(1) Cons.prems] by blast
    from Cons.IH[of "b\<lparr>m_nRetryCount := failures_after e (m_nRetryCount b)\<rparr>"] Cons.prems True
    show ?thesis
      by (auto simp: te then_do_def t ret_def split: if_splits)
  next
    case False
    then show ?thesis
      by (simp add: te then_do_def GetNextRetryTime_overflow[OF Cons.prems])
  qed
qed

end
