(* ===== verification/Activation.thy ===== *)
theory Activation
  imports Backoff
begin

text \<open>
  When the device may ask to be activated: \<open>CActivationState\<close> and the six states of
  \<open>CActivationBackoff\<close> (\<open>libClientBL/src/auth\<close>), over the key-value table that
  \<open>CLocalConfig\<close> keeps in the database.

  The state objects of the C++ code are the record \<open>CBackOffStates\<close>, whose class is its
  \<open>m_eCurrBackoffState\<close>; \<open>m_bIsStateChanged\<close> is only ever set in an object that the caller
  replaces at once and is the option that \<open>TryStateChange\<close> returns. The operations are
  polymorphic in the state record, so that the token manager can extend it.
\<close>

section \<open>Numbers in strings (CIgniteStringUtils.h)\<close>

definition digit_char :: "nat \<Rightarrow> char" where
  "digit_char d = char_of (48 + d)"

fun nat_string :: "nat \<Rightarrow> string" where
  "nat_string n = (if n < 10 then [digit_char n] else nat_string (n div 10) @ [digit_char (n mod 10)])"

declare nat_string.simps [simp del]

definition NumberToString :: "int \<Rightarrow> string" where
  "NumberToString i = (if i < 0 then CHR ''-'' # nat_string (nat (- i)) else nat_string (nat i))"

definition is_digit :: "char \<Rightarrow> bool" where
  "is_digit c = (48 \<le> (of_char c :: nat) \<and> (of_char c :: nat) \<le> 57)"

definition is_space :: "char \<Rightarrow> bool" where
  "is_space c = ((of_char c :: nat) = 32 \<or> 9 \<le> (of_char c :: nat) \<and> (of_char c :: nat) \<le> 13)"

definition digits_value :: "string \<Rightarrow> nat" where
  "digits_value = foldl (\<lambda>n c. 10 * n + (of_char c - 48)) 0"

text \<open>\<open>ss >> tResult\<close> for an \<open>int\<close>: the longest run of digits after blanks and a sign; no
  digits, or a value that is no \<open>int\<close>, fail and give 0.\<close>

definition StringToNumber :: "string \<Rightarrow> int" where
  "StringToNumber str =
     (let t = dropWhile is_space str;
          neg = (case t of c # _ \<Rightarrow> c = CHR ''-'' | [] \<Rightarrow> False);
          u = (case t of c # cs \<Rightarrow> if c = CHR ''-'' \<or> c = CHR ''+'' then cs else t | [] \<Rightarrow> t);
          ds = takeWhile is_digit u;
          v = (if neg then - int (digits_value ds) else int (digits_value ds))
      in if in_int v then v else 0)"

lemma of_char_digit: "d < 10 \<Longrightarrow> (of_char (digit_char d) :: nat) = 48 + d"
  by (simp add: digit_char_def)

lemma is_digit_digit [simp]: "d < 10 \<Longrightarrow> is_digit (digit_char d)"
  by (simp add: is_digit_def of_char_digit)

lemma nat_string_digits: "\<forall>c\<in>set (nat_string n). is_digit c"
  by (induction n rule: nat_string.induct) (subst nat_string.simps, auto)

lemma nat_string_not_Nil: "nat_string n \<noteq> []"
  by (subst nat_string.simps) simp

lemma digits_value_nat_string: "digits_value (nat_string n) = n"
proof (induction n rule: nat_string.induct)
  case (1 n)
  then show ?case
    by (subst nat_string.simps) (auto simp: digits_value_def of_char_digit)
qed

lemma digit_not_special:
  assumes "is_digit c"
  shows "\<not> is_space c" "c \<noteq> CHR ''-''" "c \<noteq> CHR ''+''"
  using assms by (auto simp: is_digit_def is_space_def)

lemma StringToNumber_NumberToString:
  assumes "in_int i"
  shows "StringToNumber (NumberToString i) = i"
proof -
  have tw: "takeWhile is_digit (nat_string n) = nat_string n" for n
    using nat_string_digits by simp
  obtain c cs where c: "nat_string (nat i) = c # cs" "is_digit c"
    using nat_string_digits nat_string_not_Nil by (metis list.exhaust list.set_intros(1))
  have m: "\<not> is_space (CHR ''-'')"
    by (simp add: is_space_def)
  have cs: "takeWhile is_digit cs = cs"
    using tw[of "nat i"] c by simp
  show ?thesis
    using assms c digit_not_special[OF c(2)] m cs digits_value_nat_string[of "nat i"]
    by (auto simp: StringToNumber_def NumberToString_def Let_def tw digits_value_nat_string
      simp del: takeWhile_eq_all_conv)
qed

section \<open>State\<close>

datatype ActivationFailureError =
    eNO_ERROR | eSTATE_RESET | eNETWORK_ERROR | ePAYLOAD_ERROR
  | eDEVICE_NOT_ASSOCIATED_ERROR | eBACKOFF_ERROR

record CActivationState =
  m_bActivationState :: bool
  m_eNotActivationReason :: ActivationFailureError
  m_strToken :: string

datatype BackoffState =
    eINITIAL | eHIGH_FREQ | eNORMAL_FREQ | eLOW_FREQ
  | eOVER_IGN_THRESHOLD_HIGH_FREQ | eOVER_IGN_THRESHOLD_LOW_FREQ

record CBackOffStates =
  m_eCurrBackoffState :: BackoffState
  m_llStartTime :: "64 word"
  m_llNextTime :: "64 word"
  m_bIsIgnStateChanged :: bool
  m_bIsDeviceStateChanged :: bool
  m_lnFreq :: int
  m_nMaxAttempts :: int
  m_nAttempts :: int
  m_nRetrySlotMin :: int
  m_nRetrySlotMax :: int

record CActivationBackoff =
  m_bIsEnable :: bool
  m_lIgnitionCount :: int
  m_bIncrementIgnitionCount :: bool
  m_eLastErrorState :: HttpErrorCode
  m_pBackOffState :: "CBackOffStates option"
  g_nIgnitionThreshold :: int

record auth =
  activation :: CActivationState
  backoff :: CActivationBackoff
  local_config :: "string \<Rightarrow> string option"
  sent_events :: "string list"
  mono_ms :: "64 word"
  wall_s :: "32 word"

text \<open>\<open>CLocalConfig::Get\<close>, \<open>Set\<close> and \<open>Remove\<close> over a database that answers.\<close>

definition LocalConfig_Get :: "string \<Rightarrow> 'a auth_scheme \<Rightarrow> string" where
  "LocalConfig_Get key s = (case local_config s key of None \<Rightarrow> '''' | Some v \<Rightarrow> v)"

definition LocalConfig_Set :: "string \<Rightarrow> string \<Rightarrow> ('a auth_scheme, unit) cmd" where
  "LocalConfig_Set key v = modify (\<lambda>s. s\<lparr>local_config := (local_config s)(key \<mapsto> v)\<rparr>)"

definition LocalConfig_Remove :: "string \<Rightarrow> ('a auth_scheme, unit) cmd" where
  "LocalConfig_Remove key = modify (\<lambda>s. s\<lparr>local_config := (local_config s)(key := None)\<rparr>)"

definition Send_event :: "string \<Rightarrow> ('a auth_scheme, unit) cmd" where
  "Send_event event_id = modify (\<lambda>s. s\<lparr>sent_events := sent_events s @ [event_id]\<rparr>)"

text \<open>\<open>CTokenManager::IsActivated\<close>.\<close>

definition IsActivated :: "'a auth_scheme \<Rightarrow> bool" where
  "IsActivated s = (LocalConfig_Get ''login'' s \<noteq> '''' \<and> LocalConfig_Get ''passcode'' s \<noteq> '''')"

section \<open>CActivationState.cpp\<close>

definition SetActivationState :: "bool \<Rightarrow> ActivationFailureError \<Rightarrow> ('a auth_scheme, unit) cmd" where
  "SetActivationState bState eReason =
     then_do get_st (\<lambda>s.
     if m_bActivationState (activation s) \<noteq> bState \<or> m_eNotActivationReason (activation s) \<noteq> eReason
     then then_do (Send_event ''ActivationStateRequest'') (\<lambda>_.
       modify (\<lambda>s. s\<lparr>activation := (activation s)
         \<lparr>m_eNotActivationReason := eReason, m_bActivationState := bState\<rparr>\<rparr>))
     else ret ())"

definition SetToken :: "string \<Rightarrow> ('a auth_scheme, unit) cmd" where
  "SetToken strToken =
     then_do get_st (\<lambda>s.
     if m_strToken (activation s) \<noteq> strToken
     then then_do (modify (\<lambda>s. s\<lparr>activation := (activation s)\<lparr>m_strToken := strToken\<rparr>\<rparr>)) (\<lambda>_.
       Send_event ''TokenChanged'')
     else ret ())"

section \<open>The states of CActivationBackoff.cpp\<close>

definition new_CBackOffStates :: "64 word \<Rightarrow> CBackOffStates" where
  "new_CBackOffStates now =
     \<lparr>m_eCurrBackoffState = eINITIAL, m_llStartTime = now, m_llNextTime = now,
      m_bIsIgnStateChanged = False, m_bIsDeviceStateChanged = False, m_lnFreq = 0,
      m_nMaxAttempts = 0, m_nAttempts = 0, m_nRetrySlotMin = 0, m_nRetrySlotMax = 0\<rparr>"

definition backoff_conf :: "env \<Rightarrow> string \<Rightarrow> int \<Rightarrow> int" where
  "backoff_conf env key d = GetInt env (''HCPAuth.ActivationBackOffConf.'' @ key) d"

definition new_CInitialState :: "env \<Rightarrow> ('a auth_scheme, CBackOffStates) cmd" where
  "new_CInitialState env =
     then_do get_st (\<lambda>s. ret ((new_CBackOffStates (mono_ms s))
       \<lparr>m_eCurrBackoffState := eINITIAL,
        m_nMaxAttempts := backoff_conf env ''initialAttempts'' 24,
        m_lnFreq := backoff_conf env ''initialFreq'' 5000\<rparr>))"

definition new_CHighFreqState :: "env \<Rightarrow> ('a auth_scheme, CBackOffStates) cmd" where
  "new_CHighFreqState env =
     then_do get_st (\<lambda>s.
     then_do (SetActivationState False eSTATE_RESET) (\<lambda>_.
     ret ((new_CBackOffStates (mono_ms s))
       \<lparr>m_eCurrBackoffState := eHIGH_FREQ,
        m_nMaxAttempts := backoff_conf env ''highFreqAttempts'' 10,
        m_lnFreq := backoff_conf env ''highFreqDuration'' 60000,
        m_nRetrySlotMax := 5000\<rparr>)))"

definition new_CNormalFreqState :: "env \<Rightarrow> ('a auth_scheme, CBackOffStates) cmd" where
  "new_CNormalFreqState env =
     then_do get_st (\<lambda>s.
     then_do (SetActivationState False eSTATE_RESET) (\<lambda>_.
     ret ((new_CBackOffStates (mono_ms s))
       \<lparr>m_eCurrBackoffState := eNORMAL_FREQ,
        m_nMaxAttempts := backoff_conf env ''normalFreqAttempts'' 15,
        m_lnFreq := backoff_conf env ''normalFreqDuration'' 240000\<rparr>)))"

definition new_CLowFreqState :: "env \<Rightarrow> ('a auth_scheme, CBackOffStates) cmd" where
  "new_CLowFreqState env =
     then_do get_st (\<lambda>s.
     then_do (SetActivationState False eSTATE_RESET) (\<lambda>_.
     ret ((new_CBackOffStates (mono_ms s))
       \<lparr>m_eCurrBackoffState := eLOW_FREQ,
        m_lnFreq := backoff_conf env ''lowFreqDuration'' 720000\<rparr>)))"

definition new_COverIgnThresholdHighFreq :: "env \<Rightarrow> ('a auth_scheme, CBackOffStates) cmd" where
  "new_COverIgnThresholdHighFreq env =
     then_do get_st (\<lambda>s.
     then_do (SetActivationState False eSTATE_RESET) (\<lambda>_.
     ret ((new_CBackOffStates (mono_ms s))
       \<lparr>m_eCurrBackoffState := eOVER_IGN_THRESHOLD_HIGH_FREQ,
        m_lnFreq := backoff_conf env ''highFreqAfterIgnitionThreshold'' 12000,
        m_nMaxAttempts := backoff_conf env ''highFreqAttemptAfterIgnitionThreshold'' 10\<rparr>)))"

definition new_COverIgnThresholdLowFreq :: "env \<Rightarrow> ('a auth_scheme, CBackOffStates) cmd" where
  "new_COverIgnThresholdLowFreq env =
     then_do get_st (\<lambda>s.
     then_do (SetActivationState False eSTATE_RESET) (\<lambda>_.
     ret ((new_CBackOffStates (mono_ms s))
       \<lparr>m_eCurrBackoffState := eOVER_IGN_THRESHOLD_LOW_FREQ,
        m_lnFreq := backoff_conf env ''lowFreqAfterIgnitionThreshold'' 900000\<rparr>)))"

definition new_state :: "env \<Rightarrow> BackoffState \<Rightarrow> ('a auth_scheme, CBackOffStates) cmd" where
  "new_state env k = (case k of
      eINITIAL \<Rightarrow> new_CInitialState env
    | eHIGH_FREQ \<Rightarrow> new_CHighFreqState env
    | eNORMAL_FREQ \<Rightarrow> new_CNormalFreqState env
    | eLOW_FREQ \<Rightarrow> new_CLowFreqState env
    | eOVER_IGN_THRESHOLD_HIGH_FREQ \<Rightarrow> new_COverIgnThresholdHighFreq env
    | eOVER_IGN_THRESHOLD_LOW_FREQ \<Rightarrow> new_COverIgnThresholdLowFreq env)"

text \<open>\<open>TryStateChange\<close> of each class: the class of the new state, or none for \<open>return this\<close>.\<close>

definition input_changed :: "CBackOffStates \<Rightarrow> bool" where
  "input_changed st = (m_bIsIgnStateChanged st \<or> m_bIsDeviceStateChanged st)"

definition CInitialState_TryStateChange :: "CActivationBackoff \<Rightarrow> CBackOffStates \<Rightarrow> BackoffState option" where
  "CInitialState_TryStateChange ab st =
     (if input_changed st then Some eINITIAL
      else if m_lIgnitionCount ab > g_nIgnitionThreshold ab then Some eOVER_IGN_THRESHOLD_HIGH_FREQ
      else if m_nAttempts st > m_nMaxAttempts st - 1 then Some eHIGH_FREQ
      else None)"

definition CHighFreqState_TryStateChange :: "CBackOffStates \<Rightarrow> BackoffState option" where
  "CHighFreqState_TryStateChange st =
     (if input_changed st then Some eINITIAL
      else if m_nAttempts st > m_nMaxAttempts st - 1 then Some eNORMAL_FREQ
      else None)"

definition CNormalFreqState_TryStateChange :: "CBackOffStates \<Rightarrow> BackoffState option" where
  "CNormalFreqState_TryStateChange st =
     (if input_changed st then Some eINITIAL
      else if m_nAttempts st > m_nMaxAttempts st - 1 then Some eLOW_FREQ
      else None)"

definition CLowFreqState_TryStateChange :: "CBackOffStates \<Rightarrow> BackoffState option" where
  "CLowFreqState_TryStateChange st = (if input_changed st then Some eINITIAL else None)"

definition COverIgnThresholdHighFreq_TryStateChange :: "CBackOffStates \<Rightarrow> BackoffState option" where
  "COverIgnThresholdHighFreq_TryStateChange st =
     (if input_changed st then Some eOVER_IGN_THRESHOLD_HIGH_FREQ
      else if m_nAttempts st > m_nMaxAttempts st - 1 then Some eOVER_IGN_THRESHOLD_LOW_FREQ
      else None)"

definition COverIgnThresholdLowFreq_TryStateChange :: "CBackOffStates \<Rightarrow> BackoffState option" where
  "COverIgnThresholdLowFreq_TryStateChange st =
     (if input_changed st then Some eOVER_IGN_THRESHOLD_HIGH_FREQ else None)"

definition TryStateChange :: "CActivationBackoff \<Rightarrow> CBackOffStates \<Rightarrow> BackoffState option" where
  "TryStateChange ab st = (case m_eCurrBackoffState st of
      eINITIAL \<Rightarrow> CInitialState_TryStateChange ab st
    | eHIGH_FREQ \<Rightarrow> CHighFreqState_TryStateChange st
    | eNORMAL_FREQ \<Rightarrow> CNormalFreqState_TryStateChange st
    | eLOW_FREQ \<Rightarrow> CLowFreqState_TryStateChange st
    | eOVER_IGN_THRESHOLD_HIGH_FREQ \<Rightarrow> COverIgnThresholdHighFreq_TryStateChange st
    | eOVER_IGN_THRESHOLD_LOW_FREQ \<Rightarrow> COverIgnThresholdLowFreq_TryStateChange st)"

text \<open>
  \<open>GetNextRetryTime\<close>: two classes override it and add the frequency to the time of the last
  retry; the others draw a time from the next slot.
\<close>

definition overrides_next_time :: "BackoffState \<Rightarrow> bool" where
  "overrides_next_time k = (k = eINITIAL \<or> k = eOVER_IGN_THRESHOLD_HIGH_FREQ)"

definition CBackOffStates_GetNextRetryTime :: "env \<Rightarrow> 32 word \<Rightarrow> (CBackOffStates, 64 word) cmd" where
  "CBackOffStates_GetNextRetryTime env time st =
     (if overrides_next_time (m_eCurrBackoffState st) then (Ok (m_llNextTime st + of_int (m_lnFreq st)), st)
      else let nMin = m_nRetrySlotMax st; nMax = to_int (m_nRetrySlotMax st + m_lnFreq st);
               st' = st\<lparr>m_nRetrySlotMin := nMin, m_nRetrySlotMax := nMax\<rparr>
        in case CRNG_Get env time nMin nMax of
            Ok nRand \<Rightarrow> (Ok (m_llStartTime st + of_int nRand), st')
          | Err e \<Rightarrow> (Err e, st')
          | Fault \<Rightarrow> (Fault, st'))"

definition ActivationFailed :: "env \<Rightarrow> 32 word \<Rightarrow> (CBackOffStates, unit) cmd" where
  "ActivationFailed env time st =
     (if \<not> in_int (m_nAttempts st + 1) then (Fault, st)
      else then_do (CBackOffStates_GetNextRetryTime env time)
             (\<lambda>t. modify (\<lambda>st. st\<lparr>m_llNextTime := t\<rparr>)) (st\<lparr>m_nAttempts := m_nAttempts st + 1\<rparr>))"

definition CheckIfProceed :: "64 word \<Rightarrow> CBackOffStates \<Rightarrow> bool" where
  "CheckIfProceed now st = (now > m_llNextTime st)"

section \<open>CActivationBackoff.cpp\<close>

definition upd_backoff :: "(CActivationBackoff \<Rightarrow> CActivationBackoff) \<Rightarrow> ('a auth_scheme, unit) cmd" where
  "upd_backoff f = modify (\<lambda>s. s\<lparr>backoff := f (backoff s)\<rparr>)"

text \<open>\<open>m_pBackOffState->\<close>: a fault when the pointer is NULL.\<close>

definition deref_state :: "('a auth_scheme, CBackOffStates) cmd" where
  "deref_state s = (case m_pBackOffState (backoff s) of None \<Rightarrow> (Fault, s) | Some st \<Rightarrow> (Ok st, s))"

definition put_state :: "CBackOffStates \<Rightarrow> ('a auth_scheme, unit) cmd" where
  "put_state st = upd_backoff (\<lambda>ab. ab\<lparr>m_pBackOffState := Some st\<rparr>)"

definition ResetState :: "env \<Rightarrow> ('a auth_scheme, unit) cmd" where
  "ResetState env = then_do (new_CInitialState env) put_state"

definition Init :: "env \<Rightarrow> ('a auth_scheme, unit) cmd" where
  "Init env = then_do (upd_backoff (\<lambda>ab. ab\<lparr>m_bIncrementIgnitionCount := False\<rparr>)) (\<lambda>_. ResetState env)"

text \<open>The constructor; a static object starts with zero bytes.\<close>

definition CActivationBackoff_ctor :: "env \<Rightarrow> ('a auth_scheme, unit) cmd" where
  "CActivationBackoff_ctor env =
     (let en = GetBool env ''HCPAuth.ActivationBackOffConf.enable'' False in
      then_do (upd_backoff (\<lambda>ab. ab\<lparr>m_bIsEnable := en\<rparr>)) (\<lambda>_.
      if en then
        then_do get_st (\<lambda>s.
        then_do (upd_backoff (\<lambda>ab. ab\<lparr>g_nIgnitionThreshold := backoff_conf env ''ignitionThreshold'' 50,
            m_lIgnitionCount := StringToNumber (LocalConfig_Get ''IGNITION_COUNT'' s),
            m_eLastErrorState := eERR_NETWORK, m_pBackOffState := None\<rparr>)) (\<lambda>_.
        Init env))
      else ret ()))"

definition IncrementIgnitionCount :: "('a auth_scheme, unit) cmd" where
  "IncrementIgnitionCount =
     then_do get_st (\<lambda>s.
     if \<not> m_bIncrementIgnitionCount (backoff s) then ret ()
     else let n = m_lIgnitionCount (backoff s) + 1 in
       then_do (upd_backoff (\<lambda>ab. ab\<lparr>m_lIgnitionCount := n\<rparr>)) (\<lambda>_.
       then_do (LocalConfig_Set ''IGNITION_COUNT'' (NumberToString (to_int n))) (\<lambda>_.
       upd_backoff (\<lambda>ab. ab\<lparr>m_bIncrementIgnitionCount := False\<rparr>))))"

definition CheckCurrentState :: "env \<Rightarrow> ('a auth_scheme, unit) cmd" where
  "CheckCurrentState env =
     then_do deref_state (\<lambda>st.
     then_do get_st (\<lambda>s.
     case TryStateChange (backoff s) st of
       None \<Rightarrow> ret ()
     | Some k \<Rightarrow> then_do (new_state env k) put_state))"

definition network_error :: "HttpErrorCode \<Rightarrow> bool" where
  "network_error e = (e = eERR_NETWORK \<or> e = eERR_TIMEOUT)"

definition Proceed :: "env \<Rightarrow> ('a auth_scheme, bool) cmd" where
  "Proceed env =
     then_do get_st (\<lambda>s.
     if \<not> m_bIsEnable (backoff s) then ret True
     else
       then_do (if network_error (m_eLastErrorState (backoff s)) then ret () else IncrementIgnitionCount) (\<lambda>_.
       then_do deref_state (\<lambda>st.
       if CheckIfProceed (mono_ms s) st then then_do (CheckCurrentState env) (\<lambda>_. ret True)
       else ret False)))"

definition CalculateNextRetry :: "env \<Rightarrow> HttpErrorCode \<Rightarrow> ('a auth_scheme, unit) cmd" where
  "CalculateNextRetry env e =
     then_do get_st (\<lambda>s.
     if \<not> m_bIsEnable (backoff s) then ret ()
     else
       then_do (upd_backoff (\<lambda>ab. ab\<lparr>m_eLastErrorState := e\<rparr>)) (\<lambda>_.
       if network_error e then ret ()
       else then_do deref_state (\<lambda>st.
         case ActivationFailed env (wall_s s) st of
           (Ok _, st') \<Rightarrow> put_state st'
         | (Err er, st') \<Rightarrow> then_do (put_state st') (\<lambda>_. throw er)
         | (Fault, st') \<Rightarrow> fault)))"

definition Reset :: "env \<Rightarrow> ('a auth_scheme, unit) cmd" where
  "Reset env =
     then_do (Init env) (\<lambda>_.
     then_do (upd_backoff (\<lambda>ab. ab\<lparr>m_lIgnitionCount := 0\<rparr>)) (\<lambda>_.
     LocalConfig_Set ''IGNITION_COUNT'' (NumberToString 0)))"

text \<open>An event is its id and the two string fields that are looked at.\<close>

definition ProcessEvent :: "env \<Rightarrow> string \<Rightarrow> string \<Rightarrow> string \<Rightarrow> ('a auth_scheme, unit) cmd" where
  "ProcessEvent env strEventId state status =
     then_do get_st (\<lambda>s.
     if \<not> m_bIsEnable (backoff s) \<or> IsActivated s then ret ()
     else
       then_do (if strEventId = ''IgnStatus'' then
           then_do deref_state (\<lambda>st.
           if state = ''run'' then
             then_do (upd_backoff (\<lambda>ab. ab\<lparr>m_bIncrementIgnitionCount := True\<rparr>)) (\<lambda>_.
             put_state (st\<lparr>m_bIsIgnStateChanged := True\<rparr>))
           else put_state (st\<lparr>m_bIsIgnStateChanged := False\<rparr>))
         else ret ()) (\<lambda>_.
       then_do (if strEventId = ''DeviceRemoval'' then
           then_do deref_state (\<lambda>st.
           put_state (st\<lparr>m_bIsDeviceStateChanged := (status = ''attached'')\<rparr>))
         else ret ()) (\<lambda>_.
       CheckCurrentState env)))"

section \<open>Frames\<close>

text \<open>What the reports of the activation state leave alone.\<close>

definition same_backoff :: "'a auth_scheme \<Rightarrow> 'a auth_scheme \<Rightarrow> bool" where
  "same_backoff s s' = (backoff s' = backoff s \<and> local_config s' = local_config s \<and>
     mono_ms s' = mono_ms s \<and> wall_s s' = wall_s s \<and> auth.more s' = auth.more s)"

lemma same_backoff_refl [simp, intro]: "same_backoff s s"
  by (simp add: same_backoff_def)

lemma same_backoffD:
  assumes "same_backoff s s'"
  shows "backoff s' = backoff s" "local_config s' = local_config s" "mono_ms s' = mono_ms s"
    "wall_s s' = wall_s s"
  using assms by (auto simp: same_backoff_def)

lemma SetActivationState_run:
  "\<exists>s'. SetActivationState b r s = (Ok (), s') \<and> same_backoff s s' \<and>
     activation s' = (activation s)\<lparr>m_bActivationState := b, m_eNotActivationReason := r\<rparr>"
  by (auto simp: SetActivationState_def Send_event_def cmd_simps then_do_def same_backoff_def)

section \<open>The new state, by its kind\<close>

definition kind_freq :: "env \<Rightarrow> BackoffState \<Rightarrow> int" where
  "kind_freq env k = (case k of
      eINITIAL \<Rightarrow> backoff_conf env ''initialFreq'' 5000
    | eHIGH_FREQ \<Rightarrow> backoff_conf env ''highFreqDuration'' 60000
    | eNORMAL_FREQ \<Rightarrow> backoff_conf env ''normalFreqDuration'' 240000
    | eLOW_FREQ \<Rightarrow> backoff_conf env ''lowFreqDuration'' 720000
    | eOVER_IGN_THRESHOLD_HIGH_FREQ \<Rightarrow> backoff_conf env ''highFreqAfterIgnitionThreshold'' 12000
    | eOVER_IGN_THRESHOLD_LOW_FREQ \<Rightarrow> backoff_conf env ''lowFreqAfterIgnitionThreshold'' 900000)"

definition kind_max :: "env \<Rightarrow> BackoffState \<Rightarrow> int" where
  "kind_max env k = (case k of
      eINITIAL \<Rightarrow> backoff_conf env ''initialAttempts'' 24
    | eHIGH_FREQ \<Rightarrow> backoff_conf env ''highFreqAttempts'' 10
    | eNORMAL_FREQ \<Rightarrow> backoff_conf env ''normalFreqAttempts'' 15
    | eOVER_IGN_THRESHOLD_HIGH_FREQ \<Rightarrow> backoff_conf env ''highFreqAttemptAfterIgnitionThreshold'' 10
    | _ \<Rightarrow> 0)"

definition kind_slot :: "BackoffState \<Rightarrow> int" where
  "kind_slot k = (if k = eHIGH_FREQ then 5000 else 0)"

definition fresh_state :: "env \<Rightarrow> BackoffState \<Rightarrow> 64 word \<Rightarrow> CBackOffStates" where
  "fresh_state env k now =
     \<lparr>m_eCurrBackoffState = k, m_llStartTime = now, m_llNextTime = now,
      m_bIsIgnStateChanged = False, m_bIsDeviceStateChanged = False, m_lnFreq = kind_freq env k,
      m_nMaxAttempts = kind_max env k, m_nAttempts = 0, m_nRetrySlotMin = 0,
      m_nRetrySlotMax = kind_slot k\<rparr>"

lemma new_state_run:
  "\<exists>s'. new_state env k s = (Ok (fresh_state env k (mono_ms s)), s') \<and> same_backoff s s'"
proof (cases "k = eINITIAL")
  case True
  then show ?thesis
    by (auto simp: new_state_def new_CInitialState_def fresh_state_def new_CBackOffStates_def
      kind_freq_def kind_max_def kind_slot_def cmd_simps then_do_def)
next
  case False
  obtain s' where "SetActivationState False eSTATE_RESET s = (Ok (), s')" "same_backoff s s'"
    using SetActivationState_run by blast
  then show ?thesis
    using False
    by (cases k; simp add: new_state_def new_CHighFreqState_def new_CNormalFreqState_def
      new_CLowFreqState_def new_COverIgnThresholdHighFreq_def new_COverIgnThresholdLowFreq_def
      fresh_state_def new_CBackOffStates_def kind_freq_def kind_max_def kind_slot_def cmd_simps
      then_do_def)
qed

section \<open>Retry times stay in their slot\<close>

text \<open>
  The specification of the retry times: after \<open>a\<close> failed attempts in one state, the next
  attempt is not due before \<open>delay_low\<close> and due after \<open>delay_high\<close> milliseconds from the
  entry of the state.
\<close>

definition delay_low :: "env \<Rightarrow> BackoffState \<Rightarrow> int \<Rightarrow> int" where
  "delay_low env k a =
     (if overrides_next_time k then a * kind_freq env k
      else if a = 0 then 0 else kind_slot k + (a - 1) * kind_freq env k)"

definition delay_high :: "env \<Rightarrow> BackoffState \<Rightarrow> int \<Rightarrow> int" where
  "delay_high env k a =
     (if a = 0 then 0 else kind_slot k + a * kind_freq env k)"

definition slots_ok :: "env \<Rightarrow> CBackOffStates \<Rightarrow> bool" where
  "slots_ok env st =
     (let k = m_eCurrBackoffState st; a = m_nAttempts st in
        m_lnFreq st = kind_freq env k \<and> m_nMaxAttempts st = kind_max env k \<and> 0 \<le> a \<and>
        m_nRetrySlotMax st = kind_slot k + (if overrides_next_time k then 0 else a * kind_freq env k) \<and>
        (\<exists>d. delay_low env k a \<le> d \<and> d \<le> delay_high env k a \<and>
           m_llNextTime st = m_llStartTime st + of_int d))"

definition freqs_below :: "env \<Rightarrow> int \<Rightarrow> bool" where
  "freqs_below env B = (\<forall>k. 0 \<le> kind_freq env k \<and> kind_freq env k \<le> B)"

lemma slots_ok_fresh [simp]: "slots_ok env (fresh_state env k now)"
  by (auto simp: slots_ok_def fresh_state_def delay_low_def delay_high_def intro!: exI[of _ 0])

lemma kind_slot_range: "0 \<le> kind_slot k" "kind_slot k \<le> 5000" "overrides_next_time k \<Longrightarrow> kind_slot k = 0"
  by (auto simp: kind_slot_def overrides_next_time_def)

lemma GetNextRetryTime_slots:
  assumes env: "rand_ok env" "0 \<le> m_lnFreq st" and k: "m_eCurrBackoffState st = k"
    and no: "\<not> overrides_next_time k"
    and bound: "0 \<le> m_nRetrySlotMax st" "m_nRetrySlotMax st + m_lnFreq st < 2 ^ 31 - 1"
  obtains d where
    "m_nRetrySlotMax st \<le> d" "d \<le> m_nRetrySlotMax st + m_lnFreq st"
    "CBackOffStates_GetNextRetryTime env time st = (Ok (m_llStartTime st + of_int d),
       st\<lparr>m_nRetrySlotMin := m_nRetrySlotMax st, m_nRetrySlotMax := m_nRetrySlotMax st + m_lnFreq st\<rparr>)"
proof -
  have i: "to_int (m_nRetrySlotMax st + m_lnFreq st) = m_nRetrySlotMax st + m_lnFreq st"
    using bound env(2) by (intro to_int_id) (simp add: in_int_def)
  obtain d where "CRNG_Get env time (m_nRetrySlotMax st) (m_nRetrySlotMax st + m_lnFreq st) = Ok d"
    "m_nRetrySlotMax st \<le> d" "d \<le> m_nRetrySlotMax st + m_lnFreq st"
    using CRNG_Get_range[of env "m_nRetrySlotMax st" "m_nRetrySlotMax st + m_lnFreq st" time] env bound
    by (auto simp: in_int_def)
  then show thesis
    using that k no by (simp add: CBackOffStates_GetNextRetryTime_def Let_def i)
qed

lemma ActivationFailed_slots:
  assumes env: "rand_ok env" "freqs_below env B" and st: "slots_ok env st"
    and bound: "m_nAttempts st + 1 < 2 ^ 31" "5000 + (m_nAttempts st + 1) * B < 2 ^ 31 - 1"
  obtains st' where "ActivationFailed env time st = (Ok (), st')" "slots_ok env st'"
    "m_nAttempts st' = m_nAttempts st + 1" "m_eCurrBackoffState st' = m_eCurrBackoffState st"
    "m_llStartTime st' = m_llStartTime st" "input_changed st' = input_changed st"
proof -
  define k where "k = m_eCurrBackoffState st"
  define a where "a = m_nAttempts st"
  define F where "F = kind_freq env k"
  have F: "0 \<le> F" "F \<le> B"
    using env(2) by (simp_all add: freqs_below_def F_def)
  have a: "0 \<le> a" "m_lnFreq st = F"
    "m_nRetrySlotMax st = kind_slot k + (if overrides_next_time k then 0 else a * F)"
    using st by (simp_all add: slots_ok_def Let_def a_def F_def k_def)
  have int: "in_int (a + 1)"
    using a(1) bound(1) by (simp add: in_int_def a_def)
  show thesis
  proof (cases "overrides_next_time k")
    case True
    obtain d where d: "a * F \<le> d" "d \<le> delay_high env k a" "m_llNextTime st = m_llStartTime st + of_int d"
      using st True by (auto simp: slots_ok_def Let_def delay_low_def a_def F_def k_def)
    then have "d = a * F"
      using True kind_slot_range(3)[of k] by (auto simp: delay_high_def F_def split: if_splits)
    then have "m_llNextTime st + of_int F = m_llStartTime st + of_int ((a + 1) * F)"
      using d(3) by (simp add: ring_distribs add.commute add.left_commute)
    note next_time = this
    let ?st = "st\<lparr>m_nAttempts := a + 1, m_llNextTime := m_llNextTime st + of_int F\<rparr>"
    have "ActivationFailed env time st = (Ok (), ?st)"
      using True int a(2)
      by (simp add: ActivationFailed_def CBackOffStates_GetNextRetryTime_def then_do_def cmd_simps
        a_def[symmetric] k_def[symmetric])
    moreover have "slots_ok env ?st"
      unfolding slots_ok_def Let_def
    proof (intro conjI exI[of _ "(a + 1) * F"])
      show "m_llNextTime ?st = m_llStartTime ?st + word_of_int ((a + 1) * F)"
        using next_time by simp
    qed (use st True a kind_slot_range(3)[of k] in
      \<open>simp_all add: slots_ok_def Let_def delay_low_def delay_high_def k_def[symmetric] F_def[symmetric]\<close>)
    ultimately show thesis
      using that[of ?st] by (simp add: a_def input_changed_def)
  next
    case False
    have "0 \<le> a * F" "a * F + F \<le> (a + 1) * B"
      using F a(1) by (simp_all add: mult_left_mono ring_distribs add_mono)
    then have "0 \<le> m_nRetrySlotMax st" "m_nRetrySlotMax st + F < 2 ^ 31 - 1"
      using bound(2) kind_slot_range(1,2)[of k] False a(3) by (auto simp: a_def)
    then obtain d where d: "m_nRetrySlotMax st \<le> d" "d \<le> m_nRetrySlotMax st + F"
      "CBackOffStates_GetNextRetryTime env time (st\<lparr>m_nAttempts := a + 1\<rparr>) = (Ok (m_llStartTime st + of_int d),
       (st\<lparr>m_nAttempts := a + 1\<rparr>)\<lparr>m_nRetrySlotMin := m_nRetrySlotMax st, m_nRetrySlotMax := m_nRetrySlotMax st + F\<rparr>)"
      using GetNextRetryTime_slots[of env "st\<lparr>m_nAttempts := a + 1\<rparr>" k time] env(1) F(1) a(2) False k_def
      by auto
    let ?st = "st\<lparr>m_nAttempts := a + 1, m_nRetrySlotMin := m_nRetrySlotMax st,
      m_nRetrySlotMax := m_nRetrySlotMax st + F, m_llNextTime := m_llStartTime st + of_int d\<rparr>"
    have "ActivationFailed env time st = (Ok (), ?st)"
      using d(3) int by (simp add: ActivationFailed_def then_do_def cmd_simps a_def[symmetric])
    moreover have "slots_ok env ?st"
      using a st False d(1,2)
      by (auto simp: slots_ok_def Let_def k_def[symmetric] F_def[symmetric] delay_low_def delay_high_def
        ring_distribs intro!: exI[of _ d])
    ultimately show thesis
      using that[of ?st] by (simp add: a_def input_changed_def)
  qed
qed

section \<open>Runs of operations\<close>

text \<open>An operation, or the passing of time.\<close>

datatype auth_op =
    Tick "64 word" "32 word"
  | DoProceed
  | DoCalculateNextRetry HttpErrorCode
  | DoReset
  | DoProcessEvent string string string

definition auth_step :: "env \<Rightarrow> auth_op \<Rightarrow> ('a auth_scheme, unit) cmd" where
  "auth_step env op = (case op of
      Tick m w \<Rightarrow> modify (\<lambda>s. s\<lparr>mono_ms := m, wall_s := w\<rparr>)
    | DoProceed \<Rightarrow> then_do (Proceed env) (\<lambda>_. ret ())
    | DoCalculateNextRetry e \<Rightarrow> CalculateNextRetry env e
    | DoReset \<Rightarrow> Reset env
    | DoProcessEvent i st d \<Rightarrow> ProcessEvent env i st d)"

definition state_ok :: "env \<Rightarrow> int \<Rightarrow> CActivationBackoff \<Rightarrow> bool" where
  "state_ok env n ab = (m_bIsEnable ab \<longrightarrow>
     (\<exists>st. m_pBackOffState ab = Some st \<and> slots_ok env st \<and> m_nAttempts st \<le> n))"

lemma state_okI: "m_pBackOffState ab = Some st \<Longrightarrow> slots_ok env st \<Longrightarrow> m_nAttempts st \<le> n \<Longrightarrow> state_ok env n ab"
  by (simp add: state_ok_def)

lemma state_ok_upd [simp]:
  "state_ok env n (ab\<lparr>m_lIgnitionCount := c\<rparr>) = state_ok env n ab"
  "state_ok env n (ab\<lparr>m_bIncrementIgnitionCount := b\<rparr>) = state_ok env n ab"
  "state_ok env n (ab\<lparr>m_eLastErrorState := e\<rparr>) = state_ok env n ab"
  by (simp_all add: state_ok_def)

lemma state_ok_mono: "state_ok env n ab \<Longrightarrow> n \<le> m \<Longrightarrow> state_ok env m ab"
  by (fastforce simp: state_ok_def)

lemma fresh_attempts [simp]: "m_nAttempts (fresh_state env k now) = 0"
  by (simp add: fresh_state_def)

lemma succeeds_new_state:
  "(\<And>s'. same_backoff s s' \<Longrightarrow> Q (fresh_state env k (mono_ms s)) s') \<Longrightarrow> succeeds (new_state env k) s Q"
  using new_state_run[of env k s] by (auto intro: succeedsI)

lemma succeeds_new_CInitialState [outcome_simps]:
  "succeeds (new_CInitialState env) s Q = Q (fresh_state env eINITIAL (mono_ms s)) s"
  by (simp add: new_CInitialState_def outcome_simps fresh_state_def new_CBackOffStates_def
    kind_freq_def kind_max_def kind_slot_def)

lemmas succeeds_fields [outcome_simps] =
  upd_backoff_def put_state_def LocalConfig_Set_def LocalConfig_Remove_def Send_event_def

lemma succeeds_deref_state [outcome_simps]:
  "succeeds deref_state s Q = (\<exists>st. m_pBackOffState (backoff s) = Some st \<and> Q st s)"
  by (auto simp: succeeds_def deref_state_def split: option.splits)

lemma succeeds_Reset:
  "succeeds (Reset env) s (\<lambda>_ s'. backoff s' = (backoff s)\<lparr>m_bIncrementIgnitionCount := False,
     m_pBackOffState := Some (fresh_state env eINITIAL (mono_ms s)), m_lIgnitionCount := 0\<rparr> \<and>
     mono_ms s' = mono_ms s \<and> wall_s s' = wall_s s)"
  by (simp add: Reset_def Init_def ResetState_def outcome_simps)

lemma succeeds_IncrementIgnitionCount:
  "succeeds IncrementIgnitionCount s (\<lambda>_ s'. (\<exists>n b. backoff s' = (backoff s)
     \<lparr>m_lIgnitionCount := n, m_bIncrementIgnitionCount := b\<rparr>) \<and> mono_ms s' = mono_ms s \<and> wall_s s' = wall_s s)"
proof -
  have "\<exists>n b. backoff s = (backoff s)\<lparr>m_lIgnitionCount := n, m_bIncrementIgnitionCount := b\<rparr>"
    by (intro exI[of _ "m_lIgnitionCount (backoff s)"] exI[of _ "m_bIncrementIgnitionCount (backoff s)"]) simp
  then show ?thesis
    by (auto simp: IncrementIgnitionCount_def Let_def outcome_simps)
qed

lemma succeeds_CheckCurrentState:
  assumes "m_pBackOffState (backoff s) = Some st" "slots_ok env st" "m_nAttempts st \<le> n" "0 \<le> n"
  shows "succeeds (CheckCurrentState env) s (\<lambda>_ s'. state_ok env n (backoff s'))"
proof (cases "TryStateChange (backoff s) st")
  case None
  then show ?thesis
    using assms by (auto simp: CheckCurrentState_def outcome_simps intro: state_okI)
next
  case (Some k)
  have "succeeds (new_state env k) s (\<lambda>x s'. state_ok env n (backoff s'\<lparr>m_pBackOffState := Some x\<rparr>))"
    using assms(4) by (intro succeeds_new_state state_okI[of _ "fresh_state env k (mono_ms s)"]) auto
  then show ?thesis
    using assms Some by (simp add: CheckCurrentState_def outcome_simps)
qed

lemma slots_ok_input [simp]:
  "slots_ok env (st\<lparr>m_bIsIgnStateChanged := b\<rparr>) = slots_ok env st"
  "slots_ok env (st\<lparr>m_bIsDeviceStateChanged := b\<rparr>) = slots_ok env st"
  by (simp_all add: slots_ok_def Let_def)

lemma succeeds_CalculateNextRetry:
  assumes "rand_ok env" "freqs_below env B" "0 \<le> n" "0 \<le> B"
    and "n + 1 < 2 ^ 31" "5000 + (n + 1) * B < 2 ^ 31 - 1" and ok: "state_ok env n (backoff s)"
  shows "succeeds (CalculateNextRetry env e) s (\<lambda>_ s'. state_ok env (n + 1) (backoff s'))"
proof (cases "m_bIsEnable (backoff s) \<and> \<not> network_error e")
  case False
  then show ?thesis
    using state_ok_mono[OF ok, of "n + 1"] by (auto simp: CalculateNextRetry_def outcome_simps)
next
  case True
  then obtain st where st: "m_pBackOffState (backoff s) = Some st" "slots_ok env st" "m_nAttempts st \<le> n"
    using ok by (auto simp: state_ok_def)
  have "5000 + (m_nAttempts st + 1) * B < 2 ^ 31 - 1"
    using mult_right_mono[of "m_nAttempts st + 1" "n + 1" B] assms(4,6) st(3) by linarith
  then obtain st' where st': "ActivationFailed env (wall_s s) st = (Ok (), st')" "slots_ok env st'"
    "m_nAttempts st' = m_nAttempts st + 1"
    using ActivationFailed_slots[OF assms(1,2) st(2), of "wall_s s"] st(3) assms(5) by (metis add_le_cancel_right le_less_trans)
  have "state_ok env (n + 1) (backoff s\<lparr>m_eLastErrorState := e, m_pBackOffState := Some st'\<rparr>)"
    using st' st(3) by (intro state_okI[of _ st']) auto
  then show ?thesis
    using True st(1) st'(1) by (simp add: CalculateNextRetry_def outcome_simps)
qed

lemma succeeds_Proceed:
  fixes s :: "'a auth_scheme"
  assumes ok: "state_ok env n (backoff s)" "0 \<le> n"
  shows "succeeds (Proceed env) s (\<lambda>_ s'. state_ok env n (backoff s'))"
proof (cases "m_bIsEnable (backoff s)")
  case False
  then show ?thesis
    using ok by (simp add: Proceed_def outcome_simps)
next
  case True
  then obtain st where st: "m_pBackOffState (backoff s) = Some st" "slots_ok env st" "m_nAttempts st \<le> n"
    using ok by (auto simp: state_ok_def)
  have rest: "succeeds (CheckCurrentState env) s' (\<lambda>_ s'. state_ok env n (backoff s'))"
    "state_ok env n (backoff s')"
    if "m_pBackOffState (backoff s') = Some st" for s' :: "'a auth_scheme"
    using succeeds_CheckCurrentState[OF that st(2,3) ok(2)] that st by (auto intro: state_okI)
  show ?thesis
  proof (cases "network_error (m_eLastErrorState (backoff s))")
    case True
    then show ?thesis
      using \<open>m_bIsEnable (backoff s)\<close> st(1) rest by (simp add: Proceed_def outcome_simps)
  next
    case False
    have "succeeds IncrementIgnitionCount s (\<lambda>_ s'. \<exists>st. m_pBackOffState (backoff s') = Some st \<and>
        (if CheckIfProceed (mono_ms s) st
         then succeeds (CheckCurrentState env) s' (\<lambda>_ s'. state_ok env n (backoff s'))
         else state_ok env n (backoff s')))"
      by (rule succeeds_mono[OF succeeds_IncrementIgnitionCount]) (use st(1) rest in auto)
    then show ?thesis
      using False \<open>m_bIsEnable (backoff s)\<close> by (simp add: Proceed_def outcome_simps) (auto elim!: succeeds_mono split: if_splits)
  qed
qed

lemma succeeds_ProcessEvent:
  assumes ok: "state_ok env n (backoff s)" "0 \<le> n"
  shows "succeeds (ProcessEvent env i stt d) s (\<lambda>_ s'. state_ok env n (backoff s'))"
proof (cases "m_bIsEnable (backoff s) \<and> \<not> IsActivated s")
  case False
  then show ?thesis
    using ok by (auto simp: ProcessEvent_def outcome_simps)
next
  case True
  then obtain st where st: "m_pBackOffState (backoff s) = Some st" "slots_ok env st" "m_nAttempts st \<le> n"
    using ok by (auto simp: state_ok_def)
  have rest: "succeeds (CheckCurrentState env) s' (\<lambda>_ s'. state_ok env n (backoff s'))"
    if "m_pBackOffState (backoff s') = Some st'" "slots_ok env st'" "m_nAttempts st' \<le> n" for s' st'
    using succeeds_CheckCurrentState that ok(2) by blast
  show ?thesis
    using True st by (auto simp: ProcessEvent_def outcome_simps intro!: rest)
qed

lemma auth_step_state_ok:
  assumes "rand_ok env" "freqs_below env B" "0 \<le> B"
    and "int n + 1 < 2 ^ 31" "5000 + (int n + 1) * B < 2 ^ 31 - 1" and ok: "state_ok env (int n) (backoff s)"
  shows "succeeds (auth_step env op) s (\<lambda>_ s'. state_ok env (int (Suc n)) (backoff s'))"
proof (cases op)
  case (DoProceed)
  then show ?thesis
    using succeeds_mono[OF succeeds_Proceed[OF ok]] state_ok_mono[of env "int n" _ "int (Suc n)"]
    by (auto simp: auth_step_def outcome_simps)
next
  case (DoCalculateNextRetry e)
  then show ?thesis
    using succeeds_CalculateNextRetry[OF assms(1,2) _ assms(3-5) ok, of e] by (simp add: auth_step_def add.commute)
next
  case DoReset
  have "succeeds (Reset env) s (\<lambda>_ s'. state_ok env (int (Suc n)) (backoff s'))"
    by (rule succeeds_mono[OF succeeds_Reset]) (auto intro!: state_okI[of _ "fresh_state env eINITIAL (mono_ms s)"])
  then show ?thesis
    using DoReset by (simp add: auth_step_def)
next
  case (DoProcessEvent i st d)
  then show ?thesis
    using succeeds_mono[OF succeeds_ProcessEvent[OF ok, of i st d]] state_ok_mono[of env "int n" _ "int (Suc n)"]
    by (auto simp: auth_step_def)
qed (use state_ok_mono[OF ok, of "int (Suc n)"] in \<open>simp add: auth_step_def outcome_simps\<close>)

lemma auth_run_state_ok:
  assumes "rand_ok env" "freqs_below env B" "0 \<le> B"
    and len: "int (length ops) < 2 ^ 31" "5000 + int (length ops) * B < 2 ^ 31 - 1"
  shows "succeeds (then_do (CActivationBackoff_ctor env) (\<lambda>_. run_all (auth_step env) ops)) s
           (\<lambda>_ s'. state_ok env (int (length ops)) (backoff s'))"
proof -
  have start: "succeeds (CActivationBackoff_ctor env) s (\<lambda>_ s'. state_ok env (int 0) (backoff s'))"
    by (auto simp: CActivationBackoff_ctor_def Let_def Init_def ResetState_def outcome_simps
      state_ok_def)
  have step: "succeeds (auth_step env x) s (\<lambda>_ s'. state_ok env (int (Suc n)) (backoff s'))"
    if "n < length ops" "state_ok env (int n) (backoff s)" for x n and s :: "'a auth_scheme"
  proof (rule auth_step_state_ok[OF assms(1-3) _ _ that(2)])
    show "int n + 1 < 2 ^ 31"
      using that(1) len(1) by linarith
    have "(int n + 1) * B \<le> int (length ops) * B"
      using that(1) assms(3) by (intro mult_right_mono) auto
    then show "5000 + (int n + 1) * B < 2 ^ 31 - 1"
      using len(2) by linarith
  qed
  show ?thesis
    unfolding succeeds_then_do
  proof (rule succeeds_mono[OF start])
    fix s' :: "'a auth_scheme" assume "state_ok env (int 0) (backoff s')"
    then show "succeeds (run_all (auth_step env) ops) s' (\<lambda>_ s'. state_ok env (int (length ops)) (backoff s'))"
      using run_all_invariant[of ops "length ops" "\<lambda>n s. state_ok env (int n) (backoff s)" "auth_step env" 0 s'] step
      by simp
  qed
qed

section \<open>The schedule of failing attempts\<close>

text \<open>
  The clocks move, the token manager asks whether it may try, and reports a failure when it
  may. The value counts the attempts that were made.
\<close>

definition failed_attempt :: "env \<Rightarrow> 64 word \<times> 32 word \<Rightarrow> ('a auth_scheme, nat) cmd" where
  "failed_attempt env t =
     then_do (modify (\<lambda>s. s\<lparr>mono_ms := fst t, wall_s := snd t\<rparr>)) (\<lambda>_.
     then_do (Proceed env) (\<lambda>b.
     if b then then_do (CalculateNextRetry env eERR_RESPONSE_DATA) (\<lambda>_. ret 1) else ret 0))"

fun failed_attempts :: "env \<Rightarrow> (64 word \<times> 32 word) list \<Rightarrow> ('a auth_scheme, nat) cmd" where
  "failed_attempts env [] = ret 0"
| "failed_attempts env (t # ts) =
     then_do (failed_attempt env t) (\<lambda>m. then_do (failed_attempts env ts) (\<lambda>n. ret (m + n)))"

definition schedule :: "env \<Rightarrow> int \<Rightarrow> BackoffState \<times> int" where
  "schedule env n =
     (let a = kind_max env eINITIAL; b = a + kind_max env eHIGH_FREQ; c = b + kind_max env eNORMAL_FREQ in
      if n \<le> a then (eINITIAL, n)
      else if n \<le> b then (eHIGH_FREQ, n - a)
      else if n \<le> c then (eNORMAL_FREQ, n - b)
      else (eLOW_FREQ, n - c))"

definition on_schedule :: "env \<Rightarrow> nat \<Rightarrow> 'a auth_scheme \<Rightarrow> bool" where
  "on_schedule env n s =
     (m_bIsEnable (backoff s) \<and> \<not> m_bIncrementIgnitionCount (backoff s) \<and>
      m_lIgnitionCount (backoff s) \<le> g_nIgnitionThreshold (backoff s) \<and>
      (\<exists>st. m_pBackOffState (backoff s) = Some st \<and> slots_ok env st \<and> \<not> input_changed st \<and>
        (m_eCurrBackoffState st, m_nAttempts st) = schedule env (int n)))"

definition maxima_positive :: "env \<Rightarrow> bool" where
  "maxima_positive env =
     (0 < kind_max env eINITIAL \<and> 0 < kind_max env eHIGH_FREQ \<and> 0 < kind_max env eNORMAL_FREQ)"

lemma schedule_attempts: "maxima_positive env \<Longrightarrow> 0 \<le> n \<Longrightarrow> snd (schedule env n) \<le> n"
  by (auto simp: schedule_def Let_def maxima_positive_def)

lemma schedule_step:
  assumes "maxima_positive env" "0 \<le> n" "slots_ok env st" "\<not> input_changed st"
    and "m_lIgnitionCount ab \<le> g_nIgnitionThreshold ab"
    and "(m_eCurrBackoffState st, m_nAttempts st) = schedule env n"
  shows "schedule env (n + 1) = (case TryStateChange ab st of
      None \<Rightarrow> (m_eCurrBackoffState st, m_nAttempts st + 1) | Some k \<Rightarrow> (k, 1))"
  using assms
  by (auto simp: schedule_def Let_def TryStateChange_def CInitialState_TryStateChange_def
    CHighFreqState_TryStateChange_def CNormalFreqState_TryStateChange_def CLowFreqState_TryStateChange_def
    slots_ok_def maxima_positive_def split: if_splits)

lemma succeeds_CheckCurrentState_schedule:
  assumes "maxima_positive env" "on_schedule env n s"
  shows "succeeds (CheckCurrentState env) s (\<lambda>_ s'. wall_s s' = wall_s s \<and>
    (\<exists>st. backoff s' = (backoff s)\<lparr>m_pBackOffState := Some st\<rparr> \<and> slots_ok env st \<and> \<not> input_changed st \<and>
      (m_eCurrBackoffState st, m_nAttempts st + 1) = schedule env (int n + 1)))"
proof -
  obtain st where st: "m_pBackOffState (backoff s) = Some st" "slots_ok env st" "\<not> input_changed st"
    "(m_eCurrBackoffState st, m_nAttempts st) = schedule env (int n)"
    and count: "m_lIgnitionCount (backoff s) \<le> g_nIgnitionThreshold (backoff s)"
    using assms(2) by (auto simp: on_schedule_def)
  note next_state = schedule_step[OF assms(1) _ st(2,3) count st(4), simplified]
  show ?thesis
  proof (cases "TryStateChange (backoff s) st")
    case None
    then show ?thesis
      using st next_state by (auto simp: CheckCurrentState_def outcome_simps intro!: exI[of _ st])
  next
    case (Some k)
    have "succeeds (new_state env k) s (\<lambda>x s'. wall_s s' = wall_s s \<and>
      (\<exists>st. backoff s'\<lparr>m_pBackOffState := Some x\<rparr> = (backoff s)\<lparr>m_pBackOffState := Some st\<rparr> \<and> slots_ok env st \<and>
        \<not> input_changed st \<and> (m_eCurrBackoffState st, m_nAttempts st + 1) = schedule env (int n + 1)))"
      using next_state Some
      by (intro succeeds_new_state)
        (auto simp: same_backoff_def fresh_state_def input_changed_def slots_ok_fresh[unfolded fresh_state_def]
          intro!: exI[of _ "fresh_state env k (mono_ms s)"])
    then show ?thesis
      using st(1) Some by (simp add: CheckCurrentState_def outcome_simps)
  qed
qed

lemma succeeds_CalculateNextRetry_schedule:
  assumes env: "rand_ok env" "freqs_below env B" "0 \<le> B"
    and bound: "int n + 1 < 2 ^ 31" "5000 + (int n + 1) * B < 2 ^ 31 - 1"
    and s: "m_bIsEnable (backoff s)" "\<not> m_bIncrementIgnitionCount (backoff s)"
      "m_lIgnitionCount (backoff s) \<le> g_nIgnitionThreshold (backoff s)" "\<not> network_error e"
    and st: "m_pBackOffState (backoff s) = Some st" "slots_ok env st" "\<not> input_changed st"
      "(m_eCurrBackoffState st, m_nAttempts st + 1) = schedule env (int n + 1)" "m_nAttempts st \<le> int n"
  shows "succeeds (CalculateNextRetry env e) s (\<lambda>_ s'. on_schedule env (Suc n) s')"
proof -
  have "(m_nAttempts st + 1) * B \<le> (int n + 1) * B"
    using env(3) st(5) by (intro mult_right_mono) auto
  then have "5000 + (m_nAttempts st + 1) * B < 2 ^ 31 - 1" "m_nAttempts st + 1 < 2 ^ 31"
    using bound st(5) by linarith+
  then obtain st' where st': "ActivationFailed env (wall_s s) st = (Ok (), st')" "slots_ok env st'"
    "m_nAttempts st' = m_nAttempts st + 1" "m_eCurrBackoffState st' = m_eCurrBackoffState st"
    "input_changed st' = input_changed st"
    using ActivationFailed_slots[OF env(1,2) st(2), of "wall_s s"] by metis
  then show ?thesis
    using s st by (simp add: CalculateNextRetry_def outcome_simps on_schedule_def add.commute)
qed

lemma succeeds_failed_attempt:
  assumes env: "rand_ok env" "freqs_below env B" "0 \<le> B" "maxima_positive env"
    and bound: "int n + 1 < 2 ^ 31" "5000 + (int n + 1) * B < 2 ^ 31 - 1"
    and s: "on_schedule env n s"
  shows "succeeds (failed_attempt env t) s (\<lambda>m s'. m \<le> 1 \<and> on_schedule env (n + m) s')"
proof -
  define s1 where "s1 = s\<lparr>mono_ms := fst t, wall_s := snd t\<rparr>"
  have s1: "on_schedule env n s1"
    using s by (simp add: on_schedule_def s1_def)
  then obtain st where st: "m_pBackOffState (backoff s1) = Some st" "m_bIsEnable (backoff s1)"
    "\<not> m_bIncrementIgnitionCount (backoff s1)"
    by (auto simp: on_schedule_def)
  have "succeeds (then_do (CheckCurrentState env) (\<lambda>_. CalculateNextRetry env eERR_RESPONSE_DATA)) s1
      (\<lambda>_ s'. on_schedule env (Suc n) s')"
    unfolding succeeds_then_do
  proof (rule succeeds_mono[OF succeeds_CheckCurrentState_schedule[OF env(4) s1]])
    fix s' :: "'a auth_scheme"
    assume a: "wall_s s' = wall_s s1 \<and> (\<exists>st. backoff s' = (backoff s1)\<lparr>m_pBackOffState := Some st\<rparr> \<and>
      slots_ok env st \<and> \<not> input_changed st \<and>
      (m_eCurrBackoffState st, m_nAttempts st + 1) = schedule env (int n + 1))"
    then obtain st where st: "backoff s' = (backoff s1)\<lparr>m_pBackOffState := Some st\<rparr>"
      "slots_ok env st" "\<not> input_changed st"
      "(m_eCurrBackoffState st, m_nAttempts st + 1) = schedule env (int n + 1)"
      by blast
    have "m_nAttempts st \<le> int n"
      using schedule_attempts[OF env(4), of "int n + 1"] arg_cong[OF st(4), of snd] by simp
    then show "succeeds (CalculateNextRetry env eERR_RESPONSE_DATA) s' (\<lambda>_ s'. on_schedule env (Suc n) s')"
      using s1 st by (intro succeeds_CalculateNextRetry_schedule[OF env(1-3) bound])
        (auto simp: on_schedule_def network_error_def)
  qed
  then show ?thesis
    using st s1 by (auto simp: failed_attempt_def Proceed_def IncrementIgnitionCount_def outcome_simps s1_def[symmetric])
qed

lemma succeeds_failed_attempts:
  assumes env: "rand_ok env" "freqs_below env B" "0 \<le> B" "maxima_positive env"
    and bound: "int n + int (length ts) < 2 ^ 31" "5000 + (int n + int (length ts)) * B < 2 ^ 31 - 1"
    and s: "on_schedule env n s"
  shows "succeeds (failed_attempts env ts) s (\<lambda>m s'. m \<le> length ts \<and> on_schedule env (n + m) s')"
  using bound s
proof (induction ts arbitrary: n s)
  case Nil
  then show ?case by (simp add: outcome_simps)
next
  case (Cons t ts)
  have B: "j \<le> k \<Longrightarrow> j * B \<le> k * B" for j k
    using env(3) by (simp add: mult_right_mono)
  have "int n + 1 < 2 ^ 31" "5000 + (int n + 1) * B < 2 ^ 31 - 1"
    using Cons.prems(1,2) B[of "int n + 1" "int n + int (length (t # ts))"] by auto
  then have "succeeds (failed_attempt env t) s (\<lambda>m s'. m \<le> 1 \<and> on_schedule env (n + m) s')"
    using succeeds_failed_attempt[OF env] Cons.prems(3) by blast
  then show ?case
    unfolding failed_attempts.simps succeeds_then_do
  proof (rule succeeds_mono, elim conjE)
    fix m :: nat and s' :: "'a auth_scheme"
    assume m: "m \<le> 1" "on_schedule env (n + m) s'"
    have "succeeds (failed_attempts env ts) s' (\<lambda>k s'. k \<le> length ts \<and> on_schedule env (n + m + k) s')"
      using Cons.prems(1,2) m B[of "int (n + m) + int (length ts)" "int n + int (length (t # ts))"]
      by (intro Cons.IH) auto
    then show "succeeds (failed_attempts env ts) s'
        (\<lambda>k s'. succeeds (ret (m + k)) s' (\<lambda>m s'. m \<le> length (t # ts) \<and> on_schedule env (n + m) s'))"
      by (rule succeeds_mono) (use m in \<open>auto simp: outcome_simps add.assoc\<close>)
  qed
qed

lemma ctor_on_schedule:
  assumes "GetBool env ''HCPAuth.ActivationBackOffConf.enable'' False"
    and "StringToNumber (LocalConfig_Get ''IGNITION_COUNT'' s) \<le> backoff_conf env ''ignitionThreshold'' 50"
    and "maxima_positive env"
  shows "succeeds (CActivationBackoff_ctor env) s (\<lambda>_ s'. on_schedule env 0 s')"
  using assms
  by (auto simp: CActivationBackoff_ctor_def Let_def Init_def ResetState_def outcome_simps on_schedule_def
    input_changed_def fresh_state_def slots_ok_fresh[unfolded fresh_state_def] schedule_def maxima_positive_def LocalConfig_Get_def)

end
