(* ===== verification/Token.thy ===== *)
theory Token
  imports Activation
begin

text \<open>
  \<open>libClientBL/src/auth/CTokenManager.cpp\<close>: activation and login over HTTP, on top of the
  activation back off. The HTTP connector is a script of replies: each request takes the next
  reply, and a script that has run out is a network error. \<open>requests\<close> records what was sent.

  From other parts come, as functions of the environment: the encryption of the passcode with the
  key of the device, the text of the details that jsoncpp writes, \<open>strptime\<close> with \<open>mktime\<close>, and
  the qualifier of the product. The mutex of the manager makes each call one step.
\<close>

section \<open>State\<close>

datatype LoginError = eLE_SUCCESS | eLE_INVALID_CREDENTIAL | eLE_INVALID_SCOPE | eLE_UNKNOWN

record CActivationResponse =
  act_eHttpSessionErrCode :: HttpErrorCode
  act_lHttpRespCode :: int
  act_strDeviceID :: string
  act_strPassCode :: string

record CAuthResponse =
  auth_eHttpSessionErrCode :: HttpErrorCode
  auth_lHttpRespCode :: int
  auth_strToken :: string
  auth_strTokenTime :: string
  auth_strExpTime :: string
  auth_ullTokenTTL :: "64 word"

datatype request = ActivationRequest string | LoginRequest string string

record token_env = env +
  encrypt_passcode :: "string \<Rightarrow> string \<Rightarrow> string"
  activation_details :: "string \<Rightarrow> string \<Rightarrow> string"
  disassociation_details :: "string \<Rightarrow> string"
  parse_time :: "string \<Rightarrow> int option"
  activation_qualifier :: string

text \<open>\<open>m_strToken\<close> of the manager is \<open>token_str\<close> here, since \<open>CActivationState\<close> has one too.\<close>

record token = auth +
  token_str :: string
  m_llTokenIssuedOn :: "64 word"
  m_llActivationTime :: "64 word"
  m_llTokenTTL :: "64 word"
  m_nMarginPercent :: int
  m_lTokenIssueTime :: int
  activation_replies :: "CActivationResponse list"
  auth_replies :: "CAuthResponse list"
  requests :: "request list"
  delivered_details :: "string list"
  exited :: bool

text \<open>A process that exits runs nothing more; the code is one that no caller sees.\<close>

definition quick_exit :: "('a token_scheme, unit) cmd" where
  "quick_exit = then_do (modify (\<lambda>s. s\<lparr>exited := True\<rparr>)) (\<lambda>_. throw MOSQ_ERR_UNKNOWN)"

section \<open>The requests\<close>

definition HTTP_Activate :: "token_env \<Rightarrow> ('a token_scheme, CActivationResponse) cmd" where
  "HTTP_Activate env s =
     (let s1 = s\<lparr>requests := requests s @ [ActivationRequest (activation_qualifier env)]\<rparr> in
      case activation_replies s of
        [] \<Rightarrow> (Ok \<lparr>act_eHttpSessionErrCode = eERR_NETWORK, act_lHttpRespCode = 0, act_strDeviceID = '''',
                  act_strPassCode = ''''\<rparr>, s1)
      | r # rs \<Rightarrow> (Ok r, s1\<lparr>activation_replies := rs\<rparr>))"

definition HTTP_GetAuthToken :: "('a token_scheme, CAuthResponse) cmd" where
  "HTTP_GetAuthToken s =
     (let s1 = s\<lparr>requests := requests s @ [LoginRequest (LocalConfig_Get ''login'' s) (LocalConfig_Get ''passcode'' s)]\<rparr> in
      case auth_replies s of
        [] \<Rightarrow> (Ok \<lparr>auth_eHttpSessionErrCode = eERR_NETWORK, auth_lHttpRespCode = 0, auth_strToken = '''',
                  auth_strTokenTime = '''', auth_strExpTime = '''', auth_ullTokenTTL = 0\<rparr>, s1)
      | r # rs \<Rightarrow> (Ok r, s1\<lparr>auth_replies := rs\<rparr>))"

section \<open>Login\<close>

definition SetTokenIssueTime :: "token_env \<Rightarrow> string \<Rightarrow> ('a token_scheme, unit) cmd" where
  "SetTokenIssueTime env strTime =
     (case parse_time env strTime of
        None \<Rightarrow> ret ()
      | Some t \<Rightarrow> modify (\<lambda>s. s\<lparr>m_lTokenIssueTime := t\<rparr>))"

definition with_margin :: "int \<Rightarrow> 64 word \<Rightarrow> 64 word" where
  "with_margin percent ttl =
     (if 0 < percent \<and> percent < 100 then ttl - (ttl * word_of_int percent) div 100 else ttl)"

definition store_token_times :: "token_env \<Rightarrow> CAuthResponse \<Rightarrow> ('a token_scheme, unit) cmd" where
  "store_token_times env resp =
     (if auth_strTokenTime resp \<noteq> '''' then
        then_do (SetTokenIssueTime env (auth_strTokenTime resp)) (\<lambda>_.
        then_do (LocalConfig_Set ''expirationTime'' (auth_strExpTime resp)) (\<lambda>_.
        LocalConfig_Set ''issueTime'' (auth_strTokenTime resp)))
      else ret ())"

definition store_activation_time :: "('a token_scheme, unit) cmd" where
  "store_activation_time =
     then_do get_st (\<lambda>s.
     if LocalConfig_Get ''activationTS'' s = '''' then
       LocalConfig_Set ''activationTS'' (NumberToString (uint
         (word_of_int (m_lTokenIssueTime s) * 1000 - (m_llTokenIssuedOn s - m_llActivationTime s))))
     else ret ())"

text \<open>The time of issue in the reply is the monotonic clock at its arrival
  (\<open>CIgniteAuthTokenAPI::ParseAPIResponse\<close>).\<close>

definition GetAuthToken :: "token_env \<Rightarrow> ('a token_scheme, LoginError \<times> HttpErrorCode) cmd" where
  "GetAuthToken env =
     then_do HTTP_GetAuthToken (\<lambda>resp.
     if auth_eHttpSessionErrCode resp = eERR_OK then
       if auth_lHttpRespCode resp = 200 then
         then_do (modify (\<lambda>s. s\<lparr>token_str := auth_strToken resp\<rparr>)) (\<lambda>_.
         then_do (SetToken (auth_strToken resp)) (\<lambda>_.
         then_do (store_token_times env resp) (\<lambda>_.
         then_do (modify (\<lambda>s. s\<lparr>m_llTokenIssuedOn := mono_ms s\<rparr>)) (\<lambda>_.
         then_do store_activation_time (\<lambda>_.
         then_do (modify (\<lambda>s. s\<lparr>m_llTokenTTL := with_margin (m_nMarginPercent s) (auth_ullTokenTTL resp)\<rparr>)) (\<lambda>_.
         then_do (SetActivationState True eNO_ERROR) (\<lambda>_.
         ret (eLE_SUCCESS, eERR_OK))))))))
       else if auth_lHttpRespCode resp = 401 then ret (eLE_INVALID_CREDENTIAL, eERR_OK)
       else if auth_lHttpRespCode resp = 400 then ret (eLE_INVALID_SCOPE, eERR_OK)
       else ret (eLE_UNKNOWN, eERR_OK)
     else
       then_do (SetActivationState False eNETWORK_ERROR) (\<lambda>_.
       ret (eLE_UNKNOWN, auth_eHttpSessionErrCode resp)))"

section \<open>Activation\<close>

definition Deliver :: "string \<Rightarrow> ('a token_scheme, unit) cmd" where
  "Deliver d = modify (\<lambda>s. s\<lparr>delivered_details := delivered_details s @ [d]\<rparr>)"

text \<open>\<open>CDisassociationRequestHandler::Handle\<close>, which ends the process.\<close>

definition Handle_disassociation :: "token_env \<Rightarrow> ('a token_scheme, unit) cmd" where
  "Handle_disassociation env =
     then_do (LocalConfig_Remove ''ICP.ActivationStatus'') (\<lambda>_.
     then_do (Deliver (disassociation_details env (activation_qualifier env))) (\<lambda>_.
     then_do (LocalConfig_Set ''deviceDisassociated'' ''true'') (\<lambda>_.
     quick_exit)))"

definition ProcessActivationResponse ::
  "token_env \<Rightarrow> CActivationResponse \<Rightarrow> string \<Rightarrow> ('a token_scheme, HttpErrorCode) cmd"
where
  "ProcessActivationResponse env resp strQualifierID =
     (if act_lHttpRespCode resp = 200 then
        then_do (modify (\<lambda>s. s\<lparr>m_llActivationTime := mono_ms s\<rparr>)) (\<lambda>_.
        then_do (LocalConfig_Remove ''activationTS'') (\<lambda>_.
        then_do get_st (\<lambda>s.
        then_do (if LocalConfig_Get ''login'' s \<noteq> act_strDeviceID resp then Send_event ''DeviceId'' else ret ()) (\<lambda>_.
        then_do (LocalConfig_Set ''login'' (act_strDeviceID resp)) (\<lambda>_.
        then_do (if LocalConfig_Get ''lastDeviceId'' s \<noteq> act_strDeviceID resp then
            then_do (LocalConfig_Set ''lastDeviceId'' (act_strDeviceID resp)) (\<lambda>_.
            then_do (Send_event ''Activation'') (\<lambda>_.
            then_do (Send_event ''ActivationEvent'') (\<lambda>_.
            if LocalConfig_Get ''lastDeviceId'' s \<noteq> '''' then Handle_disassociation env else ret ())))
          else ret ()) (\<lambda>_.
        then_do (LocalConfig_Set ''passcode'' (encrypt_passcode env (act_strDeviceID resp) (act_strPassCode resp))) (\<lambda>_.
        then_do (LocalConfig_Set ''ICP.ActivationStatus'' (activation_details env strQualifierID (act_strDeviceID resp))) (\<lambda>_.
        then_do (Deliver (activation_details env strQualifierID (act_strDeviceID resp))) (\<lambda>_.
        then_do (SetActivationState True eNO_ERROR) (\<lambda>_.
        ret eERR_OK))))))))))
      else
        then_do (SetActivationState False eDEVICE_NOT_ASSOCIATED_ERROR) (\<lambda>_.
        ret eERR_RESPONSE_DATA))"

definition Activate :: "token_env \<Rightarrow> ('a token_scheme, HttpErrorCode) cmd" where
  "Activate env =
     then_do (Proceed (env.truncate env)) (\<lambda>proceed.
     if \<not> proceed then
       then_do (SetActivationState False eBACKOFF_ERROR) (\<lambda>_. ret eERR_BACKOFF)
     else if activation_qualifier env = ''NOT_AVAILABLE'' \<or> activation_qualifier env = '''' then
       ret eERR_BACKOFF
     else
       then_do (HTTP_Activate env) (\<lambda>resp.
       then_do (if act_eHttpSessionErrCode resp = eERR_OK then
           then_do (ProcessActivationResponse env resp (activation_qualifier env)) (\<lambda>e.
           ret (e = eERR_OK, eERR_OK))
         else
           then_do (SetActivationState False eDEVICE_NOT_ASSOCIATED_ERROR) (\<lambda>_.
           ret (False, eERR_RESPONSE_DATA))) (\<lambda>(bIsActivated, eRet).
       then_do (if bIsActivated then Reset (env.truncate env) else CalculateNextRetry (env.truncate env) eRet) (\<lambda>_.
       ret eRet))))"

section \<open>The token\<close>

definition CheckForActivation :: "token_env \<Rightarrow> HttpErrorCode \<Rightarrow> ('a token_scheme, bool \<times> HttpErrorCode) cmd" where
  "CheckForActivation env e =
     then_do get_st (\<lambda>s.
     if IsActivated s then ret (True, e)
     else then_do (Activate env) (\<lambda>e'. ret (e' = eERR_OK, e')))"

definition UpdateActivationState :: "HttpErrorCode \<Rightarrow> ('a token_scheme, unit) cmd" where
  "UpdateActivationState e = (if e = eERR_NETWORK then SetActivationState False eNETWORK_ERROR else ret ())"

definition InvalidateToken :: "('a token_scheme, unit) cmd" where
  "InvalidateToken = modify (\<lambda>s. s\<lparr>token_str := ''''\<rparr>)"

definition InvalidatePassCode :: "('a token_scheme, unit) cmd" where
  "InvalidatePassCode = then_do (LocalConfig_Remove ''login'') (\<lambda>_. LocalConfig_Remove ''passcode'')"

text \<open>\<open>GetToken\<close> from \<open>// login and get new token\<close> on.\<close>

definition login_and_get :: "token_env \<Rightarrow> ('a token_scheme, string \<times> HttpErrorCode) cmd" where
  "login_and_get env =
     then_do (GetAuthToken env) (\<lambda>(loginErr, e).
     then_do (if loginErr = eLE_INVALID_CREDENTIAL \<or> loginErr = eLE_INVALID_SCOPE then
         then_do InvalidateToken (\<lambda>_.
         then_do InvalidatePassCode (\<lambda>_.
         then_do (Activate env) (\<lambda>e'.
         if e' = eERR_OK then then_do (GetAuthToken env) (\<lambda>(_, e''). ret e'') else ret e')))
       else ret e) (\<lambda>e.
     then_do get_st (\<lambda>s. ret (token_str s, e))))"

definition token_valid :: "'a token_scheme \<Rightarrow> bool" where
  "token_valid s = (mono_ms s < m_llTokenIssuedOn s + m_llTokenTTL s)"

definition GetToken :: "token_env \<Rightarrow> ('a token_scheme, string \<times> HttpErrorCode) cmd" where
  "GetToken env =
     then_do get_st (\<lambda>s.
     if token_str s = '''' then
       then_do (CheckForActivation env eERR_OK) (\<lambda>(bStatus, e).
       if \<not> bStatus then
         then_do (UpdateActivationState e) (\<lambda>_.
         then_do (SetToken '''') (\<lambda>_. ret ('''', e)))
       else login_and_get env)
     else if token_valid s then then_do (SetToken (token_str s)) (\<lambda>_. ret (token_str s, eERR_OK))
     else login_and_get env)"

text \<open>The constructor, after the configuration was read.\<close>

definition CTokenManager_ctor :: "token_env \<Rightarrow> ('a token_scheme, unit) cmd" where
  "CTokenManager_ctor env =
     then_do (modify (\<lambda>s. s\<lparr>token_str := '''', m_llTokenIssuedOn := 0, m_llActivationTime := 0, m_llTokenTTL := 0,
       m_lTokenIssueTime := 0, m_nMarginPercent := GetInt (env.truncate env) ''HCPAuth.token_marginPercent'' 0\<rparr>)) (\<lambda>_.
     then_do get_st (\<lambda>s.
     if IsActivated s then ret ()
     else then_do (Activate env) (\<lambda>e.
       if e = eERR_RESPONSE_DATA then SetActivationState False eDEVICE_NOT_ASSOCIATED_ERROR else ret ())))"

section \<open>While the back off forbids it\<close>

definition held_back :: "'a auth_scheme \<Rightarrow> bool" where
  "held_back s = (m_bIsEnable (backoff s) \<and>
     (\<exists>st. m_pBackOffState (backoff s) = Some st \<and> \<not> CheckIfProceed (mono_ms s) st))"

definition activation_requests :: "'a token_scheme \<Rightarrow> request list" where
  "activation_requests s = filter (\<lambda>r. case r of ActivationRequest _ \<Rightarrow> True | _ \<Rightarrow> False) (requests s)"

text \<open>What the reports to other parts leave alone.\<close>

definition same_core :: "'a token_scheme \<Rightarrow> 'a token_scheme \<Rightarrow> bool" where
  "same_core s s' = (mono_ms s' = mono_ms s \<and> wall_s s' = wall_s s \<and> auth.more s' = auth.more s \<and>
     m_bIsEnable (backoff s') = m_bIsEnable (backoff s) \<and>
     m_pBackOffState (backoff s') = m_pBackOffState (backoff s))"

lemma same_core_fields:
  assumes "same_core s s'"
  shows "token_str s' = token_str s" "requests s' = requests s" "activation_requests s' = activation_requests s"
    "auth_replies s' = auth_replies s" "activation_replies s' = activation_replies s"
    "m_llTokenIssuedOn s' = m_llTokenIssuedOn s" "m_llTokenTTL s' = m_llTokenTTL s" "exited s' = exited s"
    "held_back s' = held_back s" "mono_ms s' = mono_ms s"
  using assms by (cases s; cases s'; simp add: same_core_def activation_requests_def held_back_def)+

lemma same_core_refl [simp]: "same_core s s"
  by (simp add: same_core_def)

lemma same_core_trans: "same_core s s1 \<Longrightarrow> same_core s1 s2 \<Longrightarrow> same_core s s2"
  by (simp add: same_core_def)

lemma succeeds_SetActivationState:
  "succeeds (SetActivationState b r) s (\<lambda>_ s'. same_core s s' \<and> local_config s' = local_config s)"
  using SetActivationState_run[of b r s] by (auto simp: same_backoff_def same_core_def intro: succeedsI)

lemma succeeds_SetToken: "succeeds (SetToken str) s (\<lambda>_ s'. same_core s s' \<and> local_config s' = local_config s)"
  by (simp add: SetToken_def outcome_simps same_core_def)

lemma succeeds_case_prod [outcome_simps]:
  "succeeds (case x of (a, b) \<Rightarrow> f a b) s Q = (case x of (a, b) \<Rightarrow> succeeds (f a b) s Q)"
  by (cases x) simp

lemma succeeds_Proceed_held_back:
  assumes "held_back s"
  shows "succeeds (Proceed env) s (\<lambda>b s'. \<not> b \<and> same_core s s')"
proof -
  obtain st where st: "m_pBackOffState (backoff s) = Some st" "\<not> CheckIfProceed (mono_ms s) st" "m_bIsEnable (backoff s)"
    using assms by (auto simp: held_back_def)
  have "succeeds IncrementIgnitionCount s (\<lambda>_ s'. same_core s s')"
    by (simp add: IncrementIgnitionCount_def Let_def outcome_simps same_core_def)
  then have "succeeds IncrementIgnitionCount s (\<lambda>_ s'. m_pBackOffState (backoff s') = Some st \<and> same_core s s')"
    by (rule succeeds_mono) (use st in \<open>auto simp: same_core_def\<close>)
  then show ?thesis
    using st by (simp add: Proceed_def outcome_simps) (auto elim!: succeeds_mono)
qed

lemma succeeds_Activate_held_back:
  assumes "held_back s"
  shows "succeeds (Activate env) s (\<lambda>e s'. e = eERR_BACKOFF \<and> same_core s s')"
proof -
  have "succeeds (Proceed (env.truncate env)) s (\<lambda>b s1. \<not> b \<and>
      succeeds (SetActivationState False eBACKOFF_ERROR) s1 (\<lambda>_ s'. same_core s s'))"
    by (rule succeeds_mono[OF succeeds_Proceed_held_back[OF assms]])
      (auto intro: succeeds_mono[OF succeeds_SetActivationState] same_core_trans)
  then show ?thesis
    unfolding Activate_def succeeds_then_do
    by (rule succeeds_mono) (simp add: outcome_simps)
qed

text \<open>A login never changes the back off, and asks for no activation.\<close>

definition only_login :: "'a token_scheme \<Rightarrow> 'a token_scheme \<Rightarrow> bool" where
  "only_login s s' = (mono_ms s' = mono_ms s \<and> backoff s' = backoff s \<and>
     activation_requests s' = activation_requests s)"

lemma only_login_held_back: "only_login s s' \<Longrightarrow> held_back s' = held_back s"
  by (simp add: only_login_def held_back_def)

lemma only_login_same: "same_core s s' \<Longrightarrow> backoff s' = backoff s \<Longrightarrow> only_login s s'"
  using same_core_fields(3,10)[of s s'] by (simp add: only_login_def)

lemma only_login_trans: "only_login s s1 \<Longrightarrow> only_login s1 s2 \<Longrightarrow> only_login s s2"
  by (simp add: only_login_def)

lemma succeeds_SetActivationState_login: "succeeds (SetActivationState b r) s (\<lambda>_ s'. only_login s s' \<and> same_core s s')"
  using SetActivationState_run[of b r s]
  by (auto simp: same_backoff_def same_core_def intro!: succeedsI only_login_same)

text \<open>What a login does: the token and its times change together, or not at all.\<close>

definition fresh_token :: "token_env \<Rightarrow> CAuthResponse \<Rightarrow> 'a token_scheme \<Rightarrow> bool" where
  "fresh_token env resp s = (token_str s = auth_strToken resp \<and> m_llTokenIssuedOn s = mono_ms s \<and>
     m_llTokenTTL s = with_margin (m_nMarginPercent s) (auth_ullTokenTTL resp))"

definition login_result :: "token_env \<Rightarrow> 'a token_scheme \<Rightarrow> LoginError \<times> HttpErrorCode \<Rightarrow> 'a token_scheme \<Rightarrow> bool" where
  "login_result env s r s' = (only_login s s' \<and>
     (case auth_replies s of
        [] \<Rightarrow> r = (eLE_UNKNOWN, eERR_NETWORK) \<and> token_str s' = token_str s \<and> auth_replies s' = []
      | resp # rs \<Rightarrow> auth_replies s' = rs \<and>
          (if auth_eHttpSessionErrCode resp \<noteq> eERR_OK then r = (eLE_UNKNOWN, auth_eHttpSessionErrCode resp) \<and> token_str s' = token_str s
           else if auth_lHttpRespCode resp = 200 then r = (eLE_SUCCESS, eERR_OK) \<and> fresh_token env resp s'
           else r = (if auth_lHttpRespCode resp = 401 then eLE_INVALID_CREDENTIAL
                     else if auth_lHttpRespCode resp = 400 then eLE_INVALID_SCOPE else eLE_UNKNOWN, eERR_OK) \<and>
             token_str s' = token_str s)))"

lemma succeeds_HTTP_GetAuthToken [outcome_simps]:
  "succeeds HTTP_GetAuthToken s Q =
     (let s1 = s\<lparr>requests := requests s @ [LoginRequest (LocalConfig_Get ''login'' s) (LocalConfig_Get ''passcode'' s)]\<rparr> in
      case auth_replies s of
        [] \<Rightarrow> Q \<lparr>auth_eHttpSessionErrCode = eERR_NETWORK, auth_lHttpRespCode = 0, auth_strToken = '''',
                  auth_strTokenTime = '''', auth_strExpTime = '''', auth_ullTokenTTL = 0\<rparr> s1
      | r # rs \<Rightarrow> Q r (s1\<lparr>auth_replies := rs\<rparr>))"
  by (auto simp: succeeds_def HTTP_GetAuthToken_def Let_def split: list.splits)

text \<open>The reports of a successful login succeed and leave the token alone.\<close>

abbreviation login_part :: "'a token_scheme \<Rightarrow> _" where
  "login_part s \<equiv> (mono_ms s, backoff s, requests s, auth_replies s, token_str s, m_llTokenIssuedOn s,
     m_llTokenTTL s, m_nMarginPercent s)"

lemma succeeds_reports:
  "succeeds (SetToken str) s (\<lambda>_ s'. login_part s' = login_part s)"
  "succeeds (store_token_times env resp) s (\<lambda>_ s'. login_part s' = login_part s)"
  "succeeds store_activation_time s (\<lambda>_ s'. login_part s' = login_part s)"
  "succeeds (SetActivationState b r) s (\<lambda>_ s'. login_part s' = login_part s)"
  by (simp_all add: SetToken_def store_token_times_def SetTokenIssueTime_def store_activation_time_def
    SetActivationState_def outcome_simps split: option.split)

lemma succeeds_login_200:
  assumes "auth_replies s = resp # rs" "auth_eHttpSessionErrCode resp = eERR_OK" "auth_lHttpRespCode resp = 200"
  shows "succeeds (GetAuthToken env) s (login_result env s)"
proof -
  note mono = succeeds_mono[OF succeeds_reports(1)] succeeds_mono[OF succeeds_reports(2)]
    succeeds_mono[OF succeeds_reports(3)] succeeds_mono[OF succeeds_reports(4)]
  show ?thesis
    unfolding GetAuthToken_def succeeds_then_do succeeds_HTTP_GetAuthToken Let_def assms(1) list.case
    unfolding assms(2,3) simp_thms if_True succeeds_then_do succeeds_modify succeeds_ret succeeds_get_st
    by (rule mono(1), rule mono(2), rule mono(3), rule mono(4))
      (use assms in \<open>simp add: login_result_def only_login_def activation_requests_def fresh_token_def\<close>)
qed

lemma GetAuthToken_result: "succeeds (GetAuthToken env) s (login_result env s)"
proof (cases "auth_replies s")
  case Nil
  then show ?thesis
    by (simp add: GetAuthToken_def outcome_simps Let_def SetActivationState_def login_result_def only_login_def
      activation_requests_def)
next
  case (Cons resp rs)
  show ?thesis
  proof (cases "auth_eHttpSessionErrCode resp = eERR_OK \<and> auth_lHttpRespCode resp = 200")
    case True
    then show ?thesis
      using succeeds_login_200[OF Cons] by blast
  next
    case False
    then show ?thesis
      using Cons by (auto simp: GetAuthToken_def outcome_simps Let_def SetActivationState_def login_result_def
        only_login_def activation_requests_def)
  qed
qed

section \<open>What GetToken returns\<close>

text \<open>What the back off and the reports leave alone: everything of the manager, the clock and the
  credentials.\<close>

abbreviation auth_part :: "'a auth_scheme \<Rightarrow> _" where
  "auth_part s \<equiv> (auth.more s, mono_ms s, local_config s ''login'', local_config s ''passcode'')"

lemma keeps_SetActivationState [keeps_intros]: "keeps auth_part (SetActivationState b r)"
  unfolding SetActivationState_def Send_event_def by (intro keeps_intros; simp)

lemma keeps_SetToken [keeps_intros]: "keeps auth_part (SetToken t)"
  unfolding SetToken_def Send_event_def by (intro keeps_intros; simp)

lemma keeps_Send_event [keeps_intros]: "keeps auth_part (Send_event i)"
  unfolding Send_event_def by (intro keeps_intros; simp)

lemma keeps_upd_backoff [keeps_intros]: "keeps auth_part (upd_backoff g)"
  unfolding upd_backoff_def by (intro keeps_intros; simp)

lemma keeps_put_state [keeps_intros]: "keeps auth_part (put_state st)"
  unfolding put_state_def by (intro keeps_intros)

lemma keeps_deref_state [keeps_intros]: "keeps auth_part deref_state"
  by (simp add: keeps_def deref_state_def split: option.split)

lemma keeps_ignition [keeps_intros]: "keeps auth_part (LocalConfig_Set ''IGNITION_COUNT'' v)"
  unfolding LocalConfig_Set_def by (intro keeps_intros; simp)

lemma keeps_new_state [keeps_intros]: "keeps auth_part (new_state env k)"
  by (cases k) (auto intro!: keeps_intros simp: new_state_def new_CInitialState_def new_CHighFreqState_def
    new_CNormalFreqState_def new_CLowFreqState_def new_COverIgnThresholdHighFreq_def new_COverIgnThresholdLowFreq_def)

lemma keeps_CheckCurrentState [keeps_intros]: "keeps auth_part (CheckCurrentState env)"
  unfolding CheckCurrentState_def by (intro keeps_intros)

lemma keeps_IncrementIgnitionCount [keeps_intros]: "keeps auth_part IncrementIgnitionCount"
  unfolding IncrementIgnitionCount_def Let_def by (intro keeps_intros)

lemma keeps_Proceed [keeps_intros]: "keeps auth_part (Proceed env)"
  unfolding Proceed_def by (intro keeps_intros)

lemma keeps_CalculateNextRetry [keeps_intros]: "keeps auth_part (CalculateNextRetry env e)"
  unfolding CalculateNextRetry_def by (intro keeps_intros)

lemma keeps_Reset [keeps_intros]: "keeps auth_part (Reset env)"
  unfolding Reset_def Init_def ResetState_def new_CInitialState_def by (intro keeps_intros)

text \<open>What activation leaves alone: the token with its times, and the replies to logins.\<close>

abbreviation token_part :: "'a token_scheme \<Rightarrow> _" where
  "token_part s \<equiv> (token_str s, m_llTokenIssuedOn s, m_llTokenTTL s, m_nMarginPercent s, auth_replies s, mono_ms s)"

lemma token_part_more: "auth.more s' = auth.more s \<Longrightarrow> mono_ms s' = mono_ms s \<Longrightarrow> token_part s' = token_part s"
  by (cases s; cases s') simp

lemma keeps_token_part [intro]: "keeps auth_part c \<Longrightarrow> keeps token_part c"
proof -
  assume "keeps auth_part c"
  then have "auth.more (snd (c s)) = auth.more s \<and> mono_ms (snd (c s)) = mono_ms s" for s
    by (simp add: keeps_def)
  then show "keeps token_part c"
    unfolding keeps_def by (intro allI token_part_more) simp_all
qed

lemmas keeps_token_parts [keeps_intros] =
  keeps_SetActivationState [THEN keeps_token_part] keeps_SetToken [THEN keeps_token_part]
  keeps_Send_event [THEN keeps_token_part] keeps_Proceed [THEN keeps_token_part]
  keeps_CalculateNextRetry [THEN keeps_token_part] keeps_Reset [THEN keeps_token_part]

lemma keeps_Set [keeps_intros]: "keeps token_part (LocalConfig_Set k v)"
  unfolding LocalConfig_Set_def by (intro keeps_intros; simp)

lemma keeps_Remove [keeps_intros]: "keeps token_part (LocalConfig_Remove k)"
  unfolding LocalConfig_Remove_def by (intro keeps_intros; simp)

lemma keeps_Deliver [keeps_intros]: "keeps token_part (Deliver d)"
  unfolding Deliver_def by (intro keeps_intros; simp)

lemma keeps_quick_exit [keeps_intros]: "keeps token_part quick_exit"
  unfolding quick_exit_def by (intro keeps_intros; simp)

lemma keeps_HTTP_Activate [keeps_intros]: "keeps token_part (HTTP_Activate env)"
  by (simp add: keeps_def HTTP_Activate_def Let_def split: list.split)

lemma keeps_ProcessActivationResponse [keeps_intros]:
  "keeps token_part (ProcessActivationResponse env resp q)"
  unfolding ProcessActivationResponse_def Handle_disassociation_def by (intro keeps_intros) simp

lemma keeps_Activate [keeps_intros]: "keeps token_part (Activate env)"
  unfolding Activate_def by (intro keeps_intros)

definition fresh_from :: "token_env \<Rightarrow> CAuthResponse list \<Rightarrow> string \<Rightarrow> 'a token_scheme \<Rightarrow> bool" where
  "fresh_from env resps tok s = (\<exists>resp\<in>set resps. auth_eHttpSessionErrCode resp = eERR_OK \<and>
     auth_lHttpRespCode resp = 200 \<and> tok = auth_strToken resp \<and> fresh_token env resp s)"

definition login_refused :: "CAuthResponse list \<Rightarrow> bool" where
  "login_refused resps = (\<exists>resp\<in>set resps. auth_eHttpSessionErrCode resp = eERR_OK \<and> auth_lHttpRespCode resp \<noteq> 200)"

lemma GetAuthToken_run:
  assumes "GetAuthToken env s = (Ok r, s')"
  shows "login_result env s r s'"
  using GetAuthToken_result[of env s] assms by (simp add: succeeds_def)

text \<open>One login that reports no error gave a fresh token, or was refused and changed nothing.\<close>

lemma login_result_ok:
  assumes "login_result env s (le, eERR_OK) s'"
  shows "fresh_from env (auth_replies s) (token_str s') s' \<and> le = eLE_SUCCESS \<or>
    login_refused (auth_replies s) \<and> token_str s' = token_str s \<and> le \<noteq> eLE_SUCCESS"
  using assms
  by (auto simp: login_result_def fresh_from_def login_refused_def fresh_token_def split: list.splits if_splits)

lemma login_result_replies: "login_result env s r s' \<Longrightarrow> set (auth_replies s') \<subseteq> set (auth_replies s)"
  by (auto simp: login_result_def split: list.splits)

lemma login_result_error: "login_result env s (le, e) s' \<Longrightarrow> e \<noteq> eERR_OK \<Longrightarrow> le = eLE_UNKNOWN"
  by (auto simp: login_result_def split: list.splits if_splits)

lemma fresh_from_mono: "fresh_from env rs tok s \<Longrightarrow> set rs \<subseteq> set rs' \<Longrightarrow> fresh_from env rs' tok s"
  by (auto simp: fresh_from_def)

lemma login_and_get_ok:
  assumes "login_and_get env s = (Ok (tok, eERR_OK), s')"
  shows "fresh_from env (auth_replies s) tok s' \<or>
    login_refused (auth_replies s) \<and> (tok = token_str s \<or> tok = '''')"
proof -
  obtain le e1 s1 e where l: "GetAuthToken env s = (Ok (le, e1), s1)"
    and r: "(if le = eLE_INVALID_CREDENTIAL \<or> le = eLE_INVALID_SCOPE then
         then_do InvalidateToken (\<lambda>_.
         then_do InvalidatePassCode (\<lambda>_.
         then_do (Activate env) (\<lambda>e'.
         if e' = eERR_OK then then_do (GetAuthToken env) (\<lambda>(_, e''). ret e'') else ret e')))
       else ret e1) s1 = (Ok eERR_OK, s')" and tok: "tok = token_str s'"
    using assms by (auto simp: login_and_get_def cmd_simps get_st_def elim!: then_do_OkE)
  note lr = GetAuthToken_run[OF l]
  show ?thesis
  proof (cases "le = eLE_INVALID_CREDENTIAL \<or> le = eLE_INVALID_SCOPE")
    case False
    then have "e1 = eERR_OK" "s' = s1"
      using r by (simp_all add: cmd_simps)
    then show ?thesis
      using login_result_ok[of env s le s1] lr tok by auto
  next
    case True
    then have "e1 = eERR_OK"
      using login_result_error[OF lr] by auto
    then have refused: "login_refused (auth_replies s)"
      using login_result_ok[of env s le s1] lr True by auto
    obtain s2 s3 le' where i: "then_do InvalidateToken (\<lambda>_. InvalidatePassCode) s1 = (Ok (), s2)"
      and a: "Activate env s2 = (Ok eERR_OK, s3)" and g: "GetAuthToken env s3 = (Ok (le', eERR_OK), s')"
      using r True by (auto simp: InvalidateToken_def InvalidatePassCode_def LocalConfig_Remove_def cmd_simps then_do_def
        split: prod.splits res.splits if_splits)
    have "token_str s2 = ''''" "auth_replies s2 = auth_replies s1"
      using i by (auto simp: InvalidateToken_def InvalidatePassCode_def LocalConfig_Remove_def cmd_simps then_do_def)
    then have s3: "token_str s3 = ''''" "auth_replies s3 = auth_replies s1"
      using keepsD[OF keeps_Activate a] by simp_all
    have "fresh_from env (auth_replies s3) (token_str s') s' \<or> token_str s' = ''''"
      using login_result_ok[OF GetAuthToken_run[OF g]] s3(1) by auto
    then show ?thesis
      using refused tok s3(2) login_result_replies[OF lr] fresh_from_mono by metis
  qed
qed

text \<open>The cases in which \<open>GetToken\<close> reports no error.\<close>

lemma GetToken_ok:
  assumes "GetToken env s = (Ok (tok, eERR_OK), s')"
  shows "(tok = token_str s \<and> token_str s \<noteq> '''' \<and> token_valid s \<and> requests s' = requests s) \<or>
    fresh_from env (auth_replies s) tok s' \<or>
    login_refused (auth_replies s) \<and> (tok = token_str s \<or> tok = '''')"
proof (cases "token_str s = ''''")
  case False
  show ?thesis
  proof (cases "token_valid s")
    case True
    then have s': "SetToken (token_str s) s = (Ok (), s')" "tok = token_str s"
      using assms False by (auto simp: GetToken_def cmd_simps get_st_def elim!: then_do_OkE)
    then have "requests s' = requests s"
      using succeeds_SetToken[of "token_str s" s] by (simp add: succeeds_def same_core_fields)
    then show ?thesis
      using s' False True by simp
  next
    case no: False
    then have "login_and_get env s = (Ok (tok, eERR_OK), s')"
      using assms False by (simp add: GetToken_def cmd_simps get_st_def then_do_def)
    then show ?thesis
      using login_and_get_ok by blast
  qed
next
  case True
  then obtain b e s1 where c: "CheckForActivation env eERR_OK s = (Ok (b, e), s1)"
    and r: "(if \<not> b then
         then_do (UpdateActivationState e) (\<lambda>_.
         then_do (SetToken '''') (\<lambda>_. ret ('''', e)))
       else login_and_get env) s1 = (Ok (tok, eERR_OK), s')"
    using assms by (auto simp: GetToken_def cmd_simps get_st_def elim!: then_do_OkE)
  have parts: "token_str s1 = token_str s \<and> auth_replies s1 = auth_replies s \<and> (\<not> b \<longrightarrow> e \<noteq> eERR_OK)"
  proof (cases "IsActivated s")
    case True
    then show ?thesis
      using c by (simp add: CheckForActivation_def cmd_simps get_st_def then_do_def)
  next
    case False
    then have "then_do (Activate env) (\<lambda>e'. ret (e' = eERR_OK, e')) s = (Ok (b, e), s1)"
      using c by (simp add: CheckForActivation_def cmd_simps)
    then obtain e' s2 where a: "Activate env s = (Ok e', s2)" "ret (e' = eERR_OK, e') s2 = (Ok (b, e), s1)"
      by (rule then_do_OkE)
    have "s2 = s1 \<and> b = (e = eERR_OK)"
      using a(2) by (auto simp: ret_def)
    then show ?thesis
      using keepsD[OF keeps_Activate a(1)] by simp
  qed
  have b
  proof (rule ccontr)
    assume "\<not> b"
    then have "then_do (UpdateActivationState e) (\<lambda>_. then_do (SetToken '''') (\<lambda>_. ret ('''', e))) s1 = (Ok (tok, eERR_OK), s')"
      using r by simp
    then obtain a s2 where "then_do (SetToken '''') (\<lambda>_. ret ('''', e)) s2 = (Ok (tok, eERR_OK), s')" "a = ()"
      by (rule then_do_OkE) simp
    then have "e = eERR_OK"
      by (auto simp: ret_def elim: then_do_OkE)
    then show False
      using parts \<open>\<not> b\<close> by simp
  qed
  then have l: "login_and_get env s1 = (Ok (tok, eERR_OK), s')"
    using r by simp
  show ?thesis
    using login_and_get_ok[OF l] parts by simp
qed

section \<open>No activation while it is held back\<close>

lemma succeeds_GetAuthToken_login: "succeeds (GetAuthToken env) s (\<lambda>_. only_login s)"
  by (rule succeeds_mono[OF GetAuthToken_result]) (simp add: login_result_def)

lemma login_and_get_held_back:
  assumes "held_back s"
  shows "succeeds (login_and_get env) s (\<lambda>_ s'. activation_requests s' = activation_requests s)"
proof -
  have again: "succeeds (then_do InvalidateToken (\<lambda>_. then_do InvalidatePassCode (\<lambda>_. then_do (Activate env) (\<lambda>e'.
         if e' = eERR_OK then then_do (GetAuthToken env) (\<lambda>(_, e''). ret e'') else ret e')))) s1
       (\<lambda>_ s'. activation_requests s' = activation_requests s)" if l: "only_login s s1" for s1
  proof -
    define s2 where "s2 = s1\<lparr>token_str := '''',
      local_config := (local_config s1)(''login'' := None, ''passcode'' := None)\<rparr>"
    have same: "only_login s1 s2"
      by (simp add: s2_def only_login_def activation_requests_def)
    then have "held_back s2"
      using only_login_held_back[OF l] only_login_held_back[OF same] assms by simp
    then have "succeeds (Activate env) s2 (\<lambda>e s'. e = eERR_BACKOFF \<and> activation_requests s' = activation_requests s)"
      by (rule succeeds_mono[OF succeeds_Activate_held_back])
        (use l same in \<open>auto simp: same_core_fields only_login_def\<close>)
    then have "succeeds (Activate env) s2 (\<lambda>e s'. succeeds (if e = eERR_OK then then_do (GetAuthToken env) (\<lambda>(_, e''). ret e'')
        else ret e) s' (\<lambda>_ s'. activation_requests s' = activation_requests s))"
      by (rule succeeds_mono) (simp add: outcome_simps)
    then show ?thesis
      by (simp add: InvalidateToken_def InvalidatePassCode_def LocalConfig_Remove_def outcome_simps s2_def fun_upd_twist)
  qed
  show ?thesis
    unfolding login_and_get_def succeeds_then_do
    by (rule succeeds_mono[OF succeeds_GetAuthToken_login])
      (use again in \<open>auto simp: outcome_simps only_login_def\<close>)
qed

lemma GetToken_held_back:
  assumes "held_back s"
  shows "succeeds (GetToken env) s (\<lambda>(tok, e) s'. activation_requests s' = activation_requests s \<and>
    (token_str s = '''' \<and> \<not> IsActivated s \<longrightarrow> tok = '''' \<and> e = eERR_BACKOFF))"
proof -
  have login: "succeeds (login_and_get env) s (\<lambda>x s'. activation_requests s' = activation_requests s)"
    by (rule login_and_get_held_back[OF assms])
  have blocked: "succeeds (Activate env) s (\<lambda>e s1. e = eERR_BACKOFF \<and>
      succeeds (SetToken '''') s1 (\<lambda>_ s'. activation_requests s' = activation_requests s))"
    by (rule succeeds_mono[OF succeeds_Activate_held_back[OF assms]])
      (auto simp: same_core_fields intro: succeeds_mono[OF succeeds_SetToken])
  then have blocked': "succeeds (Activate env) s (\<lambda>e s1. e \<noteq> eERR_OK \<and> e \<noteq> eERR_NETWORK \<and> e = eERR_BACKOFF \<and>
      succeeds (SetToken '''') s1 (\<lambda>_ s'. activation_requests s' = activation_requests s))"
    by (rule succeeds_mono) simp
  have valid: "succeeds (SetToken (token_str s)) s (\<lambda>_ s'. activation_requests s' = activation_requests s)"
    by (rule succeeds_mono[OF succeeds_SetToken]) (simp add: same_core_fields)
  consider (none) "token_str s = ''''" "\<not> IsActivated s" | (active) "token_str s = ''''" "IsActivated s"
    | (valid) "token_str s \<noteq> ''''" "token_valid s" | (expired) "token_str s \<noteq> ''''" "\<not> token_valid s"
    by blast
  then show ?thesis
  proof cases
    case none
    then show ?thesis
      by (simp add: GetToken_def CheckForActivation_def outcome_simps)
        (rule succeeds_mono[OF blocked'], auto simp: UpdateActivationState_def outcome_simps)
  next
    case active
    then show ?thesis
      using login by (simp add: GetToken_def CheckForActivation_def outcome_simps case_prod_unfold)
  next
    case valid
    then show ?thesis
      using \<open>succeeds (SetToken (token_str s)) s _\<close> by (simp add: GetToken_def outcome_simps)
  next
    case expired
    then show ?thesis
      using login by (simp add: GetToken_def outcome_simps case_prod_unfold)
  qed
qed

section \<open>Refusals that are reported as success\<close>

lemma expired_token_login:
  assumes "token_str s \<noteq> ''''" "\<not> token_valid s" "auth_replies s = resp # rs"
    and "auth_eHttpSessionErrCode resp = eERR_OK" "auth_lHttpRespCode resp \<notin> {200, 400, 401}"
  shows "succeeds (GetToken env) s (\<lambda>(tok, e) s'. tok = token_str s \<and> e = eERR_OK)"
proof -
  have "succeeds (GetAuthToken env) s (\<lambda>r s'. r = (eLE_UNKNOWN, eERR_OK) \<and> token_str s' = token_str s)"
    by (rule succeeds_mono[OF GetAuthToken_result]) (use assms in \<open>auto simp: login_result_def\<close>)
  then have "succeeds (login_and_get env) s (\<lambda>x s'. x = (token_str s, eERR_OK))"
    unfolding login_and_get_def succeeds_then_do by (rule succeeds_mono) (auto simp: outcome_simps)
  then have "succeeds (login_and_get env) s (\<lambda>(tok, e) s'. tok = token_str s \<and> e = eERR_OK)"
    by (rule succeeds_mono) simp
  then show ?thesis
    using assms(1,2) by (simp add: GetToken_def outcome_simps)
qed

lemma refused_activation_run:
  assumes run: "Activate env s = (Ok e, s')" and sent: "requests s' \<noteq> requests s"
    and reply: "activation_replies s = resp # rs" "act_eHttpSessionErrCode resp = eERR_OK" "act_lHttpRespCode resp \<noteq> 200"
  shows "e = eERR_OK \<and> IsActivated s' = IsActivated s"
proof -
  obtain proceed s1 where p: "Proceed (env.truncate env) s = (Ok proceed, s1)"
    and r1: "(if \<not> proceed then
       then_do (SetActivationState False eBACKOFF_ERROR) (\<lambda>_. ret eERR_BACKOFF)
     else if activation_qualifier env = ''NOT_AVAILABLE'' \<or> activation_qualifier env = '''' then
       ret eERR_BACKOFF
     else
       then_do (HTTP_Activate env) (\<lambda>resp.
       then_do (if act_eHttpSessionErrCode resp = eERR_OK then
           then_do (ProcessActivationResponse env resp (activation_qualifier env)) (\<lambda>e.
           ret (e = eERR_OK, eERR_OK))
         else
           then_do (SetActivationState False eDEVICE_NOT_ASSOCIATED_ERROR) (\<lambda>_.
           ret (False, eERR_RESPONSE_DATA))) (\<lambda>(bIsActivated, eRet).
       then_do (if bIsActivated then Reset (env.truncate env) else CalculateNextRetry (env.truncate env) eRet) (\<lambda>_.
       ret eRet)))) s1 = (Ok e, s')"
    using run unfolding Activate_def by (rule then_do_OkE)
  have k1: "auth.more s1 = auth.more s" "local_config s1 ''login'' = local_config s ''login''"
    "local_config s1 ''passcode'' = local_config s ''passcode''"
    using keepsD[OF keeps_Proceed p] by simp_all
  have no: False if "then_do (SetActivationState False eBACKOFF_ERROR) (\<lambda>_. ret eERR_BACKOFF) s1 = (Ok e, s') \<or>
      ret eERR_BACKOFF s1 = (Ok e, s')"
  proof -
    have "keeps auth_part (then_do (SetActivationState False eBACKOFF_ERROR) (\<lambda>_. ret eERR_BACKOFF))"
      by (intro keeps_intros)
    then have "auth.more s' = auth.more s1"
      using that keepsD by (fastforce simp: ret_def)
    then show False
      using sent k1(1) by (cases s; cases s') simp
  qed
  have replies: "activation_replies s1 = resp # rs"
    using k1(1) reply(1) by (cases s; cases s1) simp
  define s2 where "s2 = s1\<lparr>requests := requests s1 @ [ActivationRequest (activation_qualifier env)], activation_replies := rs\<rparr>"
  have h: "HTTP_Activate env s1 = (Ok resp, s2)"
    by (simp add: HTTP_Activate_def replies Let_def s2_def)
  obtain s3 where a: "SetActivationState False eDEVICE_NOT_ASSOCIATED_ERROR s2 = (Ok (), s3)"
    using SetActivationState_run by blast
  have "then_do (CalculateNextRetry (env.truncate env) eERR_OK) (\<lambda>_. ret eERR_OK) s3 = (Ok e, s')"
    using r1 no h reply(2,3) a
    by (auto simp: cmd_simps ProcessActivationResponse_def split: if_splits)
  then obtain u where c: "CalculateNextRetry (env.truncate env) eERR_OK s3 = (Ok u, s')" "e = eERR_OK"
    by (rule then_do_OkE) (simp add: ret_def)
  have "local_config s2 = local_config s1"
    by (simp add: s2_def)
  then have "LocalConfig_Get ''login'' s' = LocalConfig_Get ''login'' s" "LocalConfig_Get ''passcode'' s' = LocalConfig_Get ''passcode'' s"
    using keepsD[OF keeps_CalculateNextRetry c(1)] keepsD[OF keeps_SetActivationState a] k1
    by (simp_all add: LocalConfig_Get_def)
  then show ?thesis
    using c(2) by (simp add: IsActivated_def)
qed

end
