(* ===== verification/Auth_Properties.thy ===== *)
theory Auth_Properties
  imports Activation
begin

text \<open>
  The properties of the back off and activation components, with witnesses at the default
  configuration.
\<close>

definition default_env :: env where
  "default_env = \<lparr>cfg_int = (\<lambda>_. None),
     cfg_bool = [''HCPAuth.ActivationBackOffConf.enable'' \<mapsto> True],
     std_rand = (\<lambda>_. 1804289383), serial_number = []\<rparr>"

definition blank_auth :: auth where
  "blank_auth =
     \<lparr>activation = \<lparr>m_bActivationState = False, m_eNotActivationReason = eNO_ERROR, m_strToken = ''''\<rparr>,
      backoff = \<lparr>m_bIsEnable = False, m_lIgnitionCount = 0, m_bIncrementIgnitionCount = False,
        m_eLastErrorState = eERR_OK, m_pBackOffState = None, g_nIgnitionThreshold = 0\<rparr>,
      local_config = (\<lambda>_. None), sent_events = [], mono_ms = 0, wall_s = 0\<rparr>"

lemma default_env_rand: "rand_ok default_env"
  by (simp add: rand_ok_def default_env_def)

lemma default_env_conf [simp]: "backoff_conf default_env key d = d"
  by (simp add: backoff_conf_def GetInt_def default_env_def)

lemma default_env_freqs: "freqs_below default_env 900000"
  unfolding freqs_below_def
proof
  fix k
  show "0 \<le> kind_freq default_env k \<and> kind_freq default_env k \<le> 900000"
    by (cases k) (simp_all add: kind_freq_def)
qed

lemma default_env_maxima: "maxima_positive default_env"
  by (simp add: maxima_positive_def kind_max_def)

lemma default_env_enabled: "GetBool default_env ''HCPAuth.ActivationBackOffConf.enable'' False"
  by (simp add: GetBool_def default_env_def)

text \<open>C30: the exponential back off. For every sequence of results reported to
  \<open>GetNextRetryTime\<close> the wait after a failure of the server lies between 0 and both the
  maximum and the failure time doubled once for each such failure since the last success; a
  success gives the success time and starts the doubling anew, any other error gives the
  failure time. This holds exactly as long as the doubled failure time is an \<open>int\<close>: the first
  call for which it is not (the 27th failure in a row with a failure time of 60 seconds) is
  undefined behaviour, because the code doubles before it compares with the maximum.\<close>

theorem retry_waits_bounded:
  assumes "rand_ok env" "0 < f" "0 \<le> m" "m < 2 ^ 31 - 1"
  shows "if doubling_fits f 0 (map snd es)
    then \<exists>ts b'. retry_times env es (new_CExponentialBackoff s f m) = (Ok ts, b') \<and>
           waits_allowed (new_CExponentialBackoff s f m) 0 (map snd es) ts
    else \<exists>b'. retry_times env es (new_CExponentialBackoff s f m) = (Fault, b')"
proof -
  have b: "backoff_params_ok (new_CExponentialBackoff s f m)"
    "m_nFailureRetryTime (new_CExponentialBackoff s f m) = f" "m_nRetryCount (new_CExponentialBackoff s f m) = 0"
    using assms(2-4) by (simp_all add: backoff_params_ok_def new_CExponentialBackoff_def)
  show ?thesis
    using retry_times_cases[OF assms(1) b(1), of es] unfolding b .
qed

theorem retry_waits_bounded_witness:
  "(\<exists>b'. retry_times default_env (replicate 27 (0, eERR_SERVER)) (new_CExponentialBackoff 0 60 300) = (Fault, b')) \<and>
   (\<exists>ts b'. retry_times default_env [(7, eERR_TIMEOUT), (67, eERR_OK)] (new_CExponentialBackoff 0 60 300) = (Ok ts, b'))"
proof
  have "\<not> doubling_fits 60 0 (map snd (replicate 27 (0 :: 32 word, eERR_SERVER)))"
    by (simp add: eval_nat_numeral server_failure_def failures_after_def)
  then show "\<exists>b'. retry_times default_env (replicate 27 (0, eERR_SERVER)) (new_CExponentialBackoff 0 60 300) = (Fault, b')"
    using retry_waits_bounded[OF default_env_rand, of 60 300 "replicate 27 (0, eERR_SERVER)" 0] by (auto split: if_splits)
  have "doubling_fits 60 0 (map snd [(7 :: 32 word, eERR_TIMEOUT), (67, eERR_OK)])"
    by (simp add: server_failure_def failures_after_def)
  then show "\<exists>ts b'. retry_times default_env [(7, eERR_TIMEOUT), (67, eERR_OK)] (new_CExponentialBackoff 0 60 300) = (Ok ts, b')"
    using retry_waits_bounded[OF default_env_rand, of 60 300 "[(7, eERR_TIMEOUT), (67, eERR_OK)]" 0] by auto
qed

text \<open>C18: after any sequence of operations of the activation back off (permission asked,
  failures of every kind reported, ignition and device events, resets, clocks set to
  anything), none of which faults, a state object exists while the back off is enabled, it has
  counted no more attempts than there were operations, and its retry time lies in the slot of
  that number of attempts: with \<open>a\<close> attempts in a state of frequency \<open>f\<close>, \<open>a * f\<close>
  milliseconds after the entry of the state where the class adds the frequency, between
  \<open>slot + (a - 1) * f\<close> and \<open>slot + a * f\<close> where it draws. The bound on the length keeps the
  slots in an \<open>int\<close>; 2,300 operations meet it at the default frequencies.\<close>

theorem activation_retry_slots:
  assumes "rand_ok env" "freqs_below env B" "0 \<le> B"
    and "int (length ops) < 2 ^ 31" "5000 + int (length ops) * B < 2 ^ 31 - 1"
  shows "succeeds (then_do (CActivationBackoff_ctor env) (\<lambda>_. run_all (auth_step env) ops)) (s :: auth)
    (\<lambda>_ s'. m_bIsEnable (backoff s') \<longrightarrow>
      (\<exists>st d. m_pBackOffState (backoff s') = Some st \<and>
        0 \<le> m_nAttempts st \<and> m_nAttempts st \<le> int (length ops) \<and>
        m_llNextTime st = m_llStartTime st + of_int d \<and>
        delay_low env (m_eCurrBackoffState st) (m_nAttempts st) \<le> d \<and>
        d \<le> delay_high env (m_eCurrBackoffState st) (m_nAttempts st)))"
  by (rule succeeds_mono[OF auth_run_state_ok[OF assms]]) (auto simp: state_ok_def slots_ok_def Let_def)

theorem activation_retry_slots_witness:
  "succeeds (then_do (CActivationBackoff_ctor default_env)
      (\<lambda>_. run_all (auth_step default_env) [Tick 5 1, DoProceed, DoCalculateNextRetry eERR_SERVER])) blank_auth
    (\<lambda>_ s'. m_bIsEnable (backoff s') \<longrightarrow>
      (\<exists>st d. m_pBackOffState (backoff s') = Some st \<and>
        0 \<le> m_nAttempts st \<and> m_nAttempts st \<le> 3 \<and>
        m_llNextTime st = m_llStartTime st + of_int d \<and>
        delay_low default_env (m_eCurrBackoffState st) (m_nAttempts st) \<le> d \<and>
        d \<le> delay_high default_env (m_eCurrBackoffState st) (m_nAttempts st)))"
  using activation_retry_slots[OF default_env_rand default_env_freqs,
    of "[Tick 5 1, DoProceed, DoCalculateNextRetry eERR_SERVER]" blank_auth]
  by (simp del: run_all.simps)

text \<open>C29: the schedule. When the stored ignition count is not over the threshold and every
  attempt fails, the number \<open>n\<close> of attempts that the back off has permitted determines where
  it stands, whatever the clocks show: the initial state for the first attempts, then the high,
  the normal and for ever after the low frequency, each with its configured number of
  attempts.\<close>

theorem failing_attempts_follow_schedule:
  assumes "rand_ok env" "freqs_below env B" "0 \<le> B" "maxima_positive env"
    and "GetBool env ''HCPAuth.ActivationBackOffConf.enable'' False"
    and "StringToNumber (LocalConfig_Get ''IGNITION_COUNT'' s) \<le> backoff_conf env ''ignitionThreshold'' 50"
    and "int (length ts) < 2 ^ 31" "5000 + int (length ts) * B < 2 ^ 31 - 1"
  shows "succeeds (then_do (CActivationBackoff_ctor env) (\<lambda>_. failed_attempts env ts)) (s :: auth)
    (\<lambda>n s'. n \<le> length ts \<and> (\<exists>st. m_pBackOffState (backoff s') = Some st \<and>
       (m_eCurrBackoffState st, m_nAttempts st) = schedule env (int n)))"
  unfolding succeeds_then_do
proof (rule succeeds_mono[OF ctor_on_schedule[OF assms(5,6,4)]])
  fix s' :: auth assume s': "on_schedule env 0 s'"
  have "succeeds (failed_attempts env ts) s' (\<lambda>n s'. n \<le> length ts \<and> on_schedule env (0 + n) s')"
    by (rule succeeds_failed_attempts[OF assms(1-4) _ _ s']) (use assms(7,8) in simp_all)
  then show "succeeds (failed_attempts env ts) s' (\<lambda>n s'. n \<le> length ts \<and>
      (\<exists>st. m_pBackOffState (backoff s') = Some st \<and>
       (m_eCurrBackoffState st, m_nAttempts st) = schedule env (int n)))"
    by (rule succeeds_mono) (auto simp: on_schedule_def)
qed

theorem failing_attempts_follow_schedule_witness:
  "succeeds (then_do (CActivationBackoff_ctor default_env)
      (\<lambda>_. failed_attempts default_env [(1, 1), (2, 1), (100000, 100)])) blank_auth
    (\<lambda>n s'. n \<le> 3 \<and> (\<exists>st. m_pBackOffState (backoff s') = Some st \<and>
       (m_eCurrBackoffState st, m_nAttempts st) = schedule default_env (int n)))"
proof -
  have "StringToNumber (LocalConfig_Get ''IGNITION_COUNT'' blank_auth) \<le> backoff_conf default_env ''ignitionThreshold'' 50"
    by (simp add: LocalConfig_Get_def blank_auth_def StringToNumber_def digits_value_def in_int_def)
  from failing_attempts_follow_schedule[OF default_env_rand default_env_freqs _ default_env_maxima
      default_env_enabled this, of "[(1, 1), (2, 1), (100000, 100)]"]
  show ?thesis by (simp del: failed_attempts.simps add: numeral_3_eq_3)
qed

end
