(* ===== verification/Token_Properties.thy ===== *)
theory Token_Properties
  imports Token Auth_Properties
begin

text \<open>The properties of the token manager, with concrete cases.\<close>

definition example_token_env :: token_env where
  "example_token_env = env.extend default_env \<lparr>encrypt_passcode = (\<lambda>d p. d @ p),
     activation_details = (\<lambda>v d. v @ d), disassociation_details = (\<lambda>v. v), parse_time = (\<lambda>_. None),
     activation_qualifier = ''VIN''\<rparr>"

text \<open>A manager with the token \<open>t\<close>, valid until 110 milliseconds, at time \<open>now\<close>; the back off allows
  an activation after 1000 milliseconds.\<close>

definition example_token :: "string \<Rightarrow> 64 word \<Rightarrow> CAuthResponse list \<Rightarrow> token" where
  "example_token t now replies = auth.extend
     (blank_auth\<lparr>backoff := (backoff blank_auth)\<lparr>m_bIsEnable := True,
        m_pBackOffState := Some ((fresh_state default_env eINITIAL 0)\<lparr>m_llNextTime := 1000\<rparr>)\<rparr>, mono_ms := now\<rparr>)
     \<lparr>token_str = t, m_llTokenIssuedOn = 10, m_llActivationTime = 0, m_llTokenTTL = 100, m_nMarginPercent = 0,
      m_lTokenIssueTime = 0, activation_replies = [], auth_replies = replies, requests = [], delivered_details = [],
      exited = False\<rparr>"

lemma example_token_fields:
  "token_str (example_token t now rs) = t" "auth_replies (example_token t now rs) = rs"
  "mono_ms (example_token t now rs) = now" "requests (example_token t now rs) = []"
  "m_llTokenIssuedOn (example_token t now rs) = 10" "m_llTokenTTL (example_token t now rs) = 100"
  "m_bIsEnable (backoff (example_token t now rs))" "local_config (example_token t now rs) = (\<lambda>_. None)"
  "m_pBackOffState (backoff (example_token t now rs)) = Some ((fresh_state default_env eINITIAL 0)\<lparr>m_llNextTime := 1000\<rparr>)"
  by (simp_all add: example_token_def auth.extend_def blank_auth_def)

text \<open>C16: the token manager respects the back off: as long as the next attempt is not due, no call
  of \<open>GetToken\<close>, whatever the replies to its logins, sends an activation request; without token and
  credentials it reports the back off.\<close>

theorem no_activation_while_held_back:
  assumes "m_bIsEnable (backoff s)" "m_pBackOffState (backoff s) = Some st" "\<not> CheckIfProceed (mono_ms s) st"
  shows "\<exists>tok e s'. GetToken env s = (Ok (tok, e), s') \<and> activation_requests s' = activation_requests s \<and>
    (token_str s = '''' \<and> \<not> IsActivated s \<longrightarrow> tok = '''' \<and> e = eERR_BACKOFF)"
proof -
  have "held_back s"
    using assms by (simp add: held_back_def)
  from GetToken_held_back[OF this, of env] show ?thesis
    by (auto simp: succeeds_def split: prod.splits res.splits)
qed

lemma no_activation_while_held_back_witness:
  "\<exists>tok e s'. GetToken example_token_env (example_token '''' 50 []) = (Ok (tok, e), s') \<and>
    activation_requests s' = [] \<and> tok = '''' \<and> e = eERR_BACKOFF"
proof -
  have "\<exists>tok e s'. GetToken example_token_env (example_token '''' 50 []) = (Ok (tok, e), s') \<and>
    activation_requests s' = activation_requests (example_token '''' 50 []) \<and>
    (token_str (example_token '''' 50 []) = '''' \<and> \<not> IsActivated (example_token '''' 50 []) \<longrightarrow>
      tok = '''' \<and> e = eERR_BACKOFF)"
    by (rule no_activation_while_held_back[of _ "(fresh_state default_env eINITIAL 0)\<lparr>m_llNextTime := 1000\<rparr>"])
      (simp_all add: example_token_fields CheckIfProceed_def)
  then show ?thesis
    by (simp add: example_token_fields activation_requests_def IsActivated_def LocalConfig_Get_def)
qed

text \<open>C17: when \<open>GetToken\<close> reports no error, its token is the stored one, still valid, without any
  request; or it was issued in this call, and its times were set with it; or the server refused a
  login, and then the token is the old one or empty.\<close>

theorem token_answers:
  assumes "GetToken env s = (Ok (tok, eERR_OK), s')"
  shows "(tok = token_str s \<and> token_str s \<noteq> '''' \<and> mono_ms s < m_llTokenIssuedOn s + m_llTokenTTL s \<and>
      requests s' = requests s) \<or>
    (\<exists>resp\<in>set (auth_replies s). auth_eHttpSessionErrCode resp = eERR_OK \<and> auth_lHttpRespCode resp = 200 \<and>
       tok = auth_strToken resp \<and> token_str s' = tok \<and> m_llTokenIssuedOn s' = mono_ms s' \<and>
       m_llTokenTTL s' = with_margin (m_nMarginPercent s') (auth_ullTokenTTL resp)) \<or>
    (\<exists>resp\<in>set (auth_replies s). auth_eHttpSessionErrCode resp = eERR_OK \<and> auth_lHttpRespCode resp \<noteq> 200) \<and>
      (tok = token_str s \<or> tok = '''')"
  using GetToken_ok[OF assms]
proof (elim disjE)
  assume "fresh_from env (auth_replies s) tok s'"
  then obtain resp where "resp \<in> set (auth_replies s)" "auth_eHttpSessionErrCode resp = eERR_OK"
    "auth_lHttpRespCode resp = 200" "tok = auth_strToken resp" "fresh_token env resp s'"
    by (auto simp: fresh_from_def)
  then show ?thesis
    by (intro disjI2 disjI1 bexI[of _ resp]) (simp_all add: fresh_token_def)
qed (simp_all add: login_refused_def token_valid_def)

lemma token_answers_witness:
  "mono_ms (example_token ''abc'' 50 []) < m_llTokenIssuedOn (example_token ''abc'' 50 []) +
     m_llTokenTTL (example_token ''abc'' 50 [])"
proof -
  have "\<exists>s'. GetToken example_token_env (example_token ''abc'' 50 []) = (Ok (''abc'', eERR_OK), s')"
    by (simp add: GetToken_def cmd_simps example_token_fields token_valid_def SetToken_def Send_event_def then_do_def)
  then obtain s' where "GetToken example_token_env (example_token ''abc'' 50 []) = (Ok (''abc'', eERR_OK), s')" ..
  from token_answers[OF this] show ?thesis
    by (simp add: example_token_fields)
qed

text \<open>C40: an expired token is handed out without an error when the server answers the login with a
  status other than 200, 400 and 401.\<close>

theorem expired_token_returned:
  assumes "token_str s \<noteq> ''''" "\<not> mono_ms s < m_llTokenIssuedOn s + m_llTokenTTL s"
    and "auth_replies s = resp # rs" "auth_eHttpSessionErrCode resp = eERR_OK"
    and "auth_lHttpRespCode resp \<notin> {200, 400, 401}"
  shows "\<exists>s'. GetToken env s = (Ok (token_str s, eERR_OK), s')"
  using expired_token_login[of s resp rs env] assms by (auto simp: token_valid_def elim!: succeedsE)

lemma expired_token_returned_witness:
  "\<exists>s'. GetToken example_token_env (example_token ''abc'' 200 [\<lparr>auth_eHttpSessionErrCode = eERR_OK,
     auth_lHttpRespCode = 500, auth_strToken = '''', auth_strTokenTime = '''', auth_strExpTime = '''',
     auth_ullTokenTTL = 0\<rparr>]) = (Ok (''abc'', eERR_OK), s')"
  using expired_token_returned[of "example_token ''abc'' 200 [\<lparr>auth_eHttpSessionErrCode = eERR_OK,
     auth_lHttpRespCode = 500, auth_strToken = '''', auth_strTokenTime = '''', auth_strExpTime = '''',
     auth_ullTokenTTL = 0\<rparr>]" _ _ example_token_env]
  by (simp add: example_token_fields)

end
