(* ===== verification/Event_Store.thy ===== *)
theory Event_Store
  imports Main "HOL-Library.Word"
begin

text \<open>
  The tables of the database that hold the events to upload, and how the uploader reads them:
  the part of \<open>libClientBL/src/upload/CUploadUtils.h\<close> that selects events, puts the payload
  together and removes what cannot be decrypted.

  SQLite is not under src: a table is a list of rows, a \<open>WHERE\<close> clause a predicate, and every
  statement may fail without effect. The script \<open>db_script\<close> says which ones do; a script
  that has run out means that the statement succeeds. The string of identifiers that the code
  splices into \<open>NOT IN (...)\<close> and the set that it keeps beside it hold the same numbers and
  are one list here; text that only goes to the log is left out.
\<close>

section \<open>Rows and tables\<close>

record row =
  col_id :: int
  col_event_id :: string
  col_timestamp :: "int option"
  col_events :: string
  col_topic :: "string option"
  col_mid :: int
  col_stream :: int
  col_batch :: int

record db =
  event_store :: "row list"
  alert_store :: "row list"
  db_script :: "bool list"

definition TABLE_EVENT_STORE :: string where "TABLE_EVENT_STORE = ''EVENT_STORE''"
definition TABLE_ALERT_STORE :: string where "TABLE_ALERT_STORE = ''ALERT_STORE''"

definition rows :: "string \<Rightarrow> 'a db_scheme \<Rightarrow> row list" where
  "rows t s = (if t = TABLE_EVENT_STORE then event_store s
     else if t = TABLE_ALERT_STORE then alert_store s else [])"

definition map_rows :: "string \<Rightarrow> (row list \<Rightarrow> row list) \<Rightarrow> 'a db_scheme \<Rightarrow> 'a db_scheme" where
  "map_rows t f s =
     (if t = TABLE_EVENT_STORE then s\<lparr>event_store := f (event_store s)\<rparr>
      else if t = TABLE_ALERT_STORE then s\<lparr>alert_store := f (alert_store s)\<rparr> else s)"

text \<open>Whether the next statement succeeds.\<close>

definition db_exec :: "'a db_scheme \<Rightarrow> bool \<times> 'a db_scheme" where
  "db_exec s = (case db_script s of [] \<Rightarrow> (True, s) | b # bs \<Rightarrow> (b, s\<lparr>db_script := bs\<rparr>))"

definition db_Remove :: "string \<Rightarrow> (row \<Rightarrow> bool) \<Rightarrow> 'a db_scheme \<Rightarrow> bool \<times> 'a db_scheme" where
  "db_Remove t P s = (case db_exec s of
      (True, s') \<Rightarrow> (True, map_rows t (filter (\<lambda>r. \<not> P r)) s')
    | (False, s') \<Rightarrow> (False, s'))"

definition db_Update :: "string \<Rightarrow> (row \<Rightarrow> row) \<Rightarrow> (row \<Rightarrow> bool) \<Rightarrow> 'a db_scheme \<Rightarrow> bool \<times> 'a db_scheme" where
  "db_Update t f P s = (case db_exec s of
      (True, s') \<Rightarrow> (True, map_rows t (map (\<lambda>r. if P r then f r else r)) s')
    | (False, s') \<Rightarrow> (False, s'))"

text \<open>\<open>SELECT ... WHERE P ORDER BY TIMESTAMP ASC LIMIT n\<close>; no result when it fails. Rows of
  equal time stay in the order of the table.\<close>

definition time_key :: "row \<Rightarrow> int" where
  "time_key r = (case col_timestamp r of None \<Rightarrow> 0 | Some t \<Rightarrow> t)"

definition db_Query :: "string \<Rightarrow> (row \<Rightarrow> bool) \<Rightarrow> int \<Rightarrow> 'a db_scheme \<Rightarrow> row list option \<times> 'a db_scheme" where
  "db_Query t P n s = (case db_exec s of
      (True, s') \<Rightarrow>
        (let rs = sort_key time_key (filter P (rows t s')) in
          (Some (if n > 0 then take (nat n) rs else rs), s'))
    | (False, s') \<Rightarrow> (None, s'))"

text \<open>What the upload code reads from other parts: the decryption of an event (OpenSSL), the
  JSON parser, the configured upload modes, the device identifier and the topic prefix.\<close>

record upload_env =
  DecryptEventData :: "string \<Rightarrow> string"
  json_parses :: "string \<Rightarrow> bool"
  batch_supported :: bool
  stream_supported :: bool
  device_id :: string
  topic_prefix :: string

definition corrupted :: "upload_env \<Rightarrow> row \<Rightarrow> bool" where
  "corrupted env r =
     (DecryptEventData env (col_events r) = '''' \<or> \<not> json_parses env (DecryptEventData env (col_events r)))"

section \<open>CUploadUtils.h: selecting events\<close>

definition GetSelectionForStreamingEvents ::
  "string \<Rightarrow> int \<Rightarrow> int \<Rightarrow> int \<Rightarrow> int \<Rightarrow> row \<Rightarrow> bool"
where
  "GetSelectionForStreamingEvents strTable llStart llEnd llAfterId llBeforeId r =
     (col_timestamp r \<noteq> None \<and>
      (llAfterId \<noteq> -1 \<longrightarrow> col_id r > llAfterId) \<and>
      (llBeforeId \<noteq> -1 \<longrightarrow> col_id r < llBeforeId) \<and>
      (llEnd > 0 \<longrightarrow> time_key r \<le> llEnd) \<and>
      (llStart > 0 \<longrightarrow> time_key r \<ge> llStart) \<and>
      col_mid r = 0 \<and> col_topic r = None \<and>
      (strTable = TABLE_EVENT_STORE \<longrightarrow> col_stream r = 1))"

definition DeleteCorruptedEvents :: "string \<Rightarrow> int list \<Rightarrow> 'a db_scheme \<Rightarrow> 'a db_scheme" where
  "DeleteCorruptedEvents t ids s =
     (if ids = [] then s else snd (db_Remove t (\<lambda>r. col_id r \<in> set ids) s))"

text \<open>\<open>ValidateStreamingEvent\<close>: the payload so far, the identifiers taken and the corrupted ones.\<close>

fun ValidateStreamingEvent ::
  "upload_env \<Rightarrow> row list \<Rightarrow> int list \<Rightarrow> int list \<Rightarrow> string \<Rightarrow> int list \<times> int list \<times> string"
where
  "ValidateStreamingEvent env [] corrupt ids result = (corrupt, ids, result)"
| "ValidateStreamingEvent env (r # rs) corrupt ids result =
     (if corrupted env r then ValidateStreamingEvent env rs (corrupt @ [col_id r]) ids result
      else ValidateStreamingEvent env rs corrupt (ids @ [col_id r])
             (result @ DecryptEventData env (col_events r) @ '',''))"

text \<open>\<open>ValidateCorruptedEventIds\<close>: a hundred identifiers are removed at once.\<close>

definition ValidateCorruptedEventIds :: "string \<Rightarrow> int list \<Rightarrow> 'a db_scheme \<Rightarrow> int list \<times> 'a db_scheme" where
  "ValidateCorruptedEventIds t corrupt s =
     (if card (set corrupt) \<ge> 100 then ([], DeleteCorruptedEvents t corrupt s) else (corrupt, s))"

definition UpdateFinalResultJsonStr :: "string \<Rightarrow> string" where
  "UpdateFinalResultJsonStr result =
     (if length result > 1 then butlast result @ '']'' else result @ '']'')"

section \<open>The measure of the loop\<close>

text \<open>A failing statement uses up the script; a removal shortens the table; otherwise the rows
  that are not yet excluded become fewer.\<close>

definition loop_measure :: "string \<Rightarrow> (row \<Rightarrow> bool) \<Rightarrow> int list \<times> 'a db_scheme \<Rightarrow> nat \<times> nat \<times> nat" where
  "loop_measure t P cs = (length (db_script (snd cs)), length (rows t (snd cs)),
     length (filter (\<lambda>r. P r \<and> col_id r \<notin> set (fst cs)) (rows t (snd cs))))"

abbreviation loop_order :: "((nat \<times> nat \<times> nat) \<times> (nat \<times> nat \<times> nat)) set" where
  "loop_order \<equiv> less_than <*lex*> less_than <*lex*> less_than"

lemma db_exec_cases:
  "(b, s') = db_exec s \<Longrightarrow>
     (db_script s = [] \<and> b \<and> s' = s) \<or> (\<exists>bs. db_script s = b # bs \<and> s' = s\<lparr>db_script := bs\<rparr>)"
  by (auto simp: db_exec_def split: list.splits)

lemma rows_script [simp]: "rows t (s\<lparr>db_script := bs\<rparr>) = rows t s"
  by (simp add: rows_def)

lemma db_script_map_rows [simp]: "db_script (map_rows t f s) = db_script s"
  by (simp add: map_rows_def)

lemma rows_map_rows: "f [] = [] \<Longrightarrow> rows u (map_rows t f s) = (if u = t then f (rows t s) else rows u s)"
  by (auto simp: rows_def map_rows_def TABLE_EVENT_STORE_def TABLE_ALERT_STORE_def)

lemma db_Query_result:
  assumes "db_Query t P n s = (Some rs, s')"
  shows "rows t s' = rows t s" "length (db_script s') \<le> length (db_script s)" "set rs \<subseteq> {r \<in> set (rows t s). P r}"
    "db_script s = [] \<or> length (db_script s') < length (db_script s)"
  using assms
  by (auto simp: db_Query_def db_exec_def Let_def split: list.splits prod.splits bool.splits if_splits
    dest: in_set_takeD)

lemma db_Query_length:
  assumes "db_Query t P n s = (Some rs, s')" "0 < n"
  shows "int (length rs) \<le> n"
proof -
  have "rs = take (nat n) (sort_key time_key (filter P (rows t s')))"
    using assms by (auto simp: db_Query_def Let_def split: bool.splits prod.splits)
  then have "length rs \<le> nat n"
    by simp
  then show ?thesis
    using assms(2) by linarith
qed

lemma ValidateStreamingEvent_result:
  "ValidateStreamingEvent env rs corrupt ids result =
     (corrupt @ map col_id (filter (corrupted env) rs),
      ids @ map col_id (filter (\<lambda>r. \<not> corrupted env r) rs),
      result @ concat (map (\<lambda>r. DecryptEventData env (col_events r) @ '','') (filter (\<lambda>r. \<not> corrupted env r) rs)))"
  by (induction rs arbitrary: corrupt ids result) auto

lemma db_Remove_shrinks:
  assumes "db_Remove t P s = (b, s')" "\<exists>r\<in>set (rows t s). P r"
  shows "length (db_script s') < length (db_script s) \<or>
    length (db_script s') = length (db_script s) \<and> length (rows t s') < length (rows t s)"
  using assms length_filter_less[of _ "rows t s" "\<lambda>r. \<not> P r"]
  by (auto simp: db_Remove_def db_exec_def rows_map_rows split: list.splits bool.splits)

text \<open>One round of the loop makes progress when it found rows but took none.\<close>

lemma loop_progress:
  assumes q: "db_Query t (\<lambda>r. P r \<and> col_id r \<notin> set corrupt) n s = (Some (r # rs), s1)"
    and c1: "corrupt1 = corrupt @ map col_id (r # rs)"
    and c: "ValidateCorruptedEventIds t corrupt1 s1 = (corrupt2, s2)"
  shows "(loop_measure t P (corrupt2, s2), loop_measure t P (corrupt, s)) \<in> loop_order"
proof -
  note q' = db_Query_result[OF q]

  have r: "r \<in> set (rows t s)" "P r" "col_id r \<notin> set corrupt"
    using q'(3) by auto
  show ?thesis
  proof (cases "card (set corrupt1) \<ge> 100")
    case True
    then have "s2 = snd (db_Remove t (\<lambda>r. col_id r \<in> set corrupt1) s1)"
      using c c1 by (simp add: ValidateCorruptedEventIds_def DeleteCorruptedEvents_def)
    moreover have "\<exists>x\<in>set (rows t s1). col_id x \<in> set corrupt1"
      using r(1) q'(1) c1 by (auto intro!: bexI[of _ r])
    ultimately have "length (db_script s2) < length (db_script s1) \<or>
        length (db_script s2) = length (db_script s1) \<and> length (rows t s2) < length (rows t s1)"
      using db_Remove_shrinks[of t "\<lambda>r. col_id r \<in> set corrupt1" s1] by (metis prod.collapse)
    then show ?thesis
      using q'(1,2) by (auto simp: loop_measure_def)
  next
    case False
    then have s2: "corrupt2 = corrupt1" "s2 = s1"
      using c by (simp_all add: ValidateCorruptedEventIds_def)
    have "length (filter (\<lambda>r. P r \<and> col_id r \<notin> set corrupt1) (rows t s))
        < length (filter (\<lambda>r. P r \<and> col_id r \<notin> set corrupt) (rows t s))"
    proof -
      have "filter (\<lambda>x. P x \<and> col_id x \<notin> set corrupt1) (rows t s) =
          filter (\<lambda>x. col_id x \<notin> set (map col_id (r # rs))) (filter (\<lambda>x. P x \<and> col_id x \<notin> set corrupt) (rows t s))"
        by (auto simp: c1 intro: filter_cong)
      also have "length \<dots> < length (filter (\<lambda>x. P x \<and> col_id x \<notin> set corrupt) (rows t s))"
        by (rule length_filter_less[of r]) (use r in auto)
      finally show ?thesis .
    qed
    then show ?thesis
      using q'(1,2,4) s2 by (auto simp: loop_measure_def)
  qed
qed

text \<open>The \<open>while (bContinueQuery)\<close> loop of \<open>GetStreamingEventsFromDB\<close>; the payload has not
  grown when it goes round.\<close>

function streaming_loop ::
  "upload_env \<Rightarrow> string \<Rightarrow> (row \<Rightarrow> bool) \<Rightarrow> int \<Rightarrow> int list \<times> 'a db_scheme
   \<Rightarrow> int list \<times> string \<times> int list \<times> 'a db_scheme"
where
  "streaming_loop env t P n cs =
     (case db_Query t (\<lambda>r. P r \<and> col_id r \<notin> set (fst cs)) n (snd cs) of
        (Some (r # rs), s1) \<Rightarrow>
          (case ValidateStreamingEvent env (r # rs) (fst cs) [] ''['' of (corrupt1, ids, result) \<Rightarrow>
            (case ids of
              [] \<Rightarrow> streaming_loop env t P n (ValidateCorruptedEventIds t corrupt1 s1)
            | _ \<Rightarrow> (ids, result, ValidateCorruptedEventIds t corrupt1 s1)))
      | (_, s1) \<Rightarrow> ([], ''['', fst cs, s1))"
  by pat_completeness auto
termination
proof (relation "inv_image loop_order (\<lambda>(env, t, P, n, cs). loop_measure t P cs)", goal_cases)
  case 1
  show ?case by (intro wf_inv_image wf_lex_prod wf_less_than)
next
  case (2 env t P n cs x s1 rows r rs corrupt1 v ids result)
  obtain c2 s2 where c: "ValidateCorruptedEventIds t corrupt1 s1 = (c2, s2)"
    by fastforce
  have q: "db_Query t (\<lambda>r. P r \<and> col_id r \<notin> set (fst cs)) n (snd cs) = (Some (r # rs), s1)"
    using 2 by simp
  have "ValidateStreamingEvent env (r # rs) (fst cs) [] ''['' = (corrupt1, [], result)"
    using 2 by simp
  then have v: "corrupt1 = fst cs @ map col_id (r # rs)"
    by (auto simp: ValidateStreamingEvent_result filter_empty_conv split: if_splits)
  from loop_progress[OF q v c] c show ?case by simp
qed

declare streaming_loop.simps [simp del]

definition GetStreamingEventsFromDB ::
  "upload_env \<Rightarrow> string \<Rightarrow> int \<Rightarrow> int \<Rightarrow> int \<Rightarrow> int \<Rightarrow> int \<Rightarrow> 'a db_scheme \<Rightarrow> int list \<times> string \<times> 'a db_scheme"
where
  "GetStreamingEventsFromDB env t n llStart llEnd llAfterId llBeforeId s =
     (case streaming_loop env t (GetSelectionForStreamingEvents t llStart llEnd llAfterId llBeforeId) n ([], s) of
        (ids, result, corrupt, s1) \<Rightarrow>
          (ids, UpdateFinalResultJsonStr result, DeleteCorruptedEvents t corrupt s1))"

section \<open>CUploadUtils.h: selecting events with a topic\<close>

text \<open>\<open>strTopic.substr(strTopic.find(''2c/''))\<close>, when it is found.\<close>

fun from_2c :: "string \<Rightarrow> string option" where
  "from_2c [] = None"
| "from_2c (c # cs) = (if take 3 (c # cs) = ''2c/'' then Some (c # cs) else from_2c cs)"

definition topiced_selection :: "int \<Rightarrow> int \<Rightarrow> row \<Rightarrow> bool" where
  "topiced_selection llStart llEnd r =
     (col_timestamp r \<noteq> None \<and>
      (llEnd > 0 \<longrightarrow> time_key r \<le> llEnd) \<and>
      (llStart > 0 \<longrightarrow> time_key r \<ge> llStart) \<and>
      col_topic r \<noteq> None \<and> col_mid r = 0)"

text \<open>\<open>ValidateTopicedStreamingEvent\<close>, the \<open>for\<close> loop: a row without a topic to publish on is
  neither taken nor excluded.\<close>

type_synonym topiced = "(int \<times> string \<times> string) list"

fun ValidateTopicedStreamingEvent ::
  "upload_env \<Rightarrow> row list \<Rightarrow> int list \<Rightarrow> topiced \<Rightarrow> int list \<times> topiced"
where
  "ValidateTopicedStreamingEvent env [] corrupt results = (corrupt, results)"
| "ValidateTopicedStreamingEvent env (r # rs) corrupt results =
     (if corrupted env r then ValidateTopicedStreamingEvent env rs (corrupt @ [col_id r]) results
      else case from_2c (the (col_topic r)) of
          None \<Rightarrow> ValidateTopicedStreamingEvent env rs corrupt results
        | Some topic \<Rightarrow> ValidateTopicedStreamingEvent env rs corrupt
            (results @ [(col_id r, topic_prefix env @ device_id env @ ''/'' @ topic, DecryptEventData env (col_events r))]))"

text \<open>The loop of \<open>GetTopicedStreamingEventsFromDB\<close>; no value when it does not return.\<close>

partial_function (option) topiced_loop ::
  "upload_env \<Rightarrow> string \<Rightarrow> (row \<Rightarrow> bool) \<Rightarrow> int \<Rightarrow> int list \<times> 'a db_scheme
   \<Rightarrow> (topiced \<times> int list \<times> 'a db_scheme) option"
where
  "topiced_loop env t P n cs =
     (case db_Query t (\<lambda>r. P r \<and> col_id r \<notin> set (fst cs)) n (snd cs) of
        (Some (r # rs), s1) \<Rightarrow>
          (case ValidateTopicedStreamingEvent env (r # rs) (fst cs) [] of (corrupt1, results) \<Rightarrow>
            (case results of
              [] \<Rightarrow> topiced_loop env t P n (ValidateCorruptedEventIds t corrupt1 s1)
            | _ \<Rightarrow> Some (results, ValidateCorruptedEventIds t corrupt1 s1)))
      | (_, s1) \<Rightarrow> Some ([], fst cs, s1))"

definition GetTopicedStreamingEventsFromDB ::
  "upload_env \<Rightarrow> string \<Rightarrow> int \<Rightarrow> int \<Rightarrow> int \<Rightarrow> 'a db_scheme \<Rightarrow> (topiced \<times> 'a db_scheme) option"
where
  "GetTopicedStreamingEventsFromDB env t n llStart llEnd s =
     (if device_id env = '''' then Some ([], s)
      else case topiced_loop env t (topiced_selection llStart llEnd) n ([], s) of
          None \<Rightarrow> None
        | Some (results, corrupt, s1) \<Rightarrow> Some (results, DeleteCorruptedEvents t corrupt s1))"

lemma ValidateTopiced_none:
  assumes "\<forall>r\<in>set rs. \<not> corrupted env r \<and> from_2c (the (col_topic r)) = None"
  shows "ValidateTopicedStreamingEvent env rs corrupt results = (corrupt, results)"
  using assms by (induction rs) auto

lemma ValidateTopiced_grows:
  "ValidateTopicedStreamingEvent env rs corrupt results = (corrupt1, results1) \<Longrightarrow> length results \<le> length results1"
proof (induction rs arbitrary: corrupt results)
  case (Cons r rs)
  then show ?case
    by (fastforce split: if_splits option.splits dest: Cons.IH)
qed simp

lemma ValidateTopiced_all_corrupted:
  assumes "ValidateTopicedStreamingEvent env rs corrupt [] = (corrupt1, [])"
    and "\<forall>r\<in>set rs. from_2c (the (col_topic r)) \<noteq> None"
  shows "corrupt1 = corrupt @ map col_id rs"
  using assms
proof (induction rs arbitrary: corrupt)
  case (Cons r rs)
  then show ?case
    by (auto split: if_splits option.splits dest: ValidateTopiced_grows Cons.IH)
qed simp

text \<open>When the rows that the query returns are all intact but none has a topic with \<open>2c/\<close>, the
  loop asks the same query for ever.\<close>

lemma topiced_loop_diverges:
  assumes first: "db_Query t (\<lambda>r. P r \<and> col_id r \<notin> set corrupt) n s = (Some (r # rs), s)"
    and bad: "\<forall>x\<in>set (r # rs). \<not> corrupted env x \<and> from_2c (the (col_topic x)) = None"
    and few: "card (set corrupt) < 100"
  shows "topiced_loop env t P n (corrupt, s) = None"
proof -
  have v: "ValidateTopicedStreamingEvent env (r # rs) corrupt [] = (corrupt, [])"
    using ValidateTopiced_none[OF bad] .
  have c: "ValidateCorruptedEventIds t corrupt s = (corrupt, s)"
    using few by (simp add: ValidateCorruptedEventIds_def)
  have "x \<noteq> ((((env, t), P), n), (corrupt, s))"
    if "topiced_loop (fst (fst (fst (fst x)))) (snd (fst (fst (fst x)))) (snd (fst (fst x))) (snd (fst x)) (snd x) = Some y"
    for x y
  proof (rule topiced_loop.raw_induct[where Pa = "\<lambda>x y. x \<noteq> ((((env, t), P), n), (corrupt, s))", OF _ that, simplified])
    fix f env' t' P' n' cs y
    assume ih: "\<And>t' P' n' cs b y. f t' P' n' cs b = Some y \<Longrightarrow>
        cs = n \<longrightarrow> n' = P \<longrightarrow> P' = t \<longrightarrow> t' = env \<longrightarrow> b \<noteq> (corrupt, s)"
      and body: "(case db_Query t' (\<lambda>r. P' r \<and> col_id r \<notin> set (fst cs)) n' (snd cs) of
        (Some (r # rs), s1) \<Rightarrow>
          (case ValidateTopicedStreamingEvent env' (r # rs) (fst cs) [] of (corrupt1, results) \<Rightarrow>
            (case results of
              [] \<Rightarrow> f env' t' P' n' (ValidateCorruptedEventIds t' corrupt1 s1)
            | _ \<Rightarrow> Some (results, ValidateCorruptedEventIds t' corrupt1 s1)))
      | (_, s1) \<Rightarrow> Some ([], fst cs, s1)) = Some y"
    show "n' = n \<longrightarrow> P' = P \<longrightarrow> t' = t \<longrightarrow> env' = env \<longrightarrow> cs \<noteq> (corrupt, s)"
    proof (intro impI notI)
      assume "n' = n" "P' = P" "t' = t" "env' = env" "cs = (corrupt, s)"
      then have "f env t P n (corrupt, s) = Some y"
        using body first v c by (simp del: ValidateTopicedStreamingEvent.simps)
      then show False
        using ih by blast
    qed
  qed
  then show ?thesis
    by (metis not_None_eq fst_conv snd_conv)
qed

lemma topiced_loop_returns:
  assumes "\<forall>r\<in>set (rows t (snd cs)). P r \<longrightarrow> from_2c (the (col_topic r)) \<noteq> None"
  shows "\<exists>y. topiced_loop env t P n cs = Some y"
proof -
  have "wf (inv_image loop_order (loop_measure t P :: int list \<times> 'a db_scheme \<Rightarrow> _))"
    by (intro wf_inv_image wf_lex_prod wf_less_than)
  then show ?thesis
    using assms
proof (induction cs rule: wf_induct_rule)
  case (less cs)
  obtain q s1 where q: "db_Query t (\<lambda>r. P r \<and> col_id r \<notin> set (fst cs)) n (snd cs) = (q, s1)"
    by fastforce
  show ?case
  proof (cases "\<exists>r rs. q = Some (r # rs)")
    case False
    then show ?thesis
      by (subst topiced_loop.simps) (auto simp: q split: option.splits list.splits)
  next
    case True
    then obtain r rs where r: "q = Some (r # rs)" by blast
    obtain corrupt1 results where v: "ValidateTopicedStreamingEvent env (r # rs) (fst cs) [] = (corrupt1, results)"
      by fastforce
    obtain c2 s2 where c: "ValidateCorruptedEventIds t corrupt1 s1 = (c2, s2)"
      by fastforce
    note q' = db_Query_result[OF q[unfolded r]]
    show ?thesis
    proof (cases results)
      case (Cons a as)
      then show ?thesis
        by (subst topiced_loop.simps) (simp add: q r v del: ValidateTopicedStreamingEvent.simps)
    next
      case Nil
      have "\<forall>x\<in>set (r # rs). from_2c (the (col_topic x)) \<noteq> None"
        using q'(3) less(2) by auto
      then have c1: "corrupt1 = fst cs @ map col_id (r # rs)"
        using ValidateTopiced_all_corrupted v[unfolded Nil] by blast
      have "((c2, s2), cs) \<in> inv_image loop_order (loop_measure t P)"
        using loop_progress[OF q[unfolded r] c1 c] by simp
      moreover have "set (rows t s2) \<subseteq> set (rows t s1)"
        using c by (auto simp: ValidateCorruptedEventIds_def DeleteCorruptedEvents_def db_Remove_def db_exec_def
          rows_map_rows split: if_splits list.splits bool.splits)
      ultimately have "\<exists>y. topiced_loop env t P n (c2, s2) = Some y"
        using less(2) q'(1) by (intro less(1)) auto
      then obtain y where "topiced_loop env t P n (c2, s2) = Some y" ..
      then show ?thesis
        by (subst topiced_loop.simps, cases y) (simp add: q r v c Nil del: ValidateTopicedStreamingEvent.simps)
    qed
  qed
qed
qed

section \<open>What the selection returns and removes\<close>

definition bad_ids :: "upload_env \<Rightarrow> string \<Rightarrow> 'a db_scheme \<Rightarrow> int set" where
  "bad_ids env t s = col_id ` {r \<in> set (rows t s). corrupted env r}"

text \<open>The table lost only rows whose identifier is that of a corrupted row; nothing else changed.\<close>

definition lost_corrupted :: "upload_env \<Rightarrow> string \<Rightarrow> 'a db_scheme \<Rightarrow> 'a db_scheme \<Rightarrow> bool" where
  "lost_corrupted env t s s' =
     ((\<exists>X \<subseteq> bad_ids env t s. rows t s' = filter (\<lambda>r. col_id r \<notin> X) (rows t s)) \<and>
      (\<forall>u. u \<noteq> t \<longrightarrow> rows u s' = rows u s) \<and> db.more s' = db.more s)"

lemma lost_corrupted_refl [simp, intro]: "lost_corrupted env t s s"
proof -
  have "rows t s = filter (\<lambda>r. col_id r \<notin> {}) (rows t s)" by simp
  then show ?thesis
    unfolding lost_corrupted_def by (intro conjI exI[of _ "{}"]) auto
qed

lemma lost_corrupted_trans:
  assumes "lost_corrupted env t s s1" "lost_corrupted env t s1 s2"
  shows "lost_corrupted env t s s2"
proof -
  obtain X where X: "X \<subseteq> bad_ids env t s" "rows t s1 = filter (\<lambda>r. col_id r \<notin> X) (rows t s)"
    using assms(1) by (auto simp: lost_corrupted_def)
  obtain Y where Y: "Y \<subseteq> bad_ids env t s1" "rows t s2 = filter (\<lambda>r. col_id r \<notin> Y) (rows t s1)"
    using assms(2) by (auto simp: lost_corrupted_def)
  have "X \<union> Y \<subseteq> bad_ids env t s" "rows t s2 = filter (\<lambda>r. col_id r \<notin> X \<union> Y) (rows t s)"
    using X Y by (auto simp: bad_ids_def intro: filter_cong)
  moreover have "(\<forall>u. u \<noteq> t \<longrightarrow> rows u s2 = rows u s) \<and> db.more s2 = db.more s"
    using assms by (simp add: lost_corrupted_def)
  ultimately show ?thesis
    unfolding lost_corrupted_def by blast
qed

lemma rows_map_rows_filter [simp]: "rows u (map_rows t (filter Q) s) = (if u = t then filter Q (rows t s) else rows u s)"
  by (simp add: rows_map_rows)

lemma map_rows_more [simp]: "db.more (map_rows t f s) = db.more s"
  by (simp add: map_rows_def)

lemma db_Query_frame:
  assumes "db_Query t P n s = (q, s')"
  shows "rows u s' = rows u s" "db.more s' = db.more s" "lost_corrupted env v s s'"
  using assms
  by (auto simp: db_Query_def db_exec_def Let_def lost_corrupted_def split: list.splits bool.splits
    intro!: exI[of _ "{}"])

lemma DeleteCorruptedEvents_lost:
  assumes "set ids \<subseteq> bad_ids env t s"
  shows "lost_corrupted env t s (DeleteCorruptedEvents t ids s)"
proof (cases "db_exec s")
  case (Pair b s')
  then have "rows u s' = rows u s" "db.more s' = db.more s" for u
    by (auto simp: db_exec_def split: list.splits)
  then show ?thesis
    using assms Pair
    by (auto simp: DeleteCorruptedEvents_def db_Remove_def lost_corrupted_def split: bool.splits
      intro: exI[of _ "set ids"] exI[of _ "{}"])
qed

lemma bad_ids_frame: "rows t s' = rows t s \<Longrightarrow> bad_ids env t s' = bad_ids env t s"
  by (simp add: bad_ids_def)

definition taken_rows :: "upload_env \<Rightarrow> string \<Rightarrow> (row \<Rightarrow> bool) \<Rightarrow> int \<Rightarrow> 'a db_scheme \<Rightarrow> row list \<Rightarrow> bool" where
  "taken_rows env t P n s rs =
     ((\<forall>r\<in>set rs. r \<in> set (rows t s) \<and> P r \<and> \<not> corrupted env r) \<and> (0 < n \<longrightarrow> int (length rs) \<le> n))"

lemma streaming_loop_result:
  assumes "streaming_loop env t P n cs = (ids, result, corrupt, s1)"
    and "set (fst cs) \<subseteq> bad_ids env t (snd cs)"
  shows "lost_corrupted env t (snd cs) s1 \<and> set corrupt \<subseteq> bad_ids env t s1 \<and>
    (\<exists>rs. taken_rows env t P n (snd cs) rs \<and> ids = map col_id rs \<and>
      result = ''['' @ concat (map (\<lambda>r. DecryptEventData env (col_events r) @ '','') rs))"
  using assms
proof (induction env t P n cs arbitrary: ids result corrupt s1 rule: streaming_loop.induct)
  case (1 env t P n cs)
  obtain q s2 where q: "db_Query t (\<lambda>r. P r \<and> col_id r \<notin> set (fst cs)) n (snd cs) = (q, s2)"
    by fastforce
  note frame = db_Query_frame[OF q]
  show ?case
  proof (cases "\<exists>r rs. q = Some (r # rs)")
    case False
    then have "ids = [] \<and> result = ''['' \<and> corrupt = fst cs \<and> s1 = s2"
      using 1(2) by (subst (asm) streaming_loop.simps) (auto simp: q split: option.splits list.splits)
    then show ?thesis
      using 1(3) frame bad_ids_frame[OF frame(1)] by (auto simp: taken_rows_def intro!: exI[of _ "[]"])
  next
    case True
    then obtain r rs where r: "q = Some (r # rs)" by blast
    note q' = db_Query_result[OF q[unfolded r]]
    define good where "good = filter (\<lambda>r. \<not> corrupted env r) (r # rs)"
    define corrupt1 where "corrupt1 = fst cs @ map col_id (filter (corrupted env) (r # rs))"
    define result1 where "result1 = ''['' @ concat (map (\<lambda>r. DecryptEventData env (col_events r) @ '','') good)"
    have v: "ValidateStreamingEvent env (r # rs) (fst cs) [] ''['' = (corrupt1, map col_id good, result1)"
      unfolding ValidateStreamingEvent_result good_def corrupt1_def result1_def by simp
    have c1: "set corrupt1 \<subseteq> bad_ids env t s2"
      using 1(3) q'(3) bad_ids_frame[OF frame(1)] by (auto simp: corrupt1_def bad_ids_def split: if_splits)
    obtain c2 s3 where c: "ValidateCorruptedEventIds t corrupt1 s2 = (c2, s3)" by fastforce
    have s3: "lost_corrupted env t s2 s3" "set c2 \<subseteq> bad_ids env t s3"
      using c c1 DeleteCorruptedEvents_lost[OF c1]
      by (auto simp: ValidateCorruptedEventIds_def split: if_splits)
    have lost: "lost_corrupted env t (snd cs) s3"
      using lost_corrupted_trans frame(3) s3(1) by blast
    have len: "int (length (r # rs)) \<le> n" if "0 < n"
      using db_Query_length[OF q[unfolded r] that] .
    show ?thesis
    proof (cases good)
      case Nil
      have loop: "streaming_loop env t P n (c2, s3) = (ids, result, corrupt, s1)"
        using 1(2) by (subst (asm) streaming_loop.simps) (simp add: q r v Nil c del: ValidateStreamingEvent.simps)
      have "\<exists>rs. taken_rows env t P n s3 rs \<and> ids = map col_id rs \<and>
          result = ''['' @ concat (map (\<lambda>r. DecryptEventData env (col_events r) @ '','') rs)"
        "lost_corrupted env t s3 s1" "set corrupt \<subseteq> bad_ids env t s1"
        using 1(1)[OF q[symmetric] r refl v[symmetric] refl _ loop[folded c]] Nil c s3(2) by auto
      moreover have "set (rows t s3) \<subseteq> set (rows t (snd cs))"
        using lost by (auto simp: lost_corrupted_def)
      ultimately show ?thesis
        using lost_corrupted_trans[OF lost] by (fastforce simp: taken_rows_def)
    next
      case (Cons g gs)
      have "ids = map col_id good \<and> result = result1 \<and> corrupt = c2 \<and> s1 = s3"
        using 1(2) by (subst (asm) streaming_loop.simps) (simp add: q r v Cons c del: ValidateStreamingEvent.simps)
      moreover have "taken_rows env t P n (snd cs) good"
        unfolding taken_rows_def
      proof
        show "\<forall>r\<in>set good. r \<in> set (rows t (snd cs)) \<and> P r \<and> \<not> corrupted env r"
          using q'(3) by (auto simp: good_def split: if_splits)
        have "length good \<le> length (r # rs)"
          unfolding good_def by (rule length_filter_le)
        then show "0 < n \<longrightarrow> int (length good) \<le> n"
          using len by linarith
      qed
      ultimately show ?thesis
        using lost s3(2) result1_def by blast
    qed
  qed
qed

section \<open>The payload\<close>

fun commas :: "string list \<Rightarrow> string" where
  "commas [] = ''''"
| "commas [x] = x"
| "commas (x # y # zs) = x @ '','' @ commas (y # zs)"

text \<open>The specification: a JSON array of the decrypted events.\<close>

definition json_array :: "string list \<Rightarrow> string" where
  "json_array xs = ''['' @ commas xs @ '']''"

lemma butlast_commas: "xs \<noteq> [] \<Longrightarrow> butlast (concat (map (\<lambda>x. x @ '','') xs)) = commas xs"
  by (induction xs rule: commas.induct) (auto simp: butlast_append)

lemma UpdateFinalResultJsonStr_array:
  "UpdateFinalResultJsonStr (''['' @ concat (map (\<lambda>x. x @ '','') xs)) = json_array xs"
proof (cases xs)
  case (Cons y ys)
  then have "concat (map (\<lambda>x. x @ '','') xs) \<noteq> []" by simp
  then show ?thesis
    using Cons butlast_commas[of xs] by (simp add: UpdateFinalResultJsonStr_def json_array_def)
qed (simp add: UpdateFinalResultJsonStr_def json_array_def)

lemma GetStreamingEventsFromDB_result:
  assumes "GetStreamingEventsFromDB env t n llStart llEnd llAfterId llBeforeId s = (ids, payload, s')"
  shows "lost_corrupted env t s s' \<and>
    (\<exists>rs. taken_rows env t (GetSelectionForStreamingEvents t llStart llEnd llAfterId llBeforeId) n s rs \<and>
       ids = map col_id rs \<and> payload = json_array (map (\<lambda>r. DecryptEventData env (col_events r)) rs))"
proof -
  obtain result corrupt s1 where l: "streaming_loop env t
      (GetSelectionForStreamingEvents t llStart llEnd llAfterId llBeforeId) n ([], s) = (ids, result, corrupt, s1)"
    "payload = UpdateFinalResultJsonStr result" "s' = DeleteCorruptedEvents t corrupt s1"
    using assms by (auto simp: GetStreamingEventsFromDB_def split: prod.splits)
  note r = streaming_loop_result[OF l(1)]
  obtain rs where rs: "taken_rows env t (GetSelectionForStreamingEvents t llStart llEnd llAfterId llBeforeId) n s rs"
    "ids = map col_id rs" "result = ''['' @ concat (map (\<lambda>r. DecryptEventData env (col_events r) @ '','') rs)"
    using r by auto
  have "payload = json_array (map (\<lambda>r. DecryptEventData env (col_events r)) rs)"
    using UpdateFinalResultJsonStr_array[of "map (\<lambda>r. DecryptEventData env (col_events r)) rs"]
    by (simp add: l(2) rs(3) comp_def)
  moreover have "lost_corrupted env t s s'"
    unfolding l(3) by (rule lost_corrupted_trans[OF _ DeleteCorruptedEvents_lost]) (use r in auto)
  ultimately show ?thesis
    using rs(1,2) by blast
qed

text \<open>The same for the events with a topic: what is removed, and that they are rows of the table.\<close>

lemma topiced_result_rows:
  assumes "ValidateTopicedStreamingEvent env rs corrupt results = (corrupt1, results1)"
  shows "set corrupt1 = set corrupt \<union> col_id ` {r \<in> set rs. corrupted env r}"
    "\<forall>x\<in>set results1. x \<in> set results \<or> (\<exists>r\<in>set rs. \<not> corrupted env r \<and> fst x = col_id r \<and>
       snd (snd x) = DecryptEventData env (col_events r))"
  using assms
proof (induction rs arbitrary: corrupt results)
  case (Cons r rs)
  {
    case 1
    then show ?case
      using Cons.IH(1) by (fastforce split: if_splits option.splits)
  next
    case 2
    then show ?case
      using Cons.IH(2) by (fastforce split: if_splits option.splits)
  }
qed simp_all

definition topiced_ok :: "upload_env \<Rightarrow> string \<Rightarrow> 'a db_scheme \<Rightarrow> topiced \<Rightarrow> bool" where
  "topiced_ok env t s results = (\<forall>x\<in>set results. \<exists>r\<in>set (rows t s). \<not> corrupted env r \<and>
     fst x = col_id r \<and> snd (snd x) = DecryptEventData env (col_events r))"

definition topiced_post ::
  "upload_env \<Rightarrow> string \<Rightarrow> int list \<times> 'a db_scheme \<Rightarrow> topiced \<times> int list \<times> 'a db_scheme \<Rightarrow> bool"
where
  "topiced_post env t cs y = (set (fst cs) \<subseteq> bad_ids env t (snd cs) \<longrightarrow>
     lost_corrupted env t (snd cs) (snd (snd y)) \<and> set (fst (snd y)) \<subseteq> bad_ids env t (snd (snd y)) \<and>
     topiced_ok env t (snd cs) (fst y))"

lemma topiced_ok_lost:
  assumes "topiced_ok env t s1 results" "lost_corrupted env t s s1"
  shows "topiced_ok env t s results"
proof -
  have "set (rows t s1) \<subseteq> set (rows t s)"
    using assms(2) by (auto simp: lost_corrupted_def)
  then show ?thesis
    using assms(1) unfolding topiced_ok_def by blast
qed

lemma topiced_round:
  assumes q: "db_Query t (\<lambda>r. P r \<and> col_id r \<notin> set (fst cs)) n (snd cs) = (Some rs, s1)"
    and v: "ValidateTopicedStreamingEvent env rs (fst cs) [] = (corrupt1, results)"
    and bad: "set (fst cs) \<subseteq> bad_ids env t (snd cs)"
  shows "topiced_ok env t (snd cs) results"
    "lost_corrupted env t (snd cs) (snd (ValidateCorruptedEventIds t corrupt1 s1))"
    "set (fst (ValidateCorruptedEventIds t corrupt1 s1)) \<subseteq> bad_ids env t (snd (ValidateCorruptedEventIds t corrupt1 s1))"
proof -
  note frame = db_Query_frame[OF q] and q' = db_Query_result[OF q]
  have sub: "set rs \<subseteq> set (rows t (snd cs))"
    using q'(3) by auto
  show "topiced_ok env t (snd cs) results"
    using topiced_result_rows(2)[OF v] sub unfolding topiced_ok_def by auto
  have c1: "set corrupt1 \<subseteq> bad_ids env t s1"
    using topiced_result_rows(1)[OF v] sub bad bad_ids_frame[OF frame(1)] by (auto simp: bad_ids_def)
  have s1: "lost_corrupted env t (snd cs) s1"
    by (rule frame(3))
  show "lost_corrupted env t (snd cs) (snd (ValidateCorruptedEventIds t corrupt1 s1))"
    using s1 lost_corrupted_trans[OF s1 DeleteCorruptedEvents_lost[OF c1]]
    by (simp add: ValidateCorruptedEventIds_def)
  show "set (fst (ValidateCorruptedEventIds t corrupt1 s1)) \<subseteq> bad_ids env t (snd (ValidateCorruptedEventIds t corrupt1 s1))"
    using c1 by (simp add: ValidateCorruptedEventIds_def)
qed

lemma topiced_loop_result:
  assumes "topiced_loop env t P n cs = Some y"
  shows "topiced_post env t cs y"
proof (rule topiced_loop.raw_induct[where Pa = "\<lambda>x y. topiced_post (fst (fst (fst (fst x)))) (snd (fst (fst (fst x)))) (snd x) y",
    OF _ assms, simplified])
  fix f env t P n and cs :: "int list \<times> 'a db_scheme" and y
  assume ih: "\<And>env t P n cs y. f env t P n cs = Some y \<Longrightarrow> topiced_post env t cs y"
    and body: "(case db_Query t (\<lambda>r. P r \<and> col_id r \<notin> set (fst cs)) n (snd cs) of
        (Some (r # rs), s1) \<Rightarrow>
          (case ValidateTopicedStreamingEvent env (r # rs) (fst cs) [] of (corrupt1, results) \<Rightarrow>
            (case results of
              [] \<Rightarrow> f env t P n (ValidateCorruptedEventIds t corrupt1 s1)
            | _ \<Rightarrow> Some (results, ValidateCorruptedEventIds t corrupt1 s1)))
      | (_, s1) \<Rightarrow> Some ([], fst cs, s1)) = Some y"
  show "topiced_post env t cs y"
    unfolding topiced_post_def
  proof
    assume bad: "set (fst cs) \<subseteq> bad_ids env t (snd cs)"
    obtain q s1 where q: "db_Query t (\<lambda>r. P r \<and> col_id r \<notin> set (fst cs)) n (snd cs) = (q, s1)"
      by fastforce
    note frame = db_Query_frame[OF q]
    show "lost_corrupted env t (snd cs) (snd (snd y)) \<and> set (fst (snd y)) \<subseteq> bad_ids env t (snd (snd y)) \<and>
     topiced_ok env t (snd cs) (fst y)"
    proof (cases "\<exists>r rs. q = Some (r # rs)")
      case False
      then have "y = ([], fst cs, s1)"
        using body by (auto simp: q split: option.splits list.splits)
      then show ?thesis
        using bad frame bad_ids_frame[OF frame(1)] by (simp add: topiced_ok_def)
    next
      case True
      then obtain r rs where r: "q = Some (r # rs)" by blast
      obtain corrupt1 results where v: "ValidateTopicedStreamingEvent env (r # rs) (fst cs) [] = (corrupt1, results)"
        by fastforce
      obtain c2 s2 where c: "ValidateCorruptedEventIds t corrupt1 s1 = (c2, s2)" by fastforce
      note round = topiced_round[OF q[unfolded r] v bad, unfolded c fst_conv snd_conv]
      show ?thesis
      proof (cases results)
        case Nil
        then have "f env t P n (c2, s2) = Some y"
          using body by (simp add: q r v c del: ValidateTopicedStreamingEvent.simps)
        then have "topiced_post env t (c2, s2) y"
          using ih by blast
        then show ?thesis
          using round(3) lost_corrupted_trans[OF round(2)] topiced_ok_lost[OF _ round(2)]
          by (simp add: topiced_post_def)
      next
        case (Cons a as)
        then have "y = (results, c2, s2)"
          using body by (simp add: q r v c del: ValidateTopicedStreamingEvent.simps)
        then show ?thesis
          using round by simp
      qed
    qed
  qed
qed

lemma GetTopicedStreamingEventsFromDB_result:
  assumes "GetTopicedStreamingEventsFromDB env t n llStart llEnd s = Some (results, s')"
  shows "lost_corrupted env t s s' \<and> topiced_ok env t s results"
proof (cases "device_id env = ''''")
  case True
  then show ?thesis
    using assms by (simp add: GetTopicedStreamingEventsFromDB_def topiced_ok_def)
next
  case False
  then obtain corrupt s1 where "topiced_loop env t (topiced_selection llStart llEnd) n ([], s) = Some (results, corrupt, s1)"
    "s' = DeleteCorruptedEvents t corrupt s1"
    using assms by (auto simp: GetTopicedStreamingEventsFromDB_def split: option.splits prod.splits)
  moreover from this(1) have post: "topiced_post env t ([], s) (results, corrupt, s1)"
    by (rule topiced_loop_result)
  ultimately show ?thesis
    using lost_corrupted_trans[OF _ DeleteCorruptedEvents_lost, of env t s s1 corrupt]
    by (simp add: topiced_post_def)
qed

section \<open>An intact event is selected\<close>

text \<open>As long as no statement fails, the loop does not stop before it found one.\<close>

lemma db_Query_ok:
  assumes "db_script s = []" "r \<in> set (rows t s)" "P r"
  obtains x xs where "db_Query t P n s = (Some (x # xs), s)"
proof -
  define ys where "ys = sort_key time_key (filter P (rows t s))"
  have "r \<in> set ys"
    using assms(2,3) by (simp add: ys_def)
  then have "(if n > 0 then take (nat n) ys else ys) \<noteq> []"
    by auto
  then obtain x xs where "(if n > 0 then take (nat n) ys else ys) = x # xs"
    by (meson neq_Nil_conv)
  then have "db_Query t P n s = (Some (x # xs), s)"
    using assms(1) by (simp add: db_Query_def db_exec_def Let_def ys_def[symmetric] split: if_splits)
  then show thesis
    by (rule that)
qed

lemma bad_ids_not:
  assumes "distinct (map col_id (rows t s))" "r \<in> set (rows t s)" "\<not> corrupted env r"
  shows "col_id r \<notin> bad_ids env t s"
  using assms by (auto simp: bad_ids_def distinct_map inj_on_def)

lemma ValidateCorruptedEventIds_script:
  "db_script s = [] \<Longrightarrow> db_script (snd (ValidateCorruptedEventIds t c s)) = []"
  by (simp add: ValidateCorruptedEventIds_def DeleteCorruptedEvents_def db_Remove_def db_exec_def)

lemma streaming_loop_finds:
  assumes "db_script (snd cs) = []" "r \<in> set (rows t (snd cs))" "P r" "\<not> corrupted env r"
    and "distinct (map col_id (rows t (snd cs)))" "set (fst cs) \<subseteq> bad_ids env t (snd cs)"
  shows "fst (streaming_loop env t P n cs) \<noteq> []"
  using assms
proof (induction env t P n cs rule: streaming_loop.induct)
  case (1 env t P n cs)
  have r: "col_id r \<notin> set (fst cs)"
    using bad_ids_not[OF "1.prems"(5,2,4)] "1.prems"(6) by blast
  obtain x xs where q: "db_Query t (\<lambda>r. P r \<and> col_id r \<notin> set (fst cs)) n (snd cs) = (Some (x # xs), snd cs)"
    using db_Query_ok[OF "1.prems"(1,2), of "\<lambda>r. P r \<and> col_id r \<notin> set (fst cs)"] r "1.prems"(3) by blast
  obtain corrupt1 ids result where v: "ValidateStreamingEvent env (x # xs) (fst cs) [] ''['' = (corrupt1, ids, result)"
    by (metis prod_cases3)
  show ?case
  proof (cases ids)
    case Nil
    obtain c2 s2 where c: "ValidateCorruptedEventIds t corrupt1 (snd cs) = (c2, s2)" by fastforce
    have "set corrupt1 \<subseteq> bad_ids env t (snd cs)"
    proof -
      have "corrupt1 = fst cs @ map col_id (filter (corrupted env) (x # xs))"
        using v by (simp only: ValidateStreamingEvent_result prod.inject)
      then have "set corrupt1 \<subseteq> set (fst cs) \<union> col_id ` {r \<in> set (x # xs). corrupted env r}"
        by auto
      also have "\<dots> \<subseteq> bad_ids env t (snd cs)"
        using "1.prems"(6) db_Query_result(3)[OF q] unfolding bad_ids_def by blast
      finally show ?thesis .
    qed
    then have lost: "lost_corrupted env t (snd cs) s2" "set c2 \<subseteq> bad_ids env t s2"
      using DeleteCorruptedEvents_lost[of corrupt1 env t "snd cs"] c
      by (auto simp: ValidateCorruptedEventIds_def split: if_splits)
    obtain X where X: "X \<subseteq> bad_ids env t (snd cs)" "rows t s2 = filter (\<lambda>r. col_id r \<notin> X) (rows t (snd cs))"
      using lost(1) by (auto simp: lost_corrupted_def)
    have "r \<in> set (rows t s2)"
      using X "1.prems"(2) bad_ids_not[OF "1.prems"(5,2,4)] by auto
    moreover have "distinct (map col_id (rows t s2))"
      using "1.prems"(5) by (simp add: X(2) distinct_map_filter)
    moreover have "db_script s2 = []"
      using ValidateCorruptedEventIds_script[OF "1.prems"(1), of t corrupt1] c by simp
    ultimately have "fst (streaming_loop env t P n (c2, s2)) \<noteq> []"
      using "1.IH"[OF q[symmetric] refl refl v[symmetric] refl Nil] c lost(2) "1.prems"(3,4) by simp
    then show ?thesis
      by (subst streaming_loop.simps) (simp add: q v Nil c del: ValidateStreamingEvent.simps)
  next
    case (Cons a as)
    then show ?thesis
      by (subst streaming_loop.simps) (simp add: q v del: ValidateStreamingEvent.simps)
  qed
qed

end
