(* ===== verification/Mid_Handler.thy ===== *)
theory Mid_Handler
  imports Event_Store
begin

text \<open>
  \<open>libClientBL/src/upload/CMidHandler.cpp\<close>: what the client knows about the message identifiers
  of its publishes, and the removal of events that the broker has acknowledged.

  The uploader announces under which identifier it has published rows of a table
  (\<open>SetMidTable\<close>), the MQTT client reports acknowledgements (\<open>ProcessPublishedMid\<close>), in either
  order, and the handler's thread takes the finished identifiers from a queue and deletes
  their rows (\<open>run_once\<close>, one round of \<open>Run\<close>). The two calls hold the same mutex, so each
  is one step.
\<close>

record mids = db +
  m_setPublishedMidSet :: "int set"
  m_mapMidDBTableMap :: "int \<Rightarrow> string option"
  m_queMidTobeDeleted :: "(int \<times> string) list"

section \<open>delete_events_from_db\<close>

definition delete_events_from_db :: "upload_env \<Rightarrow> string \<Rightarrow> int \<Rightarrow> 'a db_scheme \<Rightarrow> bool \<times> 'a db_scheme" where
  "delete_events_from_db env strTable nMid s =
     (if strTable = TABLE_EVENT_STORE \<and> batch_supported env then
        (case db_Remove strTable (\<lambda>r. col_mid r = nMid \<and> col_batch r = 0) s of
          (False, s1) \<Rightarrow> (False, s1)
        | (True, s1) \<Rightarrow> db_Update strTable (\<lambda>r. r\<lparr>col_stream := 0\<rparr>) (\<lambda>r. col_mid r = nMid) s1)
      else db_Remove strTable (\<lambda>r. col_mid r = nMid) s)"

section \<open>CMidHandler\<close>

definition ClearMid :: "int \<Rightarrow> string \<Rightarrow> 'a mids_scheme \<Rightarrow> bool \<times> 'a mids_scheme" where
  "ClearMid nMid strTable s =
     (True, s\<lparr>m_queMidTobeDeleted := m_queMidTobeDeleted s @ [(nMid, strTable)]\<rparr>)"

definition SetMidTable :: "int \<Rightarrow> string \<Rightarrow> 'a mids_scheme \<Rightarrow> bool \<times> 'a mids_scheme" where
  "SetMidTable nMid strTable s =
     (if nMid \<in> m_setPublishedMidSet s
      then ClearMid nMid strTable (s\<lparr>m_setPublishedMidSet := m_setPublishedMidSet s - {nMid}\<rparr>)
      else (True, s\<lparr>m_mapMidDBTableMap := (m_mapMidDBTableMap s)(nMid \<mapsto> strTable)\<rparr>))"

definition ProcessPublishedMid :: "int \<Rightarrow> 'a mids_scheme \<Rightarrow> bool \<times> 'a mids_scheme" where
  "ProcessPublishedMid nMid s =
     (case m_mapMidDBTableMap s nMid of
        Some strTable \<Rightarrow>
          (case ClearMid nMid strTable s of (b, s1) \<Rightarrow>
            (b, s1\<lparr>m_mapMidDBTableMap := (m_mapMidDBTableMap s1)(nMid := None)\<rparr>))
      | None \<Rightarrow> (nMid \<notin> m_setPublishedMidSet s,
                 s\<lparr>m_setPublishedMidSet := insert nMid (m_setPublishedMidSet s)\<rparr>))"

definition GetTableOfPublishedMid :: "int \<Rightarrow> 'a mids_scheme \<Rightarrow> string" where
  "GetTableOfPublishedMid nMid s = (case m_mapMidDBTableMap s nMid of None \<Rightarrow> '''' | Some t \<Rightarrow> t)"

text \<open>The \<open>for\<close> loop of \<open>InitMid\<close> over the set, in ascending order.\<close>

fun init_clear :: "int list \<Rightarrow> 'a mids_scheme \<Rightarrow> 'a mids_scheme" where
  "init_clear [] s = s"
| "init_clear (m # ms) s =
     (case m_mapMidDBTableMap s m of
        None \<Rightarrow> init_clear ms s
      | Some t \<Rightarrow> init_clear ms (snd (ClearMid m t s)))"

definition InitMid :: "'a mids_scheme \<Rightarrow> bool \<times> 'a mids_scheme" where
  "InitMid s =
     (let s1 = init_clear (sorted_list_of_set (m_setPublishedMidSet s)) s;
          s2 = s1\<lparr>m_setPublishedMidSet := {}, m_mapMidDBTableMap := (\<lambda>_. None)\<rparr>;
          (bRetAlertMid, s3) = db_Update TABLE_ALERT_STORE (\<lambda>r. r\<lparr>col_mid := 0\<rparr>) (\<lambda>r. col_mid r \<noteq> 0) s2;
          (bRetEventMid, s4) = db_Update TABLE_EVENT_STORE (\<lambda>r. r\<lparr>col_mid := 0\<rparr>) (\<lambda>r. col_mid r \<noteq> 0) s3
      in (bRetEventMid \<and> bRetAlertMid, s4))"

text \<open>\<open>m_queMidTobeDeleted.Take\<close> and the deletion that follows.\<close>

definition run_once :: "upload_env \<Rightarrow> 'a mids_scheme \<Rightarrow> 'a mids_scheme" where
  "run_once env s =
     (case m_queMidTobeDeleted s of
        [] \<Rightarrow> s
      | (m, t) # q \<Rightarrow> snd (delete_events_from_db env t m (s\<lparr>m_queMidTobeDeleted := q\<rparr>)))"

section \<open>The specification\<close>

text \<open>
  An abstract handler knows the pairs that were announced and the identifiers that were
  acknowledged since the last reset; the deletion of a pair becomes due when it is both. The
  concrete state is the part of that knowledge that is not yet used: identifiers announced but
  not acknowledged, and acknowledged but not announced.
\<close>

datatype mid_op = Announce int string | Acknowledge int

definition mid_step :: "mid_op \<Rightarrow> 'a mids_scheme \<Rightarrow> 'a mids_scheme" where
  "mid_step op s = (case op of
      Announce m t \<Rightarrow> snd (SetMidTable m t s)
    | Acknowledge m \<Rightarrow> snd (ProcessPublishedMid m s))"

definition announced :: "mid_op list \<Rightarrow> int \<Rightarrow> bool" where
  "announced ops m = (\<exists>t. Announce m t \<in> set ops)"

definition acknowledged :: "mid_op list \<Rightarrow> int \<Rightarrow> bool" where
  "acknowledged ops m = (Acknowledge m \<in> set ops)"

text \<open>No identifier is announced or acknowledged twice.\<close>

definition mids_once :: "mid_op list \<Rightarrow> bool" where
  "mids_once ops =
     distinct (map (\<lambda>op. case op of Announce m t \<Rightarrow> (True, m) | Acknowledge m \<Rightarrow> (False, m)) ops)"

fun announcements :: "int \<Rightarrow> mid_op list \<Rightarrow> (int \<times> string) list" where
  "announcements m [] = []"
| "announcements m (Announce m' t # ops) =
     (if m' = m then (m, t) # announcements m ops else announcements m ops)"
| "announcements m (Acknowledge m' # ops) = announcements m ops"

text \<open>The deletions that become due, in the order in which they do.\<close>

fun due :: "mid_op list \<Rightarrow> mid_op list \<Rightarrow> (int \<times> string) list" where
  "due done [] = []"
| "due done (Announce m t # ops) =
     (if acknowledged done m then [(m, t)] else []) @ due (done @ [Announce m t]) ops"
| "due done (Acknowledge m # ops) =
     announcements m done @ due (done @ [Acknowledge m]) ops"

definition knows :: "mid_op list \<Rightarrow> 'a mids_scheme \<Rightarrow> bool" where
  "knows ops s =
     ((\<forall>m. m \<in> m_setPublishedMidSet s \<longleftrightarrow> acknowledged ops m \<and> \<not> announced ops m) \<and>
      (\<forall>m t. m_mapMidDBTableMap s m = Some t \<longleftrightarrow> Announce m t \<in> set ops \<and> \<not> acknowledged ops m))"

lemma knows_Nil: "knows [] s \<longleftrightarrow> m_setPublishedMidSet s = {} \<and> m_mapMidDBTableMap s = (\<lambda>_. None)"
  by (auto simp: knows_def announced_def acknowledged_def fun_eq_iff)

lemma acknowledged_append [simp]:
  "acknowledged (ops @ [Acknowledge m]) k = (k = m \<or> acknowledged ops k)"
  "acknowledged (ops @ [Announce m t]) k = acknowledged ops k"
  by (auto simp: acknowledged_def)

lemma announced_append [simp]:
  "announced (ops @ [Acknowledge m]) k = announced ops k"
  "announced (ops @ [Announce m t]) k = (k = m \<or> announced ops k)"
  by (auto simp: announced_def)

lemma mids_once_Announce:
  "mids_once (ops @ Announce m t # ops') \<Longrightarrow> \<not> announced ops m"
  by (fastforce simp: mids_once_def announced_def image_iff)

lemma mids_once_Acknowledge:
  "mids_once (ops @ Acknowledge m # ops') \<Longrightarrow> \<not> acknowledged ops m"
  by (fastforce simp: mids_once_def acknowledged_def image_iff)

lemma mids_once_announced_unique:
  "mids_once ops \<Longrightarrow> Announce m t \<in> set ops \<Longrightarrow> Announce m u \<in> set ops \<Longrightarrow> t = u"
  unfolding mids_once_def by (fastforce simp: distinct_map inj_on_def)

lemma knows_Announce:
  assumes "knows ops s" "\<not> announced ops m"
  shows "knows (ops @ [Announce m t]) (mid_step (Announce m t) s)"
    "m_queMidTobeDeleted (mid_step (Announce m t) s) =
       m_queMidTobeDeleted s @ (if acknowledged ops m then [(m, t)] else [])"
  using assms
  by (auto simp: knows_def mid_step_def SetMidTable_def ClearMid_def announced_def)

lemma announcements_append: "announcements m (xs @ ys) = announcements m xs @ announcements m ys"
  by (induction m xs rule: announcements.induct) auto

lemma announcements_none: "\<not> announced ops m \<Longrightarrow> announcements m ops = []"
  by (induction m ops rule: announcements.induct) (auto simp: announced_def)

lemma announcements_unique:
  assumes "mids_once ops" "Announce m t \<in> set ops"
  shows "announcements m ops = [(m, t)]"
proof -
  obtain xs ys where ops: "ops = xs @ Announce m t # ys"
    using assms(2) by (meson split_list)
  have "\<not> announced xs m" "\<not> announced ys m"
    using assms(1) by (fastforce simp: mids_once_def announced_def ops image_iff)+
  then show ?thesis
    by (simp add: ops announcements_append announcements_none)
qed

lemma knows_Acknowledge:
  assumes "knows ops s" "\<not> acknowledged ops m" "mids_once ops"
  shows "knows (ops @ [Acknowledge m]) (mid_step (Acknowledge m) s)"
    "m_queMidTobeDeleted (mid_step (Acknowledge m) s) =
       m_queMidTobeDeleted s @ announcements m ops"
proof -
  have map: "m_mapMidDBTableMap s m = Some t \<longleftrightarrow> Announce m t \<in> set ops" for t
    using assms(1,2) by (auto simp: knows_def)
  show "knows (ops @ [Acknowledge m]) (mid_step (Acknowledge m) s)"
  proof (cases "m_mapMidDBTableMap s m")
    case None
    then have "\<not> announced ops m"
      using map by (auto simp: announced_def)
    moreover have "mid_step (Acknowledge m) s = s\<lparr>m_setPublishedMidSet := insert m (m_setPublishedMidSet s)\<rparr>"
      using None by (simp add: mid_step_def ProcessPublishedMid_def)
    ultimately show ?thesis
      using assms(1,2) by (auto simp: knows_def announced_def)
  next
    case (Some t)
    then have "Announce m t \<in> set ops"
      using map by blast
    moreover have "mid_step (Acknowledge m) s = s\<lparr>m_queMidTobeDeleted := m_queMidTobeDeleted s @ [(m, t)],
        m_mapMidDBTableMap := (m_mapMidDBTableMap s)(m := None)\<rparr>"
      using Some by (simp add: mid_step_def ProcessPublishedMid_def ClearMid_def)
    ultimately show ?thesis
      using assms(1,2) by (auto simp: knows_def announced_def)
  qed
  show "m_queMidTobeDeleted (mid_step (Acknowledge m) s) =
       m_queMidTobeDeleted s @ announcements m ops"
  proof (cases "m_mapMidDBTableMap s m")
    case None
    then have "\<not> announced ops m"
      using map by (auto simp: announced_def)
    then show ?thesis
      using None announcements_none by (simp add: mid_step_def ProcessPublishedMid_def)
  next
    case (Some t)
    then have "Announce m t \<in> set ops"
      using assms(1) by (auto simp: knows_def)
    then show ?thesis
      using Some announcements_unique[OF assms(3)] by (simp add: mid_step_def ProcessPublishedMid_def ClearMid_def)
  qed
qed

lemma mids_once_append: "mids_once (xs @ ys) \<Longrightarrow> mids_once xs"
  by (simp add: mids_once_def)

lemma mid_run_due:
  assumes "knows past s" "mids_once (past @ ops)"
  shows "knows (past @ ops) (fold mid_step ops s) \<and>
    m_queMidTobeDeleted (fold mid_step ops s) = m_queMidTobeDeleted s @ due past ops"
  using assms
proof (induction ops arbitrary: past s)
  case (Cons op ops)
  show ?case
  proof (cases op)
    case (Announce m t)
    then show ?thesis
      using Cons.IH[of "past @ [op]" "mid_step op s"] Cons.prems knows_Announce[OF Cons.prems(1), of m t]
        mids_once_Announce[of past m t ops] by auto
  next
    case (Acknowledge m)
    then show ?thesis
      using Cons.IH[of "past @ [op]" "mid_step op s"] Cons.prems knows_Acknowledge[OF Cons.prems(1), of m]
        mids_once_Acknowledge[of past m ops] mids_once_append by auto
  qed
qed simp

lemma knows_disjoint: "knows ops s \<Longrightarrow> m \<in> m_setPublishedMidSet s \<Longrightarrow> m_mapMidDBTableMap s m = None"
  unfolding knows_def by (metis not_None_eq)

text \<open>Which deletions become due: those of the pairs that were both announced and acknowledged.\<close>

lemma announcements_set: "set (announcements m ops) = {(k, t). k = m \<and> Announce k t \<in> set ops}"
  by (induction m ops rule: announcements.induct) auto

lemma due_set:
  assumes "mids_once (past @ ops)"
  shows "set (due past ops) = {(m, t). Announce m t \<in> set (past @ ops) \<and> Acknowledge m \<in> set (past @ ops) \<and>
    \<not> (Announce m t \<in> set past \<and> Acknowledge m \<in> set past)}"
  using assms
proof (induction past ops rule: due.induct)
  case (2 past m t ops)
  have new: "Announce m t \<notin> set past"
    using mids_once_Announce[of past m t ops] "2.prems" by (auto simp: announced_def)
  have "set (due (past @ [Announce m t]) ops) = {(k, u). Announce k u \<in> set (past @ Announce m t # ops) \<and>
      Acknowledge k \<in> set (past @ Announce m t # ops) \<and>
      \<not> (Announce k u \<in> set (past @ [Announce m t]) \<and> Acknowledge k \<in> set (past @ [Announce m t]))}"
    using "2.IH" "2.prems" by simp
  then show ?case
    using new by (auto simp: acknowledged_def)
next
  case (3 past m ops)
  have new: "Acknowledge m \<notin> set past"
    using mids_once_Acknowledge[of past m ops] "3.prems" by (auto simp: acknowledged_def)
  have "set (due (past @ [Acknowledge m]) ops) = {(k, u). Announce k u \<in> set (past @ Acknowledge m # ops) \<and>
      Acknowledge k \<in> set (past @ Acknowledge m # ops) \<and>
      \<not> (Announce k u \<in> set (past @ [Acknowledge m]) \<and> Acknowledge k \<in> set (past @ [Acknowledge m]))}"
    using "3.IH" "3.prems" by simp
  then show ?case
    using new by (auto simp: announcements_set)
qed auto

section \<open>The contract of the handler\<close>

text \<open>
  What the uploader relies on: an identifier is due for deletion only once it is acknowledged.
  \<open>early\<close> are the identifiers acknowledged before they were announced, \<open>due_now\<close> the pairs
  queued for deletion.
\<close>

locale mid_tracker =
  fixes announce :: "int \<Rightarrow> string \<Rightarrow> 's \<Rightarrow> 's"
    and ack :: "int \<Rightarrow> 's \<Rightarrow> 's"
    and reset :: "'s \<Rightarrow> 's"
    and early :: "'s \<Rightarrow> int set"
    and due_now :: "'s \<Rightarrow> (int \<times> string) set"
  assumes announce_early: "early (announce m t s) \<subseteq> early s"
    and announce_due: "due_now (announce m t s) \<subseteq> due_now s \<union> early s \<times> UNIV"
    and ack_early: "early (ack m s) \<subseteq> insert m (early s)"
    and ack_due: "due_now (ack m s) \<subseteq> due_now s \<union> {m} \<times> UNIV"
    and reset_early: "early (reset s) = {}"
    and reset_due: "due_now (reset s) \<subseteq> due_now s \<union> early s \<times> UNIV"
begin

definition tracked :: "int set \<Rightarrow> 's \<Rightarrow> bool" where
  "tracked A s = (early s \<subseteq> A \<and> due_now s \<subseteq> A \<times> UNIV)"

lemma announce_tracked: "tracked A s \<Longrightarrow> tracked A (announce m t s)"
  using announce_early[of m t s] announce_due[of m t s] by (fastforce simp: tracked_def)

lemma ack_tracked: "tracked A s \<Longrightarrow> tracked (insert m A) (ack m s)"
  using ack_early[of m s] ack_due[of m s] by (fastforce simp: tracked_def)

lemma reset_tracked: "tracked A s \<Longrightarrow> tracked A (reset s)"
  using reset_early[of s] reset_due[of s] by (fastforce simp: tracked_def)

lemma tracked_due: "tracked A s \<Longrightarrow> (m, t) \<in> due_now s \<Longrightarrow> m \<in> A"
  by (auto simp: tracked_def)

lemma tracked_cong:
  "early s' = early s \<Longrightarrow> due_now s' \<subseteq> due_now s \<Longrightarrow> tracked A s \<Longrightarrow> tracked A s'"
  by (auto simp: tracked_def)

end

lemma db_more_mids:
  assumes "db.more s' = db.more s"
  shows "m_setPublishedMidSet s' = m_setPublishedMidSet s" "m_mapMidDBTableMap s' = m_mapMidDBTableMap s"
    "m_queMidTobeDeleted s' = m_queMidTobeDeleted s"
  using assms by (cases s; cases s'; simp)+

lemma db_Update_more: "db_Update t f P s = (b, s') \<Longrightarrow> db.more s' = db.more s"
  by (auto simp: db_Update_def db_exec_def split: list.splits bool.splits)

lemma db_Remove_more: "db_Remove t P s = (b, s') \<Longrightarrow> db.more s' = db.more s"
  by (auto simp: db_Remove_def db_exec_def split: list.splits bool.splits)

lemma db_Update_mids:
  assumes "db_Update t f P s = (b, s')"
  shows "m_setPublishedMidSet s' = m_setPublishedMidSet s" "m_mapMidDBTableMap s' = m_mapMidDBTableMap s"
    "m_queMidTobeDeleted s' = m_queMidTobeDeleted s"
  using db_more_mids[OF db_Update_more[OF assms]] by simp_all

lemma init_clear_queue:
  "m_setPublishedMidSet (init_clear ms s) = m_setPublishedMidSet s"
  "set (m_queMidTobeDeleted (init_clear ms s)) \<subseteq> set (m_queMidTobeDeleted s) \<union> set ms \<times> UNIV"
  "db.truncate (init_clear ms s) = db.truncate s"
proof (induction ms s rule: init_clear.induct)
  case (2 m ms s)
  {
    case 1
    then show ?case
      using 2(1,4) by (auto simp: ClearMid_def split: option.splits)
  next
    case 2
    then show ?case
      using "2.IH" by (fastforce simp: ClearMid_def split: option.splits)
  next
    case 3
    then show ?case
      using "2.IH" by (auto simp: ClearMid_def db.truncate_def split: option.splits)
  }
qed simp_all

lemma InitMid_sets:
  "m_setPublishedMidSet (snd (InitMid s)) = {}"
  "m_queMidTobeDeleted (snd (InitMid s)) =
     m_queMidTobeDeleted (init_clear (sorted_list_of_set (m_setPublishedMidSet s)) s)"
  "m_mapMidDBTableMap (snd (InitMid s)) = (\<lambda>_. None)"
proof -
  define s2 where "s2 = (init_clear (sorted_list_of_set (m_setPublishedMidSet s)) s)
    \<lparr>m_setPublishedMidSet := {}, m_mapMidDBTableMap := (\<lambda>_. None)\<rparr>"
  obtain a s3 where s3: "db_Update TABLE_ALERT_STORE (\<lambda>r. r\<lparr>col_mid := 0\<rparr>) (\<lambda>r. col_mid r \<noteq> 0) s2 = (a, s3)"
    by fastforce
  obtain b s4 where s4: "db_Update TABLE_EVENT_STORE (\<lambda>r. r\<lparr>col_mid := 0\<rparr>) (\<lambda>r. col_mid r \<noteq> 0) s3 = (b, s4)"
    by fastforce
  have "snd (InitMid s) = s4"
    using s3 s4 by (simp add: InitMid_def Let_def s2_def)
  then show "m_setPublishedMidSet (snd (InitMid s)) = {}"
    "m_queMidTobeDeleted (snd (InitMid s)) =
     m_queMidTobeDeleted (init_clear (sorted_list_of_set (m_setPublishedMidSet s)) s)"
    "m_mapMidDBTableMap (snd (InitMid s)) = (\<lambda>_. None)"
    using db_Update_mids[OF s3] db_Update_mids[OF s4] by (simp_all add: s2_def)
qed

interpretation mid_handler: mid_tracker "\<lambda>m t s. snd (SetMidTable m t s)" "\<lambda>m s. snd (ProcessPublishedMid m s)"
  "\<lambda>s. snd (InitMid s)" m_setPublishedMidSet "\<lambda>s. set (m_queMidTobeDeleted s)"
proof
  fix m t and s :: "'a mids_scheme"
  show "m_setPublishedMidSet (snd (SetMidTable m t s)) \<subseteq> m_setPublishedMidSet s"
    "set (m_queMidTobeDeleted (snd (SetMidTable m t s))) \<subseteq> set (m_queMidTobeDeleted s) \<union> m_setPublishedMidSet s \<times> UNIV"
    by (auto simp: SetMidTable_def ClearMid_def)
  show "m_setPublishedMidSet (snd (ProcessPublishedMid m s)) \<subseteq> insert m (m_setPublishedMidSet s)"
    "set (m_queMidTobeDeleted (snd (ProcessPublishedMid m s))) \<subseteq> set (m_queMidTobeDeleted s) \<union> {m} \<times> UNIV"
    by (auto simp: ProcessPublishedMid_def ClearMid_def split: option.splits)
  show "m_setPublishedMidSet (snd (InitMid s)) = {}"
    by (rule InitMid_sets)
  have "set (sorted_list_of_set (m_setPublishedMidSet s)) \<subseteq> m_setPublishedMidSet s"
    by (cases "finite (m_setPublishedMidSet s)") auto
  then show "set (m_queMidTobeDeleted (snd (InitMid s))) \<subseteq>
      set (m_queMidTobeDeleted s) \<union> m_setPublishedMidSet s \<times> UNIV"
    using init_clear_queue(2)[of "sorted_list_of_set (m_setPublishedMidSet s)" s]
    unfolding InitMid_sets by blast
qed

end
