(* ===== verification/Uploader.thy ===== *)
theory Uploader
  imports Mid_Handler
begin

text \<open>
  \<open>libClientBL/src/upload/CMQTTUploader.cpp\<close>: one pass of the uploader over the alerts, the
  events with a topic and the other events.

  The MQTT client below it is a script: each publish takes the next pair of result and message
  identifier, and a script that has run out is a client that reports an error. Likewise
  \<open>gzip_script\<close> says which compressions fail. \<open>published\<close> records what the client accepted.
  The flags that other threads set (shutdown, suspension, connection) do not change during a
  pass. A do-while loop that need not end is an option; none is a loop that does not return.
\<close>

datatype publish_kind = Alerts | Events | OnTopic string

record uploader_env = upload_env +
  gzip :: "string \<Rightarrow> string"
  m_bCompression :: bool

record uploader = mids +
  m_unMaxEventUploadCnt :: nat
  m_bShutdownRequested :: bool
  m_bUploadSuspended :: bool
  m_bUploadRequested :: bool
  m_bAlertsAvailable :: bool
  is_connected :: bool
  publish_script :: "(int \<times> int) list"
  gzip_script :: "bool list"
  published :: "(publish_kind \<times> string \<times> int) list"
  disconnects :: nat
  m_nEvntUploadLogIterCount :: int
  m_nEvntUploadSummaryIterCount :: int
  m_unCurrEvntUploadCnt :: "32 word"
  m_unCurrEvntUploadSummaryCnt :: "32 word"
  m_unCurrUploadedEvntCnt :: "32 word"

section \<open>The client below\<close>

definition mqtt_publish :: "publish_kind \<Rightarrow> string \<Rightarrow> 'a uploader_scheme \<Rightarrow> (int \<times> int) \<times> 'a uploader_scheme" where
  "mqtt_publish kind payload s = (case publish_script s of
      [] \<Rightarrow> ((-1, 0), s)
    | (err, mid) # ps \<Rightarrow> ((err, mid), s\<lparr>publish_script := ps,
        published := (if err = 0 then published s @ [(kind, payload, mid)] else published s)\<rparr>))"

definition mqtt_disconnect :: "'a uploader_scheme \<Rightarrow> 'a uploader_scheme" where
  "mqtt_disconnect s = s\<lparr>disconnects := disconnects s + 1\<rparr>"

definition gzip_ok :: "'a uploader_scheme \<Rightarrow> bool \<times> 'a uploader_scheme" where
  "gzip_ok s = (case gzip_script s of [] \<Rightarrow> (True, s) | b # bs \<Rightarrow> (b, s\<lparr>gzip_script := bs\<rparr>))"

section \<open>Marking and announcing published rows\<close>

text \<open>Without rows the code builds a malformed statement, which fails.\<close>

definition update_mid :: "string \<Rightarrow> int list \<Rightarrow> int \<Rightarrow> 'a db_scheme \<Rightarrow> bool \<times> 'a db_scheme" where
  "update_mid t ids nMid s =
     (if ids = [] then (False, s)
      else db_Update t (\<lambda>r. r\<lparr>col_mid := nMid\<rparr>) (\<lambda>r. col_id r \<in> set ids) s)"

text \<open>The steps shared by \<open>ProcessPublishedAlerts\<close>, \<open>VerifyPostPublish\<close> and
  \<open>UploadAllTopicedEvent\<close>; the value says whether all went well.\<close>

definition mark_published :: "string \<Rightarrow> int list \<Rightarrow> int \<Rightarrow> 'a uploader_scheme \<Rightarrow> bool \<times> 'a uploader_scheme" where
  "mark_published t ids nMid s =
     (if nMid \<le> 0 then (False, mqtt_disconnect s)
      else case update_mid t ids nMid s of
          (False, s1) \<Rightarrow> (False, s1)
        | (True, s1) \<Rightarrow> (True, snd (SetMidTable nMid t s1)))"

datatype UploadError =
    eUE_UPLOAD_SUCCESS | eUE_NO_CONNECTION | eUE_DATA_NOT_AVAILABLE | eUE_PUBLISH_ERROR

definition ProcessPublishedAlerts :: "int \<Rightarrow> int list \<Rightarrow> 'a uploader_scheme \<Rightarrow> UploadError \<times> 'a uploader_scheme" where
  "ProcessPublishedAlerts nMid ids s = (case mark_published TABLE_ALERT_STORE ids nMid s of
      (b, s1) \<Rightarrow> (if b then eUE_UPLOAD_SUCCESS else eUE_DATA_NOT_AVAILABLE, s1))"

text \<open>\<open>VerifyPostPublish\<close>: the value and the error it leaves in \<open>rnErr\<close>.\<close>

definition VerifyPostPublish :: "int \<Rightarrow> int \<Rightarrow> int list \<Rightarrow> 'a uploader_scheme \<Rightarrow> bool \<times> int \<times> 'a uploader_scheme" where
  "VerifyPostPublish nMid nErr ids s =
     (if nErr = 0 then
        (case mark_published TABLE_EVENT_STORE ids nMid s of
          (b, s1) \<Rightarrow> (b, if b then 0 else -1, s1))
      else (False, nErr, s))"

section \<open>Frames\<close>

text \<open>The operations on the tables leave the rest of the state alone.\<close>

lemma db_more_uploader:
  assumes "db.more s' = db.more s"
  shows "publish_script s' = publish_script s" "gzip_script s' = gzip_script s" "published s' = published s"
    "m_bShutdownRequested s' = m_bShutdownRequested s" "is_connected s' = is_connected s"
    "m_unMaxEventUploadCnt s' = m_unMaxEventUploadCnt s" "disconnects s' = disconnects s"
  using assms by (cases s; cases s'; simp)+

lemma update_mid_more: "update_mid t ids m s = (b, s') \<Longrightarrow> db.more s' = db.more s"
  by (auto simp: update_mid_def split: if_splits dest: db_Update_more)

lemma SetMidTable_frame:
  "publish_script (snd (SetMidTable m t s)) = publish_script s"
  "gzip_script (snd (SetMidTable m t s)) = gzip_script s"
  "published (snd (SetMidTable m t s)) = published s"
  "m_bShutdownRequested (snd (SetMidTable m t s)) = m_bShutdownRequested s"
  "is_connected (snd (SetMidTable m t s)) = is_connected s"
  "m_unMaxEventUploadCnt (snd (SetMidTable m t s)) = m_unMaxEventUploadCnt s"
  by (auto simp: SetMidTable_def ClearMid_def)

lemma mark_published_frame:
  assumes "mark_published t ids m s = (b, s')"
  shows "publish_script s' = publish_script s" "gzip_script s' = gzip_script s" "published s' = published s"
    "m_bShutdownRequested s' = m_bShutdownRequested s" "is_connected s' = is_connected s"
    "m_unMaxEventUploadCnt s' = m_unMaxEventUploadCnt s"
  using assms
  by (auto simp: mark_published_def mqtt_disconnect_def SetMidTable_frame
    split: if_splits prod.splits bool.splits dest!: update_mid_more intro: db_more_uploader
    dest: db_more_uploader(4) db_more_uploader(5))

lemma GetStreaming_more:
  "GetStreamingEventsFromDB env t n a b c d s = (ids, p, s') \<Longrightarrow> db.more s' = db.more s"
  using GetStreamingEventsFromDB_result[of env t n a b c d s ids p s'] by (simp add: lost_corrupted_def)

lemma mqtt_publish_progress:
  "mqtt_publish k p s = ((0, m), s') \<Longrightarrow> length (publish_script s') < length (publish_script s)"
  by (auto simp: mqtt_publish_def split: list.splits)

lemma alerts_progress:
  assumes "GetStreamingEventsFromDB env t n a b c d s = (ids, p, s1)"
    and "mqtt_publish k p s1 = ((0, m), s2)" and "ProcessPublishedAlerts m ids s2 = (e, s3)"
  shows "length (publish_script s3) < length (publish_script s)"
  using mqtt_publish_progress[OF assms(2)] db_more_uploader(1)[OF GetStreaming_more[OF assms(1)]] assms(3)
  by (auto simp: ProcessPublishedAlerts_def dest: mark_published_frame(1) split: prod.splits)

section \<open>Alerts\<close>

function upload_alerts_loop :: "uploader_env \<Rightarrow> UploadError \<Rightarrow> 'a uploader_scheme \<Rightarrow> UploadError \<times> 'a uploader_scheme" where
  "upload_alerts_loop env eErr s =
     (if m_bShutdownRequested s then (eErr, s)
      else case GetStreamingEventsFromDB (upload_env.truncate env) TABLE_ALERT_STORE 20 0 0 (-1) (-1) s of
        (ids, strAlerts, s1) \<Rightarrow>
          if ids = [] then (eErr, s1)
          else case mqtt_publish Alerts strAlerts s1 of
            ((nResult, nMid), s2) \<Rightarrow>
              if nResult \<noteq> 0 then (eUE_PUBLISH_ERROR, s2)
              else case ProcessPublishedAlerts nMid ids s2 of
                (e, s3) \<Rightarrow> if e = eUE_UPLOAD_SUCCESS then upload_alerts_loop env e s3 else (e, s3))"
  by pat_completeness auto
termination
  by (relation "measure (\<lambda>(env, e, s). length (publish_script s))")
    (auto split: prod.split dest: alerts_progress[OF sym sym])

declare upload_alerts_loop.simps [simp del]

definition UploadAlerts :: "uploader_env \<Rightarrow> 'a uploader_scheme \<Rightarrow> UploadError \<times> 'a uploader_scheme" where
  "UploadAlerts env s =
     (if is_connected s then upload_alerts_loop env eUE_DATA_NOT_AVAILABLE s else (eUE_NO_CONNECTION, s))"

text \<open>\<open>ProcessAlertUploads\<close>: ten attempts.\<close>

fun alert_attempts :: "uploader_env \<Rightarrow> nat \<Rightarrow> 'a uploader_scheme \<Rightarrow> 'a uploader_scheme" where
  "alert_attempts env 0 s = s"
| "alert_attempts env (Suc n) s =
     (if m_bShutdownRequested s then s else alert_attempts env n (snd (UploadAlerts env s)))"

definition ProcessAlertUploads :: "uploader_env \<Rightarrow> 'a uploader_scheme \<Rightarrow> 'a uploader_scheme" where
  "ProcessAlertUploads env s = alert_attempts env 10 s"

section \<open>Events\<close>

text \<open>\<open>PublishEvents\<close> and \<open>PrepareDataAndPublish\<close>: no result when the compression failed.\<close>

definition compress_and_publish ::
  "uploader_env \<Rightarrow> publish_kind \<Rightarrow> string \<Rightarrow> 'a uploader_scheme \<Rightarrow> (int \<times> int) option \<times> 'a uploader_scheme"
where
  "compress_and_publish env kind payload s =
     (if m_bCompression env then
        (case gzip_ok s of
          (False, s1) \<Rightarrow> (None, s1)
        | (True, s1) \<Rightarrow> (case mqtt_publish kind (gzip env payload) s1 of (r, s2) \<Rightarrow> (Some r, s2)))
      else (case mqtt_publish kind payload s of (r, s1) \<Rightarrow> (Some r, s1)))"

text \<open>\<open>LogUploadEvntPayload\<close>, which only counts.\<close>

definition LogUploadEvntPayload :: "nat \<Rightarrow> 'a uploader_scheme \<Rightarrow> bool \<times> 'a uploader_scheme" where
  "LogUploadEvntPayload nEvntCnt s =
     (if m_nEvntUploadLogIterCount s = -1 then (True, s)
      else
        let s1 = s\<lparr>m_unCurrEvntUploadCnt := m_unCurrEvntUploadCnt s + 1\<rparr> in
        if m_unCurrEvntUploadCnt s1 \<le> of_int (m_nEvntUploadLogIterCount s1) then (True, s1)
        else
          let s2 = s1\<lparr>m_unCurrEvntUploadSummaryCnt := m_unCurrEvntUploadSummaryCnt s1 + 1,
                      m_unCurrUploadedEvntCnt := m_unCurrUploadedEvntCnt s1 + of_nat nEvntCnt\<rparr> in
          if m_unCurrEvntUploadSummaryCnt s2 \<ge> of_int (m_nEvntUploadSummaryIterCount s2)
          then (True, s2\<lparr>m_unCurrEvntUploadSummaryCnt := 0, m_unCurrUploadedEvntCnt := 0\<rparr>)
          else (False, s2))"

text \<open>The body of the loop of \<open>UploadEvents\<close>: whether the loop goes on, and \<open>nErr\<close>.\<close>

definition upload_events_round ::
  "uploader_env \<Rightarrow> int \<Rightarrow> 'a uploader_scheme \<Rightarrow> (bool \<times> int) \<times> 'a uploader_scheme"
where
  "upload_events_round env nErr s =
     (case GetStreamingEventsFromDB (upload_env.truncate env) TABLE_EVENT_STORE
             (int (m_unMaxEventUploadCnt s)) 0 0 (-1) (-1) s of
        (ids, strEvents, s1) \<Rightarrow>
          let again = (length ids = m_unMaxEventUploadCnt s1 \<and> \<not> m_bShutdownRequested s1) in
          if ids = [] then ((again, nErr), s1)
          else case compress_and_publish env Events strEvents (snd (LogUploadEvntPayload (length ids) s1)) of
            (None, s2) \<Rightarrow> ((again, nErr), s2)
          | (Some (nErr', nMid), s2) \<Rightarrow>
              (case VerifyPostPublish nMid nErr' ids s2 of
                (b, nErr'', s3) \<Rightarrow> ((b \<and> again, nErr''), s3)))"

partial_function (option) upload_events_loop ::
  "uploader_env \<Rightarrow> int \<Rightarrow> 'a uploader_scheme \<Rightarrow> (int \<times> 'a uploader_scheme) option"
where
  "upload_events_loop env nErr s =
     (case upload_events_round env nErr s of
        ((again, nErr'), s1) \<Rightarrow> if again then upload_events_loop env nErr' s1 else Some (nErr', s1))"

definition UploadEvents :: "uploader_env \<Rightarrow> 'a uploader_scheme \<Rightarrow> (int \<times> 'a uploader_scheme) option" where
  "UploadEvents env s = (if is_connected s then upload_events_loop env (-1) s else Some (-1, s))"

section \<open>Events with a topic\<close>

text \<open>\<open>UploadAllTopicedEvent\<close>, over the entries in the order of their keys.\<close>

fun UploadAllTopicedEvent ::
  "uploader_env \<Rightarrow> topiced \<Rightarrow> int \<Rightarrow> 'a uploader_scheme \<Rightarrow> int \<times> 'a uploader_scheme"
where
  "UploadAllTopicedEvent env [] nErr s = (nErr, s)"
| "UploadAllTopicedEvent env ((llRowId, strTopic, strEventData) # es) nErr s =
     (case compress_and_publish env (OnTopic strTopic) strEventData s of
        (None, s1) \<Rightarrow> UploadAllTopicedEvent env es nErr s1
      | (Some (nErr', nMid), s1) \<Rightarrow>
          if nErr' = 0 then
            (case mark_published TABLE_EVENT_STORE [llRowId] nMid s1 of
              (True, s2) \<Rightarrow> UploadAllTopicedEvent env es 0 s2
            | (False, s2) \<Rightarrow> (-1, s2))
          else (nErr', s1))"

partial_function (option) upload_topiced_loop ::
  "uploader_env \<Rightarrow> int \<Rightarrow> 'a uploader_scheme \<Rightarrow> (int \<times> 'a uploader_scheme) option"
where
  "upload_topiced_loop env nErr s =
     (case GetTopicedStreamingEventsFromDB (upload_env.truncate env) TABLE_EVENT_STORE
             (int (m_unMaxEventUploadCnt s)) 0 0 s of
        None \<Rightarrow> None
      | Some (results, s1) \<Rightarrow>
          if results = [] then Some (nErr, s1)
          else case UploadAllTopicedEvent env (sort_key fst results) (-1) s1 of
            (nErr', s2) \<Rightarrow>
              if nErr' \<noteq> 0 then Some (nErr', s2)
              else if length results = m_unMaxEventUploadCnt s2 \<and> \<not> m_bShutdownRequested s2
              then upload_topiced_loop env nErr' s2
              else Some (nErr', s2))"

definition UploadTopicedEvents :: "uploader_env \<Rightarrow> 'a uploader_scheme \<Rightarrow> (int \<times> 'a uploader_scheme) option" where
  "UploadTopicedEvents env s = (if is_connected s then upload_topiced_loop env (-1) s else Some (-1, s))"

section \<open>A pass over the events\<close>

definition ResetEventUploaderLogCounter :: "'a uploader_scheme \<Rightarrow> 'a uploader_scheme" where
  "ResetEventUploaderLogCounter s =
     s\<lparr>m_unCurrEvntUploadCnt := 0, m_unCurrEvntUploadSummaryCnt := 0, m_unCurrUploadedEvntCnt := 0\<rparr>"

definition TriggerEventUploads :: "uploader_env \<Rightarrow> 'a uploader_scheme \<Rightarrow> 'a uploader_scheme option" where
  "TriggerEventUploads env s =
     (let s1 = s\<lparr>m_bUploadRequested := False\<rparr> in
      if \<not> is_connected s1 then Some (ResetEventUploaderLogCounter s1)
      else case UploadTopicedEvents env s1 of
          None \<Rightarrow> None
        | Some (_, s2) \<Rightarrow>
            (case UploadEvents env s2 of None \<Rightarrow> None | Some (_, s3) \<Rightarrow> Some s3))"

text \<open>\<open>InitEventsUploadCnt\<close>, from the configured number.\<close>

definition InitEventsUploadCnt :: "int \<Rightarrow> 'a uploader_scheme \<Rightarrow> 'a uploader_scheme" where
  "InitEventsUploadCnt nConfigured s = s\<lparr>m_unMaxEventUploadCnt :=
     (if nConfigured \<le> 20 then 20 else if nConfigured \<ge> 175 then 175 else nat nConfigured)\<rparr>"

text \<open>The counts of the log: \<open>count\<close> and \<open>summaryLogIterCount\<close> of the configuration, when
  they are integers. \<open>InitConfigBasedLogging\<close> reads \<open>count\<close> for both.\<close>

definition SetUploadEvntLogCount :: "int \<Rightarrow> 'a uploader_scheme \<Rightarrow> bool \<times> 'a uploader_scheme" where
  "SetUploadEvntLogCount cnt s = (if cnt > 0 then (True, s\<lparr>m_nEvntUploadLogIterCount := cnt\<rparr>) else (False, s))"

definition SetSummaryLogIterCount :: "int \<Rightarrow> 'a uploader_scheme \<Rightarrow> bool \<times> 'a uploader_scheme" where
  "SetSummaryLogIterCount cnt s = (if cnt > 0 then (True, s\<lparr>m_nEvntUploadSummaryIterCount := cnt\<rparr>) else (False, s))"

definition InitConfigBasedLogging :: "int option \<Rightarrow> int option \<Rightarrow> 'a uploader_scheme \<Rightarrow> 'a uploader_scheme" where
  "InitConfigBasedLogging count summaryLogIterCount s =
     (let s1 = s\<lparr>m_nEvntUploadLogIterCount := -1, m_nEvntUploadSummaryIterCount := 20\<rparr> in
      case count of
        None \<Rightarrow> s1
      | Some c \<Rightarrow>
          (case SetUploadEvntLogCount c s1 of
            (False, s2) \<Rightarrow> s2
          | (True, s2) \<Rightarrow> (if summaryLogIterCount = None then s2 else snd (SetSummaryLogIterCount c s2))))"

definition NotifyConfigUpdate :: "int option \<Rightarrow> int option \<Rightarrow> int \<Rightarrow> 'a uploader_scheme \<Rightarrow> 'a uploader_scheme" where
  "NotifyConfigUpdate count summaryLogIterCount nConfigured s =
     (let s1 = (case count of None \<Rightarrow> s | Some c \<Rightarrow> s\<lparr>m_nEvntUploadLogIterCount := c\<rparr>);
          s2 = s1\<lparr>m_nEvntUploadSummaryIterCount := (case summaryLogIterCount of None \<Rightarrow> 20 | Some c \<Rightarrow> c)\<rparr>
      in InitEventsUploadCnt nConfigured s2)"

section \<open>The loop over the events returns\<close>

text \<open>A round that asks for another one used up a publish or a compression; the client's script
  is finite, so it stops.\<close>

abbreviation scripts :: "'a uploader_scheme \<Rightarrow> nat \<times> nat" where
  "scripts s \<equiv> (length (publish_script s), length (gzip_script s))"

lemma LogUploadEvntPayload_scripts:
  "publish_script (snd (LogUploadEvntPayload n s)) = publish_script s"
  "gzip_script (snd (LogUploadEvntPayload n s)) = gzip_script s"
  "m_unMaxEventUploadCnt (snd (LogUploadEvntPayload n s)) = m_unMaxEventUploadCnt s"
  by (simp_all add: LogUploadEvntPayload_def Let_def)

lemma compress_and_publish_scripts:
  assumes "compress_and_publish env kind payload s = (res, s')"
  shows "m_unMaxEventUploadCnt s' = m_unMaxEventUploadCnt s"
    "res = None \<or> (\<exists>m. res = Some (0, m)) \<Longrightarrow> (scripts s', scripts s) \<in> less_than <*lex*> less_than"
  using assms
  by (auto simp: compress_and_publish_def gzip_ok_def mqtt_publish_def
    split: if_splits list.splits prod.splits bool.splits)

lemma upload_events_round_progress:
  assumes r: "upload_events_round env nErr s = ((again, nErr'), s')" and pos: "0 < m_unMaxEventUploadCnt s"
  shows "m_unMaxEventUploadCnt s' = m_unMaxEventUploadCnt s"
    "again \<Longrightarrow> (scripts s', scripts s) \<in> less_than <*lex*> less_than"
proof -
  obtain ids payload s1 where g: "GetStreamingEventsFromDB (upload_env.truncate env) TABLE_EVENT_STORE
      (int (m_unMaxEventUploadCnt s)) 0 0 (-1) (-1) s = (ids, payload, s1)"
    by (metis prod_cases3)
  note f1 = db_more_uploader[OF GetStreaming_more[OF g]]
  define s2 where "s2 = snd (LogUploadEvntPayload (length ids) s1)"
  have f2: "scripts s2 = scripts s" "m_unMaxEventUploadCnt s2 = m_unMaxEventUploadCnt s"
    using f1 by (simp_all add: s2_def LogUploadEvntPayload_scripts)
  obtain res s3 where p: "compress_and_publish env Events payload s2 = (res, s3)" by fastforce
  note f3 = compress_and_publish_scripts[OF p]
  have "m_unMaxEventUploadCnt s' = m_unMaxEventUploadCnt s \<and>
    (again \<longrightarrow> (scripts s', scripts s) \<in> less_than <*lex*> less_than)"
  proof (cases "ids = []")
    case True
    then show ?thesis
      using r pos f1 by (auto simp: upload_events_round_def g)
  next
    case False
    show ?thesis
    proof (cases res)
      case None
      then have "s' = s3"
        using r False by (auto simp: upload_events_round_def g Let_def s2_def[symmetric] p)
      then show ?thesis
        using f3 f2 None by simp
    next
      case (Some x)
      obtain e m where x: "x = (e, m)" by (cases x)
      obtain b e' s4 where v: "VerifyPostPublish m e ids s3 = (b, e', s4)" by (metis prod_cases3)
      have s': "s' = s4" "again \<Longrightarrow> b"
        using r False Some x v by (auto simp: upload_events_round_def g Let_def s2_def[symmetric] p)
      have f4: "scripts s4 = scripts s3" "m_unMaxEventUploadCnt s4 = m_unMaxEventUploadCnt s3"
        using v by (auto simp: VerifyPostPublish_def mark_published_frame split: if_splits prod.splits
          dest: mark_published_frame(1,2,6))
      have "b \<Longrightarrow> e = 0"
        using v by (auto simp: VerifyPostPublish_def split: if_splits)
      then show ?thesis
        using s' f4 f3 f2 Some x by auto
    qed
  qed
  then show "m_unMaxEventUploadCnt s' = m_unMaxEventUploadCnt s"
    "again \<Longrightarrow> (scripts s', scripts s) \<in> less_than <*lex*> less_than"
    by blast+
qed

lemma upload_events_loop_returns:
  "0 < m_unMaxEventUploadCnt s \<Longrightarrow> \<exists>y. upload_events_loop env nErr s = Some y"
proof (induction "scripts s" arbitrary: s nErr rule: wf_induct_rule[OF wf_lex_prod[OF wf_less_than wf_less_than]])
  case 1
  obtain again nErr' s' where r: "upload_events_round env nErr s = ((again, nErr'), s')"
    by (metis prod.collapse)
  note p = upload_events_round_progress[OF r "1.prems"]
  show ?case
  proof (cases again)
    case True
    then have "\<exists>y. upload_events_loop env nErr' s' = Some y"
      using "1.hyps"[OF p(2)] "1.prems" p(1) by simp
    then show ?thesis
      using True by (subst upload_events_loop.simps) (simp add: r)
  next
    case False
    then show ?thesis
      by (subst upload_events_loop.simps) (simp add: r)
  qed
qed

lemma UploadEvents_returns:
  assumes "0 < m_unMaxEventUploadCnt s"
  shows "\<exists>y. UploadEvents env s = Some y"
  using upload_events_loop_returns[OF assms] by (simp add: UploadEvents_def)

end
