(* ===== verification/Upload_Safety.thy ===== *)
theory Upload_Safety
  imports Uploader
begin

text \<open>
  The parts that move events together: rows are inserted, the uploader's threads select,
  publish, mark and announce them, the MQTT client reports acknowledgements, the handler's
  thread deletes, and a reconnection resets the identifiers. Each step is one operation of the
  components; they interleave freely. The invariant is that nothing leaves the tables unless
  it was acknowledged.
\<close>

section \<open>Rows that stay the same event\<close>

text \<open>Rows may go, and keep their identifier and their event otherwise.\<close>

definition derived :: "'a db_scheme \<Rightarrow> 'b db_scheme \<Rightarrow> bool" where
  "derived s s' = (\<forall>t. \<exists>Q f. rows t s' = map f (filter Q (rows t s)) \<and>
     (\<forall>r. col_id (f r) = col_id r \<and> col_events (f r) = col_events r))"

lemma derivedI:
  assumes "\<And>t. rows t s' = map (f t) (filter (Q t) (rows t s))"
    and "\<And>t r. col_id (f t r) = col_id r \<and> col_events (f t r) = col_events r"
  shows "derived s s'"
  unfolding derived_def using assms by blast

lemma derived_same: "(\<And>t. rows t s' = rows t s) \<Longrightarrow> derived s s'"
  by (rule derivedI[of s' "\<lambda>t. id" "\<lambda>t r. True"]) auto

lemma derived_trans:
  assumes "derived s s1" "derived s1 s2"
  shows "derived s s2"
  unfolding derived_def
proof
  fix t
  obtain Q f where 1: "rows t s1 = map f (filter Q (rows t s))"
    "\<forall>r. col_id (f r) = col_id r \<and> col_events (f r) = col_events r"
    using assms(1) unfolding derived_def by meson
  obtain R g where 2: "rows t s2 = map g (filter R (rows t s1))"
    "\<forall>r. col_id (g r) = col_id r \<and> col_events (g r) = col_events r"
    using assms(2) unfolding derived_def by meson
  have "rows t s2 = map (g \<circ> f) (filter (\<lambda>r. R (f r) \<and> Q r) (rows t s))"
    by (simp add: 1(1) 2(1) filter_map comp_def conj_commute)
  then show "\<exists>Q f. rows t s2 = map f (filter Q (rows t s)) \<and>
      (\<forall>r. col_id (f r) = col_id r \<and> col_events (f r) = col_events r)"
    using 1(2) 2(2) by (metis comp_apply)
qed

lemma db_exec_rows: "db_exec s = (b, s') \<Longrightarrow> rows t s' = rows t s"
  by (auto simp: db_exec_def split: list.splits)

lemma db_Remove_rows:
  assumes "db_Remove t P s = (b, s')"
  shows "rows u s' = (if u = t \<and> b then filter (\<lambda>r. \<not> P r) (rows t s) else rows u s)"
  using assms by (auto simp: db_Remove_def db_exec_rows split: prod.splits bool.splits)

lemma db_Update_rows:
  assumes "db_Update t f P s = (b, s')"
  shows "rows u s' = (if u = t \<and> b then map (\<lambda>r. if P r then f r else r) (rows t s) else rows u s)"
  using assms by (auto simp: db_Update_def rows_map_rows db_exec_rows split: prod.splits bool.splits)

lemma db_Remove_derived: "db_Remove t P s = (b, s') \<Longrightarrow> derived s s'"
  by (rule derivedI[of s' "\<lambda>t. id" "\<lambda>u r. \<not> (u = t \<and> b \<and> P r)"]) (auto simp: db_Remove_rows)

lemma db_Update_derived:
  assumes "db_Update t f P s = (b, s')" "\<And>r. col_id (f r) = col_id r \<and> col_events (f r) = col_events r"
  shows "derived s s'"
  by (rule derivedI[of s' "\<lambda>u r. if u = t \<and> b \<and> P r then f r else r" "\<lambda>u r. True"])
    (use assms(2) in \<open>auto simp: db_Update_rows[OF assms(1)]\<close>)

lemma lost_corrupted_derived:
  assumes "lost_corrupted env t s s'"
  shows "derived s s'"
proof -
  obtain X where X: "rows t s' = filter (\<lambda>r. col_id r \<notin> X) (rows t s)"
    using assms by (auto simp: lost_corrupted_def)
  have "rows u s' = rows u s" if "u \<noteq> t" for u
    using assms that by (simp add: lost_corrupted_def)
  then have "rows u s' = filter (\<lambda>r. u = t \<longrightarrow> col_id r \<notin> X) (rows u s)" for u
    using X by (cases "u = t") auto
  then show ?thesis
    by (intro derivedI[of s' "\<lambda>t. id" "\<lambda>u r. u = t \<longrightarrow> col_id r \<notin> X"]) auto
qed

section \<open>The system\<close>

text \<open>
  Beside the state of the program there is what happened so far: the selections the threads
  hold, the accepted publishes by identifier with the rows and the payload, the acknowledged
  identifiers, the publishes not yet marked or announced, and the row identifiers ever used
  (the tables are declared \<open>AUTOINCREMENT\<close>).
\<close>

type_synonym selection = "string \<times> row list \<times> string"

record history =
  upl :: uploader
  selected :: "selection list"
  sent_log :: "int \<Rightarrow> selection option"
  acked :: "int set"
  unmarked :: "(string \<times> int list \<times> int) list"
  unannounced :: "(int \<times> string) list"
  used_ids :: "string \<Rightarrow> int set"

definition event_tables :: "string set" where
  "event_tables = {TABLE_EVENT_STORE, TABLE_ALERT_STORE}"

definition rows_of :: "string \<Rightarrow> int list \<Rightarrow> 'a db_scheme \<Rightarrow> row list" where
  "rows_of t ids s = filter (\<lambda>r. col_id r \<in> set ids) (rows t s)"

definition accepts ::
  "uploader_env \<Rightarrow> publish_kind \<Rightarrow> string \<Rightarrow> uploader \<Rightarrow> int \<Rightarrow> uploader \<Rightarrow> bool"
where
  "accepts env kind payload s m s' =
     (mqtt_publish kind payload s = ((0, m), s') \<or> compress_and_publish env kind payload s = (Some (0, m), s'))"

inductive upload_step :: "uploader_env \<Rightarrow> history \<Rightarrow> history \<Rightarrow> bool" for env where
  insert: "t \<in> event_tables \<Longrightarrow> col_id r \<notin> used_ids h t \<Longrightarrow> col_mid r = 0 \<Longrightarrow>
    upload_step env h (h\<lparr>upl := map_rows t (\<lambda>rs. rs @ [r]) (upl h),
      used_ids := (used_ids h)(t := insert (col_id r) (used_ids h t))\<rparr>)"
| select: "t \<in> event_tables \<Longrightarrow>
    GetStreamingEventsFromDB (upload_env.truncate env) t n 0 0 (-1) (-1) (upl h) = (ids, payload, s') \<Longrightarrow>
    upload_step env h (h\<lparr>upl := s', selected := selected h @ [(t, rows_of t ids (upl h), payload)]\<rparr>)"
| select_topiced:
    "GetTopicedStreamingEventsFromDB (upload_env.truncate env) TABLE_EVENT_STORE n 0 0 (upl h) = Some (results, s') \<Longrightarrow>
    upload_step env h (h\<lparr>upl := s', selected := selected h @
      map (\<lambda>(i, topic, payload). (TABLE_EVENT_STORE, rows_of TABLE_EVENT_STORE [i] (upl h), payload)) results\<rparr>)"
| publish: "(t, rs, payload) \<in> set (selected h) \<Longrightarrow> rs \<noteq> [] \<Longrightarrow> accepts env kind payload (upl h) m s' \<Longrightarrow>
    0 < m \<Longrightarrow> sent_log h m = None \<Longrightarrow>
    upload_step env h (h\<lparr>upl := s', sent_log := (sent_log h)(m \<mapsto> (t, rs, payload)),
      unmarked := unmarked h @ [(t, map col_id rs, m)]\<rparr>)"
| foreign: "0 < m \<Longrightarrow> sent_log h m = None \<Longrightarrow>
    upload_step env h (h\<lparr>sent_log := (sent_log h)(m \<mapsto> ('''', [], payload))\<rparr>)"
| mark: "(t, ids, m) \<in> set (unmarked h) \<Longrightarrow> update_mid t ids m (upl h) = (b, s') \<Longrightarrow>
    upload_step env h (h\<lparr>upl := s', unmarked := remove1 (t, ids, m) (unmarked h),
      unannounced := (if b then unannounced h @ [(m, t)] else unannounced h)\<rparr>)"
| announce: "(m, t) \<in> set (unannounced h) \<Longrightarrow>
    upload_step env h (h\<lparr>upl := snd (SetMidTable m t (upl h)), unannounced := remove1 (m, t) (unannounced h)\<rparr>)"
| acknowledge: "sent_log h m \<noteq> None \<Longrightarrow>
    upload_step env h (h\<lparr>upl := snd (ProcessPublishedMid m (upl h)), acked := insert m (acked h)\<rparr>)"
| delete: "upload_step env h (h\<lparr>upl := run_once (upload_env.truncate env) (upl h)\<rparr>)"
| reconnect: "upload_step env h (h\<lparr>upl := snd (InitMid (upl h))\<rparr>)"
| other: "mids.truncate s' = mids.truncate (upl h) \<Longrightarrow> upload_step env h (h\<lparr>upl := s'\<rparr>)"

definition start :: "history \<Rightarrow> bool" where
  "start h = (event_store (upl h) = [] \<and> alert_store (upl h) = [] \<and> m_setPublishedMidSet (upl h) = {} \<and>
     m_queMidTobeDeleted (upl h) = [] \<and> selected h = [] \<and> sent_log h = (\<lambda>_. None) \<and> acked h = {} \<and>
     unmarked h = [] \<and> unannounced h = [] \<and> used_ids h = (\<lambda>_. {}))"

inductive upload_reachable :: "uploader_env \<Rightarrow> history \<Rightarrow> bool" for env where
  init: "start h \<Longrightarrow> upload_reachable env h"
| step: "upload_reachable env h \<Longrightarrow> upload_step env h h' \<Longrightarrow> upload_reachable env h'"

inductive_cases upload_stepE: "upload_step env h h'"

section \<open>The invariant\<close>

text \<open>A payload carries an event when it is its text, or an array with its text.\<close>

definition carries :: "uploader_env \<Rightarrow> string \<Rightarrow> row \<Rightarrow> bool" where
  "carries env payload r = (payload = DecryptEventData env (col_events r) \<or>
     (\<exists>xs. payload = json_array xs \<and> DecryptEventData env (col_events r) \<in> set xs))"

definition selection_ok :: "uploader_env \<Rightarrow> history \<Rightarrow> selection \<Rightarrow> bool" where
  "selection_ok env h = (\<lambda>(t, rs, payload). \<forall>r\<in>set rs. carries env payload r \<and> col_id r \<in> used_ids h t \<and>
     (\<forall>r'\<in>set (rows t (upl h)). col_id r' = col_id r \<longrightarrow> col_events r' = col_events r))"

definition ids_ok :: "history \<Rightarrow> bool" where
  "ids_ok h = (\<forall>t. distinct (map col_id (rows t (upl h))) \<and> col_id ` set (rows t (upl h)) \<subseteq> used_ids h t)"

definition selections_ok :: "uploader_env \<Rightarrow> history \<Rightarrow> bool" where
  "selections_ok env h = ((\<forall>x\<in>set (selected h). selection_ok env h x) \<and>
     (\<forall>m x. sent_log h m = Some x \<longrightarrow> selection_ok env h x))"

definition published_as :: "history \<Rightarrow> int \<Rightarrow> string \<Rightarrow> int set \<Rightarrow> bool" where
  "published_as h m t ids = (\<exists>rs payload. sent_log h m = Some (t, rs, payload) \<and> ids \<subseteq> col_id ` set rs)"

definition marks_ok :: "history \<Rightarrow> bool" where
  "marks_ok h = ((\<forall>t. \<forall>r\<in>set (rows t (upl h)). col_mid r \<noteq> 0 \<longrightarrow> published_as h (col_mid r) t {col_id r}) \<and>
     (\<forall>(t, ids, m)\<in>set (unmarked h). published_as h m t (set ids)))"

definition acks_ok :: "history \<Rightarrow> bool" where
  "acks_ok h = (mid_handler.tracked (acked h) (upl h) \<and> (\<forall>m\<in>acked h. sent_log h m \<noteq> None) \<and>
     (\<forall>m. sent_log h m \<noteq> None \<longrightarrow> 0 < m))"

definition upload_inv :: "uploader_env \<Rightarrow> history \<Rightarrow> bool" where
  "upload_inv env h = (ids_ok h \<and> selections_ok env h \<and> marks_ok h \<and> acks_ok h)"

lemma upload_invI: "ids_ok h \<Longrightarrow> selections_ok env h \<Longrightarrow> marks_ok h \<Longrightarrow> acks_ok h \<Longrightarrow> upload_inv env h"
  by (simp add: upload_inv_def)

lemma start_inv: "start h \<Longrightarrow> upload_inv env h"
  by (auto simp: start_def upload_inv_def ids_ok_def selections_ok_def marks_ok_def acks_ok_def rows_def
    mid_handler.tracked_def)

section \<open>Preservation\<close>

lemma derivedE:
  assumes "derived s s'" "r' \<in> set (rows t s')"
  obtains r where "r \<in> set (rows t s)" "col_id r' = col_id r" "col_events r' = col_events r"
proof -
  obtain Q f where "rows t s' = map f (filter Q (rows t s))"
    "\<forall>r. col_id (f r) = col_id r \<and> col_events (f r) = col_events r"
    using assms(1) unfolding derived_def by meson
  then show thesis
    using assms(2) that by auto
qed

lemma ids_ok_derived:
  assumes "ids_ok h" "derived (upl h) s'"
  shows "ids_ok (h\<lparr>upl := s'\<rparr>)"
  unfolding ids_ok_def
proof
  fix t
  obtain Q f where f: "rows t s' = map f (filter Q (rows t (upl h)))"
    "\<forall>r. col_id (f r) = col_id r \<and> col_events (f r) = col_events r"
    using assms(2) unfolding derived_def by meson
  then have ids: "map col_id (rows t s') = map col_id (filter Q (rows t (upl h)))"
    by simp
  have "distinct (map col_id (filter Q (rows t (upl h))))"
    using assms(1) by (simp add: ids_ok_def distinct_map_filter)
  then have d1: "distinct (map col_id (rows t s'))"
    by (simp only: ids)
  have "col_id ` set (rows t s') \<subseteq> col_id ` set (rows t (upl h))"
    using arg_cong[OF ids, of set] by auto
  also have "\<dots> \<subseteq> used_ids h t"
    using assms(1) by (simp add: ids_ok_def)
  finally have d2: "col_id ` set (rows t s') \<subseteq> used_ids h t" .
  show "distinct (map col_id (rows t (upl (h\<lparr>upl := s'\<rparr>)))) \<and>
      col_id ` set (rows t (upl (h\<lparr>upl := s'\<rparr>))) \<subseteq> used_ids (h\<lparr>upl := s'\<rparr>) t"
    using d1 d2 by simp
qed

lemma selection_ok_derived:
  assumes "selection_ok env h x" "derived (upl h) (upl h')" "used_ids h' = used_ids h"
  shows "selection_ok env h' x"
proof -
  obtain t rs payload where x: "x = (t, rs, payload)" by (cases x)
  have "col_events r' = col_events r"
    if r: "r \<in> set rs" "r' \<in> set (rows t (upl h'))" "col_id r' = col_id r" for r r'
  proof -
    obtain q where q: "q \<in> set (rows t (upl h))" "col_id r' = col_id q" "col_events r' = col_events q"
      using derivedE[OF assms(2) r(2)] .
    then show ?thesis
      using assms(1) r(1,3) by (simp add: selection_ok_def x)
  qed
  then show ?thesis
    using assms(1,3) by (auto simp: selection_ok_def x)
qed

lemma selections_ok_derived:
  assumes "selections_ok env h" "derived (upl h) s'"
  shows "selections_ok env (h\<lparr>upl := s'\<rparr>)"
  using assms selection_ok_derived[of env h _ "h\<lparr>upl := s'\<rparr>"] by (auto simp: selections_ok_def)

text \<open>The components that a step does not touch do not matter.\<close>

lemma selection_ok_cong:
  "selection_ok env (h\<lparr>sent_log := l\<rparr>) x = selection_ok env h x"
  "selection_ok env (h\<lparr>selected := sl\<rparr>) x = selection_ok env h x"
  "selection_ok env (h\<lparr>acked := a\<rparr>) x = selection_ok env h x"
  "selection_ok env (h\<lparr>unmarked := u\<rparr>) x = selection_ok env h x"
  "selection_ok env (h\<lparr>unannounced := n\<rparr>) x = selection_ok env h x"
  by (simp_all add: selection_ok_def)

lemma selections_ok_cong:
  "selections_ok env (h\<lparr>acked := a\<rparr>) = selections_ok env h"
  "selections_ok env (h\<lparr>unmarked := u\<rparr>) = selections_ok env h"
  "selections_ok env (h\<lparr>unannounced := n\<rparr>) = selections_ok env h"
  by (simp_all add: selections_ok_def selection_ok_cong)

lemma ids_ok_cong:
  "ids_ok (h\<lparr>sent_log := l\<rparr>) = ids_ok h" "ids_ok (h\<lparr>selected := sl\<rparr>) = ids_ok h"
  "ids_ok (h\<lparr>acked := a\<rparr>) = ids_ok h" "ids_ok (h\<lparr>unmarked := u\<rparr>) = ids_ok h"
  "ids_ok (h\<lparr>unannounced := n\<rparr>) = ids_ok h"
  by (simp_all add: ids_ok_def)

text \<open>When no row gains an identifier of a message, and the handler's sets do not change.\<close>

definition marks_kept :: "uploader \<Rightarrow> uploader \<Rightarrow> bool" where
  "marks_kept s s' = (\<forall>t. \<forall>r'\<in>set (rows t s'). col_mid r' \<noteq> 0 \<longrightarrow>
     (\<exists>r\<in>set (rows t s). col_id r = col_id r' \<and> col_mid r = col_mid r'))"

lemma marks_ok_kept:
  assumes "marks_ok h" "marks_kept (upl h) s'"
  shows "marks_ok (h\<lparr>upl := s'\<rparr>)"
proof -
  have pub: "published_as (h\<lparr>upl := s'\<rparr>) = published_as h"
    by (simp add: published_as_def fun_eq_iff)
  have "published_as h (col_mid r') t {col_id r'}" if r': "r' \<in> set (rows t s')" "col_mid r' \<noteq> 0" for t r'
  proof -
    obtain r where "r \<in> set (rows t (upl h))" "col_id r = col_id r'" "col_mid r = col_mid r'"
      using assms(2) r' unfolding marks_kept_def by blast
    then show ?thesis
      using assms(1) r'(2) by (metis marks_ok_def)
  qed
  then show ?thesis
    using assms(1) by (simp add: marks_ok_def pub)
qed

lemma lost_corrupted_marks_kept: "lost_corrupted env t s s' \<Longrightarrow> marks_kept s s'"
  unfolding marks_kept_def
proof (intro allI ballI impI)
  fix u r'
  assume l: "lost_corrupted env t s s'" and r': "r' \<in> set (rows u s')"
  then have "r' \<in> set (rows u s)"
    by (cases "u = t") (auto simp: lost_corrupted_def)
  then show "\<exists>r\<in>set (rows u s). col_id r = col_id r' \<and> col_mid r = col_mid r'"
    by blast
qed

lemma marks_kept_same: "(\<And>t. rows t s' = rows t s) \<Longrightarrow> marks_kept s s'"
  by (auto simp: marks_kept_def)

lemma acks_ok_same:
  assumes "acks_ok h" "m_setPublishedMidSet s' = m_setPublishedMidSet (upl h)"
    "m_queMidTobeDeleted s' = m_queMidTobeDeleted (upl h)"
  shows "acks_ok (h\<lparr>upl := s'\<rparr>)"
  using assms mid_handler.tracked_cong[of s' "upl h" "acked h"] by (simp add: acks_ok_def)

section \<open>Each step\<close>

lemma truncate_env [simp]:
  "DecryptEventData (upload_env.truncate env) = DecryptEventData env"
  "batch_supported (upload_env.truncate env) = batch_supported env"
  "device_id (upload_env.truncate env) = device_id env"
  by (simp_all add: upload_env.truncate_def)

text \<open>A step that only removes and marks rows, without touching the handler's sets.\<close>

lemma upload_inv_derived:
  assumes inv: "upload_inv env h" and d: "derived (upl h) s'" and k: "marks_kept (upl h) s'"
    and sets: "m_setPublishedMidSet s' = m_setPublishedMidSet (upl h)"
      "m_queMidTobeDeleted s' = m_queMidTobeDeleted (upl h)"
  shows "upload_inv env (h\<lparr>upl := s'\<rparr>)"
  using inv ids_ok_derived[OF _ d] selections_ok_derived[OF _ d] marks_ok_kept[OF _ k] acks_ok_same[OF _ sets]
  by (simp add: upload_inv_def)

lemma upload_inv_more:
  assumes "upload_inv env h" "derived (upl h) s'" "marks_kept (upl h) s'" "db.more s' = db.more (upl h)"
  shows "upload_inv env (h\<lparr>upl := s'\<rparr>)"
  using upload_inv_derived[OF assms(1-3)] db_more_mids[OF assms(4)] by blast

lemma upload_inv_lost:
  assumes "upload_inv env h" "lost_corrupted e t (upl h) s'"
  shows "upload_inv env (h\<lparr>upl := s'\<rparr>)"
  by (rule upload_inv_more[OF assms(1) lost_corrupted_derived[OF assms(2)] lost_corrupted_marks_kept[OF assms(2)]])
    (use assms(2) in \<open>simp add: lost_corrupted_def\<close>)

lemma upload_inv_selected:
  assumes "upload_inv env (h\<lparr>upl := s'\<rparr>)" "\<forall>x\<in>set xs. selection_ok env (h\<lparr>upl := s'\<rparr>) x"
  shows "upload_inv env (h\<lparr>upl := s', selected := selected h @ xs\<rparr>)"
proof -
  define g where "g = h\<lparr>upl := s'\<rparr>"
  have s: "selection_ok env (g\<lparr>selected := ys\<rparr>) x = selection_ok env g x" for ys x
    by (rule selection_ok_cong)
  have "upload_inv env (g\<lparr>selected := selected g @ xs\<rparr>)"
    using assms
    by (auto simp: g_def[symmetric] upload_inv_def ids_ok_cong selections_ok_def s marks_ok_def acks_ok_def
      published_as_def)
  then show ?thesis
    by (simp add: g_def)
qed

text \<open>A row with the identifier of a row of the table is that row.\<close>

lemma ids_ok_unique:
  assumes "ids_ok h" "r \<in> set (rows t (upl h))" "r' \<in> set (rows t (upl h))" "col_id r' = col_id r"
  shows "r' = r"
  using assms by (auto simp: ids_ok_def distinct_map inj_on_def)

lemma selected_ok:
  assumes "ids_ok h" "set ids \<subseteq> col_id ` set rs" "set rs \<subseteq> set (rows t (upl h))"
    and "\<And>r. r \<in> set rs \<Longrightarrow> carries env payload r"
    and "derived (upl h) s'"
  shows "selection_ok env (h\<lparr>upl := s'\<rparr>) (t, rows_of t ids (upl h), payload)"
proof -
  have "selection_ok env h (t, rows_of t ids (upl h), payload)"
    unfolding selection_ok_def case_prod_conv
  proof (intro ballI conjI impI)
    fix r assume r: "r \<in> set (rows_of t ids (upl h))"
    then have mem: "r \<in> set (rows t (upl h))" "col_id r \<in> set ids"
      by (simp_all add: rows_of_def)
    then obtain q where q: "q \<in> set rs" "col_id q = col_id r"
      using assms(2) by fastforce
    then have "q = r"
      using ids_ok_unique[OF assms(1) mem(1)] assms(3) by blast
    then show "carries env payload r"
      using assms(4) q(1) by blast
    show "col_id r \<in> used_ids h t"
      using assms(1) mem(1) by (auto simp: ids_ok_def)
    fix r' assume "r' \<in> set (rows t (upl h))" "col_id r' = col_id r"
    then show "col_events r' = col_events r"
      using ids_ok_unique[OF assms(1) mem(1)] by blast
  qed
  then show ?thesis
    by (rule selection_ok_derived) (use assms(5) in simp_all)
qed

lemma select_inv:
  assumes inv: "upload_inv env h"
    and g: "GetStreamingEventsFromDB (upload_env.truncate env) t n 0 0 (-1) (-1) (upl h) = (ids, payload, s')"
  shows "upload_inv env (h\<lparr>upl := s', selected := selected h @ [(t, rows_of t ids (upl h), payload)]\<rparr>)"
proof -
  note res = GetStreamingEventsFromDB_result[OF g]
  then have lost: "lost_corrupted (upload_env.truncate env) t (upl h) s'" ..
  obtain rs where rs: "set rs \<subseteq> set (rows t (upl h))" "ids = map col_id rs"
    "payload = json_array (map (\<lambda>r. DecryptEventData env (col_events r)) rs)"
    using res by (auto simp: taken_rows_def)
  have "selection_ok env (h\<lparr>upl := s'\<rparr>) (t, rows_of t ids (upl h), payload)"
  proof (rule selected_ok[OF _ _ rs(1)])
    show "ids_ok h"
      using inv by (simp add: upload_inv_def)
    show "derived (upl h) s'"
      by (rule lost_corrupted_derived[OF lost])
    show "carries env payload r" if "r \<in> set rs" for r
      using that rs(3) by (auto simp: carries_def)
  qed (simp add: rs(2))
  then show ?thesis
    using upload_inv_selected[OF upload_inv_lost[OF inv lost]] by simp
qed

lemma select_topiced_inv:
  assumes inv: "upload_inv env h"
    and g: "GetTopicedStreamingEventsFromDB (upload_env.truncate env) TABLE_EVENT_STORE n 0 0 (upl h) = Some (results, s')"
  shows "upload_inv env (h\<lparr>upl := s', selected := selected h @
      map (\<lambda>(i, topic, payload). (TABLE_EVENT_STORE, rows_of TABLE_EVENT_STORE [i] (upl h), payload)) results\<rparr>)"
proof -
  note res = GetTopicedStreamingEventsFromDB_result[OF g]
  then have lost: "lost_corrupted (upload_env.truncate env) TABLE_EVENT_STORE (upl h) s'" ..
  have "selection_ok env (h\<lparr>upl := s'\<rparr>) (TABLE_EVENT_STORE, rows_of TABLE_EVENT_STORE [i] (upl h), payload)"
    if x: "(i, topic, payload) \<in> set results" for i topic payload
  proof -
    obtain r where r: "r \<in> set (rows TABLE_EVENT_STORE (upl h))" "i = col_id r"
      "payload = DecryptEventData env (col_events r)"
      using conjunct2[OF res] x by (fastforce simp: topiced_ok_def)
    show ?thesis
    proof (rule selected_ok[of h _ "[r]"])
      show "ids_ok h"
        using inv by (simp add: upload_inv_def)
      show "derived (upl h) s'"
        by (rule lost_corrupted_derived[OF lost])
    qed (use r in \<open>auto simp: carries_def\<close>)
  qed
  then show ?thesis
    by (intro upload_inv_selected[OF upload_inv_lost[OF inv lost]]) auto
qed

lemma insert_inv:
  assumes inv: "upload_inv env h" and t: "t \<in> event_tables" and new: "col_id r \<notin> used_ids h t" "col_mid r = 0"
  shows "upload_inv env (h\<lparr>upl := map_rows t (\<lambda>rs. rs @ [r]) (upl h),
    used_ids := (used_ids h)(t := insert (col_id r) (used_ids h t))\<rparr>)"
    (is "upload_inv env ?h")
proof -
  have rows': "rows u (map_rows t (\<lambda>rs. rs @ [r]) (upl h)) =
      (if u = t then rows t (upl h) @ [r] else rows u (upl h))" for u
    using t by (auto simp: event_tables_def rows_def map_rows_def TABLE_EVENT_STORE_def TABLE_ALERT_STORE_def)
  have ids: "ids_ok h"
    using inv by (simp add: upload_inv_def)
  have "col_id r \<notin> col_id ` set (rows t (upl h))"
    using ids new(1) by (auto simp: ids_ok_def)
  then have "ids_ok ?h"
    using ids by (auto simp: ids_ok_def rows')
  moreover have "selection_ok env ?h x" if "selection_ok env h x" for x
    using that new(1) by (cases x) (auto simp: selection_ok_def rows')
  then have "selections_ok env ?h"
    using inv by (simp add: upload_inv_def selections_ok_def)
  moreover have "marks_ok ?h"
    using inv new(2) by (auto simp: upload_inv_def marks_ok_def published_as_def rows')
  moreover have "acks_ok ?h"
  proof -
    have more: "db.more (map_rows t (\<lambda>rs. rs @ [r]) (upl h)) = db.more (upl h)"
      by (simp add: map_rows_def)
    have "acks_ok (h\<lparr>upl := map_rows t (\<lambda>rs. rs @ [r]) (upl h)\<rparr>)"
      by (rule acks_ok_same) (use inv db_more_mids[OF more] in \<open>simp_all add: upload_inv_def\<close>)
    then show ?thesis
      by (simp add: acks_ok_def)
  qed
  ultimately show ?thesis
    by (rule upload_invI)
qed

lemma accepts_frame:
  assumes "accepts env kind payload s m s'"
  shows "mids.truncate s' = mids.truncate s"
  using assms
  by (auto simp: accepts_def mqtt_publish_def compress_and_publish_def gzip_ok_def mids.truncate_def
    split: list.splits if_splits prod.splits bool.splits)

lemma mids_truncate_rows:
  assumes "mids.truncate s' = mids.truncate s"
  shows "rows t s' = rows t s" "m_setPublishedMidSet s' = m_setPublishedMidSet s"
    "m_queMidTobeDeleted s' = m_queMidTobeDeleted s"
  using assms by (auto simp: mids.truncate_def rows_def)

lemma other_inv:
  assumes "upload_inv env h" "mids.truncate s' = mids.truncate (upl h)"
  shows "upload_inv env (h\<lparr>upl := s'\<rparr>)"
  by (intro upload_inv_derived derived_same marks_kept_same) (use assms mids_truncate_rows[OF assms(2)] in simp_all)

lemma log_inv:
  assumes inv: "upload_inv env h" and m: "0 < m" "sent_log h m = None" and x: "selection_ok env h x"
  shows "upload_inv env (h\<lparr>sent_log := (sent_log h)(m \<mapsto> x)\<rparr>)"
proof -
  have "published_as (h\<lparr>sent_log := (sent_log h)(m \<mapsto> x)\<rparr>) k t ids" if "published_as h k t ids" for k t ids
    using that m(2) by (auto simp: published_as_def)
  then have "marks_ok (h\<lparr>sent_log := (sent_log h)(m \<mapsto> x)\<rparr>)"
    using inv by (auto simp: upload_inv_def marks_ok_def)
  moreover have "selections_ok env (h\<lparr>sent_log := (sent_log h)(m \<mapsto> x)\<rparr>)"
    using inv x by (auto simp: upload_inv_def selections_ok_def selection_ok_cong)
  moreover have "acks_ok (h\<lparr>sent_log := (sent_log h)(m \<mapsto> x)\<rparr>)"
    using inv m by (auto simp: upload_inv_def acks_ok_def)
  ultimately show ?thesis
    using inv by (simp add: upload_inv_def ids_ok_cong)
qed

lemma foreign_inv:
  "upload_inv env h \<Longrightarrow> 0 < m \<Longrightarrow> sent_log h m = None \<Longrightarrow>
    upload_inv env (h\<lparr>sent_log := (sent_log h)(m \<mapsto> ('''', [], payload))\<rparr>)"
  by (rule log_inv) (simp_all add: selection_ok_def)

lemma publish_inv:
  assumes inv: "upload_inv env h" and x: "(t, rs, payload) \<in> set (selected h)"
    and a: "accepts env kind payload (upl h) m s'" and m: "0 < m" "sent_log h m = None"
  shows "upload_inv env (h\<lparr>upl := s', sent_log := (sent_log h)(m \<mapsto> (t, rs, payload)),
      unmarked := unmarked h @ [(t, map col_id rs, m)]\<rparr>)"
proof -
  define g where "g = h\<lparr>upl := s', sent_log := (sent_log h)(m \<mapsto> (t, rs, payload))\<rparr>"
  have inv1: "upload_inv env (h\<lparr>upl := s'\<rparr>)"
    by (rule other_inv[OF inv accepts_frame[OF a]])
  then have "selection_ok env (h\<lparr>upl := s'\<rparr>) (t, rs, payload)"
    using x by (simp add: upload_inv_def selections_ok_def)
  then have inv2: "upload_inv env g"
    using log_inv[OF inv1 m(1)] m(2) by (simp add: g_def)
  have "published_as g m t (set (map col_id rs))"
    by (simp add: g_def published_as_def)
  then have "upload_inv env (g\<lparr>unmarked := unmarked g @ [(t, map col_id rs, m)]\<rparr>)"
    using inv2
    by (auto simp: upload_inv_def ids_ok_cong selections_ok_cong marks_ok_def acks_ok_def published_as_def)
  then show ?thesis
    by (simp add: g_def)
qed

lemma update_mid_rows:
  assumes "update_mid t ids m s = (b, s')"
  shows "rows u s' = (if u = t \<and> b then map (\<lambda>r. if col_id r \<in> set ids then r\<lparr>col_mid := m\<rparr> else r) (rows t s)
    else rows u s)" "db.more s' = db.more s" "derived s s'"
  using assms db_Update_rows[of t _ _ s b s' u] db_Update_more[of t _ _ s b s'] db_Update_derived[of t _ _ s b s']
    derived_same[of s s] by (auto simp: update_mid_def split: if_splits)

lemma mark_inv:
  assumes inv: "upload_inv env h" and u: "(t, ids, m) \<in> set (unmarked h)"
    and s': "update_mid t ids m (upl h) = (b, s')"
  shows "upload_inv env (h\<lparr>upl := s', unmarked := remove1 (t, ids, m) (unmarked h),
      unannounced := (if b then unannounced h @ [(m, t)] else unannounced h)\<rparr>)"
    (is "upload_inv env (h\<lparr>upl := s', unmarked := ?u, unannounced := ?n\<rparr>)")
proof -
  have pub: "published_as h m t (set ids)"
    using inv u by (auto simp: upload_inv_def marks_ok_def)
  then have pub1: "published_as h m t {col_id r}" if "col_id r \<in> set ids" for r
    using that by (fastforce simp: published_as_def)
  have old: "published_as h (col_mid r) t' {col_id r}" if "r \<in> set (rows t' (upl h))" "col_mid r \<noteq> 0" for r t'
    using inv that by (simp add: upload_inv_def marks_ok_def)
  have new: "published_as h (col_mid r) t' {col_id r}" if r: "r \<in> set (rows t' s')" "col_mid r \<noteq> 0" for r t'
  proof (cases "t' = t \<and> b")
    case True
    then obtain q where "q \<in> set (rows t (upl h))" "r = (if col_id q \<in> set ids then q\<lparr>col_mid := m\<rparr> else q)"
      using r(1) by (auto simp: update_mid_rows(1)[OF s'])
    then show ?thesis
      using True old[of q t] pub1[of q] r(2) by (auto split: if_splits)
  qed (use r old in \<open>auto simp: update_mid_rows(1)[OF s']\<close>)
  have "published_as h m' t' (set ids')" if "(t', ids', m') \<in> set ?u" for t' ids' m'
  proof -
    have "(t', ids', m') \<in> set (unmarked h)"
      by (rule subsetD[OF set_remove1_subset that])
    then show ?thesis
      using inv by (auto simp: upload_inv_def marks_ok_def)
  qed
  then have "marks_ok (h\<lparr>upl := s', unmarked := ?u\<rparr>)"
    using new by (auto simp: marks_ok_def published_as_def)
  moreover have "acks_ok (h\<lparr>upl := s'\<rparr>)"
    by (rule acks_ok_same) (use inv db_more_mids[OF update_mid_rows(2)[OF s']] in \<open>simp_all add: upload_inv_def\<close>)
  ultimately show ?thesis
    using inv ids_ok_derived[OF _ update_mid_rows(3)[OF s']] selections_ok_derived[OF _ update_mid_rows(3)[OF s']]
    by (simp add: upload_inv_def ids_ok_cong selections_ok_cong marks_ok_def acks_ok_def published_as_def)
qed

text \<open>A step of the handler: the tables stay or only lose marks, and its sets follow the
  acknowledgements.\<close>

lemma handler_inv:
  assumes inv: "upload_inv env h" and d: "derived (upl h) s'" and k: "marks_kept (upl h) s'"
    and tracked: "mid_handler.tracked A s'" and A: "acked h \<subseteq> A" "\<forall>m\<in>A. sent_log h m \<noteq> None"
  shows "upload_inv env (h\<lparr>upl := s', acked := A\<rparr>)"
proof -
  define g where "g = h\<lparr>upl := s'\<rparr>"
  have "ids_ok g" "selections_ok env g" "marks_ok g"
    using inv d k by (simp_all add: g_def upload_inv_def ids_ok_derived selections_ok_derived marks_ok_kept)
  moreover from this have "marks_ok (g\<lparr>acked := A\<rparr>)"
    by (simp add: marks_ok_def published_as_def)
  moreover have "acks_ok (g\<lparr>acked := A\<rparr>)"
    using inv tracked A by (auto simp: g_def upload_inv_def acks_ok_def)
  ultimately have "upload_inv env (g\<lparr>acked := A\<rparr>)"
    by (simp add: upload_inv_def ids_ok_cong selections_ok_cong)
  then show ?thesis
    by (simp add: g_def)
qed

lemma upload_inv_acked:
  assumes "upload_inv env h"
  shows "mid_handler.tracked (acked h) (upl h)" "\<forall>m\<in>acked h. sent_log h m \<noteq> None"
  using assms by (simp_all add: upload_inv_def acks_ok_def)

lemma SetMidTable_rows: "rows u (snd (SetMidTable m t s)) = rows u s"
  by (simp add: SetMidTable_def ClearMid_def rows_def)

lemma ProcessPublishedMid_rows: "rows u (snd (ProcessPublishedMid m s)) = rows u s"
  by (simp add: ProcessPublishedMid_def ClearMid_def rows_def split: option.splits)

lemma announce_inv:
  assumes inv: "upload_inv env h" and m: "(m, t) \<in> set (unannounced h)"
  shows "upload_inv env (h\<lparr>upl := snd (SetMidTable m t (upl h)), unannounced := remove1 (m, t) (unannounced h)\<rparr>)"
proof -
  have "upload_inv env (h\<lparr>upl := snd (SetMidTable m t (upl h)), acked := acked h\<rparr>)"
    by (rule handler_inv[OF inv derived_same marks_kept_same mid_handler.announce_tracked])
      (use upload_inv_acked[OF inv] in \<open>simp_all add: SetMidTable_rows\<close>)
  then show ?thesis
    by (simp add: upload_inv_def ids_ok_cong selections_ok_cong marks_ok_def acks_ok_def published_as_def)
qed

lemma acknowledge_inv:
  assumes inv: "upload_inv env h" and m: "sent_log h m \<noteq> None"
  shows "upload_inv env (h\<lparr>upl := snd (ProcessPublishedMid m (upl h)), acked := insert m (acked h)\<rparr>)"
  by (rule handler_inv[OF inv derived_same marks_kept_same mid_handler.ack_tracked])
    (use upload_inv_acked[OF inv] m in \<open>auto simp: ProcessPublishedMid_rows\<close>)

text \<open>\<open>delete_events_from_db\<close>: only marked rows go, or lose their stream flag.\<close>

lemma delete_events_from_db_rows:
  assumes "delete_events_from_db env t m s = (b, s')"
  shows "\<exists>Q f. (\<forall>u. rows u s' = map (f u) (filter (Q u) (rows u s))) \<and>
    (\<forall>u r. col_mid r \<noteq> m \<or> u \<noteq> t \<longrightarrow> Q u r \<and> f u r = r) \<and>
    (\<forall>u r. f u r = r \<or> f u r = r\<lparr>col_stream := 0\<rparr>)"
    "db.more s' = db.more s"
proof -
  consider (plain) "db_Remove t (\<lambda>r. col_mid r = m) s = (b, s')"
    | (failed) "db_Remove t (\<lambda>r. col_mid r = m \<and> col_batch r = 0) s = (b, s')"
    | (both) s1 where "db_Remove t (\<lambda>r. col_mid r = m \<and> col_batch r = 0) s = (True, s1)"
        "db_Update t (\<lambda>r. r\<lparr>col_stream := 0\<rparr>) (\<lambda>r. col_mid r = m) s1 = (b, s')"
    using assms by (auto simp: delete_events_from_db_def split: if_splits prod.splits bool.splits)
  then have "(\<exists>Q f. (\<forall>u. rows u s' = map (f u) (filter (Q u) (rows u s))) \<and>
    (\<forall>u r. col_mid r \<noteq> m \<or> u \<noteq> t \<longrightarrow> Q u r \<and> f u r = r) \<and>
    (\<forall>u r. f u r = r \<or> f u r = r\<lparr>col_stream := 0\<rparr>)) \<and> db.more s' = db.more s"
  proof cases
    case plain
    show ?thesis
      by (intro conjI exI[of _ "\<lambda>u r. \<not> (u = t \<and> b \<and> col_mid r = m)"] exI[of _ "\<lambda>u r. r"])
        (auto simp: db_Remove_rows[OF plain] db_Remove_more[OF plain])
  next
    case failed
    show ?thesis
      by (intro conjI exI[of _ "\<lambda>u r. \<not> (u = t \<and> b \<and> col_mid r = m \<and> col_batch r = 0)"] exI[of _ "\<lambda>u r. r"])
        (auto simp: db_Remove_rows[OF failed] db_Remove_more[OF failed])
  next
    case both
    show ?thesis
      by (intro conjI exI[of _ "\<lambda>u r. \<not> (u = t \<and> col_mid r = m \<and> col_batch r = 0)"]
          exI[of _ "\<lambda>u r. if u = t \<and> b \<and> col_mid r = m then r\<lparr>col_stream := 0\<rparr> else r"])
        (auto simp: db_Remove_rows[OF both(1)] db_Update_rows[OF both(2)] db_Remove_more[OF both(1)]
          db_Update_more[OF both(2)])
  qed
  then show "\<exists>Q f. (\<forall>u. rows u s' = map (f u) (filter (Q u) (rows u s))) \<and>
    (\<forall>u r. col_mid r \<noteq> m \<or> u \<noteq> t \<longrightarrow> Q u r \<and> f u r = r) \<and>
    (\<forall>u r. f u r = r \<or> f u r = r\<lparr>col_stream := 0\<rparr>)"
    "db.more s' = db.more s"
    by blast+
qed

lemma run_once_rows:
  assumes "run_once env s = s'"
  shows "\<exists>Q f. (\<forall>u. rows u s' = map (f u) (filter (Q u) (rows u s))) \<and>
    (\<forall>u r. \<not> ((col_mid r, u) \<in> set (m_queMidTobeDeleted s)) \<longrightarrow> Q u r \<and> f u r = r) \<and>
    (\<forall>u r. f u r = r \<or> f u r = r\<lparr>col_stream := 0\<rparr>)"
    "m_setPublishedMidSet s' = m_setPublishedMidSet s" "set (m_queMidTobeDeleted s') \<subseteq> set (m_queMidTobeDeleted s)"
proof -
  have "(\<exists>Q f. (\<forall>u. rows u s' = map (f u) (filter (Q u) (rows u s))) \<and>
    (\<forall>u r. \<not> ((col_mid r, u) \<in> set (m_queMidTobeDeleted s)) \<longrightarrow> Q u r \<and> f u r = r) \<and>
    (\<forall>u r. f u r = r \<or> f u r = r\<lparr>col_stream := 0\<rparr>)) \<and>
    m_setPublishedMidSet s' = m_setPublishedMidSet s \<and> set (m_queMidTobeDeleted s') \<subseteq> set (m_queMidTobeDeleted s)"
  proof (cases "m_queMidTobeDeleted s")
    case Nil
    then show ?thesis
      using assms by (intro conjI exI[of _ "\<lambda>u r. True"] exI[of _ "\<lambda>u r. r"]) (auto simp: run_once_def)
  next
    case (Cons x q)
    obtain m t where x: "x = (m, t)" by (cases x)
    obtain b where d: "delete_events_from_db env t m (s\<lparr>m_queMidTobeDeleted := q\<rparr>) = (b, s')"
      using assms by (cases "delete_events_from_db env t m (s\<lparr>m_queMidTobeDeleted := q\<rparr>)")
        (simp add: run_once_def Cons x)
    obtain Q f where Qf: "\<forall>u. rows u s' = map (f u) (filter (Q u) (rows u (s\<lparr>m_queMidTobeDeleted := q\<rparr>)))"
      "\<forall>u r. col_mid r \<noteq> m \<or> u \<noteq> t \<longrightarrow> Q u r \<and> f u r = r" "\<forall>u r. f u r = r \<or> f u r = r\<lparr>col_stream := 0\<rparr>"
      using delete_events_from_db_rows(1)[OF d] by auto
    have "\<forall>u. rows u s' = map (f u) (filter (Q u) (rows u s))"
      using Qf(1) by (simp add: rows_def)
    moreover have "\<forall>u r. \<not> ((col_mid r, u) \<in> set (m_queMidTobeDeleted s)) \<longrightarrow> Q u r \<and> f u r = r"
      using Qf(2) by (simp add: Cons x)
    moreover have "m_setPublishedMidSet s' = m_setPublishedMidSet s \<and>
        set (m_queMidTobeDeleted s') \<subseteq> set (m_queMidTobeDeleted s)"
      using db_more_mids[OF delete_events_from_db_rows(2)[OF d]] by (auto simp: Cons)
    ultimately show ?thesis
      using Qf(3) by blast
  qed
  then show "\<exists>Q f. (\<forall>u. rows u s' = map (f u) (filter (Q u) (rows u s))) \<and>
    (\<forall>u r. \<not> ((col_mid r, u) \<in> set (m_queMidTobeDeleted s)) \<longrightarrow> Q u r \<and> f u r = r) \<and>
    (\<forall>u r. f u r = r \<or> f u r = r\<lparr>col_stream := 0\<rparr>)"
    "m_setPublishedMidSet s' = m_setPublishedMidSet s" "set (m_queMidTobeDeleted s') \<subseteq> set (m_queMidTobeDeleted s)"
    by blast+
qed

lemma run_once_derived: "run_once env s = s' \<Longrightarrow> derived s s' \<and> marks_kept s s'"
proof
  assume r: "run_once env s = s'"
  obtain Q f where Qf: "\<forall>u. rows u s' = map (f u) (filter (Q u) (rows u s))"
    "\<forall>u r. f u r = r \<or> f u r = r\<lparr>col_stream := 0\<rparr>"
    using run_once_rows(1)[OF r] by blast
  have same: "col_id (f u x) = col_id x \<and> col_events (f u x) = col_events x \<and> col_mid (f u x) = col_mid x" for u x
    using Qf(2)[rule_format, of u x] by (elim disjE) simp_all
  then show "derived s s'"
    using Qf(1) by (intro derivedI[of s' f Q]) auto
  show "marks_kept s s'"
    using Qf(1) same unfolding marks_kept_def by fastforce
qed

lemma delete_inv:
  assumes inv: "upload_inv env h"
  shows "upload_inv env (h\<lparr>upl := run_once e (upl h)\<rparr>)"
proof -
  note r = run_once_derived[of e "upl h", OF refl]
  have "mid_handler.tracked (acked h) (run_once e (upl h))"
    by (rule mid_handler.tracked_cong[OF run_once_rows(2,3)[OF refl] upload_inv_acked(1)[OF inv]])
  then have "upload_inv env (h\<lparr>upl := run_once e (upl h), acked := acked h\<rparr>)"
    by (intro handler_inv[OF inv]) (use r upload_inv_acked[OF inv] in simp_all)
  then show ?thesis by simp
qed

lemma InitMid_rows:
  "\<exists>f. (\<forall>u. rows u (snd (InitMid s)) = map (f u) (rows u s)) \<and>
     (\<forall>u r. f u r = r \<or> f u r = r\<lparr>col_mid := 0\<rparr>)"
proof -
  define s1 where "s1 = init_clear (sorted_list_of_set (m_setPublishedMidSet s)) s"
  define s2 where "s2 = s1\<lparr>m_setPublishedMidSet := {}, m_mapMidDBTableMap := (\<lambda>_. None)\<rparr>"
  obtain a s3 where s3: "db_Update TABLE_ALERT_STORE (\<lambda>r. r\<lparr>col_mid := 0\<rparr>) (\<lambda>r. col_mid r \<noteq> 0) s2 = (a, s3)"
    by fastforce
  obtain b s4 where s4: "db_Update TABLE_EVENT_STORE (\<lambda>r. r\<lparr>col_mid := 0\<rparr>) (\<lambda>r. col_mid r \<noteq> 0) s3 = (b, s4)"
    by fastforce
  have s: "snd (InitMid s) = s4"
    using s3 s4 by (simp add: InitMid_def Let_def s2_def s1_def)
  have "rows u s1 = rows u s" for u
    using init_clear_queue(3)[of "sorted_list_of_set (m_setPublishedMidSet s)" s]
    by (auto simp: s1_def db.truncate_def rows_def)
  moreover have "rows u s2 = rows u s1" for u
    by (simp add: s2_def rows_def)
  ultimately have r: "rows u s2 = rows u s" for u
    by simp
  have ne: "TABLE_ALERT_STORE \<noteq> TABLE_EVENT_STORE"
    by (simp add: TABLE_ALERT_STORE_def TABLE_EVENT_STORE_def)
  show ?thesis
    unfolding s
    by (intro exI[of _ "\<lambda>u r. if (u = TABLE_ALERT_STORE \<and> a \<or> u = TABLE_EVENT_STORE \<and> b) \<and> col_mid r \<noteq> 0
          then r\<lparr>col_mid := 0\<rparr> else r"] conjI allI)
      (use ne in \<open>auto simp: db_Update_rows[OF s3] db_Update_rows[OF s4] r\<close>)
qed

lemma reconnect_inv:
  assumes inv: "upload_inv env h"
  shows "upload_inv env (h\<lparr>upl := snd (InitMid (upl h))\<rparr>)"
proof -
  obtain f where f: "\<forall>u. rows u (snd (InitMid (upl h))) = map (f u) (rows u (upl h))"
    "\<forall>u r. f u r = r \<or> f u r = r\<lparr>col_mid := 0\<rparr>"
    using InitMid_rows by blast
  have ids: "col_id (f u x) = col_id x \<and> col_events (f u x) = col_events x" for u x
    using f(2)[rule_format, of u x] by (elim disjE) simp_all
  have mid: "col_mid (f u x) = col_mid x \<or> col_mid (f u x) = 0" for u x
    using f(2)[rule_format, of u x] by (elim disjE) simp_all
  have "derived (upl h) (snd (InitMid (upl h)))"
    using f(1) ids by (intro derivedI[of _ f "\<lambda>u r. True"]) auto
  moreover have "marks_kept (upl h) (snd (InitMid (upl h)))"
    unfolding marks_kept_def
  proof (intro allI ballI impI)
    fix t r' assume "r' \<in> set (rows t (snd (InitMid (upl h))))" "col_mid r' \<noteq> 0"
    then obtain r where "r \<in> set (rows t (upl h))" "r' = f t r" "col_mid (f t r) \<noteq> 0"
      using f(1) by auto
    then show "\<exists>r\<in>set (rows t (upl h)). col_id r = col_id r' \<and> col_mid r = col_mid r'"
      using ids mid[of t r] by auto
  qed
  ultimately have "upload_inv env (h\<lparr>upl := snd (InitMid (upl h)), acked := acked h\<rparr>)"
    by (rule handler_inv[OF inv _ _ mid_handler.reset_tracked]) (use upload_inv_acked[OF inv] in simp_all)
  then show ?thesis by simp
qed

lemma upload_step_inv:
  assumes "upload_step env h h'" "upload_inv env h"
  shows "upload_inv env h'"
  using assms
proof (cases rule: upload_step.cases)
  case (mark t ids m b s')
  then show ?thesis
    using mark_inv[OF assms(2) mark(2,3)] by simp
qed (use assms(2) in \<open>simp_all add: insert_inv select_inv select_topiced_inv publish_inv foreign_inv announce_inv
  acknowledge_inv delete_inv reconnect_inv other_inv\<close>)

lemma upload_reachable_inv: "upload_reachable env h \<Longrightarrow> upload_inv env h"
  by (induction rule: upload_reachable.induct) (auto intro: start_inv upload_step_inv)

section \<open>What a step may remove\<close>

text \<open>The row is still there, to be sent as before.\<close>

definition still_there :: "string \<Rightarrow> row \<Rightarrow> 'a db_scheme \<Rightarrow> bool" where
  "still_there t r s = (\<exists>r'\<in>set (rows t s). col_id r' = col_id r \<and> col_events r' = col_events r \<and>
     col_stream r' = col_stream r)"

text \<open>The row was published by an accepted publish that was acknowledged, with its event in the payload.\<close>

definition delivered :: "uploader_env \<Rightarrow> history \<Rightarrow> string \<Rightarrow> row \<Rightarrow> bool" where
  "delivered env h t r = (\<exists>m\<in>acked h. \<exists>rs payload. sent_log h m = Some (t, rs, payload) \<and> carries env payload r)"

lemma still_there_same: "rows t s' = rows t s \<Longrightarrow> r \<in> set (rows t s) \<Longrightarrow> still_there t r s'"
  by (auto simp: still_there_def)

lemma still_there_lost:
  assumes "ids_ok h" "lost_corrupted e u (upl h) s'" "r \<in> set (rows t (upl h))" "\<not> corrupted e r"
  shows "still_there t r s'"
proof (cases "u = t")
  case True
  obtain X where X: "X \<subseteq> bad_ids e t (upl h)" "rows t s' = filter (\<lambda>r. col_id r \<notin> X) (rows t (upl h))"
    using assms(2) by (auto simp: lost_corrupted_def True)
  have "col_id r \<notin> X"
  proof
    assume "col_id r \<in> X"
    then obtain q where "q \<in> set (rows t (upl h))" "corrupted e q" "col_id q = col_id r"
      using X(1) by (auto simp: bad_ids_def)
    then show False
      using ids_ok_unique[OF assms(1,3)] assms(4) by blast
  qed
  then show ?thesis
    using X(2) assms(3) by (auto simp: still_there_def)
next
  case False
  then show ?thesis
    using assms(2,3) by (auto simp: lost_corrupted_def intro: still_there_same)
qed

lemma still_there_map:
  assumes "rows t s' = map f (rows t s)" "r \<in> set (rows t s)"
    and "col_id (f r) = col_id r" "col_events (f r) = col_events r" "col_stream (f r) = col_stream r"
  shows "still_there t r s'"
  using assms by (auto simp: still_there_def)

lemma acked_delivered:
  assumes inv: "upload_inv env h" and r: "r \<in> set (rows t (upl h))"
    and q: "(col_mid r, t) \<in> set (m_queMidTobeDeleted (upl h))"
  shows "delivered env h t r"
proof -
  have a: "col_mid r \<in> acked h"
    by (rule mid_handler.tracked_due[OF upload_inv_acked(1)[OF inv] q])
  then have "0 < col_mid r"
    using inv by (auto simp: upload_inv_def acks_ok_def)
  then have "published_as h (col_mid r) t {col_id r}"
    using inv r by (auto simp: upload_inv_def marks_ok_def)
  then obtain rs payload where p: "sent_log h (col_mid r) = Some (t, rs, payload)" "col_id r \<in> col_id ` set rs"
    by (auto simp: published_as_def)
  then obtain x where x: "x \<in> set rs" "col_id r = col_id x"
    by auto
  have "selection_ok env h (t, rs, payload)"
    using inv p(1) by (auto simp: upload_inv_def selections_ok_def)
  then have "carries env payload x" "col_events r = col_events x"
    using x r by (auto simp: selection_ok_def)
  then have "carries env payload r"
    by (simp add: carries_def)
  then show ?thesis
    using a p(1) by (auto simp: delivered_def)
qed

lemma delete_still_there:
  assumes inv: "upload_inv env h" and r: "r \<in> set (rows t (upl h))" and d: "\<not> delivered env h t r"
  shows "still_there t r (run_once e (upl h))"
proof -
  obtain Q f where Qf: "\<forall>u. rows u (run_once e (upl h)) = map (f u) (filter (Q u) (rows u (upl h)))"
    "\<forall>u r. \<not> ((col_mid r, u) \<in> set (m_queMidTobeDeleted (upl h))) \<longrightarrow> Q u r \<and> f u r = r"
    using run_once_rows(1)[OF refl] by blast
  have "(col_mid r, t) \<notin> set (m_queMidTobeDeleted (upl h))"
    using acked_delivered[OF inv r] d by blast
  then have "Q t r" "f t r = r"
    using Qf(2) by blast+
  then have "r \<in> set (rows t (run_once e (upl h)))"
    using Qf(1) r by (auto intro: rev_image_eqI)
  then show ?thesis
    by (auto simp: still_there_def)
qed

lemma reconnect_still_there:
  assumes "r \<in> set (rows t s)"
  shows "still_there t r (snd (InitMid s))"
proof -
  obtain f where f: "\<forall>u. rows u (snd (InitMid s)) = map (f u) (rows u s)"
    "\<forall>u r. f u r = r \<or> f u r = r\<lparr>col_mid := 0\<rparr>"
    using InitMid_rows by blast
  have "col_id (f t r) = col_id r \<and> col_events (f t r) = col_events r \<and> col_stream (f t r) = col_stream r"
    using f(2)[rule_format, of t r] by (elim disjE) simp_all
  then show ?thesis
    using still_there_map[OF f(1)[rule_format] assms] by blast
qed

lemma step_still_there:
  assumes inv: "upload_inv env h" and st: "upload_step env h h'" and r: "r \<in> set (rows t (upl h))"
    and c: "\<not> corrupted (upload_env.truncate env) r" and d: "\<not> delivered env h t r"
  shows "still_there t r (upl h')"
  using st
proof (cases rule: upload_step.cases)
  case (insert u q)
  have "rows t (upl h') = rows t (upl h) \<or> rows t (upl h') = rows t (upl h) @ [q]"
    using insert by (auto simp: rows_map_rows event_tables_def rows_def map_rows_def TABLE_EVENT_STORE_def TABLE_ALERT_STORE_def)
  then show ?thesis
    using r by (auto simp: still_there_def)
next
  case (select u n ids payload s')
  then show ?thesis
    using still_there_lost[OF _ conjunct1[OF GetStreamingEventsFromDB_result[OF select(3)]] r c] inv
    by (simp add: upload_inv_def)
next
  case (select_topiced n results s')
  then show ?thesis
    using still_there_lost[OF _ conjunct1[OF GetTopicedStreamingEventsFromDB_result[OF select_topiced(2)]] r c] inv
    by (simp add: upload_inv_def)
next
  case (publish u rs payload kind m s')
  then show ?thesis
    using mids_truncate_rows(1)[OF accepts_frame[OF publish(4)]] r by (simp add: still_there_same)
next
  case (mark u ids m b s')
  have "still_there t r s'"
  proof (cases "t = u \<and> b")
    case True
    then have "rows t s' = map (\<lambda>r. if col_id r \<in> set ids then r\<lparr>col_mid := m\<rparr> else r) (rows t (upl h))"
      by (simp add: update_mid_rows(1)[OF mark(3)])
    then show ?thesis
      by (rule still_there_map[OF _ r]) simp_all
  next
    case False
    then have "rows t s' = rows t (upl h)"
      by (auto simp: update_mid_rows(1)[OF mark(3)])
    then show ?thesis
      by (rule still_there_same[OF _ r])
  qed
  then show ?thesis
    by (simp add: mark)
next
  case (announce m u)
  then show ?thesis
    using r by (simp add: still_there_same SetMidTable_rows)
next
  case (acknowledge m)
  then show ?thesis
    using r by (simp add: still_there_same ProcessPublishedMid_rows)
next
  case (other s')
  then show ?thesis
    using mids_truncate_rows(1)[OF other(2)] r by (simp add: still_there_same)
qed (use r delete_still_there[OF inv r d] reconnect_still_there[OF r] in \<open>simp_all add: still_there_same\<close>)

end
