(* ===== verification/Upload_Runs.thy ===== *)
theory Upload_Runs
  imports Upload_Safety
begin

text \<open>
  The passes of the uploader (Uploader.thy) are runs of the step relation (Upload_Safety.thy):
  what holds of every interleaving of steps holds of the code's own loops. The identifiers that
  the client below will hand out have to be new, which \<open>fresh\<close> says of its script.
\<close>

section \<open>Runs\<close>

abbreviation upload_steps :: "uploader_env \<Rightarrow> history \<Rightarrow> history \<Rightarrow> bool" where
  "upload_steps env \<equiv> (upload_step env)\<^sup>*\<^sup>*"

lemma upload_steps_inv: "upload_steps env h h' \<Longrightarrow> upload_inv env h \<Longrightarrow> upload_inv env h'"
  by (induction rule: rtranclp_induct) (auto intro: upload_step_inv)

lemma upload_step_log:
  assumes "upload_step env h h'"
  shows "acked h \<subseteq> acked h'" "sent_log h m = Some x \<Longrightarrow> sent_log h' m = Some x" "set (selected h) \<subseteq> set (selected h')"
  using assms by (cases rule: upload_step.cases; auto)+

lemma delivered_step: "upload_step env h h' \<Longrightarrow> delivered env h t r \<Longrightarrow> delivered env h' t r"
  unfolding delivered_def using upload_step_log by (metis subsetD)

lemma steps_still_there:
  assumes "upload_steps env h h'" "upload_inv env h" "r \<in> set (rows t (upl h))"
    and "\<not> corrupted (upload_env.truncate env) r" "\<not> delivered env h' t r"
  shows "still_there t r (upl h')"
  using assms
proof (induction rule: rtranclp_induct)
  case base
  then show ?case
    by (auto simp: still_there_def)
next
  case (step h1 h2)
  have nd: "\<not> delivered env h1 t r"
    using delivered_step[OF step.hyps(2)] step.prems(4) by blast
  then have "still_there t r (upl h1)"
    using step.IH step.prems by blast
  then obtain q where q: "q \<in> set (rows t (upl h1))" "col_id q = col_id r" "col_events q = col_events r"
    "col_stream q = col_stream r"
    by (auto simp: still_there_def)
  have "\<not> corrupted (upload_env.truncate env) q" "\<not> delivered env h1 t q"
    using step.prems(3) nd q(3) by (simp_all add: corrupted_def delivered_def carries_def)
  then have "still_there t q (upl h2)"
    by (intro step_still_there[OF upload_steps_inv[OF step.hyps(1) step.prems(1)] step.hyps(2) q(1)])
  then show ?case
    using q by (simp add: still_there_def)
qed

section \<open>New identifiers\<close>

definition next_mids :: "(int \<times> int) list \<Rightarrow> int list" where
  "next_mids ps = map snd (filter (\<lambda>(e, m). e = 0 \<and> 0 < m) ps)"

definition fresh :: "history \<Rightarrow> bool" where
  "fresh h = (distinct (next_mids (publish_script (upl h))) \<and>
     (\<forall>m\<in>set (next_mids (publish_script (upl h))). sent_log h m = None))"

text \<open>What a part of a pass achieves: a run that ends in its state, keeps the selections and the
  client's identifiers new.\<close>

definition reaches :: "uploader_env \<Rightarrow> history \<Rightarrow> history \<Rightarrow> bool" where
  "reaches env h h' = (upload_steps env h h' \<and> fresh h' \<and> set (selected h) \<subseteq> set (selected h'))"

lemma reaches_refl: "fresh h \<Longrightarrow> reaches env h h"
  by (simp add: reaches_def)

lemma reaches_trans: "reaches env h h1 \<Longrightarrow> reaches env h1 h2 \<Longrightarrow> reaches env h h2"
  by (auto simp: reaches_def)

lemma reaches_step:
  assumes "upload_step env h h'" "fresh h'"
  shows "reaches env h h'"
  using assms upload_step_log(3)[OF assms(1)] by (auto simp: reaches_def)

lemma reaches_inv: "reaches env h h' \<Longrightarrow> upload_inv env h \<Longrightarrow> upload_inv env h'"
  by (auto simp: reaches_def intro: upload_steps_inv)

lemma fresh_same:
  assumes "fresh h" "publish_script (upl h') = publish_script (upl h)" "sent_log h' = sent_log h"
  shows "fresh h'"
  using assms by (simp add: fresh_def)

lemma next_mids_Cons: "next_mids ((e, m) # ps) = (if e = 0 \<and> 0 < m then m # next_mids ps else next_mids ps)"
  by (simp add: next_mids_def)

text \<open>A change of what only the uploader knows.\<close>

lemma reaches_other:
  assumes "fresh h" "mids.truncate s' = mids.truncate (upl h)"
    and "publish_script s' = publish_script (upl h) \<or> (\<exists>x. publish_script (upl h) = x # publish_script s')"
  shows "reaches env h (h\<lparr>upl := s'\<rparr>)"
proof (rule reaches_step[OF upload_step.other[OF assms(2)]])
  show "fresh (h\<lparr>upl := s'\<rparr>)"
    using assms(1,3) by (auto simp: fresh_def next_mids_Cons split: if_splits)
qed

section \<open>The parts of a pass\<close>

lemma reaches_select:
  assumes inv: "upload_inv env h" and f: "fresh h" and t: "t \<in> event_tables"
    and g: "GetStreamingEventsFromDB (upload_env.truncate env) t n 0 0 (-1) (-1) (upl h) = (ids, payload, s')"
  shows "\<exists>h' rs. reaches env h h' \<and> upl h' = s' \<and> (t, rs, payload) \<in> set (selected h') \<and> set ids = col_id ` set rs"
proof (intro exI conjI)
  let ?h = "h\<lparr>upl := s', selected := selected h @ [(t, rows_of t ids (upl h), payload)]\<rparr>"
  show "reaches env h ?h"
    by (rule reaches_step[OF upload_step.select[OF t g]])
      (use fresh_same[OF f] db_more_uploader(1)[OF GetStreaming_more[OF g]] in simp)
  obtain rs where "set rs \<subseteq> set (rows t (upl h))" "ids = map col_id rs"
    using GetStreamingEventsFromDB_result[OF g] by (auto simp: taken_rows_def)
  then show "set ids = col_id ` set (rows_of t ids (upl h))"
    by (auto simp: rows_of_def)
qed simp_all

lemma accepts_script:
  assumes "accepts env kind payload s m s'"
  shows "publish_script s = (0, m) # publish_script s'"
  using assms
  by (auto simp: accepts_def mqtt_publish_def compress_and_publish_def gzip_ok_def
    split: list.splits if_splits prod.splits bool.splits)

lemma update_mid_cong: "set ids = set ids' \<Longrightarrow> update_mid t ids m = update_mid t ids' m"
  by (auto simp: update_mid_def fun_eq_iff)

lemma reaches_mark:
  assumes f: "fresh h" and u: "(t, ids, m) \<in> set (unmarked h)" and m: "0 < m"
    and s': "mark_published t ids m (upl h) = (b, s')"
  shows "\<exists>h'. reaches env h h' \<and> upl h' = s'"
proof -
  obtain b1 s1 where u1: "update_mid t ids m (upl h) = (b1, s1)" by fastforce
  define h1 where "h1 = h\<lparr>upl := s1, unmarked := remove1 (t, ids, m) (unmarked h),
      unannounced := (if b1 then unannounced h @ [(m, t)] else unannounced h)\<rparr>"
  have f1: "fresh h1"
    using fresh_same[OF f] db_more_uploader(1)[OF update_mid_more[OF u1]] by (simp add: h1_def)
  have r1: "reaches env h h1"
    using reaches_step[OF upload_step.mark[OF u u1]] f1 by (simp add: h1_def)
  show ?thesis
  proof (cases b1)
    case False
    then show ?thesis
      using s' m u1 r1 by (intro exI[of _ h1]) (simp add: mark_published_def h1_def)
  next
    case True
    let ?h = "h1\<lparr>upl := snd (SetMidTable m t (upl h1)), unannounced := remove1 (m, t) (unannounced h1)\<rparr>"
    have "upload_step env h1 ?h"
      by (rule upload_step.announce) (simp add: h1_def True)
    then have "reaches env h1 ?h"
      by (rule reaches_step) (use fresh_same[OF f1] in \<open>simp add: SetMidTable_frame\<close>)
    moreover have "upl ?h = s'"
      using s' m u1 True by (simp add: mark_published_def h1_def)
    ultimately show ?thesis
      using reaches_trans[OF r1] by blast
  qed
qed

text \<open>An accepted publish of a selection and what follows it.\<close>

lemma reaches_publish:
  assumes f: "fresh h" and x: "(t, rs, payload) \<in> set (selected h)" "rs \<noteq> []" "set ids = col_id ` set rs"
    and a: "accepts env kind payload (upl h) m s1" and s': "mark_published t ids m s1 = (b, s')"
  shows "\<exists>h'. reaches env h h' \<and> upl h' = s'"
proof (cases "0 < m")
  case True
  have script: "publish_script (upl h) = (0, m) # publish_script s1"
    by (rule accepts_script[OF a])
  then have new: "sent_log h m = None"
    using f True by (simp add: fresh_def next_mids_Cons)
  define h1 where "h1 = h\<lparr>upl := s1, sent_log := (sent_log h)(m \<mapsto> (t, rs, payload)),
      unmarked := unmarked h @ [(t, map col_id rs, m)]\<rparr>"
  have f1: "fresh h1"
    using f script True by (auto simp: fresh_def next_mids_Cons h1_def)
  have r1: "reaches env h h1"
    using reaches_step[OF upload_step.publish[OF x(1,2) a True new]] f1 by (simp add: h1_def)
  have "mark_published t (map col_id rs) m (upl h1) = (b, s')"
  proof -
    have "update_mid t ids m s1 = update_mid t (map col_id rs) m s1"
      by (subst update_mid_cong[of ids "map col_id rs"]) (simp_all add: x(3))
    then show ?thesis
      using s' True by (simp add: h1_def mark_published_def)
  qed
  moreover have "(t, map col_id rs, m) \<in> set (unmarked h1)"
    by (simp add: h1_def)
  ultimately obtain h2 where "reaches env h1 h2" "upl h2 = s'"
    using reaches_mark[OF f1 _ True] by blast
  then show ?thesis
    using reaches_trans[OF r1] by blast
next
  case False
  then have "s' = mqtt_disconnect s1"
    using s' by (simp add: mark_published_def)
  then have "mids.truncate s' = mids.truncate (upl h)"
    using accepts_frame[OF a] by (simp add: mqtt_disconnect_def mids.truncate_def)
  then have "reaches env h (h\<lparr>upl := s'\<rparr>)"
    by (rule reaches_other[OF f]) (use accepts_script[OF a] \<open>s' = _\<close> in \<open>simp add: mqtt_disconnect_def\<close>)
  then show ?thesis
    by (intro exI[of _ "h\<lparr>upl := s'\<rparr>"]) simp
qed

text \<open>A publish that was not accepted.\<close>

lemma mqtt_publish_frame:
  assumes "mqtt_publish kind payload s = (r, s')"
  shows "mids.truncate s' = mids.truncate s"
    "publish_script s' = publish_script s \<or> (\<exists>x. publish_script s = x # publish_script s')"
  using assms by (auto simp: mqtt_publish_def mids.truncate_def split: list.splits)

lemma compress_and_publish_frame:
  assumes "compress_and_publish env kind payload s = (r, s')"
  shows "mids.truncate s' = mids.truncate s"
    "publish_script s' = publish_script s \<or> (\<exists>x. publish_script s = x # publish_script s')"
  using assms
  by (auto simp: compress_and_publish_def gzip_ok_def mqtt_publish_def mids.truncate_def
    split: if_splits list.splits prod.splits bool.splits)

section \<open>The loops\<close>

lemma upload_alerts_loop_reaches:
  assumes "upload_alerts_loop env e (upl h) = (e', s')" "upload_inv env h" "fresh h"
  shows "\<exists>h'. reaches env h h' \<and> upl h' = s'"
  using assms
proof (induction env e "upl h" arbitrary: h rule: upload_alerts_loop.induct)
  case (1 env e h)
  obtain ids payload s1 where g: "GetStreamingEventsFromDB (upload_env.truncate env) TABLE_ALERT_STORE 20 0 0 (-1) (-1) (upl h)
      = (ids, payload, s1)" by (metis prod_cases3)
  obtain h1 rs where h1: "reaches env h h1" "upl h1 = s1" "(TABLE_ALERT_STORE, rs, payload) \<in> set (selected h1)"
    "set ids = col_id ` set rs"
    using reaches_select[OF "1.prems"(2,3) _ g] by (auto simp: event_tables_def)
  then have f1: "fresh h1" and inv1: "upload_inv env h1"
    using reaches_inv "1.prems"(2) by (auto simp: reaches_def)
  obtain err m s2 where p: "mqtt_publish Alerts payload s1 = ((err, m), s2)" by (metis prod.collapse)
  obtain e3 s3 where v: "ProcessPublishedAlerts m ids s2 = (e3, s3)" by fastforce
  consider (stop) "m_bShutdownRequested (upl h)" | (empty) "\<not> m_bShutdownRequested (upl h)" "ids = []"
    | (error) "\<not> m_bShutdownRequested (upl h)" "ids \<noteq> []" "err \<noteq> 0"
    | (sent) "\<not> m_bShutdownRequested (upl h)" "ids \<noteq> []" "err = 0" by blast
  then show ?case
  proof cases
    case stop
    then show ?thesis
      using "1.prems" by (subst (asm) upload_alerts_loop.simps) (auto intro: reaches_refl)
  next
    case empty
    then have "s' = s1"
      using "1.prems"(1) by (subst (asm) upload_alerts_loop.simps) (simp add: g)
    then show ?thesis
      using h1 by blast
  next
    case error
    then have "s' = s2"
      using "1.prems"(1) by (subst (asm) upload_alerts_loop.simps) (simp add: g p)
    moreover have "reaches env h1 (h1\<lparr>upl := s2\<rparr>)"
      by (rule reaches_other[OF f1]) (use mqtt_publish_frame[OF p] h1(2) in simp_all)
    ultimately show ?thesis
      using reaches_trans[OF h1(1)] by (intro exI[of _ "h1\<lparr>upl := s2\<rparr>"]) simp
  next
    case sent
    have "rs \<noteq> []"
      using sent(2) h1(4) by auto
    moreover obtain b where "mark_published TABLE_ALERT_STORE ids m s2 = (b, s3)"
      using v by (auto simp: ProcessPublishedAlerts_def split: prod.splits)
    moreover have "accepts env Alerts payload (upl h1) m s2"
      using p sent(3) h1(2) by (simp add: accepts_def)
    ultimately obtain h3 where h3: "reaches env h1 h3" "upl h3 = s3"
      using reaches_publish[OF f1 h1(3) _ h1(4)] by blast
    show ?thesis
    proof (cases "e3 = eUE_UPLOAD_SUCCESS")
      case True
      then have "upload_alerts_loop env e3 (upl h3) = (e', s')"
        using "1.prems"(1) sent by (subst (asm) upload_alerts_loop.simps) (simp add: g p v h3(2))
      moreover have "upload_inv env h3" "fresh h3"
        using reaches_inv[OF h3(1) inv1] h3(1) by (simp_all add: reaches_def)
      ultimately obtain h4 where "reaches env h3 h4" "upl h4 = s'"
        using "1.hyps"[OF sent(1) g[symmetric] refl sent(2) p[symmetric] refl _ v[symmetric, folded h3(2)] True]
          sent(3) by blast
      then show ?thesis
        using reaches_trans[OF h1(1)] reaches_trans[OF h3(1)] by blast
    next
      case False
      then have "s' = s3"
        using "1.prems"(1) sent by (subst (asm) upload_alerts_loop.simps) (simp add: g p v)
      then show ?thesis
        using reaches_trans[OF h1(1) h3(1)] h3(2) by blast
    qed
  qed
qed

lemma UploadAlerts_reaches:
  assumes "UploadAlerts env (upl h) = (e, s')" "upload_inv env h" "fresh h"
  shows "\<exists>h'. reaches env h h' \<and> upl h' = s'"
proof (cases "is_connected (upl h)")
  case True
  then show ?thesis
    using assms(1) by (intro upload_alerts_loop_reaches[OF _ assms(2,3)]) (simp add: UploadAlerts_def)
next
  case False
  then show ?thesis
    using assms by (auto simp: UploadAlerts_def intro: reaches_refl)
qed

lemma alert_attempts_reaches:
  assumes "upload_inv env h" "fresh h"
  shows "\<exists>h'. reaches env h h' \<and> upl h' = alert_attempts env n (upl h)"
  using assms
proof (induction n arbitrary: h)
  case 0
  then show ?case
    by (auto intro: reaches_refl)
next
  case (Suc n)
  show ?case
  proof (cases "m_bShutdownRequested (upl h)")
    case True
    then show ?thesis
      using Suc.prems by (auto intro: reaches_refl)
  next
    case False
    obtain h1 where h1: "reaches env h h1" "upl h1 = snd (UploadAlerts env (upl h))"
      using UploadAlerts_reaches[OF prod.collapse[symmetric] Suc.prems] by blast
    moreover have "upload_inv env h1" "fresh h1"
      using reaches_inv[OF h1(1) Suc.prems(1)] h1(1) by (simp_all add: reaches_def)
    ultimately show ?thesis
      using Suc.IH[of h1] reaches_trans[OF h1(1)] False by auto
  qed
qed

lemma LogUploadEvntPayload_frame:
  "mids.truncate (snd (LogUploadEvntPayload n s)) = mids.truncate s"
  "publish_script (snd (LogUploadEvntPayload n s)) = publish_script s"
  by (simp_all add: LogUploadEvntPayload_def Let_def mids.truncate_def)

text \<open>\<open>PublishEvents\<close>, then the marks when there was no error.\<close>

lemma upload_events_round_reaches:
  assumes r: "upload_events_round env nErr (upl h) = (y, s')" and inv: "upload_inv env h" and f: "fresh h"
  shows "\<exists>h'. reaches env h h' \<and> upl h' = s'"
proof -
  obtain ids payload s1 where g: "GetStreamingEventsFromDB (upload_env.truncate env) TABLE_EVENT_STORE
      (int (m_unMaxEventUploadCnt (upl h))) 0 0 (-1) (-1) (upl h) = (ids, payload, s1)"
    by (metis prod_cases3)
  obtain h1 rs where h1: "reaches env h h1" "upl h1 = s1" "(TABLE_EVENT_STORE, rs, payload) \<in> set (selected h1)"
    "set ids = col_id ` set rs"
    using reaches_select[OF inv f _ g] by (auto simp: event_tables_def)
  show ?thesis
  proof (cases "ids = []")
    case True
    then have "s' = s1"
      using r by (simp add: upload_events_round_def g)
    then show ?thesis
      using h1 by blast
  next
    case False
    define s2 where "s2 = snd (LogUploadEvntPayload (length ids) s1)"
    define h2 where "h2 = h1\<lparr>upl := s2\<rparr>"
    have r2: "reaches env h1 h2"
      unfolding h2_def
      by (rule reaches_other) (use h1(1,2) in \<open>simp_all add: reaches_def s2_def LogUploadEvntPayload_frame\<close>)
    have f2: "fresh h2"
      using r2 by (simp add: reaches_def)
    have r12: "reaches env h h2"
      by (rule reaches_trans[OF h1(1) r2])
    obtain res s3 where p: "compress_and_publish env Events payload s2 = (res, s3)" by fastforce
    have r3: "reaches env h2 (h2\<lparr>upl := s3\<rparr>)"
      by (rule reaches_other[OF f2]) (use compress_and_publish_frame[OF p] in \<open>simp_all add: h2_def\<close>)
    show ?thesis
    proof (cases "\<exists>m. res = Some (0, m)")
      case True
      then obtain m where res: "res = Some (0, m)" by blast
      obtain b s4 where m: "mark_published TABLE_EVENT_STORE ids m s3 = (b, s4)" by fastforce
      have "accepts env Events payload (upl h2) m s3"
        using p res by (simp add: accepts_def h2_def)
      moreover have "rs \<noteq> []"
        using False h1(4) by auto
      moreover have "(TABLE_EVENT_STORE, rs, payload) \<in> set (selected h2)"
        using h1(3) by (simp add: h2_def)
      ultimately obtain h3 where "reaches env h2 h3" "upl h3 = s4"
        using reaches_publish[OF f2 _ _ h1(4)] m by blast
      moreover have "s' = s4"
        using r False by (simp add: upload_events_round_def g Let_def s2_def[symmetric] p res VerifyPostPublish_def m)
      ultimately show ?thesis
        using reaches_trans[OF r12] by blast
    next
      case no: False
      then have "s' = s3"
        using r False by (auto simp: upload_events_round_def g Let_def s2_def[symmetric] p VerifyPostPublish_def
          split: option.splits)
      then show ?thesis
        using reaches_trans[OF r12 r3] by (intro exI[of _ "h2\<lparr>upl := s3\<rparr>"]) simp
    qed
  qed
qed

text \<open>A loop that returns is finitely many rounds.\<close>

lemma upload_events_loop_reaches:
  assumes "upload_events_loop env nErr s = Some y"
  shows "\<forall>h. upl h = s \<longrightarrow> upload_inv env h \<longrightarrow> fresh h \<longrightarrow> (\<exists>h'. reaches env h h' \<and> upl h' = snd y)"
proof (rule upload_events_loop.raw_induct[where P = "\<lambda>env nErr s y. \<forall>h. upl h = s \<longrightarrow> upload_inv env h \<longrightarrow>
    fresh h \<longrightarrow> (\<exists>h'. reaches env h h' \<and> upl h' = snd y)", OF _ assms])
  fix loop env nErr s y
  assume ih: "\<And>env nErr s y. loop env nErr s = Some y \<Longrightarrow>
      \<forall>h. upl h = s \<longrightarrow> upload_inv env h \<longrightarrow> fresh h \<longrightarrow> (\<exists>h'. reaches env h h' \<and> upl h' = snd y)"
    and body: "(case upload_events_round env nErr s of
        ((again, nErr'), s1) \<Rightarrow> if again then loop env nErr' s1 else Some (nErr', s1)) = Some y"
  show "\<forall>h. upl h = s \<longrightarrow> upload_inv env h \<longrightarrow> fresh h \<longrightarrow> (\<exists>h'. reaches env h h' \<and> upl h' = snd y)"
  proof (intro allI impI)
    fix h assume h: "upl h = s" "upload_inv env h" "fresh h"
    obtain again nErr' s1 where r: "upload_events_round env nErr s = ((again, nErr'), s1)"
      by (metis prod.collapse)
    obtain h1 where h1: "reaches env h h1" "upl h1 = s1"
      using upload_events_round_reaches[of env nErr h "(again, nErr')" s1] r h by blast
    have "upload_inv env h1" "fresh h1"
      using reaches_inv[OF h1(1) h(2)] h1(1) by (simp_all add: reaches_def)
    then have "again \<Longrightarrow> \<exists>h'. reaches env h1 h' \<and> upl h' = snd y"
      using ih[of env nErr' s1 y] body h1(2) by (simp add: r)
    moreover have "\<not> again \<Longrightarrow> snd y = s1"
      using body by (auto simp: r)
    ultimately show "\<exists>h'. reaches env h h' \<and> upl h' = snd y"
      using reaches_trans[OF h1(1)] h1 by (cases again) blast+
  qed
qed

lemma UploadEvents_reaches:
  assumes "UploadEvents env (upl h) = Some (e, s')" "upload_inv env h" "fresh h"
  shows "\<exists>h'. reaches env h h' \<and> upl h' = s'"
proof (cases "is_connected (upl h)")
  case True
  then have "upload_events_loop env (-1) (upl h) = Some (e, s')"
    using assms(1) by (simp add: UploadEvents_def)
  from upload_events_loop_reaches[OF this] show ?thesis
    using assms(2,3) by simp
next
  case False
  then show ?thesis
    using assms by (auto simp: UploadEvents_def intro: reaches_refl)
qed

section \<open>Events with a topic\<close>

text \<open>Every entry is a selection the thread holds.\<close>

definition held :: "topiced \<Rightarrow> history \<Rightarrow> bool" where
  "held es h = (\<forall>(i, topic, payload)\<in>set es. \<exists>rs. rs \<noteq> [] \<and> set [i] = col_id ` set rs \<and>
     (TABLE_EVENT_STORE, rs, payload) \<in> set (selected h))"

lemma held_reaches: "held es h \<Longrightarrow> reaches env h h' \<Longrightarrow> held es h'"
  unfolding held_def reaches_def by (fast dest: subsetD)

lemma reaches_select_topiced:
  assumes inv: "upload_inv env h" and f: "fresh h"
    and g: "GetTopicedStreamingEventsFromDB (upload_env.truncate env) TABLE_EVENT_STORE n 0 0 (upl h) = Some (results, s')"
  shows "\<exists>h'. reaches env h h' \<and> upl h' = s' \<and> held results h'"
proof -
  let ?x = "\<lambda>(i, topic, payload). (TABLE_EVENT_STORE, rows_of TABLE_EVENT_STORE [i] (upl h), payload)"
  define h' where "h' = h\<lparr>upl := s', selected := selected h @ map ?x results\<rparr>"
  have res: "lost_corrupted (upload_env.truncate env) TABLE_EVENT_STORE (upl h) s'"
    "topiced_ok (upload_env.truncate env) TABLE_EVENT_STORE (upl h) results"
    using GetTopicedStreamingEventsFromDB_result[OF g] by blast+
  have "db.more s' = db.more (upl h)"
    using res(1) by (simp add: lost_corrupted_def)
  then have "publish_script (upl h') = publish_script (upl h)" "sent_log h' = sent_log h"
    using db_more_uploader(1)[of s' "upl h"] by (simp_all add: h'_def)
  then have "fresh h'"
    by (rule fresh_same[OF f])
  then have "reaches env h h'"
    using reaches_step[OF upload_step.select_topiced[OF g]] by (simp add: h'_def)
  moreover have "held results h'"
    unfolding held_def
  proof (intro ballI, clarify)
    fix i topic payload assume x: "(i, topic, payload) \<in> set results"
    then obtain r where "r \<in> set (rows TABLE_EVENT_STORE (upl h))" "i = col_id r"
      using res(2) by (fastforce simp: topiced_ok_def)
    then have "rows_of TABLE_EVENT_STORE [i] (upl h) \<noteq> []"
      "set [i] = col_id ` set (rows_of TABLE_EVENT_STORE [i] (upl h))"
      by (auto simp: rows_of_def filter_empty_conv)
    moreover have "(TABLE_EVENT_STORE, rows_of TABLE_EVENT_STORE [i] (upl h), payload) \<in> set (selected h')"
      using image_eqI[OF _ x, of _ ?x] by (simp add: h'_def)
    ultimately show "\<exists>rs. rs \<noteq> [] \<and> set [i] = col_id ` set rs \<and>
        (TABLE_EVENT_STORE, rs, payload) \<in> set (selected h')"
      by blast
  qed
  ultimately show ?thesis
    by (intro exI[of _ h']) (simp add: h'_def)
qed

lemma UploadAllTopicedEvent_reaches:
  assumes "upload_inv env h" "fresh h" "held es h"
  shows "\<exists>h'. reaches env h h' \<and> upl h' = snd (UploadAllTopicedEvent env es nErr (upl h))"
  using assms
proof (induction es arbitrary: h nErr)
  case Nil
  then show ?case
    by (auto intro: reaches_refl)
next
  case (Cons x es)
  obtain i topic payload where x: "x = (i, topic, payload)" by (metis prod_cases3)
  obtain res s1 where p: "compress_and_publish env (OnTopic topic) payload (upl h) = (res, s1)" by fastforce
  have r1: "reaches env h (h\<lparr>upl := s1\<rparr>)"
    by (rule reaches_other[OF Cons.prems(2)]) (use compress_and_publish_frame[OF p] in simp_all)
  have held_tail: "held es h"
    using Cons.prems(3) by (simp add: held_def)
  consider (none) "res = None" | (error) e m where "res = Some (e, m)" "e \<noteq> 0" | (sent) m where "res = Some (0, m)"
    by (cases res) auto
  then show ?case
  proof cases
    case none
    have h1: "upload_inv env (h\<lparr>upl := s1\<rparr>)" "fresh (h\<lparr>upl := s1\<rparr>)" "held es (h\<lparr>upl := s1\<rparr>)"
      using reaches_inv[OF r1 Cons.prems(1)] r1 held_reaches[OF held_tail r1]
      by (simp_all add: reaches_def)
    then obtain h2 where "reaches env (h\<lparr>upl := s1\<rparr>) h2"
      "upl h2 = snd (UploadAllTopicedEvent env es nErr s1)"
      using Cons.IH[OF h1, of nErr] by auto
    then show ?thesis
      using reaches_trans[OF r1] by (intro exI[of _ h2]) (simp add: x p none)
  next
    case error
    then show ?thesis
      using r1 by (intro exI[of _ "h\<lparr>upl := s1\<rparr>"]) (simp add: x p)
  next
    case sent
    obtain rs where rs: "rs \<noteq> []" "set [i] = col_id ` set rs" "(TABLE_EVENT_STORE, rs, payload) \<in> set (selected h)"
      using Cons.prems(3) by (auto simp: held_def x)
    obtain b s2 where m: "mark_published TABLE_EVENT_STORE [i] m s1 = (b, s2)" by fastforce
    have "accepts env (OnTopic topic) payload (upl h) m s1"
      using p sent by (simp add: accepts_def)
    then obtain h2 where h2: "reaches env h h2" "upl h2 = s2"
      using reaches_publish[OF Cons.prems(2) rs(3,1,2) _ m] by blast
    show ?thesis
    proof (cases b)
      case True
      have "upload_inv env h2" "fresh h2" "held es h2"
        using reaches_inv[OF h2(1) Cons.prems(1)] h2(1) held_reaches[OF held_tail h2(1)]
        by (simp_all add: reaches_def)
      then obtain h3 where "reaches env h2 h3" "upl h3 = snd (UploadAllTopicedEvent env es 0 s2)"
        using Cons.IH[of h2 0] h2(2) by auto
      then show ?thesis
        using reaches_trans[OF h2(1)] True by (intro exI[of _ h3]) (simp add: x p sent m)
    next
      case False
      then show ?thesis
        using h2 by (intro exI[of _ h2]) (simp add: x p sent m)
    qed
  qed
qed

lemma upload_topiced_loop_reaches:
  assumes "upload_topiced_loop env nErr s = Some y"
  shows "\<forall>h. upl h = s \<longrightarrow> upload_inv env h \<longrightarrow> fresh h \<longrightarrow> (\<exists>h'. reaches env h h' \<and> upl h' = snd y)"
proof (rule upload_topiced_loop.raw_induct[where P = "\<lambda>env nErr s y. \<forall>h. upl h = s \<longrightarrow> upload_inv env h \<longrightarrow>
    fresh h \<longrightarrow> (\<exists>h'. reaches env h h' \<and> upl h' = snd y)", OF _ assms])
  fix loop env nErr s y
  assume ih: "\<And>env nErr s y. loop env nErr s = Some y \<Longrightarrow>
      \<forall>h. upl h = s \<longrightarrow> upload_inv env h \<longrightarrow> fresh h \<longrightarrow> (\<exists>h'. reaches env h h' \<and> upl h' = snd y)"
    and body: "(case GetTopicedStreamingEventsFromDB (upload_env.truncate env) TABLE_EVENT_STORE
             (int (m_unMaxEventUploadCnt s)) 0 0 s of
        None \<Rightarrow> None
      | Some (results, s1) \<Rightarrow>
          if results = [] then Some (nErr, s1)
          else case UploadAllTopicedEvent env (sort_key fst results) (-1) s1 of
            (nErr', s2) \<Rightarrow>
              if nErr' \<noteq> 0 then Some (nErr', s2)
              else if length results = m_unMaxEventUploadCnt s2 \<and> \<not> m_bShutdownRequested s2
              then loop env nErr' s2
              else Some (nErr', s2)) = Some y"
  show "\<forall>h. upl h = s \<longrightarrow> upload_inv env h \<longrightarrow> fresh h \<longrightarrow> (\<exists>h'. reaches env h h' \<and> upl h' = snd y)"
  proof (intro allI impI)
    fix h assume h: "upl h = s" "upload_inv env h" "fresh h"
    obtain results s1 where g: "GetTopicedStreamingEventsFromDB (upload_env.truncate env) TABLE_EVENT_STORE
        (int (m_unMaxEventUploadCnt s)) 0 0 s = Some (results, s1)"
      using body by (auto split: option.splits)
    obtain h1 where h1: "reaches env h h1" "upl h1 = s1" "held results h1"
      using reaches_select_topiced[OF h(2,3)] g h(1) by blast
    have i1: "upload_inv env h1" "fresh h1" "held (sort_key fst results) h1"
      using reaches_inv[OF h1(1) h(2)] h1(1,3) by (simp_all add: reaches_def held_def)
    obtain nErr' s2 where u: "UploadAllTopicedEvent env (sort_key fst results) (-1) s1 = (nErr', s2)" by fastforce
    obtain h2 where "reaches env h1 h2" and h2: "upl h2 = s2"
      using UploadAllTopicedEvent_reaches[OF i1, of "-1"] u h1(2) by auto
    then have r2: "reaches env h h2"
      using reaches_trans[OF h1(1)] by blast
    then have i2: "upload_inv env h2" "fresh h2"
      using reaches_inv[OF _ h(2)] by (simp_all add: reaches_def)
    define again where "again = (length results = m_unMaxEventUploadCnt s2 \<and> \<not> m_bShutdownRequested s2)"
    have "Some y = (if results = [] then Some (nErr, s1) else if nErr' \<noteq> 0 then Some (nErr', s2)
        else if again then loop env nErr' s2 else Some (nErr', s2))"
      using body unfolding again_def g option.case u prod.case by (rule sym)
    then consider "y = (nErr, s1)" | "y = (nErr', s2)" | "loop env nErr' s2 = Some y"
      by (metis option.inject)
    then show "\<exists>h'. reaches env h h' \<and> upl h' = snd y"
    proof cases
      case 3
      then show ?thesis
        using ih[of env nErr' s2 y] i2 h2 reaches_trans[OF r2] by blast
    qed (use h1 h2 r2 in auto)
  qed
qed

lemma UploadTopicedEvents_reaches:
  assumes "UploadTopicedEvents env (upl h) = Some (e, s')" "upload_inv env h" "fresh h"
  shows "\<exists>h'. reaches env h h' \<and> upl h' = s'"
proof (cases "is_connected (upl h)")
  case True
  then have "upload_topiced_loop env (-1) (upl h) = Some (e, s')"
    using assms(1) by (simp add: UploadTopicedEvents_def)
  from upload_topiced_loop_reaches[OF this] show ?thesis
    using assms(2,3) by simp
next
  case False
  then show ?thesis
    using assms by (auto simp: UploadTopicedEvents_def intro: reaches_refl)
qed

section \<open>A pass\<close>

lemma ProcessAlertUploads_reaches:
  assumes "upload_inv env h" "fresh h"
  shows "\<exists>h'. reaches env h h' \<and> upl h' = ProcessAlertUploads env (upl h)"
  unfolding ProcessAlertUploads_def by (rule alert_attempts_reaches[OF assms])

lemma TriggerEventUploads_reaches:
  assumes t: "TriggerEventUploads env (upl h) = Some s'" and inv: "upload_inv env h" and f: "fresh h"
  shows "\<exists>h'. reaches env h h' \<and> upl h' = s'"
proof -
  define s1 where "s1 = (upl h)\<lparr>m_bUploadRequested := False\<rparr>"
  define h1 where "h1 = h\<lparr>upl := s1\<rparr>"
  have r1: "reaches env h h1"
    unfolding h1_def by (rule reaches_other[OF f]) (simp_all add: s1_def mids.truncate_def)
  have i1: "upload_inv env h1" "fresh h1"
    using reaches_inv[OF r1 inv] r1 by (simp_all add: reaches_def)
  show ?thesis
  proof (cases "is_connected s1")
    case True
    then obtain e2 s2 e3 where u: "UploadTopicedEvents env s1 = Some (e2, s2)" "UploadEvents env s2 = Some (e3, s')"
      using t by (auto simp: TriggerEventUploads_def Let_def s1_def[symmetric] split: option.splits prod.splits if_splits)
    obtain h2 where h2: "reaches env h1 h2" "upl h2 = s2"
      using UploadTopicedEvents_reaches[of env h1 e2 s2] u(1) i1 by (auto simp: h1_def)
    have i2: "upload_inv env h2" "fresh h2"
      using reaches_inv[OF h2(1) i1(1)] h2(1) by (simp_all add: reaches_def)
    obtain h3 where "reaches env h2 h3" "upl h3 = s'"
      using UploadEvents_reaches[of env h2 e3 s'] u(2) i2 h2(2) by auto
    then show ?thesis
      using reaches_trans[OF r1] reaches_trans[OF h2(1)] by blast
  next
    case False
    then have "s' = ResetEventUploaderLogCounter s1"
      using t by (simp add: TriggerEventUploads_def Let_def s1_def)
    then have "reaches env h (h\<lparr>upl := s'\<rparr>)"
      by (intro reaches_other[OF f]) (simp_all add: s1_def ResetEventUploaderLogCounter_def mids.truncate_def)
    then show ?thesis
      by (intro exI[of _ "h\<lparr>upl := s'\<rparr>"]) simp
  qed
qed

end
