(* ===== verification/Upload_Properties.thy ===== *)
theory Upload_Properties
  imports Upload_Runs
begin

text \<open>The properties of the upload of events, with concrete cases.\<close>

section \<open>Concrete states\<close>

definition example_env :: uploader_env where
  "example_env = \<lparr>DecryptEventData = (\<lambda>x. x), json_parses = (\<lambda>x. x \<noteq> ''?''), batch_supported = False,
     stream_supported = True, device_id = ''d'', topic_prefix = ''p/'', gzip = (\<lambda>x. x), m_bCompression = False\<rparr>"

definition example_row :: "int \<Rightarrow> string \<Rightarrow> string option \<Rightarrow> row" where
  "example_row i e t = \<lparr>col_id = i, col_event_id = ''e'', col_timestamp = Some i, col_events = e, col_topic = t,
     col_mid = 0, col_stream = 1, col_batch = 0\<rparr>"

definition example_upl :: "row list \<Rightarrow> (int \<times> int) list \<Rightarrow> uploader" where
  "example_upl rs ps = \<lparr>event_store = rs, alert_store = [], db_script = [], m_setPublishedMidSet = {},
     m_mapMidDBTableMap = (\<lambda>_. None), m_queMidTobeDeleted = [], m_unMaxEventUploadCnt = 20,
     m_bShutdownRequested = False, m_bUploadSuspended = False, m_bUploadRequested = True, m_bAlertsAvailable = False,
     is_connected = True, publish_script = ps, gzip_script = [], published = [], disconnects = 0,
     m_nEvntUploadLogIterCount = -1, m_nEvntUploadSummaryIterCount = 20, m_unCurrEvntUploadCnt = 0,
     m_unCurrEvntUploadSummaryCnt = 0, m_unCurrUploadedEvntCnt = 0\<rparr>"

definition example_start :: "(int \<times> int) list \<Rightarrow> history" where
  "example_start ps = \<lparr>upl = example_upl [] ps, selected = [], sent_log = (\<lambda>_. None), acked = {}, unmarked = [],
     unannounced = [], used_ids = (\<lambda>_. {})\<rparr>"

text \<open>One event with identifier 1.\<close>

definition example_one :: "(int \<times> int) list \<Rightarrow> history" where
  "example_one ps = (example_start ps)\<lparr>upl := map_rows TABLE_EVENT_STORE (\<lambda>rs. rs @ [example_row 1 ''{}'' None])
     (upl (example_start ps)), used_ids := (\<lambda>_. {})(TABLE_EVENT_STORE := {1})\<rparr>"

lemma example_start_start: "start (example_start ps)"
  by (simp add: start_def example_start_def example_upl_def)

lemma example_one_reachable: "upload_reachable example_env (example_one ps)"
proof (rule upload_reachable.step[OF upload_reachable.init[OF example_start_start]])
  show "upload_step example_env (example_start ps) (example_one ps)"
    using upload_step.insert[of TABLE_EVENT_STORE "example_row 1 ''{}'' None" "example_start ps" example_env]
    by (simp add: event_tables_def example_one_def example_start_def example_row_def)
qed

lemma example_one_upl: "upl (example_one ps) = example_upl [example_row 1 ''{}'' None] ps"
  by (simp add: example_one_def example_start_def example_upl_def map_rows_def)

section \<open>Nothing is lost\<close>



text \<open>C14: every reachable state is well-formed: row identifiers are unique in their table and
  never reused, every marked row was sent under its identifier of a message, and the handler
  only holds and deletes identifiers that were acknowledged.\<close>

theorem upload_state_well_formed:
  assumes "upload_reachable env h" "t \<in> event_tables"
  shows "distinct (map col_id (rows t (upl h))) \<and> col_id ` set (rows t (upl h)) \<subseteq> used_ids h t \<and>
    (\<forall>r\<in>set (rows t (upl h)). col_mid r \<noteq> 0 \<longrightarrow>
      (\<exists>rs payload. sent_log h (col_mid r) = Some (t, rs, payload) \<and> col_id r \<in> col_id ` set rs)) \<and>
    m_setPublishedMidSet (upl h) \<subseteq> acked h \<and> set (m_queMidTobeDeleted (upl h)) \<subseteq> acked h \<times> UNIV"
  using upload_reachable_inv[OF assms(1)]
  by (simp add: upload_inv_def ids_ok_def marks_ok_def published_as_def acks_ok_def mid_handler.tracked_def)

lemma upload_state_well_formed_witness:
  "distinct (map col_id (rows TABLE_EVENT_STORE (upl (example_one [(0, 7)]))))"
  using upload_state_well_formed[OF example_one_reachable[of "[(0, 7)]"], of TABLE_EVENT_STORE]
  by (simp add: event_tables_def)

text \<open>C10: the passes of the uploader over alerts and events, with all their loops, error exits
  and retries, are such runs, as long as the client hands out new identifiers.\<close>

theorem passes_are_runs:
  assumes "upload_reachable env h" "fresh h"
  shows "(\<exists>h'. upload_steps env h h' \<and> upl h' = ProcessAlertUploads env (upl h)) \<and>
    (TriggerEventUploads env (upl h) = Some s' \<longrightarrow> (\<exists>h'. upload_steps env h h' \<and> upl h' = s'))"
proof -
  note inv = upload_reachable_inv[OF assms(1)]
  have "\<exists>h'. upload_steps env h h' \<and> upl h' = ProcessAlertUploads env (upl h)"
    using ProcessAlertUploads_reaches[OF inv assms(2)] by (auto simp: reaches_def)
  moreover have "\<exists>h'. upload_steps env h h' \<and> upl h' = s'" if "TriggerEventUploads env (upl h) = Some s'"
    using TriggerEventUploads_reaches[OF that inv assms(2)] by (auto simp: reaches_def)
  ultimately show ?thesis by blast
qed

lemma passes_are_runs_witness:
  "\<exists>h'. upload_steps example_env (example_one [(0, 7)]) h' \<and>
    upl h' = ProcessAlertUploads example_env (upl (example_one [(0, 7)]))"
proof -
  have "fresh (example_one [(0, 7)])"
    by (simp add: fresh_def next_mids_def example_one_upl example_upl_def)
      (simp add: example_one_def example_start_def)
  then show ?thesis
    using passes_are_runs[OF example_one_reachable] by blast
qed

section \<open>The selection\<close>

text \<open>C24: \<open>GetStreamingEventsFromDB\<close> returns identifiers of intact rows of the selection, at most
  as many as asked for, the payload is the JSON array of exactly their decrypted events, and the
  table loses nothing but rows with the identifier of a corrupted row.\<close>

theorem streaming_selection:
  assumes "GetStreamingEventsFromDB env t n llStart llEnd llAfterId llBeforeId s = (ids, payload, s')"
  shows "\<exists>rs. ids = map col_id rs \<and> (0 < n \<longrightarrow> int (length rs) \<le> n) \<and>
      (\<forall>r\<in>set rs. r \<in> set (rows t s) \<and> GetSelectionForStreamingEvents t llStart llEnd llAfterId llBeforeId r \<and>
         \<not> corrupted env r) \<and>
      payload = json_array (map (\<lambda>r. DecryptEventData env (col_events r)) rs) \<and>
      (\<exists>X \<subseteq> bad_ids env t s. rows t s' = filter (\<lambda>r. col_id r \<notin> X) (rows t s)) \<and>
      (\<forall>u. u \<noteq> t \<longrightarrow> rows u s' = rows u s)"
  using GetStreamingEventsFromDB_result[OF assms] unfolding taken_rows_def lost_corrupted_def by blast

text \<open>An intact event and one that does not parse: the first is taken, the second removed.\<close>

lemma example_selection:
  "GetStreamingEventsFromDB (upload_env.truncate example_env) TABLE_EVENT_STORE 20 0 0 (-1) (-1)
     (example_upl [example_row 1 ''{}'' None, example_row 2 ''?'' None] []) =
   ([1], ''[{}]'', example_upl [example_row 1 ''{}'' None] [])"
  by (simp add: GetStreamingEventsFromDB_def streaming_loop.simps db_Query_def db_exec_def example_upl_def rows_def
    example_row_def GetSelectionForStreamingEvents_def time_key_def corrupted_def example_env_def
    upload_env.truncate_def ValidateCorruptedEventIds_def DeleteCorruptedEvents_def db_Remove_def map_rows_def
    UpdateFinalResultJsonStr_def)

lemma streaming_selection_witness:
  "\<exists>rs :: row list. [1] = map col_id rs \<and>
     ''[{}]'' = json_array (map (\<lambda>r. DecryptEventData example_env (col_events r)) rs)"
  using streaming_selection[OF example_selection] unfolding truncate_env
  by (elim exE conjE, intro exI conjI) assumption+

text \<open>C26: while no statement fails, an intact row of the selection is never hidden by corrupted
  ones, however many there are: \<open>GetStreamingEventsFromDB\<close> does not come back empty.\<close>

theorem intact_event_is_selected:
  assumes "db_script s = []" "r \<in> set (rows t s)" "distinct (map col_id (rows t s))"
    and "GetSelectionForStreamingEvents t llStart llEnd llAfterId llBeforeId r" "\<not> corrupted env r"
  shows "fst (GetStreamingEventsFromDB env t n llStart llEnd llAfterId llBeforeId s) \<noteq> []"
proof -
  have "fst (streaming_loop env t (GetSelectionForStreamingEvents t llStart llEnd llAfterId llBeforeId) n ([], s)) \<noteq> []"
    by (rule streaming_loop_finds[of _ r]) (use assms in simp_all)
  then show ?thesis
    by (auto simp: GetStreamingEventsFromDB_def split: prod.splits)
qed

lemma intact_event_is_selected_witness:
  "fst (GetStreamingEventsFromDB (upload_env.truncate example_env) TABLE_EVENT_STORE 1 0 0 (-1) (-1)
     (example_upl [example_row 1 ''?'' None, example_row 2 ''{}'' None] [])) \<noteq> []"
  by (rule intact_event_is_selected[of _ "example_row 2 ''{}'' None"])
    (simp_all add: example_upl_def rows_def example_row_def GetSelectionForStreamingEvents_def corrupted_def
      example_env_def upload_env.truncate_def)

section \<open>Termination\<close>

text \<open>C37: the pass over the events never returns when the client is connected and the waiting
  events with a topic are intact but none of their topics contains \<open>2c/\<close>: the same query is
  repeated for ever.\<close>

theorem topics_without_2c_hang:
  assumes "is_connected s" "device_id env \<noteq> ''''" "db_script s = []"
    and "\<exists>r\<in>set (rows TABLE_EVENT_STORE s). topiced_selection 0 0 r"
    and "\<forall>r\<in>set (rows TABLE_EVENT_STORE s). topiced_selection 0 0 r \<longrightarrow>
      \<not> corrupted (upload_env.truncate env) r \<and> from_2c (the (col_topic r)) = None"
  shows "TriggerEventUploads env s = None"
proof -
  define s1 where "s1 = s\<lparr>m_bUploadRequested := False\<rparr>"
  have s1: "db_script s1 = []" "rows t s1 = rows t s" "is_connected s1" for t
    using assms(1,3) by (simp_all add: s1_def rows_def)
  let ?n = "int (m_unMaxEventUploadCnt s1)"
  obtain r where r: "r \<in> set (rows TABLE_EVENT_STORE s1)" "topiced_selection 0 0 r"
    using assms(4) s1(2) by auto
  obtain x xs where q: "db_Query TABLE_EVENT_STORE (\<lambda>r. topiced_selection 0 0 r \<and> col_id r \<notin> set []) ?n s1 = (Some (x # xs), s1)"
    using db_Query_ok[OF s1(1) r(1), of "\<lambda>r. topiced_selection 0 0 r \<and> col_id r \<notin> set []"] r(2) by auto
  have "\<forall>x\<in>set (x # xs). \<not> corrupted (upload_env.truncate env) x \<and> from_2c (the (col_topic x)) = None"
    using db_Query_result(3)[OF q] assms(5) s1(2) by auto
  then have "topiced_loop (upload_env.truncate env) TABLE_EVENT_STORE (topiced_selection 0 0) ?n ([], s1) = None"
    by (rule topiced_loop_diverges[OF q]) simp
  then have "GetTopicedStreamingEventsFromDB (upload_env.truncate env) TABLE_EVENT_STORE ?n 0 0 s1 = None"
    using assms(2) by (simp add: GetTopicedStreamingEventsFromDB_def)
  then have "UploadTopicedEvents env s1 = None"
    using s1(3) by (simp add: UploadTopicedEvents_def upload_topiced_loop.simps)
  then show ?thesis
    using s1(3) by (simp add: TriggerEventUploads_def s1_def)
qed

lemma topics_without_2c_hang_witness:
  "TriggerEventUploads example_env (example_upl [example_row 1 ''{}'' (Some ''alerts'')] [(0, 7)]) = None"
  by (rule topics_without_2c_hang)
    (simp_all add: example_upl_def rows_def example_row_def topiced_selection_def corrupted_def example_env_def
      upload_env.truncate_def)

text \<open>C38: otherwise it returns: when every waiting event with a topic has one with \<open>2c/\<close>, the
  selection of events with a topic returns, whatever is corrupted and whichever statements fail.\<close>

theorem topiced_selection_returns:
  assumes "\<forall>r\<in>set (rows t s). topiced_selection llStart llEnd r \<longrightarrow> from_2c (the (col_topic r)) \<noteq> None"
  shows "\<exists>y. GetTopicedStreamingEventsFromDB env t n llStart llEnd s = Some y"
proof (cases "device_id env = ''''")
  case False
  obtain results corrupt s1 where "topiced_loop env t (topiced_selection llStart llEnd) n ([], s) = Some (results, corrupt, s1)"
    using topiced_loop_returns[of t "([], s)" "topiced_selection llStart llEnd" env n] assms
    by (metis prod_cases3 snd_conv)
  then show ?thesis
    using False by (simp add: GetTopicedStreamingEventsFromDB_def)
qed (simp add: GetTopicedStreamingEventsFromDB_def)

lemma topiced_selection_returns_witness:
  "\<exists>y. GetTopicedStreamingEventsFromDB (upload_env.truncate example_env) TABLE_EVENT_STORE 20 0 0
     (example_upl [example_row 1 ''{}'' (Some ''x/2c/y''), example_row 2 ''?'' (Some ''2c/z'')] []) = Some y"
  by (rule topiced_selection_returns) (simp add: example_upl_def rows_def example_row_def)

text \<open>The loop over the other events returns for every count that \<open>InitEventsUploadCnt\<close> can
  set: each further round has used up an answer of the client below or of the compression.\<close>

lemma upload_events_returns:
  "\<exists>y. UploadEvents env (InitEventsUploadCnt nConfigured s) = Some y"
  by (rule UploadEvents_returns) (simp add: InitEventsUploadCnt_def)

section \<open>The handler of identifiers\<close>

text \<open>C25: announcements and acknowledgements may come in any order; when no identifier is used
  twice, the queue of deletions grows by exactly the pairs that were both announced and
  acknowledged.\<close>

theorem deletions_are_rendezvous:
  assumes "m_setPublishedMidSet s = {}" "m_mapMidDBTableMap s = (\<lambda>_. None)" "mids_once ops"
  shows "set (m_queMidTobeDeleted (fold mid_step ops s)) = set (m_queMidTobeDeleted s) \<union>
    {(m, t). Announce m t \<in> set ops \<and> Acknowledge m \<in> set ops}"
  using mid_run_due[of "[]" s ops] due_set[of "[]" ops] assms by (auto simp: knows_Nil)

lemma deletions_are_rendezvous_witness:
  "set (m_queMidTobeDeleted (fold mid_step [Acknowledge 5, Announce 4 ''A'', Announce 5 ''B'', Acknowledge 4, Announce 6 ''A'']
     (example_upl [] []))) = {(4, ''A''), (5, ''B'')}"
  by (subst deletions_are_rendezvous) (auto simp: mids_once_def example_upl_def)



end
