(* ===== verification/Event_Queue.thy ===== *)
theory Event_Queue
  imports Outcome
begin

text \<open>
  The queues between the threads of the event pipeline: \<open>CConcurrentQueue\<close> (libUtils/include/
  CConcurrentQueue.h) as it is compiled without \<open>SHORT_POINTER\<close> and \<open>CPP11_SUPPORT\<close>, a
  \<open>std::queue\<close> behind a mutex. Each operation holds the mutex once and is one step. \<open>Put\<close>
  only tries the mutex: how often it finds it taken is an argument, chosen by the environment.

  The locale \<open>event_fifo\<close> says what the threads rely on when they drain a queue.
\<close>

section \<open>The queue\<close>

record 'd cqueue =
  m_queueQ :: "('d \<times> uint32) list"
  m_unSize :: uint32

definition new_cqueue :: "'d cqueue" where
  "new_cqueue = \<lparr>m_queueQ = [], m_unSize = 0\<rparr>"

definition MAX_LOCK_RETRIES :: nat where
  "MAX_LOCK_RETRIES = 10"

text \<open>\<open>while (TryLock()) { if (++nRetries >= MAX_LOCK_RETRIES) return false; usleep(100); }\<close>\<close>

fun lock_loop :: "nat \<Rightarrow> nat \<Rightarrow> bool" where
  "lock_loop 0 nRetries = True"
| "lock_loop (Suc busy) nRetries =
     (if Suc nRetries \<ge> MAX_LOCK_RETRIES then False else lock_loop busy (Suc nRetries))"

definition Put :: "nat \<Rightarrow> 'd \<Rightarrow> uint32 \<Rightarrow> 'd cqueue \<Rightarrow> bool \<times> 'd cqueue" where
  "Put busy data unDataSize q =
     (if lock_loop busy 0
      then (True, q\<lparr>m_queueQ := m_queueQ q @ [(data, unDataSize)], m_unSize := m_unSize q + unDataSize\<rparr>)
      else (False, q))"

definition Take :: "'d cqueue \<Rightarrow> 'd option \<times> 'd cqueue" where
  "Take q = (case m_queueQ q of
      [] \<Rightarrow> (None, q)
    | (d, n) # rest \<Rightarrow> (Some d, q\<lparr>m_queueQ := rest, m_unSize := m_unSize q - n\<rparr>))"

definition Size :: "'d cqueue \<Rightarrow> uint32" where
  "Size q = m_unSize q"

lemma lock_loop_iff: "lock_loop busy n = (busy = 0 \<or> busy + n < MAX_LOCK_RETRIES)"
  by (induction busy n rule: lock_loop.induct) (auto simp: MAX_LOCK_RETRIES_def)

text \<open>\<open>Size\<close> is the sum of the sizes of what waits.\<close>

definition size_ok :: "'d cqueue \<Rightarrow> bool" where
  "size_ok q = (m_unSize q = sum_list (map snd (m_queueQ q)))"

lemma new_cqueue_ok [simp]: "size_ok new_cqueue"
  by (simp add: size_ok_def new_cqueue_def)

lemma Put_size_ok: "size_ok q \<Longrightarrow> size_ok (snd (Put busy d n q))"
  by (simp add: size_ok_def Put_def)

lemma Take_size_ok: "size_ok q \<Longrightarrow> size_ok (snd (Take q))"
  by (auto simp: size_ok_def Take_def split: list.splits)

section \<open>Histories of a queue\<close>

datatype 'd qop = QPut nat 'd uint32 | QTake

text \<open>What was accepted and what was taken, in order.\<close>

fun run_queue :: "'d qop list \<Rightarrow> 'd cqueue \<Rightarrow> 'd list \<times> 'd list \<times> 'd cqueue" where
  "run_queue [] q = ([], [], q)"
| "run_queue (QPut busy d n # ops) q =
     (case Put busy d n q of (ok, q1) \<Rightarrow>
        case run_queue ops q1 of (ins, outs, q2) \<Rightarrow> ((if ok then d # ins else ins), outs, q2))"
| "run_queue (QTake # ops) q =
     (case Take q of (x, q1) \<Rightarrow>
        case run_queue ops q1 of (ins, outs, q2) \<Rightarrow>
          (ins, (case x of None \<Rightarrow> outs | Some d \<Rightarrow> d # outs), q2))"

lemma run_queue_fifo:
  "run_queue ops q = (ins, outs, q') \<Longrightarrow> map fst (m_queueQ q) @ ins = outs @ map fst (m_queueQ q')"
proof (induction ops q arbitrary: ins outs q' rule: run_queue.induct)
  case (3 ops q)
  then show ?case
    by (cases "m_queueQ q") (auto simp: Take_def split: prod.splits)
qed (fastforce simp: Put_def split: prod.splits if_splits)+

lemma run_queue_size_ok: "run_queue ops q = (ins, outs, q') \<Longrightarrow> size_ok q \<Longrightarrow> size_ok q'"
proof (induction ops q arbitrary: ins outs q' rule: run_queue.induct)
  case (2 busy d n ops q)
  then show ?case using Put_size_ok[of q busy d n] by (auto split: prod.splits)
next
  case (3 ops q)
  then show ?case using Take_size_ok[of q] by (auto split: prod.splits)
qed simp

section \<open>Draining a queue that is part of a state\<close>

text \<open>\<open>while (queue.Take(&x)) step(x);\<close> in at most \<open>n\<close> rounds.\<close>

fun drain :: "('s, 'd option) cmd \<Rightarrow> ('d \<Rightarrow> ('s, unit) cmd) \<Rightarrow> nat \<Rightarrow> ('s, unit) cmd" where
  "drain takeq step 0 = ret ()"
| "drain takeq step (Suc n) = then_do takeq (\<lambda>r. case r of
      None \<Rightarrow> ret ()
    | Some x \<Rightarrow> then_do (step x) (\<lambda>_. drain takeq step n))"

locale event_fifo =
  fixes takeq :: "('s, 'd option) cmd"
    and waiting :: "'s \<Rightarrow> 'd list"
    and rest :: "'s \<Rightarrow> 'r"
  assumes take_none: "waiting s = [] \<Longrightarrow> takeq s = (Ok None, s)"
    and take_some: "waiting s = x # xs \<Longrightarrow>
      succeeds takeq s (\<lambda>r s'. r = Some x \<and> waiting s' = xs \<and> rest s' = rest s)"
begin

text \<open>A step that leaves the queue alone lets the loop handle everything that waits, in order.\<close>

lemma drain_all:
  assumes step: "\<And>x pre s. I pre s \<Longrightarrow> good x \<Longrightarrow>
      succeeds (step x) s (\<lambda>_ s'. I (pre @ [x]) s' \<and> waiting s' = waiting s)"
    and I_rest: "\<And>pre s s'. rest s' = rest s \<Longrightarrow> I pre s \<Longrightarrow> I pre s'"
    and init: "I pre s" and n: "length (waiting s) < n" and good: "\<forall>x\<in>set (waiting s). good x"
  shows "succeeds (drain takeq step n) s (\<lambda>_ s'. I (pre @ waiting s) s' \<and> waiting s' = [])"
  using init n good
proof (induction n arbitrary: pre s)
  case (Suc n)
  show ?case
  proof (cases "waiting s")
    case Nil
    then show ?thesis
      using Suc.prems(1) by (simp add: succeeds_def then_do_def take_none cmd_run)
  next
    case (Cons x xs)
    have "succeeds takeq s (\<lambda>r s'. succeeds (case r of None \<Rightarrow> ret ()
        | Some x \<Rightarrow> then_do (step x) (\<lambda>_. drain takeq step n)) s'
          (\<lambda>_ s'. I (pre @ waiting s) s' \<and> waiting s' = []))"
    proof (rule succeeds_mono[OF take_some[OF Cons]])
      fix r s1 assume 1: "r = Some x \<and> waiting s1 = xs \<and> rest s1 = rest s"
      then have "I pre s1"
        using I_rest Suc.prems(1) by blast
      then have "succeeds (step x) s1 (\<lambda>_ s2. I (pre @ [x]) s2 \<and> waiting s2 = xs)"
        using step[of pre s1 x] 1 Suc.prems(3) Cons by simp
      then have "succeeds (step x) s1 (\<lambda>_ s2. succeeds (drain takeq step n) s2
          (\<lambda>_ s'. I (pre @ waiting s) s' \<and> waiting s' = []))"
      proof (rule succeeds_mono)
        fix s2 :: 's assume "I (pre @ [x]) s2 \<and> waiting s2 = xs"
        then show "succeeds (drain takeq step n) s2 (\<lambda>_ s'. I (pre @ waiting s) s' \<and> waiting s' = [])"
          using Suc.IH[of "pre @ [x]" s2] Suc.prems(2,3) Cons by simp
      qed
      then show "succeeds (case r of None \<Rightarrow> ret ()
          | Some x \<Rightarrow> then_do (step x) (\<lambda>_. drain takeq step n)) s1
            (\<lambda>_ s'. I (pre @ waiting s) s' \<and> waiting s' = [])"
        using 1 by (simp add: succeeds_then_do)
    qed
    then show ?thesis
      by (simp add: succeeds_then_do)
  qed
qed simp

end

end
