(* ===== verification/Json.thy ===== *)
theory Json
  imports Complex_Main Activation
begin

text \<open>
  JSON as the client's copy of jsoncpp has it (libUtils/src/jsoncpp.cpp): the values and their
  conversions, \<open>FastWriter\<close>, which makes the text of a value, and \<open>Reader\<close>, which reads one.

  A number is one constructor, because a whole \<open>double\<close> below 1e17 is written like an integer and
  read back as one; a \<open>double\<close> is its rational value. How the C++ library prints a \<open>double\<close> with 17
  digits and reads one is a parameter. An object is the list of its members in the order of their
  keys, as its \<open>std::map\<close> keeps them. Where jsoncpp throws, the result is \<open>None\<close>. Comments are
  skipped: the reader attaches them to values, but nothing here looks at them.
\<close>

section \<open>Values\<close>

datatype json =
    JNull
  | JBool bool
  | JNum rat
  | JStr string
  | JArr "json list"
  | JObj "(string \<times> json) list"

record json_lib =
  real_string :: "rat \<Rightarrow> string"
  read_real :: "string \<Rightarrow> rat option"
  bBenchMode :: bool

text \<open>A conversion of a \<open>double\<close> to an integer type drops the fraction.\<close>

definition cast_double :: "rat \<Rightarrow> int" where
  "cast_double r = (if r < 0 then \<lceil>r\<rceil> else \<lfloor>r\<rfloor>)"

text \<open>Whole numbers of the range of \<open>Int64\<close> or \<open>UInt64\<close> are written as integers.\<close>

definition is_integer :: "rat \<Rightarrow> bool" where
  "is_integer r = (r = of_int \<lfloor>r\<rfloor> \<and> - 9223372036854775808 \<le> \<lfloor>r\<rfloor> \<and> \<lfloor>r\<rfloor> \<le> 18446744073709551615)"

definition number_text :: "'a json_lib_scheme \<Rightarrow> rat \<Rightarrow> string" where
  "number_text L r = (if is_integer r then NumberToString \<lfloor>r\<rfloor> else real_string L r)"

fun asString :: "'a json_lib_scheme \<Rightarrow> json \<Rightarrow> string option" where
  "asString L JNull = Some ''''"
| "asString L (JStr s) = Some s"
| "asString L (JBool b) = Some (if b then ''true'' else ''false'')"
| "asString L (JNum r) = Some (number_text L r)"
| "asString L _ = None"

fun asInt :: "json \<Rightarrow> int option" where
  "asInt JNull = Some 0"
| "asInt (JBool b) = Some (if b then 1 else 0)"
| "asInt (JNum r) = (if -2147483648 \<le> r \<and> r \<le> 2147483647 then Some (cast_double r) else None)"
| "asInt _ = None"

fun asUInt64 :: "json \<Rightarrow> int option" where
  "asUInt64 JNull = Some 0"
| "asUInt64 (JBool b) = Some (if b then 1 else 0)"
| "asUInt64 (JNum r) = (if 0 \<le> r \<and> r \<le> 18446744073709551615 then Some (cast_double r) else None)"
| "asUInt64 _ = None"

fun asDouble :: "json \<Rightarrow> rat option" where
  "asDouble JNull = Some 0"
| "asDouble (JBool b) = Some (if b then 1 else 0)"
| "asDouble (JNum r) = Some r"
| "asDouble _ = None"

fun isInt :: "json \<Rightarrow> bool" where
  "isInt (JNum r) = (-2147483648 \<le> r \<and> r \<le> 2147483647 \<and> r = of_int \<lfloor>r\<rfloor>)"
| "isInt _ = False"

text \<open>Keys are compared byte by byte.\<close>

fun key_less :: "string \<Rightarrow> string \<Rightarrow> bool" where
  "key_less [] [] = False"
| "key_less [] (y # ys) = True"
| "key_less (x # xs) [] = False"
| "key_less (x # xs) (y # ys) =
     ((of_char x :: nat) < of_char y \<or> x = y \<and> key_less xs ys)"

fun obj_put :: "string \<Rightarrow> json \<Rightarrow> (string \<times> json) list \<Rightarrow> (string \<times> json) list" where
  "obj_put k v [] = [(k, v)]"
| "obj_put k v ((a, b) # m) =
     (if k = a then (k, v) # m else if key_less k a then (k, v) # (a, b) # m
      else (a, b) # obj_put k v m)"

lemma map_of_obj_put [simp]: "map_of (obj_put k v m) = (map_of m)(k \<mapsto> v)"
  by (induction k v m rule: obj_put.induct) auto

text \<open>\<open>value[key]\<close>, reading and writing, and \<open>isMember\<close>: only of objects and null.\<close>

fun json_at :: "json \<Rightarrow> string \<Rightarrow> json option" where
  "json_at JNull k = Some JNull"
| "json_at (JObj m) k = Some (case map_of m k of None \<Rightarrow> JNull | Some v \<Rightarrow> v)"
| "json_at _ k = None"

fun json_put :: "string \<Rightarrow> json \<Rightarrow> json \<Rightarrow> json option" where
  "json_put k v JNull = Some (JObj [(k, v)])"
| "json_put k v (JObj m) = Some (JObj (obj_put k v m))"
| "json_put k v _ = None"

fun isMember :: "json \<Rightarrow> string \<Rightarrow> bool option" where
  "isMember JNull k = Some False"
| "isMember (JObj m) k = Some (map_of m k \<noteq> None)"
| "isMember _ k = None"

fun json_empty :: "json \<Rightarrow> bool" where
  "json_empty JNull = True"
| "json_empty (JArr xs) = (xs = [])"
| "json_empty (JObj m) = (m = [])"
| "json_empty _ = False"

section \<open>FastWriter\<close>

definition hex_digit :: "nat \<Rightarrow> char" where
  "hex_digit n = (if n < 10 then char_of (48 + n) else char_of (55 + n))"

definition isControlCharacter :: "char \<Rightarrow> bool" where
  "isControlCharacter c = (0 < (of_char c :: nat) \<and> (of_char c :: nat) \<le> 0x1F)"

definition has_short_escape :: "char \<Rightarrow> bool" where
  "has_short_escape c = (c \<in> {CHR 0x22, CHR 0x5C, CHR 0x08, CHR 0x0C, CHR 0x0A, CHR 0x0D, CHR 0x09})"

definition escape_char :: "char \<Rightarrow> string" where
  "escape_char c =
     (if c = CHR 0x22 then [CHR 0x5C, CHR 0x22]
      else if c = CHR 0x5C then [CHR 0x5C, CHR 0x5C]
      else if c = CHR 0x08 then [CHR 0x5C, CHR ''b'']
      else if c = CHR 0x0C then [CHR 0x5C, CHR ''f'']
      else if c = CHR 0x0A then [CHR 0x5C, CHR ''n'']
      else if c = CHR 0x0D then [CHR 0x5C, CHR ''r'']
      else if c = CHR 0x09 then [CHR 0x5C, CHR ''t'']
      else if isControlCharacter c \<or> c = CHR 0x00
        then [CHR 0x5C, CHR ''u'', CHR ''0'', CHR ''0'', hex_digit (of_char c div 16), hex_digit (of_char c mod 16)]
      else [c])"

definition valueToQuotedStringN :: "string \<Rightarrow> string" where
  "valueToQuotedStringN s =
     (if \<not> list_ex has_short_escape s \<and> \<not> list_ex (\<lambda>c. isControlCharacter c \<or> c = CHR 0x00) s
      then [CHR 0x22] @ s @ [CHR 0x22]
      else [CHR 0x22] @ concat (map escape_char s) @ [CHR 0x22])"

fun comma_separated :: "string list \<Rightarrow> string" where
  "comma_separated [] = []"
| "comma_separated [x] = x"
| "comma_separated (x # y # xs) = x @ CHR '','' # comma_separated (y # xs)"

fun writeValue :: "'a json_lib_scheme \<Rightarrow> json \<Rightarrow> string" where
  "writeValue L JNull = ''null''"
| "writeValue L (JNum r) = number_text L r"
| "writeValue L (JStr s) = valueToQuotedStringN s"
| "writeValue L (JBool b) = (if b then ''true'' else ''false'')"
| "writeValue L (JArr js) = [CHR ''[''] @ comma_separated (map (writeValue L) js) @ [CHR '']'']"
| "writeValue L (JObj m) =
     [CHR ''{''] @ comma_separated (map (\<lambda>(k, v). valueToQuotedStringN k @ [CHR '':''] @ writeValue L v) m) @ [CHR ''}'']"

definition FastWriter_write :: "'a json_lib_scheme \<Rightarrow> json \<Rightarrow> string" where
  "FastWriter_write L j = writeValue L j @ [CHR 0x0A]"

section \<open>Tokens\<close>

text \<open>The reader is at the start of the text that remains; reading past its end gives 0.\<close>

datatype token_type =
    tokenEndOfStream | tokenObjectBegin | tokenObjectEnd | tokenArrayBegin | tokenArrayEnd
  | tokenString | tokenNumber | tokenTrue | tokenFalse | tokenNull
  | tokenArraySeparator | tokenMemberSeparator | tokenComment | tokenError

definition skipSpaces :: "string \<Rightarrow> string" where
  "skipSpaces = dropWhile (\<lambda>c. c \<in> {CHR '' '', CHR 0x09, CHR 0x0D, CHR 0x0A})"

definition match_text :: "string \<Rightarrow> string \<Rightarrow> bool \<times> string" where
  "match_text pattern s =
     (if take (length pattern) s = pattern then (True, drop (length pattern) s) else (False, s))"

fun readCStyleComment :: "string \<Rightarrow> bool \<times> string" where
  "readCStyleComment [] = (False, [])"
| "readCStyleComment [c] = (False, [])"
| "readCStyleComment (c # d # cs) =
     (if c = CHR ''*'' \<and> d = CHR ''/'' then (True, cs) else readCStyleComment (d # cs))"

fun readCppStyleComment :: "string \<Rightarrow> string" where
  "readCppStyleComment [] = []"
| "readCppStyleComment (c # cs) =
     (if c = CHR 0x0A then cs
      else if c = CHR 0x0D then (if cs \<noteq> [] \<and> hd cs = CHR 0x0A then tl cs else cs)
      else readCppStyleComment cs)"

definition readComment :: "string \<Rightarrow> bool \<times> string" where
  "readComment s = (case s of [] \<Rightarrow> (False, [])
    | c # cs \<Rightarrow> (if c = CHR ''*'' then readCStyleComment cs
        else if c = CHR ''/'' then (True, readCppStyleComment cs) else (False, cs)))"

definition readNumber :: "string \<Rightarrow> string" where
  "readNumber s =
     (let s1 = dropWhile is_digit s;
          s2 = (if s1 \<noteq> [] \<and> hd s1 = CHR ''.'' then dropWhile is_digit (tl s1) else s1) in
      if s2 \<noteq> [] \<and> (hd s2 = CHR ''e'' \<or> hd s2 = CHR ''E'')
      then (let s3 = tl s2 in
        dropWhile is_digit (if s3 \<noteq> [] \<and> (hd s3 = CHR ''+'' \<or> hd s3 = CHR ''-'') then tl s3 else s3))
      else s2)"

text \<open>\<open>readString\<close>: whether the text ends with a quote that is not escaped.\<close>

fun readString :: "string \<Rightarrow> bool \<times> string" where
  "readString [] = (False, [])"
| "readString (c # cs) =
     (if c = CHR 0x5C then (case cs of [] \<Rightarrow> (False, []) | _ # ds \<Rightarrow> readString ds)
      else if c = CHR 0x22 then (True, cs) else readString cs)"

definition token_or_error :: "token_type \<Rightarrow> bool \<times> string \<Rightarrow> token_type \<times> string" where
  "token_or_error t x = (if fst x then t else tokenError, snd x)"

text \<open>The type of the next token, its text, and what remains.\<close>

definition token_rest :: "char \<Rightarrow> string \<Rightarrow> token_type \<times> string" where
  "token_rest c cs =
     (if c = CHR ''{'' then (tokenObjectBegin, cs)
      else if c = CHR ''}'' then (tokenObjectEnd, cs)
      else if c = CHR ''['' then (tokenArrayBegin, cs)
      else if c = CHR '']'' then (tokenArrayEnd, cs)
      else if c = CHR 0x22 then token_or_error tokenString (readString cs)
      else if c = CHR ''/'' then token_or_error tokenComment (readComment cs)
      else if is_digit c \<or> c = CHR ''-'' then (tokenNumber, readNumber cs)
      else if c = CHR ''t'' then token_or_error tokenTrue (match_text ''rue'' cs)
      else if c = CHR ''f'' then token_or_error tokenFalse (match_text ''alse'' cs)
      else if c = CHR ''n'' then token_or_error tokenNull (match_text ''ull'' cs)
      else if c = CHR '','' then (tokenArraySeparator, cs)
      else if c = CHR '':'' then (tokenMemberSeparator, cs)
      else if c = CHR 0x00 then (tokenEndOfStream, cs)
      else (tokenError, cs))"

definition readToken :: "string \<Rightarrow> token_type \<times> string \<times> string" where
  "readToken s = (case skipSpaces s of
      [] \<Rightarrow> (tokenEndOfStream, [], [])
    | c # cs \<Rightarrow> (case token_rest c cs of (t, rest) \<Rightarrow>
        (t, take (Suc (length cs) - length rest) (c # cs), rest)))"

section \<open>Decoding tokens\<close>

text \<open>\<open>decodeNumber\<close>: an integer of at most \<open>maxIntegerValue\<close>, else whatever the C++ library reads.\<close>

fun integer_loop :: "nat \<Rightarrow> nat \<Rightarrow> string \<Rightarrow> nat option" where
  "integer_loop maxIntegerValue v [] = Some v"
| "integer_loop maxIntegerValue v (c # cs) =
     (if \<not> is_digit c then None
      else let digit = of_char c - 48 in
        if v \<ge> maxIntegerValue div 10 \<and>
          (v > maxIntegerValue div 10 \<or> cs \<noteq> [] \<or> digit > maxIntegerValue mod 10) then None
        else integer_loop maxIntegerValue (v * 10 + digit) cs)"

definition decodeNumber :: "'a json_lib_scheme \<Rightarrow> string \<Rightarrow> json option" where
  "decodeNumber L token =
     (let isNegative = (token \<noteq> [] \<and> hd token = CHR ''-'') in
      case integer_loop (if isNegative then 2 ^ 63 else 2 ^ 64 - 1) 0 (if isNegative then tl token else token) of
        None \<Rightarrow> map_option JNum (read_real L token)
      | Some v \<Rightarrow> Some (JNum (if isNegative then - of_nat v else of_nat v)))"

definition hex_value :: "char \<Rightarrow> nat option" where
  "hex_value c = (let n = of_char c in
     if is_digit c then Some (n - 48)
     else if 97 \<le> n \<and> n \<le> 102 then Some (n - 87)
     else if 65 \<le> n \<and> n \<le> 70 then Some (n - 55) else None)"

definition codePointToUTF8 :: "nat \<Rightarrow> string" where
  "codePointToUTF8 cp =
     (if cp \<le> 0x7f then [char_of cp]
      else if cp \<le> 0x7FF then [char_of (0xC0 + cp div 2 ^ 6 mod 0x20), char_of (0x80 + cp mod 0x40)]
      else if cp \<le> 0xFFFF then
        [char_of (0xE0 + cp div 2 ^ 12 mod 0x10), char_of (0x80 + cp div 2 ^ 6 mod 0x40), char_of (0x80 + cp mod 0x40)]
      else if cp \<le> 0x10FFFF then
        [char_of (0xF0 + cp div 2 ^ 18 mod 8), char_of (0x80 + cp div 2 ^ 12 mod 0x40),
         char_of (0x80 + cp div 2 ^ 6 mod 0x40), char_of (0x80 + cp mod 0x40)]
      else [])"

text \<open>Four digits, and what follows them.\<close>

definition decodeUnicodeEscapeSequence :: "string \<Rightarrow> (nat \<times> string) option" where
  "decodeUnicodeEscapeSequence s =
     (if length s < 4 then None
      else Option.bind (hex_value (s ! 0)) (\<lambda>a. Option.bind (hex_value (s ! 1)) (\<lambda>b.
        Option.bind (hex_value (s ! 2)) (\<lambda>c. Option.bind (hex_value (s ! 3)) (\<lambda>d.
          Some (((a * 16 + b) * 16 + c) * 16 + d, drop 4 s))))))"

definition decodeUnicodeCodePoint :: "string \<Rightarrow> (nat \<times> string) option" where
  "decodeUnicodeCodePoint s =
     Option.bind (decodeUnicodeEscapeSequence s) (\<lambda>(unicode, rest).
       if 0xD800 \<le> unicode \<and> unicode \<le> 0xDBFF then
         if length rest < 6 then None
         else if rest ! 0 = CHR 0x5C \<and> rest ! 1 = CHR ''u'' then
           Option.bind (decodeUnicodeEscapeSequence (drop 2 rest)) (\<lambda>(surrogatePair, rest').
             Some (0x10000 + unicode mod 0x400 * 2 ^ 10 + surrogatePair mod 0x400, rest'))
         else None
       else Some (unicode, rest))"

definition short_escape :: "char \<Rightarrow> char option" where
  "short_escape e =
     (if e = CHR 0x22 then Some (CHR 0x22)
      else if e = CHR ''/'' then Some (CHR ''/'')
      else if e = CHR 0x5C then Some (CHR 0x5C)
      else if e = CHR ''b'' then Some (CHR 0x08)
      else if e = CHR ''f'' then Some (CHR 0x0C)
      else if e = CHR ''n'' then Some (CHR 0x0A)
      else if e = CHR ''r'' then Some (CHR 0x0D)
      else if e = CHR ''t'' then Some (CHR 0x09) else None)"

lemma decodeUnicodeEscapeSequence_length:
  "decodeUnicodeEscapeSequence s = Some (u, rest) \<Longrightarrow> length rest < length s"
  by (auto simp: decodeUnicodeEscapeSequence_def split: if_splits bind_splits)

lemma decodeUnicodeCodePoint_length:
  "decodeUnicodeCodePoint s = Some (u, rest) \<Longrightarrow> length rest < length s"
  by (auto simp: decodeUnicodeCodePoint_def split: if_splits bind_splits
      dest!: decodeUnicodeEscapeSequence_length)

function decode_chars :: "string \<Rightarrow> string option" where
  "decode_chars [] = Some []"
| "decode_chars (c # cs) =
     (if c = CHR 0x22 then Some []
      else if c = CHR 0x5C then (case cs of
          [] \<Rightarrow> None
        | e # es \<Rightarrow> (if e = CHR ''u'' then (case decodeUnicodeCodePoint es of
              None \<Rightarrow> None
            | Some (unicode, rest) \<Rightarrow> map_option ((@) (codePointToUTF8 unicode)) (decode_chars rest))
          else case short_escape e of
              None \<Rightarrow> None
            | Some x \<Rightarrow> map_option ((#) x) (decode_chars es)))
      else map_option ((#) c) (decode_chars cs))"
  by pat_completeness auto
termination
  by (relation "measure length") (auto dest: decodeUnicodeCodePoint_length)

definition decodeString :: "string \<Rightarrow> string option" where
  "decodeString token = decode_chars (butlast (tl token))"

section \<open>Reader\<close>

text \<open>What is left of the text never grows, and shrinks when there is a token.\<close>

lemma length_skipSpaces: "length (skipSpaces s) \<le> length s"
  by (simp add: skipSpaces_def length_dropWhile_le)

lemma length_readCStyleComment: "length (snd (readCStyleComment s)) \<le> length s"
  by (induction s rule: readCStyleComment.induct) auto

lemma length_readCppStyleComment: "length (readCppStyleComment s) \<le> length s"
  by (induction s rule: readCppStyleComment.induct) auto

lemma length_readComment: "length (snd (readComment s)) \<le> length s"
  using length_readCStyleComment[of "tl s"] length_readCppStyleComment[of "tl s"]
  by (auto simp: readComment_def split: list.splits)

lemma length_readString: "length (snd (readString s)) \<le> length s"
proof (induction s rule: readString.induct)
  case (2 c cs)
  show ?case
  proof (cases cs)
    case Nil
    then show ?thesis by simp
  next
    case (Cons e ds)
    then show ?thesis
      using 2 by (cases "c = CHR 0x5C"; cases "c = CHR 0x22") (simp_all add: le_SucI)
  qed
qed simp

lemma length_readNumber: "length (readNumber s) \<le> length s"
proof -
  have d: "length (dropWhile is_digit (tl t)) \<le> length t" "length (dropWhile is_digit t) \<le> length t" for t
    by (auto intro: order_trans[OF length_dropWhile_le])
  show ?thesis
    unfolding readNumber_def Let_def
    by (auto intro!: order_trans[OF length_dropWhile_le] order_trans[OF d(1)] order_trans[OF d(2)]
      simp: le_diff_conv le_SucI)
qed

lemma length_match_text: "length (snd (match_text p s)) \<le> length s"
  by (simp add: match_text_def)

lemma length_token_rest: "length (snd (token_rest c cs)) \<le> length cs"
  using length_readString[of cs] length_readComment[of cs] length_readNumber[of cs]
  unfolding token_rest_def token_or_error_def
  by (simp only: if_distrib[of snd] snd_conv) (simp add: length_match_text)

lemma length_readToken:
  assumes "readToken s = (t, x, rest)"
  shows "length rest \<le> length s" "t \<noteq> tokenEndOfStream \<Longrightarrow> length rest < length s"
proof -
  have "length rest \<le> length s \<and> (t \<noteq> tokenEndOfStream \<longrightarrow> length rest < length s)"
  proof (cases "skipSpaces s")
    case (Cons c cs)
    then show ?thesis
      using assms length_skipSpaces[of s] length_token_rest[of c cs]
      by (auto simp: readToken_def split: prod.splits)
  qed (use assms in \<open>auto simp: readToken_def\<close>)
  then show "length rest \<le> length s" "t \<noteq> tokenEndOfStream \<Longrightarrow> length rest < length s"
    by auto
qed

function skipCommentTokens :: "string \<Rightarrow> token_type \<times> string \<times> string" where
  "skipCommentTokens s = (case readToken s of (t, x, rest) \<Rightarrow>
     if t = tokenComment then skipCommentTokens rest else (t, x, rest))"
  by pat_completeness auto
termination
  by (relation "measure length") (auto dest: length_readToken(2)[OF sym])

declare skipCommentTokens.simps [simp del]

text \<open>A value with what follows it; what an error leaves of the value; more values inside each other
  than the reader allows; more steps than the fuel. The reader then skips text to find more errors,
  which changes neither the value nor the result.\<close>

datatype read_result = Done json string | Failed json | Stack_limit | Out_of_fuel

definition stackLimit_g :: nat where
  "stackLimit_g = 1000"

definition of_decoded :: "json option \<Rightarrow> json \<Rightarrow> string \<Rightarrow> read_result" where
  "of_decoded r old rest = (case r of None \<Rightarrow> Failed old | Some v \<Rightarrow> Done v rest)"

definition scalar_value :: "'a json_lib_scheme \<Rightarrow> token_type \<Rightarrow> string \<Rightarrow> json \<Rightarrow> string \<Rightarrow> read_result" where
  "scalar_value L t token old rest = (case t of
      tokenNumber \<Rightarrow> of_decoded (decodeNumber L token) old rest
    | tokenString \<Rightarrow> of_decoded (map_option JStr (decodeString token)) old rest
    | tokenTrue \<Rightarrow> Done (JBool True) rest
    | tokenFalse \<Rightarrow> Done (JBool False) rest
    | tokenNull \<Rightarrow> Done JNull rest
    | _ \<Rightarrow> Failed old)"

text \<open>What \<open>readObject\<close> does with the text after a member, up to the next name: whether the object
  goes on, and with which text.\<close>

definition after_member :: "string \<Rightarrow> (bool \<times> string) option" where
  "after_member s = (case readToken s of (comma, _, rest) \<Rightarrow>
     if comma \<noteq> tokenObjectEnd \<and> comma \<noteq> tokenArraySeparator \<and> comma \<noteq> tokenComment then None
     else if comma = tokenComment then (case skipCommentTokens rest of (comma', _, rest') \<Rightarrow>
       Some (comma' \<noteq> tokenObjectEnd, rest'))
     else Some (comma \<noteq> tokenObjectEnd, rest))"

text \<open>The name of a member and the text after its colon.\<close>

definition member_name :: "token_type \<Rightarrow> string \<Rightarrow> string \<Rightarrow> (string \<times> string) option" where
  "member_name t token rest =
     (if t \<noteq> tokenString then None
      else case decodeString token of
        None \<Rightarrow> None
      | Some name \<Rightarrow> (case readToken rest of (colon, _, rest1) \<Rightarrow>
          if colon \<noteq> tokenMemberSeparator then None else Some (name, rest1)))"

definition after_element :: "string \<Rightarrow> (bool \<times> string) option" where
  "after_element s = (case skipCommentTokens s of (t, _, rest) \<Rightarrow>
     if t \<noteq> tokenArraySeparator \<and> t \<noteq> tokenArrayEnd then None else Some (t \<noteq> tokenArrayEnd, rest))"

function (sequential) readValue :: "'a json_lib_scheme \<Rightarrow> nat \<Rightarrow> nat \<Rightarrow> json \<Rightarrow> string \<Rightarrow> read_result"
and readObject :: "'a json_lib_scheme \<Rightarrow> nat \<Rightarrow> nat \<Rightarrow> string \<Rightarrow> (string \<times> json) list \<Rightarrow> string \<Rightarrow> read_result"
and readArray :: "'a json_lib_scheme \<Rightarrow> nat \<Rightarrow> nat \<Rightarrow> json list \<Rightarrow> string \<Rightarrow> read_result"
where
  "readValue L 0 d old s = Out_of_fuel"
| "readValue L (Suc n) d old s =
     (if d \<ge> stackLimit_g then Stack_limit
      else case skipCommentTokens s of (t, token, rest) \<Rightarrow>
        if t = tokenObjectBegin then readObject L n (Suc d) '''' [] rest
        else if t = tokenArrayBegin then
          (if skipSpaces rest \<noteq> [] \<and> hd (skipSpaces rest) = CHR '']''
           then Done (JArr []) (tl (skipSpaces rest)) else readArray L n (Suc d) [] (skipSpaces rest))
        else scalar_value L t token old rest)"
| "readObject L 0 d name m s = Out_of_fuel"
| "readObject L (Suc n) d name m s =
     (case skipCommentTokens s of (t, token, rest) \<Rightarrow>
      if t = tokenObjectEnd \<and> name = '''' then Done (JObj m) rest
      else case member_name t token rest of
        None \<Rightarrow> Failed (JObj m)
      | Some (name', rest1) \<Rightarrow>
          (case readValue L n d (case map_of m name' of None \<Rightarrow> JNull | Some v \<Rightarrow> v) rest1 of
            Done v rest2 \<Rightarrow> (case after_member rest2 of
                None \<Rightarrow> Failed (JObj (obj_put name' v m))
              | Some (goes_on, rest3) \<Rightarrow>
                  if goes_on then readObject L n d name' (obj_put name' v m) rest3
                  else Done (JObj (obj_put name' v m)) rest3)
          | Failed v \<Rightarrow> Failed (JObj (obj_put name' v m))
          | r \<Rightarrow> r))"
| "readArray L 0 d vs s = Out_of_fuel"
| "readArray L (Suc n) d vs s =
     (case readValue L n d JNull s of
        Done v rest \<Rightarrow> (case after_element rest of
            None \<Rightarrow> Failed (JArr (vs @ [v]))
          | Some (goes_on, rest1) \<Rightarrow>
              if goes_on then readArray L n d (vs @ [v]) rest1 else Done (JArr (vs @ [v])) rest1)
      | Failed v \<Rightarrow> Failed (JArr (vs @ [v]))
      | r \<Rightarrow> r)"
  by pat_completeness auto
termination
  by (relation "measure (case_sum (\<lambda>(L, n, _). n) (case_sum (\<lambda>(L, n, _). n) (\<lambda>(L, n, _). n)))") simp_all

definition reader_fuel :: "string \<Rightarrow> nat" where
  "reader_fuel document = 2 * length document + 2"

text \<open>\<open>Reader::parse\<close> into a null value. What follows the value in the text is ignored.\<close>

definition Reader_parse :: "'a json_lib_scheme \<Rightarrow> string \<Rightarrow> (bool \<times> json) option" where
  "Reader_parse L document = (case readValue L (reader_fuel document) 0 JNull document of
      Done v _ \<Rightarrow> Some (True, v)
    | Failed v \<Rightarrow> Some (False, v)
    | _ \<Rightarrow> None)"

end
