(* ===== verification/Json_Text.thy ===== *)
theory Json_Text
  imports Json "HOL-Library.Sublist"
begin

text \<open>
  The reader and the writer of jsoncpp together: the reader always comes to an end within its fuel,
  and a value whose text it can read (numbers that are integers or that the C++ library reads back,
  keys in order, values not nested deeper than the reader's limit) is read back from what the writer
  makes of it.
\<close>

section \<open>The fuel is enough\<close>

lemma length_skipCommentTokens:
  "skipCommentTokens s = (t, x, rest) \<Longrightarrow>
    length rest \<le> length s \<and> (t \<noteq> tokenEndOfStream \<longrightarrow> length rest < length s)"
proof (induction s arbitrary: t x rest rule: skipCommentTokens.induct)
  case (1 s)
  obtain t1 x1 r1 where r: "readToken s = (t1, x1, r1)"
    by (cases "readToken s") auto
  show ?case
  proof (cases "t1 = tokenComment")
    case True
    then have "length r1 < length s" "skipCommentTokens r1 = (t, x, rest)"
      using length_readToken(2)[OF r] 1(2) r by (simp_all add: skipCommentTokens.simps[of s])
    then show ?thesis
      using 1(1)[of t1 "(x1, r1)" x1 r1] r True by fastforce
  next
    case False
    then show ?thesis
      using length_readToken[OF r] 1(2) r by (auto simp: skipCommentTokens.simps[of s])
  qed
qed

lemma length_member_name: "member_name t x s = Some (name, rest) \<Longrightarrow> length rest < length s"
  by (auto simp: member_name_def split: if_splits option.splits prod.splits dest: length_readToken(2))

lemma length_after_member:
  assumes "after_member s = Some (goes_on, rest)"
  shows "length rest < length s"
proof -
  obtain t x r where r: "readToken s = (t, x, r)"
    by (cases "readToken s") auto
  then have "length r < length s"
    using assms by (intro length_readToken(2)) (auto simp: after_member_def)
  then show ?thesis
    using assms r by (auto simp: after_member_def split: if_splits prod.splits dest!: length_skipCommentTokens)
qed

lemma length_after_element: "after_element s = Some (goes_on, rest) \<Longrightarrow> length rest < length s"
  by (auto simp: after_element_def split: if_splits prod.splits dest!: length_skipCommentTokens)

definition settled :: "string \<Rightarrow> read_result \<Rightarrow> bool" where
  "settled s x = (x \<noteq> Out_of_fuel \<and> (\<forall>v rest. x = Done v rest \<longrightarrow> length rest < length s))"

lemma settled_simps [simp]:
  "settled s (Done v rest) = (length rest < length s)" "settled s (Failed v)" "settled s Stack_limit"
  "\<not> settled s Out_of_fuel"
  by (simp_all add: settled_def)

lemma settled_longer: "settled r x \<Longrightarrow> length r \<le> length s \<Longrightarrow> settled s x"
  by (auto simp: settled_def)

lemma settled_scalar: "length rest < length s \<Longrightarrow> settled s (scalar_value L t token old rest)"
  by (simp add: scalar_value_def of_decoded_def split: token_type.splits option.splits)

lemma scalar_no_token: "scalar_value L tokenEndOfStream token old rest = Failed old"
  by (simp add: scalar_value_def)

lemma value_settled:
  assumes obj: "\<And>name m s. 2 * length s + 2 \<le> n \<Longrightarrow> settled s (readObject L n (Suc d) name m s)"
    and arr: "\<And>vs s. 2 * length s + 3 \<le> n \<Longrightarrow> settled s (readArray L n (Suc d) vs s)"
    and n: "2 * length s + 2 \<le> Suc n"
  shows "settled s (readValue L (Suc n) d old s)"
proof -
  obtain t token rest where t: "skipCommentTokens s = (t, token, rest)"
    by (cases "skipCommentTokens s") auto
  note len = length_skipCommentTokens[OF t] length_skipSpaces[of rest]
  show ?thesis
  proof (cases "t = tokenEndOfStream \<or> d \<ge> stackLimit_g")
    case True
    then show ?thesis
      using t by (auto simp: scalar_no_token)
  next
    case False
    then have l: "length rest < length s" "length (skipSpaces rest) < length s"
      using len by auto
    have "settled s (readObject L n (Suc d) '''' [] rest)"
      using settled_longer[OF obj] l n by auto
    moreover have "settled s (readArray L n (Suc d) [] (skipSpaces rest))"
      using settled_longer[OF arr] l n by auto
    ultimately show ?thesis
      using False t l by (auto intro: settled_scalar)
  qed
qed

lemma object_settled:
  assumes val: "\<And>old s. 2 * length s + 2 \<le> n \<Longrightarrow> settled s (readValue L n d old s)"
    and obj: "\<And>name m s. 2 * length s + 2 \<le> n \<Longrightarrow> settled s (readObject L n d name m s)"
    and n: "2 * length s + 2 \<le> Suc n"
  shows "settled s (readObject L (Suc n) d name m s)"
proof -
  obtain t token rest where t: "skipCommentTokens s = (t, token, rest)"
    by (cases "skipCommentTokens s") auto
  note len = length_skipCommentTokens[OF t]
  show ?thesis
  proof (cases "t \<noteq> tokenEndOfStream \<and> \<not> (t = tokenObjectEnd \<and> name = '''')")
    case True
    then have l: "length rest < length s"
      using len by simp
    show ?thesis
    proof (cases "member_name t token rest")
      case None
      then show ?thesis using t True by auto
    next
      case (Some p)
      obtain name' rest1 where p: "p = (name', rest1)" by fastforce
      have l1: "length rest1 < length rest"
        using length_member_name Some p by simp
      let ?v = "readValue L n d (case map_of m name' of None \<Rightarrow> JNull | Some v \<Rightarrow> v) rest1"
      have v: "settled rest1 ?v"
        using l l1 n by (intro val) simp
      have "settled s (readObject L n d name' m' rest3)" if "length rest3 < length s" for m' rest3
        using settled_longer[OF obj, of rest3 s name' m'] that n by simp
      then show ?thesis
        using t True Some p v l l1
        by (cases ?v) (auto split: option.splits prod.splits dest!: length_after_member)
    qed
  next
    case False
    then show ?thesis
      using t len by (auto simp: member_name_def)
  qed
qed

lemma array_settled:
  assumes val: "\<And>old s. 2 * length s + 2 \<le> n \<Longrightarrow> settled s (readValue L n d old s)"
    and arr: "\<And>vs s. 2 * length s + 3 \<le> n \<Longrightarrow> settled s (readArray L n d vs s)"
    and n: "2 * length s + 3 \<le> Suc n"
  shows "settled s (readArray L (Suc n) d vs s)"
proof -
  have v: "settled s (readValue L n d JNull s)"
    using n by (intro val) simp
  have "settled s (readArray L n d vs' rest)" if "length rest < length s" for vs' rest
    using settled_longer[OF arr, of rest s vs'] that n by simp
  then show ?thesis
    using v by (cases "readValue L n d JNull s") (auto split: option.splits prod.splits dest!: length_after_element)
qed

lemma reading_settled:
  "(\<forall>d old s. 2 * length s + 2 \<le> n \<longrightarrow> settled s (readValue L n d old s)) \<and>
   (\<forall>d name m s. 2 * length s + 2 \<le> n \<longrightarrow> settled s (readObject L n d name m s)) \<and>
   (\<forall>d vs s. 2 * length s + 3 \<le> n \<longrightarrow> settled s (readArray L n d vs s))"
proof (induction n)
  case (Suc n)
  then show ?case
    by (intro conjI allI impI value_settled object_settled array_settled) simp_all
qed simp

lemma reader_fuel_enough: "readValue L (reader_fuel s) 0 JNull s \<noteq> Out_of_fuel"
  using conjunct1[OF reading_settled[of "reader_fuel s" L], rule_format, of s 0 JNull]
  unfolding settled_def reader_fuel_def by simp

section \<open>Strings\<close>

lemma hex_digit_value: "n < 16 \<Longrightarrow> hex_value (hex_digit n) = Some n"
  by (auto simp: hex_value_def hex_digit_def is_digit_def Let_def)

lemma hex_digit_plain: "n < 16 \<Longrightarrow> hex_digit n \<noteq> CHR 0x5C \<and> hex_digit n \<noteq> CHR 0x22"
  by (auto simp: hex_digit_def dest!: arg_cong[of _ _ "of_char :: char \<Rightarrow> nat"] split: if_splits)

lemma control_small: "isControlCharacter c \<or> c = CHR 0x00 \<Longrightarrow> (of_char c :: nat) < 32"
  by (auto simp: isControlCharacter_def)

lemma not_special: "\<not> has_short_escape c \<Longrightarrow> c \<noteq> CHR 0x5C \<and> c \<noteq> CHR 0x22"
  by (auto simp: has_short_escape_def)

text \<open>What one character becomes in the text.\<close>

lemma escape_cases:
  obtains (short) e where "escape_char c = [CHR 0x5C, e]" "short_escape e = Some c" "e \<noteq> CHR ''u''"
  | (hex) "escape_char c = [CHR 0x5C, CHR ''u'', CHR ''0'', CHR ''0'', hex_digit (of_char c div 16), hex_digit (of_char c mod 16)]"
      "(of_char c :: nat) < 32"
  | (plain) "escape_char c = [c]" "c \<noteq> CHR 0x5C" "c \<noteq> CHR 0x22"
proof (cases "has_short_escape c")
  case True
  then have "c = CHR 0x22 \<or> c = CHR 0x5C \<or> c = CHR 0x08 \<or> c = CHR 0x0C \<or> c = CHR 0x0A \<or> c = CHR 0x0D \<or> c = CHR 0x09"
    by (simp add: has_short_escape_def)
  then have "escape_char c = [CHR 0x5C, escape_char c ! 1] \<and> short_escape (escape_char c ! 1) = Some c \<and> escape_char c ! 1 \<noteq> CHR ''u''"
    by (elim disjE; simp add: escape_char_def short_escape_def)
  then show ?thesis
    using short by blast
next
  case False
  then have "escape_char c = (if isControlCharacter c \<or> c = CHR 0x00
        then [CHR 0x5C, CHR ''u'', CHR ''0'', CHR ''0'', hex_digit (of_char c div 16), hex_digit (of_char c mod 16)]
      else [c])"
    by (simp add: has_short_escape_def escape_char_def)
  then show ?thesis
    using hex plain control_small[of c] not_special[OF False] by (auto split: if_splits)
qed

lemma readString_escape: "readString (escape_char c @ t) = readString t"
proof (cases c rule: escape_cases)
  case hex
  then show ?thesis
    using hex_digit_plain[of "of_char c div 16"] hex_digit_plain[of "of_char c mod 16"] by simp
qed simp_all

lemma decode_escape: "decode_chars (escape_char c @ t) = map_option ((#) c) (decode_chars t)"
proof (cases c rule: escape_cases)
  case hex
  let ?n = "of_char c :: nat"
  have v: "hex_value (hex_digit (?n div 16)) = Some (?n div 16)" "hex_value (hex_digit (?n mod 16)) = Some (?n mod 16)"
    using hex(2) by (simp_all add: hex_digit_value)
  have "hex_value (CHR ''0'') = Some 0"
    by (simp add: hex_value_def is_digit_def)
  moreover have "?n div 16 * 16 + ?n mod 16 = ?n"
    by simp
  ultimately have "decodeUnicodeCodePoint (drop 2 (escape_char c) @ t) = Some (?n, t)"
    using hex v by (simp add: decodeUnicodeCodePoint_def decodeUnicodeEscapeSequence_def)
  moreover have "codePointToUTF8 ?n = [c]"
    using hex(2) by (simp add: codePointToUTF8_def)
  moreover have "(@) [c] = (#) c"
    by (simp add: fun_eq_iff)
  ultimately show ?thesis
    using hex by simp
qed (simp_all split: option.splits)

lemma escape_plain: "\<not> has_short_escape c \<Longrightarrow> \<not> (isControlCharacter c \<or> c = CHR 0x00) \<Longrightarrow> escape_char c = [c]"
  by (simp add: has_short_escape_def escape_char_def)

text \<open>The shortcut of the writer makes the same text.\<close>

lemma quoted_text: "valueToQuotedStringN s = CHR 0x22 # concat (map escape_char s) @ [CHR 0x22]"
proof -
  have "concat (map escape_char s) = s"
    if "\<not> list_ex has_short_escape s" "\<not> list_ex (\<lambda>c. isControlCharacter c \<or> c = CHR 0x00) s"
    using that by (induction s) (auto simp: escape_plain)
  then show ?thesis
    by (auto simp: valueToQuotedStringN_def)
qed

lemma readString_quoted: "readString (concat (map escape_char s) @ CHR 0x22 # r) = (True, r)"
  by (induction s) (simp_all add: readString_escape)

lemma decode_quoted: "decode_chars (concat (map escape_char s)) = Some s"
proof (induction s)
  case (Cons c s)
  then show ?case
    using decode_escape[of c "concat (map escape_char s)"] by simp
qed simp

lemma readToken_char:
  assumes "c \<notin> {CHR '' '', CHR 0x09, CHR 0x0D, CHR 0x0A}" "token_rest c cs = (t, rest)"
  shows "readToken (c # cs) = (t, take (Suc (length cs) - length rest) (c # cs), rest)"
  using assms by (simp add: readToken_def skipSpaces_def)

lemma skip_no_comment: "readToken s = (t, x, rest) \<Longrightarrow> t \<noteq> tokenComment \<Longrightarrow> skipCommentTokens s = (t, x, rest)"
  by (subst skipCommentTokens.simps) simp

lemma string_token: "readToken (valueToQuotedStringN s @ r) = (tokenString, valueToQuotedStringN s, r)"
  using readToken_char[of "CHR 0x22" "concat (map escape_char s) @ CHR 0x22 # r" tokenString r]
  by (simp add: quoted_text token_rest_def token_or_error_def readString_quoted)

lemma decodeString_quoted: "decodeString (valueToQuotedStringN s) = Some s"
  by (simp add: decodeString_def quoted_text decode_quoted butlast_append)

section \<open>Numbers\<close>

text \<open>What may follow a value in the text of a writer.\<close>

definition ends :: "string \<Rightarrow> bool" where
  "ends r = (r = [] \<or> hd r \<in> {CHR '','', CHR '']'', CHR ''}'', CHR 0x0A})"

lemma ends_no_number:
  assumes "ends r"
  shows "dropWhile is_digit r = r" "r \<noteq> [] \<Longrightarrow> hd r \<noteq> CHR ''.'' \<and> hd r \<noteq> CHR ''e'' \<and> hd r \<noteq> CHR ''E'' \<and> hd r \<noteq> CHR ''+'' \<and> hd r \<noteq> CHR ''-''"
  using assms by (cases r; auto simp: ends_def is_digit_def)+

lemma dropWhile_ends: "ends r \<Longrightarrow> dropWhile is_digit (u @ r) = dropWhile is_digit u @ r"
  by (induction u) (simp_all add: ends_no_number)

lemma readNumber_ends:
  assumes "readNumber u = []" "ends r"
  shows "readNumber (u @ r) = r"
proof -
  note d = dropWhile_ends[OF assms(2)] and e = ends_no_number[OF assms(2)]
  define s1 where "s1 = dropWhile is_digit u"
  define s2 where "s2 = (if s1 \<noteq> [] \<and> hd s1 = CHR ''.'' then dropWhile is_digit (tl s1) else s1)"
  have A: "(if s1 @ r \<noteq> [] \<and> hd (s1 @ r) = CHR ''.'' then dropWhile is_digit (tl (s1 @ r)) else s1 @ r) = s2 @ r"
    using e d by (cases s1) (auto simp: s2_def)
  have ru: "readNumber u = (if s2 \<noteq> [] \<and> (hd s2 = CHR ''e'' \<or> hd s2 = CHR ''E'')
      then (let s3 = tl s2 in
        dropWhile is_digit (if s3 \<noteq> [] \<and> (hd s3 = CHR ''+'' \<or> hd s3 = CHR ''-'') then tl s3 else s3))
      else s2)"
    unfolding readNumber_def s1_def s2_def Let_def by (rule refl)
  have C: "(if s2 @ r \<noteq> [] \<and> (hd (s2 @ r) = CHR ''e'' \<or> hd (s2 @ r) = CHR ''E'')
      then (let s3 = tl (s2 @ r) in
        dropWhile is_digit (if s3 \<noteq> [] \<and> (hd s3 = CHR ''+'' \<or> hd s3 = CHR ''-'') then tl s3 else s3))
      else s2 @ r) = r"
  proof (cases s2)
    case Nil
    then show ?thesis using e by auto
  next
    case (Cons c s3)
    then have c: "c = CHR ''e'' \<or> c = CHR ''E''"
      and u: "dropWhile is_digit (if s3 \<noteq> [] \<and> (hd s3 = CHR ''+'' \<or> hd s3 = CHR ''-'') then tl s3 else s3) = []"
      using ru unfolding Cons assms(1) by (simp_all add: Let_def eq_commute[of "[]"] split: if_splits)
    show ?thesis
      using c u e d[of s3] d[of "tl s3"] Cons by (cases s3) (auto simp: Let_def)
  qed
  show ?thesis
    unfolding readNumber_def d s1_def[symmetric] Let_def A by (rule C[unfolded Let_def])
qed

lemma number_token:
  assumes "is_digit c \<or> c = CHR ''-''" "readNumber u = []" "ends r"
  shows "readToken ((c # u) @ r) = (tokenNumber, c # u, r)"
proof -
  have "token_rest c (u @ r) = (tokenNumber, r)"
    using assms(1) readNumber_ends[OF assms(2,3)] by (auto simp: token_rest_def is_digit_def)
  moreover have "c \<notin> {CHR '' '', CHR 0x09, CHR 0x0D, CHR 0x0A}"
    using assms(1) by (auto simp: is_digit_def)
  ultimately show ?thesis
    using readToken_char[of c "u @ r" tokenNumber r] by simp
qed

lemma foldl_digits_ge:
  "n \<le> foldl (\<lambda>n c. 10 * n + f c) n cs" "cs \<noteq> [] \<Longrightarrow> 10 * n \<le> foldl (\<lambda>n c. 10 * n + f c) (n :: nat) cs"
proof -
  have 1: "n \<le> foldl (\<lambda>n c. 10 * n + f c) n cs" for n cs
  proof (induction cs arbitrary: n)
    case (Cons c cs)
    show ?case
      using Cons[of "10 * n + f c"] by simp
  qed simp
  show "n \<le> foldl (\<lambda>n c. 10 * n + f c) n cs"
    by (rule 1)
  show "10 * n \<le> foldl (\<lambda>n c. 10 * n + f c) n cs" if "cs \<noteq> []"
  proof (cases cs)
    case (Cons c cs')
    have "10 * n + f c \<le> foldl (\<lambda>n c. 10 * n + f c) (10 * n + f c) cs'"
      by (rule 1)
    then show ?thesis using Cons by simp
  qed (use that in simp)
qed

lemma over_limit: "10 * (10 * v) \<le> M \<Longrightarrow> M < 10 * v + 10 \<Longrightarrow> 10 \<le> M \<Longrightarrow> False" for M :: nat
  by (cases v) auto

lemma below_limit: "M div 10 \<le> v \<Longrightarrow> M < 10 * v + 10" for M :: nat
  by linarith

lemma at_limit: "10 * v + d \<le> M \<Longrightarrow> M div 10 \<le> v \<Longrightarrow> v = M div 10 \<and> d \<le> M mod 10" for M :: nat
  using div_mult_mod_eq[of M 10] by linarith

lemma integer_loop_digits:
  assumes "\<forall>c\<in>set cs. is_digit c" "foldl (\<lambda>n c. 10 * n + (of_char c - 48)) v cs \<le> M" "10 \<le> M"
  shows "integer_loop M v cs = Some (foldl (\<lambda>n c. 10 * n + (of_char c - 48)) v cs)"
  using assms(1,2)
proof (induction cs arbitrary: v)
  case (Cons c cs)
  let ?d = "of_char c - 48 :: nat" and ?f = "\<lambda>n c. 10 * n + (of_char c - 48) :: nat"
  have le: "10 * v + ?d \<le> M"
    using foldl_digits_ge(1)[of "10 * v + ?d" "\<lambda>c. of_char c - 48" cs] Cons.prems(2) by simp
  have last: "cs = []" if "v \<ge> M div 10"
  proof (rule ccontr)
    assume "cs \<noteq> []"
    then have f: "10 * (10 * v + ?d) \<le> M"
      using foldl_digits_ge(2)[of cs "10 * v + ?d" "\<lambda>c. of_char c - 48"] Cons.prems(2) by simp
    have "10 * (10 * v) \<le> M"
      by (rule order_trans[OF _ f]) simp
    then show False
      by (rule over_limit[OF _ below_limit[OF that] assms(3)])
  qed
  have "\<not> (v \<ge> M div 10 \<and> (v > M div 10 \<or> cs \<noteq> [] \<or> ?d > M mod 10))"
    using at_limit[OF le] last by auto
  then show ?case
    using Cons by (simp add: Let_def ac_simps)
qed simp

lemma integer_loop_None: "\<exists>c\<in>set cs. \<not> is_digit c \<Longrightarrow> integer_loop M v cs = None"
  by (induction M v cs rule: integer_loop.induct) (auto simp: Let_def)


text \<open>A number the reader gets back: an integer, or one whose text is no integer and that the C++
  library reads as the same number.\<close>

definition readable_number :: "'a json_lib_scheme \<Rightarrow> rat \<Rightarrow> bool" where
  "readable_number L r = (is_integer r \<or>
     (let t = real_string L r in t \<noteq> [] \<and> (is_digit (hd t) \<or> hd t = CHR ''-'') \<and> readNumber (tl t) = [] \<and>
        (\<exists>c\<in>set (tl t). \<not> is_digit c) \<and> read_real L t = Some r))"

lemma nat_string_Cons: obtains c u where "nat_string n = c # u" "is_digit c" "\<forall>x\<in>set u. is_digit x" "dropWhile is_digit u = []"
proof -
  obtain c u where "nat_string n = c # u"
    using nat_string_not_Nil by (cases "nat_string n") auto
  then show ?thesis
    using that nat_string_digits[of n] by auto
qed

lemma readNumber_digits: "\<forall>x\<in>set u. is_digit x \<Longrightarrow> readNumber u = []"
proof -
  assume "\<forall>x\<in>set u. is_digit x"
  then have "dropWhile is_digit u = []"
    by simp
  then show ?thesis
    by (simp add: readNumber_def del: dropWhile_eq_Nil_conv)
qed

lemma integer_loop_nat_string: "n \<le> M \<Longrightarrow> 10 \<le> M \<Longrightarrow> integer_loop M 0 (nat_string n) = Some n"
  using integer_loop_digits[OF nat_string_digits, of 0 n M] digits_value_nat_string[of n]
  by (simp add: digits_value_def)

lemma number_text_read:
  assumes "readable_number L r" "ends rest"
  shows "readToken (number_text L r @ rest) = (tokenNumber, number_text L r, rest)"
    and "decodeNumber L (number_text L r) = Some (JNum r)"
proof -
  have "readToken (number_text L r @ rest) = (tokenNumber, number_text L r, rest) \<and>
    decodeNumber L (number_text L r) = Some (JNum r)"
  proof (cases "is_integer r")
    case True
    define i where "i = \<lfloor>r\<rfloor>"
    have i: "r = of_int i" "- (2 ^ 63) \<le> i" "i \<le> 2 ^ 64 - 1"
      using True by (simp_all add: is_integer_def i_def)
    have num: "number_text L (of_int i) = NumberToString i"
      using True unfolding i(1) by (simp add: number_text_def)
    show ?thesis
    proof (cases "i < 0")
      case neg: True
      have "nat (- i) \<le> 2 ^ 63"
        using i(2) neg by simp
      then have "integer_loop (2 ^ 63) 0 (nat_string (nat (- i))) = Some (nat (- i))"
        by (intro integer_loop_nat_string) simp_all
      moreover have "- of_nat (nat (- i)) = (of_int i :: rat)"
        using neg by simp
      ultimately show ?thesis
        using neg number_token[OF _ readNumber_digits[OF nat_string_digits] assms(2), of "CHR ''-''" "nat (- i)"]
        by (simp add: num NumberToString_def decodeNumber_def i(1))
    next
      case pos: False
      obtain c u where cu: "nat_string (nat i) = c # u" "is_digit c" "\<forall>x\<in>set u. is_digit x"
        using nat_string_Cons[of "nat i"] by metis
      have "nat i \<le> 2 ^ 64 - 1"
        using i(3) pos by simp
      then have "integer_loop (2 ^ 64 - 1) 0 (nat_string (nat i)) = Some (nat i)"
        by (intro integer_loop_nat_string) simp_all
      moreover have "of_nat (nat i) = (of_int i :: rat)"
        using pos by simp
      ultimately show ?thesis
        using pos cu number_token[OF _ readNumber_digits[OF cu(3)] assms(2), of c] digit_not_special(2)[OF cu(2)]
        by (simp add: num NumberToString_def decodeNumber_def i(1))
    qed
  next
    case False
    then obtain c u where t: "real_string L r = c # u" "is_digit c \<or> c = CHR ''-''" "readNumber u = []"
      "\<exists>c\<in>set u. \<not> is_digit c" "read_real L (c # u) = Some r"
      using assms(1) by (cases "real_string L r") (auto simp: readable_number_def Let_def)
    have "integer_loop M 0 u = None" "integer_loop M 0 (c # u) = None" for M
      by (rule integer_loop_None; use t(4) in simp)+
    then show ?thesis
      using t False number_token[OF t(2,3) assms(2)]
      by (cases "c = CHR ''-''") (simp_all add: number_text_def decodeNumber_def Let_def del: integer_loop.simps)
  qed
  then show "readToken (number_text L r @ rest) = (tokenNumber, number_text L r, rest)"
    "decodeNumber L (number_text L r) = Some (JNum r)"
    by simp_all
qed

section \<open>Reading what was written\<close>

fun readable_json :: "'a json_lib_scheme \<Rightarrow> nat \<Rightarrow> json \<Rightarrow> bool" where
  "readable_json L d (JNum r) = (d < stackLimit_g \<and> readable_number L r)"
| "readable_json L d (JArr js) = (d < stackLimit_g \<and> list_all (readable_json L (Suc d)) js)"
| "readable_json L d (JObj m) = (d < stackLimit_g \<and> sorted_wrt key_less (map fst m) \<and>
     list_all (\<lambda>(k, v). readable_json L (Suc d) v) m)"
| "readable_json L d _ = (d < stackLimit_g)"

lemma key_less_irrefl: "\<not> key_less k k"
  by (induction k) auto

lemma key_less_asym: "key_less a b \<Longrightarrow> \<not> key_less b a"
  by (induction a b rule: key_less.induct) auto

lemma obj_put_last: "\<forall>a\<in>set (map fst m). key_less a k \<Longrightarrow> obj_put k v m = m @ [(k, v)]"
  by (induction k v m rule: obj_put.induct) (auto simp: key_less_irrefl dest: key_less_asym)

lemma comma_separated_Cons:
  "comma_separated (x # xs) = x @ (if xs = [] then [] else CHR '','' # comma_separated xs)"
  by (cases xs) auto

lemma key_less_trans: "key_less a b \<Longrightarrow> key_less b c \<Longrightarrow> key_less a c"
  by (induction a b arbitrary: c rule: key_less.induct) (auto, case_tac [!] c, auto)

lemma key_less_total: "k \<noteq> a \<Longrightarrow> \<not> key_less k a \<Longrightarrow> key_less a k"
  by (induction k a rule: key_less.induct) (auto simp: not_less order_le_less)

lemma set_obj_put: "fst ` set (obj_put k v m) = insert k (fst ` set m)"
  by (induction k v m rule: obj_put.induct) auto

lemma sorted_obj_put:
  "sorted_wrt key_less (map fst m) \<Longrightarrow> sorted_wrt key_less (map fst (obj_put k v m))"
  by (induction k v m rule: obj_put.induct)
    (auto simp: set_obj_put image_iff[symmetric] dest: key_less_trans key_less_total)

definition plain_start :: "string \<Rightarrow> bool" where
  "plain_start s = (s \<noteq> [] \<and> hd s \<notin> {CHR '' '', CHR 0x09, CHR 0x0D, CHR 0x0A, CHR '']''})"

lemma plain_start_append: "plain_start s \<Longrightarrow> plain_start (s @ t)"
  by (auto simp: plain_start_def)

lemma skipSpaces_plain: "plain_start s \<Longrightarrow> skipSpaces s = s"
  by (cases s) (auto simp: plain_start_def skipSpaces_def)

lemma plain_start_number:
  assumes "readable_number L r"
  shows "plain_start (number_text L r)"
proof -
  have "number_text L r \<noteq> [] \<and> (is_digit (hd (number_text L r)) \<or> hd (number_text L r) = CHR ''-'')"
  proof (cases "is_integer r")
    case True
    then show ?thesis
      using nat_string_digits[of "nat \<lfloor>r\<rfloor>"] nat_string_not_Nil[of "nat \<lfloor>r\<rfloor>"]
      by (auto simp: number_text_def NumberToString_def)
  next
    case False
    then show ?thesis
      using assms by (auto simp: number_text_def readable_number_def Let_def)
  qed
  then show ?thesis
    by (auto simp: plain_start_def is_digit_def)
qed

lemma plain_start_value: "readable_json L d j \<Longrightarrow> plain_start (writeValue L j)"
  by (cases j) (auto simp: plain_start_number, auto simp: plain_start_def quoted_text)

text \<open>The tokens between values.\<close>

lemma punctuation:
  "skipCommentTokens (CHR ''['' # s) = (tokenArrayBegin, [CHR ''[''], s)"
  "skipCommentTokens (CHR '']'' # s) = (tokenArrayEnd, [CHR '']''], s)"
  "skipCommentTokens (CHR ''{'' # s) = (tokenObjectBegin, [CHR ''{''], s)"
  "skipCommentTokens (CHR ''}'' # s) = (tokenObjectEnd, [CHR ''}''], s)"
  "skipCommentTokens (CHR '','' # s) = (tokenArraySeparator, [CHR '',''], s)"
  "readToken (CHR ''}'' # s) = (tokenObjectEnd, [CHR ''}''], s)"
  "readToken (CHR '','' # s) = (tokenArraySeparator, [CHR '',''], s)"
  "readToken (CHR '':'' # s) = (tokenMemberSeparator, [CHR '':''], s)"
  by ((rule skip_no_comment)?, simp add: readToken_def skipSpaces_def token_rest_def is_digit_def, simp?)+

lemma words:
  "skipCommentTokens (''null'' @ s) = (tokenNull, ''null'', s)"
  "skipCommentTokens (''true'' @ s) = (tokenTrue, ''true'', s)"
  "skipCommentTokens (''false'' @ s) = (tokenFalse, ''false'', s)"
  by (rule skip_no_comment; simp add: readToken_def skipSpaces_def token_rest_def is_digit_def
      token_or_error_def match_text_def)+

lemma after_simps:
  "after_element (CHR '']'' # s) = Some (False, s)" "after_element (CHR '','' # s) = Some (True, s)"
  "after_member (CHR ''}'' # s) = Some (False, s)" "after_member (CHR '','' # s) = Some (True, s)"
  by (simp_all add: after_element_def after_member_def punctuation)

lemma string_skip: "skipCommentTokens (valueToQuotedStringN s @ r) = (tokenString, valueToQuotedStringN s, r)"
  by (rule skip_no_comment) (simp_all add: string_token)

lemma member_name_quoted: "member_name tokenString (valueToQuotedStringN k) (CHR '':'' # s) = Some (k, s)"
  by (simp add: member_name_def decodeString_quoted punctuation)

lemma ends_simps [simp]: "ends (CHR '','' # s)" "ends (CHR '']'' # s)" "ends (CHR ''}'' # s)" "ends [CHR 0x0A]"
  by (simp_all add: ends_def)

definition reads_back :: "'a json_lib_scheme \<Rightarrow> nat \<Rightarrow> json \<Rightarrow> bool" where
  "reads_back L d j = (\<forall>n old r. ends r \<longrightarrow> 2 * length (writeValue L j @ r) + 2 \<le> n \<longrightarrow>
     readValue L n d old (writeValue L j @ r) = Done j r)"

lemma readArray_written:
  assumes "js \<noteq> []" "\<forall>j\<in>set js. reads_back L d j"
    "2 * length (comma_separated (map (writeValue L) js) @ CHR '']'' # r) + 3 \<le> n"
  shows "readArray L n d vs (comma_separated (map (writeValue L) js) @ CHR '']'' # r) = Done (JArr (vs @ js)) r"
  using assms
proof (induction js arbitrary: vs n)
  case (Cons j js)
  obtain k where k: "n = Suc k"
    using Cons.prems(3) by (cases n) auto
  let ?t = "if js = [] then CHR '']'' # r else CHR '','' # comma_separated (map (writeValue L) js) @ CHR '']'' # r"
  have s: "comma_separated (map (writeValue L) (j # js)) @ CHR '']'' # r = writeValue L j @ ?t"
    by (simp add: comma_separated_Cons)
  have v: "readValue L k d JNull (writeValue L j @ ?t) = Done j ?t"
    using Cons.prems(2,3) unfolding s k reads_back_def by simp
  show ?case
  proof (cases "js = []")
    case True
    then show ?thesis
      using v unfolding s k by (simp add: after_simps)
  next
    case False
    then have "readArray L k d (vs @ [j]) (comma_separated (map (writeValue L) js) @ CHR '']'' # r) = Done (JArr ((vs @ [j]) @ js)) r"
      using Cons.prems(2,3) unfolding s k by (intro Cons.IH) auto
    then show ?thesis
      using v False unfolding s k by (simp add: after_simps)
  qed
qed simp

definition member_text :: "'a json_lib_scheme \<Rightarrow> string \<times> json \<Rightarrow> string" where
  "member_text L p = valueToQuotedStringN (fst p) @ CHR '':'' # writeValue L (snd p)"

lemma readObject_written:
  assumes "m \<noteq> []" "\<forall>p\<in>set m. reads_back L d (snd p)" "sorted_wrt key_less (map fst (m0 @ m))"
    "2 * length (comma_separated (map (member_text L) m) @ CHR ''}'' # r) + 2 \<le> n"
  shows "readObject L n d name m0 (comma_separated (map (member_text L) m) @ CHR ''}'' # r) = Done (JObj (m0 @ m)) r"
  using assms
proof (induction m arbitrary: m0 n name)
  case (Cons p m)
  obtain k v where p: "p = (k, v)"
    by fastforce
  obtain l where l: "n = Suc l"
    using Cons.prems(4) by (cases n) auto
  let ?t = "if m = [] then CHR ''}'' # r else CHR '','' # comma_separated (map (member_text L) m) @ CHR ''}'' # r"
  have s: "comma_separated (map (member_text L) (p # m)) @ CHR ''}'' # r =
      valueToQuotedStringN k @ CHR '':'' # writeValue L v @ ?t"
    by (simp add: comma_separated_Cons member_text_def p)
  have "2 * length (writeValue L v @ ?t) + 2 \<le> l"
    using Cons.prems(4) unfolding s l by simp
  then have v: "readValue L l d old (writeValue L v @ ?t) = Done v ?t" for old
    using Cons.prems(2) unfolding p reads_back_def by simp
  have put: "obj_put k v m0 = m0 @ [p]"
    using Cons.prems(3) by (simp add: p obj_put_last sorted_wrt_append)
  show ?case
  proof (cases "m = []")
    case True
    then show ?thesis
      using v unfolding s l by (simp add: string_skip member_name_quoted after_simps put)
  next
    case False
    then have "readObject L l d k (m0 @ [p]) (comma_separated (map (member_text L) m) @ CHR ''}'' # r) = Done (JObj ((m0 @ [p]) @ m)) r"
      using Cons.prems(2,3,4) unfolding s l by (intro Cons.IH) auto
    then show ?thesis
      using v False unfolding s l by (simp add: string_skip member_name_quoted after_simps put)
  qed
qed simp

lemma reads_back_array:
  assumes "d < stackLimit_g" "\<forall>j\<in>set js. reads_back L (Suc d) j" "\<forall>j\<in>set js. plain_start (writeValue L j)"
  shows "reads_back L d (JArr js)"
  unfolding reads_back_def
proof (intro allI impI)
  fix n old r
  assume r: "ends r" and n: "2 * length (writeValue L (JArr js) @ r) + 2 \<le> n"
  obtain k where k: "n = Suc k"
    using n by (cases n) auto
  let ?s = "comma_separated (map (writeValue L) js) @ CHR '']'' # r"
  show "readValue L n d old (writeValue L (JArr js) @ r) = Done (JArr js) r"
  proof (cases js)
    case Nil
    then show ?thesis
      using assms(1) unfolding k by (simp add: punctuation) (simp add: skipSpaces_def)
  next
    case (Cons j js')
    have "plain_start ?s"
      using assms(3) by (simp add: Cons comma_separated_Cons plain_start_append)
    then have "skipSpaces ?s = ?s" "hd ?s \<noteq> CHR '']''"
      by (auto simp: skipSpaces_plain plain_start_def)
    moreover have "readArray L k (Suc d) [] ?s = Done (JArr ([] @ js)) r"
      using assms(2) n k Cons by (intro readArray_written) auto
    ultimately show ?thesis
      using assms(1) unfolding k by (simp add: punctuation)
  qed
qed

lemma reads_back_object:
  assumes "d < stackLimit_g" "\<forall>p\<in>set m. reads_back L (Suc d) (snd p)" "sorted_wrt key_less (map fst m)"
  shows "reads_back L d (JObj m)"
  unfolding reads_back_def
proof (intro allI impI)
  fix n old r
  assume r: "ends r" and n: "2 * length (writeValue L (JObj m) @ r) + 2 \<le> n"
  obtain k where k: "n = Suc k"
    using n by (cases n) auto
  have w: "writeValue L (JObj m) = CHR ''{'' # comma_separated (map (member_text L) m) @ [CHR ''}'']"
    by (simp add: member_text_def[abs_def] case_prod_unfold)
  show "readValue L n d old (writeValue L (JObj m) @ r) = Done (JObj m) r"
  proof (cases m)
    case Nil
    then obtain l where "k = Suc l"
      using n k by (cases k) auto
    then show ?thesis
      using assms(1) Nil unfolding k by (simp add: punctuation)
  next
    case (Cons p m')
    have "readObject L k (Suc d) '''' [] (comma_separated (map (member_text L) m) @ CHR ''}'' # r) = Done (JObj ([] @ m)) r"
      using assms(2,3) n Cons unfolding k w by (intro readObject_written) auto
    then show ?thesis
      using assms(1) unfolding k w by (simp add: punctuation)
  qed
qed

lemma reads_back_scalar:
  assumes "d < stackLimit_g"
    "\<And>r. ends r \<Longrightarrow> \<exists>t token. skipCommentTokens (writeValue L j @ r) = (t, token, r) \<and>
      t \<noteq> tokenObjectBegin \<and> t \<noteq> tokenArrayBegin \<and> (\<forall>old. scalar_value L t token old r = Done j r)"
  shows "reads_back L d j"
  unfolding reads_back_def
proof (intro allI impI)
  fix n old r
  assume r: "ends r" and n: "2 * length (writeValue L j @ r) + 2 \<le> n"
  obtain k where k: "n = Suc k"
    using n by (cases n) auto
  show "readValue L n d old (writeValue L j @ r) = Done j r"
    using assms(1) assms(2)[OF r] unfolding k by auto
qed

lemma reads_back_number:
  assumes "d < stackLimit_g" "readable_number L x"
  shows "reads_back L d (JNum x)"
proof (rule reads_back_scalar[OF assms(1)])
  fix r assume r: "ends r"
  have "skipCommentTokens (number_text L x @ r) = (tokenNumber, number_text L x, r)"
    by (rule skip_no_comment[OF number_text_read(1)[OF assms(2) r]]) simp
  then show "\<exists>t token. skipCommentTokens (writeValue L (JNum x) @ r) = (t, token, r) \<and>
      t \<noteq> tokenObjectBegin \<and> t \<noteq> tokenArrayBegin \<and> (\<forall>old. scalar_value L t token old r = Done (JNum x) r)"
    by (simp add: scalar_value_def of_decoded_def number_text_read(2)[OF assms(2) r])
qed

lemma reads_back_null: "d < stackLimit_g \<Longrightarrow> reads_back L d JNull"
  by (intro reads_back_scalar) (simp_all add: words(1)[simplified] scalar_value_def)

lemma reads_back_bool: "d < stackLimit_g \<Longrightarrow> reads_back L d (JBool b)"
  by (intro reads_back_scalar) (cases b; simp add: words(2,3)[simplified] scalar_value_def)+

lemma reads_back_string: "d < stackLimit_g \<Longrightarrow> reads_back L d (JStr s)"
  by (intro reads_back_scalar) (simp_all add: string_skip scalar_value_def of_decoded_def decodeString_quoted)

lemma readable_reads_back: "readable_json L d j \<Longrightarrow> reads_back L d j"
proof (induction L d j rule: readable_json.induct)
  case (1 L d r)
  then show ?case by (simp add: reads_back_number)
next
  case (2 L d js)
  then show ?case
    by (intro reads_back_array) (auto simp: list_all_iff plain_start_value)
next
  case (3 L d m)
  then show ?case
    by (intro reads_back_object) (auto simp: list_all_iff)
qed (auto intro: reads_back_null reads_back_bool reads_back_string)

lemma Reader_parse_write:
  assumes "readable_json L 0 j"
  shows "Reader_parse L (FastWriter_write L j) = Some (True, j)"
proof -
  have "readValue L (reader_fuel (FastWriter_write L j)) 0 JNull (writeValue L j @ [CHR 0x0A]) = Done j [CHR 0x0A]"
    using readable_reads_back[OF assms]
    unfolding reads_back_def FastWriter_write_def reader_fuel_def by (meson ends_simps(4) le_refl)
  then show ?thesis
    by (simp add: Reader_parse_def FastWriter_write_def)
qed

section \<open>When the reader throws\<close>

text \<open>What remains is an end of the text, so it has no more opening brackets.\<close>

definition openings :: "string \<Rightarrow> nat" where
  "openings s = length (filter (\<lambda>c. c = CHR ''{'' \<or> c = CHR ''['') s)"

lemma openings_Cons: "openings (c # cs) = (if c = CHR ''{'' \<or> c = CHR ''['' then Suc (openings cs) else openings cs)"
  by (simp add: openings_def)

lemma openings_suffix: "suffix r s \<Longrightarrow> openings r \<le> openings s"
  by (auto simp: suffix_def openings_def)

lemma suffix_tl_dropWhile: "suffix (dropWhile P (tl s)) s"
  by (meson suffix_dropWhile suffix_order.trans suffix_tl)

lemma suffix_readCStyleComment: "suffix (snd (readCStyleComment s)) s"
  by (induction s rule: readCStyleComment.induct) (auto simp: suffix_Cons)

lemma suffix_readCppStyleComment: "suffix (readCppStyleComment s) s"
  by (induction s rule: readCppStyleComment.induct) (auto simp: suffix_Cons)

lemma suffix_readComment: "suffix (snd (readComment s)) s"
  using suffix_readCStyleComment[of "tl s"] suffix_readCppStyleComment[of "tl s"]
  by (auto simp: readComment_def suffix_Cons split: list.splits)

lemma suffix_readString: "suffix (snd (readString s)) s"
proof (induction s rule: readString.induct)
  case (2 c cs)
  show ?case
  proof (cases cs)
    case (Cons e ds)
    then show ?thesis
      using 2 by (cases "c = CHR 0x5C"; cases "c = CHR 0x22") (simp_all add: suffix_Cons)
  qed simp
qed simp

lemma suffix_readNumber: "suffix (readNumber s) s"
proof -
  define s1 where "s1 = dropWhile is_digit s"
  define s2 where "s2 = (if s1 \<noteq> [] \<and> hd s1 = CHR ''.'' then dropWhile is_digit (tl s1) else s1)"
  define s3 where "s3 = (if tl s2 \<noteq> [] \<and> (hd (tl s2) = CHR ''+'' \<or> hd (tl s2) = CHR ''-'') then tl (tl s2) else tl s2)"
  have 2: "suffix s2 s1" "suffix s1 s"
    by (simp_all add: s1_def s2_def suffix_dropWhile suffix_tl_dropWhile)
  have "suffix s3 s2"
    unfolding s3_def using suffix_order.trans[OF suffix_tl[of "tl s2"] suffix_tl[of s2]] suffix_tl[of s2] by auto
  then have "suffix (dropWhile is_digit s3) s2"
    by (rule suffix_order.trans[OF suffix_dropWhile])
  moreover have "readNumber s = (if s2 \<noteq> [] \<and> (hd s2 = CHR ''e'' \<or> hd s2 = CHR ''E'') then dropWhile is_digit s3 else s2)"
    unfolding readNumber_def s1_def s2_def s3_def Let_def by (rule refl)
  ultimately show ?thesis
    using 2 by (auto intro: suffix_order.trans)
qed

lemma suffix_token_rest: "suffix (snd (token_rest c cs)) cs"
  using suffix_readString[of cs] suffix_readComment[of cs] suffix_readNumber[of cs]
  unfolding token_rest_def token_or_error_def
  by (simp only: if_distrib[of snd] snd_conv) (simp add: match_text_def suffix_drop)

lemma openings_readToken:
  assumes "readToken s = (t, x, rest)"
  shows "openings rest \<le> openings s \<and> (t = tokenObjectBegin \<or> t = tokenArrayBegin \<longrightarrow> openings rest < openings s)"
proof (cases "skipSpaces s")
  case (Cons c cs)
  have s: "openings (c # cs) \<le> openings s"
    using openings_suffix[OF suffix_dropWhile[of "\<lambda>c. c \<in> {CHR '' '', CHR 0x09, CHR 0x0D, CHR 0x0A}" s]] Cons
    by (simp add: skipSpaces_def)
  have r: "token_rest c cs = (t, rest)"
    using assms Cons by (simp add: readToken_def split: prod.splits)
  then have le: "openings rest \<le> openings cs"
    using openings_suffix[OF suffix_token_rest[of c cs]] by simp
  have "c = CHR ''{'' \<or> c = CHR ''[''" if "t = tokenObjectBegin \<or> t = tokenArrayBegin"
    using r that unfolding token_rest_def token_or_error_def
    by (simp split: if_splits; fastforce)
  then show ?thesis
    using le s by (auto simp: openings_Cons split: if_splits)
qed (use assms in \<open>auto simp: readToken_def openings_def\<close>)


lemma openings_skipCommentTokens:
  "skipCommentTokens s = (t, x, rest) \<Longrightarrow>
    openings rest \<le> openings s \<and> (t = tokenObjectBegin \<or> t = tokenArrayBegin \<longrightarrow> openings rest < openings s)"
proof (induction s arbitrary: t x rest rule: skipCommentTokens.induct)
  case (1 s)
  obtain t1 x1 r1 where r: "readToken s = (t1, x1, r1)"
    by (cases "readToken s") auto
  show ?case
  proof (cases "t1 = tokenComment")
    case True
    then have "skipCommentTokens r1 = (t, x, rest)"
      using 1(2) r by (simp add: skipCommentTokens.simps[of s])
    then show ?thesis
      using 1(1)[of t1 "(x1, r1)" x1 r1] r True openings_readToken[OF r] by fastforce
  next
    case False
    then show ?thesis
      using openings_readToken[OF r] 1(2) r by (auto simp: skipCommentTokens.simps[of s])
  qed
qed

lemma openings_member_name: "member_name t x s = Some (name, rest) \<Longrightarrow> openings rest \<le> openings s"
  by (auto simp: member_name_def split: if_splits option.splits prod.splits dest!: openings_readToken)

lemma openings_after_member: "after_member s = Some (goes_on, rest) \<Longrightarrow> openings rest \<le> openings s"
  by (auto simp: after_member_def split: if_splits prod.splits dest!: openings_readToken openings_skipCommentTokens)

lemma openings_after_element: "after_element s = Some (goes_on, rest) \<Longrightarrow> openings rest \<le> openings s"
  by (auto simp: after_element_def split: if_splits prod.splits dest!: openings_skipCommentTokens)

lemma openings_skipSpaces: "openings (skipSpaces s) \<le> openings s"
  by (simp add: skipSpaces_def openings_suffix suffix_dropWhile)

definition shallow :: "nat \<Rightarrow> string \<Rightarrow> read_result \<Rightarrow> bool" where
  "shallow d s x = ((x = Stack_limit \<longrightarrow> stackLimit_g \<le> d + openings s) \<and>
     (\<forall>v rest. x = Done v rest \<longrightarrow> openings rest \<le> openings s))"

lemma shallow_simps [simp]:
  "shallow d s (Done v rest) = (openings rest \<le> openings s)" "shallow d s (Failed v)" "shallow d s Out_of_fuel"
  "shallow d s Stack_limit = (stackLimit_g \<le> d + openings s)"
  by (simp_all add: shallow_def)

lemma shallow_mono: "shallow d' r x \<Longrightarrow> openings r \<le> openings s \<Longrightarrow> d' + openings r \<le> d + openings s \<Longrightarrow> shallow d s x"
  by (auto simp: shallow_def)

lemma shallow_scalar: "openings rest \<le> openings s \<Longrightarrow> shallow d s (scalar_value L t token old rest)"
  by (simp add: scalar_value_def of_decoded_def split: token_type.splits option.splits)

lemma value_shallow:
  assumes obj: "\<And>name m s. shallow (Suc d) s (readObject L n (Suc d) name m s) \<or> stackLimit_g \<le> d"
    and arr: "\<And>vs s. shallow (Suc d) s (readArray L n (Suc d) vs s) \<or> stackLimit_g \<le> d"
  shows "shallow d s (readValue L (Suc n) d old s)"
proof (cases "d \<ge> stackLimit_g")
  case False
  obtain t token rest where t: "skipCommentTokens s = (t, token, rest)"
    by (cases "skipCommentTokens s") auto
  note o = openings_skipCommentTokens[OF t] openings_skipSpaces[of rest]
  have tl: "openings (tl r) \<le> openings r" for r
    by (simp add: openings_suffix suffix_tl)
  have "shallow d s (readObject L n (Suc d) '''' [] rest)" if "t = tokenObjectBegin"
    using shallow_mono[of "Suc d" rest _ s d] obj o that False by fastforce
  moreover have "shallow d s (readArray L n (Suc d) [] (skipSpaces rest))" if "t = tokenArrayBegin"
    using shallow_mono[of "Suc d" "skipSpaces rest" _ s d] arr o that False by fastforce
  moreover have "openings (tl (skipSpaces rest)) \<le> openings s"
    using tl[of "skipSpaces rest"] o by simp
  ultimately show ?thesis
    using False t o by (simp add: shallow_scalar)
qed simp

lemma object_shallow:
  assumes val: "\<And>old s. shallow d s (readValue L n d old s)"
    and obj: "\<And>name m s. shallow d s (readObject L n d name m s)"
  shows "shallow d s (readObject L (Suc n) d name m s)"
proof -
  obtain t token rest where t: "skipCommentTokens s = (t, token, rest)"
    by (cases "skipCommentTokens s") auto
  note o = openings_skipCommentTokens[OF t]
  show ?thesis
  proof (cases "member_name t token rest")
    case None
    then show ?thesis using t o by simp
  next
    case (Some p)
    obtain name' rest1 where p: "p = (name', rest1)" by fastforce
    have o1: "openings rest1 \<le> openings rest"
      using openings_member_name Some p by simp
    let ?v = "readValue L n d (case map_of m name' of None \<Rightarrow> JNull | Some v \<Rightarrow> v) rest1"
    have v: "shallow d rest1 ?v"
      by (rule val)
    have "shallow d s (readObject L n d name' m' rest3)" if "openings rest3 \<le> openings s" for m' rest3
      using shallow_mono[OF obj] that by simp
    then show ?thesis
      using t Some p v o o1
      by (cases ?v) (auto split: option.splits prod.splits dest!: openings_after_member)
  qed
qed

lemma array_shallow:
  assumes val: "\<And>old s. shallow d s (readValue L n d old s)"
    and arr: "\<And>vs s. shallow d s (readArray L n d vs s)"
  shows "shallow d s (readArray L (Suc n) d vs s)"
proof -
  have "shallow d s (readArray L n d vs' rest)" if "openings rest \<le> openings s" for vs' rest
    using shallow_mono[OF arr] that by simp
  then show ?thesis
    using val[of s JNull]
    by (cases "readValue L n d JNull s") (auto split: option.splits prod.splits dest!: openings_after_element)
qed

lemma reading_shallow:
  "(\<forall>d old s. shallow d s (readValue L n d old s)) \<and>
   (\<forall>d name m s. shallow d s (readObject L n d name m s)) \<and>
   (\<forall>d vs s. shallow d s (readArray L n d vs s))"
proof (induction n)
  case (Suc n)
  then show ?case
    by (intro conjI allI value_shallow object_shallow array_shallow) simp_all
qed simp

lemma Reader_parse_throws:
  assumes "Reader_parse L s = None"
  shows "stackLimit_g \<le> openings s"
proof -
  have "readValue L (reader_fuel s) 0 JNull s = Stack_limit"
    using assms reader_fuel_enough[of L s] by (simp add: Reader_parse_def split: read_result.splits)
  then show ?thesis
    using conjunct1[OF reading_shallow[of L "reader_fuel s"], rule_format, of 0 s JNull] by simp
qed

text \<open>As many brackets as the limit do make it throw.\<close>

lemma readValue_brackets:
  "stackLimit_g \<le> d + k \<Longrightarrow> 2 * k + 1 \<le> n \<Longrightarrow> readValue L n d old (replicate k (CHR ''['')) = Stack_limit"
proof (induction k arbitrary: d n old)
  case 0
  then show ?case by (cases n) auto
next
  case (Suc k)
  obtain l where l: "n = Suc (Suc l)" "2 * k + 1 \<le> l"
    using Suc.prems(2) by (cases n; cases "n - 1") auto
  have "skipSpaces (replicate k (CHR ''['')) = replicate k (CHR ''['')"
    by (cases k) (simp_all add: skipSpaces_def)
  moreover have "\<not> (0 < k \<and> hd (replicate k (CHR ''['')) = CHR '']'')"
    by (cases k) simp_all
  moreover have "readValue L l (Suc d) JNull (replicate k (CHR ''['')) = Stack_limit"
    using Suc.prems(1) l(2) by (intro Suc.IH) auto
  ultimately show ?case
    by (auto simp: l(1) punctuation)
qed

lemma Reader_parse_brackets: "Reader_parse L (replicate stackLimit_g (CHR ''['')) = None"
  using readValue_brackets[of 0 stackLimit_g "reader_fuel (replicate stackLimit_g (CHR ''[''))" L JNull]
  by (simp add: Reader_parse_def reader_fuel_def del: readValue.simps)

end
