(* ===== verification/Event.thy ===== *)
theory Event
  imports Json_Text
begin

text \<open>
  The events of the client: \<open>CIgniteEvent\<close> (libEvent/src/CIgniteEvent.cpp) and \<open>CEventWrapper\<close>
  (libCore/src/dam/CEventWrapper.cpp), the fields they keep, and their conversion from and to
  JSON text. Where jsoncpp throws, the result is \<open>None\<close>.
\<close>

section \<open>Events\<close>

text \<open>The members of \<open>m_jsonEventFields\<close> are fields of their own; a missing one is null, except
  for the three that the code asks for with \<open>isMember\<close>.\<close>

record ignite_event =
  ev_id :: string
  ev_version :: string
  ev_timestamp :: json
  ev_timezone :: json
  ev_biz :: "string option"
  ev_msgid :: "string option"
  ev_corr :: "string option"
  m_jsonValue :: json
  m_jsonPiiFields :: json
  m_vectAttachment :: "string list"

type_synonym event = ignite_event

definition EVENT_ID_TAG :: string where "EVENT_ID_TAG = ''EventID''"
definition MODE_TAG :: string where "MODE_TAG = ''BenchMode''"
definition TIMESTAMP_TAG :: string where "TIMESTAMP_TAG = ''Timestamp''"
definition TIMEZONE_TAG :: string where "TIMEZONE_TAG = ''Timezone''"
definition VALUE_TAG :: string where "VALUE_TAG = ''Data''"
definition VERSION_TAG :: string where "VERSION_TAG = ''Version''"
definition FILE_ATTACHMENT_TAG :: string where "FILE_ATTACHMENT_TAG = ''UploadId''"
definition PII_TAG :: string where "PII_TAG = ''pii''"
definition BIZTRANCID :: string where "BIZTRANCID = ''BizTransactionId''"
definition MSGID :: string where "MSGID = ''MessageId''"
definition CORID :: string where "CORID = ''CorrelationId''"

lemmas tag_defs = EVENT_ID_TAG_def MODE_TAG_def TIMESTAMP_TAG_def TIMEZONE_TAG_def VALUE_TAG_def
  VERSION_TAG_def FILE_ATTACHMENT_TAG_def PII_TAG_def BIZTRANCID_def MSGID_def CORID_def

definition GetTimestamp :: "event \<Rightarrow> rat option" where
  "GetTimestamp e = asDouble (ev_timestamp e)"

definition SetTimestamp :: "rat \<Rightarrow> event \<Rightarrow> event" where
  "SetTimestamp t e = e\<lparr>ev_timestamp := JNum t\<rparr>"

definition SetTimezone :: "int \<Rightarrow> event \<Rightarrow> event" where
  "SetTimezone n e = (if -720 \<le> n \<and> n \<le> 840 then e\<lparr>ev_timezone := JNum (of_int n)\<rparr> else e)"

definition GetTimezone :: "event \<Rightarrow> int option" where
  "GetTimezone e = asInt (ev_timezone e)"

definition AddField :: "string \<Rightarrow> json \<Rightarrow> event \<Rightarrow> event option" where
  "AddField k v e = map_option (\<lambda>d. e\<lparr>m_jsonValue := d\<rparr>) (json_put k v (m_jsonValue e))"

definition Hasfield :: "string \<Rightarrow> event \<Rightarrow> bool option" where
  "Hasfield k e = isMember (m_jsonValue e) k"

text \<open>\<open>CEventWrapper::GetInt\<close> and \<open>GetString\<close>.\<close>

definition Event_GetInt :: "string \<Rightarrow> int \<Rightarrow> event \<Rightarrow> int option" where
  "Event_GetInt k d e = (case isMember (m_jsonValue e) k of
      None \<Rightarrow> None
    | Some b \<Rightarrow> (if b then Option.bind (json_at (m_jsonValue e) k)
        (\<lambda>v. if isInt v then asInt v else Some d) else Some d))"

definition GetString :: "'a json_lib_scheme \<Rightarrow> string \<Rightarrow> string \<Rightarrow> event \<Rightarrow> string option" where
  "GetString L k d e = (case isMember (m_jsonValue e) k of
      None \<Rightarrow> None
    | Some b \<Rightarrow> (if b then Option.bind (json_at (m_jsonValue e) k) (asString L) else Some d))"

text \<open>\<open>ExtractName\<close>: \<open>substr(npos)\<close> of a name without underscore throws.\<close>

definition ExtractName :: "string \<Rightarrow> json \<Rightarrow> json option" where
  "ExtractName name value =
     (if CHR ''_'' \<in> set name
      then json_put (takeWhile (\<lambda>c. c \<noteq> CHR ''_'') name) (JStr (dropWhile (\<lambda>c. c \<noteq> CHR ''_'') name)) value
      else None)"

fun attachments_to_json :: "string list \<Rightarrow> json \<Rightarrow> (json list \<times> json) option" where
  "attachments_to_json [] value = Some ([], value)"
| "attachments_to_json (a # as) value =
     (if take 3 a = ''v3_'' then map_option (\<lambda>(js, v). (JStr a # js, v)) (attachments_to_json as value)
      else Option.bind (ExtractName a value) (attachments_to_json as))"

text \<open>The text, and the event with the data that \<open>ExtractName\<close> changes.\<close>

definition put_some :: "string \<Rightarrow> json option \<Rightarrow> (string \<times> json) list \<Rightarrow> (string \<times> json) list" where
  "put_some k v m = (case v of None \<Rightarrow> m | Some x \<Rightarrow> obj_put k x m)"

definition event_root :: "'a json_lib_scheme \<Rightarrow> json list option \<Rightarrow> event \<Rightarrow> (string \<times> json) list" where
  "event_root L files e =
     put_some CORID (map_option JStr (ev_corr e))
      (put_some MSGID (map_option JStr (ev_msgid e))
       (put_some BIZTRANCID (map_option JStr (ev_biz e))
        (obj_put TIMEZONE_TAG (ev_timezone e)
         (put_some PII_TAG (if json_empty (m_jsonPiiFields e) then None else Some (m_jsonPiiFields e))
          (obj_put VALUE_TAG (m_jsonValue e)
           (put_some FILE_ATTACHMENT_TAG (map_option JArr files)
            (obj_put TIMESTAMP_TAG (ev_timestamp e)
             (put_some MODE_TAG (if bBenchMode L then Some (JNum 1) else None)
              (obj_put VERSION_TAG (JStr (ev_version e))
               (obj_put EVENT_ID_TAG (JStr (ev_id e)) []))))))))))"

definition EventToJson :: "'a json_lib_scheme \<Rightarrow> event \<Rightarrow> (string \<times> event) option" where
  "EventToJson L e = (case m_vectAttachment e of
      [] \<Rightarrow> Some (FastWriter_write L (JObj (event_root L None e)), e)
    | a # as \<Rightarrow> (case attachments_to_json as (m_jsonValue e) of
          None \<Rightarrow> None
        | Some (js, v) \<Rightarrow> (let e' = e\<lparr>m_jsonValue := v\<rparr> in
            Some (FastWriter_write L (JObj (event_root L (Some (JStr a # js)) e')), e'))))"

section \<open>JSON text to events\<close>

text \<open>\<open>JsonToEvent\<close> ignores whether the text parses and reads what the parser left. A member that
  is missing is null, a text that is not an object throws.\<close>

definition string_at :: "'a json_lib_scheme \<Rightarrow> json \<Rightarrow> string \<Rightarrow> string option" where
  "string_at L jsonRoot k = Option.bind (json_at jsonRoot k) (asString L)"

definition string_member :: "'a json_lib_scheme \<Rightarrow> json \<Rightarrow> string \<Rightarrow> string option \<Rightarrow> string option option" where
  "string_member L jsonRoot k old = Option.bind (isMember jsonRoot k)
     (\<lambda>b. if b then map_option Some (string_at L jsonRoot k) else Some old)"

fun strings_of :: "'a json_lib_scheme \<Rightarrow> json list \<Rightarrow> string list option" where
  "strings_of L [] = Some []"
| "strings_of L (j # js) = Option.bind (asString L j) (\<lambda>s. map_option ((#) s) (strings_of L js))"

definition attachments_of :: "'a json_lib_scheme \<Rightarrow> json \<Rightarrow> string list option" where
  "attachments_of L jsonRoot = Option.bind (json_at jsonRoot FILE_ATTACHMENT_TAG)
     (\<lambda>v. case v of JArr js \<Rightarrow> strings_of L js | _ \<Rightarrow> Some [])"

definition timezone_of :: "json \<Rightarrow> json \<Rightarrow> json option" where
  "timezone_of jsonRoot old = Option.bind (isMember jsonRoot TIMEZONE_TAG)
     (\<lambda>b. if b then map_option (\<lambda>n. JNum (of_int n)) (Option.bind (json_at jsonRoot TIMEZONE_TAG) asInt)
          else Some old)"

definition JsonToEvent :: "'a json_lib_scheme \<Rightarrow> string \<Rightarrow> event \<Rightarrow> event option" where
  "JsonToEvent L str e =
     Option.bind (Reader_parse L str) (\<lambda>(_, jsonRoot).
      Option.bind (string_at L jsonRoot VERSION_TAG) (\<lambda>version.
      Option.bind (string_at L jsonRoot EVENT_ID_TAG) (\<lambda>i.
      Option.bind (Option.bind (json_at jsonRoot TIMESTAMP_TAG) asUInt64) (\<lambda>ts.
      Option.bind (timezone_of jsonRoot (ev_timezone e)) (\<lambda>tz.
      Option.bind (attachments_of L jsonRoot) (\<lambda>files.
      Option.bind (json_at jsonRoot VALUE_TAG) (\<lambda>data.
      Option.bind (isMember jsonRoot PII_TAG) (\<lambda>pii.
      Option.bind (json_at jsonRoot PII_TAG) (\<lambda>pii_value.
      Option.bind (string_member L jsonRoot BIZTRANCID (ev_biz e)) (\<lambda>biz.
      Option.bind (string_member L jsonRoot CORID (ev_corr e)) (\<lambda>corr.
      Option.bind (string_member L jsonRoot MSGID (ev_msgid e)) (\<lambda>msgid.
        Some (e\<lparr>ev_version := version, ev_id := i, ev_timestamp := JNum (of_int ts), ev_timezone := tz,
          m_vectAttachment := m_vectAttachment e @ files, m_jsonValue := data,
          m_jsonPiiFields := (if pii then pii_value else m_jsonPiiFields e),
          ev_biz := biz, ev_corr := corr, ev_msgid := msgid\<rparr>)))))))))))))"

text \<open>\<open>CEventWrapper()\<close> at the given time zone; the time is overwritten.\<close>

definition new_event :: "int \<Rightarrow> rat \<Rightarrow> event" where
  "new_event tz now = \<lparr>ev_id = '''', ev_version = '''', ev_timestamp = JNum now, ev_timezone = JNum (of_int tz),
     ev_biz = None, ev_msgid = None, ev_corr = None, m_jsonValue = JObj [], m_jsonPiiFields = JObj [],
     m_vectAttachment = []\<rparr>"

text \<open>\<open>CIgniteEvent(version, id, timestamp)\<close>.\<close>

definition make_event :: "string \<Rightarrow> string \<Rightarrow> int \<Rightarrow> rat \<Rightarrow> event" where
  "make_event v i tz t = (new_event tz t)\<lparr>ev_id := i, ev_version := v\<rparr>"

section \<open>The round trip\<close>

text \<open>An event as the program makes them: a whole time, a time zone, and attachments that were
  stored (their names begin with \<open>v3_\<close>).\<close>

definition whole_time :: "event \<Rightarrow> bool" where
  "whole_time e = (\<exists>n. ev_timestamp e = JNum (of_int n) \<and> 0 \<le> n \<and> n < 2 ^ 63)"

definition regular :: "event \<Rightarrow> bool" where
  "regular e = (whole_time e \<and> (\<exists>n. ev_timezone e = JNum (of_int n) \<and> -2147483648 \<le> n \<and> n \<le> 2147483647) \<and>
     (\<forall>a\<in>set (m_vectAttachment e). take 3 a = ''v3_''))"

lemma cast_double_of_int [simp]: "cast_double (of_int n) = n"
  by (simp add: cast_double_def)

lemma map_of_put_some [simp]:
  "map_of (put_some k v m) x = (if x = k \<and> v \<noteq> None then v else map_of m x)"
  by (auto simp: put_some_def split: option.splits)

lemma attachments_to_json_stored:
  "\<forall>a\<in>set as. take 3 a = ''v3_'' \<Longrightarrow> attachments_to_json as v = Some (map JStr as, v)"
  by (induction as) auto

lemma strings_of_JStr [simp]: "strings_of L (map JStr as) = Some as"
  by (induction as) auto

lemma EventToJson_regular:
  assumes "regular e"
  shows "EventToJson L e = Some (FastWriter_write L (JObj (event_root L
     (if m_vectAttachment e = [] then None else Some (map JStr (m_vectAttachment e))) e)), e)"
  using assms
  by (cases "m_vectAttachment e") (auto simp: EventToJson_def regular_def attachments_to_json_stored)

lemma asUInt64_whole:
  assumes "0 \<le> n" "n < 2 ^ 63"
  shows "asUInt64 (JNum (of_int n)) = Some n"
proof -
  have "n \<le> 18446744073709551615"
    using assms(2) by simp
  then have "(of_int n :: rat) \<le> of_int 18446744073709551615"
    by (simp only: of_int_le_iff)
  then show ?thesis
    using assms(1) by simp
qed

lemma asInt_small:
  assumes "-2147483648 \<le> n" "n \<le> 2147483647"
  shows "asInt (JNum (of_int n)) = Some n"
proof -
  have "(of_int (-2147483648) :: rat) \<le> of_int n" "(of_int n :: rat) \<le> of_int 2147483647"
    using assms by (simp_all only: of_int_le_iff)
  then show ?thesis by simp
qed

text \<open>What is written into the root is found there again.\<close>

lemma event_root_members:
  "map_of (event_root L files e) EVENT_ID_TAG = Some (JStr (ev_id e))"
  "map_of (event_root L files e) VERSION_TAG = Some (JStr (ev_version e))"
  "map_of (event_root L files e) TIMESTAMP_TAG = Some (ev_timestamp e)"
  "map_of (event_root L files e) TIMEZONE_TAG = Some (ev_timezone e)"
  "map_of (event_root L files e) VALUE_TAG = Some (m_jsonValue e)"
  "map_of (event_root L files e) FILE_ATTACHMENT_TAG = map_option JArr files"
  "map_of (event_root L files e) PII_TAG =
     (if json_empty (m_jsonPiiFields e) then None else Some (m_jsonPiiFields e))"
  "map_of (event_root L files e) BIZTRANCID = map_option JStr (ev_biz e)"
  "map_of (event_root L files e) CORID = map_option JStr (ev_corr e)"
  "map_of (event_root L files e) MSGID = map_option JStr (ev_msgid e)"
  by (simp_all add: event_root_def tag_defs option.map_id0)

text \<open>The root is an object as the parser wants it, when the data and the personal data are.\<close>

definition readable_event :: "'a json_lib_scheme \<Rightarrow> event \<Rightarrow> bool" where
  "readable_event L e = (regular e \<and> readable_json L 1 (m_jsonValue e) \<and> readable_json L 1 (m_jsonPiiFields e))"

lemma sorted_put_some: "sorted_wrt key_less (map fst m) \<Longrightarrow> sorted_wrt key_less (map fst (put_some k v m))"
  by (simp add: put_some_def sorted_obj_put split: option.splits)

lemma list_all_obj_put: "list_all (\<lambda>(k, v). P v) m \<Longrightarrow> P v \<Longrightarrow> list_all (\<lambda>(k, v). P v) (obj_put k v m)"
  by (induction k v m rule: obj_put.induct) auto

lemma list_all_put_some:
  "list_all (\<lambda>(k, v). P v) m \<Longrightarrow> (\<And>x. v = Some x \<Longrightarrow> P x) \<Longrightarrow> list_all (\<lambda>(k, v). P v) (put_some k v m)"
  by (simp add: put_some_def list_all_obj_put split: option.splits)

lemma readable_int:
  "- (2 ^ 63) \<le> n \<Longrightarrow> n \<le> 2 ^ 64 - 1 \<Longrightarrow> d < stackLimit_g \<Longrightarrow> readable_json L d (JNum (of_int n))"
  by (simp add: readable_number_def is_integer_def)

lemma small_depth [simp]: "0 < stackLimit_g" "1 < stackLimit_g" "Suc 0 < stackLimit_g" "2 < stackLimit_g" "Suc (Suc 0) < stackLimit_g"
  by (simp_all add: stackLimit_g_def)

lemma readable_root:
  assumes "readable_event L e"
  shows "readable_json L 0 (JObj (event_root L
    (if m_vectAttachment e = [] then None else Some (map JStr (m_vectAttachment e))) e))"
proof -
  obtain n where n: "ev_timestamp e = JNum (of_int n)" "0 \<le> n" "n < 2 ^ 63"
    using assms by (auto simp: readable_event_def regular_def whole_time_def)
  obtain z where z: "ev_timezone e = JNum (of_int z)" "-2147483648 \<le> z" "z \<le> 2147483647"
    using assms by (auto simp: readable_event_def regular_def)
  have "readable_json L (Suc 0) (JNum (of_int n))" "readable_json L (Suc 0) (JNum (of_int z))"
    "readable_json L (Suc 0) (JNum (of_int 1))"
    using n(2,3) z(2,3) by (intro readable_int; simp)+
  moreover have "list_all (readable_json L (Suc (Suc 0))) (map JStr as)" for as
    by (simp add: list_all_iff)
  ultimately have "list_all (\<lambda>(k, v). readable_json L (Suc 0) v) (event_root L
      (if m_vectAttachment e = [] then None else Some (map JStr (m_vectAttachment e))) e)"
    using assms unfolding event_root_def n(1) z(1) readable_event_def
    by (intro list_all_put_some list_all_obj_put) (auto split: if_splits)
  moreover have "sorted_wrt key_less (map fst (event_root L fs e))" for fs
    unfolding event_root_def by (intro sorted_put_some sorted_obj_put) simp
  ultimately show ?thesis
    by simp
qed

text \<open>An empty object of personal data is not written, and one is what a new event has.\<close>

lemma JsonToEvent_EventToJson:
  assumes e: "readable_event L e" and pii: "json_empty (m_jsonPiiFields e) \<Longrightarrow> m_jsonPiiFields e = m_jsonPiiFields e0"
    and e0: "m_vectAttachment e0 = []" "ev_biz e0 = None" "ev_msgid e0 = None" "ev_corr e0 = None"
  shows "\<exists>str. EventToJson L e = Some (str, e) \<and> JsonToEvent L str e0 = Some e"
proof -
  let ?files = "if m_vectAttachment e = [] then None else Some (map JStr (m_vectAttachment e))"
  let ?str = "FastWriter_write L (JObj (event_root L ?files e))"
  have r: "regular e"
    using e by (simp add: readable_event_def)
  have p: "Reader_parse L ?str = Some (True, JObj (event_root L ?files e))"
    by (rule Reader_parse_write[OF readable_root[OF e]])
  obtain n where n: "ev_timestamp e = JNum (of_int n)" "0 \<le> n" "n < 2 ^ 63"
    using r by (auto simp: regular_def whole_time_def)
  obtain z where z: "ev_timezone e = JNum (of_int z)" "-2147483648 \<le> z" "z \<le> 2147483647"
    using r by (auto simp: regular_def)
  have "JsonToEvent L ?str e0 = Some e"
    using pii e0
    by (cases "ev_biz e"; cases "ev_msgid e"; cases "ev_corr e")
      (simp_all del: asInt.simps asUInt64.simps
        add: JsonToEvent_def p Let_def string_at_def timezone_of_def attachments_of_def
        string_member_def event_root_members n(1) z(1) asUInt64_whole[OF n(2,3)] asInt_small[OF z(2,3)])
  then show ?thesis
    using EventToJson_regular[OF r] by blast
qed

end
