(* ===== verification/Upload_Mode.thy ===== *)
theory Upload_Mode
  imports Event
begin

text \<open>
  \<open>CUploadMode\<close> (libCore/src/config/CUploadMode.cpp): which events are uploaded by stream and
  which in batches, as configured under \<open>uploadMode\<close>. A \<open>std::bitset<2>\<close> is a pair of the
  stream and the batch bit. Every public method holds one lock, so each is one step.
\<close>

section \<open>State\<close>

type_synonym modes = "bool \<times> bool"

definition no_mode :: modes where "no_mode = (False, False)"
definition stream_mode :: modes where "stream_mode = (True, False)"

definition mode_or :: "modes \<Rightarrow> modes \<Rightarrow> modes" where
  "mode_or m n = (fst m \<or> fst n, snd m \<or> snd n)"

definition mode_and :: "modes \<Rightarrow> modes \<Rightarrow> modes" where
  "mode_and m n = (fst m \<and> fst n, snd m \<and> snd n)"

record upload_mode =
  m_ConfiguredModes :: modes
  m_DefaultMode :: modes
  m_mapEventModeMap :: "string \<rightharpoonup> modes"
  m_bAnonymousUploadMode :: bool
  m_bStoreAndForwardEnabled :: bool

section \<open>Reading the configuration\<close>

definition GetModeBitSet :: "string \<Rightarrow> modes \<Rightarrow> modes" where
  "GetModeBitSet mode dflt =
     (if mode = ''stream'' \<or> mode = ''all'' then (True, False)
      else if mode = ''batch'' \<or> mode = ''all'' then (False, True)
      else if mode \<noteq> ''none'' then dflt
      else no_mode)"

text \<open>The elements that \<open>json[i]\<close>, \<open>i < size()\<close>, visits: none of null, an exception otherwise.\<close>

fun elements :: "json \<Rightarrow> json list option" where
  "elements JNull = Some []"
| "elements (JArr js) = Some js"
| "elements (JObj m) = (if m = [] then Some [] else None)"
| "elements _ = Some []"

definition add_mode :: "string \<Rightarrow> string \<Rightarrow> (string \<rightharpoonup> modes) \<Rightarrow> (string \<rightharpoonup> modes)" where
  "add_mode mode i m = m(i \<mapsto> mode_or (case m i of None \<Rightarrow> no_mode | Some x \<Rightarrow> x) (GetModeBitSet mode no_mode))"

definition FillEventModeMap :: "'a json_lib_scheme \<Rightarrow> json \<Rightarrow> string \<Rightarrow> (string \<rightharpoonup> modes) \<Rightarrow> (string \<rightharpoonup> modes) option" where
  "FillEventModeMap L events mode m = Option.bind (isMember events mode) (\<lambda>b.
     if b then Option.bind (json_at events mode) (\<lambda>v. Option.bind (elements v) (\<lambda>js.
       Option.bind (strings_of L js) (\<lambda>ids. Some (fold (add_mode mode) ids m))))
     else Some m)"

fun read_modes :: "'a json_lib_scheme \<Rightarrow> json \<Rightarrow> json list \<Rightarrow> modes \<times> (string \<rightharpoonup> modes) \<Rightarrow> (modes \<times> (string \<rightharpoonup> modes)) option" where
  "read_modes L events [] (tmp, m) = Some (tmp, m)"
| "read_modes L events (j # js) (tmp, m) = Option.bind (asString L j) (\<lambda>mode.
     Option.bind (if events = JNull then Some m else FillEventModeMap L events mode m) (\<lambda>m'.
       read_modes L events js (mode_or tmp (GetModeBitSet mode no_mode), m')))"

definition ReadSupportedModes :: "'a json_lib_scheme \<Rightarrow> json \<Rightarrow> json \<Rightarrow> (string \<rightharpoonup> modes) \<Rightarrow> (modes \<times> (string \<rightharpoonup> modes)) option" where
  "ReadSupportedModes L supported events m =
     Option.bind (elements supported) (\<lambda>js. read_modes L events js (no_mode, m))"

fun bool_member :: "json \<Rightarrow> string \<Rightarrow> bool option" where
  "bool_member (JObj m) k = (case map_of m k of Some (JBool b) \<Rightarrow> Some b | _ \<Rightarrow> Some False)"
| "bool_member JNull k = Some False"
| "bool_member _ k = None"

text \<open>\<open>Init\<close>; without a configuration the two flags keep their values.\<close>

definition default_mode :: "'a json_lib_scheme \<Rightarrow> json \<Rightarrow> modes \<Rightarrow> modes option" where
  "default_mode L events tmp =
     (if events = JNull then Some tmp
      else Option.bind (isMember events ''default'') (\<lambda>b.
        if b then Option.bind (Option.bind (json_at events ''default'') (asString L))
          (\<lambda>d. Some (mode_and (GetModeBitSet d tmp) tmp))
        else Some tmp))"

definition Init_modes :: "'a json_lib_scheme \<Rightarrow> json \<Rightarrow> upload_mode \<Rightarrow> upload_mode option" where
  "Init_modes L config s =
     (let s0 = s\<lparr>m_ConfiguredModes := stream_mode, m_DefaultMode := stream_mode, m_mapEventModeMap := Map.empty\<rparr> in
      if config = JNull then Some s0
      else Option.bind (json_at config ''supported'') (\<lambda>supported.
        Option.bind (json_at config ''events'') (\<lambda>events.
        Option.bind (ReadSupportedModes L
            (if supported = JNull then JArr [JStr ''stream''] else supported) events Map.empty) (\<lambda>(tmp, m).
        Option.bind (default_mode L events tmp) (\<lambda>dflt.
        Option.bind (bool_member config ''anonymousUpload'') (\<lambda>anon.
        Option.bind (bool_member config ''storeAndForward'') (\<lambda>fwd.
          Some (s0\<lparr>m_DefaultMode := dflt, m_ConfiguredModes := tmp, m_mapEventModeMap := m,
            m_bAnonymousUploadMode := anon, m_bStoreAndForwardEnabled := fwd\<rparr>))))))))"

section \<open>Queries\<close>

definition event_modes :: "string \<Rightarrow> upload_mode \<Rightarrow> modes" where
  "event_modes i s = (case m_mapEventModeMap s i of None \<Rightarrow> m_DefaultMode s | Some x \<Rightarrow> x)"

definition IsEventSupportedForBatch :: "string \<Rightarrow> upload_mode \<Rightarrow> bool" where
  "IsEventSupportedForBatch i s = snd (event_modes i s)"

definition IsEventSupportedForStream :: "string \<Rightarrow> upload_mode \<Rightarrow> bool" where
  "IsEventSupportedForStream i s = fst (event_modes i s)"

definition IsBatchModeSupported :: "upload_mode \<Rightarrow> bool" where
  "IsBatchModeSupported s = snd (m_ConfiguredModes s)"

definition IsStreamModeSupported :: "upload_mode \<Rightarrow> bool" where
  "IsStreamModeSupported s = fst (m_ConfiguredModes s)"

definition IsBatchModeSupportedAsDefault :: "upload_mode \<Rightarrow> bool" where
  "IsBatchModeSupportedAsDefault s = snd (m_DefaultMode s)"

definition IsStreamModeSupportedAsDefault :: "upload_mode \<Rightarrow> bool" where
  "IsStreamModeSupportedAsDefault s = fst (m_DefaultMode s)"

definition GetBatchModeEventList :: "upload_mode \<Rightarrow> string set" where
  "GetBatchModeEventList s = {i. \<exists>m. m_mapEventModeMap s i = Some m \<and> snd m}"

definition GetStreamModeEventList :: "upload_mode \<Rightarrow> string set" where
  "GetStreamModeEventList s = {i. \<exists>m. m_mapEventModeMap s i = Some m \<and> fst m}"

section \<open>Events only use configured modes\<close>

definition mode_le :: "modes \<Rightarrow> modes \<Rightarrow> bool" where
  "mode_le m n = ((fst m \<longrightarrow> fst n) \<and> (snd m \<longrightarrow> snd n))"

definition map_within :: "(string \<rightharpoonup> modes) \<Rightarrow> modes \<Rightarrow> bool" where
  "map_within m n = (\<forall>i x. m i = Some x \<longrightarrow> mode_le x n)"

lemma map_within_mono: "map_within m n \<Longrightarrow> mode_le n k \<Longrightarrow> map_within m k"
  unfolding map_within_def mode_le_def by blast

lemma mode_le_or [simp]: "mode_le m (mode_or m n)" "mode_le n (mode_or m n)"
  by (auto simp: mode_le_def mode_or_def)

lemma map_within_add_modes:
  "map_within m n \<Longrightarrow> mode_le (GetModeBitSet mode no_mode) n \<Longrightarrow> map_within (fold (add_mode mode) ids m) n"
proof (induction ids arbitrary: m)
  case (Cons i ids)
  have "map_within (add_mode mode i m) n"
    using Cons.prems
    by (auto simp: map_within_def add_mode_def mode_le_def mode_or_def no_mode_def split: option.splits)
  then show ?case
    using Cons by simp
qed simp

lemma FillEventModeMap_within:
  assumes "FillEventModeMap L events mode m = Some m'" "map_within m n"
    "mode_le (GetModeBitSet mode no_mode) n"
  shows "map_within m' n"
  using assms(1,2)
  by (auto simp: FillEventModeMap_def Option.bind_eq_Some_conv intro: map_within_add_modes[OF assms(2,3)]
    split: if_splits)

lemma read_modes_within:
  "read_modes L events js (tmp, m) = Some (tmp', m') \<Longrightarrow> map_within m tmp \<Longrightarrow> map_within m' tmp' \<and> mode_le tmp tmp'"
proof (induction js arbitrary: tmp m)
  case (Cons j js)
  obtain mode m1 where m: "asString L j = Some mode"
    "(if events = JNull then Some m else FillEventModeMap L events mode m) = Some m1"
    "read_modes L events js (mode_or tmp (GetModeBitSet mode no_mode), m1) = Some (tmp', m')"
    using Cons.prems(1) by (auto simp: Option.bind_eq_Some_conv)
  have w: "map_within m (mode_or tmp (GetModeBitSet mode no_mode))"
    using map_within_mono[OF Cons.prems(2)] by simp
  have "map_within m1 (mode_or tmp (GetModeBitSet mode no_mode))"
    using m(2) w FillEventModeMap_within[of L events mode m m1] by (auto split: if_splits)
  then have "map_within m' tmp' \<and> mode_le (mode_or tmp (GetModeBitSet mode no_mode)) tmp'"
    using Cons.IH m(3) by blast
  then show ?case
    by (auto simp: mode_le_def mode_or_def)
qed (auto simp: mode_le_def)

lemma default_mode_within: "default_mode L events tmp = Some d \<Longrightarrow> mode_le d tmp"
  by (auto simp: default_mode_def mode_le_def mode_and_def Option.bind_eq_Some_conv split: if_splits)

text \<open>Whatever is configured, no event is given a mode that is not configured.\<close>

lemma Init_modes_within:
  assumes "Init_modes L config s = Some s'"
  shows "mode_le (event_modes i s') (m_ConfiguredModes s')"
proof (cases "config = JNull")
  case True
  then show ?thesis
    using assms by (auto simp: Init_modes_def Let_def event_modes_def mode_le_def)
next
  case False
  then obtain supported events tmp m dflt anon fwd where
    r: "ReadSupportedModes L supported events Map.empty = Some (tmp, m)"
      "default_mode L events tmp = Some dflt"
      "m_ConfiguredModes s' = tmp" "m_DefaultMode s' = dflt" "m_mapEventModeMap s' = m"
    using assms by (simp add: Init_modes_def Let_def Option.bind_eq_Some_conv case_prod_beta) auto
  have "map_within m tmp"
    using r(1) read_modes_within[of L events _ no_mode Map.empty tmp m]
    by (auto simp: ReadSupportedModes_def Option.bind_eq_Some_conv map_within_def)
  then show ?thesis
    using default_mode_within[OF r(2)]
    by (auto simp: r(3-5) event_modes_def map_within_def split: option.splits)
qed

text \<open>\<open>all\<close> is taken by the first branch and never gives the batch mode.\<close>

lemma all_is_stream: "GetModeBitSet ''all'' dflt = (True, False)"
  by (simp add: GetModeBitSet_def)

end
