(* ===== verification/Event_Database.thy ===== *)
theory Event_Database
  imports Event_Queue Upload_Mode Event_Store
begin

text \<open>
  The last handler of the event pipeline: \<open>CDBTransport\<close> (libClientBL/src/dam/CDBTransport.cpp)
  with \<open>CEventIntervalValidator\<close> (libClientBL/src/core). \<open>HandleEvent\<close> queues the text of an
  event, unless its interval, the activation or the size of the queue forbid it, and counts what
  it ignores; the thread of the class takes the texts and inserts rows into the tables that the
  uploader reads (Event_Store).

  A \<open>Fault\<close> is an exception that nothing catches, or arithmetic that C++ leaves undefined. A
  value with a quote ends its literal in the text of the \<open>INSERT\<close> statement too early; such a
  statement is malformed and fails here.
\<close>

section \<open>State and configuration\<close>

record event_db = db +
  row_ids :: "string \<Rightarrow> int"
  m_queEvent :: "string cqueue"
  lock_script :: "nat list"
  m_ulEventSizeInQueue :: "64 word"
  m_ulEventInsertThresholdSize :: "64 word"
  m_ulIgnoredEventSize :: "64 word"
  m_nIgnoredEventCnt :: int
  m_dblEventIgnoreStartTs :: rat
  m_mapEventInterval :: "string \<rightharpoonup> int \<times> int"
  device_activated :: bool
  removed_files :: "string list"
  start_messages :: nat
  alert_triggers :: nat
  raised :: "string list"

record pipeline_env = json_lib +
  EncryptEventData :: "string \<Rightarrow> string"
  upload_modes :: upload_mode
  DirectAlerts :: "string list"
  m_bValidateInterval :: bool
  m_ulEventQueueMaxSize :: "64 word"
  m_ulEventInsertWindowSize :: "64 word"
  m_nDbEventStoreRecordAvgSize :: uint16
  m_nMaxEventInsertInOneTxn :: uint16
  m_bUploadAfterActivation :: bool
  m_SetActivationExceptionEvents :: "string list"
  tz_offset :: int
  attach_path :: string

definition may_throw :: "'a option \<Rightarrow> ('s, 'a) cmd" where
  "may_throw x = (case x of None \<Rightarrow> fault | Some a \<Rightarrow> ret a)"

definition checked :: "bool \<Rightarrow> ('s, unit) cmd" where
  "checked b = (if b then ret () else fault)"

text \<open>How often the next \<open>Put\<close> finds its mutex taken.\<close>

definition next_busy :: "('a event_db_scheme, nat) cmd" where
  "next_busy s = (case lock_script s of [] \<Rightarrow> (Ok 0, s) | n # ns \<Rightarrow> (Ok n, s\<lparr>lock_script := ns\<rparr>))"

definition put_event :: "string \<Rightarrow> ('a event_db_scheme, unit) cmd" where
  "put_event str = then_do next_busy (\<lambda>busy.
     modify (\<lambda>s. s\<lparr>m_queEvent := snd (Put busy str (word_of_nat (length str)) (m_queEvent s))\<rparr>))"

definition take_event :: "('a event_db_scheme, string option) cmd" where
  "take_event s = (case Take (m_queEvent s) of (x, q) \<Rightarrow> (Ok x, s\<lparr>m_queEvent := q\<rparr>))"

definition int32 :: "int \<Rightarrow> bool" where
  "int32 i = (-2147483648 \<le> i \<and> i \<le> 2147483647)"

definition int64 :: "int \<Rightarrow> bool" where
  "int64 i = (-9223372036854775808 \<le> i \<and> i \<le> 9223372036854775807)"

section \<open>CEventIntervalValidator\<close>

text \<open>An interval is an \<open>int\<close>: the \<open>long long\<close> of the configuration keeps its low 32 bits.\<close>

definition to_int32 :: "int \<Rightarrow> int" where
  "to_int32 i = sint (word_of_int i :: 32 word)"

fun asInt64 :: "json \<Rightarrow> int option" where
  "asInt64 JNull = Some 0"
| "asInt64 (JBool b) = Some (if b then 1 else 0)"
| "asInt64 (JNum r) = (if -9223372036854775808 \<le> r \<and> r \<le> 9223372036854775807 then Some (cast_double r) else None)"
| "asInt64 _ = None"

fun populate_intervals :: "(string \<times> json) list \<Rightarrow> (string \<rightharpoonup> int \<times> int) \<Rightarrow> (string \<rightharpoonup> int \<times> int) option" where
  "populate_intervals [] m = Some m"
| "populate_intervals ((i, j) # rest) m =
     Option.bind (asInt64 j) (\<lambda>n. populate_intervals rest (m(i \<mapsto> (to_int32 n, 0))))"

fun PopulateEventIntervalFromConfig :: "json \<Rightarrow> (string \<rightharpoonup> int \<times> int) option" where
  "PopulateEventIntervalFromConfig (JObj m) = populate_intervals m Map.empty"
| "PopulateEventIntervalFromConfig _ = Some Map.empty"

text \<open>\<open>difftime\<close> of two times in milliseconds is their difference.\<close>

definition ValidateInterval :: "int \<Rightarrow> int \<Rightarrow> int \<Rightarrow> bool" where
  "ValidateInterval cur prev nInterval = (\<not> cur - prev < nInterval)"

definition IsValidInterval ::
  "bool \<Rightarrow> string \<Rightarrow> int \<Rightarrow> (string \<rightharpoonup> int \<times> int) \<Rightarrow> bool \<times> (string \<rightharpoonup> int \<times> int)"
where
  "IsValidInterval validate i ts m =
     (if \<not> validate then (True, m)
      else case m i of
        None \<Rightarrow> (True, m)
      | Some (interval, prev) \<Rightarrow>
          if interval = -1 then (False, m)
          else if prev = 0 then (True, m(i \<mapsto> (interval, ts)))
          else if ValidateInterval ts prev interval then (True, m(i \<mapsto> (interval, ts)))
          else (False, m))"

section \<open>CDBTransport::HandleEvent\<close>

definition WaitForActivation :: "pipeline_env \<Rightarrow> string \<Rightarrow> 'a event_db_scheme \<Rightarrow> bool" where
  "WaitForActivation env i s =
     (if device_activated s then False
      else if m_bUploadAfterActivation env
        then (if i \<in> set (m_SetActivationExceptionEvents env) then False else True)
      else False)"

definition InitIgnoredEvents :: "'a event_db_scheme \<Rightarrow> 'a event_db_scheme" where
  "InitIgnoredEvents s = s\<lparr>m_nIgnoredEventCnt := 0, m_ulIgnoredEventSize := 0, m_ulEventSizeInQueue := 0,
     m_dblEventIgnoreStartTs := 0\<rparr>"

text \<open>The report of the ignored events that precedes the next accepted event.\<close>

definition ignored_event :: "pipeline_env \<Rightarrow> rat \<Rightarrow> 'a event_db_scheme \<Rightarrow> event option" where
  "ignored_event env ts s =
     Option.bind (AddField ''count'' (JNum (of_int (m_nIgnoredEventCnt s)))
       (make_event ''x.x'' ''EventCacheOverflow'' (tz_offset env) ts)) (\<lambda>e1.
     Option.bind (AddField ''bytes'' (JStr (NumberToString (uint (m_ulIgnoredEventSize s)))) e1) (\<lambda>e2.
     Option.bind (AddField ''startTs'' (JNum (m_dblEventIgnoreStartTs s)) e2) (\<lambda>e3.
       AddField ''endTs'' (JNum ts) e3)))"

definition report_ignored :: "pipeline_env \<Rightarrow> rat \<Rightarrow> ('a event_db_scheme, unit) cmd" where
  "report_ignored env ts = then_do get_st (\<lambda>s.
     if m_nIgnoredEventCnt s \<noteq> 0 then
       then_do (may_throw (Option.bind (ignored_event env ts s) (EventToJson env))) (\<lambda>(str, _).
       then_do (put_event str) (\<lambda>_. modify InitIgnoredEvents))
     else ret ())"

definition ignore_event :: "pipeline_env \<Rightarrow> rat \<Rightarrow> string \<Rightarrow> ('a event_db_scheme, unit) cmd" where
  "ignore_event env ts str = then_do get_st (\<lambda>s.
     then_do (checked (m_nIgnoredEventCnt s < 2147483647)) (\<lambda>_.
     then_do (modify (\<lambda>s. s\<lparr>m_nIgnoredEventCnt := m_nIgnoredEventCnt s + 1,
       m_ulIgnoredEventSize := m_ulIgnoredEventSize s + word_of_nat (length str)\<rparr>)) (\<lambda>_.
       if m_dblEventIgnoreStartTs s = 0 then
         modify (\<lambda>s. s\<lparr>m_dblEventIgnoreStartTs := ts,
           m_ulEventInsertThresholdSize := m_ulEventQueueMaxSize env - m_ulEventInsertWindowSize env\<rparr>)
       else ret ())))"

definition queue_event :: "pipeline_env \<Rightarrow> rat \<Rightarrow> string \<Rightarrow> ('a event_db_scheme, unit) cmd" where
  "queue_event env ts str =
     then_do (modify (\<lambda>s. s\<lparr>m_ulEventSizeInQueue := ucast (Size (m_queEvent s))\<rparr>)) (\<lambda>_.
     then_do get_st (\<lambda>s.
       if m_ulEventSizeInQueue s + word_of_nat (length str) < m_ulEventInsertThresholdSize s then
         then_do (report_ignored env ts) (\<lambda>_. put_event str)
       else ignore_event env ts str))"

definition check_interval :: "pipeline_env \<Rightarrow> string \<Rightarrow> int \<Rightarrow> ('a event_db_scheme, bool) cmd" where
  "check_interval env i ts s =
     (case IsValidInterval (m_bValidateInterval env) i ts (m_mapEventInterval s) of
        (b, m) \<Rightarrow> (Ok b, s\<lparr>m_mapEventInterval := m\<rparr>))"

definition DB_HandleEvent :: "pipeline_env \<Rightarrow> event \<Rightarrow> ('a event_db_scheme, unit) cmd" where
  "DB_HandleEvent env e =
     then_do (may_throw (GetTimestamp e)) (\<lambda>ts.
     then_do (may_throw (EventToJson env e)) (\<lambda>(str, _).
     then_do (checked (int64 (cast_double ts))) (\<lambda>_.
     then_do (check_interval env (ev_id e) (cast_double ts)) (\<lambda>valid.
       if \<not> valid then ret ()
       else then_do get_st (\<lambda>s.
         if WaitForActivation env (ev_id e) s then ret ()
         else queue_event env ts str)))))"

definition HandleNonIgniteEvent :: "pipeline_env \<Rightarrow> event \<Rightarrow> ('a event_db_scheme, unit) cmd" where
  "HandleNonIgniteEvent env e =
     then_do (may_throw (EventToJson env e)) (\<lambda>(str, _). put_event str)"

section \<open>CDBTransport::InsertEvent\<close>

definition quoted_ok :: "row \<Rightarrow> bool" where
  "quoted_ok r = (CHR 0x27 \<notin> set (col_event_id r) \<and>
     (case col_topic r of None \<Rightarrow> True | Some t \<Rightarrow> CHR 0x27 \<notin> set t))"

text \<open>\<open>CDatabase::Insert\<close> with \<open>AUTOINCREMENT\<close>; what it returns is only logged.\<close>

definition db_Insert :: "string \<Rightarrow> row \<Rightarrow> ('a event_db_scheme, int) cmd" where
  "db_Insert t r s = (case db_exec s of
      (ok, s1) \<Rightarrow>
        if ok \<and> quoted_ok r then
          (let i = row_ids s1 t + 1 in
            (Ok i, (map_rows t (\<lambda>rs. rs @ [r\<lparr>col_id := i\<rparr>]) s1)\<lparr>row_ids := (row_ids s1)(t := i)\<rparr>))
        else (Ok (-1), s1))"

definition event_row :: "pipeline_env \<Rightarrow> string \<Rightarrow> string \<Rightarrow> int \<Rightarrow> row" where
  "event_row env i str ts = \<lparr>col_id = 0, col_event_id = i, col_timestamp = Some ts,
     col_events = EncryptEventData env str, col_topic = None, col_mid = 0, col_stream = 0, col_batch = 0\<rparr>"

definition IsAlert :: "pipeline_env \<Rightarrow> string \<Rightarrow> bool" where
  "IsAlert env i = (i \<in> set (DirectAlerts env))"

definition remove_attachments :: "pipeline_env \<Rightarrow> string list \<Rightarrow> ('a event_db_scheme, unit) cmd" where
  "remove_attachments env as = (if attach_path env \<noteq> ''''
     then modify (\<lambda>s. s\<lparr>removed_files := removed_files s @ map (\<lambda>a. attach_path env @ ''/'' @ a) as\<rparr>)
     else ret ())"

definition ProcessEventForStreamMode ::
  "pipeline_env \<Rightarrow> event \<Rightarrow> bool \<Rightarrow> row \<Rightarrow> ('a event_db_scheme, event \<times> row) cmd"
where
  "ProcessEventForStreamMode env e batch r =
     (if m_vectAttachment e \<noteq> [] \<and> batch then ret (e, r\<lparr>col_batch := 1\<rparr>)
      else if m_vectAttachment e \<noteq> [] then
        then_do (may_throw (Option.bind
            (AddField ''attachmentFailureReason'' (JStr ''batchModeUnsupported'') e) (EventToJson env))) (\<lambda>(str, e').
        then_do (remove_attachments env (m_vectAttachment e)) (\<lambda>_.
          ret (e', r\<lparr>col_stream := 1, col_events := EncryptEventData env str\<rparr>)))
      else ret (e, r\<lparr>col_stream := 1\<rparr>))"

definition GetTopicedEventData :: "pipeline_env \<Rightarrow> event \<Rightarrow> row \<Rightarrow> ('a event_db_scheme, row) cmd" where
  "GetTopicedEventData env e r =
     then_do (may_throw (Option.bind (json_at (m_jsonValue e) ''topic'') (asString env))) (\<lambda>topic.
     (let r1 = r\<lparr>col_topic := Some topic\<rparr> in
      if IsStreamModeSupported (upload_modes env) \<and> m_vectAttachment e = [] then ret (r1\<lparr>col_stream := 1\<rparr>)
      else if IsBatchModeSupported (upload_modes env) then ret (r1\<lparr>col_batch := 1\<rparr>)
      else ret r1))"

definition trigger_alerts :: "('a event_db_scheme, unit) cmd" where
  "trigger_alerts = modify (\<lambda>s. s\<lparr>alert_triggers := alert_triggers s + 1\<rparr>)"

definition insert_supported :: "pipeline_env \<Rightarrow> event \<Rightarrow> row \<Rightarrow> ('a event_db_scheme, unit) cmd" where
  "insert_supported env e r =
     (let M = upload_modes env; i = ev_id e; data = m_jsonValue e;
          stream = IsEventSupportedForStream i M; batch = IsEventSupportedForBatch i M in
      then_do (if stream then ProcessEventForStreamMode env e (IsBatchModeSupported M) r else ret (e, r)) (\<lambda>(e1, r1).
      then_do (ret (if batch then r1\<lparr>col_batch := 1\<rparr> else r1)) (\<lambda>r2.
      then_do (may_throw (isMember data ''topic'')) (\<lambda>topiced.
      then_do (if topiced then GetTopicedEventData env e1 r2 else ret r2) (\<lambda>r3.
        if stream \<or> batch \<or> topiced
        then then_do (db_Insert TABLE_EVENT_STORE r3) (\<lambda>_. ret ())
        else ret ())))))"

definition InsertEvent :: "pipeline_env \<Rightarrow> string \<Rightarrow> ('a event_db_scheme, unit) cmd" where
  "InsertEvent env str =
     then_do (may_throw (JsonToEvent env str (new_event (tz_offset env) 0))) (\<lambda>e.
     then_do (if ev_id e = ''IgniteClientLaunched''
       then modify (\<lambda>s. s\<lparr>start_messages := start_messages s + 1\<rparr>) else ret ()) (\<lambda>_.
     then_do (may_throw (GetTimestamp e)) (\<lambda>ts.
     then_do (checked (int64 (cast_double ts))) (\<lambda>_.
     then_do (may_throw (GetTimezone e)) (\<lambda>tz.
     then_do (checked (int32 (tz * 60) \<and> int32 (tz * 60 * 1000))) (\<lambda>_.
     let r = event_row env (ev_id e) str (cast_double ts) in
     if IsStreamModeSupported (upload_modes env) \<and> IsAlert env (ev_id e)
     then then_do (db_Insert TABLE_ALERT_STORE r) (\<lambda>_. trigger_alerts)
     else insert_supported env e r))))))"

section \<open>CDBTransport::ProcessQueueData and FlushCache\<close>

definition GetMaxEventToInsertInOneTxn :: "pipeline_env \<Rightarrow> uint32 \<Rightarrow> uint16" where
  "GetMaxEventToInsertInOneTxn env unQueSize =
     (let d = unQueSize div ucast (m_nDbEventStoreRecordAvgSize env); n = (if d = 0 then 1 else d) in
      if n \<le> ucast (m_nMaxEventInsertInOneTxn env) then ucast n else m_nMaxEventInsertInOneTxn env)"

definition ProcessMessage :: "pipeline_env \<Rightarrow> string \<Rightarrow> ('a event_db_scheme, unit) cmd" where
  "ProcessMessage env str = InsertEvent env str"

definition after_event :: "pipeline_env \<Rightarrow> uint32 \<Rightarrow> string \<Rightarrow> ('a event_db_scheme, unit) cmd" where
  "after_event env unQueSize str = modify (\<lambda>s.
     let n = ucast unQueSize - word_of_nat (length str); s1 = s\<lparr>m_ulEventSizeInQueue := n\<rparr> in
     if m_ulEventInsertThresholdSize s \<noteq> m_ulEventQueueMaxSize env \<and>
        n < m_ulEventQueueMaxSize env - m_ulEventInsertWindowSize env
     then s1\<lparr>m_ulEventInsertThresholdSize := m_ulEventQueueMaxSize env\<rparr> else s1)"

definition process_event :: "pipeline_env \<Rightarrow> uint32 \<Rightarrow> string \<Rightarrow> ('a event_db_scheme, unit) cmd" where
  "process_event env unQueSize str =
     then_do (if str \<noteq> '''' then ProcessMessage env str else ret ()) (\<lambda>_. after_event env unQueSize str)"

text \<open>The loop runs while the \<open>uint16_t\<close> counter, which starts at 1, is at most the limit: always,
  when the limit is the greatest \<open>uint16_t\<close>.\<close>

definition ProcessQueueData :: "pipeline_env \<Rightarrow> uint32 \<Rightarrow> ('a event_db_scheme, unit) cmd" where
  "ProcessQueueData env unQueSize = then_do get_st (\<lambda>s.
     let limit = GetMaxEventToInsertInOneTxn env unQueSize in
     drain take_event (process_event env unQueSize)
       (if limit = -1 then Suc (length (m_queueQ (m_queEvent s))) else unat limit))"

definition flush_event :: "pipeline_env \<Rightarrow> string \<Rightarrow> ('a event_db_scheme, unit) cmd" where
  "flush_event env str = (if str \<noteq> '''' then ProcessMessage env str else ret ())"

definition DB_FlushCache :: "pipeline_env \<Rightarrow> ('a event_db_scheme, unit) cmd" where
  "DB_FlushCache env = then_do get_st (\<lambda>s.
     drain take_event (flush_event env) (Suc (length (m_queueQ (m_queEvent s)))))"

end
