(* ===== verification/Event_Session.thy ===== *)
theory Event_Session
  imports Event_Database
begin

text \<open>
  The handlers between the check of the time stamps and the database (libClientBL/src/dam):
  \<open>CActivityDelay\<close>, which remembers when the events that defer an upload came,
  \<open>CSessionStatusHandler\<close>, which follows the ignition and the session and drops the events
  outside a session, and \<open>CMessageController\<close>, which passes a copy to the message handlers.

  An event that a handler raises with \<open>Send\<close> goes through a socket to the start of the pipeline;
  here its text is appended to \<open>raised\<close>. The clocks are fields that only the environment moves.
\<close>

section \<open>State and configuration\<close>

datatype IgnitionState = eIGNITION_UNKNOWN | eIGNITION_ON | eIGNITION_OFF

record event_session = event_db +
  m_queMqttEvents :: "string cqueue"
  m_bSessionInProgress :: bool
  m_eIgnState :: IgnitionState
  m_eLastIgnStatus :: IgnitionState
  m_mapDefervent :: "(string \<times> int) list"
  clock_ms :: rat
  boot_ms :: rat
  monotonic_ms :: int

record session_env = pipeline_env +
  startup_type :: string
  m_pSetExceptionEvents :: "string list option"
  m_bGenIgnON :: bool
  m_bGenIgnOFF :: bool
  m_mapEventConfigData :: "string \<rightharpoonup> int"
  restart_count :: int
  startup_reason :: string
  sw_version :: string
  upload_properties :: string

section \<open>Raising events\<close>

definition Send :: "'b json_lib_scheme \<Rightarrow> event \<Rightarrow> ('a event_db_scheme, unit) cmd" where
  "Send L e = then_do (may_throw (EventToJson L e)) (\<lambda>(str, _).
     modify (\<lambda>s. s\<lparr>raised := raised s @ [str]\<rparr>))"

definition raise_event :: "session_env \<Rightarrow> string \<Rightarrow> (string \<times> json) list \<Rightarrow> ('a event_session_scheme, unit) cmd" where
  "raise_event env i fs = then_do get_st (\<lambda>s.
     then_do (may_throw (fold (\<lambda>(k, v) e. Option.bind e (AddField k v)) fs
       (Some (make_event ''1.0'' i (tz_offset env) (clock_ms s))))) (Send env))"

text \<open>A text that does not parse is not added.\<close>

definition AddFieldAsRawJsonString :: "'b json_lib_scheme \<Rightarrow> string \<Rightarrow> string \<Rightarrow> event \<Rightarrow> event option" where
  "AddFieldAsRawJsonString L k str e =
     Option.bind (Reader_parse L str) (\<lambda>(ok, j). if ok then AddField k j e else Some e)"

section \<open>CActivityDelay\<close>

fun put_time :: "string \<Rightarrow> int \<Rightarrow> (string \<times> int) list \<Rightarrow> (string \<times> int) list" where
  "put_time k v [] = [(k, v)]"
| "put_time k v ((a, b) # m) = (if k = a then (k, v) # m else (a, b) # put_time k v m)"

definition note_activity :: "session_env \<Rightarrow> string \<Rightarrow> 'a event_session_scheme \<Rightarrow> 'a event_session_scheme" where
  "note_activity env i s =
     (if m_mapEventConfigData env i \<noteq> None
      then s\<lparr>m_mapDefervent := put_time i (monotonic_ms s) (m_mapDefervent s)\<rparr> else s)"

definition seconds_between :: "int \<Rightarrow> int \<Rightarrow> int" where
  "seconds_between x y = (if x - y < 0 then - ((y - x) div 1000) else (x - y) div 1000)"

fun defer_loop :: "(string \<rightharpoonup> int) \<Rightarrow> int \<Rightarrow> (string \<times> int) list \<Rightarrow> int \<Rightarrow> int" where
  "defer_loop config now [] nDefertime = nDefertime"
| "defer_loop config now ((i, t) # rest) nDefertime =
     (let timeout = (case config i of None \<Rightarrow> 0 | Some n \<Rightarrow> n) in
      if seconds_between now t \<ge> timeout then defer_loop config now rest nDefertime
      else if timeout - seconds_between now t > nDefertime
        then defer_loop config now rest (timeout - seconds_between now t)
      else defer_loop config now rest nDefertime)"

definition ComputeDeferUpload :: "session_env \<Rightarrow> 'a event_session_scheme \<Rightarrow> int" where
  "ComputeDeferUpload env s = defer_loop (m_mapEventConfigData env) (monotonic_ms s) (m_mapDefervent s) 0"

section \<open>CMessageController\<close>

definition put_mqtt :: "string \<Rightarrow> ('a event_session_scheme, unit) cmd" where
  "put_mqtt str = then_do next_busy (\<lambda>busy.
     modify (\<lambda>s. s\<lparr>m_queMqttEvents := snd (Put busy str (word_of_nat (length str)) (m_queMqttEvents s))\<rparr>))"

definition Controller_HandleEvent :: "session_env \<Rightarrow> event \<Rightarrow> ('a event_session_scheme, unit) cmd" where
  "Controller_HandleEvent env e =
     then_do (if IsAlert (pipeline_env.truncate env) (ev_id e) then trigger_alerts else ret ()) (\<lambda>_.
     then_do get_st (\<lambda>s.
     then_do (if Size (m_queMqttEvents s) < 1000000
       then then_do (may_throw (EventToJson env e)) (\<lambda>(str, e'). then_do (put_mqtt str) (\<lambda>_. ret e'))
       else ret e) (\<lambda>e'.
     DB_HandleEvent (pipeline_env.truncate env) e')))"

section \<open>CSessionStatusHandler\<close>

definition SendIgnStatusEvent :: "session_env \<Rightarrow> string \<Rightarrow> ('a event_session_scheme, unit) cmd" where
  "SendIgnStatusEvent env state =
     (if m_bGenIgnON env \<and> state = ''run'' \<or> m_bGenIgnOFF env \<and> state = ''off''
      then raise_event env ''IgnStatus'' [(''state'', JStr state)] else ret ())"

definition GetRpmValue :: "event \<Rightarrow> int option" where
  "GetRpmValue e = (if ev_id e = ''RPM'' then Event_GetInt ''value'' 0 e else Some 0)"

definition HandleRPMEvent :: "session_env \<Rightarrow> event \<Rightarrow> ('a event_session_scheme, unit) cmd" where
  "HandleRPMEvent env e = then_do (may_throw (GetRpmValue e)) (\<lambda>rpm.
     then_do get_st (\<lambda>s.
     if 0 < rpm then
       (if m_eIgnState s \<noteq> eIGNITION_ON
        then then_do (modify (\<lambda>s. s\<lparr>m_eIgnState := eIGNITION_ON\<rparr>)) (\<lambda>_. SendIgnStatusEvent env ''run'')
        else ret ())
     else
       (if m_eIgnState s \<noteq> eIGNITION_OFF
        then then_do (modify (\<lambda>s. s\<lparr>m_eIgnState := eIGNITION_OFF\<rparr>)) (\<lambda>_. SendIgnStatusEvent env ''off'')
        else ret ())))"

text \<open>\<open>StartSession\<close>: within a minute of the boot the session begins at the boot.\<close>

definition startup_fields :: "session_env \<Rightarrow> 'a event_session_scheme \<Rightarrow> event \<Rightarrow> event option" where
  "startup_fields env s e =
     (if restart_count env = 0 then
        Option.bind (AddField ''reason'' (JStr ''normalStartup'') e) (\<lambda>e1.
          if boot_ms s \<le> 60000
          then AddField ''timestampAdjusted'' (JBool True) (SetTimestamp (clock_ms s - boot_ms s) e1)
          else AddField ''timestampAdjusted'' (JBool False) e1)
      else
        Option.bind (AddField ''reason'' (JStr (startup_reason env)) e)
          (AddField ''restartCount'' (JNum (of_int (restart_count env)))))"

definition StartSession :: "session_env \<Rightarrow> ('a event_session_scheme, unit) cmd" where
  "StartSession env = then_do get_st (\<lambda>s.
     then_do (may_throw
       (Option.bind (AddField ''status'' (JStr ''startup'')
          (make_event ''1.0'' ''SessionStatus'' (tz_offset env) (clock_ms s))) (\<lambda>e1.
        Option.bind (AddField ''timeSinceBootInSecs'' (JNum (of_int (cast_double (boot_ms s / 1000)))) e1) (\<lambda>e2.
        Option.bind (startup_fields env s e2)
          (AddFieldAsRawJsonString env ''properties'' (upload_properties env)))))) (Send env))"

definition EndSession :: "session_env \<Rightarrow> ('a event_session_scheme, unit) cmd" where
  "EndSession env = raise_event env ''SessionStatus''
     [(''status'', JStr ''shutdown''), (''reason'', JStr ''normalShutdown'')]"

definition HandleIgniteClientLaunchedEvent :: "session_env \<Rightarrow> string \<Rightarrow> ('a event_session_scheme, unit) cmd" where
  "HandleIgniteClientLaunchedEvent env state =
     (if state = ''starting'' then StartSession env
      else if state = ''shuttingdown'' then EndSession env else ret ())"

definition ign_state_of :: "string \<Rightarrow> IgnitionState" where
  "ign_state_of state = (if state = ''run'' then eIGNITION_ON else eIGNITION_OFF)"

definition IsRepeatedIgnStatusEvnt :: "string \<Rightarrow> 'a event_session_scheme \<Rightarrow> bool" where
  "IsRepeatedIgnStatusEvnt state s = (state \<noteq> '''' \<and> m_eLastIgnStatus s = ign_state_of state)"

definition HandleIgnStatusEvent :: "session_env \<Rightarrow> string \<Rightarrow> ('a event_session_scheme, unit) cmd" where
  "HandleIgnStatusEvent env state =
     (if state \<noteq> '''' then
        then_do (modify (\<lambda>s. s\<lparr>m_eLastIgnStatus := ign_state_of state\<rparr>)) (\<lambda>_.
        if state = ''run'' then
          then_do (raise_event env ''FirmwareVersion'' [(''value'', JStr (sw_version env))]) (\<lambda>_. StartSession env)
        else EndSession env)
      else ret ())"

definition IsRepeatedSessionStatusEvnt :: "bool \<Rightarrow> 'a event_session_scheme \<Rightarrow> bool" where
  "IsRepeatedSessionStatusEvnt b s = (b = m_bSessionInProgress s)"

definition Session_IsAlert :: "session_env \<Rightarrow> string \<Rightarrow> bool" where
  "Session_IsAlert env i =
     (IsStreamModeSupported (upload_modes env) \<and> IsAlert (pipeline_env.truncate env) i)"

definition IsExceptionEvent :: "session_env \<Rightarrow> string \<Rightarrow> bool" where
  "IsExceptionEvent env i = (case m_pSetExceptionEvents env of None \<Rightarrow> True | Some X \<Rightarrow> i \<in> set X)"

definition IsRpmEvent :: "session_env \<Rightarrow> string \<Rightarrow> bool" where
  "IsRpmEvent env i = (startup_type env = ''self'' \<and> (i = ''EngineRPM'' \<or> i = ''RPM''))"

definition IsIgniteClientLaunchedEvent :: "session_env \<Rightarrow> string \<Rightarrow> bool" where
  "IsIgniteClientLaunchedEvent env i = (startup_type env = ''external'' \<and> i = ''IgniteClientLaunched'')"

definition IsIgnStatusEvent :: "session_env \<Rightarrow> string \<Rightarrow> bool" where
  "IsIgnStatusEvent env i = (startup_type env = ''self'' \<and> i = ''IgnStatus'')"

text \<open>Whether the event goes on to the next handler.\<close>

definition session_filter :: "session_env \<Rightarrow> event \<Rightarrow> ('a event_session_scheme, bool) cmd" where
  "session_filter env e = (let i = ev_id e in
     then_do (if IsRpmEvent env i \<and> (m_bGenIgnON env \<or> m_bGenIgnOFF env)
       then HandleRPMEvent env e else ret ()) (\<lambda>_.
     if IsIgniteClientLaunchedEvent env i then
       then_do (may_throw (GetString env ''state'' '''' e)) (\<lambda>state.
       then_do (HandleIgniteClientLaunchedEvent env state) (\<lambda>_. ret True))
     else if IsIgnStatusEvent env i then
       then_do (may_throw (GetString env ''state'' '''' e)) (\<lambda>state.
       then_do get_st (\<lambda>s.
       if IsRepeatedIgnStatusEvnt state s then ret False
       else then_do (HandleIgnStatusEvent env state) (\<lambda>_. ret True)))
     else if i = ''SessionStatus'' then
       then_do (may_throw (GetString env ''status'' '''' e)) (\<lambda>status.
       then_do get_st (\<lambda>s. let b = (status = ''startup'') in
       if IsRepeatedSessionStatusEvnt b s then ret False
       else then_do (modify (\<lambda>s. s\<lparr>m_bSessionInProgress := b\<rparr>)) (\<lambda>_. ret True)))
     else
       then_do get_st (\<lambda>s.
         ret (\<not> (\<not> m_bSessionInProgress s \<and> \<not> Session_IsAlert env i \<and> \<not> IsExceptionEvent env i)))))"

text \<open>The next handler is the controller when streaming is configured.\<close>

definition Session_HandleEvent :: "session_env \<Rightarrow> event \<Rightarrow> ('a event_session_scheme, unit) cmd" where
  "Session_HandleEvent env e = then_do (session_filter env e) (\<lambda>pass.
     if \<not> pass then ret ()
     else if IsStreamModeSupported (upload_modes env) then Controller_HandleEvent env e
     else DB_HandleEvent (pipeline_env.truncate env) e)"

definition Delay_HandleEvent :: "session_env \<Rightarrow> event \<Rightarrow> ('a event_session_scheme, unit) cmd" where
  "Delay_HandleEvent env e =
     then_do (modify (note_activity env (ev_id e))) (\<lambda>_. Session_HandleEvent env e)"

end
