(* ===== verification/Event_Validation.thy ===== *)
theory Event_Validation
  imports Event_Session
begin

text \<open>
  The first handler of the pipeline: \<open>CEventTimestampValidationHandler\<close> (libClientBL/src/dam)
  with the table of events whose time is not known yet, \<open>CInvalidTimestampEventStore\<close>
  (libClientBL/src/db). Until an event with a time after the cutoff comes, the events before the
  cutoff wait in a list and, beyond a hundred, in the table; then they are shifted by the distance
  between the last of them and that event, and handed on.

  The size of the database file is read from a script; \<open>NULL\<close> cursors are failing statements.
\<close>

section \<open>State and configuration\<close>

record inv_row =
  iv_id :: int
  iv_timestamp :: int
  iv_events :: string

record event_validation = event_session +
  invalid_store :: "inv_row list"
  invalid_next :: int
  m_listDBOverLimitEventList :: "event list"
  db_sizes :: "nat list"
  m_listInitialEvents :: "event list"
  m_bInvalidEventsAvailableInDb :: bool
  m_dblLastInvalidTimestamp :: rat
  m_dblFrstValidTimestamp :: rat

record validation_env = session_env +
  DecryptText :: "string \<Rightarrow> string"
  m_unDbSizeLimit :: nat
  storeInvalidEvents :: bool
  m_setExceptionEvents :: "string list"

definition m_dblTimestampCutoff :: rat where
  "m_dblTimestampCutoff = 1704067200000"

definition m_nInitialEventQueueLimit :: nat where
  "m_nInitialEventQueueLimit = 100"

text \<open>\<open>LoadTSExceptionEvents\<close>.\<close>

definition LoadTSExceptionEvents :: "'b json_lib_scheme \<Rightarrow> json \<Rightarrow> string list option" where
  "LoadTSExceptionEvents L j = (case j of JArr js \<Rightarrow> strings_of L js | _ \<Rightarrow> Some [])"

section \<open>CInvalidTimestampEventStore\<close>

definition db_try :: "('a db_scheme, bool) cmd" where
  "db_try s = (case db_exec s of (b, s') \<Rightarrow> (Ok b, s'))"

definition GetSize :: "('a event_validation_scheme, nat) cmd" where
  "GetSize s = (case db_sizes s of [] \<Rightarrow> (Ok 0, s) | n # ns \<Rightarrow> (Ok n, s\<lparr>db_sizes := ns\<rparr>))"

definition GetEventRowCount :: "('a event_validation_scheme, int) cmd" where
  "GetEventRowCount = then_do db_try (\<lambda>ok. then_do get_st (\<lambda>s.
     ret (if ok then int (length (invalid_store s)) else 0)))"

text \<open>\<open>SELECT ... ORDER BY TIMESTAMP ASC LIMIT n\<close>.\<close>

definition oldest_invalid :: "nat \<Rightarrow> ('a event_validation_scheme, inv_row list) cmd" where
  "oldest_invalid n = then_do db_try (\<lambda>ok. then_do get_st (\<lambda>s.
     ret (if ok then take n (sort_key iv_timestamp (invalid_store s)) else [])))"

definition Invalid_DeleteEvents :: "int list \<Rightarrow> ('a event_validation_scheme, bool) cmd" where
  "Invalid_DeleteEvents ids = (if ids = [] then ret False
     else then_do db_try (\<lambda>ok.
       then_do (modify (\<lambda>s. if ok
         then s\<lparr>invalid_store := filter (\<lambda>r. iv_id r \<notin> set ids) (invalid_store s)\<rparr> else s)) (\<lambda>_. ret ok)))"

definition over_limit_event :: "validation_env \<Rightarrow> rat \<Rightarrow> nat \<Rightarrow> nat \<Rightarrow> nat \<Rightarrow> event option" where
  "over_limit_event env now before after n =
     fold (\<lambda>(k, v) e. Option.bind e (AddField k v))
      [(''Action'', JStr ''Purge''), (''DBThresoldLimit'', JNum (of_nat (m_unDbSizeLimit env))),
       (''DBSizeBeforeAction'', JNum (of_nat before)), (''DBSizeAfterAction'', JNum (of_nat after)),
       (''EventsDeleted'', JNum (of_nat n)), (''IsInvalidTimstampEvent'', JBool True)]
      (Some (make_event ''1.0'' ''DBOverLimit'' (tz_offset env) now))"

definition PurgeInvalidEvents :: "validation_env \<Rightarrow> nat \<Rightarrow> ('a event_validation_scheme, unit) cmd" where
  "PurgeInvalidEvents env n =
     then_do get_st (\<lambda>s0.
     then_do GetSize (\<lambda>before.
     then_do (oldest_invalid n) (\<lambda>rs.
     then_do (Invalid_DeleteEvents (map iv_id rs)) (\<lambda>_.
     then_do GetSize (\<lambda>after.
     then_do (may_throw (over_limit_event env (clock_ms s0) before after (length rs))) (\<lambda>e.
       modify (\<lambda>s. s\<lparr>m_listDBOverLimitEventList := m_listDBOverLimitEventList s @ [e]\<rparr>)))))))"

text \<open>\<open>InsertIntoDb\<close>; the identifier it returns is not used.\<close>

definition InsertIntoDb :: "validation_env \<Rightarrow> string \<Rightarrow> ('a event_validation_scheme, unit) cmd" where
  "InsertIntoDb env str =
     then_do (may_throw (JsonToEvent env str (new_event (tz_offset env) 0))) (\<lambda>e.
     then_do (may_throw (GetTimestamp e)) (\<lambda>ts.
     then_do (checked (int64 (cast_double ts))) (\<lambda>_.
     then_do db_try (\<lambda>ok.
       modify (\<lambda>s. if ok then s\<lparr>invalid_next := invalid_next s + 1,
           invalid_store := invalid_store s @ [\<lparr>iv_id = invalid_next s, iv_timestamp = cast_double ts,
             iv_events = EncryptEventData env str\<rparr>]\<rparr>
         else s)))))"

text \<open>\<open>InsertEvents\<close> empties the list event by event.\<close>

definition insert_front :: "validation_env \<Rightarrow> event \<Rightarrow> ('a event_validation_scheme, unit) cmd" where
  "insert_front env e =
     then_do (may_throw (EventToJson env e)) (\<lambda>(str, _).
     then_do (InsertIntoDb env str) (\<lambda>_.
       modify (\<lambda>s. s\<lparr>m_listInitialEvents := tl (m_listInitialEvents s)\<rparr>)))"

definition Invalid_InsertEvents :: "validation_env \<Rightarrow> ('a event_validation_scheme, unit) cmd" where
  "Invalid_InsertEvents env = then_do get_st (\<lambda>s. let evs = m_listInitialEvents s in
     if evs = [] then ret ()
     else then_do GetSize (\<lambda>n.
       then_do (if n \<ge> m_unDbSizeLimit env then PurgeInvalidEvents env (length evs) else ret ()) (\<lambda>_.
         run_all (insert_front env) evs)))"

definition send_over_limit :: "validation_env \<Rightarrow> ('a event_validation_scheme, unit) cmd" where
  "send_over_limit env = then_do get_st (\<lambda>s.
     then_do (run_all (Send env) (m_listDBOverLimitEventList s)) (\<lambda>_.
       modify (\<lambda>s. s\<lparr>m_listDBOverLimitEventList := []\<rparr>)))"

definition RetriveEvents :: "validation_env \<Rightarrow> nat \<Rightarrow> ('a event_validation_scheme, (int \<times> string) list) cmd" where
  "RetriveEvents env n =
     then_do (send_over_limit env) (\<lambda>_.
     then_do (oldest_invalid n) (\<lambda>rs.
       ret (map (\<lambda>r. (iv_id r, DecryptText env (iv_events r))) rs)))"

section \<open>CEventTimestampValidationHandler\<close>

text \<open>\<open>m_pNextHandler\<close> is an argument: the code sets it once, when it builds the chain.\<close>

type_synonym 's next_handler = "event \<Rightarrow> ('s, unit) cmd"

definition ValidateAndSendEvent :: "'a event_validation_scheme next_handler \<Rightarrow> event \<Rightarrow> ('a event_validation_scheme, unit) cmd" where
  "ValidateAndSendEvent nxt e = (if ev_id e = '''' then ret () else nxt e)"

text \<open>The event with its new time; \<open>None\<close> when it cannot be fixed and is thrown out. The
  distance is an \<open>int\<close>: a \<open>double\<close> beyond it is undefined behaviour.\<close>

definition fix_time :: "rat \<Rightarrow> rat \<Rightarrow> rat \<Rightarrow> event \<Rightarrow> event option" where
  "fix_time frst lst ts e =
     map_option (SetTimestamp (frst - of_int (cast_double (lst - ts)))) (AddField ''OriginalTimestamp'' (JNum ts) e)"

definition FixAndSend :: "'a event_validation_scheme next_handler \<Rightarrow> rat \<Rightarrow> event \<Rightarrow> ('a event_validation_scheme, unit) cmd" where
  "FixAndSend nxt ts e =
     (if ts < m_dblTimestampCutoff then
        then_do get_st (\<lambda>s.
        if m_dblLastInvalidTimestamp s \<noteq> 0 then
          then_do (checked (int32 (cast_double (m_dblLastInvalidTimestamp s - ts)))) (\<lambda>_.
          then_do (may_throw (fix_time (m_dblFrstValidTimestamp s) (m_dblLastInvalidTimestamp s) ts e))
            (ValidateAndSendEvent nxt))
        else ret ())
      else ValidateAndSendEvent nxt e)"

definition fix_stored :: "'a event_validation_scheme next_handler \<Rightarrow> validation_env \<Rightarrow> string \<Rightarrow> ('a event_validation_scheme, unit) cmd" where
  "fix_stored nxt env str =
     then_do (may_throw (JsonToEvent env str (new_event (tz_offset env) 0))) (\<lambda>e.
     then_do (may_throw (GetTimestamp e)) (\<lambda>ts. FixAndSend nxt ts e))"

definition stored_round :: "'a event_validation_scheme next_handler \<Rightarrow> validation_env \<Rightarrow> ('a event_validation_scheme, unit) cmd" where
  "stored_round nxt env =
     then_do (RetriveEvents env 100) (\<lambda>xs.
     then_do (run_all (fix_stored nxt env) (map snd xs)) (\<lambda>_.
     then_do (Invalid_DeleteEvents (map fst xs)) (\<lambda>_. ret ())))"

text \<open>\<open>while (nTotalRows > 0) { ...; nTotalRows -= 100; }\<close>\<close>

function stored_loop :: "'a event_validation_scheme next_handler \<Rightarrow> validation_env \<Rightarrow> int \<Rightarrow> ('a event_validation_scheme, unit) cmd" where
  "stored_loop nxt env n = (if n > 0 then then_do (stored_round nxt env) (\<lambda>_. stored_loop nxt env (n - 100)) else ret ())"
  by pat_completeness auto

termination
  by (relation "measure (\<lambda>(nxt, env, n). nat n)") auto

declare stored_loop.simps [simp del]

definition fix_initial :: "'a event_validation_scheme next_handler \<Rightarrow> event \<Rightarrow> ('a event_validation_scheme, unit) cmd" where
  "fix_initial nxt e =
     then_do (may_throw (GetTimestamp e)) (\<lambda>ts.
     then_do (FixAndSend nxt ts e) (\<lambda>_.
       modify (\<lambda>s. s\<lparr>m_listInitialEvents := tl (m_listInitialEvents s)\<rparr>)))"

definition HandleFirstValidTs :: "'a event_validation_scheme next_handler \<Rightarrow> validation_env \<Rightarrow> ('a event_validation_scheme, unit) cmd" where
  "HandleFirstValidTs nxt env = then_do get_st (\<lambda>s.
     if m_listInitialEvents s \<noteq> [] \<or> m_bInvalidEventsAvailableInDb s then
       then_do (if m_bInvalidEventsAvailableInDb s
         then then_do GetEventRowCount (stored_loop nxt env) else ret ()) (\<lambda>_.
       then_do get_st (\<lambda>s1.
       then_do (run_all (fix_initial nxt) (m_listInitialEvents s1)) (\<lambda>_.
         modify (\<lambda>s. s\<lparr>m_bInvalidEventsAvailableInDb := False\<rparr>))))
     else ret ())"

definition flush_initial :: "'a event_validation_scheme next_handler \<Rightarrow> event \<Rightarrow> ('a event_validation_scheme, unit) cmd" where
  "flush_initial nxt e = then_do (ValidateAndSendEvent nxt e) (\<lambda>_.
     modify (\<lambda>s. s\<lparr>m_listInitialEvents := tl (m_listInitialEvents s)\<rparr>))"

definition HandleInvalidEventTS :: "'a event_validation_scheme next_handler \<Rightarrow> validation_env \<Rightarrow> ('a event_validation_scheme, unit) cmd" where
  "HandleInvalidEventTS nxt env = then_do get_st (\<lambda>s.
     if length (m_listInitialEvents s) > m_nInitialEventQueueLimit then
       (if storeInvalidEvents env then
          then_do (modify (\<lambda>s. s\<lparr>m_bInvalidEventsAvailableInDb := True\<rparr>)) (\<lambda>_. Invalid_InsertEvents env)
        else run_all (flush_initial nxt) (m_listInitialEvents s))
     else ret ())"

definition ValidateEventTSBasedOnCutOff :: "'a event_validation_scheme next_handler \<Rightarrow> validation_env \<Rightarrow> event \<Rightarrow> ('a event_validation_scheme, unit) cmd" where
  "ValidateEventTSBasedOnCutOff nxt env e = then_do (may_throw (GetTimestamp e)) (\<lambda>ts.
     if ts < m_dblTimestampCutoff then
       then_do (modify (\<lambda>s. s\<lparr>m_dblLastInvalidTimestamp :=
            (if ts > m_dblLastInvalidTimestamp s then ts else m_dblLastInvalidTimestamp s),
          m_listInitialEvents := m_listInitialEvents s @ [e]\<rparr>)) (\<lambda>_.
       HandleInvalidEventTS nxt env)
     else
       then_do (modify (\<lambda>s. s\<lparr>m_dblFrstValidTimestamp := ts\<rparr>)) (\<lambda>_.
       then_do (HandleFirstValidTs nxt env) (\<lambda>_. ValidateAndSendEvent nxt e)))"

definition ValidateTsOfEvent :: "'a event_validation_scheme next_handler \<Rightarrow> validation_env \<Rightarrow> event \<Rightarrow> ('a event_validation_scheme, unit) cmd" where
  "ValidateTsOfEvent nxt env e = then_do (may_throw (GetTimestamp e)) (\<lambda>ts.
     then_do get_st (\<lambda>s.
     if m_dblFrstValidTimestamp s = 0 then
       (if ev_id e \<in> set (m_setExceptionEvents env) then nxt e
        else ValidateEventTSBasedOnCutOff nxt env e)
     else FixAndSend nxt ts e))"

definition IsEventHasValidTS :: "event \<Rightarrow> bool" where
  "IsEventHasValidTS e = (GetTimestamp e \<noteq> None)"

definition TS_HandleEvent :: "'a event_validation_scheme next_handler \<Rightarrow> validation_env \<Rightarrow> event \<Rightarrow> ('a event_validation_scheme, unit) cmd" where
  "TS_HandleEvent nxt env e = (if IsEventHasValidTS e then ValidateTsOfEvent nxt env e else ret ())"

definition IsEventTimestampValid :: "rat \<Rightarrow> bool" where
  "IsEventTimestampValid ts = (if ts \<ge> m_dblTimestampCutoff then True else False)"

end
