(* ===== verification/Event_Pipeline.thy ===== *)
theory Event_Pipeline
  imports Event_Validation
begin

text \<open>
  The entry of the pipeline, \<open>CCacheTransport\<close> (libClientBL/src/dam/CCacheTransport.cpp): the
  receiving threads put the text of an event into a queue, a thread takes the texts, and an event
  of the whitelist goes through the chain of handlers while any other is stored when its time is
  plausible. How often the text of an event is logged as critical is counted per event.
\<close>

section \<open>State and configuration\<close>

record event_cache = event_validation +
  m_eventQueue :: "string cqueue"
  m_bIsShutdownInitiated :: bool
  m_bHasStarted :: bool
  m_bIsEventWhitelistingEnabled :: bool
  m_setIgniteEventsList :: "string set"
  m_jsonConfigWhitelistedEvents :: json
  m_jsonConfigDomainEventMap :: json
  m_setAlertsList :: "string set"
  m_mapLogConfig :: "string \<rightharpoonup> int"
  m_mapEvntLog :: "string \<rightharpoonup> int"
  m_nDefInflowEventLogCnt :: int
  m_jsonEvntList :: json
  log_reset_by_ignition :: bool
  uploader_log_resets :: nat

definition MAX_QUEUE_SIZE :: uint32 where
  "MAX_QUEUE_SIZE = 2000000"

section \<open>Send\<close>

definition put_cache :: "string \<Rightarrow> ('a event_cache_scheme, unit) cmd" where
  "put_cache str = then_do next_busy (\<lambda>busy.
     modify (\<lambda>s. s\<lparr>m_eventQueue := snd (Put busy str (word_of_nat (length str)) (m_eventQueue s))\<rparr>))"

definition take_cache :: "('a event_cache_scheme, string option) cmd" where
  "take_cache s = (case Take (m_eventQueue s) of (x, q) \<Rightarrow> (Ok x, s\<lparr>m_eventQueue := q\<rparr>))"

definition Cache_Send :: "string \<Rightarrow> ('a event_cache_scheme, bool) cmd" where
  "Cache_Send str = then_do get_st (\<lambda>s.
     if m_bIsShutdownInitiated s then ret False
     else if Size (m_eventQueue s) < MAX_QUEUE_SIZE then
       then_do (put_cache str) (\<lambda>_.
       then_do (modify (\<lambda>s. s\<lparr>m_bHasStarted := True\<rparr>)) (\<lambda>_. ret True))
     else ret False)"

section \<open>Logging of the inflow\<close>

definition GetValidInflowLogCount :: "int \<Rightarrow> int" where
  "GetValidInflowLogCount n = (if n < -1 then -1 else if n > 100 then 100 else n)"

text \<open>Both functions that count do the same with their limit.\<close>

definition log_up_to :: "int \<Rightarrow> string \<Rightarrow> ('a event_cache_scheme, bool) cmd" where
  "log_up_to limit i =
     (if limit = -1 then ret True
      else if limit = 0 then ret False
      else then_do get_st (\<lambda>s. case m_mapEvntLog s i of
          Some n \<Rightarrow> (if n < limit
            then then_do (modify (\<lambda>s. s\<lparr>m_mapEvntLog := (m_mapEvntLog s)(i \<mapsto> n + 1)\<rparr>)) (\<lambda>_. ret True)
            else ret False)
        | None \<Rightarrow> then_do (modify (\<lambda>s. s\<lparr>m_mapEvntLog := (m_mapEvntLog s)(i \<mapsto> 1)\<rparr>)) (\<lambda>_. ret True)))"

definition LogEventBasedOnConfiguredCount :: "int \<Rightarrow> string \<Rightarrow> ('a event_cache_scheme, bool) cmd" where
  "LogEventBasedOnConfiguredCount limit i = log_up_to limit i"

definition LogEventBasedOnDefaultCount :: "string \<Rightarrow> ('a event_cache_scheme, bool) cmd" where
  "LogEventBasedOnDefaultCount i = then_do get_st (\<lambda>s. log_up_to (m_nDefInflowEventLogCnt s) i)"

definition LogCriticalEvent :: "string \<Rightarrow> ('a event_cache_scheme, bool) cmd" where
  "LogCriticalEvent i = then_do get_st (\<lambda>s.
     if i \<in> m_setAlertsList s then ret True
     else case m_mapLogConfig s i of
       Some n \<Rightarrow> LogEventBasedOnConfiguredCount n i
     | None \<Rightarrow> LogEventBasedOnDefaultCount i)"

definition ResetInflowEventLogCounter :: "('a event_cache_scheme, unit) cmd" where
  "ResetInflowEventLogCounter = modify (\<lambda>s. s\<lparr>m_mapEvntLog := Map.empty\<rparr>)"

text \<open>The operands of the conjunction are evaluated in order.\<close>

definition IsLogCounterResetNeeded :: "validation_env \<Rightarrow> event \<Rightarrow> ('a event_cache_scheme, bool) cmd" where
  "IsLogCounterResetNeeded env e =
     (if ev_id e = ''IgnStatus''
      then then_do (may_throw (Option.bind (json_at (m_jsonValue e) ''state'') (asString env))) (\<lambda>state.
        then_do get_st (\<lambda>s. ret (state = ''off'' \<and> log_reset_by_ignition s)))
      else ret False)"

fun log_counts :: "(string \<times> json) list \<Rightarrow> (string \<rightharpoonup> int) \<Rightarrow> (string \<rightharpoonup> int)" where
  "log_counts [] m = m"
| "log_counts ((k, j) # rest) m = log_counts rest
     (case (isInt j, asInt j, m k) of
        (True, Some n, None) \<Rightarrow> m(k \<mapsto> GetValidInflowLogCount n)
      | _ \<Rightarrow> m)"

fun UpdateLogConfigMap :: "json list \<Rightarrow> (string \<rightharpoonup> int) \<Rightarrow> (string \<rightharpoonup> int) option" where
  "UpdateLogConfigMap [] m = Some m"
| "UpdateLogConfigMap (JObj fs # js) m = UpdateLogConfigMap js (log_counts fs m)"
| "UpdateLogConfigMap (JNull # js) m = UpdateLogConfigMap js m"
| "UpdateLogConfigMap (_ # js) m = None"

section \<open>The whitelist\<close>

definition PopulateWhitelistedEventList :: "'b json_lib_scheme \<Rightarrow> json \<Rightarrow> string set option" where
  "PopulateWhitelistedEventList L j = Option.bind (elements j) (\<lambda>js. map_option set (strings_of L js))"

fun domain_events :: "'b json_lib_scheme \<Rightarrow> (string \<times> json) list \<Rightarrow> string set option" where
  "domain_events L [] = Some {}"
| "domain_events L ((k, JArr js) # rest) =
     Option.bind (strings_of L js) (\<lambda>ids. map_option ((\<union>) (set ids)) (domain_events L rest))"
| "domain_events L ((k, JStr i) # rest) = map_option (insert i) (domain_events L rest)"
| "domain_events L ((k, _) # rest) = domain_events L rest"

fun PopulateEventsFromDomainMap :: "'b json_lib_scheme \<Rightarrow> json \<Rightarrow> string set option" where
  "PopulateEventsFromDomainMap L (JObj m) = domain_events L m"
| "PopulateEventsFromDomainMap L _ = Some {}"

definition whitelist :: "'b json_lib_scheme \<Rightarrow> json \<Rightarrow> json \<Rightarrow> string set option" where
  "whitelist L events domains = Option.bind (PopulateWhitelistedEventList L events) (\<lambda>X.
     map_option ((\<union>) X) (PopulateEventsFromDomainMap L domains))"

definition IsIgniteWhiteListedEventsValid :: "json \<Rightarrow> bool" where
  "IsIgniteWhiteListedEventsValid j = (case j of JArr js \<Rightarrow> js \<noteq> [] | _ \<Rightarrow> False)"

definition IsDomainEventMapValid :: "json \<Rightarrow> 'a event_cache_scheme \<Rightarrow> bool" where
  "IsDomainEventMapValid j s =
     (case j of JObj m \<Rightarrow> m \<noteq> [] \<and> m_jsonConfigDomainEventMap s \<noteq> j | _ \<Rightarrow> False)"

text \<open>The constructor adds the events that the message handlers ask for.\<close>

definition init_whitelist ::
  "validation_env \<Rightarrow> json \<Rightarrow> json \<Rightarrow> string set option \<Rightarrow> ('a event_cache_scheme, unit) cmd"
where
  "init_whitelist env events domains supplement =
     (if IsIgniteWhiteListedEventsValid events then
        then_do (may_throw (whitelist env events domains)) (\<lambda>X.
          modify (\<lambda>s. s\<lparr>m_bIsEventWhitelistingEnabled := True, m_jsonConfigWhitelistedEvents := events,
            m_jsonConfigDomainEventMap := domains,
            m_setIgniteEventsList := X \<union> (case supplement of None \<Rightarrow> {} | Some Y \<Rightarrow> Y)\<rparr>))
      else modify (\<lambda>s. s\<lparr>m_bIsEventWhitelistingEnabled := False, m_jsonConfigWhitelistedEvents := JNull\<rparr>))"

definition UpdateIgniteWhitelistEventList ::
  "validation_env \<Rightarrow> json \<Rightarrow> json \<Rightarrow> ('a event_cache_scheme, unit) cmd"
where
  "UpdateIgniteWhitelistEventList env events domains = then_do get_st (\<lambda>s.
     if \<not> m_bIsEventWhitelistingEnabled s then ret ()
     else if IsIgniteWhiteListedEventsValid events then
       (if m_jsonConfigWhitelistedEvents s \<noteq> events \<or> IsDomainEventMapValid domains s then
          then_do (may_throw (whitelist env events domains)) (\<lambda>X.
            modify (\<lambda>s. s\<lparr>m_jsonConfigWhitelistedEvents := events, m_jsonConfigDomainEventMap := domains,
              m_setIgniteEventsList := X\<rparr>))
        else ret ())
     else ret ())"

text \<open>\<open>NotifyConfigUpdate\<close> with the four values it reads.\<close>

definition Cache_NotifyConfigUpdate ::
  "validation_env \<Rightarrow> json \<Rightarrow> int \<Rightarrow> bool \<Rightarrow> json \<Rightarrow> json \<Rightarrow> ('a event_cache_scheme, unit) cmd"
where
  "Cache_NotifyConfigUpdate env log_list dflt by_ignition events domains = then_do get_st (\<lambda>s.
     then_do (case log_list of
         JArr js \<Rightarrow> (if js \<noteq> [] \<and> log_list \<noteq> m_jsonEvntList s then
           then_do (may_throw (UpdateLogConfigMap js Map.empty)) (\<lambda>m.
             modify (\<lambda>s. s\<lparr>m_jsonEvntList := log_list, m_mapLogConfig := m\<rparr>)) else ret ())
       | _ \<Rightarrow> ret ()) (\<lambda>_.
     then_do (modify (\<lambda>s. s\<lparr>m_nDefInflowEventLogCnt := dflt, log_reset_by_ignition := by_ignition\<rparr>)) (\<lambda>_.
       UpdateIgniteWhitelistEventList env events domains)))"

section \<open>The thread\<close>

abbreviation (input) to_pipeline :: "validation_env \<Rightarrow> pipeline_env" where
  "to_pipeline env \<equiv> pipeline_env.truncate (session_env.truncate env)"

text \<open>\<open>ProcessEvent\<close>, for an enabled whitelist.\<close>

definition Cache_ProcessEvent :: "validation_env \<Rightarrow> event \<Rightarrow> ('a event_cache_scheme, unit) cmd" where
  "Cache_ProcessEvent env e = then_do get_st (\<lambda>s.
     if ev_id e \<in> m_setIgniteEventsList s then
       then_do (LogCriticalEvent (ev_id e)) (\<lambda>_. TS_HandleEvent (Delay_HandleEvent (session_env.truncate env)) env e)
     else then_do (may_throw (GetTimestamp e)) (\<lambda>ts.
       if IsEventTimestampValid ts then HandleNonIgniteEvent (to_pipeline env) e else ret ()))"

definition handle_text :: "validation_env \<Rightarrow> string \<Rightarrow> ('a event_cache_scheme, unit) cmd" where
  "handle_text env str =
     then_do (may_throw (JsonToEvent env str (new_event (tz_offset env) 0))) (\<lambda>e.
     then_do (IsLogCounterResetNeeded env e) (\<lambda>reset.
     then_do (if reset then then_do ResetInflowEventLogCounter (\<lambda>_.
         modify (\<lambda>s. s\<lparr>uploader_log_resets := uploader_log_resets s + 1\<rparr>)) else ret ()) (\<lambda>_.
     then_do get_st (\<lambda>s.
       if \<not> m_bIsEventWhitelistingEnabled s
       then then_do (LogCriticalEvent (ev_id e)) (\<lambda>_. TS_HandleEvent (Delay_HandleEvent (session_env.truncate env)) env e)
       else Cache_ProcessEvent env e))))"

text \<open>\<open>while (m_eventQueue.Take(&strEvent)) ...\<close> of \<open>Run\<close>, from one wake-up to the next wait; what
  is put meanwhile waits for the next round.\<close>

definition Cache_Run_round :: "validation_env \<Rightarrow> ('a event_cache_scheme, unit) cmd" where
  "Cache_Run_round env = then_do get_st (\<lambda>s.
     drain take_cache (handle_text env) (Suc (length (m_queueQ (m_eventQueue s)))))"

definition flush_text :: "validation_env \<Rightarrow> string \<Rightarrow> ('a event_cache_scheme, unit) cmd" where
  "flush_text env str =
     then_do (may_throw (JsonToEvent env str (new_event (tz_offset env) 0))) (TS_HandleEvent (Delay_HandleEvent (session_env.truncate env)) env)"

definition Cache_FlushCache :: "validation_env \<Rightarrow> ('a event_cache_scheme, unit) cmd" where
  "Cache_FlushCache env = then_do get_st (\<lambda>s.
     drain take_cache (flush_text env) (Suc (length (m_queueQ (m_eventQueue s)))))"

end
