(* ===== verification/Event_Flow.thy ===== *)
theory Event_Flow
  imports Event_Pipeline Upload_Runs
begin

text \<open>
  What the pipeline does to the tables of the uploader: it only inserts rows (hence it is a run of
  the insertions of Upload_Safety), and whatever waits for the database thread is stored, in
  order, in the table its event belongs to.
\<close>

section \<open>Commands that only insert\<close>

definition only_inserts :: "'a event_db_scheme \<Rightarrow> 'a event_db_scheme \<Rightarrow> bool" where
  "only_inserts s s' = (\<forall>t. \<exists>xs. rows t s' = rows t s @ xs \<and> row_ids s t \<le> row_ids s' t \<and>
     (t \<notin> event_tables \<longrightarrow> xs = []) \<and> sorted_wrt (<) (row_ids s t # map col_id xs) \<and>
     (\<forall>r\<in>set xs. col_mid r = 0 \<and> col_id r \<le> row_ids s' t))"

definition inserts :: "('a event_db_scheme, 'b) cmd \<Rightarrow> bool" where
  "inserts c = (\<forall>s. only_inserts s (snd (c s)))"

named_theorems inserts_intros

lemma only_inserts_same: "(\<And>t. rows t s' = rows t s) \<Longrightarrow> row_ids s' = row_ids s \<Longrightarrow> only_inserts s s'"
  by (simp add: only_inserts_def)

lemma only_inserts_refl [simp]: "only_inserts s s"
  by (simp add: only_inserts_same)

lemma only_inserts_trans:
  assumes "only_inserts s s1" "only_inserts s1 s2"
  shows "only_inserts s s2"
  unfolding only_inserts_def
proof
  fix t
  obtain xs where xs: "rows t s1 = rows t s @ xs" "row_ids s t \<le> row_ids s1 t" "t \<notin> event_tables \<longrightarrow> xs = []"
    "sorted_wrt (<) (row_ids s t # map col_id xs)" "\<forall>r\<in>set xs. col_mid r = 0 \<and> col_id r \<le> row_ids s1 t"
    using assms(1) unfolding only_inserts_def by blast
  obtain ys where ys: "rows t s2 = rows t s1 @ ys" "row_ids s1 t \<le> row_ids s2 t" "t \<notin> event_tables \<longrightarrow> ys = []"
    "sorted_wrt (<) (row_ids s1 t # map col_id ys)" "\<forall>r\<in>set ys. col_mid r = 0 \<and> col_id r \<le> row_ids s2 t"
    using assms(2) unfolding only_inserts_def by blast
  have "sorted_wrt (<) (row_ids s t # map col_id (xs @ ys))"
    using xs(2,4,5) ys(4) by (fastforce simp: sorted_wrt_append)
  then show "\<exists>zs. rows t s2 = rows t s @ zs \<and> row_ids s t \<le> row_ids s2 t \<and>
     (t \<notin> event_tables \<longrightarrow> zs = []) \<and> sorted_wrt (<) (row_ids s t # map col_id zs) \<and>
     (\<forall>r\<in>set zs. col_mid r = 0 \<and> col_id r \<le> row_ids s2 t)"
    using xs ys by (intro exI[of _ "xs @ ys"]) fastforce
qed

lemma insertsD: "inserts c \<Longrightarrow> c s = (r, s') \<Longrightarrow> only_inserts s s'"
  unfolding inserts_def by (metis snd_conv)

lemma inserts_then_do [inserts_intros]:
  assumes "inserts c" "\<And>a. inserts (d a)"
  shows "inserts (then_do c d)"
  unfolding inserts_def
proof
  fix s
  obtain r s1 where c: "c s = (r, s1)"
    by fastforce
  then have "only_inserts s s1"
    using insertsD assms(1) by blast
  then show "only_inserts s (snd (then_do c d s))"
    using assms(2) only_inserts_trans[of s s1] unfolding inserts_def
    by (cases r) (simp_all add: then_do_def c)
qed

lemma inserts_ret [inserts_intros]: "inserts (ret a)"
  by (simp add: inserts_def cmd_run)

lemma inserts_get_st [inserts_intros]: "inserts get_st"
  by (simp add: inserts_def cmd_run)

lemma inserts_may_throw [inserts_intros]: "inserts (may_throw x)"
  by (simp add: inserts_def may_throw_def cmd_run split: option.splits)

lemma inserts_checked [inserts_intros]: "inserts (checked b)"
  by (simp add: inserts_def checked_def cmd_run)

lemma inserts_modify [inserts_intros]:
  "(\<And>s t. rows t (g s) = rows t s) \<Longrightarrow> (\<And>s. row_ids (g s) = row_ids s) \<Longrightarrow> inserts (modify g)"
  by (simp add: inserts_def cmd_run only_inserts_same)

lemma inserts_if [inserts_intros]: "inserts c \<Longrightarrow> inserts d \<Longrightarrow> inserts (if b then c else d)"
  by simp

lemma inserts_prod [inserts_intros]: "(\<And>a b. inserts (d a b)) \<Longrightarrow> inserts (case x of (a, b) \<Rightarrow> d a b)"
  by (cases x) simp

lemma inserts_option [inserts_intros]:
  "inserts c \<Longrightarrow> (\<And>a. inserts (d a)) \<Longrightarrow> inserts (case x of None \<Rightarrow> c | Some a \<Rightarrow> d a)"
  by (cases x) simp_all

lemma inserts_Let [inserts_intros]: "inserts (f x) \<Longrightarrow> inserts (let y = x in f y)"
  by simp

lemma inserts_drain [inserts_intros]: "inserts takeq \<Longrightarrow> (\<And>x. inserts (step x)) \<Longrightarrow> inserts (drain takeq step n)"
  by (induction n) (auto intro!: inserts_intros)

lemma rows_db_exec: "rows t (snd (db_exec s)) = rows t s" "row_ids (snd (db_exec s)) = row_ids s"
  by (simp_all add: db_exec_def split: list.splits)

lemma rows_append:
  "t \<in> event_tables \<Longrightarrow> rows u (map_rows t (\<lambda>rs. rs @ [r]) s) = rows u s @ (if u = t then [r] else [])"
  by (auto simp: rows_def map_rows_def event_tables_def TABLE_EVENT_STORE_def TABLE_ALERT_STORE_def)

lemma inserts_db_Insert [inserts_intros]:
  assumes "t \<in> event_tables" "col_mid r = 0"
  shows "inserts (db_Insert t r)"
  unfolding inserts_def
proof
  fix s :: "'a event_db_scheme"
  obtain ok s1 where e: "db_exec s = (ok, s1)"
    by fastforce
  have s1: "rows u s1 = rows u s" "row_ids s1 = row_ids s" for u
    using rows_db_exec(1)[of u s] rows_db_exec(2)[of s] by (simp_all add: e)
  have upd: "rows u (x\<lparr>row_ids := f\<rparr>) = rows u x" for u f and x :: "'a event_db_scheme"
    by (simp add: rows_def)
  have "only_inserts s ((map_rows t (\<lambda>rs. rs @ [r\<lparr>col_id := row_ids s1 t + 1\<rparr>]) s1)
      \<lparr>row_ids := (row_ids s1)(t := row_ids s1 t + 1)\<rparr>)"
    unfolding only_inserts_def
  proof
    fix u
    have "rows u ((map_rows t (\<lambda>rs. rs @ [r\<lparr>col_id := row_ids s1 t + 1\<rparr>]) s1)\<lparr>row_ids := (row_ids s1)(t := row_ids s1 t + 1)\<rparr>)
      = rows u s @ (if u = t then [r\<lparr>col_id := row_ids s t + 1\<rparr>] else [])"
      by (simp add: upd s1 rows_append assms(1))
    then show "\<exists>xs. rows u ((map_rows t (\<lambda>rs. rs @ [r\<lparr>col_id := row_ids s1 t + 1\<rparr>]) s1)
          \<lparr>row_ids := (row_ids s1)(t := row_ids s1 t + 1)\<rparr>) = rows u s @ xs \<and>
        row_ids s u \<le> row_ids ((map_rows t (\<lambda>rs. rs @ [r\<lparr>col_id := row_ids s1 t + 1\<rparr>]) s1)
          \<lparr>row_ids := (row_ids s1)(t := row_ids s1 t + 1)\<rparr>) u \<and>
        (u \<notin> event_tables \<longrightarrow> xs = []) \<and> sorted_wrt (<) (row_ids s u # map col_id xs) \<and>
        (\<forall>x\<in>set xs. col_mid x = 0 \<and> col_id x \<le> row_ids ((map_rows t (\<lambda>rs. rs @ [r\<lparr>col_id := row_ids s1 t + 1\<rparr>]) s1)
          \<lparr>row_ids := (row_ids s1)(t := row_ids s1 t + 1)\<rparr>) u)"
      using assms s1(2) by (intro exI[of _ "if u = t then [r\<lparr>col_id := row_ids s t + 1\<rparr>] else []"]) auto
  qed
  moreover have "only_inserts s s1"
    using s1 by (simp add: only_inserts_same)
  ultimately show "only_inserts s (snd (db_Insert t r s))"
    by (simp add: db_Insert_def e Let_def)
qed

section \<open>The database thread only inserts\<close>

text \<open>What the fields beyond the tables hold does not matter for the rows.\<close>

lemma rows_event_db_fields [simp]:
  "rows t (s\<lparr>removed_files := rf\<rparr>) = rows t s" "rows t (s\<lparr>alert_triggers := n\<rparr>) = rows t s"
  "rows t (s\<lparr>start_messages := n\<rparr>) = rows t s" "rows t (s\<lparr>m_queEvent := q\<rparr>) = rows t s"
  "rows t (s\<lparr>m_ulEventSizeInQueue := w\<rparr>) = rows t s" "rows t (s\<lparr>m_ulEventInsertThresholdSize := w\<rparr>) = rows t s"
  "rows t (s\<lparr>row_ids := f\<rparr>) = rows t s" "rows t (s\<lparr>lock_script := ls\<rparr>) = rows t s"
  for s :: "'a event_db_scheme"
  by (simp_all add: rows_def)

lemma event_tables_members [simp]: "TABLE_EVENT_STORE \<in> event_tables" "TABLE_ALERT_STORE \<in> event_tables"
  by (simp_all add: event_tables_def)

lemma inserts_take_event [inserts_intros]: "inserts take_event"
  by (auto simp: inserts_def take_event_def intro!: only_inserts_same split: prod.splits)

lemma then_do_ret: "then_do (ret a) f = f a"
  by (simp add: then_do_def cmd_run fun_eq_iff)

text \<open>A row that is about to be inserted has no identifier of a publish.\<close>

definition returns_row :: "('s, 'b) cmd \<Rightarrow> ('b \<Rightarrow> row) \<Rightarrow> bool" where
  "returns_row c f = (\<forall>s a s'. c s = (Ok a, s') \<longrightarrow> col_mid (f a) = 0)"

lemma inserts_then_do_row:
  assumes "inserts c" "returns_row c f" "\<And>a. col_mid (f a) = 0 \<Longrightarrow> inserts (d a)"
  shows "inserts (then_do c d)"
  unfolding inserts_def
proof
  fix s
  obtain r s1 where c: "c s = (r, s1)"
    by fastforce
  have "only_inserts s s1"
    using c insertsD assms(1) by blast
  moreover have "only_inserts s1 (snd (d a s1))" if "r = Ok a" for a
    using assms(2,3) c that by (auto simp: returns_row_def inserts_def)
  ultimately show "only_inserts s (snd (then_do c d s))"
    using only_inserts_trans[of s s1] by (cases r) (simp_all add: then_do_def c)
qed

lemma ProcessEventForStreamMode_row:
  assumes "col_mid r = 0"
  shows "returns_row (ProcessEventForStreamMode env e b r) snd" "inserts (ProcessEventForStreamMode env e b r)"
proof -
  show "returns_row (ProcessEventForStreamMode env e b r) snd"
    using assms
    by (auto simp: returns_row_def ProcessEventForStreamMode_def cmd_run then_do_def remove_attachments_def
      may_throw_def split: if_splits prod.splits res.splits option.splits)
  show "inserts (ProcessEventForStreamMode env e b r)"
    unfolding ProcessEventForStreamMode_def remove_attachments_def
    by (intro inserts_intros) simp_all
qed

lemma GetTopicedEventData_row:
  assumes "col_mid r = 0"
  shows "returns_row (GetTopicedEventData env e r) id" "inserts (GetTopicedEventData env e r)"
proof -
  show "returns_row (GetTopicedEventData env e r) id"
    using assms
    by (auto simp: returns_row_def GetTopicedEventData_def cmd_run then_do_def may_throw_def Let_def
      split: if_splits prod.splits res.splits option.splits)
  show "inserts (GetTopicedEventData env e r)"
    unfolding GetTopicedEventData_def Let_def by (intro inserts_intros)
qed

lemma returns_row_if: "returns_row c f \<Longrightarrow> returns_row d f \<Longrightarrow> returns_row (if b then c else d) f"
  by simp

lemma returns_row_ret: "col_mid (f a) = 0 \<Longrightarrow> returns_row (ret a) f"
  by (simp add: returns_row_def cmd_run)

lemma inserts_insert_supported [inserts_intros]:
  assumes "col_mid r = 0"
  shows "inserts (insert_supported env e r)"
proof -
  have stream: "returns_row (if b then ProcessEventForStreamMode env e b' r else ret (e, r)) snd"
    "inserts (if b then ProcessEventForStreamMode env e b' r else ret (e, r))" for b b'
    using ProcessEventForStreamMode_row[OF assms] assms
    by (auto intro!: returns_row_if returns_row_ret inserts_intros)
  have topic: "returns_row (if b then GetTopicedEventData env e1 r1 else ret r1) id"
    "inserts (if b then GetTopicedEventData env e1 r1 else ret r1)" if "col_mid r1 = 0" for b e1 r1
    using GetTopicedEventData_row[OF that] that
    by (auto intro!: returns_row_if returns_row_ret inserts_intros)
  show ?thesis
    unfolding insert_supported_def Let_def then_do_ret
  proof (rule inserts_then_do_row[OF stream(2,1)])
    fix a :: "event \<times> row" assume a: "col_mid (snd a) = 0"
    obtain e1 r1 where p: "a = (e1, r1)"
      by fastforce
    let ?r2 = "if IsEventSupportedForBatch (ev_id e) (upload_modes env) then r1\<lparr>col_batch := 1\<rparr> else r1"
    have r2: "col_mid ?r2 = 0"
      using a by (simp add: p)
    show "inserts (case a of (e1, r1) \<Rightarrow>
        then_do (may_throw (isMember (m_jsonValue e) ''topic'')) (\<lambda>topiced.
        then_do (if topiced then GetTopicedEventData env e1
            (if IsEventSupportedForBatch (ev_id e) (upload_modes env) then r1\<lparr>col_batch := 1\<rparr> else r1)
          else ret (if IsEventSupportedForBatch (ev_id e) (upload_modes env) then r1\<lparr>col_batch := 1\<rparr> else r1)) (\<lambda>r3.
          if IsEventSupportedForStream (ev_id e) (upload_modes env) \<or>
             IsEventSupportedForBatch (ev_id e) (upload_modes env) \<or> topiced
          then then_do (db_Insert TABLE_EVENT_STORE r3) (\<lambda>_. ret ()) else ret ())))"
      unfolding p prod.case
      by (rule inserts_then_do[OF inserts_may_throw], rule inserts_then_do_row[OF topic(2,1)[OF r2]])
        (auto intro!: inserts_intros)
  qed
qed

lemma inserts_InsertEvent [inserts_intros]: "inserts (InsertEvent env str)"
  unfolding InsertEvent_def Let_def trigger_alerts_def
  by (intro inserts_intros) (simp_all add: event_row_def)

lemma inserts_process_event [inserts_intros]: "inserts (process_event env n str)"
  unfolding process_event_def ProcessMessage_def after_event_def
  by (intro inserts_intros) (simp_all add: Let_def)

lemma inserts_ProcessQueueData: "inserts (ProcessQueueData env n)"
  unfolding ProcessQueueData_def by (intro inserts_intros)

lemma inserts_DB_FlushCache: "inserts (DB_FlushCache env)"
  unfolding DB_FlushCache_def flush_event_def ProcessMessage_def by (intro inserts_intros)

text \<open>Inserting new rows one by one is a run of the upload.\<close>

lemma insert_steps:
  assumes "t \<in> event_tables" "sorted_wrt (<) (k # map col_id xs)" "used_ids h t \<subseteq> {..k}"
    "\<forall>r\<in>set xs. col_mid r = 0"
  shows "\<exists>h'. upload_steps env h h' \<and> rows t (upl h') = rows t (upl h) @ xs \<and>
    (\<forall>u. u \<noteq> t \<longrightarrow> rows u (upl h') = rows u (upl h) \<and> used_ids h' u = used_ids h u) \<and>
    used_ids h' t = used_ids h t \<union> col_id ` set xs \<and> sent_log h' = sent_log h \<and> acked h' = acked h"
  using assms
proof (induction xs arbitrary: h k)
  case Nil
  then show ?case by (auto intro: exI[of _ h])
next
  case (Cons r xs)
  let ?h = "h\<lparr>upl := map_rows t (\<lambda>rs. rs @ [r]) (upl h), used_ids := (used_ids h)(t := insert (col_id r) (used_ids h t))\<rparr>"
  have "col_id r \<notin> used_ids h t"
    using Cons.prems(2,3) by auto
  then have step: "upload_step env h ?h"
    using Cons.prems by (intro upload_step.insert) auto
  have "used_ids ?h t \<subseteq> {..col_id r}" "sorted_wrt (<) (col_id r # map col_id xs)"
    using Cons.prems(2,3) by auto
  then obtain h' where h': "upload_steps env ?h h'" "rows t (upl h') = rows t (upl ?h) @ xs"
    "\<forall>u. u \<noteq> t \<longrightarrow> rows u (upl h') = rows u (upl ?h) \<and> used_ids h' u = used_ids ?h u"
    "used_ids h' t = used_ids ?h t \<union> col_id ` set xs" "sent_log h' = sent_log ?h" "acked h' = acked ?h"
    using Cons.IH[of "col_id r" ?h] Cons.prems by auto
  have "upload_steps env h h'"
    using step h'(1) by (meson converse_rtranclp_into_rtranclp)
  then show ?case
    using h'(2-6) Cons.prems(1) by (intro exI[of _ h']) (auto simp: rows_append)
qed

lemma only_inserts_steps:
  assumes "only_inserts s s'" "\<forall>t. rows t (upl h) = rows t s" "\<forall>t. used_ids h t \<subseteq> {..row_ids s t}"
  shows "\<exists>h'. upload_steps env h h' \<and> (\<forall>t. rows t (upl h') = rows t s') \<and>
    (\<forall>t. used_ids h' t \<subseteq> {..row_ids s' t}) \<and> sent_log h' = sent_log h \<and> acked h' = acked h"
proof -
  have ex: "\<exists>xs. rows t s' = rows t s @ xs \<and> row_ids s t \<le> row_ids s' t \<and> (t \<notin> event_tables \<longrightarrow> xs = []) \<and>
      sorted_wrt (<) (row_ids s t # map col_id xs) \<and> (\<forall>r\<in>set xs. col_mid r = 0 \<and> col_id r \<le> row_ids s' t)" for t
    using assms(1) by (simp add: only_inserts_def)
  obtain xs where xs: "rows TABLE_EVENT_STORE s' = rows TABLE_EVENT_STORE s @ xs"
      "sorted_wrt (<) (row_ids s TABLE_EVENT_STORE # map col_id xs)"
      "\<forall>r\<in>set xs. col_mid r = 0 \<and> col_id r \<le> row_ids s' TABLE_EVENT_STORE"
    using ex by blast
  obtain ys where ys: "rows TABLE_ALERT_STORE s' = rows TABLE_ALERT_STORE s @ ys"
      "sorted_wrt (<) (row_ids s TABLE_ALERT_STORE # map col_id ys)"
      "\<forall>r\<in>set ys. col_mid r = 0 \<and> col_id r \<le> row_ids s' TABLE_ALERT_STORE"
    using ex by blast
  obtain h1 where h1: "upload_steps env h h1" "rows TABLE_EVENT_STORE (upl h1) = rows TABLE_EVENT_STORE (upl h) @ xs"
    "\<forall>u. u \<noteq> TABLE_EVENT_STORE \<longrightarrow> rows u (upl h1) = rows u (upl h) \<and> used_ids h1 u = used_ids h u"
    "used_ids h1 TABLE_EVENT_STORE = used_ids h TABLE_EVENT_STORE \<union> col_id ` set xs"
    "sent_log h1 = sent_log h" "acked h1 = acked h"
    using insert_steps[of TABLE_EVENT_STORE "row_ids s TABLE_EVENT_STORE" xs h env] xs assms(3) by auto
  have ne: "TABLE_ALERT_STORE \<noteq> TABLE_EVENT_STORE"
    by (simp add: TABLE_EVENT_STORE_def TABLE_ALERT_STORE_def)
  obtain h2 where h2: "upload_steps env h1 h2" "rows TABLE_ALERT_STORE (upl h2) = rows TABLE_ALERT_STORE (upl h1) @ ys"
    "\<forall>u. u \<noteq> TABLE_ALERT_STORE \<longrightarrow> rows u (upl h2) = rows u (upl h1) \<and> used_ids h2 u = used_ids h1 u"
    "used_ids h2 TABLE_ALERT_STORE = used_ids h1 TABLE_ALERT_STORE \<union> col_id ` set ys"
    "sent_log h2 = sent_log h1" "acked h2 = acked h1"
    using insert_steps[of TABLE_ALERT_STORE "row_ids s TABLE_ALERT_STORE" ys h1 env] ys assms(3) h1(3) ne by auto
  have "rows t (upl h2) = rows t s' \<and> used_ids h2 t \<subseteq> {..row_ids s' t}" for t
  proof -
    have le: "used_ids h t \<subseteq> {..row_ids s' t}"
      using assms(3) ex[of t] by fastforce
    show ?thesis
    proof (cases "t = TABLE_EVENT_STORE \<or> t = TABLE_ALERT_STORE")
      case True
      then show ?thesis
        using h1 h2 ne xs ys assms(2) le by auto
    next
      case False
      then have "rows t s' = rows t s"
        using ex[of t] by (auto simp: event_tables_def)
      then show ?thesis
        using False h1(3) h2(3) assms(2) le by simp
    qed
  qed
  then show ?thesis
    using h1(1,5,6) h2(1,5,6) by (intro exI[of _ h2]) auto
qed

end
