(* ===== verification/Event_Fix.thy ===== *)
theory Event_Fix
  imports Event_Validation "HOL-Library.Multiset"
begin

text \<open>
  What \<open>CEventTimestampValidationHandler\<close> hands on: the calls it makes to its next handler, for a
  next handler that writes them down. Events before the cutoff wait, in the list or the table,
  and leave in one go, shifted by the same distance.
\<close>

section \<open>A handler that writes down its calls\<close>

record recorded = event_validation +
  calls :: "event list"

definition recorder :: "event \<Rightarrow> (recorded, unit) cmd" where
  "recorder e = modify (\<lambda>s. s\<lparr>calls := calls s @ [e]\<rparr>)"

lemma recorder_run [cmd_simps]: "recorder e s = (Ok (), s\<lparr>calls := calls s @ [e]\<rparr>)"
  by (simp add: recorder_def cmd_run)

lemma may_throw_run [cmd_simps]:
  "may_throw (Some a) s = (Ok a, s)"
  by (simp add: may_throw_def cmd_run)

lemma checked_run [cmd_simps]: "b \<Longrightarrow> checked b s = (Ok (), s)"
  by (simp add: checked_def cmd_run)

lemma succeeds_may_throw [outcome_simps]:
  "succeeds (may_throw x) s Q = (case x of None \<Rightarrow> False | Some a \<Rightarrow> Q a s)"
  by (simp add: may_throw_def succeeds_ret succeeds_fault split: option.splits)

lemma succeeds_checked [outcome_simps]: "succeeds (checked b) s Q = (b \<and> Q () s)"
  by (simp add: checked_def succeeds_ret succeeds_fault)

lemma then_do_get: "then_do get_st f s = f s s"
  by (simp add: then_do_def cmd_run)

section \<open>Fixing one event\<close>

definition time_of :: "event \<Rightarrow> rat" where
  "time_of e = (case GetTimestamp e of Some t \<Rightarrow> t | None \<Rightarrow> 0)"

text \<open>An event before the cutoff whose distance to the last one is an \<open>int\<close>, with an identifier
  and fields.\<close>

definition fixable :: "rat \<Rightarrow> event \<Rightarrow> bool" where
  "fixable lst e = (\<exists>n m. ev_timestamp e = JNum (of_int n) \<and> m_jsonValue e = JObj m \<and> ev_id e \<noteq> '''' \<and>
     of_int n < m_dblTimestampCutoff \<and> (\<exists>k. lst = of_int k \<and> int32 (k - n)))"

definition fixed :: "rat \<Rightarrow> rat \<Rightarrow> event \<Rightarrow> event" where
  "fixed frst lst e = SetTimestamp (frst - (lst - time_of e))
     (e\<lparr>m_jsonValue := (case json_put ''OriginalTimestamp'' (JNum (time_of e)) (m_jsonValue e) of Some d \<Rightarrow> d | None \<Rightarrow> JNull)\<rparr>)"

lemma fixable_time: "fixable lst e \<Longrightarrow> GetTimestamp e = Some (time_of e)"
  by (auto simp: fixable_def time_of_def GetTimestamp_def)

lemma fixable_before: "fixable lst e \<Longrightarrow> time_of e < m_dblTimestampCutoff"
  by (auto simp: fixable_def time_of_def GetTimestamp_def)

lemma fix_time_fixed:
  assumes "fixable lst e"
  shows "fix_time frst lst (time_of e) e = Some (fixed frst lst e)" "int32 (cast_double (lst - time_of e))"
    "ev_id (fixed frst lst e) \<noteq> ''''"
proof -
  obtain n m k where e: "ev_timestamp e = JNum (of_int n)" "m_jsonValue e = JObj m" "ev_id e \<noteq> ''''"
    "lst = of_int k" "int32 (k - n)"
    using assms by (auto simp: fixable_def)
  have t: "time_of e = of_int n"
    by (simp add: time_of_def GetTimestamp_def e)
  have "lst - time_of e = of_int (k - n)"
    by (simp add: e t)
  then have d: "cast_double (lst - time_of e) = k - n" "rat_of_int (cast_double (lst - time_of e)) = lst - time_of e"
    by (simp_all only: cast_double_of_int)
  show "fix_time frst lst (time_of e) e = Some (fixed frst lst e)"
    by (simp only: fix_time_def fixed_def AddField_def e(2) d(2) json_put.simps option.simps)
  show "int32 (cast_double (lst - time_of e))"
    using d(1) e(5) by simp
  show "ev_id (fixed frst lst e) \<noteq> ''''"
    using e(3) by (simp add: fixed_def SetTimestamp_def)
qed

lemma fixed_time: "time_of (fixed frst lst e) = frst - (lst - time_of e)"
  by (simp add: fixed_def time_of_def SetTimestamp_def GetTimestamp_def)

lemma FixAndSend_fixable:
  assumes "fixable (m_dblLastInvalidTimestamp s) e" "m_dblLastInvalidTimestamp s \<noteq> 0"
  shows "FixAndSend recorder (time_of e) e s =
    (Ok (), s\<lparr>calls := calls s @ [fixed (m_dblFrstValidTimestamp s) (m_dblLastInvalidTimestamp s) e]\<rparr>)"
  using fix_time_fixed(1,3)[OF assms(1), of "m_dblFrstValidTimestamp s"] fix_time_fixed(2)[OF assms(1)]
    fixable_before[OF assms(1)] assms(2)
  by (simp add: FixAndSend_def ValidateAndSendEvent_def then_do_Ok cmd_simps)

section \<open>The waiting list\<close>

lemma fix_initial_all:
  assumes "\<forall>e\<in>set es. fixable (m_dblLastInvalidTimestamp s) e" "m_dblLastInvalidTimestamp s \<noteq> 0"
    "m_listInitialEvents s = es"
  shows "run_all (fix_initial recorder) es s = (Ok (), s\<lparr>m_listInitialEvents := [],
    calls := calls s @ map (fixed (m_dblFrstValidTimestamp s) (m_dblLastInvalidTimestamp s)) es\<rparr>)"
  using assms
proof (induction es arbitrary: s)
  case Nil
  then show ?case by (simp add: cmd_run)
next
  case (Cons e es)
  let ?f = "fixed (m_dblFrstValidTimestamp s) (m_dblLastInvalidTimestamp s)"
  let ?s = "s\<lparr>calls := calls s @ [?f e], m_listInitialEvents := es\<rparr>"
  have e: "fixable (m_dblLastInvalidTimestamp s) e"
    using Cons.prems(1) by simp
  have "fix_initial recorder e s = (Ok (), ?s)"
    using Cons.prems(3)
    by (simp add: fix_initial_def fixable_time[OF e] then_do_Ok cmd_simps FixAndSend_fixable[OF e Cons.prems(2)])
  then show ?case
    using Cons.IH[of ?s] Cons.prems by (simp add: then_do_Ok)
qed

section \<open>The table\<close>

text \<open>The event that a row holds.\<close>

definition row_event :: "validation_env \<Rightarrow> inv_row \<Rightarrow> event option" where
  "row_event env r = JsonToEvent env (DecryptText env (iv_events r)) (new_event (tz_offset env) 0)"

definition stored_event :: "validation_env \<Rightarrow> inv_row \<Rightarrow> event" where
  "stored_event env r = (case row_event env r of Some e \<Rightarrow> e | None \<Rightarrow> new_event 0 0)"

definition row_fixable :: "validation_env \<Rightarrow> rat \<Rightarrow> inv_row \<Rightarrow> bool" where
  "row_fixable env lst r = (row_event env r \<noteq> None \<and> fixable lst (stored_event env r))"

lemma fix_stored_all:
  assumes "\<forall>r\<in>set rs. row_fixable env (m_dblLastInvalidTimestamp s) r" "m_dblLastInvalidTimestamp s \<noteq> 0"
  shows "run_all (fix_stored recorder env) (map (\<lambda>r. DecryptText env (iv_events r)) rs) s =
    (Ok (), s\<lparr>calls := calls s @ map (fixed (m_dblFrstValidTimestamp s) (m_dblLastInvalidTimestamp s) \<circ> stored_event env) rs\<rparr>)"
  using assms
proof (induction rs arbitrary: s)
  case Nil
  then show ?case by (simp add: cmd_run)
next
  case (Cons r rs)
  let ?f = "fixed (m_dblFrstValidTimestamp s) (m_dblLastInvalidTimestamp s)"
  let ?s = "s\<lparr>calls := calls s @ [?f (stored_event env r)]\<rparr>"
  have r: "row_event env r = Some (stored_event env r)" "fixable (m_dblLastInvalidTimestamp s) (stored_event env r)"
    using Cons.prems(1) by (auto simp: row_fixable_def stored_event_def)
  have "fix_stored recorder env (DecryptText env (iv_events r)) s = (Ok (), ?s)"
    using r(1)
    by (simp add: fix_stored_def row_event_def fixable_time[OF r(2)] then_do_Ok cmd_simps
      FixAndSend_fixable[OF r(2) Cons.prems(2)])
  then show ?case
    using Cons.IH[of ?s] Cons.prems by (simp add: then_do_Ok)
qed

text \<open>Taking the oldest rows away leaves the others in the same order.\<close>

lemma filter_not_taken:
  assumes "distinct (map f ys)"
  shows "filter (\<lambda>y. f y \<notin> set (map f (take n ys))) ys = drop n ys"
proof -
  have d: "set (map f (take n ys)) \<inter> set (map f (drop n ys)) = {}"
    using assms append_take_drop_id[of n ys] by (metis distinct_append map_append)
  have "filter (\<lambda>y. f y \<notin> set (map f (take n ys))) (take n ys @ drop n ys) = drop n ys"
    using d by (auto simp: filter_empty_conv filter_id_conv simp del: append_take_drop_id)
  then show ?thesis
    by simp
qed

lemma distinct_map_sort_key: "distinct (map f (sort_key k xs)) = distinct (map f xs)"
  by (simp add: distinct_map)

lemma sort_key_take_drop:
  assumes "distinct (map f xs)" "ys = take n (sort_key k xs)"
  shows "sort_key k (filter (\<lambda>x. f x \<notin> set (map f ys)) xs) = drop n (sort_key k xs)"
  using filter_not_taken[of f "sort_key k xs" n] assms
  by (simp add: distinct_map_sort_key filter_sort)

lemma stored_round_run:
  assumes "db_script s = []" "m_listDBOverLimitEventList s = []"
    and fix_ok: "\<forall>r\<in>set (invalid_store s). row_fixable env (m_dblLastInvalidTimestamp s) r"
    and lst: "m_dblLastInvalidTimestamp s \<noteq> 0"
  defines "rs \<equiv> take 100 (sort_key iv_timestamp (invalid_store s))"
  shows "stored_round recorder env s = (Ok (), s\<lparr>
    invalid_store := filter (\<lambda>r. iv_id r \<notin> set (map iv_id rs)) (invalid_store s),
    calls := calls s @ map (fixed (m_dblFrstValidTimestamp s) (m_dblLastInvalidTimestamp s) \<circ> stored_event env) rs\<rparr>)"
proof -
  have try_ok: "db_try t = (Ok True, t)" if "db_script t = []" for t :: recorded
    using that by (simp add: db_try_def db_exec_def)
  have r: "RetriveEvents env 100 s = (Ok (map (\<lambda>r. (iv_id r, DecryptText env (iv_events r))) rs), s)"
    using assms(1,2)
    by (simp add: RetriveEvents_def send_over_limit_def oldest_invalid_def then_do_Ok cmd_simps try_ok rs_def)
  have "set rs \<subseteq> set (invalid_store s)"
    using set_take_subset[of 100 "sort_key iv_timestamp (invalid_store s)"] by (simp add: rs_def)
  then have f: "\<forall>r\<in>set rs. row_fixable env (m_dblLastInvalidTimestamp s) r"
    using fix_ok by blast
  let ?s = "s\<lparr>calls := calls s @ map (fixed (m_dblFrstValidTimestamp s) (m_dblLastInvalidTimestamp s) \<circ> stored_event env) rs\<rparr>"
  have d: "\<exists>b. Invalid_DeleteEvents (map iv_id rs) ?s = (Ok b, ?s\<lparr>
      invalid_store := filter (\<lambda>r. iv_id r \<notin> set (map iv_id rs)) (invalid_store s)\<rparr>)"
    using assms(1) by (cases "rs = []") (auto simp: Invalid_DeleteEvents_def then_do_Ok cmd_simps try_ok)
  show ?thesis
    using d fix_stored_all[OF f lst]
    by (auto simp: stored_round_def then_do_Ok r comp_def cmd_simps)
qed

lemma stored_loop_run:
  assumes "db_script s = []" "m_listDBOverLimitEventList s = []"
    and "\<forall>r\<in>set (invalid_store s). row_fixable env (m_dblLastInvalidTimestamp s) r"
    and "m_dblLastInvalidTimestamp s \<noteq> 0"
    and "distinct (map iv_id (invalid_store s))" "int (length (invalid_store s)) \<le> n"
  shows "stored_loop recorder env n s = (Ok (), s\<lparr>invalid_store := [],
    calls := calls s @ map (fixed (m_dblFrstValidTimestamp s) (m_dblLastInvalidTimestamp s) \<circ> stored_event env)
      (sort_key iv_timestamp (invalid_store s))\<rparr>)"
  using assms
proof (induction "nat n" arbitrary: n s rule: less_induct)
  case less
  show ?case
  proof (cases "n > 0")
    case False
    then have "int (length (invalid_store s)) \<le> 0"
      using less.prems(6) by linarith
    then have "invalid_store s = []"
      by simp
    then have "s\<lparr>invalid_store := [], calls := calls s\<rparr> = s"
      by (intro recorded.equality) simp_all
    then show ?thesis
      using False \<open>invalid_store s = []\<close> by (subst stored_loop.simps) (simp add: cmd_run)
  next
    case True
    define ys where "ys = sort_key iv_timestamp (invalid_store s)"
    define f where "f = fixed (m_dblFrstValidTimestamp s) (m_dblLastInvalidTimestamp s) \<circ> stored_event env"
    define left where "left = filter (\<lambda>r. iv_id r \<notin> set (map iv_id (take 100 ys))) (invalid_store s)"
    define s1 where "s1 = s\<lparr>invalid_store := left, calls := calls s @ map f (take 100 ys)\<rparr>"
    have round: "stored_round recorder env s = (Ok (), s1)"
      using stored_round_run[OF less.prems(1-4)] by (simp add: s1_def left_def ys_def f_def)
    have sorted_left: "sort_key iv_timestamp left = drop 100 ys"
      using sort_key_take_drop[OF less.prems(5) refl, where n = 100 and k = iv_timestamp] by (simp add: left_def ys_def)
    have len_left: "length left = length (invalid_store s) - 100"
      using arg_cong[OF sorted_left, of length] by (simp add: ys_def)
    have len: "int (length left) \<le> n - 100" if "left \<noteq> []"
    proof -
      have "0 < length left"
        using that by simp
      then show ?thesis
        using len_left less.prems(6) by linarith
    qed
    have s1: "db_script s1 = []" "m_listDBOverLimitEventList s1 = []" "invalid_store s1 = left"
      "m_dblLastInvalidTimestamp s1 = m_dblLastInvalidTimestamp s"
      "m_dblFrstValidTimestamp s1 = m_dblFrstValidTimestamp s" "calls s1 = calls s @ map f (take 100 ys)"
      using less.prems(1,2) by (simp_all add: s1_def)
    have sub: "\<forall>r\<in>set left. row_fixable env (m_dblLastInvalidTimestamp s) r" "distinct (map iv_id left)"
      using less.prems(3,5) by (auto simp: left_def distinct_map_filter)
    have "stored_loop recorder env (n - 100) s1 = (Ok (), s1\<lparr>invalid_store := [],
        calls := calls s1 @ map f (sort_key iv_timestamp left)\<rparr>)"
    proof (cases "n - 100 > 0 \<or> left \<noteq> []")
      case False
      then show ?thesis
        by (subst stored_loop.simps) (simp add: cmd_run s1_def)
    next
      case 2: True
      have "int (length left) \<le> n - 100"
        using len 2 by (cases "left = []") auto
      moreover have "nat (n - 100) < nat n"
        using True by simp
      ultimately show ?thesis
        using less.hyps[of "n - 100" s1] s1 sub less.prems(4) by (simp add: f_def)
    qed
    then have "stored_loop recorder env n s = (Ok (), s1\<lparr>invalid_store := [],
        calls := calls s1 @ map f (sort_key iv_timestamp left)\<rparr>)"
      using True round by (subst stored_loop.simps) (simp add: then_do_Ok)
    then show ?thesis
      unfolding sorted_left ys_def[symmetric] f_def[symmetric]
      by (simp add: s1_def flip: map_append)
  qed
qed

section \<open>Events before the cutoff wait\<close>

definition waiting :: "validation_env \<Rightarrow> recorded \<Rightarrow> event list" where
  "waiting env s =
     (if m_bInvalidEventsAvailableInDb s
      then map (stored_event env) (sort_key iv_timestamp (invalid_store s)) else []) @ m_listInitialEvents s"

text \<open>No statement fails, the database is below its limit, and the rows of the table can be read.\<close>

definition store_ok :: "validation_env \<Rightarrow> recorded \<Rightarrow> bool" where
  "store_ok env s = (db_script s = [] \<and> db_sizes s = [] \<and> m_listDBOverLimitEventList s = [] \<and>
     distinct (map iv_id (invalid_store s)) \<and> (\<forall>r\<in>set (invalid_store s). iv_id r < invalid_next s) \<and>
     (\<forall>r\<in>set (invalid_store s). row_event env r \<noteq> None) \<and>
     (\<not> m_bInvalidEventsAvailableInDb s \<longrightarrow> invalid_store s = []) \<and> m_dblFrstValidTimestamp s = 0)"

text \<open>An event that the table gives back.\<close>

definition stores :: "validation_env \<Rightarrow> event \<Rightarrow> bool" where
  "stores env e = (whole_time e \<and> (\<exists>str. EventToJson env e = Some (str, e) \<and>
     JsonToEvent env str (new_event (tz_offset env) 0) = Some e \<and>
     DecryptText env (EncryptEventData env str) = str))"

lemma db_try_ok: "db_script s = [] \<Longrightarrow> db_try s = (Ok True, s)"
  by (simp add: db_try_def db_exec_def)

lemma insert_front_run:
  assumes "stores env e" "db_script s = []"
  shows "\<exists>r. insert_front env e s = (Ok (), s\<lparr>invalid_next := invalid_next s + 1,
      invalid_store := invalid_store s @ [r], m_listInitialEvents := tl (m_listInitialEvents s)\<rparr>) \<and>
    iv_id r = invalid_next s \<and> row_event env r = Some e"
proof -
  obtain n where n: "ev_timestamp e = JNum (of_int n)" "0 \<le> n" "n < 2 ^ 63"
    using assms(1) by (auto simp: stores_def whole_time_def)
  obtain str where str: "EventToJson env e = Some (str, e)"
    "JsonToEvent env str (new_event (tz_offset env) 0) = Some e" "DecryptText env (EncryptEventData env str) = str"
    using assms(1) by (auto simp: stores_def)
  have t: "GetTimestamp e = Some (of_int n)" "int64 n"
    using n by (auto simp: GetTimestamp_def int64_def)
  let ?r = "\<lparr>iv_id = invalid_next s, iv_timestamp = n, iv_events = EncryptEventData env str\<rparr>"
  have "InsertIntoDb env str s = (Ok (), s\<lparr>invalid_next := invalid_next s + 1, invalid_store := invalid_store s @ [?r]\<rparr>)"
    by (simp add: InsertIntoDb_def str t then_do_Ok cmd_simps db_try_ok assms(2))
  then have "insert_front env e s = (Ok (), s\<lparr>invalid_next := invalid_next s + 1,
      invalid_store := invalid_store s @ [?r], m_listInitialEvents := tl (m_listInitialEvents s)\<rparr>)"
    by (simp add: insert_front_def str(1) then_do_Ok cmd_simps)
  then show ?thesis
    by (intro exI[of _ ?r]) (simp add: row_event_def str)
qed

lemma insert_front_all:
  assumes "\<forall>e\<in>set es. stores env e" "store_ok env s" "m_bInvalidEventsAvailableInDb s" "m_listInitialEvents s = es"
  shows "succeeds (run_all (insert_front env) es) s (\<lambda>_ s'. store_ok env s' \<and> m_bInvalidEventsAvailableInDb s' \<and>
    m_listInitialEvents s' = [] \<and> calls s' = calls s \<and> m_dblLastInvalidTimestamp s' = m_dblLastInvalidTimestamp s \<and>
    map (stored_event env) (invalid_store s') = map (stored_event env) (invalid_store s) @ es)"
  using assms
proof (induction es arbitrary: s)
  case Nil
  then show ?case by (simp add: outcome_simps)
next
  case (Cons e es)
  obtain r where r: "insert_front env e s = (Ok (), s\<lparr>invalid_next := invalid_next s + 1,
      invalid_store := invalid_store s @ [r], m_listInitialEvents := tl (m_listInitialEvents s)\<rparr>)"
    "iv_id r = invalid_next s" "row_event env r = Some e"
    using insert_front_run[of env e s] Cons.prems by (auto simp: store_ok_def)
  let ?s = "s\<lparr>invalid_next := invalid_next s + 1, invalid_store := invalid_store s @ [r],
    m_listInitialEvents := tl (m_listInitialEvents s)\<rparr>"
  have "store_ok env ?s"
    using Cons.prems(2,3) r(2,3) by (auto simp: store_ok_def)
  then have "succeeds (run_all (insert_front env) es) ?s (\<lambda>_ s'. store_ok env s' \<and> m_bInvalidEventsAvailableInDb s' \<and>
    m_listInitialEvents s' = [] \<and> calls s' = calls ?s \<and> m_dblLastInvalidTimestamp s' = m_dblLastInvalidTimestamp ?s \<and>
    map (stored_event env) (invalid_store s') = map (stored_event env) (invalid_store ?s) @ es)"
    using Cons.prems by (intro Cons.IH) simp_all
  moreover have "stored_event env r = e"
    by (simp add: stored_event_def r(3))
  ultimately show ?case
    by (simp add: succeeds_def then_do_Ok r(1) split: prod.splits res.splits)
qed

lemma mset_waiting:
  "store_ok env s \<Longrightarrow> mset (waiting env s) = mset (map (stored_event env) (invalid_store s)) + mset (m_listInitialEvents s)"
  by (auto simp: waiting_def store_ok_def)

lemma TS_invalid:
  assumes ok: "store_ok env s" and e: "GetTimestamp e = Some ts" "ts < m_dblTimestampCutoff" "ev_id e \<notin> set (m_setExceptionEvents env)"
    and st: "storeInvalidEvents env" "0 < m_unDbSizeLimit env" "\<forall>a\<in>set (e # m_listInitialEvents s). stores env a"
  shows "succeeds (TS_HandleEvent recorder env e) s (\<lambda>_ s'. store_ok env s' \<and> calls s' = calls s \<and>
    mset (waiting env s') = mset (waiting env s) + {#e#} \<and> set (m_listInitialEvents s') \<subseteq> set (e # m_listInitialEvents s) \<and>
    m_dblLastInvalidTimestamp s' = max (m_dblLastInvalidTimestamp s) ts)"
proof -
  define s1 where "s1 = s\<lparr>m_dblLastInvalidTimestamp := max (m_dblLastInvalidTimestamp s) ts,
    m_listInitialEvents := m_listInitialEvents s @ [e]\<rparr>"
  have run: "TS_HandleEvent recorder env e s = HandleInvalidEventTS recorder env s1"
    using ok e
    by (simp add: TS_HandleEvent_def IsEventHasValidTS_def ValidateTsOfEvent_def ValidateEventTSBasedOnCutOff_def
      store_ok_def then_do_Ok cmd_simps s1_def max_def)
  have s1: "calls s1 = calls s" "invalid_store s1 = invalid_store s" "m_listInitialEvents s1 = m_listInitialEvents s @ [e]"
    "m_dblLastInvalidTimestamp s1 = max (m_dblLastInvalidTimestamp s) ts"
    "m_bInvalidEventsAvailableInDb s1 = m_bInvalidEventsAvailableInDb s"
    by (simp_all add: s1_def)
  have ok1: "store_ok env s1" "db_sizes s1 = []"
    using ok by (simp_all add: store_ok_def s1_def)
  have w1: "mset (waiting env s1) = mset (waiting env s) + {#e#}"
    by (simp add: mset_waiting[OF ok] mset_waiting[OF ok1(1)] s1)
  show ?thesis
  proof (cases "length (m_listInitialEvents s1) > m_nInitialEventQueueLimit")
    case False
    then show ?thesis
      using ok1 w1 s1 unfolding succeeds_def run
      by (simp add: HandleInvalidEventTS_def then_do_Ok cmd_simps)
  next
    case True
    let ?s2 = "s1\<lparr>m_bInvalidEventsAvailableInDb := True\<rparr>"
    have "store_ok env ?s2"
      using ok1(1) by (auto simp: store_ok_def)
    then have "succeeds (run_all (insert_front env) (m_listInitialEvents ?s2)) ?s2
      (\<lambda>_ s'. store_ok env s' \<and> m_bInvalidEventsAvailableInDb s' \<and>
        m_listInitialEvents s' = [] \<and> calls s' = calls ?s2 \<and> m_dblLastInvalidTimestamp s' = m_dblLastInvalidTimestamp ?s2 \<and>
        map (stored_event env) (invalid_store s') = map (stored_event env) (invalid_store ?s2) @ m_listInitialEvents ?s2)"
      using st(3) by (intro insert_front_all) (auto simp: s1)
    moreover have "HandleInvalidEventTS recorder env s1 = run_all (insert_front env) (m_listInitialEvents ?s2) ?s2"
    proof -
      have "GetSize ?s2 = (Ok 0, ?s2)"
        by (simp add: GetSize_def ok1(2))
      then show ?thesis
        using True st(1,2)
        by (simp add: HandleInvalidEventTS_def Invalid_InsertEvents_def then_do_Ok cmd_simps Let_def s1)
    qed
    moreover have "mset (waiting env s') = mset (waiting env s1)" if "store_ok env s'" "m_listInitialEvents s' = []"
      "map (stored_event env) (invalid_store s') = map (stored_event env) (invalid_store s1) @ m_listInitialEvents s1" for s'
      using that mset_waiting[OF that(1)] mset_waiting[OF ok1(1)] by simp
    ultimately show ?thesis
      unfolding succeeds_def run using w1 s1
      by (auto split: prod.splits res.splits)
  qed
qed

lemma sort_key_Nil: "sort_key k xs = [] \<longleftrightarrow> xs = []"
  by (metis length_0_conv length_sort)

section \<open>The first event after the cutoff releases them\<close>

lemma TS_valid:
  assumes ok: "store_ok env s" and e: "GetTimestamp e = Some ts" "\<not> ts < m_dblTimestampCutoff"
      "ev_id e \<notin> set (m_setExceptionEvents env)" "ev_id e \<noteq> ''''"
    and fix_ok: "\<forall>a\<in>set (waiting env s). fixable (m_dblLastInvalidTimestamp s) a"
    and lst: "waiting env s \<noteq> [] \<Longrightarrow> m_dblLastInvalidTimestamp s \<noteq> 0"
  shows "succeeds (TS_HandleEvent recorder env e) s (\<lambda>_ s'. waiting env s' = [] \<and> m_dblFrstValidTimestamp s' = ts \<and>
    calls s' = calls s @ map (fixed ts (m_dblLastInvalidTimestamp s)) (waiting env s) @ [e])"
proof -
  let ?lst = "m_dblLastInvalidTimestamp s"
  define s1 where "s1 = s\<lparr>m_dblFrstValidTimestamp := ts\<rparr>"
  have run: "TS_HandleEvent recorder env e s =
    then_do (HandleFirstValidTs recorder env) (\<lambda>_. ValidateAndSendEvent recorder e) s1"
    using ok e
    by (simp add: TS_HandleEvent_def IsEventHasValidTS_def ValidateTsOfEvent_def ValidateEventTSBasedOnCutOff_def
      store_ok_def then_do_Ok cmd_simps s1_def)
  have send: "ValidateAndSendEvent recorder e t = (Ok (), t\<lparr>calls := calls t @ [e]\<rparr>)" for t
    using e(4) by (simp add: ValidateAndSendEvent_def cmd_simps)
  have rows: "row_fixable env ?lst r" if "r \<in> set (invalid_store s)" "m_bInvalidEventsAvailableInDb s" for r
    using that ok fix_ok by (auto simp: row_fixable_def store_ok_def waiting_def)
  show ?thesis
  proof (cases "m_listInitialEvents s \<noteq> [] \<or> m_bInvalidEventsAvailableInDb s")
    case False
    then have "HandleFirstValidTs recorder env s1 = (Ok (), s1)"
      by (simp add: HandleFirstValidTs_def then_do_Ok cmd_simps s1_def)
    then show ?thesis
      using False by (simp add: succeeds_def run then_do_Ok send waiting_def s1_def)
  next
    case True
    define pre where "pre = (if m_bInvalidEventsAvailableInDb s
      then map (stored_event env) (sort_key iv_timestamp (invalid_store s)) else [])"
    define s2 where "s2 = s1\<lparr>invalid_store := [], calls := calls s1 @ map (fixed ts ?lst) pre\<rparr>"
    have table: "(if m_bInvalidEventsAvailableInDb s1 then then_do GetEventRowCount (stored_loop recorder env) else ret ()) s1
      = (Ok (), s2)"
    proof (cases "m_bInvalidEventsAvailableInDb s")
      case flag: True
      have "GetEventRowCount s1 = (Ok (int (length (invalid_store s))), s1)"
        using ok by (simp add: GetEventRowCount_def then_do_Ok cmd_simps db_try_ok store_ok_def s1_def)
      moreover have "stored_loop recorder env (int (length (invalid_store s))) s1 = (Ok (), s2)"
      proof (cases "invalid_store s = []")
        case True
        then have "s2 = s1"
          by (intro recorded.equality) (simp_all add: s2_def pre_def s1_def)
        then show ?thesis
          using True by (subst stored_loop.simps) (simp add: cmd_run)
      next
        case False
        then have "?lst \<noteq> 0"
          using flag by (intro lst) (simp add: waiting_def sort_key_Nil)
        then show ?thesis
          using ok rows flag stored_loop_run[of s1 env "int (length (invalid_store s))"]
          by (simp add: store_ok_def s1_def s2_def pre_def)
      qed
      ultimately show ?thesis
        using flag by (simp add: then_do_Ok s1_def)
    next
      case False
      then have "s2 = s1"
        using ok by (intro recorded.equality) (simp_all add: s2_def pre_def s1_def store_ok_def)
      then show ?thesis
        using False by (simp add: cmd_run s1_def)
    qed
    have list: "run_all (fix_initial recorder) (m_listInitialEvents s2) s2 =
      (Ok (), s2\<lparr>m_listInitialEvents := [], calls := calls s2 @ map (fixed ts ?lst) (m_listInitialEvents s)\<rparr>)"
    proof (cases "m_listInitialEvents s = []")
      case True
      then have "s2\<lparr>m_listInitialEvents := [], calls := calls s2 @ map (fixed ts ?lst) (m_listInitialEvents s)\<rparr> = s2"
        by (intro recorded.equality) (simp_all add: s2_def s1_def)
      then show ?thesis
        using True by (simp add: cmd_run s2_def s1_def)
    next
      case False
      then have "?lst \<noteq> 0"
        by (intro lst) (simp add: waiting_def)
      then show ?thesis
        using fix_ok fix_initial_all[of "m_listInitialEvents s" s2] by (simp add: s2_def s1_def waiting_def)
    qed
    have cond: "(m_listInitialEvents s1 \<noteq> [] \<or> m_bInvalidEventsAvailableInDb s1) = True"
      using True by (simp add: s1_def)
    have "HandleFirstValidTs recorder env s1 = (Ok (), s2\<lparr>m_listInitialEvents := [],
        calls := calls s2 @ map (fixed ts ?lst) (m_listInitialEvents s), m_bInvalidEventsAvailableInDb := False\<rparr>)"
      unfolding HandleFirstValidTs_def then_do_get cond if_True
      by (subst then_do_def, subst table, simp only: prod.case res.case then_do_get,
          subst then_do_def, subst list, simp only: prod.case res.case cmd_run)
    then show ?thesis
      by (simp add: succeeds_def run then_do_Ok send waiting_def s2_def s1_def pre_def)
  qed
qed

text \<open>All together: events before the cutoff, as many as there are, then one after it.\<close>

definition before_cutoff :: "validation_env \<Rightarrow> event \<Rightarrow> bool" where
  "before_cutoff env e = (stores env e \<and> 0 < time_of e \<and> time_of e < m_dblTimestampCutoff \<and>
     ev_id e \<notin> set (m_setExceptionEvents env))"

definition last_time :: "event list \<Rightarrow> rat" where
  "last_time es = foldl max 0 (map time_of es)"

lemma stores_time: "stores env e \<Longrightarrow> GetTimestamp e = Some (time_of e)"
  by (auto simp: stores_def whole_time_def GetTimestamp_def time_of_def)

lemma TS_invalid_all:
  assumes "\<forall>e\<in>set es. before_cutoff env e" "store_ok env s" "\<forall>a\<in>set (m_listInitialEvents s). stores env a"
    "storeInvalidEvents env" "0 < m_unDbSizeLimit env" "m_dblLastInvalidTimestamp s = last_time pre"
  shows "succeeds (run_all (TS_HandleEvent recorder env) es) s (\<lambda>_ s'. store_ok env s' \<and> calls s' = calls s \<and>
    mset (waiting env s') = mset (waiting env s) + mset es \<and> m_dblLastInvalidTimestamp s' = last_time (pre @ es))"
  using assms
proof (induction es arbitrary: s pre)
  case Nil
  then show ?case by (simp add: outcome_simps)
next
  case (Cons e es)
  have "succeeds (TS_HandleEvent recorder env e) s (\<lambda>_ s'. store_ok env s' \<and> calls s' = calls s \<and>
    mset (waiting env s') = mset (waiting env s) + {#e#} \<and> set (m_listInitialEvents s') \<subseteq> set (e # m_listInitialEvents s) \<and>
    m_dblLastInvalidTimestamp s' = max (m_dblLastInvalidTimestamp s) (time_of e))"
    using Cons.prems by (intro TS_invalid) (auto simp: before_cutoff_def stores_time)
  then show ?case
    unfolding run_all.simps succeeds_then_do
  proof (rule succeeds_mono)
    fix s1 assume s1: "store_ok env s1 \<and> calls s1 = calls s \<and>
      mset (waiting env s1) = mset (waiting env s) + {#e#} \<and> set (m_listInitialEvents s1) \<subseteq> set (e # m_listInitialEvents s) \<and>
      m_dblLastInvalidTimestamp s1 = max (m_dblLastInvalidTimestamp s) (time_of e)"
    have "m_dblLastInvalidTimestamp s1 = last_time (pre @ [e])"
      using s1 Cons.prems(6) by (simp add: last_time_def)
    then have "succeeds (run_all (TS_HandleEvent recorder env) es) s1 (\<lambda>_ s'. store_ok env s' \<and> calls s' = calls s1 \<and>
      mset (waiting env s') = mset (waiting env s1) + mset es \<and> m_dblLastInvalidTimestamp s' = last_time ((pre @ [e]) @ es))"
      using Cons.prems s1 by (intro Cons.IH) (auto simp: before_cutoff_def)
    then show "succeeds (run_all (TS_HandleEvent recorder env) es) s1 (\<lambda>_ s'. store_ok env s' \<and> calls s' = calls s \<and>
      mset (waiting env s') = mset (waiting env s) + mset (e # es) \<and> m_dblLastInvalidTimestamp s' = last_time (pre @ e # es))"
      by (rule succeeds_mono) (use s1 in auto)
  qed
qed

lemma last_time_ge: "e \<in> set es \<Longrightarrow> time_of e \<le> last_time es"
proof -
  have "x \<in> set xs \<Longrightarrow> x \<le> foldl max a xs \<and> a \<le> foldl max a xs" for x a and xs :: "rat list"
  proof (induction xs arbitrary: a)
    case (Cons y ys)
    have "a \<le> foldl max a ys" for a and ys :: "rat list"
      by (induction ys arbitrary: a) (simp, metis foldl_Cons max.boundedE)
    then show ?case
      using Cons by (metis foldl_Cons max.boundedE set_ConsD)
  qed simp
  then show "e \<in> set es \<Longrightarrow> time_of e \<le> last_time es"
    unfolding last_time_def by (metis image_eqI list.set_map)
qed

lemma TS_run:
  assumes es: "\<forall>a\<in>set es. before_cutoff env a \<and> fixable (last_time es) a"
    and start: "store_ok env s" "m_listInitialEvents s = []" "invalid_store s = []" "m_dblLastInvalidTimestamp s = 0"
    and config: "storeInvalidEvents env" "0 < m_unDbSizeLimit env"
    and e: "GetTimestamp e = Some ts" "m_dblTimestampCutoff \<le> ts" "ev_id e \<notin> set (m_setExceptionEvents env)" "ev_id e \<noteq> ''''"
  shows "succeeds (then_do (run_all (TS_HandleEvent recorder env) es) (\<lambda>_. TS_HandleEvent recorder env e)) s
    (\<lambda>_ s'. waiting env s' = [] \<and>
      (\<exists>xs. mset xs = mset es \<and> calls s' = calls s @ map (fixed ts (last_time es)) xs @ [e]))"
  unfolding succeeds_then_do
proof (rule succeeds_mono)
  show "succeeds (run_all (TS_HandleEvent recorder env) es) s (\<lambda>_ s'. store_ok env s' \<and> calls s' = calls s \<and>
    mset (waiting env s') = mset (waiting env s) + mset es \<and> m_dblLastInvalidTimestamp s' = last_time ([] @ es))"
    using assms by (intro TS_invalid_all) (auto simp: last_time_def)
next
  fix u s1
  assume "store_ok env s1 \<and> calls s1 = calls s \<and>
    mset (waiting env s1) = mset (waiting env s) + mset es \<and> m_dblLastInvalidTimestamp s1 = last_time ([] @ es)"
  then have s1: "store_ok env s1" "calls s1 = calls s" "mset (waiting env s1) = mset es"
      "m_dblLastInvalidTimestamp s1 = last_time es"
    using start by (auto simp: waiting_def)
  have "set (waiting env s1) = set es"
    using s1(3) by (metis set_mset_mset)
  moreover have "last_time es \<noteq> 0" if w: "waiting env s1 \<noteq> []"
  proof -
    obtain a where "a \<in> set es"
      using w s1(3) by (cases es) auto
    then have "0 < time_of a" "time_of a \<le> last_time es"
      using es last_time_ge by (auto simp: before_cutoff_def)
    then show ?thesis by linarith
  qed
  ultimately have "succeeds (TS_HandleEvent recorder env e) s1 (\<lambda>_ s'. waiting env s' = [] \<and> m_dblFrstValidTimestamp s' = ts \<and>
      calls s' = calls s1 @ map (fixed ts (m_dblLastInvalidTimestamp s1)) (waiting env s1) @ [e])"
    using e es s1 by (intro TS_valid) auto
  then show "succeeds (TS_HandleEvent recorder env e) s1 (\<lambda>_ s'. waiting env s' = [] \<and>
      (\<exists>xs. mset xs = mset es \<and> calls s' = calls s @ map (fixed ts (last_time es)) xs @ [e]))"
    by (rule succeeds_mono) (use s1 in auto)
qed

end
