(* ===== verification/Event_Delivery.thy ===== *)
theory Event_Delivery
  imports Event_Flow Event_Fix
begin

text \<open>
  The way of an event from the handlers to its row: where \<open>CDBTransport\<close> stores it, that a drained
  queue leaves a row for each text, and that an event of a running session whose time is known
  passes all handlers.
\<close>

section \<open>The row of an event\<close>

definition topic_of :: "'b json_lib_scheme \<Rightarrow> event \<Rightarrow> string option" where
  "topic_of L e = (if isMember (m_jsonValue e) ''topic'' = Some True
     then Option.bind (json_at (m_jsonValue e) ''topic'') (asString L) else None)"

definition row_of_event :: "pipeline_env \<Rightarrow> string \<Rightarrow> event \<Rightarrow> (string \<times> row) option" where
  "row_of_event env str e =
     (let M = upload_modes env; i = ev_id e; r = event_row env i str (cast_double (time_of e));
          stream = IsEventSupportedForStream i M; batch = IsEventSupportedForBatch i M;
          topic = topic_of env e in
      if IsStreamModeSupported M \<and> IsAlert env i then Some (TABLE_ALERT_STORE, r)
      else if stream \<or> batch \<or> topic \<noteq> None then
        Some (TABLE_EVENT_STORE, r\<lparr>col_topic := topic,
          col_stream := (if stream \<or> topic \<noteq> None \<and> IsStreamModeSupported M then 1 else 0),
          col_batch := (if batch \<or> topic \<noteq> None \<and> \<not> IsStreamModeSupported M \<and> IsBatchModeSupported M
            then 1 else 0)\<rparr>)
      else None)"

definition parsed :: "pipeline_env \<Rightarrow> string \<Rightarrow> event option" where
  "parsed env str = JsonToEvent env str (new_event (tz_offset env) 0)"

text \<open>A text that describes an event without attachments, with a time, a time zone within a day,
  data with at most a string as topic, and no quotes.\<close>

definition plain_event :: "'b json_lib_scheme \<Rightarrow> event \<Rightarrow> bool" where
  "plain_event L e = (whole_time e \<and> (\<exists>z. GetTimezone e = Some z \<and> -1440 \<le> z \<and> z \<le> 1440) \<and>
     m_vectAttachment e = [] \<and> (\<exists>m. m_jsonValue e = JObj m \<and> (\<forall>j. map_of m ''topic'' = Some j \<longrightarrow> asString L j \<noteq> None)) \<and>
     CHR 0x27 \<notin> set (ev_id e) \<and> (\<forall>t. topic_of L e = Some t \<longrightarrow> CHR 0x27 \<notin> set t))"

definition plain_text :: "pipeline_env \<Rightarrow> string \<Rightarrow> bool" where
  "plain_text env str = (str \<noteq> '''' \<and> (\<exists>e. parsed env str = Some e \<and> plain_event env e))"

definition unnumbered :: "row \<Rightarrow> row" where
  "unnumbered r = r\<lparr>col_id := 0\<rparr>"

definition rows_for :: "pipeline_env \<Rightarrow> string \<Rightarrow> string list \<Rightarrow> row list" where
  "rows_for env t strs = concat (map (\<lambda>str. case Option.bind (parsed env str) (row_of_event env str) of
     None \<Rightarrow> [] | Some (u, r) \<Rightarrow> (if u = t then [r] else [])) strs)"

lemma db_Insert_run:
  assumes "db_script s = []" "quoted_ok r" "t \<in> event_tables" "col_id r = 0"
  shows "succeeds (db_Insert t r) s (\<lambda>_ s'. db_script s' = [] \<and> m_queEvent s' = m_queEvent s \<and>
    (\<forall>u. map unnumbered (rows u s') = map unnumbered (rows u s) @ (if u = t then [r] else [])))"
proof -
  have "unnumbered (r\<lparr>col_id := i\<rparr>) = r" for i
    using assms(4) by (simp add: unnumbered_def)
  moreover have "m_queEvent (map_rows t f s) = m_queEvent s" for f
    by (simp add: map_rows_def)
  ultimately show ?thesis
    using assms
    by (simp add: succeeds_def db_Insert_def db_exec_def Let_def rows_append)
qed

lemma checked_timezone:
  "-1440 \<le> z \<Longrightarrow> z \<le> 1440 \<Longrightarrow> int32 (z * 60) \<and> int32 (60 * z) \<and> int32 (60000 * z) \<and> int32 (z * 60000)"
  by (simp add: int32_def)

text \<open>Without attachments the two branches that choose the mode are one choice of the row.\<close>

lemma insert_supported_plain:
  assumes "m_vectAttachment e = []" "m_jsonValue e = JObj m"
    "\<forall>j. map_of m ''topic'' = Some j \<longrightarrow> asString env j \<noteq> None"
    "col_topic r = None" "col_stream r = 0" "col_batch r = 0"
  shows "insert_supported env e r =
    (let M = upload_modes env; i = ev_id e;
         stream = IsEventSupportedForStream i M; batch = IsEventSupportedForBatch i M; topic = topic_of env e in
     if stream \<or> batch \<or> topic \<noteq> None then
       then_do (db_Insert TABLE_EVENT_STORE (r\<lparr>col_topic := topic,
          col_stream := (if stream \<or> topic \<noteq> None \<and> IsStreamModeSupported M then 1 else 0),
          col_batch := (if batch \<or> topic \<noteq> None \<and> \<not> IsStreamModeSupported M \<and> IsBatchModeSupported M
            then 1 else 0)\<rparr>)) (\<lambda>_. ret ())
     else ret ())"
proof (cases "map_of m ''topic''")
  case None
  have r: "r\<lparr>col_topic := None\<rparr> = r" "r\<lparr>col_topic := None, col_batch := 0\<rparr> = r" "r\<lparr>col_stream := 0\<rparr> = r"
    using assms(4-6) by (auto intro: row.equality)
  have "topic_of env e = None"
    by (simp add: topic_of_def assms(2) None)
  then show ?thesis
    using assms None
    by (simp add: insert_supported_def Let_def ProcessEventForStreamMode_def then_do_ret may_throw_def)
      (auto intro!: arg_cong2[where f = then_do] arg_cong[where f = "db_Insert TABLE_EVENT_STORE"] row.equality)
next
  case (Some j)
  obtain t where t: "asString env j = Some t"
    using assms(3) Some by auto
  have "topic_of env e = Some t"
    by (simp add: topic_of_def assms(2) Some t)
  then show ?thesis
    using assms Some t
    by (simp add: insert_supported_def Let_def ProcessEventForStreamMode_def GetTopicedEventData_def then_do_ret may_throw_def)
      (auto intro!: arg_cong2[where f = then_do] arg_cong[where f = "db_Insert TABLE_EVENT_STORE"] row.equality simp: then_do_ret)
qed

lemma InsertEvent_plain:
  assumes str: "parsed env str = Some e" "plain_event env e" and s: "db_script s = []"
  shows "succeeds (InsertEvent env str) s (\<lambda>_ s'. db_script s' = [] \<and> m_queEvent s' = m_queEvent s \<and>
    (\<forall>u. map unnumbered (rows u s') = map unnumbered (rows u s) @ rows_for env u [str]))"
proof -
  let ?r = "event_row env (ev_id e) str (cast_double (time_of e))"
  define s0 where "s0 = (if ev_id e = ''IgniteClientLaunched'' then s\<lparr>start_messages := start_messages s + 1\<rparr> else s)"
  obtain n where n: "ev_timestamp e = JNum (of_int n)" "0 \<le> n" "n < 2 ^ 63"
    using str(2) by (auto simp: plain_event_def whole_time_def)
  obtain z where z: "GetTimezone e = Some z" "-1440 \<le> z" "z \<le> 1440"
    using str(2) by (auto simp: plain_event_def)
  obtain m where m: "m_jsonValue e = JObj m" "\<forall>j. map_of m ''topic'' = Some j \<longrightarrow> asString env j \<noteq> None"
    using str(2) by (auto simp: plain_event_def)
  have e: "m_vectAttachment e = []" "CHR 0x27 \<notin> set (ev_id e)" "\<forall>t. topic_of env e = Some t \<longrightarrow> CHR 0x27 \<notin> set t"
    using str(2) by (auto simp: plain_event_def)
  have t: "GetTimestamp e = Some (of_int n)" "time_of e = of_int n" "int64 n"
    using n by (auto simp: GetTimestamp_def time_of_def int64_def)
  have start: "InsertEvent env str s =
    (if IsStreamModeSupported (upload_modes env) \<and> IsAlert env (ev_id e)
     then then_do (db_Insert TABLE_ALERT_STORE ?r) (\<lambda>_. trigger_alerts)
     else insert_supported env e ?r) s0"
    using str(1)
    by (simp add: InsertEvent_def parsed_def t then_do_Ok cmd_simps z checked_timezone[OF z(2,3)] Let_def s0_def)
  have s': "db_script s0 = []" "m_queEvent s0 = m_queEvent s" "rows u s0 = rows u s" for u
    using s by (simp_all add: s0_def)
  show ?thesis
  proof (cases "IsStreamModeSupported (upload_modes env) \<and> IsAlert env (ev_id e)")
    case True
    have "succeeds (db_Insert TABLE_ALERT_STORE ?r) s0 (\<lambda>_ s'. db_script s' = [] \<and> m_queEvent s' = m_queEvent s0 \<and>
      (\<forall>u. map unnumbered (rows u s') = map unnumbered (rows u s0) @ (if u = TABLE_ALERT_STORE then [?r] else [])))"
      using e(2) by (intro db_Insert_run) (simp_all add: s' event_row_def quoted_ok_def)
    then have "succeeds (then_do (db_Insert TABLE_ALERT_STORE ?r) (\<lambda>_. trigger_alerts)) s0
      (\<lambda>_ s'. db_script s' = [] \<and> m_queEvent s' = m_queEvent s0 \<and>
      (\<forall>u. map unnumbered (rows u s') = map unnumbered (rows u s0) @ (if u = TABLE_ALERT_STORE then [?r] else [])))"
      unfolding succeeds_then_do by (rule succeeds_mono) (simp add: trigger_alerts_def outcome_simps)
    moreover have "rows_for env u [str] = (if u = TABLE_ALERT_STORE then [?r] else [])" for u
      using True by (auto simp: rows_for_def str(1) row_of_event_def Let_def)
    ultimately show ?thesis
      using True by (simp add: succeeds_def start s')
  next
    case False
    have "col_topic ?r = None" "col_stream ?r = 0" "col_batch ?r = 0"
      by (simp_all add: event_row_def)
    note run = insert_supported_plain[OF e(1) m this]
    let ?M = "upload_modes env" and ?topic = "topic_of env e"
    let ?stream = "IsEventSupportedForStream (ev_id e) ?M" and ?batch = "IsEventSupportedForBatch (ev_id e) ?M"
    let ?c = "?stream \<or> ?batch \<or> ?topic \<noteq> None"
    define r where "r = ?r\<lparr>col_topic := ?topic,
          col_stream := (if ?stream \<or> ?topic \<noteq> None \<and> IsStreamModeSupported ?M then 1 else 0),
          col_batch := (if ?batch \<or> ?topic \<noteq> None \<and> \<not> IsStreamModeSupported ?M \<and> IsBatchModeSupported ?M
            then 1 else 0)\<rparr>"
    have ins: "InsertEvent env str s = insert_supported env e ?r s0"
      using False by (simp only: start if_False)
    have sup: "insert_supported env e ?r = (if ?c then then_do (db_Insert TABLE_EVENT_STORE r) (\<lambda>_. ret ()) else ret ())"
      by (simp only: run Let_def r_def)
    have row: "row_of_event env str e = (if ?c then Some (TABLE_EVENT_STORE, r) else None)"
      unfolding row_of_event_def Let_def if_not_P[OF False] r_def by (rule refl)
    have r: "quoted_ok r" "col_id r = 0"
      using e(2,3) by (auto simp: r_def event_row_def quoted_ok_def split: option.splits)
    show ?thesis
    proof (cases ?c)
      case no: False
      have "InsertEvent env str s = (Ok (), s0)"
        unfolding ins sup if_not_P[OF no] by (simp add: ret_def)
      moreover have "row_of_event env str e = None"
        unfolding row if_not_P[OF no] by (rule refl)
      then have "rows_for env u [str] = []" for u
        by (simp add: rows_for_def str(1))
      ultimately show ?thesis
        by (simp add: succeeds_def s')
    next
      case yes: True
      have "succeeds (db_Insert TABLE_EVENT_STORE r) s0 (\<lambda>_ s'. db_script s' = [] \<and> m_queEvent s' = m_queEvent s0 \<and>
        (\<forall>u. map unnumbered (rows u s') = map unnumbered (rows u s0) @ (if u = TABLE_EVENT_STORE then [r] else [])))"
        using r by (intro db_Insert_run) (simp_all add: s')
      then have "succeeds (insert_supported env e ?r) s0 (\<lambda>_ s'. db_script s' = [] \<and> m_queEvent s' = m_queEvent s0 \<and>
        (\<forall>u. map unnumbered (rows u s') = map unnumbered (rows u s0) @ (if u = TABLE_EVENT_STORE then [r] else [])))"
        unfolding sup if_P[OF yes] succeeds_then_do by (rule succeeds_mono) (simp add: outcome_simps)
      moreover have "row_of_event env str e = Some (TABLE_EVENT_STORE, r)"
        unfolding row if_P[OF yes] by (rule refl)
      then have "rows_for env u [str] = (if u = TABLE_EVENT_STORE then [r] else [])" for u
        by (simp add: rows_for_def str(1))
      ultimately show ?thesis
        by (simp add: succeeds_def ins s')
    qed
  qed
qed

section \<open>A drained queue\<close>

definition queued :: "'a event_db_scheme \<Rightarrow> string list" where
  "queued s = map fst (m_queueQ (m_queEvent s))"

interpretation db_queue: event_fifo take_event queued "\<lambda>s. s\<lparr>m_queEvent := new_cqueue\<rparr>"
proof
  fix s :: "'a event_db_scheme"
  show "take_event s = (Ok None, s)" if "queued s = []"
    using that by (simp add: queued_def take_event_def Take_def)
next
  fix s :: "'a event_db_scheme" and x xs
  assume "queued s = x # xs"
  then show "succeeds take_event s (\<lambda>r s'. r = Some x \<and> queued s' = xs \<and>
      s'\<lparr>m_queEvent := new_cqueue\<rparr> = s\<lparr>m_queEvent := new_cqueue\<rparr>)"
    by (auto simp: queued_def take_event_def Take_def succeeds_def split: list.splits)
qed

definition cached :: "'a event_cache_scheme \<Rightarrow> string list" where
  "cached s = map fst (m_queueQ (m_eventQueue s))"

interpretation cache_queue: event_fifo take_cache cached "\<lambda>s. s\<lparr>m_eventQueue := new_cqueue\<rparr>"
proof
  fix s :: "'a event_cache_scheme"
  show "take_cache s = (Ok None, s)" if "cached s = []"
    using that by (simp add: cached_def take_cache_def Take_def)
next
  fix s :: "'a event_cache_scheme" and x xs
  assume "cached s = x # xs"
  then show "succeeds take_cache s (\<lambda>r s'. r = Some x \<and> cached s' = xs \<and>
      s'\<lparr>m_eventQueue := new_cqueue\<rparr> = s\<lparr>m_eventQueue := new_cqueue\<rparr>)"
    by (auto simp: cached_def take_cache_def Take_def succeeds_def split: list.splits)
qed

text \<open>Flushing stores every text, in the order of the queue, whichever tables they go to.\<close>

definition stored :: "pipeline_env \<Rightarrow> (string \<Rightarrow> row list) \<Rightarrow> string list \<Rightarrow> 'a event_db_scheme \<Rightarrow> bool" where
  "stored env old strs s = (db_script s = [] \<and>
     (\<forall>u. map unnumbered (rows u s) = old u @ rows_for env u strs))"

lemma rows_for_append: "rows_for env u (xs @ ys) = rows_for env u xs @ rows_for env u ys"
  by (simp add: rows_for_def)

lemma flush_event_stores:
  assumes "stored env old pre s" "plain_text env x"
  shows "succeeds (flush_event env x) s (\<lambda>_ s'. stored env old (pre @ [x]) s' \<and> queued s' = queued s)"
proof -
  obtain e where e: "x \<noteq> ''''" "parsed env x = Some e" "plain_event env e"
    using assms(2) by (auto simp: plain_text_def)
  have "succeeds (InsertEvent env x) s (\<lambda>_ s'. db_script s' = [] \<and> m_queEvent s' = m_queEvent s \<and>
    (\<forall>u. map unnumbered (rows u s') = map unnumbered (rows u s) @ rows_for env u [x]))"
    using assms(1) by (intro InsertEvent_plain[OF e(2,3)]) (simp add: stored_def)
  then show ?thesis
    using assms(1) e(1) unfolding flush_event_def ProcessMessage_def
    by (auto simp: stored_def queued_def rows_for_append elim!: succeeds_mono)
qed

lemma rows_event_rest:
  "s'\<lparr>m_queEvent := new_cqueue\<rparr> = s\<lparr>m_queEvent := new_cqueue\<rparr> \<Longrightarrow> rows u s' = rows u s \<and> db_script s' = db_script s"
  by (drule arg_cong[where f = "\<lambda>x. (rows u x, db_script x)"]) simp

lemma stored_rest: "s'\<lparr>m_queEvent := new_cqueue\<rparr> = s\<lparr>m_queEvent := new_cqueue\<rparr> \<Longrightarrow> stored env old pre s \<Longrightarrow> stored env old pre s'"
  unfolding stored_def using rows_event_rest by metis

lemma DB_FlushCache_stores:
  assumes "db_script s = []" "\<forall>x\<in>set (queued s). plain_text env x"
  shows "succeeds (DB_FlushCache env) s (\<lambda>_ s'. queued s' = [] \<and>
    (\<forall>u. map unnumbered (rows u s') = map unnumbered (rows u s) @ rows_for env u (queued s)))"
proof -
  have "stored env (\<lambda>u. map unnumbered (rows u s)) [] s"
    using assms(1) by (simp add: stored_def rows_for_def)
  then have "succeeds (drain take_event (flush_event env) (Suc (length (queued s)))) s
    (\<lambda>_ s'. stored env (\<lambda>u. map unnumbered (rows u s)) ([] @ queued s) s' \<and> queued s' = [])"
    using assms(2)
    by (intro db_queue.drain_all[where good = "plain_text env"]) (simp_all add: flush_event_stores stored_rest)
  moreover have "DB_FlushCache env s = drain take_event (flush_event env) (Suc (length (queued s))) s"
    unfolding DB_FlushCache_def then_do_get queued_def length_map by (rule refl)
  ultimately have "succeeds (DB_FlushCache env) s
    (\<lambda>_ s'. stored env (\<lambda>u. map unnumbered (rows u s)) ([] @ queued s) s' \<and> queued s' = [])"
    by (simp only: succeeds_def)
  then show ?thesis
    by (rule succeeds_mono) (simp add: stored_def)
qed

end
