(* ===== verification/Event_Chain.thy ===== *)
theory Event_Chain
  imports Event_Delivery
begin

text \<open>
  The chain of handlers as a whole: an ordinary event of a running session, with a time after the
  cutoff, passes the check of its time, the delay, the session handler and the message controller,
  and waits in the queue of the database thread, from which it gets into its table.
\<close>

section \<open>The text does not depend on the configuration around the library\<close>

lemma writeValue_lib: "real_string L = real_string L' \<Longrightarrow> writeValue L j = writeValue L' j"
proof (induction j)
  case (JArr js)
  then have "map (writeValue L) js = map (writeValue L') js"
    by simp
  then show ?case
    by (simp only: writeValue.simps)
next
  case (JObj m)
  then have "map (\<lambda>(k, v). valueToQuotedStringN k @ [CHR '':''] @ writeValue L v) m =
      map (\<lambda>(k, v). valueToQuotedStringN k @ [CHR '':''] @ writeValue L' v) m"
    by (auto simp: snds.simps)
  then show ?case
    by (simp only: writeValue.simps)
qed (simp_all add: number_text_def)

lemma EventToJson_lib:
  assumes "real_string L = real_string L'" "bBenchMode L = bBenchMode L'"
  shows "EventToJson L e = EventToJson L' e"
proof -
  have same: "FastWriter_write L = FastWriter_write L'" "event_root L = event_root L'"
    using writeValue_lib[OF assms(1)] assms(2) by (auto simp: FastWriter_write_def event_root_def fun_eq_iff)
  show ?thesis
    unfolding EventToJson_def same by (rule refl)
qed

section \<open>The handlers\<close>

text \<open>The queue takes the event: there is room, no event was ignored before, no mutex is taken.\<close>

definition room_for :: "string \<Rightarrow> 'a event_db_scheme \<Rightarrow> bool" where
  "room_for str s = (ucast (Size (m_queEvent s)) + word_of_nat (length str) < m_ulEventInsertThresholdSize s \<and>
     m_nIgnoredEventCnt s = 0 \<and> lock_script s = [])"

definition admits :: "pipeline_env \<Rightarrow> event \<Rightarrow> string \<Rightarrow> 'a event_db_scheme \<Rightarrow> bool" where
  "admits env e str s = (\<exists>ts. GetTimestamp e = Some ts \<and> int64 (cast_double ts) \<and>
     fst (IsValidInterval (m_bValidateInterval env) (ev_id e) (cast_double ts) (m_mapEventInterval s)) \<and>
     \<not> WaitForActivation env (ev_id e) s \<and> EventToJson env e = Some (str, e) \<and> room_for str s)"

definition appended :: "string \<Rightarrow> 'a event_db_scheme \<Rightarrow> 'b event_db_scheme \<Rightarrow> bool" where
  "appended str s s' = (queued s' = queued s @ [str] \<and> (\<forall>u. rows u s' = rows u s) \<and> db_script s' = db_script s)"

lemma put_event_free:
  assumes "lock_script s = []"
  shows "put_event str s = (Ok (), s\<lparr>m_queEvent := snd (Put 0 str (word_of_nat (length str)) (m_queEvent s))\<rparr>)"
  using assms by (simp add: put_event_def next_busy_def then_do_def cmd_run)

lemma DB_HandleEvent_admits:
  assumes "admits env e str s"
  shows "succeeds (DB_HandleEvent env e) s (\<lambda>_ s'. appended str s s')"
proof -
  obtain ts where ts: "GetTimestamp e = Some ts" "int64 (cast_double ts)"
    "fst (IsValidInterval (m_bValidateInterval env) (ev_id e) (cast_double ts) (m_mapEventInterval s))"
    "\<not> WaitForActivation env (ev_id e) s" "EventToJson env e = Some (str, e)" "room_for str s"
    using assms by (auto simp: admits_def)
  define m where "m = snd (IsValidInterval (m_bValidateInterval env) (ev_id e) (cast_double ts) (m_mapEventInterval s))"
  have c: "check_interval env (ev_id e) (cast_double ts) s = (Ok True, s\<lparr>m_mapEventInterval := m\<rparr>)"
    using ts(3) unfolding check_interval_def m_def
    by (cases "IsValidInterval (m_bValidateInterval env) (ev_id e) (cast_double ts) (m_mapEventInterval s)") simp
  have w: "\<not> WaitForActivation env (ev_id e) (s\<lparr>m_mapEventInterval := m\<rparr>)"
    using ts(4) by (simp add: WaitForActivation_def)
  have "succeeds (queue_event env ts str) (s\<lparr>m_mapEventInterval := m\<rparr>) (\<lambda>_ s'. appended str s s')"
    using ts(6)
    by (simp add: queue_event_def outcome_simps room_for_def report_ignored_def)
      (simp add: succeeds_def put_event_free appended_def queued_def Put_def lock_loop_iff rows_def)
  then show ?thesis
    using ts w by (simp add: DB_HandleEvent_def outcome_simps) (simp add: succeeds_def c)
qed

lemma admits_same:
  "admits env e str s \<Longrightarrow> m_queEvent s' = m_queEvent s \<Longrightarrow> m_ulEventInsertThresholdSize s' = m_ulEventInsertThresholdSize s \<Longrightarrow>
   m_nIgnoredEventCnt s' = m_nIgnoredEventCnt s \<Longrightarrow> lock_script s' = lock_script s \<Longrightarrow> m_mapEventInterval s' = m_mapEventInterval s \<Longrightarrow>
   device_activated s' = device_activated s \<Longrightarrow> admits env e str s'"
  by (auto simp: admits_def room_for_def WaitForActivation_def)

lemma appended_same:
  "appended str s' t \<Longrightarrow> m_queEvent s' = m_queEvent s \<Longrightarrow> event_store s' = event_store s \<Longrightarrow> alert_store s' = alert_store s \<Longrightarrow>
   db_script s' = db_script s \<Longrightarrow> appended str s t"
  by (simp add: appended_def queued_def rows_def)

lemma truncate_lib:
  "EventToJson (pipeline_env.truncate (env :: session_env)) e = EventToJson env e"
  by (rule EventToJson_lib) (simp_all add: pipeline_env.defs)

lemma trigger_alerts_run: "trigger_alerts s = (Ok (), s\<lparr>alert_triggers := Suc (alert_triggers s)\<rparr>)"
  by (simp add: trigger_alerts_def cmd_run)

text \<open>The controller adds a copy to its own queue.\<close>

lemma Controller_HandleEvent_admits:
  assumes "admits (pipeline_env.truncate env) e str s"
  shows "succeeds (Controller_HandleEvent env e) s (\<lambda>_ s'. appended str s s')"
proof -
  let ?s1 = "if IsAlert (pipeline_env.truncate env) (ev_id e) then s\<lparr>alert_triggers := Suc (alert_triggers s)\<rparr> else s"
  let ?s2 = "if Size (m_queMqttEvents ?s1) < 1000000
    then ?s1\<lparr>m_queMqttEvents := snd (Put 0 str (word_of_nat (length str)) (m_queMqttEvents ?s1))\<rparr> else ?s1"
  have str: "EventToJson env e = Some (str, e)" and l: "lock_script s = []"
    using assms by (auto simp: admits_def room_for_def truncate_lib)
  have "admits (pipeline_env.truncate env) e str ?s2"
    by (rule admits_same[OF assms]) simp_all
  then have "succeeds (DB_HandleEvent (pipeline_env.truncate env) e) ?s2 (\<lambda>_ s'. appended str ?s2 s')"
    by (rule DB_HandleEvent_admits)
  then have "succeeds (DB_HandleEvent (pipeline_env.truncate env) e) ?s2 (\<lambda>_ s'. appended str s s')"
    by (rule succeeds_mono) (erule appended_same; simp)
  moreover have "Controller_HandleEvent env e s = DB_HandleEvent (pipeline_env.truncate env) e ?s2"
    using l by (simp add: Controller_HandleEvent_def then_do_def cmd_run trigger_alerts_run may_throw_def str
        put_mqtt_def next_busy_def)
  ultimately show ?thesis
    by (simp add: succeeds_def)
qed

text \<open>An event that means nothing to the session handler.\<close>

definition ordinary_id :: "string \<Rightarrow> bool" where
  "ordinary_id i = (i \<notin> {'''', ''RPM'', ''EngineRPM'', ''IgnStatus'', ''IgniteClientLaunched'', ''SessionStatus''})"

lemma session_filter_passes:
  assumes "ordinary_id (ev_id e)" "m_bSessionInProgress s"
  shows "session_filter env e s = (Ok True, s)"
  using assms by (simp add: session_filter_def ordinary_id_def IsRpmEvent_def IsIgniteClientLaunchedEvent_def
      IsIgnStatusEvent_def then_do_def cmd_run Let_def)

lemma Session_HandleEvent_admits:
  assumes "ordinary_id (ev_id e)" "m_bSessionInProgress s" "admits (pipeline_env.truncate env) e str s"
  shows "succeeds (Session_HandleEvent env e) s (\<lambda>_ s'. appended str s s')"
proof -
  have "Session_HandleEvent env e s =
    (if IsStreamModeSupported (upload_modes env) then Controller_HandleEvent env e
     else DB_HandleEvent (pipeline_env.truncate env) e) s"
    by (simp add: Session_HandleEvent_def then_do_def session_filter_passes[OF assms(1,2)])
  then show ?thesis
    using Controller_HandleEvent_admits[OF assms(3)] DB_HandleEvent_admits[OF assms(3)]
    by (simp add: succeeds_def)
qed

lemma Delay_HandleEvent_admits:
  assumes "ordinary_id (ev_id e)" "m_bSessionInProgress s" "admits (pipeline_env.truncate env) e str s"
  shows "succeeds (Delay_HandleEvent env e) s (\<lambda>_ s'. appended str s s')"
proof -
  let ?s = "note_activity env (ev_id e) s"
  have "succeeds (Session_HandleEvent env e) ?s (\<lambda>_ s'. appended str ?s s')"
    using assms by (intro Session_HandleEvent_admits admits_same[OF assms(3)]) (simp_all add: note_activity_def)
  then have "succeeds (Session_HandleEvent env e) ?s (\<lambda>_ s'. appended str s s')"
    by (rule succeeds_mono) (erule appended_same; simp add: note_activity_def)
  then show ?thesis
    by (simp add: Delay_HandleEvent_def outcome_simps)
qed

text \<open>Once the clock is known, an event after the cutoff goes on as it is.\<close>

lemma TS_HandleEvent_passes:
  assumes "GetTimestamp e = Some ts" "m_dblTimestampCutoff \<le> ts" "m_dblFrstValidTimestamp s \<noteq> 0" "ev_id e \<noteq> ''''"
  shows "TS_HandleEvent nxt env e s = nxt e s"
  using assms by (simp add: TS_HandleEvent_def IsEventHasValidTS_def ValidateTsOfEvent_def FixAndSend_def
      ValidateAndSendEvent_def may_throw_def then_do_def cmd_run)

lemma chain_queues:
  assumes "GetTimestamp e = Some ts" "m_dblTimestampCutoff \<le> ts" "m_dblFrstValidTimestamp s \<noteq> 0"
    and "ordinary_id (ev_id e)" "m_bSessionInProgress s" "admits (to_pipeline env) e str s"
  shows "succeeds (TS_HandleEvent (Delay_HandleEvent (session_env.truncate env)) env e) s (\<lambda>_ s'. appended str s s')"
proof -
  have "TS_HandleEvent (Delay_HandleEvent (session_env.truncate env)) env e s =
      Delay_HandleEvent (session_env.truncate env) e s"
    using assms by (intro TS_HandleEvent_passes) (auto simp: ordinary_id_def)
  then show ?thesis
    using Delay_HandleEvent_admits[OF assms(4-6)] by (simp add: succeeds_def)
qed

lemma chain_stores:
  assumes "GetTimestamp e = Some ts" "m_dblTimestampCutoff \<le> ts" "m_dblFrstValidTimestamp s \<noteq> 0"
    and "ordinary_id (ev_id e)" "m_bSessionInProgress s" "admits (to_pipeline env) e str s"
    and "db_script s = []" "queued s = []" "plain_text (to_pipeline env) str"
  shows "succeeds (then_do (TS_HandleEvent (Delay_HandleEvent (session_env.truncate env)) env e)
      (\<lambda>_. DB_FlushCache (to_pipeline env))) s (\<lambda>_ s'. queued s' = [] \<and>
    (\<forall>u. map unnumbered (rows u s') = map unnumbered (rows u s) @ rows_for (to_pipeline env) u [str]))"
  unfolding succeeds_then_do
proof (rule succeeds_mono[OF chain_queues[OF assms(1-6)]])
  fix u s1 assume "appended str s s1"
  then have "queued s1 = [str]" "\<forall>u. rows u s1 = rows u s" "db_script s1 = []"
    using assms(7,8) by (auto simp: appended_def)
  then show "succeeds (DB_FlushCache (to_pipeline env)) s1 (\<lambda>_ s'. queued s' = [] \<and>
    (\<forall>u. map unnumbered (rows u s') = map unnumbered (rows u s) @ rows_for (to_pipeline env) u [str]))"
    using DB_FlushCache_stores[of s1 "to_pipeline env"] assms(9) by simp
qed


end
