(* ===== verification/Event_Properties.thy ===== *)
theory Event_Properties
  imports Event_Chain
begin

text \<open>The properties of the events, their text, and their way to the tables, with concrete cases.\<close>

section \<open>Text\<close>

definition example_lib :: json_lib where
  "example_lib = \<lparr>real_string = (\<lambda>_. ''0.5''), read_real = (\<lambda>_. Some (1 / 2)), bBenchMode = False\<rparr>"

text \<open>C4: reading what the writer made of a value gives the value back, when its numbers are integers
  of 64 bits or reals that the C++ library reads back, its keys are in order, and it is not nested
  deeper than the reader allows; strings may hold any bytes.\<close>

theorem json_text_roundtrip:
  assumes "readable_json L 0 j"
  shows "Reader_parse L (FastWriter_write L j) = Some (True, j)"
  by (rule Reader_parse_write[OF assms])

lemma half_no_integer: "\<not> is_integer (1 / 2)"
  by (simp add: is_integer_def floor_divide_of_int_eq[of 1 2, simplified])

lemma json_text_roundtrip_witness:
  "Reader_parse example_lib (FastWriter_write example_lib (JObj
      [(''a'', JArr [JNum (1 / 2), JNum (- 12), JObj []]), (''b'', JStr [CHR 0x22, CHR 0x07, CHR 0xE9, CHR 0x00])]))
    = Some (True, JObj [(''a'', JArr [JNum (1 / 2), JNum (- 12), JObj []]), (''b'', JStr [CHR 0x22, CHR 0x07, CHR 0xE9, CHR 0x00])])"
proof (rule json_text_roundtrip)
  have "readable_number example_lib (1 / 2)"
    by (simp add: readable_number_def half_no_integer example_lib_def readNumber_def is_digit_def Let_def)
  moreover have "readable_number example_lib (- 12)"
    by (simp add: readable_number_def is_integer_def)
  ultimately show "readable_json example_lib 0 (JObj
      [(''a'', JArr [JNum (1 / 2), JNum (- 12), JObj []]), (''b'', JStr [CHR 0x22, CHR 0x07, CHR 0xE9, CHR 0x00])])"
    by simp
qed



section \<open>Events\<close>

text \<open>What the program makes: fields that can be read back, and no null in place of personal data.\<close>

definition sound_event :: "'a json_lib_scheme \<Rightarrow> event \<Rightarrow> bool" where
  "sound_event L e = (readable_event L e \<and> (json_empty (m_jsonPiiFields e) \<longrightarrow> m_jsonPiiFields e = JObj []))"

definition example_event :: "string \<Rightarrow> int \<Rightarrow> event" where
  "example_event i t = make_event ''1.0'' i 60 (of_int t)"

lemma sound_example: "0 \<le> t \<Longrightarrow> t < 2 ^ 63 \<Longrightarrow> sound_event L (example_event i t)"
  by (auto simp: sound_event_def readable_event_def regular_def whole_time_def example_event_def make_event_def
      new_event_def intro!: exI[of _ 60])

lemma sound_event_text:
  assumes "sound_event L e"
  shows "\<exists>str. EventToJson L e = Some (str, e) \<and> JsonToEvent L str (new_event tz now) = Some e"
  using assms by (intro JsonToEvent_EventToJson) (simp_all add: sound_event_def new_event_def)

text \<open>C19: the text of an event gives the event back, whatever bytes its strings hold.\<close>

theorem event_text_roundtrip:
  assumes "sound_event L e"
  shows "\<exists>str. EventToJson L e = Some (str, e) \<and> JsonToEvent L str (new_event tz now) = Some e"
  by (rule sound_event_text[OF assms])

lemma event_text_roundtrip_witness:
  "\<exists>str. EventToJson example_lib (example_event ''Speed'' 1704067200001) = Some (str, example_event ''Speed'' 1704067200001) \<and>
    JsonToEvent example_lib str (new_event 0 0) = Some (example_event ''Speed'' 1704067200001)"
  by (rule event_text_roundtrip) (simp add: sound_example)

section \<open>The queue between the threads\<close>

text \<open>The \<open>Put\<close>s that find the mutex taken fewer than 10 times, in order.\<close>

fun accepted_puts :: "'d qop list \<Rightarrow> 'd list" where
  "accepted_puts [] = []"
| "accepted_puts (QPut busy d n # ops) = (if busy < 10 then d # accepted_puts ops else accepted_puts ops)"
| "accepted_puts (QTake # ops) = accepted_puts ops"

lemma run_queue_accepted: "run_queue ops q = (ins, outs, q') \<Longrightarrow> ins = accepted_puts ops"
proof (induction ops q arbitrary: ins outs q' rule: run_queue.induct)
  case (2 busy d n ops q)
  then show ?case
    by (cases "run_queue ops (snd (Put busy d n q))")
      (auto simp: Put_def lock_loop_iff MAX_LOCK_RETRIES_def split: prod.splits if_splits)
qed (auto split: prod.splits)

text \<open>C27: for every history of a queue, what was taken followed by what waits is what waited before
  followed by what was accepted, in order; a \<open>Put\<close> is accepted exactly when it finds the mutex taken
  fewer than 10 times, so otherwise its event is lost; and the size stays the sum of the sizes of
  what waits.\<close>

theorem queue_keeps_order:
  assumes "run_queue ops q = (ins, outs, q')" "size_ok q"
  shows "map fst (m_queueQ q) @ accepted_puts ops = outs @ map fst (m_queueQ q') \<and> ins = accepted_puts ops \<and> size_ok q'"
  using run_queue_fifo[OF assms(1)] run_queue_size_ok[OF assms] run_queue_accepted[OF assms(1)] by simp

lemma queue_keeps_order_witness:
  "\<exists>q'. run_queue [QPut 0 ''a'' 1, QPut 10 ''b'' 1, QTake, QPut 9 ''c'' 2] new_cqueue = ([''a'', ''c''], [''a''], q') \<and>
    map fst (m_queueQ q') = [''c''] \<and> size_ok q'"
proof -
  let ?ops = "[QPut 0 ''a'' 1, QPut 10 ''b'' 1, QTake, QPut 9 ''c'' 2]"
  obtain ins outs q' where r: "run_queue ?ops new_cqueue = (ins, outs, q')"
    by (cases "run_queue ?ops new_cqueue") auto
  have "outs = [''a'']"
    using r by (simp add: Put_def Take_def lock_loop_iff MAX_LOCK_RETRIES_def new_cqueue_def)
  then show ?thesis
    using queue_keeps_order[OF r new_cqueue_ok] r by (simp add: new_cqueue_def)
qed

section \<open>The intervals of events\<close>









section \<open>From the queue to the tables\<close>

text \<open>C13: what the database thread does with the queue, in its rounds and when it is flushed, is a run
  of the steps of the upload that only insert: whatever events arrive, however the statements fail,
  the tables of the uploader only grow by new rows that no publish has marked.\<close>

theorem database_thread_is_upload_run:
  assumes "\<forall>t. rows t (upl h) = rows t s" "\<forall>t. used_ids h t \<subseteq> {..row_ids s t}"
    and "c = ProcessQueueData env n \<or> c = DB_FlushCache env"
  shows "\<exists>h'. upload_steps uenv h h' \<and> (\<forall>t. rows t (upl h') = rows t (snd (c s))) \<and>
    (\<forall>t. used_ids h' t \<subseteq> {..row_ids (snd (c s)) t}) \<and> sent_log h' = sent_log h \<and> acked h' = acked h"
proof -
  have "inserts c"
    using assms(3) inserts_ProcessQueueData inserts_DB_FlushCache by blast
  then have "only_inserts s (snd (c s))"
    by (simp add: inserts_def)
  then show ?thesis
    using only_inserts_steps assms(1,2) by blast
qed

definition example_modes :: upload_mode where
  "example_modes = \<lparr>m_ConfiguredModes = (True, False), m_DefaultMode = (True, False), m_mapEventModeMap = Map.empty,
     m_bAnonymousUploadMode = False, m_bStoreAndForwardEnabled = False\<rparr>"

definition event_env :: validation_env where
  "event_env = \<lparr>real_string = (\<lambda>_. ''0.5''), read_real = (\<lambda>_. Some (1 / 2)), bBenchMode = False,
     EncryptEventData = (\<lambda>x. x), upload_modes = example_modes, DirectAlerts = [''Tow''], m_bValidateInterval = False,
     m_ulEventQueueMaxSize = 1000000, m_ulEventInsertWindowSize = 100000, m_nDbEventStoreRecordAvgSize = 500,
     m_nMaxEventInsertInOneTxn = 100, m_bUploadAfterActivation = True, m_SetActivationExceptionEvents = [],
     tz_offset = 60, attach_path = ''/a'', startup_type = ''self'', m_pSetExceptionEvents = Some [], m_bGenIgnON = True,
     m_bGenIgnOFF = True, m_mapEventConfigData = Map.empty, restart_count = 0, startup_reason = '''', sw_version = ''1'',
     upload_properties = ''{}'', DecryptText = (\<lambda>x. x), m_unDbSizeLimit = 1000, storeInvalidEvents = True,
     m_setExceptionEvents = []\<rparr>"

definition event_state :: "string list \<Rightarrow> event_validation" where
  "event_state queue = \<lparr>event_store = [], alert_store = [], db_script = [], row_ids = (\<lambda>_. 0),
     m_queEvent = \<lparr>m_queueQ = map (\<lambda>x. (x, 1)) queue, m_unSize = word_of_nat (length queue)\<rparr>, lock_script = [],
     m_ulEventSizeInQueue = 0, m_ulEventInsertThresholdSize = 1000000, m_ulIgnoredEventSize = 0, m_nIgnoredEventCnt = 0,
     m_dblEventIgnoreStartTs = 0, m_mapEventInterval = Map.empty, device_activated = True, removed_files = [],
     start_messages = 0, alert_triggers = 0, raised = [], m_queMqttEvents = new_cqueue, m_bSessionInProgress = True,
     m_eIgnState = eIGNITION_ON, m_eLastIgnStatus = eIGNITION_ON, m_mapDefervent = [], clock_ms = 1704067300000,
     boot_ms = 1000, monotonic_ms = 5, invalid_store = [], invalid_next = 1, m_listDBOverLimitEventList = [],
     db_sizes = [], m_listInitialEvents = [], m_bInvalidEventsAvailableInDb = False, m_dblLastInvalidTimestamp = 0,
     m_dblFrstValidTimestamp = 1704067200000\<rparr>"

definition example_history :: history where
  "example_history = \<lparr>upl = \<lparr>event_store = [], alert_store = [], db_script = [], m_setPublishedMidSet = {},
     m_mapMidDBTableMap = (\<lambda>_. None), m_queMidTobeDeleted = [], m_unMaxEventUploadCnt = 20,
     m_bShutdownRequested = False, m_bUploadSuspended = False, m_bUploadRequested = True, m_bAlertsAvailable = False,
     is_connected = True, publish_script = [], gzip_script = [], published = [], disconnects = 0,
     m_nEvntUploadLogIterCount = -1, m_nEvntUploadSummaryIterCount = 20, m_unCurrEvntUploadCnt = 0,
     m_unCurrEvntUploadSummaryCnt = 0, m_unCurrUploadedEvntCnt = 0\<rparr>, selected = [], sent_log = (\<lambda>_. None), acked = {},
     unmarked = [], unannounced = [], used_ids = (\<lambda>_. {})\<rparr>"

lemma example_rows: "rows t (upl example_history) = rows t (event_state q)"
  by (simp add: rows_def example_history_def event_state_def)

definition example_upload_env :: uploader_env where
  "example_upload_env = \<lparr>DecryptEventData = (\<lambda>x. x), json_parses = (\<lambda>x. x \<noteq> ''''), batch_supported = False,
     stream_supported = True, device_id = ''device'', topic_prefix = ''vehicle/'',
     gzip = (\<lambda>x. x), m_bCompression = False\<rparr>"

lemma database_thread_is_upload_run_witness:
  "\<exists>str h'. EventToJson (to_pipeline event_env) (example_event ''Speed'' 1704067200001) = Some (str, example_event ''Speed'' 1704067200001) \<and>
    upload_steps example_upload_env example_history h' \<and>
    (\<forall>t. rows t (upl h') = rows t (snd (DB_FlushCache (to_pipeline event_env) (event_state [str]))))"
proof -
  obtain str where "EventToJson (to_pipeline event_env) (example_event ''Speed'' 1704067200001) =
      Some (str, example_event ''Speed'' 1704067200001)"
    using sound_event_text[OF sound_example[of 1704067200001 "to_pipeline event_env" "''Speed''"]] by auto
  moreover have "\<exists>h'. upload_steps example_upload_env example_history h' \<and>
      (\<forall>t. rows t (upl h') = rows t (snd (DB_FlushCache (to_pipeline event_env) (event_state [str]))))"
    using database_thread_is_upload_run[of example_history "event_state [str]"
        "DB_FlushCache (to_pipeline event_env)" "to_pipeline event_env" 0 example_upload_env] example_rows
    by (auto simp: example_history_def)
  ultimately show ?thesis
    by blast
qed


lemma plain_example:
  assumes "EventToJson env (example_event ''Speed'' 1704067200001) = Some (str, e)"
  shows "parsed env str = Some (example_event ''Speed'' 1704067200001)"
    "plain_event env (example_event ''Speed'' 1704067200001)" "str \<noteq> ''''"
proof -
  let ?e = "example_event ''Speed'' 1704067200001"
  obtain s where s: "EventToJson env ?e = Some (s, ?e)" "JsonToEvent env s (new_event (tz_offset env) 0) = Some ?e"
    using sound_event_text[OF sound_example[of 1704067200001 env "''Speed''"], of "tz_offset env" 0] by auto
  then show "parsed env str = Some ?e"
    using assms by (simp add: parsed_def)
  show "plain_event env ?e"
    by (auto simp: plain_event_def whole_time_def example_event_def make_event_def new_event_def GetTimezone_def topic_of_def cast_double_def)
  show "str \<noteq> ''''"
    using assms by (auto simp: EventToJson_def example_event_def make_event_def new_event_def FastWriter_write_def)
qed




section \<open>Times before the clock is set\<close>

text \<open>C8: events that come before the clock is set (their times lie before the cutoff), however many,
  are held back, the first of them beyond a hundred in the table for them; the first event with a
  time after the cutoff sends each of them exactly once, before itself, with its time moved so that
  the distances between the events are kept and the last of them gets the time of the first valid
  event.\<close>

theorem early_events_are_shifted:
  assumes "\<forall>a\<in>set es. sound_event env a \<and> 0 < time_of a \<and> ev_id a \<notin> set (m_setExceptionEvents env) \<and>
      fixable (last_time es) a"
    and "\<forall>x. DecryptText env (EncryptEventData env x) = x" "storeInvalidEvents env" "0 < m_unDbSizeLimit env"
    and "store_ok env s" "m_listInitialEvents s = []" "invalid_store s = []" "m_dblLastInvalidTimestamp s = 0"
    and "GetTimestamp e = Some ts" "m_dblTimestampCutoff \<le> ts" "ev_id e \<notin> set (m_setExceptionEvents env)" "ev_id e \<noteq> ''''"
  shows "succeeds (then_do (run_all (TS_HandleEvent recorder env) es) (\<lambda>_. TS_HandleEvent recorder env e)) s
    (\<lambda>_ s'. waiting env s' = [] \<and>
      (\<exists>xs. mset xs = mset es \<and> calls s' = calls s @ map (fixed ts (last_time es)) xs @ [e] \<and>
        (\<forall>a\<in>set xs. time_of (fixed ts (last_time es) a) = ts - (last_time es - time_of a))))"
proof -
  have "\<forall>a\<in>set es. before_cutoff env a \<and> fixable (last_time es) a"
  proof
    fix a assume "a \<in> set es"
    then have a: "sound_event env a" "0 < time_of a" "ev_id a \<notin> set (m_setExceptionEvents env)" "fixable (last_time es) a"
      using assms(1) by auto
    moreover have "whole_time a"
      using a(1) by (simp add: sound_event_def readable_event_def regular_def)
    ultimately show "before_cutoff env a \<and> fixable (last_time es) a"
      using sound_event_text[OF a(1)] assms(2) fixable_before
      unfolding before_cutoff_def stores_def by blast
  qed
  from TS_run[OF this assms(5-8) assms(3,4) assms(9-12)] show ?thesis
    by (rule succeeds_mono) (simp add: fixed_time)
qed

definition example_recorded :: recorded where
  "example_recorded = event_validation.extend (event_state []\<lparr>m_dblFrstValidTimestamp := 0\<rparr>) \<lparr>calls = []\<rparr>"


lemma example_time: "time_of (example_event i t) = of_int t" "ev_id (example_event i t) = i"
    "ev_timestamp (example_event i t) = JNum (of_int t)" "m_jsonValue (example_event i t) = JObj []"
  by (simp_all add: time_of_def example_event_def make_event_def new_event_def GetTimestamp_def)

lemma early_events_are_shifted_witness:
  "succeeds (then_do (run_all (TS_HandleEvent recorder event_env) [example_event ''A'' 10, example_event ''B'' 30])
      (\<lambda>_. TS_HandleEvent recorder event_env (example_event ''C'' 1704067200500))) example_recorded
    (\<lambda>_ s'. waiting event_env s' = [] \<and>
      (\<exists>xs. mset xs = mset [example_event ''A'' 10, example_event ''B'' 30] \<and>
        calls s' = map (fixed 1704067200500 30) xs @ [example_event ''C'' 1704067200500] \<and>
        (\<forall>a\<in>set xs. time_of (fixed 1704067200500 30 a) = 1704067200500 - (30 - time_of a))))"
proof -
  let ?es = "[example_event ''A'' 10, example_event ''B'' 30]"
  have last: "last_time ?es = 30"
    by (simp add: last_time_def example_time)
  have f: "fixable 30 (example_event i t)" if "i \<noteq> ''''" "0 \<le> t" "t \<le> 100" for i t
    unfolding fixable_def example_time
  proof (intro exI conjI)
    show "JNum (of_int t) = JNum (of_int t)" "JObj [] = JObj []" "i \<noteq> ''''" "30 = (of_int 30 :: rat)"
      using that by simp_all
    show "of_int t < m_dblTimestampCutoff"
      using that of_int_le_iff[of t 100, where 'a = rat] by (simp add: m_dblTimestampCutoff_def)
    show "int32 (30 - t)"
      using that by (simp add: int32_def)
  qed
  have s: "store_ok event_env example_recorded" "m_listInitialEvents example_recorded = []"
    "invalid_store example_recorded = []" "m_dblLastInvalidTimestamp example_recorded = 0" "calls example_recorded = []"
    by (simp_all add: store_ok_def example_recorded_def event_state_def event_validation.defs)
  have "\<forall>a\<in>set ?es. sound_event event_env a \<and> 0 < time_of a \<and> ev_id a \<notin> set (m_setExceptionEvents event_env) \<and>
      fixable (last_time ?es) a"
    by (simp add: last sound_example f example_time) (simp add: event_env_def)
  moreover have "GetTimestamp (example_event ''C'' 1704067200500) = Some 1704067200500"
    by (simp add: GetTimestamp_def example_time)
  ultimately show ?thesis
    using early_events_are_shifted[of ?es event_env example_recorded "example_event ''C'' 1704067200500" 1704067200500] s last
    by (simp add: example_time m_dblTimestampCutoff_def event_env_def)
qed


section \<open>From a handler to a row\<close>

lemma example_text_short:
  assumes "EventToJson (to_pipeline event_env) (example_event ''Speed'' 1704067200001) = Some (str, e)"
  shows "length str < 100"
proof -
  have n: "length (nat_string 1704067200001) = 13" "length (nat_string 60) = 2"
    by (simp_all add: nat_string.simps)
  show ?thesis
    using assms
    by (simp add: EventToJson_def example_event_def make_event_def new_event_def FastWriter_write_def event_root_def
        put_some_def tag_defs quoted_text pipeline_env.defs session_env.defs event_env_def)
      (auto simp: number_text_def is_integer_def NumberToString_def n escape_char_def isControlCharacter_def)
qed

text \<open>C3: an ordinary event of a running session, with a time after the cutoff when the clock is known
  and one that its interval admits, on an activated device with room in the queue, passes every
  handler of the chain and, once the queue is flushed and no statement fails, has left exactly the
  row that the modes give it, and no other.\<close>

theorem event_reaches_its_table:
  assumes "GetTimestamp e = Some ts" "m_dblTimestampCutoff \<le> ts" "m_dblFrstValidTimestamp s \<noteq> 0"
    and "ordinary_id (ev_id e)" "m_bSessionInProgress s" "admits (to_pipeline env) e str s"
    and "db_script s = []" "queued s = []" "plain_text (to_pipeline env) str"
  shows "succeeds (then_do (TS_HandleEvent (Delay_HandleEvent (session_env.truncate env)) env e)
      (\<lambda>_. DB_FlushCache (to_pipeline env))) s (\<lambda>_ s'. queued s' = [] \<and>
    (\<forall>u. map unnumbered (rows u s') = map unnumbered (rows u s) @ rows_for (to_pipeline env) u [str]))"
  by (rule chain_stores[OF assms])

lemma event_reaches_its_table_witness:
  "\<exists>str. EventToJson (to_pipeline event_env) (example_event ''Speed'' 1704067200001) = Some (str, example_event ''Speed'' 1704067200001) \<and>
    succeeds (then_do (TS_HandleEvent (Delay_HandleEvent (session_env.truncate event_env)) event_env (example_event ''Speed'' 1704067200001))
      (\<lambda>_. DB_FlushCache (to_pipeline event_env))) (event_state []) (\<lambda>_ s'. queued s' = [] \<and>
    (\<forall>u. map unnumbered (rows u s') = map unnumbered (rows u (event_state [])) @ rows_for (to_pipeline event_env) u [str]))"
proof -
  let ?env = "to_pipeline event_env" and ?e = "example_event ''Speed'' 1704067200001"
  obtain str where str: "EventToJson ?env ?e = Some (str, ?e)"
    using sound_event_text[OF sound_example[of 1704067200001 ?env "''Speed''"]] by auto
  have t: "GetTimestamp ?e = Some 1704067200001" "ev_id ?e = ''Speed''"
    by (simp_all add: GetTimestamp_def example_time)
  have "unat (word_of_nat (length str) :: 64 word) < 1000000"
    using example_text_short[OF str] le_less_trans[OF take_bit_nat_less_eq_self[of 64 "length str"], of 1000000]
    by (simp add: unsigned_of_nat)
  then have "word_of_nat (length str) < (1000000 :: 64 word)"
    by (simp add: word_less_nat_alt)
  then have "room_for str (event_state [])"
    by (simp add: room_for_def event_state_def Size_def)
  moreover have "device_activated (event_state [])"
    by (simp add: event_state_def)
  moreover have "m_bValidateInterval ?env = False"
    by (simp add: event_env_def pipeline_env.defs session_env.defs)
  ultimately have a: "admits ?env ?e str (event_state [])"
    using str t by (simp add: admits_def WaitForActivation_def IsValidInterval_def int64_def cast_double_def)
  have "plain_text ?env str"
    using plain_example[OF str] by (simp add: plain_text_def)
  then show ?thesis
    using str t a
    by (intro exI[of _ str] conjI event_reaches_its_table[OF t(1)])
      (simp_all add: m_dblTimestampCutoff_def event_state_def ordinary_id_def queued_def)
qed

end
